(* ===== verification/Prelude.thy ===== *)
theory Prelude
  imports Main "HOL-Library.Word" "HOL-Library.AList" "HOL-Library.Monad_Syntax"
begin

unbundle bit_operations_syntax

text \<open>
  Shared vocabulary of the development: the machine integers of the C and C++ sources as words,
  the decimal rendering of \<open>std::to_string\<close>, association lists for the standard library's
  unordered containers (a list in the iteration order of the container), sequencing of fallible
  writers, and the generic lemmas that the component theories use.
\<close>

section \<open>Machine integers and the collections of simplification rules\<close>

type_synonym u8 = "8 word"
type_synonym u16 = "16 word"
type_synonym u32 = "32 word"
type_synonym u64 = "64 word"

text \<open>Signed integers are words as well; \<open>sint\<close> reads them as two's complement.\<close>

type_synonym i32 = "32 word"
type_synonym i64 = "64 word"

named_theorems wire_simps \<open>writers and readers of the wire formats\<close>
named_theorems sched_simps \<open>frame and lookup rules of the task scheduler\<close>
named_theorems ctx_simps \<open>lookup and counting rules of the context manager\<close>
named_theorems sys_simps \<open>the descriptor table and the memory files\<close>

section \<open>Decimal rendering\<close>

text \<open>\<open>std::to_string\<close> on an unsigned value.\<close>

fun nat_to_string :: "nat \<Rightarrow> string" where
  "nat_to_string n =
     (if n < 10 then [char_of (48 + n)]
      else nat_to_string (n div 10) @ [char_of (48 + n mod 10)])"

declare nat_to_string.simps [simp del]

definition u64_to_string :: "u64 \<Rightarrow> string" where
  "u64_to_string w = nat_to_string (unat w)"

text \<open>\<open>std::to_string\<close> on a signed value.\<close>

definition int_to_string :: "int \<Rightarrow> string" where
  "int_to_string i =
     (if i < 0 then CHR ''-'' # nat_to_string (nat (- i)) else nat_to_string (nat i))"

fun string_to_nat :: "string \<Rightarrow> nat" where
  "string_to_nat cs = foldl (\<lambda>n c. 10 * n + (of_char c - 48)) 0 cs"

lemma string_to_nat_snoc:
  "string_to_nat (cs @ [c]) = 10 * string_to_nat cs + (of_char c - 48)"
  by simp

lemma string_to_nat_to_string: "string_to_nat (nat_to_string n) = n"
proof (induction n rule: nat_to_string.induct)
  case (1 n)
  show ?case
  proof (cases "n < 10")
    case True
    then have "nat_to_string n = [char_of (48 + n)]" by (simp add: nat_to_string.simps)
    moreover have "of_char (char_of (48 + n)) = 48 + n"
      using True by simp
    ultimately show ?thesis by simp
  next
    case False
    then have eq: "nat_to_string n = nat_to_string (n div 10) @ [char_of (48 + n mod 10)]"
      by (subst nat_to_string.simps) simp
    have "of_char (char_of (48 + n mod 10)) = 48 + n mod 10"
      by simp
    with "1.IH" False show ?thesis
      by (simp only: eq string_to_nat_snoc) simp
  qed
qed

lemma nat_to_string_inject [simp]: "nat_to_string m = nat_to_string n \<longleftrightarrow> m = n"
  by (metis string_to_nat_to_string)

lemma u64_to_string_inject [simp]: "u64_to_string a = u64_to_string b \<longleftrightarrow> a = b"
  by (simp add: u64_to_string_def word_unat_eq_iff)

section \<open>Association lists in iteration order\<close>

text \<open>
  An unordered container of the C++ standard library is modelled by the list of its entries in
  the order in which the container is iterated. That order is unspecified by the language, so
  every theorem is about an arbitrary list. \<open>map_of\<close> is \<open>find\<close>.
\<close>

lemma map_of_SomeD_key: "map_of al k = Some v \<Longrightarrow> k \<in> fst ` set al"
  by (auto dest: map_of_SomeD intro: rev_image_eqI)

lemma distinct_fst_map_of:
  "distinct (map fst al) \<Longrightarrow> (k, v) \<in> set al \<longleftrightarrow> map_of al k = Some v"
  by auto

lemma map_entry_map_of:
  "map_of (AList.map_entry k f al) = (map_of al)(k := map_option f (map_of al k))"
proof -
  have "map_of (AList.map_entry k f al) k' =
        ((map_of al)(k := map_option f (map_of al k))) k'" for k'
    by (induction al) auto
  then show ?thesis by (rule ext)
qed

lemma map_entry_keys [simp]: "map fst (AList.map_entry k f al) = map fst al"
  by (induction al) auto

lemma map_entry_fst_set [simp]: "fst ` set (AList.map_entry k f al) = fst ` set al"
  by (metis list.set_map map_entry_keys)

section \<open>Sequencing fallible writers\<close>

text \<open>
  A function of the source that appends to a buffer and may fail with an error message is a
  function from the buffer to a sum. \<open>run_writers\<close> runs a sequence of them and stops at the
  first failure, as the early returns of the source do.
\<close>

type_synonym writer = "u8 list \<Rightarrow> string + u8 list"

fun run_writers :: "writer list \<Rightarrow> writer" where
  "run_writers [] out = Inr out"
| "run_writers (w # ws) out =
     (case w out of Inl e \<Rightarrow> Inl e | Inr out' \<Rightarrow> run_writers ws out')"

lemma run_writers_append:
  "run_writers (ws @ vs) out =
     (case run_writers ws out of Inl e \<Rightarrow> Inl e | Inr out' \<Rightarrow> run_writers vs out')"
  by (induction ws arbitrary: out) (auto split: sum.splits)

lemma run_writers_Cons_InrE:
  assumes "run_writers (w # ws) out = Inr out''"
  obtains out' where "w out = Inr out'" and "run_writers ws out' = Inr out''"
  using assms by (auto split: sum.splits)

section \<open>Little-endian bytes\<close>

text \<open>The \<open>i\<close>-th byte of a word, \<open>static_cast<uint8_t>(value >> 8 * i)\<close>.\<close>

definition byte_at :: "'a::len word \<Rightarrow> nat \<Rightarrow> u8" where
  "byte_at w i = ucast (drop_bit (8 * i) w)"

definition le_bytes :: "nat \<Rightarrow> 'a::len word \<Rightarrow> u8 list" where
  "le_bytes n w = map (byte_at w) [0..<n]"

text \<open>
  The loop \<open>result |= static_cast<T>(data[i]) << (8 * i)\<close>, started at byte index \<open>i\<close>.
\<close>

fun or_bytes :: "nat \<Rightarrow> u8 list \<Rightarrow> 'a::len word \<Rightarrow> 'a word" where
  "or_bytes i [] acc = acc"
| "or_bytes i (b # bs) acc = or_bytes (Suc i) bs (acc OR push_bit (8 * i) (ucast b))"

lemma length_le_bytes [simp]: "length (le_bytes n w) = n"
  by (simp add: le_bytes_def)

lemma bit_byte_at: "bit (byte_at w i) k \<longleftrightarrow> k < 8 \<and> bit w (8 * i + k)"
  for w :: "'a::len word"
  by (auto simp: byte_at_def bit_ucast_iff bit_drop_bit_eq ac_simps)

lemma bit_or_bytes:
  "bit (or_bytes i bs acc :: 'a::len word) k \<longleftrightarrow>
     bit acc k \<or> (k < LENGTH('a) \<and> 8 * i \<le> k \<and> k div 8 - i < length bs \<and> bit (bs ! (k div 8 - i)) (k mod 8))"
proof (induction bs arbitrary: i acc)
  case Nil
  show ?case by simp
next
  case (Cons b bs)
  have head: "bit (push_bit (8 * i) (ucast b) :: 'a word) k \<longleftrightarrow>
      k < LENGTH('a) \<and> 8 * i \<le> k \<and> k < 8 * Suc i \<and> bit b (k - 8 * i)"
    using bit_imp_le_length [of b "k - 8 * i"]
    by (auto simp: bit_push_bit_iff bit_ucast_iff)
  consider (before) "k < 8 * i" | (here) "8 * i \<le> k" "k < 8 * Suc i" | (after) "8 * Suc i \<le> k"
    by linarith
  then show ?case
  proof cases
    case before
    then show ?thesis using Cons.IH [of "Suc i"] head by (auto simp: bit_or_iff)
  next
    case here
    then have "k div 8 = i" and "k mod 8 = k - 8 * i"
      by (auto simp: div_nat_eqI) (metis add_diff_cancel_left' div_mult_mod_eq div_nat_eqI mult.commute mult_Suc_right add.commute)
    with here show ?thesis using Cons.IH [of "Suc i"] head by (auto simp: bit_or_iff)
  next
    case after
    then have "Suc i \<le> k div 8" by (simp add: less_eq_div_iff_mult_less_eq)
    then have "k div 8 - i = Suc (k div 8 - Suc i)" by simp
    with after show ?thesis using Cons.IH [of "Suc i"] head by (auto simp: bit_or_iff)
  qed
qed

lemma or_bytes_le_bytes:
  assumes "8 * n = LENGTH('a::len)"
  shows "or_bytes 0 (le_bytes n w) 0 = (w :: 'a word)"
proof (rule bit_word_eqI)
  fix k assume k: "k < LENGTH('a)"
  then have kn: "k div 8 < n" using assms by (simp add: less_mult_imp_div_less mult.commute)
  have "bit (or_bytes 0 (le_bytes n w) 0 :: 'a word) k \<longleftrightarrow> bit (le_bytes n w ! (k div 8)) (k mod 8)"
    using k kn by (simp add: bit_or_bytes)
  also have "\<dots> \<longleftrightarrow> bit (byte_at w (k div 8)) (k mod 8)"
    using kn by (simp add: le_bytes_def)
  also have "\<dots> \<longleftrightarrow> bit w k" by (simp add: bit_byte_at)
  finally show "bit (or_bytes 0 (le_bytes n w) 0 :: 'a word) k = bit w k" .
qed

lemma le_bytes_or_bytes:
  assumes "8 * n = LENGTH('a::len)" and "length bs = n"
  shows "le_bytes n (or_bytes 0 bs 0 :: 'a word) = bs"
proof (rule nth_equalityI)
  show "length (le_bytes n (or_bytes 0 bs 0 :: 'a word)) = length bs"
    using assms by simp
next
  fix i assume "i < length (le_bytes n (or_bytes 0 bs 0 :: 'a word))"
  then have i: "i < n" by simp
  show "le_bytes n (or_bytes 0 bs 0 :: 'a word) ! i = bs ! i"
  proof (rule bit_word_eqI)
    fix k assume k: "k < LENGTH(8)"
    then have "8 * i + k < LENGTH('a)" using i assms(1) by simp
    moreover have "(8 * i + k) div 8 = i" and "(8 * i + k) mod 8 = k" using k by simp_all
    ultimately show "bit (le_bytes n (or_bytes 0 bs 0 :: 'a word) ! i) k = bit (bs ! i) k"
      using i k assms(2) by (simp add: le_bytes_def bit_byte_at bit_or_bytes)
  qed
qed

section \<open>Strings as bytes\<close>

definition byte_of_char :: "char \<Rightarrow> u8" where
  "byte_of_char c = of_char c"

definition char_of_byte :: "u8 \<Rightarrow> char" where
  "char_of_byte b = char_of (unat b)"

lemma char_of_byte_of_char [simp]: "char_of_byte (byte_of_char c) = c"
proof -
  have "unat (of_char c :: u8) = unat (of_nat (of_char c) :: u8)"
    by (simp add: of_nat_of_char)
  also have "\<dots> = of_char c" by (simp add: unat_of_nat)
  finally show ?thesis by (simp add: byte_of_char_def char_of_byte_def)
qed

lemma byte_of_char_of_byte [simp]: "byte_of_char (char_of_byte b) = b"
proof -
  have "byte_of_char (char_of_byte b) = of_nat (of_char (char_of (unat b)))"
    by (simp add: byte_of_char_def char_of_byte_def of_nat_of_char del: of_char_of)
  also have "\<dots> = of_nat (unat b)"
    using unsigned_less [of b, where ?'a = nat] by simp
  finally show ?thesis by simp
qed

text \<open>Counting the entries of an updated list.\<close>

lemma length_filter_update:
  "i < length xs \<Longrightarrow> length (filter P (xs[i := y])) + (if P (xs ! i) then 1 else 0) = length (filter P xs) + (if P y then 1 else 0)"
proof (induction xs arbitrary: i)
  case (Cons x xs)
  then show ?case by (cases i) auto
qed simp

end
