(* ===== verification/Agent_Types.thy ===== *)
theory Agent_Types
  imports Prelude
begin

text \<open>
  The data model shared by every component: \<^verbatim>\<open>agent-runtime/include/agent_runtime/types.h\<close> and
  the buffer reference of \<^verbatim>\<open>shared_memory.h\<close>. A C++ struct is a record whose fields carry a short
  prefix, an enum class is a datatype with its underlying value given by a \<open>_code\<close> function, a
  \<open>std::chrono::milliseconds\<close> count and an \<open>int\<close> are words read with \<open>sint\<close>, and a
  \<open>steady_clock\<close> time point is a natural number of nanoseconds.
\<close>

section \<open>Identifiers and states\<close>

type_synonym agent_id = u64
type_synonym context_id = u64

definition kInvalidAgentId :: agent_id where
  "kInvalidAgentId = 0"

definition kInvalidContextId :: context_id where
  "kInvalidContextId = 0"

lemma kInvalidAgentId_zero [simp]: "kInvalidAgentId = 0"
  by (simp add: kInvalidAgentId_def)

lemma kInvalidContextId_zero [simp]: "kInvalidContextId = 0"
  by (simp add: kInvalidContextId_def)

datatype agent_state =
    Created
  | Waiting_dependency
  | Ready
  | Waiting_resource
  | Dispatched
  | Running
  | Blocked
  | Suspended
  | Completed
  | Failed
  | Cancelled

fun state_to_string :: "agent_state \<Rightarrow> string" where
  "state_to_string Created = ''CREATED''"
| "state_to_string Waiting_dependency = ''WAITING_DEPENDENCY''"
| "state_to_string Ready = ''READY''"
| "state_to_string Waiting_resource = ''WAITING_RESOURCE''"
| "state_to_string Dispatched = ''DISPATCHED''"
| "state_to_string Running = ''RUNNING''"
| "state_to_string Blocked = ''BLOCKED''"
| "state_to_string Suspended = ''SUSPENDED''"
| "state_to_string Completed = ''COMPLETED''"
| "state_to_string Failed = ''FAILED''"
| "state_to_string Cancelled = ''CANCELLED''"

definition is_terminal :: "agent_state \<Rightarrow> bool" where
  "is_terminal s \<longleftrightarrow> s = Completed \<or> s = Failed \<or> s = Cancelled"

lemma is_terminal_simps [simp]:
  "\<not> is_terminal Created" "\<not> is_terminal Waiting_dependency" "\<not> is_terminal Ready"
  "\<not> is_terminal Waiting_resource" "\<not> is_terminal Dispatched" "\<not> is_terminal Running"
  "\<not> is_terminal Blocked" "\<not> is_terminal Suspended"
  "is_terminal Completed" "is_terminal Failed" "is_terminal Cancelled"
  by (simp_all add: is_terminal_def)

text \<open>The underlying \<open>uint8_t\<close> of the enum, in declaration order, and the cast back.\<close>

fun agent_state_code :: "agent_state \<Rightarrow> u8" where
  "agent_state_code Created = 0"
| "agent_state_code Waiting_dependency = 1"
| "agent_state_code Ready = 2"
| "agent_state_code Waiting_resource = 3"
| "agent_state_code Dispatched = 4"
| "agent_state_code Running = 5"
| "agent_state_code Blocked = 6"
| "agent_state_code Suspended = 7"
| "agent_state_code Completed = 8"
| "agent_state_code Failed = 9"
| "agent_state_code Cancelled = 10"

definition agent_state_of_code :: "u8 \<Rightarrow> agent_state option" where
  "agent_state_of_code w =
     (if w = 0 then Some Created else if w = 1 then Some Waiting_dependency
      else if w = 2 then Some Ready else if w = 3 then Some Waiting_resource
      else if w = 4 then Some Dispatched else if w = 5 then Some Running
      else if w = 6 then Some Blocked else if w = 7 then Some Suspended
      else if w = 8 then Some Completed else if w = 9 then Some Failed
      else if w = 10 then Some Cancelled else None)"

lemma agent_state_of_code_code [simp]: "agent_state_of_code (agent_state_code s) = Some s"
  by (cases s) (simp_all add: agent_state_of_code_def)

lemma agent_state_of_code_SomeD: "agent_state_of_code w = Some s \<Longrightarrow> w = agent_state_code s"
  by (auto simp: agent_state_of_code_def split: if_splits)

datatype invocation_kind = Kind_model | Kind_tool

fun kind_to_string :: "invocation_kind \<Rightarrow> string" where
  "kind_to_string Kind_model = ''MODEL''"
| "kind_to_string Kind_tool = ''TOOL''"

fun invocation_kind_code :: "invocation_kind \<Rightarrow> u8" where
  "invocation_kind_code Kind_model = 1"
| "invocation_kind_code Kind_tool = 2"

definition invocation_kind_of_code :: "u8 \<Rightarrow> invocation_kind option" where
  "invocation_kind_of_code w =
     (if w = 1 then Some Kind_model else if w = 2 then Some Kind_tool else None)"

lemma invocation_kind_of_code_code [simp]:
  "invocation_kind_of_code (invocation_kind_code k) = Some k"
  by (cases k) (simp_all add: invocation_kind_of_code_def)

lemma invocation_kind_of_code_SomeD:
  "invocation_kind_of_code w = Some k \<Longrightarrow> w = invocation_kind_code k"
  by (auto simp: invocation_kind_of_code_def split: if_splits)

section \<open>Task specifications and snapshots\<close>

record resource_request =
  rr_cpu_threads :: u32
  rr_memory_bytes :: u64
  rr_timeout :: i64

definition default_resources :: resource_request where
  "default_resources = \<lparr>rr_cpu_threads = 1, rr_memory_bytes = 0, rr_timeout = 0\<rparr>"

record invocation_spec =
  iv_kind :: invocation_kind
  iv_target :: string
  iv_operation :: string
  iv_payload :: string
  iv_context_id :: context_id

record performance_metrics =
  pm_queue_time_us :: u64
  pm_execution_time_us :: u64
  pm_input_tokens :: u64
  pm_output_tokens :: u64
  pm_reused_tokens :: u64
  pm_cache_bytes :: u64
  pm_cache_hit :: bool

definition default_metrics :: performance_metrics where
  "default_metrics =
     \<lparr>pm_queue_time_us = 0, pm_execution_time_us = 0, pm_input_tokens = 0, pm_output_tokens = 0,
      pm_reused_tokens = 0, pm_cache_bytes = 0, pm_cache_hit = False\<rparr>"

record agent_task_spec =
  ts_id :: agent_id
  ts_parent_id :: agent_id
  ts_name :: string
  ts_kind :: string
  ts_priority :: i32
  ts_dependencies :: "agent_id list"
  ts_resources :: resource_request
  ts_retry_limit :: u32
  ts_command :: "string list"
  ts_invocation :: "invocation_spec option"

definition default_task :: agent_task_spec where
  "default_task =
     \<lparr>ts_id = kInvalidAgentId, ts_parent_id = kInvalidAgentId, ts_name = [], ts_kind = [],
      ts_priority = 0, ts_dependencies = [], ts_resources = default_resources,
      ts_retry_limit = 0, ts_command = [], ts_invocation = None\<rparr>"

record agent_snapshot =
  as_spec :: agent_task_spec
  as_state :: agent_state
  as_unresolved :: u32
  as_retry_count :: u32
  as_context_id :: context_id
  as_process_id :: i64
  as_error :: string
  as_metrics :: performance_metrics
  as_created_at :: nat
  as_started_at :: nat
  as_finished_at :: nat

definition default_snapshot :: agent_snapshot where
  "default_snapshot =
     \<lparr>as_spec = default_task, as_state = Created, as_unresolved = 0, as_retry_count = 0,
      as_context_id = kInvalidContextId, as_process_id = - 1, as_error = [],
      as_metrics = default_metrics, as_created_at = 0, as_started_at = 0, as_finished_at = 0\<rparr>"

section \<open>References to shared buffers\<close>

record shared_buffer_ref =
  br_region_id :: u64
  br_region_size :: u64
  br_offset :: u64
  br_length :: u64
  br_data_type :: u32
  br_flags :: u32
  br_version :: u64

definition default_ref :: shared_buffer_ref where
  "default_ref =
     \<lparr>br_region_id = 0, br_region_size = 0, br_offset = 0, br_length = 0, br_data_type = 0,
      br_flags = 0, br_version = 1\<rparr>"

text \<open>
  \<open>SharedDataType\<close> and \<open>SharedBufferFlags\<close> have \<open>uint32_t\<close> as underlying type and the code casts
  arbitrary \<open>uint32_t\<close> values to them, so they are kept as words.
\<close>

definition data_binary :: u32 where
  "data_binary = 0"

definition data_text_utf8 :: u32 where
  "data_text_utf8 = 1"

definition data_json_utf8 :: u32 where
  "data_json_utf8 = 2"

definition shared_buffer_none :: u32 where
  "shared_buffer_none = 0"

definition shared_buffer_truncated :: u32 where
  "shared_buffer_truncated = push_bit 0 1"

definition shared_buffer_immutable :: u32 where
  "shared_buffer_immutable = push_bit 1 1"

definition shared_buffer_stdout_stderr :: u32 where
  "shared_buffer_stdout_stderr = push_bit 2 1"

end
