(* ===== verification/Wire.thy ===== *)
theory Wire
  imports Agent_Types
begin

text \<open>
  The byte writer and reader of the two wire protocols (classes \<open>Writer\<close> and \<open>Reader\<close> in the
  anonymous namespaces of \<^verbatim>\<open>control_protocol.cpp\<close> and \<^verbatim>\<open>invocation_protocol.cpp\<close>, which are the
  same code with their own size limit). A writer appends to the bytes written so far; a reader is
  the list of the bytes not yet read, so \<open>remaining()\<close> is its length. The locale \<open>codec\<close> is the
  contract between an encoder and a decoder: both round-trip laws, lifted to counted sequences.
\<close>

section \<open>Writer\<close>

definition put_u8 :: "u8 \<Rightarrow> writer" where
  "put_u8 v out = Inr (out @ [v])"

definition put_u16 :: "u16 \<Rightarrow> writer" where
  "put_u16 v out = Inr (out @ le_bytes 2 v)"

definition put_u32 :: "u32 \<Rightarrow> writer" where
  "put_u32 v out = Inr (out @ le_bytes 4 v)"

definition put_u64 :: "u64 \<Rightarrow> writer" where
  "put_u64 v out = Inr (out @ le_bytes 8 v)"

definition kHeaderSize :: nat where
  "kHeaderSize = 12"

definition kMaxStringSize :: nat where
  "kMaxStringSize = 256 * 1024"

text \<open>The bytes of a string: a 32-bit length and the characters.\<close>

definition string_bytes :: "string \<Rightarrow> u8 list" where
  "string_bytes s = le_bytes 4 (word_of_nat (length s) :: u32) @ map byte_of_char s"

text \<open>The loop of \<open>finish_message\<close> that stores the payload size at bytes 8 to 11.\<close>

definition patch_size :: "u32 \<Rightarrow> u8 list \<Rightarrow> u8 list" where
  "patch_size sz out = foldl (\<lambda>bs i. bs[8 + i := byte_at sz i]) out [0..<4]"

lemma upt_0_4: "[0..<4] = [0, 1, 2, 3 :: nat]"
  by (simp add: upt_rec)

lemma length_patch_size [simp]: "length (patch_size sz out) = length out"
  by (simp add: patch_size_def upt_0_4)

lemma patch_size_header:
  assumes "length h = 8" and "length z = 4"
  shows "patch_size sz (h @ z @ body) = h @ le_bytes 4 sz @ body"
proof -
  obtain a b c d where z: "z = [a, b, c, d]"
    using assms(2) by (auto simp: numeral_eq_Suc length_Suc_conv)
  show ?thesis
    using assms(1) by (simp add: patch_size_def upt_0_4 z le_bytes_def list_update_append)
qed

text \<open>
  \<open>writes w c P\<close>: when the writer succeeds it has appended exactly \<open>c\<close>, and \<open>P\<close> held (the size
  checks that a successful writer has passed).
\<close>

definition writes :: "writer \<Rightarrow> u8 list \<Rightarrow> bool \<Rightarrow> bool" where
  "writes w c P \<longleftrightarrow> (\<forall>out out'. w out = Inr out' \<longrightarrow> out' = out @ c \<and> P)"

lemma writesD: "writes w c P \<Longrightarrow> w out = Inr out' \<Longrightarrow> out' = out @ c \<and> P"
  by (simp add: writes_def)

lemma writes_put [wire_simps, intro]:
  "writes (put_u8 a) [a] True"
  "writes (put_u16 b) (le_bytes 2 b) True"
  "writes (put_u32 c) (le_bytes 4 c) True"
  "writes (put_u64 d) (le_bytes 8 d) True"
  by (simp_all add: writes_def put_u8_def put_u16_def put_u32_def put_u64_def)

lemma writes_Nil [intro]: "writes (run_writers []) [] True"
  by (simp add: writes_def)

lemma writes_Cons [intro]:
  assumes "writes w c P" and "writes (run_writers ws) cs Q"
  shows "writes (run_writers (w # ws)) (c @ cs) (P \<and> Q)"
  unfolding writes_def
proof (intro allI impI)
  fix out out' assume "run_writers (w # ws) out = Inr out'"
  then obtain mid where "w out = Inr mid" and "run_writers ws mid = Inr out'"
    by (rule run_writers_Cons_InrE)
  with assms show "out' = out @ c @ cs \<and> P \<and> Q"
    by (auto dest!: writesD)
qed

lemma writes_map:
  assumes "\<And>x. x \<in> set xs \<Longrightarrow> writes (f x) (g x) (P x)"
  shows "writes (run_writers (map f xs)) (concat (map g xs)) (\<forall>x \<in> set xs. P x)"
  using assms
proof (induction xs)
  case Nil
  then show ?case by (simp add: writes_def)
next
  case (Cons x xs)
  then have "writes (f x) (g x) (P x)"
    and "writes (run_writers (map f xs)) (concat (map g xs)) (\<forall>x \<in> set xs. P x)"
    by simp_all
  from writes_Cons [OF this] show ?case by (simp del: run_writers.simps)
qed

lemma writes_append:
  assumes "writes (run_writers ws) c P" and "writes (run_writers vs) d Q"
  shows "writes (run_writers (ws @ vs)) (c @ d) (P \<and> Q)"
  using assms by (fastforce simp: writes_def run_writers_append split: sum.splits)

lemma writes_guard:
  assumes "\<not> b \<Longrightarrow> writes w c P"
  shows "writes (\<lambda>out. if b then Inl e else w out) c (\<not> b \<and> P)"
  using assms by (auto simp: writes_def)

section \<open>Reader\<close>

type_synonym reader = "u8 list"

text \<open>The member template \<open>integer\<close>, for an unsigned type of \<open>n\<close> bytes.\<close>

definition get_integer :: "nat \<Rightarrow> reader \<Rightarrow> ('a::len word \<times> reader) option" where
  "get_integer n r =
     (if length r < n then None else Some (or_bytes 0 (take n r) 0, drop n r))"

definition get_u8 :: "reader \<Rightarrow> (u8 \<times> reader) option" where
  "get_u8 = get_integer 1"

definition get_u16 :: "reader \<Rightarrow> (u16 \<times> reader) option" where
  "get_u16 = get_integer 2"

definition get_u32 :: "reader \<Rightarrow> (u32 \<times> reader) option" where
  "get_u32 = get_integer 4"

definition get_u64 :: "reader \<Rightarrow> (u64 \<times> reader) option" where
  "get_u64 = get_integer 8"

definition get_string :: "reader \<Rightarrow> (string \<times> reader) option" where
  "get_string r = do {
     (len, r) \<leftarrow> get_u32 r;
     if unat len > kMaxStringSize \<or> length r < unat len then None
     else Some (map char_of_byte (take (unat len) r), drop (unat len) r) }"

text \<open>
  The loop that resizes a vector to \<open>n\<close> elements and reads each of them, stopping at the first
  one that fails.
\<close>

fun get_n :: "(reader \<Rightarrow> ('a \<times> reader) option) \<Rightarrow> nat \<Rightarrow> reader \<Rightarrow> ('a list \<times> reader) option" where
  "get_n get 0 r = Some ([], r)"
| "get_n get (Suc n) r = do {
     (x, r) \<leftarrow> get r;
     (xs, r) \<leftarrow> get_n get n r;
     Some (x # xs, r) }"

section \<open>Codecs\<close>

locale codec =
  fixes enc :: "'a \<Rightarrow> u8 list"
    and dec :: "u8 list \<Rightarrow> ('a \<times> u8 list) option"
    and ok :: "'a \<Rightarrow> bool"
  assumes dec_enc: "ok x \<Longrightarrow> dec (enc x @ r) = Some (x, r)"
    and dec_sound: "dec bs = Some (x, r) \<Longrightarrow> ok x \<and> bs = enc x @ r"
begin

lemma get_n_enc:
  "list_all ok xs \<Longrightarrow> get_n dec (length xs) (concat (map enc xs) @ r) = Some (xs, r)"
  by (induction xs) (simp_all add: dec_enc)

lemma get_n_sound:
  "get_n dec n bs = Some (xs, r) \<Longrightarrow> length xs = n \<and> list_all ok xs \<and> bs = concat (map enc xs) @ r"
proof (induction n arbitrary: bs xs)
  case 0
  then show ?case by simp
next
  case (Suc n)
  from Suc.prems obtain x r' ys where x: "dec bs = Some (x, r')"
    and ys: "get_n dec n r' = Some (ys, r)" and xs: "xs = x # ys"
    by (auto simp: Option.bind_eq_Some_conv)
  from dec_sound [OF x] Suc.IH [OF ys] show ?case by (simp add: xs)
qed

text \<open>No valid encoding is a proper prefix of another, so encodings can be concatenated.\<close>

lemma prefix_free:
  assumes "ok x" and "ok y" and eq: "enc x @ r = enc y @ r'"
  shows "x = y \<and> r = r'"
proof -
  have "Some (x, r) = dec (enc y @ r')" using dec_enc [OF assms(1), of r] by (simp only: eq)
  also have "\<dots> = Some (y, r')" by (rule dec_enc [OF assms(2)])
  finally show ?thesis by simp
qed

lemma enc_inject: "ok x \<Longrightarrow> ok y \<Longrightarrow> enc x = enc y \<Longrightarrow> x = y"
  by (metis append_Nil2 prefix_free)

end

lemma codec_integer:
  assumes "8 * n = LENGTH('a::len)"
  shows "codec (le_bytes n) (get_integer n :: reader \<Rightarrow> ('a word \<times> reader) option) (\<lambda>_. True)"
proof
  fix x :: "'a word" and r
  show "get_integer n (le_bytes n x @ r) = Some (x, r)"
    using or_bytes_le_bytes [OF assms, of x] by (simp add: get_integer_def)
next
  fix bs r and x :: "'a word"
  assume "get_integer n bs = Some (x, r)"
  then have "n \<le> length bs" and "x = or_bytes 0 (take n bs) 0" and "r = drop n bs"
    by (auto simp: get_integer_def split: if_splits)
  then show "True \<and> bs = le_bytes n x @ r"
    using le_bytes_or_bytes [OF assms, of "take n bs"] by simp
qed

interpretation u8: codec "le_bytes 1" get_u8 "\<lambda>_. True"
  unfolding get_u8_def by (rule codec_integer) simp

interpretation u16: codec "le_bytes 2" get_u16 "\<lambda>_. True"
  unfolding get_u16_def by (rule codec_integer) simp

interpretation u32: codec "le_bytes 4" get_u32 "\<lambda>_. True"
  unfolding get_u32_def by (rule codec_integer) simp

interpretation u64: codec "le_bytes 8" get_u64 "\<lambda>_. True"
  unfolding get_u64_def by (rule codec_integer) simp

lemma le_bytes_1: "le_bytes 1 (v :: u8) = [v]"
proof -
  have "byte_at v 0 = v" by (simp add: byte_at_def)
  then show ?thesis by (simp add: le_bytes_def)
qed

interpretation byte: codec "\<lambda>v. [v]" get_u8 "\<lambda>_. True"
proof -
  have "le_bytes 1 = (\<lambda>v :: u8. [v])" by (rule ext) (rule le_bytes_1)
  then show "codec (\<lambda>v. [v]) get_u8 (\<lambda>_. True)" using u8.codec_axioms by (simp only:)
qed

lemma length_string_bytes [simp]: "length (string_bytes s) = 4 + length s"
  by (simp add: string_bytes_def)

lemma unat_of_small: "length s \<le> kMaxStringSize \<Longrightarrow> unat (word_of_nat (length s) :: u32) = length s"
  by (simp add: kMaxStringSize_def unat_of_nat take_bit_nat_eq_self)

interpretation str: codec string_bytes get_string "\<lambda>s. length s \<le> kMaxStringSize"
proof
  fix s :: string and r assume "length s \<le> kMaxStringSize"
  then show "get_string (string_bytes s @ r) = Some (s, r)"
    by (simp add: get_string_def string_bytes_def u32.dec_enc unat_of_small comp_def)
next
  fix bs s r assume "get_string bs = Some (s, r)"
  then obtain len r' where len: "get_u32 bs = Some (len, r')"
    and le: "unat len \<le> kMaxStringSize" "unat len \<le> length r'"
    and s: "s = map char_of_byte (take (unat len) r')" and r: "r = drop (unat len) r'"
    by (auto simp: get_string_def Option.bind_eq_Some_conv split: if_splits)
  have "length s = unat len" using s le by simp
  moreover have "bs = le_bytes 4 len @ r'" using u32.dec_sound [OF len] by simp
  ultimately show "length s \<le> kMaxStringSize \<and> bs = string_bytes s @ r"
    using s r le by (simp add: string_bytes_def comp_def)
qed

lemmas get_simps [simp] =
  u8.dec_enc byte.dec_enc u16.dec_enc u32.dec_enc u64.dec_enc str.dec_enc

lemmas get_sound =
  byte.dec_sound u16.dec_sound u32.dec_sound u64.dec_sound str.dec_sound

section \<open>Buffer references on the wire\<close>

definition ref_bytes :: "shared_buffer_ref \<Rightarrow> u8 list" where
  "ref_bytes b =
     le_bytes 8 (br_region_id b) @ le_bytes 8 (br_region_size b) @ le_bytes 8 (br_offset b) @
     le_bytes 8 (br_length b) @ le_bytes 4 (br_data_type b) @ le_bytes 4 (br_flags b) @
     le_bytes 8 (br_version b)"

definition put_reference :: "shared_buffer_ref \<Rightarrow> writer" where
  "put_reference b = run_writers
     [put_u64 (br_region_id b), put_u64 (br_region_size b), put_u64 (br_offset b),
      put_u64 (br_length b), put_u32 (br_data_type b), put_u32 (br_flags b),
      put_u64 (br_version b)]"

lemma writes_reference [intro]: "writes (put_reference b) (ref_bytes b) True"
proof -
  have "writes (put_reference b) (ref_bytes b @ []) (True \<and> True \<and> True \<and> True \<and> True \<and> True \<and> True \<and> True)"
    unfolding put_reference_def ref_bytes_def append_assoc by (intro writes_Cons writes_put writes_Nil)
  then show ?thesis by simp
qed

text \<open>The fields in the order in which \<open>decode_reference\<close> reads them.\<close>

definition get_ref_fields :: "reader \<Rightarrow> (shared_buffer_ref \<times> reader) option" where
  "get_ref_fields r = do {
     (region, r) \<leftarrow> get_u64 r;
     (sz, r) \<leftarrow> get_u64 r;
     (off, r) \<leftarrow> get_u64 r;
     (len, r) \<leftarrow> get_u64 r;
     (ty, r) \<leftarrow> get_u32 r;
     (fl, r) \<leftarrow> get_u32 r;
     (ver, r) \<leftarrow> get_u64 r;
     Some (\<lparr>br_region_id = region, br_region_size = sz, br_offset = off, br_length = len,
            br_data_type = ty, br_flags = fl, br_version = ver\<rparr>, r) }"

interpretation ref_fields: codec ref_bytes get_ref_fields "\<lambda>_. True"
proof
  fix b r
  show "get_ref_fields (ref_bytes b @ r) = Some (b, r)"
    by (simp add: get_ref_fields_def ref_bytes_def)
next
  fix bs b r assume "get_ref_fields bs = Some (b, r)"
  then show "True \<and> bs = ref_bytes b @ r"
    by (auto simp: get_ref_fields_def ref_bytes_def Option.bind_eq_Some_conv
        dest!: u32.dec_sound u64.dec_sound)
qed

text \<open>The bounds every component checks before it maps a buffer.\<close>

definition ref_in_bounds :: "shared_buffer_ref \<Rightarrow> bool" where
  "ref_in_bounds b \<longleftrightarrow>
     br_version b = 1 \<and> br_region_id b \<noteq> 0 \<and> br_region_size b \<noteq> 0 \<and>
     br_offset b \<le> br_region_size b \<and> br_length b \<le> br_region_size b - br_offset b"

lemma ref_in_bounds_nat:
  "ref_in_bounds b \<Longrightarrow> unat (br_offset b) + unat (br_length b) \<le> unat (br_region_size b)"
proof -
  assume "ref_in_bounds b"
  then have off: "br_offset b \<le> br_region_size b"
    and len: "br_length b \<le> br_region_size b - br_offset b"
    by (simp_all add: ref_in_bounds_def)
  from off have "unat (br_region_size b - br_offset b) = unat (br_region_size b) - unat (br_offset b)"
    by (rule unat_sub)
  with off len show ?thesis by (simp add: word_le_nat_alt)
qed

end
