(* ===== verification/Control_Protocol.thy ===== *)
theory Control_Protocol
  imports Wire
begin

text \<open>
  The control protocol between \<^verbatim>\<open>agentctl\<close> and \<^verbatim>\<open>agentd\<close>
  (\<^verbatim>\<open>agent-runtime/src/control_protocol.cpp\<close>): the request and response messages, their encoders
  and decoders with every size check and error message, and the proofs that what the encoder
  accepts the decoder returns, and that the decoder accepts no second spelling of a request.
  Null pointer arguments are not modelled.
\<close>

section \<open>Messages\<close>

datatype control_operation =
    Op_ping
  | Op_submit
  | Op_spawn
  | Op_status
  | Op_list
  | Op_cancel
  | Op_shutdown
  | Op_result
  | Op_release_result

fun control_operation_code :: "control_operation \<Rightarrow> u16" where
  "control_operation_code Op_ping = 1"
| "control_operation_code Op_submit = 2"
| "control_operation_code Op_spawn = 3"
| "control_operation_code Op_status = 4"
| "control_operation_code Op_list = 5"
| "control_operation_code Op_cancel = 6"
| "control_operation_code Op_shutdown = 7"
| "control_operation_code Op_result = 8"
| "control_operation_code Op_release_result = 9"

definition control_operation_of_code :: "u16 \<Rightarrow> control_operation option" where
  "control_operation_of_code w =
     (if w = 1 then Some Op_ping else if w = 2 then Some Op_submit
      else if w = 3 then Some Op_spawn else if w = 4 then Some Op_status
      else if w = 5 then Some Op_list else if w = 6 then Some Op_cancel
      else if w = 7 then Some Op_shutdown else if w = 8 then Some Op_result
      else if w = 9 then Some Op_release_result else None)"

lemma control_operation_of_code_code [simp]:
  "control_operation_of_code (control_operation_code op) = Some op"
  by (cases op) (simp_all add: control_operation_of_code_def)

lemma control_operation_of_code_SomeD:
  "control_operation_of_code w = Some op \<Longrightarrow> w = control_operation_code op"
  by (auto simp: control_operation_of_code_def split: if_splits)

record control_request =
  cq_operation :: control_operation
  cq_target_id :: agent_id
  cq_task :: agent_task_spec

record control_agent_info =
  ci_id :: agent_id
  ci_parent_id :: agent_id
  ci_state :: agent_state
  ci_process_id :: i64
  ci_unresolved :: u32
  ci_retry_count :: u32
  ci_context_id :: context_id
  ci_metrics :: performance_metrics
  ci_name :: string
  ci_kind :: string
  ci_error :: string

record control_response =
  cp_success :: bool
  cp_message :: string
  cp_agents :: "control_agent_info list"
  cp_result_available :: bool
  cp_result :: shared_buffer_ref

definition default_control_response :: control_response where
  "default_control_response =
     \<lparr>cp_success = False, cp_message = [], cp_agents = [], cp_result_available = False,
      cp_result = default_ref\<rparr>"

definition kControlProtocolMagic :: u32 where
  "kControlProtocolMagic = 0x41525443"

definition kControlProtocolVersion :: u16 where
  "kControlProtocolVersion = 3"

definition kMaxControlMessageSize :: nat where
  "kMaxControlMessageSize = 1024 * 1024"

definition kMaxCollectionElements :: nat where
  "kMaxCollectionElements = 4096"

definition make_control_info :: "agent_snapshot \<Rightarrow> control_agent_info" where
  "make_control_info s =
     \<lparr>ci_id = ts_id (as_spec s), ci_parent_id = ts_parent_id (as_spec s), ci_state = as_state s,
      ci_process_id = as_process_id s, ci_unresolved = as_unresolved s,
      ci_retry_count = as_retry_count s, ci_context_id = as_context_id s,
      ci_metrics = as_metrics s, ci_name = ts_name (as_spec s), ci_kind = ts_kind (as_spec s),
      ci_error = as_error s\<rparr>"

section \<open>Encoders\<close>

definition put_control_string :: "string \<Rightarrow> writer" where
  "put_control_string s out =
     (if length s > kMaxStringSize then Inl ''control string exceeds size limit''
      else if length out > kMaxControlMessageSize - 4 \<or>
              length s > kMaxControlMessageSize - 4 - length out
      then Inl ''control message exceeds size limit''
      else Inr (out @ string_bytes s))"

definition encode_control_header :: "control_operation \<Rightarrow> writer" where
  "encode_control_header op = run_writers
     [put_u32 kControlProtocolMagic, put_u16 kControlProtocolVersion,
      put_u16 (control_operation_code op), put_u32 0]"

definition finish_control_message :: writer where
  "finish_control_message out =
     (if length out > kMaxControlMessageSize \<or> length out < kHeaderSize
      then Inl ''control message exceeds size limit''
      else Inr (patch_size (word_of_nat (length out - kHeaderSize)) out))"

definition put_invocation_spec :: "invocation_spec \<Rightarrow> writer" where
  "put_invocation_spec i = run_writers
     [put_u8 (invocation_kind_code (iv_kind i)), put_u64 (iv_context_id i),
      put_control_string (iv_target i), put_control_string (iv_operation i),
      put_control_string (iv_payload i)]"

text \<open>
  \<open>encode_task\<close>. The range checks on \<open>priority\<close> and on the invocation kind hold by the types of
  the fields.
\<close>

definition task_fields_invalid :: "agent_task_spec \<Rightarrow> bool" where
  "task_fields_invalid t \<longleftrightarrow>
     sint (rr_timeout (ts_resources t)) < 0 \<or>
     (ts_command t \<noteq> [] \<and> ts_invocation t \<noteq> None) \<or>
     (case ts_invocation t of None \<Rightarrow> False | Some i \<Rightarrow> iv_target i = [] \<or> iv_operation i = [])"

definition encode_task :: "agent_task_spec \<Rightarrow> writer" where
  "encode_task t out =
     (if task_fields_invalid t then Inl ''task contains invalid fields''
      else run_writers
        [put_u64 (ts_id t), put_u64 (ts_parent_id t), put_u32 (ts_priority t),
         put_u32 (rr_cpu_threads (ts_resources t)), put_u64 (rr_memory_bytes (ts_resources t)),
         put_u64 (rr_timeout (ts_resources t)), put_u32 (ts_retry_limit t),
         put_control_string (ts_name t), put_control_string (ts_kind t),
         (\<lambda>out. if length (ts_dependencies t) > kMaxCollectionElements \<or>
                   length (ts_command t) > kMaxCollectionElements
                then Inl ''control collection exceeds size limit'' else Inr out),
         put_u32 (word_of_nat (length (ts_dependencies t))),
         run_writers (map put_u64 (ts_dependencies t)),
         put_u32 (word_of_nat (length (ts_command t))),
         run_writers (map put_control_string (ts_command t)),
         put_u8 (if ts_invocation t \<noteq> None then 1 else 0),
         (case ts_invocation t of None \<Rightarrow> run_writers [] | Some i \<Rightarrow> put_invocation_spec i)]
        out)"

definition put_agent_metrics :: "performance_metrics \<Rightarrow> writer" where
  "put_agent_metrics m = run_writers
     [put_u64 (pm_queue_time_us m), put_u64 (pm_execution_time_us m), put_u64 (pm_input_tokens m),
      put_u64 (pm_output_tokens m), put_u64 (pm_reused_tokens m), put_u64 (pm_cache_bytes m),
      put_u8 (if pm_cache_hit m then 1 else 0)]"

definition encode_agent :: "control_agent_info \<Rightarrow> writer" where
  "encode_agent a = run_writers
     [put_u64 (ci_id a), put_u64 (ci_parent_id a), put_u8 (agent_state_code (ci_state a)),
      put_u64 (ci_process_id a), put_u32 (ci_unresolved a), put_u32 (ci_retry_count a),
      put_u64 (ci_context_id a), put_agent_metrics (ci_metrics a),
      put_control_string (ci_name a), put_control_string (ci_kind a),
      put_control_string (ci_error a)]"

definition encode_control_request :: "control_request \<Rightarrow> string + u8 list" where
  "encode_control_request q = run_writers
     [encode_control_header (cq_operation q), put_u64 (cq_target_id q), encode_task (cq_task q),
      finish_control_message] []"

definition encode_control_response :: "control_response \<Rightarrow> string + u8 list" where
  "encode_control_response p =
     (if length (cp_agents p) > kMaxCollectionElements
      then Inl ''invalid control response collection''
      else run_writers
        [encode_control_header Op_ping, put_u8 (if cp_success p then 1 else 0),
         put_control_string (cp_message p), put_u32 (word_of_nat (length (cp_agents p))),
         run_writers (map encode_agent (cp_agents p)),
         put_u8 (if cp_result_available p then 1 else 0),
         (if cp_result_available p then put_reference (cp_result p) else run_writers []),
         finish_control_message] [])"

section \<open>Decoders\<close>

definition decode_control_header :: "reader \<Rightarrow> string + (control_operation \<times> u32 \<times> reader)" where
  "decode_control_header r =
     (case do {
        (magic, r) \<leftarrow> get_u32 r;
        (version, r) \<leftarrow> get_u16 r;
        (operation, r) \<leftarrow> get_u16 r;
        (sz, r) \<leftarrow> get_u32 r;
        Some (magic, version, operation, sz, r) }
      of None \<Rightarrow> Inl ''truncated control header''
       | Some (magic, version, operation, sz, r) \<Rightarrow>
           if magic \<noteq> kControlProtocolMagic \<or> version \<noteq> kControlProtocolVersion
           then Inl ''unsupported control protocol''
           else (case control_operation_of_code operation of
                   None \<Rightarrow> Inl ''unknown control operation''
                 | Some op \<Rightarrow> Inr (op, sz, r)))"

text \<open>\<open>numeric_limits<int64_t>::max()\<close> as an unsigned value.\<close>

definition int64_max :: u64 where
  "int64_max = 0x7FFFFFFFFFFFFFFF"

definition get_invocation_spec :: "reader \<Rightarrow> (invocation_spec \<times> reader) option" where
  "get_invocation_spec r = do {
     (k, r) \<leftarrow> get_u8 r;
     kind \<leftarrow> invocation_kind_of_code k;
     (context, r) \<leftarrow> get_u64 r;
     (target, r) \<leftarrow> get_string r;
     (operation, r) \<leftarrow> get_string r;
     (payload, r) \<leftarrow> get_string r;
     if target = [] \<or> operation = [] then None
     else Some (\<lparr>iv_kind = kind, iv_target = target, iv_operation = operation,
                 iv_payload = payload, iv_context_id = context\<rparr>, r) }"

definition get_task :: "reader \<Rightarrow> (agent_task_spec \<times> reader) option" where
  "get_task r = do {
     (aid, r) \<leftarrow> get_u64 r;
     (parent, r) \<leftarrow> get_u64 r;
     (priority, r) \<leftarrow> get_u32 r;
     (cpu, r) \<leftarrow> get_u32 r;
     (memory, r) \<leftarrow> get_u64 r;
     (timeout, r) \<leftarrow> get_u64 r;
     (retry, r) \<leftarrow> get_u32 r;
     (name, r) \<leftarrow> get_string r;
     (kind, r) \<leftarrow> get_string r;
     if timeout > int64_max then None else do {
     (count, r) \<leftarrow> get_u32 r;
     if unat count > kMaxCollectionElements then None else do {
     (dependencies, r) \<leftarrow> get_n get_u64 (unat count) r;
     (count, r) \<leftarrow> get_u32 r;
     if unat count > kMaxCollectionElements then None else do {
     (command, r) \<leftarrow> get_n get_string (unat count) r;
     (flag, r) \<leftarrow> get_u8 r;
     if flag > 1 then None else do {
     (invocation, r) \<leftarrow>
       (if flag = 1 then map_option (map_prod Some id) (get_invocation_spec r)
        else Some (None, r));
     Some (\<lparr>ts_id = aid, ts_parent_id = parent, ts_name = name, ts_kind = kind,
            ts_priority = priority, ts_dependencies = dependencies,
            ts_resources = \<lparr>rr_cpu_threads = cpu, rr_memory_bytes = memory, rr_timeout = timeout\<rparr>,
            ts_retry_limit = retry, ts_command = command, ts_invocation = invocation\<rparr>, r) }}}}}"

definition get_agent_metrics :: "reader \<Rightarrow> (performance_metrics \<times> reader) option" where
  "get_agent_metrics r = do {
     (queue, r) \<leftarrow> get_u64 r;
     (execution, r) \<leftarrow> get_u64 r;
     (input, r) \<leftarrow> get_u64 r;
     (output, r) \<leftarrow> get_u64 r;
     (reused, r) \<leftarrow> get_u64 r;
     (cache, r) \<leftarrow> get_u64 r;
     (hit, r) \<leftarrow> get_u8 r;
     if hit > 1 then None
     else Some (\<lparr>pm_queue_time_us = queue, pm_execution_time_us = execution,
                 pm_input_tokens = input, pm_output_tokens = output, pm_reused_tokens = reused,
                 pm_cache_bytes = cache, pm_cache_hit = (hit = 1)\<rparr>, r) }"

definition get_agent :: "reader \<Rightarrow> (control_agent_info \<times> reader) option" where
  "get_agent r = do {
     (aid, r) \<leftarrow> get_u64 r;
     (parent, r) \<leftarrow> get_u64 r;
     (state, r) \<leftarrow> get_u8 r;
     (pid, r) \<leftarrow> get_u64 r;
     (unresolved, r) \<leftarrow> get_u32 r;
     (retries, r) \<leftarrow> get_u32 r;
     (context, r) \<leftarrow> get_u64 r;
     (metrics, r) \<leftarrow> get_agent_metrics r;
     (name, r) \<leftarrow> get_string r;
     (kind, r) \<leftarrow> get_string r;
     (error, r) \<leftarrow> get_string r;
     st \<leftarrow> agent_state_of_code state;
     Some (\<lparr>ci_id = aid, ci_parent_id = parent, ci_state = st, ci_process_id = pid,
            ci_unresolved = unresolved, ci_retry_count = retries, ci_context_id = context,
            ci_metrics = metrics, ci_name = name, ci_kind = kind, ci_error = error\<rparr>, r) }"

definition get_control_reference :: "reader \<Rightarrow> (shared_buffer_ref \<times> reader) option" where
  "get_control_reference r = do {
     (b, r) \<leftarrow> get_ref_fields r;
     if ref_in_bounds b then Some (b, r) else None }"

definition decode_control_request :: "u8 list \<Rightarrow> string + control_request" where
  "decode_control_request bytes =
     (if length bytes > kMaxControlMessageSize then Inl ''invalid control request buffer''
      else case decode_control_header bytes of
        Inl e \<Rightarrow> Inl e
      | Inr (op, sz, r) \<Rightarrow>
          (case do {
             if unat sz \<noteq> length r then None else do {
             (target, r) \<leftarrow> get_u64 r;
             (task, r) \<leftarrow> get_task r;
             if r \<noteq> [] then None
             else Some \<lparr>cq_operation = op, cq_target_id = target, cq_task = task\<rparr> }}
           of None \<Rightarrow> Inl ''invalid control request'' | Some q \<Rightarrow> Inr q))"

definition decode_control_response :: "u8 list \<Rightarrow> string + control_response" where
  "decode_control_response bytes =
     (if length bytes > kMaxControlMessageSize then Inl ''invalid control response buffer''
      else case decode_control_header bytes of
        Inl e \<Rightarrow> Inl e
      | Inr (_, sz, r) \<Rightarrow>
          (case do {
             if unat sz \<noteq> length r then None else do {
             (success, r) \<leftarrow> get_u8 r;
             if success > 1 then None else do {
             (message, r) \<leftarrow> get_string r;
             (count, r) \<leftarrow> get_u32 r;
             if unat count > kMaxCollectionElements then None
             else Some (success = 1, message, unat count, r) }}}
           of None \<Rightarrow> Inl ''invalid control response''
            | Some (success, message, count, r) \<Rightarrow>
          (case get_n get_agent count r of None \<Rightarrow> Inl ''invalid agent response''
            | Some (agents, r) \<Rightarrow>
          (case do { (flag, r) \<leftarrow> get_u8 r; if flag > 1 then None else Some (flag = 1, r) }
           of None \<Rightarrow> Inl ''invalid result response''
            | Some (available, r) \<Rightarrow>
          (case (if available then get_control_reference r else Some (default_ref, r))
           of None \<Rightarrow> Inl ''invalid shared result reference''
            | Some (ref, r) \<Rightarrow>
          if r \<noteq> [] then Inl ''trailing control response data''
          else Inr \<lparr>cp_success = success, cp_message = message, cp_agents = agents,
                    cp_result_available = available, cp_result = ref\<rparr>)))))"


section \<open>What the writers append\<close>

lemma sint_negative_iff: "sint w < 0 \<longleftrightarrow> int64_max < w" for w :: u64
proof -
  have "sint w < 0 \<longleftrightarrow> bit (uint w) 63"
    by (simp add: sint_uint signed_take_bit_negative_iff)
  also have "\<dots> \<longleftrightarrow> 2 ^ 63 \<le> uint w"
  proof -
    have "uint w < 2 ^ 64" using uint_lt2p [of w] by simp
    then have "uint w div 2 ^ 63 = (if 2 ^ 63 \<le> uint w then 1 else 0)"
      using uint_ge_0 [of w] by (auto simp: div_pos_pos_trivial int_div_pos_eq)
    then show ?thesis by (simp add: bit_iff_odd)
  qed
  also have "\<dots> \<longleftrightarrow> int64_max < w"
    by (simp add: int64_max_def word_less_def) linarith
  finally show ?thesis by simp
qed

lemma writes_control_string [intro]:
  "writes (put_control_string s) (string_bytes s) (length s \<le> kMaxStringSize)"
  by (auto simp: writes_def put_control_string_def split: if_splits)

lemma writes_check: "writes (\<lambda>out. if b then Inl e else Inr out) [] (\<not> b)"
  by (simp add: writes_def)

lemma writes_mono: "writes w c P \<Longrightarrow> c = c' \<Longrightarrow> (P \<Longrightarrow> P') \<Longrightarrow> writes w c' P'"
  by (auto simp: writes_def)

lemmas writes_seq = writes_Cons writes_put writes_Nil writes_control_string writes_reference
  writes_check

definition invocation_spec_bytes :: "invocation_spec \<Rightarrow> u8 list" where
  "invocation_spec_bytes i =
     [invocation_kind_code (iv_kind i)] @ le_bytes 8 (iv_context_id i) @
     string_bytes (iv_target i) @ string_bytes (iv_operation i) @ string_bytes (iv_payload i)"

definition invocation_spec_ok :: "invocation_spec \<Rightarrow> bool" where
  "invocation_spec_ok i \<longleftrightarrow>
     iv_target i \<noteq> [] \<and> iv_operation i \<noteq> [] \<and> length (iv_target i) \<le> kMaxStringSize \<and>
     length (iv_operation i) \<le> kMaxStringSize \<and> length (iv_payload i) \<le> kMaxStringSize"

definition task_bytes :: "agent_task_spec \<Rightarrow> u8 list" where
  "task_bytes t =
     le_bytes 8 (ts_id t) @ le_bytes 8 (ts_parent_id t) @ le_bytes 4 (ts_priority t) @
     le_bytes 4 (rr_cpu_threads (ts_resources t)) @ le_bytes 8 (rr_memory_bytes (ts_resources t)) @
     le_bytes 8 (rr_timeout (ts_resources t)) @ le_bytes 4 (ts_retry_limit t) @
     string_bytes (ts_name t) @ string_bytes (ts_kind t) @
     le_bytes 4 (word_of_nat (length (ts_dependencies t)) :: u32) @
     concat (map (le_bytes 8) (ts_dependencies t)) @
     le_bytes 4 (word_of_nat (length (ts_command t)) :: u32) @
     concat (map string_bytes (ts_command t)) @
     [if ts_invocation t \<noteq> None then 1 else 0] @
     (case ts_invocation t of None \<Rightarrow> [] | Some i \<Rightarrow> invocation_spec_bytes i)"

text \<open>What every decoded task satisfies, and every task the encoder accepts.\<close>

definition task_ok :: "agent_task_spec \<Rightarrow> bool" where
  "task_ok t \<longleftrightarrow>
     rr_timeout (ts_resources t) \<le> int64_max \<and>
     length (ts_name t) \<le> kMaxStringSize \<and> length (ts_kind t) \<le> kMaxStringSize \<and>
     length (ts_dependencies t) \<le> kMaxCollectionElements \<and>
     length (ts_command t) \<le> kMaxCollectionElements \<and>
     (\<forall>a \<in> set (ts_command t). length a \<le> kMaxStringSize) \<and>
     (case ts_invocation t of None \<Rightarrow> True | Some i \<Rightarrow> invocation_spec_ok i)"

lemma writes_invocation_spec:
  "iv_target i \<noteq> [] \<Longrightarrow> iv_operation i \<noteq> [] \<Longrightarrow>
   writes (put_invocation_spec i) (invocation_spec_bytes i) (invocation_spec_ok i)"
  unfolding put_invocation_spec_def
  by (rule writes_mono, (rule writes_seq)+)
    (auto simp: invocation_spec_bytes_def invocation_spec_ok_def)

lemma writes_invocation_option:
  assumes "\<not> task_fields_invalid t"
  shows "writes (case ts_invocation t of None \<Rightarrow> run_writers [] | Some i \<Rightarrow> put_invocation_spec i)
    (case ts_invocation t of None \<Rightarrow> [] | Some i \<Rightarrow> invocation_spec_bytes i)
    (case ts_invocation t of None \<Rightarrow> True | Some i \<Rightarrow> invocation_spec_ok i)"
  using assms
  by (cases "ts_invocation t")
    (auto simp: task_fields_invalid_def writes_Nil simp del: run_writers.simps
      intro!: writes_invocation_spec)

lemma writes_u64_list:
  "writes (run_writers (map put_u64 xs)) (concat (map (le_bytes 8) xs)) True"
  by (rule writes_mono, rule writes_map) (rule writes_put, simp_all)

lemma writes_string_list:
  "writes (run_writers (map put_control_string xs)) (concat (map string_bytes xs))
     (\<forall>x \<in> set xs. length x \<le> kMaxStringSize)"
  by (rule writes_map) (rule writes_control_string)

lemma writes_task: "writes (encode_task t) (task_bytes t) (task_ok t)"
proof (cases "task_fields_invalid t")
  case True
  then show ?thesis by (simp add: writes_def encode_task_def)
next
  case False
  then have timeout: "rr_timeout (ts_resources t) \<le> int64_max"
    by (auto simp: task_fields_invalid_def sint_negative_iff)
  have inv: "writes (case ts_invocation t of None \<Rightarrow> run_writers [] | Some i \<Rightarrow> put_invocation_spec i)
    (case ts_invocation t of None \<Rightarrow> [] | Some i \<Rightarrow> invocation_spec_bytes i)
    (case ts_invocation t of None \<Rightarrow> True | Some i \<Rightarrow> invocation_spec_ok i)"
    by (rule writes_invocation_option [OF False])
  show ?thesis
    unfolding encode_task_def if_not_P [OF False]
    by (rule writes_mono, (rule writes_seq writes_u64_list writes_string_list inv)+)
      (use timeout in \<open>auto simp: task_bytes_def task_ok_def\<close>)
qed

interpretation invocation_codec:
  codec invocation_spec_bytes get_invocation_spec invocation_spec_ok
proof
  fix i r assume "invocation_spec_ok i"
  then show "get_invocation_spec (invocation_spec_bytes i @ r) = Some (i, r)"
    by (cases i) (simp add: get_invocation_spec_def invocation_spec_bytes_def
        invocation_spec_ok_def byte.dec_enc [simplified])
next
  fix bs i r assume "get_invocation_spec bs = Some (i, r)"
  then show "invocation_spec_ok i \<and> bs = invocation_spec_bytes i @ r"
    by (auto simp: get_invocation_spec_def invocation_spec_bytes_def invocation_spec_ok_def
        Option.bind_eq_Some_conv split: if_splits
        dest!: get_sound invocation_kind_of_code_SomeD)
qed

lemma count_word: "n \<le> kMaxCollectionElements \<Longrightarrow> unat (word_of_nat n :: u32) = n"
  by (simp add: kMaxCollectionElements_def unat_of_nat take_bit_nat_eq_self)

lemma flag_word: "(if b then 1 else 0 :: u8) \<le> 1" "((if b then 1 else 0 :: u8) = 1) = b"
  by auto

lemma flag_cases: "(w :: u8) \<le> 1 \<Longrightarrow> (if w = 1 then 1 else 0) = w"
proof -
  assume "w \<le> 1"
  then have "unat w \<le> 1" by (simp add: word_le_nat_alt)
  then have "unat w = unat (0 :: u8) \<or> unat w = unat (1 :: u8)" by auto
  then have "w = 0 \<or> w = 1" by (simp only: word_unat_eq_iff)
  then show ?thesis by auto
qed

lemma flag_zero: "(w :: u8) \<le> 1 \<Longrightarrow> w \<noteq> 1 \<Longrightarrow> w = 0"
  using flag_cases [of w] by simp

lemma byte_dec [simp]: "get_u8 (v # r) = Some (v, r)"
  using byte.dec_enc [of v r] by simp

interpretation task_codec: codec task_bytes get_task task_ok
proof
  fix t r assume ok: "task_ok t"
  then have deps: "unat (word_of_nat (length (ts_dependencies t)) :: u32) = length (ts_dependencies t)"
    and cmd: "unat (word_of_nat (length (ts_command t)) :: u32) = length (ts_command t)"
    by (simp_all add: task_ok_def count_word)
  have d: "get_n get_u64 (length (ts_dependencies t)) (concat (map (le_bytes 8) (ts_dependencies t)) @ r')
    = Some (ts_dependencies t, r')" for r'
    by (rule u64.get_n_enc) (simp add: list_all_iff)
  have c: "get_n get_string (length (ts_command t)) (concat (map string_bytes (ts_command t)) @ r')
    = Some (ts_command t, r')" for r'
    using ok by (intro str.get_n_enc) (simp add: list_all_iff task_ok_def)
  have bounds: "\<not> int64_max < rr_timeout (ts_resources t)"
    "\<not> kMaxCollectionElements < length (ts_dependencies t)"
    "\<not> kMaxCollectionElements < length (ts_command t)"
    "length (ts_name t) \<le> kMaxStringSize" "length (ts_kind t) \<le> kMaxStringSize"
    using ok by (simp_all add: task_ok_def not_less)
  note facts = deps cmd d c bounds
  show "get_task (task_bytes t @ r) = Some (t, r)"
  proof (cases "ts_invocation t")
    case None
    with facts show ?thesis by (simp add: get_task_def task_bytes_def)
  next
    case (Some i)
    with ok have "invocation_spec_ok i" by (simp add: task_ok_def)
    with Some facts show ?thesis
      by (simp add: get_task_def task_bytes_def invocation_codec.dec_enc)
  qed
next
  fix bs t r assume "get_task bs = Some (t, r)"
  then show "task_ok t \<and> bs = task_bytes t @ r"
    by (auto simp: get_task_def task_bytes_def task_ok_def Option.bind_eq_Some_conv list_all_iff
        not_less split: if_splits
        dest!: get_sound invocation_codec.dec_sound u64.get_n_sound str.get_n_sound
        intro: flag_zero)
qed

definition metrics_bytes :: "performance_metrics \<Rightarrow> u8 list" where
  "metrics_bytes m =
     le_bytes 8 (pm_queue_time_us m) @ le_bytes 8 (pm_execution_time_us m) @
     le_bytes 8 (pm_input_tokens m) @ le_bytes 8 (pm_output_tokens m) @
     le_bytes 8 (pm_reused_tokens m) @ le_bytes 8 (pm_cache_bytes m) @
     [if pm_cache_hit m then 1 else 0]"

lemma writes_agent_metrics: "writes (put_agent_metrics m) (metrics_bytes m) True"
  unfolding put_agent_metrics_def
  by (rule writes_mono, (rule writes_seq)+) (simp_all add: metrics_bytes_def)

interpretation metrics_codec: codec metrics_bytes get_agent_metrics "\<lambda>_. True"
proof
  fix m r
  show "get_agent_metrics (metrics_bytes m @ r) = Some (m, r)"
    by (simp add: get_agent_metrics_def metrics_bytes_def)
next
  fix bs m r assume "get_agent_metrics bs = Some (m, r)"
  then show "True \<and> bs = metrics_bytes m @ r"
    by (auto simp: get_agent_metrics_def metrics_bytes_def Option.bind_eq_Some_conv not_less
        split: if_splits dest!: get_sound intro: flag_zero)
qed

definition agent_bytes :: "control_agent_info \<Rightarrow> u8 list" where
  "agent_bytes a =
     le_bytes 8 (ci_id a) @ le_bytes 8 (ci_parent_id a) @ [agent_state_code (ci_state a)] @
     le_bytes 8 (ci_process_id a) @ le_bytes 4 (ci_unresolved a) @ le_bytes 4 (ci_retry_count a) @
     le_bytes 8 (ci_context_id a) @ metrics_bytes (ci_metrics a) @
     string_bytes (ci_name a) @ string_bytes (ci_kind a) @ string_bytes (ci_error a)"

definition agent_ok :: "control_agent_info \<Rightarrow> bool" where
  "agent_ok a \<longleftrightarrow>
     length (ci_name a) \<le> kMaxStringSize \<and> length (ci_kind a) \<le> kMaxStringSize \<and>
     length (ci_error a) \<le> kMaxStringSize"

lemma writes_agent: "writes (encode_agent a) (agent_bytes a) (agent_ok a)"
  unfolding encode_agent_def
  by (rule writes_mono, (rule writes_seq writes_agent_metrics)+)
    (auto simp: agent_bytes_def agent_ok_def)

interpretation agent_codec: codec agent_bytes get_agent agent_ok
proof
  fix a r assume "agent_ok a"
  then show "get_agent (agent_bytes a @ r) = Some (a, r)"
    by (simp add: get_agent_def agent_bytes_def agent_ok_def metrics_codec.dec_enc)
next
  fix bs a r assume "get_agent bs = Some (a, r)"
  then show "agent_ok a \<and> bs = agent_bytes a @ r"
    by (auto simp: get_agent_def agent_bytes_def agent_ok_def Option.bind_eq_Some_conv
        dest!: get_sound metrics_codec.dec_sound agent_state_of_code_SomeD)
qed

interpretation control_ref: codec ref_bytes get_control_reference ref_in_bounds
proof
  fix b r assume "ref_in_bounds b"
  then show "get_control_reference (ref_bytes b @ r) = Some (b, r)"
    by (simp add: get_control_reference_def ref_fields.dec_enc)
next
  fix bs b r assume "get_control_reference bs = Some (b, r)"
  then show "ref_in_bounds b \<and> bs = ref_bytes b @ r"
    by (auto simp: get_control_reference_def Option.bind_eq_Some_conv split: if_splits
        dest!: ref_fields.dec_sound)
qed

section \<open>Whole messages\<close>

definition header_bytes :: "control_operation \<Rightarrow> u32 \<Rightarrow> u8 list" where
  "header_bytes op sz =
     (le_bytes 4 kControlProtocolMagic @ le_bytes 2 kControlProtocolVersion @
      le_bytes 2 (control_operation_code op)) @ le_bytes 4 sz"

lemma length_header [simp]: "length (header_bytes op sz) = kHeaderSize"
  by (simp add: header_bytes_def kHeaderSize_def)

lemma writes_control_header: "writes (encode_control_header op) (header_bytes op 0) True"
  unfolding encode_control_header_def
  by (rule writes_mono, (rule writes_seq)+) (simp_all add: header_bytes_def)

lemma decode_control_header_bytes [simp]:
  "decode_control_header (header_bytes op sz @ body) = Inr (op, sz, body)"
  by (simp add: decode_control_header_def header_bytes_def)

lemma decode_control_header_sound:
  "decode_control_header bs = Inr (op, sz, r) \<Longrightarrow> bs = header_bytes op sz @ r"
  by (auto simp: decode_control_header_def header_bytes_def Option.bind_eq_Some_conv
      split: option.splits if_splits
      dest!: get_sound control_operation_of_code_SomeD)

text \<open>A finished message is the header with the size of the body, and the body.\<close>

definition message_bytes :: "control_operation \<Rightarrow> u8 list \<Rightarrow> u8 list" where
  "message_bytes op body = header_bytes op (word_of_nat (length body)) @ body"

lemma finish_control_message:
  assumes "finish_control_message (header_bytes op 0 @ body) = Inr bytes"
  shows "bytes = message_bytes op body \<and> kHeaderSize + length body \<le> kMaxControlMessageSize"
proof -
  let ?h = "le_bytes 4 kControlProtocolMagic @ le_bytes 2 kControlProtocolVersion @
      le_bytes 2 (control_operation_code op)"
  have "patch_size sz (header_bytes op 0 @ body) = header_bytes op sz @ body" for sz
    unfolding header_bytes_def append_assoc
    using patch_size_header [of ?h "le_bytes 4 (0 :: u32)" sz body] by simp
  with assms show ?thesis
    by (auto simp: finish_control_message_def message_bytes_def split: if_splits)
qed

lemma run_writers_split:
  assumes "run_writers (ws @ [w]) out = Inr out'" and "writes (run_writers ws) c P"
  shows "P \<and> w (out @ c) = Inr out'"
  using assms by (auto simp: run_writers_append split: sum.splits dest!: writesD)

lemma unat_body: "kHeaderSize + n \<le> kMaxControlMessageSize \<Longrightarrow> unat (word_of_nat n :: u32) = n"
  by (simp add: kMaxControlMessageSize_def kHeaderSize_def unat_of_nat take_bit_nat_eq_self)

definition request_body :: "control_request \<Rightarrow> u8 list" where
  "request_body q = le_bytes 8 (cq_target_id q) @ task_bytes (cq_task q)"

lemma encode_control_request_InrD:
  assumes "encode_control_request q = Inr bytes"
  shows "bytes = message_bytes (cq_operation q) (request_body q) \<and> task_ok (cq_task q) \<and>
    kHeaderSize + length (request_body q) \<le> kMaxControlMessageSize"
proof -
  let ?ws = "[encode_control_header (cq_operation q), put_u64 (cq_target_id q), encode_task (cq_task q)]"
  have w: "writes (run_writers ?ws) (header_bytes (cq_operation q) 0 @ request_body q) (task_ok (cq_task q))"
    by (rule writes_mono, (rule writes_seq writes_control_header writes_task)+)
      (simp_all add: request_body_def)
  have "run_writers (?ws @ [finish_control_message]) [] = Inr bytes"
    using assms by (simp only: encode_control_request_def append_Cons append_Nil)
  from run_writers_split [OF this w]
  have "task_ok (cq_task q)"
    and "finish_control_message (header_bytes (cq_operation q) 0 @ request_body q) = Inr bytes"
    by simp_all
  then show ?thesis by (auto dest: finish_control_message)
qed

lemma decode_request_body:
  assumes "task_ok (cq_task q)"
    and "kHeaderSize + length (request_body q) \<le> kMaxControlMessageSize"
  shows "decode_control_request (message_bytes (cq_operation q) (request_body q)) = Inr q"
  using assms unat_body [OF assms(2)] task_codec.dec_enc [OF assms(1), of "[]"]
  by (simp add: decode_control_request_def message_bytes_def) (simp add: request_body_def)

text \<open>
  C1. Round trip of control requests: whatever request the encoder of \<^verbatim>\<open>agentctl\<close> accepts, with its
  strings, dependency list, command line and optional invocation, the decoder of \<^verbatim>\<open>agentd\<close> returns
  unchanged, and the packet fits the message limit the receiver allocates.
\<close>

theorem control_request_roundtrip:
  assumes "encode_control_request q = Inr bytes"
  shows "decode_control_request bytes = Inr q \<and> length bytes \<le> kMaxControlMessageSize"
  using encode_control_request_InrD [OF assms] decode_request_body [of q]
  by (auto simp: message_bytes_def)

definition sample_request :: control_request where
  "sample_request = \<lparr>cq_operation = Op_spawn, cq_target_id = 7,
     cq_task = default_task\<lparr>ts_id := 9, ts_name := ''n'', ts_dependencies := [3, 4],
       ts_command := [''ls'', ''-l'']\<rparr>\<rparr>"

lemma sample_request_encodes: "\<exists>bytes. encode_control_request sample_request = Inr bytes"
  by (simp add: sample_request_def default_task_def default_resources_def
      encode_control_request_def encode_control_header_def encode_task_def
      task_fields_invalid_def put_u8_def put_u16_def put_u32_def put_u64_def
      put_control_string_def finish_control_message_def kMaxStringSize_def
      kMaxControlMessageSize_def kMaxCollectionElements_def kHeaderSize_def)

theorem control_request_roundtrip_witness:
  "\<exists>bytes. encode_control_request sample_request = Inr bytes \<and>
     decode_control_request bytes = Inr sample_request \<and> length bytes \<le> kMaxControlMessageSize"
  using sample_request_encodes control_request_roundtrip by blast

text \<open>
  The decoder of control requests accepts one spelling per request: two packets that decode to
  the same request are equal, so no header field, count or length has a second accepted form and
  nothing may trail a message.
\<close>

theorem control_request_canonical:
  assumes "decode_control_request b = Inr q" and "decode_control_request b' = Inr q"
  shows "b = b'"
proof -
  have "b = message_bytes (cq_operation q) (request_body q)"
    if "decode_control_request b = Inr q" for b
  proof -
    from that obtain sz r where hdr: "decode_control_header b = Inr (cq_operation q, sz, r)"
      and sz: "unat sz = length r" and body: "r = request_body q"
      by (auto simp: decode_control_request_def request_body_def Option.bind_eq_Some_conv
          split: if_splits sum.splits option.splits dest!: get_sound task_codec.dec_sound)
    have "sz = word_of_nat (length r)" by (simp add: sz [symmetric])
    with decode_control_header_sound [OF hdr] body show ?thesis by (simp add: message_bytes_def)
  qed
  with assms show ?thesis by blast
qed

theorem control_request_canonical_witness:
  "\<exists>b. decode_control_request b = Inr sample_request \<and>
     (\<forall>b'. decode_control_request b' = Inr sample_request \<longrightarrow> b' = b)"
  by (metis control_request_canonical encode_control_request_InrD decode_request_body
      sample_request_encodes)

definition response_body :: "control_response \<Rightarrow> u8 list" where
  "response_body p =
     [if cp_success p then 1 else 0] @ string_bytes (cp_message p) @
     le_bytes 4 (word_of_nat (length (cp_agents p)) :: u32) @
     concat (map agent_bytes (cp_agents p)) @
     [if cp_result_available p then 1 else 0] @
     (if cp_result_available p then ref_bytes (cp_result p) else [])"

definition response_ok :: "control_response \<Rightarrow> bool" where
  "response_ok p \<longleftrightarrow>
     length (cp_message p) \<le> kMaxStringSize \<and> length (cp_agents p) \<le> kMaxCollectionElements \<and>
     (\<forall>a \<in> set (cp_agents p). agent_ok a)"

lemma writes_result:
  "writes (if b then put_reference r else run_writers []) (if b then ref_bytes r else []) True"
  by (cases b) (simp_all add: writes_reference writes_Nil del: run_writers.simps)

lemma writes_agents:
  "writes (run_writers (map encode_agent as)) (concat (map agent_bytes as)) (\<forall>a \<in> set as. agent_ok a)"
  by (rule writes_map) (rule writes_agent)

lemma encode_control_response_InrD:
  assumes "encode_control_response p = Inr bytes"
  shows "bytes = message_bytes Op_ping (response_body p) \<and> response_ok p \<and>
    kHeaderSize + length (response_body p) \<le> kMaxControlMessageSize"
proof -
  let ?ws = "[encode_control_header Op_ping, put_u8 (if cp_success p then 1 else 0),
         put_control_string (cp_message p), put_u32 (word_of_nat (length (cp_agents p))),
         run_writers (map encode_agent (cp_agents p)),
         put_u8 (if cp_result_available p then 1 else 0),
         (if cp_result_available p then put_reference (cp_result p) else run_writers [])]"
  have n: "length (cp_agents p) \<le> kMaxCollectionElements"
    using assms by (auto simp: encode_control_response_def split: if_splits)
  have w: "writes (run_writers ?ws) (header_bytes Op_ping 0 @ response_body p) (response_ok p)"
    by (rule writes_mono, (rule writes_seq writes_control_header writes_agents writes_result)+)
      (use n in \<open>simp_all add: response_body_def response_ok_def\<close>)
  have "run_writers (?ws @ [finish_control_message]) [] = Inr bytes"
    using assms n by (simp only: encode_control_response_def append_Cons append_Nil not_less [THEN iffD2] if_False)
  from run_writers_split [OF this w]
  have "response_ok p"
    and "finish_control_message (header_bytes Op_ping 0 @ response_body p) = Inr bytes"
    by simp_all
  then show ?thesis by (auto dest: finish_control_message)
qed

lemma get_control_reference_bytes:
  "get_control_reference (ref_bytes b @ r) = (if ref_in_bounds b then Some (b, r) else None)"
  by (simp add: get_control_reference_def ref_fields.dec_enc)

lemma decode_response_body:
  assumes ok: "response_ok p"
    and size: "kHeaderSize + length (response_body p) \<le> kMaxControlMessageSize"
  shows "decode_control_response (message_bytes Op_ping (response_body p)) =
    (if cp_result_available p \<and> \<not> ref_in_bounds (cp_result p)
     then Inl ''invalid shared result reference''
     else Inr (if cp_result_available p then p else p\<lparr>cp_result := default_ref\<rparr>))"
proof -
  have n: "unat (word_of_nat (length (cp_agents p)) :: u32) = length (cp_agents p)"
    "\<not> kMaxCollectionElements < length (cp_agents p)" "length (cp_message p) \<le> kMaxStringSize"
    using ok by (simp_all add: response_ok_def count_word)
  have a: "get_n get_agent (length (cp_agents p)) (concat (map agent_bytes (cp_agents p)) @ r)
      = Some (cp_agents p, r)" for r
    using ok by (intro agent_codec.get_n_enc) (simp add: list_all_iff response_ok_def)
  have u: "unat (word_of_nat (length (response_body p)) :: u32) = length (response_body p)"
    by (rule unat_body [OF size])
  have ref: "get_control_reference (ref_bytes b) = (if ref_in_bounds b then Some (b, []) else None)" for b
    using get_control_reference_bytes [of b "[]"] by simp
  have len: "length (message_bytes Op_ping (response_body p)) \<le> kMaxControlMessageSize"
    using size by (simp add: message_bytes_def)
  show ?thesis
    using len u unfolding decode_control_response_def message_bytes_def
    by (simp add: not_less) (simp add: response_body_def n a ref not_less)
qed

text \<open>
  C3. Round trip of control responses, with the exact condition under which a reply of
  \<^verbatim>\<open>agentd\<close> is readable: the decoder of \<^verbatim>\<open>agentctl\<close> returns every encoded response (agents,
  metrics and message included; the result field is reset when no result is announced), except
  one whose result reference is out of bounds, which the encoder does not check and the decoder
  rejects.
\<close>

theorem control_response_roundtrip:
  assumes "encode_control_response p = Inr bytes"
  shows "decode_control_response bytes =
    (if cp_result_available p \<and> \<not> ref_in_bounds (cp_result p)
     then Inl ''invalid shared result reference''
     else Inr (if cp_result_available p then p else p\<lparr>cp_result := default_ref\<rparr>))"
  using encode_control_response_InrD [OF assms] decode_response_body [of p] by simp

definition sample_response :: control_response where
  "sample_response = default_control_response\<lparr>cp_success := True, cp_message := ''pong'',
     cp_result_available := True,
     cp_result := default_ref\<lparr>br_region_id := 5, br_region_size := 8, br_length := 8\<rparr>\<rparr>"

lemma sample_response_encodes: "\<exists>bytes. encode_control_response sample_response = Inr bytes"
  by (simp add: sample_response_def default_control_response_def
      encode_control_response_def encode_control_header_def
      put_u8_def put_u16_def put_u32_def put_u64_def put_reference_def
      put_control_string_def finish_control_message_def kMaxStringSize_def
      kMaxControlMessageSize_def kMaxCollectionElements_def kHeaderSize_def)

theorem control_response_roundtrip_witness:
  "\<exists>bytes. encode_control_response sample_response = Inr bytes \<and>
     decode_control_response bytes = Inr sample_response"
proof -
  obtain bytes where b: "encode_control_response sample_response = Inr bytes"
    using sample_response_encodes by blast
  have "ref_in_bounds (cp_result sample_response)" "cp_result_available sample_response"
    by (simp_all add: sample_response_def default_control_response_def default_ref_def
        ref_in_bounds_def)
  with control_response_roundtrip [OF b] b show ?thesis by auto
qed

end
