(* ===== verification/Invocation_Protocol.thy ===== *)
theory Invocation_Protocol
  imports Control_Protocol
begin

text \<open>
  The binary protocol between the runtime and its model and tool services
  (\<^verbatim>\<open>agent-runtime/src/invocation_protocol.cpp\<close>). It has its own header, its own size limit and a
  stricter check of buffer references (the data type must be a known one), and both directions
  check references when encoding as well as when decoding.
\<close>

section \<open>Messages\<close>

datatype invocation_status = St_ok | St_rejected | St_failed | St_cancelled | St_busy

fun invocation_status_code :: "invocation_status \<Rightarrow> u8" where
  "invocation_status_code St_ok = 0"
| "invocation_status_code St_rejected = 1"
| "invocation_status_code St_failed = 2"
| "invocation_status_code St_cancelled = 3"
| "invocation_status_code St_busy = 4"

definition invocation_status_of_code :: "u8 \<Rightarrow> invocation_status option" where
  "invocation_status_of_code w =
     (if w = 0 then Some St_ok else if w = 1 then Some St_rejected
      else if w = 2 then Some St_failed else if w = 3 then Some St_cancelled
      else if w = 4 then Some St_busy else None)"

lemma invocation_status_of_code_code [simp]:
  "invocation_status_of_code (invocation_status_code s) = Some s"
  by (cases s) (simp_all add: invocation_status_of_code_def)

lemma invocation_status_of_code_SomeD:
  "invocation_status_of_code w = Some s \<Longrightarrow> w = invocation_status_code s"
  by (auto simp: invocation_status_of_code_def split: if_splits)

record invocation_input =
  nx_producer_id :: agent_id
  nx_reference :: shared_buffer_ref

record invocation_request =
  nq_agent_id :: agent_id
  nq_parent_id :: agent_id
  nq_kind :: invocation_kind
  nq_target :: string
  nq_operation :: string
  nq_payload :: string
  nq_context_id :: context_id
  nq_priority :: i32
  nq_resources :: resource_request
  nq_inputs :: "invocation_input list"

definition default_invocation_request :: invocation_request where
  "default_invocation_request =
     \<lparr>nq_agent_id = kInvalidAgentId, nq_parent_id = kInvalidAgentId, nq_kind = Kind_model,
      nq_target = [], nq_operation = [], nq_payload = [], nq_context_id = kInvalidContextId,
      nq_priority = 0, nq_resources = default_resources, nq_inputs = []\<rparr>"

record invocation_response =
  np_agent_id :: agent_id
  np_process_id :: i64
  np_status :: invocation_status
  np_message :: string
  np_context_id :: context_id
  np_metrics :: performance_metrics
  np_output_available :: bool
  np_output :: shared_buffer_ref

definition default_invocation_response :: invocation_response where
  "default_invocation_response =
     \<lparr>np_agent_id = kInvalidAgentId, np_process_id = - 1, np_status = St_failed, np_message = [],
      np_context_id = kInvalidContextId, np_metrics = default_metrics,
      np_output_available = False, np_output = default_ref\<rparr>"

definition kInvocationProtocolMagic :: u32 where
  "kInvocationProtocolMagic = 0x41524956"

definition kInvocationProtocolVersion :: u16 where
  "kInvocationProtocolVersion = 1"

definition kMaxInvocationMessageSize :: nat where
  "kMaxInvocationMessageSize = 1024 * 1024"

definition kMaxInvocationInputs :: nat where
  "kMaxInvocationInputs = 64"

definition kRequestMessage :: u16 where
  "kRequestMessage = 1"

definition kResponseMessage :: u16 where
  "kResponseMessage = 2"

section \<open>Encoders\<close>

definition put_invocation_string :: "string \<Rightarrow> writer" where
  "put_invocation_string s out =
     (if length s > kMaxStringSize \<or> length out > kMaxInvocationMessageSize - 4 \<or>
         length s > kMaxInvocationMessageSize - 4 - length out
      then Inl ''invocation string exceeds size limit''
      else Inr (out @ string_bytes s))"

definition encode_invocation_header :: "u16 \<Rightarrow> writer" where
  "encode_invocation_header ty = run_writers
     [put_u32 kInvocationProtocolMagic, put_u16 kInvocationProtocolVersion, put_u16 ty, put_u32 0]"

definition finish_invocation_message :: writer where
  "finish_invocation_message out =
     (if length out < kHeaderSize \<or> length out > kMaxInvocationMessageSize
      then Inl ''invocation message exceeds size limit''
      else Inr (patch_size (word_of_nat (length out - kHeaderSize)) out))"

definition valid_reference :: "shared_buffer_ref \<Rightarrow> bool" where
  "valid_reference b \<longleftrightarrow>
     br_version b = 1 \<and> br_region_id b \<noteq> 0 \<and> br_region_size b \<noteq> 0 \<and>
     br_offset b \<le> br_region_size b \<and> br_length b \<le> br_region_size b - br_offset b \<and>
     br_data_type b \<le> data_json_utf8"

lemma valid_reference_in_bounds: "valid_reference b \<Longrightarrow> ref_in_bounds b"
  by (simp add: valid_reference_def ref_in_bounds_def)

definition valid_input :: "invocation_input \<Rightarrow> bool" where
  "valid_input x \<longleftrightarrow> nx_producer_id x \<noteq> kInvalidAgentId \<and> valid_reference (nx_reference x)"

definition put_input :: "invocation_input \<Rightarrow> writer" where
  "put_input x = run_writers [put_u64 (nx_producer_id x), put_reference (nx_reference x)]"

definition put_invocation_metrics :: "performance_metrics \<Rightarrow> writer" where
  "put_invocation_metrics m = run_writers
     [put_u64 (pm_queue_time_us m), put_u64 (pm_execution_time_us m), put_u64 (pm_input_tokens m),
      put_u64 (pm_output_tokens m), put_u64 (pm_reused_tokens m), put_u64 (pm_cache_bytes m),
      put_u8 (if pm_cache_hit m then 1 else 0)]"

text \<open>
  The check of the invocation kind in \<open>encode_invocation_request\<close> holds by the type of the field.
\<close>

definition request_writers :: "invocation_request \<Rightarrow> writer list" where
  "request_writers q =
     [encode_invocation_header kRequestMessage, put_u64 (nq_agent_id q), put_u64 (nq_parent_id q),
      put_u8 (invocation_kind_code (nq_kind q)), put_u64 (nq_context_id q),
      put_u32 (nq_priority q), put_u32 (rr_cpu_threads (nq_resources q)),
      put_u64 (rr_memory_bytes (nq_resources q)), put_u64 (rr_timeout (nq_resources q)),
      put_invocation_string (nq_target q), put_invocation_string (nq_operation q),
      put_invocation_string (nq_payload q), put_u32 (word_of_nat (length (nq_inputs q))),
      run_writers (map put_input (nq_inputs q))]"

definition encode_invocation_request :: "invocation_request \<Rightarrow> string + u8 list" where
  "encode_invocation_request q =
     (if nq_agent_id q = kInvalidAgentId \<or> nq_target q = [] \<or> nq_operation q = [] \<or>
         length (nq_inputs q) > kMaxInvocationInputs \<or> sint (rr_timeout (nq_resources q)) < 0
      then Inl ''invalid invocation request''
      else if \<exists>x \<in> set (nq_inputs q). \<not> valid_input x then Inl ''invalid invocation input''
      else run_writers (request_writers q @ [finish_invocation_message]) [])"

definition response_writers :: "invocation_response \<Rightarrow> writer list" where
  "response_writers p =
     [encode_invocation_header kResponseMessage, put_u64 (np_agent_id p),
      put_u64 (np_process_id p), put_u8 (invocation_status_code (np_status p)),
      put_u64 (np_context_id p), put_invocation_string (np_message p),
      put_invocation_metrics (np_metrics p), put_u8 (if np_output_available p then 1 else 0),
      (if np_output_available p then put_reference (np_output p) else run_writers [])]"

definition encode_invocation_response :: "invocation_response \<Rightarrow> string + u8 list" where
  "encode_invocation_response p =
     (if np_agent_id p = kInvalidAgentId \<or>
         (np_output_available p \<and> \<not> valid_reference (np_output p))
      then Inl ''invalid invocation response''
      else run_writers (response_writers p @ [finish_invocation_message]) [])"

section \<open>Decoders\<close>

definition decode_invocation_header :: "u16 \<Rightarrow> reader \<Rightarrow> string + (u32 \<times> reader)" where
  "decode_invocation_header expected r =
     (case do {
        (magic, r) \<leftarrow> get_u32 r;
        (version, r) \<leftarrow> get_u16 r;
        (ty, r) \<leftarrow> get_u16 r;
        (sz, r) \<leftarrow> get_u32 r;
        Some (magic, version, ty, sz, r) }
      of None \<Rightarrow> Inl ''truncated invocation header''
       | Some (magic, version, ty, sz, r) \<Rightarrow>
           if magic \<noteq> kInvocationProtocolMagic \<or> version \<noteq> kInvocationProtocolVersion \<or>
              ty \<noteq> expected
           then Inl ''unsupported invocation protocol'' else Inr (sz, r))"

definition get_invocation_reference :: "reader \<Rightarrow> (shared_buffer_ref \<times> reader) option" where
  "get_invocation_reference r = do {
     (b, r) \<leftarrow> get_ref_fields r;
     if valid_reference b then Some (b, r) else None }"

definition get_invocation_metrics :: "reader \<Rightarrow> (performance_metrics \<times> reader) option" where
  "get_invocation_metrics r = do {
     (queue, r) \<leftarrow> get_u64 r;
     (execution, r) \<leftarrow> get_u64 r;
     (input, r) \<leftarrow> get_u64 r;
     (output, r) \<leftarrow> get_u64 r;
     (reused, r) \<leftarrow> get_u64 r;
     (cache, r) \<leftarrow> get_u64 r;
     (hit, r) \<leftarrow> get_u8 r;
     if hit > 1 then None
     else Some (\<lparr>pm_queue_time_us = queue, pm_execution_time_us = execution,
                 pm_input_tokens = input, pm_output_tokens = output, pm_reused_tokens = reused,
                 pm_cache_bytes = cache, pm_cache_hit = (hit = 1)\<rparr>, r) }"

definition get_input :: "reader \<Rightarrow> (invocation_input \<times> reader) option" where
  "get_input r = do {
     (producer, r) \<leftarrow> get_u64 r;
     if producer = kInvalidAgentId then None else do {
     (b, r) \<leftarrow> get_invocation_reference r;
     Some (\<lparr>nx_producer_id = producer, nx_reference = b\<rparr>, r) }}"

text \<open>The first condition of \<open>decode_invocation_request\<close>: the fields before the inputs.\<close>

definition get_request_fields ::
  "u32 \<Rightarrow> reader \<Rightarrow> (u8 \<times> u64 \<times> invocation_request \<times> nat \<times> reader) option" where
  "get_request_fields sz r =
     (if unat sz \<noteq> length r then None else do {
     (agent, r) \<leftarrow> get_u64 r;
     (parent, r) \<leftarrow> get_u64 r;
     (kind, r) \<leftarrow> get_u8 r;
     (context, r) \<leftarrow> get_u64 r;
     (priority, r) \<leftarrow> get_u32 r;
     (cpu, r) \<leftarrow> get_u32 r;
     (memory, r) \<leftarrow> get_u64 r;
     (timeout, r) \<leftarrow> get_u64 r;
     (target, r) \<leftarrow> get_string r;
     (operation, r) \<leftarrow> get_string r;
     (payload, r) \<leftarrow> get_string r;
     (count, r) \<leftarrow> get_u32 r;
     if unat count > kMaxInvocationInputs then None
     else Some (kind, timeout,
       \<lparr>nq_agent_id = agent, nq_parent_id = parent, nq_kind = Kind_model, nq_target = target,
        nq_operation = operation, nq_payload = payload, nq_context_id = context,
        nq_priority = priority,
        nq_resources = \<lparr>rr_cpu_threads = cpu, rr_memory_bytes = memory, rr_timeout = timeout\<rparr>,
        nq_inputs = []\<rparr>, unat count, r) })"

definition decode_invocation_request :: "u8 list \<Rightarrow> string + invocation_request" where
  "decode_invocation_request bytes =
     (if length bytes > kMaxInvocationMessageSize then Inl ''invalid invocation request buffer''
      else case decode_invocation_header kRequestMessage bytes of
        Inl e \<Rightarrow> Inl e
      | Inr (sz, r) \<Rightarrow>
          (case get_request_fields sz r of
             None \<Rightarrow> Inl ''invalid invocation request''
           | Some (kind, timeout, q, count, r) \<Rightarrow>
          (case invocation_kind_of_code kind of
             None \<Rightarrow> Inl ''invalid invocation request fields''
           | Some k \<Rightarrow>
          if timeout > int64_max \<or> nq_agent_id q = kInvalidAgentId \<or> nq_target q = [] \<or>
             nq_operation q = []
          then Inl ''invalid invocation request fields''
          else (case get_n get_input count r of
             None \<Rightarrow> Inl ''invalid invocation input''
           | Some (inputs, r) \<Rightarrow>
          if r \<noteq> [] then Inl ''trailing invocation request data''
          else Inr (q\<lparr>nq_kind := k, nq_inputs := inputs\<rparr>)))))"

definition decode_invocation_response :: "u8 list \<Rightarrow> string + invocation_response" where
  "decode_invocation_response bytes =
     (if length bytes > kMaxInvocationMessageSize then Inl ''invalid invocation response buffer''
      else case decode_invocation_header kResponseMessage bytes of
        Inl e \<Rightarrow> Inl e
      | Inr (sz, r) \<Rightarrow>
          (case do {
             if unat sz \<noteq> length r then None else do {
             (agent, r) \<leftarrow> get_u64 r;
             (pid, r) \<leftarrow> get_u64 r;
             (status, r) \<leftarrow> get_u8 r;
             st \<leftarrow> invocation_status_of_code status;
             (context, r) \<leftarrow> get_u64 r;
             (message, r) \<leftarrow> get_string r;
             (metrics, r) \<leftarrow> get_invocation_metrics r;
             (available, r) \<leftarrow> get_u8 r;
             if available > 1 then None
             else Some (\<lparr>np_agent_id = agent, np_process_id = pid, np_status = st,
                         np_message = message, np_context_id = context, np_metrics = metrics,
                         np_output_available = (available = 1), np_output = default_ref\<rparr>, r) }}
           of None \<Rightarrow> Inl ''invalid invocation response''
            | Some (p, r) \<Rightarrow>
          (case (if np_output_available p then get_invocation_reference r
                 else Some (default_ref, r))
           of None \<Rightarrow> Inl ''invalid invocation output''
            | Some (b, r) \<Rightarrow>
          if np_agent_id p = kInvalidAgentId \<or> r \<noteq> []
          then Inl ''invalid invocation response fields''
          else Inr (p\<lparr>np_output := b\<rparr>))))"

section \<open>Codecs of the parts\<close>

lemma writes_invocation_string [intro]:
  "writes (put_invocation_string s) (string_bytes s) (length s \<le> kMaxStringSize)"
  by (auto simp: writes_def put_invocation_string_def split: if_splits)

lemma writes_invocation_metrics: "writes (put_invocation_metrics m) (metrics_bytes m) True"
  unfolding put_invocation_metrics_def
  by (rule writes_mono, (rule writes_seq)+) (simp_all add: metrics_bytes_def)

interpretation invocation_metrics_codec: codec metrics_bytes get_invocation_metrics "\<lambda>_. True"
proof -
  have "get_invocation_metrics = get_agent_metrics"
    by (rule ext) (simp only: get_invocation_metrics_def get_agent_metrics_def)
  then show "codec metrics_bytes get_invocation_metrics (\<lambda>_. True)"
    using metrics_codec.codec_axioms by simp
qed

interpretation invocation_ref: codec ref_bytes get_invocation_reference valid_reference
proof
  fix b r assume "valid_reference b"
  then show "get_invocation_reference (ref_bytes b @ r) = Some (b, r)"
    by (simp add: get_invocation_reference_def ref_fields.dec_enc)
next
  fix bs b r assume "get_invocation_reference bs = Some (b, r)"
  then show "valid_reference b \<and> bs = ref_bytes b @ r"
    by (auto simp: get_invocation_reference_def Option.bind_eq_Some_conv split: if_splits
        dest!: ref_fields.dec_sound)
qed

definition input_bytes :: "invocation_input \<Rightarrow> u8 list" where
  "input_bytes x = le_bytes 8 (nx_producer_id x) @ ref_bytes (nx_reference x)"

lemma writes_input: "writes (put_input x) (input_bytes x) True"
  unfolding put_input_def
  by (rule writes_mono, (rule writes_seq)+) (simp_all add: input_bytes_def)

lemma writes_inputs:
  "writes (run_writers (map put_input xs)) (concat (map input_bytes xs)) True"
  by (rule writes_mono, rule writes_map) (rule writes_input, simp_all)

interpretation input_codec: codec input_bytes get_input valid_input
proof
  fix x r assume "valid_input x"
  then show "get_input (input_bytes x @ r) = Some (x, r)"
    by (simp add: get_input_def input_bytes_def valid_input_def invocation_ref.dec_enc)
next
  fix bs x r assume "get_input bs = Some (x, r)"
  then show "valid_input x \<and> bs = input_bytes x @ r"
    by (auto simp: get_input_def input_bytes_def valid_input_def Option.bind_eq_Some_conv
        split: if_splits dest!: get_sound invocation_ref.dec_sound)
qed

definition invocation_header_bytes :: "u16 \<Rightarrow> u32 \<Rightarrow> u8 list" where
  "invocation_header_bytes ty sz =
     (le_bytes 4 kInvocationProtocolMagic @ le_bytes 2 kInvocationProtocolVersion @
      le_bytes 2 ty) @ le_bytes 4 sz"

lemma length_invocation_header [simp]: "length (invocation_header_bytes ty sz) = kHeaderSize"
  by (simp add: invocation_header_bytes_def kHeaderSize_def)

lemma writes_invocation_header:
  "writes (encode_invocation_header ty) (invocation_header_bytes ty 0) True"
  unfolding encode_invocation_header_def
  by (rule writes_mono, (rule writes_seq)+) (simp_all add: invocation_header_bytes_def)

lemma decode_invocation_header_bytes [simp]:
  "decode_invocation_header ty (invocation_header_bytes ty sz @ body) = Inr (sz, body)"
  by (simp add: decode_invocation_header_def invocation_header_bytes_def)

lemma decode_invocation_header_sound:
  "decode_invocation_header ty bs = Inr (sz, r) \<Longrightarrow> bs = invocation_header_bytes ty sz @ r"
  by (auto simp: decode_invocation_header_def invocation_header_bytes_def
      Option.bind_eq_Some_conv split: option.splits if_splits dest!: get_sound)

definition invocation_bytes :: "u16 \<Rightarrow> u8 list \<Rightarrow> u8 list" where
  "invocation_bytes ty body = invocation_header_bytes ty (word_of_nat (length body)) @ body"

lemma finish_invocation_message:
  assumes "finish_invocation_message (invocation_header_bytes ty 0 @ body) = Inr bytes"
  shows "bytes = invocation_bytes ty body \<and> kHeaderSize + length body \<le> kMaxInvocationMessageSize"
proof -
  let ?h = "le_bytes 4 kInvocationProtocolMagic @ le_bytes 2 kInvocationProtocolVersion @
      le_bytes 2 ty"
  have "patch_size sz (invocation_header_bytes ty 0 @ body) = invocation_header_bytes ty sz @ body"
    for sz
    unfolding invocation_header_bytes_def append_assoc
    using patch_size_header [of ?h "le_bytes 4 (0 :: u32)" sz body] by simp
  with assms show ?thesis
    by (auto simp: finish_invocation_message_def invocation_bytes_def split: if_splits)
qed

lemma unat_invocation_body:
  "kHeaderSize + n \<le> kMaxInvocationMessageSize \<Longrightarrow> unat (word_of_nat n :: u32) = n"
  by (simp add: kMaxInvocationMessageSize_def kHeaderSize_def unat_of_nat take_bit_nat_eq_self)

lemma inputs_word: "n \<le> kMaxInvocationInputs \<Longrightarrow> unat (word_of_nat n :: u32) = n"
  by (simp add: kMaxInvocationInputs_def unat_of_nat take_bit_nat_eq_self)

section \<open>Requests\<close>

definition invocation_request_body :: "invocation_request \<Rightarrow> u8 list" where
  "invocation_request_body q =
     le_bytes 8 (nq_agent_id q) @ le_bytes 8 (nq_parent_id q) @
     [invocation_kind_code (nq_kind q)] @ le_bytes 8 (nq_context_id q) @
     le_bytes 4 (nq_priority q) @ le_bytes 4 (rr_cpu_threads (nq_resources q)) @
     le_bytes 8 (rr_memory_bytes (nq_resources q)) @ le_bytes 8 (rr_timeout (nq_resources q)) @
     string_bytes (nq_target q) @ string_bytes (nq_operation q) @ string_bytes (nq_payload q) @
     le_bytes 4 (word_of_nat (length (nq_inputs q)) :: u32) @ concat (map input_bytes (nq_inputs q))"

definition invocation_request_ok :: "invocation_request \<Rightarrow> bool" where
  "invocation_request_ok q \<longleftrightarrow>
     nq_agent_id q \<noteq> kInvalidAgentId \<and> nq_target q \<noteq> [] \<and> nq_operation q \<noteq> [] \<and>
     rr_timeout (nq_resources q) \<le> int64_max \<and>
     length (nq_target q) \<le> kMaxStringSize \<and> length (nq_operation q) \<le> kMaxStringSize \<and>
     length (nq_payload q) \<le> kMaxStringSize \<and> length (nq_inputs q) \<le> kMaxInvocationInputs \<and>
     list_all valid_input (nq_inputs q)"

lemmas writes_invocation_seq = writes_seq writes_invocation_header writes_invocation_string
  writes_inputs writes_invocation_metrics writes_result

lemma encode_invocation_request_InrD:
  assumes "encode_invocation_request q = Inr bytes"
  shows "bytes = invocation_bytes kRequestMessage (invocation_request_body q) \<and>
    invocation_request_ok q \<and>
    kHeaderSize + length (invocation_request_body q) \<le> kMaxInvocationMessageSize"
proof -
  from assms have pre: "nq_agent_id q \<noteq> kInvalidAgentId" "nq_target q \<noteq> []" "nq_operation q \<noteq> []"
    "length (nq_inputs q) \<le> kMaxInvocationInputs" "\<not> sint (rr_timeout (nq_resources q)) < 0"
    "list_all valid_input (nq_inputs q)"
    and run: "run_writers (request_writers q @ [finish_invocation_message]) [] = Inr bytes"
    by (auto simp: encode_invocation_request_def list_all_iff not_less split: if_splits)
  have w: "writes (run_writers (request_writers q))
      (invocation_header_bytes kRequestMessage 0 @ invocation_request_body q)
      (invocation_request_ok q)"
    unfolding request_writers_def
    by (rule writes_mono, (rule writes_invocation_seq)+)
      (use pre in \<open>simp_all add: invocation_request_body_def invocation_request_ok_def
        sint_negative_iff not_less\<close>)
  from run_writers_split [OF run w] show ?thesis
    using finish_invocation_message [of kRequestMessage "invocation_request_body q"] by simp
qed

lemma decode_invocation_request_body:
  assumes ok: "invocation_request_ok q"
    and size: "kHeaderSize + length (invocation_request_body q) \<le> kMaxInvocationMessageSize"
  shows "decode_invocation_request (invocation_bytes kRequestMessage (invocation_request_body q)) =
    Inr q"
proof -
  have n: "unat (word_of_nat (length (nq_inputs q)) :: u32) = length (nq_inputs q)"
    using ok by (simp add: invocation_request_ok_def inputs_word)
  have x: "get_n get_input (length (nq_inputs q)) (concat (map input_bytes (nq_inputs q))) =
      Some (nq_inputs q, [])"
    using ok input_codec.get_n_enc [of "nq_inputs q" "[]"] by (simp add: invocation_request_ok_def)
  have u: "unat (word_of_nat (length (invocation_request_body q)) :: u32) =
      length (invocation_request_body q)"
    by (rule unat_invocation_body [OF size])
  have fields: "get_request_fields (word_of_nat (length (invocation_request_body q)))
      (invocation_request_body q) =
    Some (invocation_kind_code (nq_kind q), rr_timeout (nq_resources q),
      q\<lparr>nq_kind := Kind_model, nq_inputs := []\<rparr>, length (nq_inputs q),
      concat (map input_bytes (nq_inputs q)))"
    using ok unfolding get_request_fields_def u
    by (simp add: n invocation_request_ok_def not_less invocation_request_body_def)
  show ?thesis
    using ok size by (simp add: decode_invocation_request_def invocation_bytes_def fields x
        invocation_request_ok_def not_less)
qed

lemma decode_invocation_request_InrD:
  assumes "decode_invocation_request b = Inr q"
  shows "b = invocation_bytes kRequestMessage (invocation_request_body q) \<and> invocation_request_ok q"
proof -
  from assms obtain sz r kind timeout q' count r' k inputs
    where hdr: "decode_invocation_header kRequestMessage b = Inr (sz, r)"
      and fields: "get_request_fields sz r = Some (kind, timeout, q', count, r')"
      and k: "invocation_kind_of_code kind = Some k"
      and ok: "timeout \<le> int64_max" "nq_agent_id q' \<noteq> kInvalidAgentId" "nq_target q' \<noteq> []"
        "nq_operation q' \<noteq> []"
      and inputs: "get_n get_input count r' = Some (inputs, [])"
      and q: "q = q'\<lparr>nq_kind := k, nq_inputs := inputs\<rparr>"
    by (auto simp: decode_invocation_request_def not_less
        split: if_splits sum.splits option.splits)
  from input_codec.get_n_sound [OF inputs] have ins: "length inputs = count"
    "list_all valid_input inputs" "r' = concat (map input_bytes inputs)" by simp_all
  from fields have sz: "unat sz = length r" and body: "r = invocation_request_body q"
    and rest: "invocation_request_ok q"
    using ok ins invocation_kind_of_code_SomeD [OF k]
    by (auto simp: get_request_fields_def Option.bind_eq_Some_conv q invocation_request_body_def
        invocation_request_ok_def not_less split: if_splits dest!: get_sound)
  have "sz = word_of_nat (length r)" by (simp add: sz [symmetric])
  with decode_invocation_header_sound [OF hdr] body rest show ?thesis
    by (simp add: invocation_bytes_def)
qed

text \<open>
  The other direction: a writer that has room appends its bytes. \<open>fits w c P\<close> holds when the
  writer succeeds on every buffer to which \<open>c\<close> can be added within the message limit.
\<close>

definition fits :: "writer \<Rightarrow> u8 list \<Rightarrow> bool" where
  "fits w c \<longleftrightarrow>
     (\<forall>out. length out + length c \<le> kMaxInvocationMessageSize \<longrightarrow> w out = Inr (out @ c))"

lemma fits_put:
  "fits (put_u8 a) [a]" "fits (put_u16 b) (le_bytes 2 b)" "fits (put_u32 c) (le_bytes 4 c)"
  "fits (put_u64 d) (le_bytes 8 d)"
  by (simp_all add: fits_def put_u8_def put_u16_def put_u32_def put_u64_def)

lemma fits_Nil: "fits (run_writers []) []"
  by (simp add: fits_def)

lemma fits_Cons:
  assumes "fits w c" and "fits (run_writers ws) cs"
  shows "fits (run_writers (w # ws)) (c @ cs)"
  using assms by (simp add: fits_def)

lemma fits_string: "length s \<le> kMaxStringSize \<Longrightarrow> fits (put_invocation_string s) (string_bytes s)"
  by (auto simp: fits_def put_invocation_string_def kMaxInvocationMessageSize_def)

lemma fits_map:
  "(\<And>x. x \<in> set xs \<Longrightarrow> fits (f x) (g x)) \<Longrightarrow> fits (run_writers (map f xs)) (concat (map g xs))"
proof (induction xs)
  case Nil
  then show ?case by (simp add: fits_def)
next
  case (Cons x xs)
  then have "fits (f x) (g x)" and "fits (run_writers (map f xs)) (concat (map g xs))" by simp_all
  from fits_Cons [OF this] show ?case by (simp del: run_writers.simps)
qed

lemma fits_mono: "fits w c \<Longrightarrow> c = c' \<Longrightarrow> fits w c'"
  by simp

lemma fits_reference: "fits (put_reference b) (ref_bytes b)"
  unfolding put_reference_def
  by (rule fits_mono, (rule fits_Cons fits_put fits_Nil)+) (simp add: ref_bytes_def)

lemma fits_input: "fits (put_input x) (input_bytes x)"
  unfolding put_input_def
  by (rule fits_mono, (rule fits_Cons fits_put fits_Nil fits_reference)+) (simp add: input_bytes_def)

lemma fits_inputs: "fits (run_writers (map put_input xs)) (concat (map input_bytes xs))"
  by (rule fits_map) (rule fits_input)

lemma fits_metrics: "fits (put_invocation_metrics m) (metrics_bytes m)"
  unfolding put_invocation_metrics_def
  by (rule fits_mono, (rule fits_Cons fits_put fits_Nil)+) (simp add: metrics_bytes_def)

lemma fits_result:
  "fits (if b then put_reference r else run_writers []) (if b then ref_bytes r else [])"
  by (cases b) (simp_all add: fits_reference fits_Nil del: run_writers.simps)

lemma fits_header: "fits (encode_invocation_header ty) (invocation_header_bytes ty 0)"
  unfolding encode_invocation_header_def
  by (rule fits_mono, (rule fits_Cons fits_put fits_Nil)+) (simp add: invocation_header_bytes_def)

lemmas fits_seq = fits_Cons fits_put fits_Nil fits_header fits_inputs fits_metrics fits_result

lemma finish_invocation_message_fits:
  assumes "kHeaderSize + length body \<le> kMaxInvocationMessageSize"
  shows "finish_invocation_message (invocation_header_bytes ty 0 @ body) = Inr (invocation_bytes ty body)"
proof -
  have "\<exists>bytes. finish_invocation_message (invocation_header_bytes ty 0 @ body) = Inr bytes"
    using assms by (simp add: finish_invocation_message_def not_less)
  then show ?thesis using finish_invocation_message by blast
qed

lemma run_writers_finish:
  assumes "fits (run_writers ws) (invocation_header_bytes ty 0 @ body)"
    and "kHeaderSize + length body \<le> kMaxInvocationMessageSize"
  shows "run_writers (ws @ [finish_invocation_message]) [] = Inr (invocation_bytes ty body)"
  using assms finish_invocation_message_fits [OF assms(2), of ty]
  by (simp add: fits_def run_writers_append)

lemma encode_invocation_request_ok:
  assumes ok: "invocation_request_ok q"
    and size: "kHeaderSize + length (invocation_request_body q) \<le> kMaxInvocationMessageSize"
  shows "encode_invocation_request q =
    Inr (invocation_bytes kRequestMessage (invocation_request_body q))"
proof -
  have strings: "length (nq_target q) \<le> kMaxStringSize" "length (nq_operation q) \<le> kMaxStringSize"
    "length (nq_payload q) \<le> kMaxStringSize"
    using ok by (simp_all add: invocation_request_ok_def)
  have f: "fits (run_writers (request_writers q))
      (invocation_header_bytes kRequestMessage 0 @ invocation_request_body q)"
    unfolding request_writers_def
    by (rule fits_mono, (rule fits_seq strings [THEN fits_string])+)
      (simp add: invocation_request_body_def)
  show ?thesis
    using ok run_writers_finish [OF f size]
    by (auto simp: encode_invocation_request_def invocation_request_ok_def list_all_iff
        sint_negative_iff)
qed

lemma length_of_decoded_request:
  assumes "decode_invocation_request (invocation_bytes ty body) = Inr q"
  shows "kHeaderSize + length body \<le> kMaxInvocationMessageSize"
  using assms by (auto simp: decode_invocation_request_def invocation_bytes_def split: if_splits)

text \<open>
  C8. Encoding and decoding of invocation requests are inverse to each other in both directions: a
  packet is what the client's encoder produces for a request exactly when the service's decoder
  returns that request from it. So every request that the service acts on is one that the encoder
  would have accepted (known kind, non-empty target and operation, non-negative timeout, at most
  64 inputs with references inside their regions), in its only spelling.
\<close>

theorem invocation_request_exact:
  "encode_invocation_request q = Inr bytes \<longleftrightarrow> decode_invocation_request bytes = Inr q"
proof
  assume "encode_invocation_request q = Inr bytes"
  from encode_invocation_request_InrD [OF this] decode_invocation_request_body [of q]
  show "decode_invocation_request bytes = Inr q" by simp
next
  assume dec: "decode_invocation_request bytes = Inr q"
  from decode_invocation_request_InrD [OF this] length_of_decoded_request dec
    encode_invocation_request_ok [of q]
  show "encode_invocation_request q = Inr bytes" by metis
qed

section \<open>Responses\<close>

definition invocation_response_body :: "invocation_response \<Rightarrow> u8 list" where
  "invocation_response_body p =
     le_bytes 8 (np_agent_id p) @ le_bytes 8 (np_process_id p) @
     [invocation_status_code (np_status p)] @ le_bytes 8 (np_context_id p) @
     string_bytes (np_message p) @ metrics_bytes (np_metrics p) @
     [if np_output_available p then 1 else 0] @
     (if np_output_available p then ref_bytes (np_output p) else [])"

definition invocation_response_ok :: "invocation_response \<Rightarrow> bool" where
  "invocation_response_ok p \<longleftrightarrow>
     np_agent_id p \<noteq> kInvalidAgentId \<and> length (np_message p) \<le> kMaxStringSize \<and>
     (np_output_available p \<longrightarrow> valid_reference (np_output p))"

lemma encode_invocation_response_InrD:
  assumes "encode_invocation_response p = Inr bytes"
  shows "bytes = invocation_bytes kResponseMessage (invocation_response_body p) \<and>
    invocation_response_ok p \<and>
    kHeaderSize + length (invocation_response_body p) \<le> kMaxInvocationMessageSize"
proof -
  from assms have pre: "np_agent_id p \<noteq> kInvalidAgentId"
    "np_output_available p \<longrightarrow> valid_reference (np_output p)"
    and run: "run_writers (response_writers p @ [finish_invocation_message]) [] = Inr bytes"
    by (auto simp: encode_invocation_response_def split: if_splits)
  have w: "writes (run_writers (response_writers p))
      (invocation_header_bytes kResponseMessage 0 @ invocation_response_body p)
      (invocation_response_ok p)"
    unfolding response_writers_def
    by (rule writes_mono, (rule writes_invocation_seq)+)
      (use pre in \<open>simp_all add: invocation_response_body_def invocation_response_ok_def\<close>)
  from run_writers_split [OF run w] show ?thesis
    using finish_invocation_message [of kResponseMessage "invocation_response_body p"] by simp
qed

lemma encode_invocation_response_ok:
  assumes ok: "invocation_response_ok p"
    and size: "kHeaderSize + length (invocation_response_body p) \<le> kMaxInvocationMessageSize"
  shows "encode_invocation_response p =
    Inr (invocation_bytes kResponseMessage (invocation_response_body p))"
proof -
  have message: "length (np_message p) \<le> kMaxStringSize"
    using ok by (simp add: invocation_response_ok_def)
  have f: "fits (run_writers (response_writers p))
      (invocation_header_bytes kResponseMessage 0 @ invocation_response_body p)"
    unfolding response_writers_def
    by (rule fits_mono, (rule fits_seq message [THEN fits_string])+)
      (simp add: invocation_response_body_def)
  show ?thesis
    using ok run_writers_finish [OF f size]
    by (auto simp: encode_invocation_response_def invocation_response_ok_def)
qed

lemma decode_invocation_response_body:
  assumes ok: "invocation_response_ok p"
    and size: "kHeaderSize + length (invocation_response_body p) \<le> kMaxInvocationMessageSize"
  shows "decode_invocation_response
      (invocation_bytes kResponseMessage (invocation_response_body p)) =
    Inr (if np_output_available p then p else p\<lparr>np_output := default_ref\<rparr>)"
proof -
  have u: "unat (word_of_nat (length (invocation_response_body p)) :: u32) =
      length (invocation_response_body p)"
    by (rule unat_invocation_body [OF size])
  have ref: "valid_reference b \<Longrightarrow> get_invocation_reference (ref_bytes b) = Some (b, [])" for b
    using invocation_ref.dec_enc [of b "[]"] by simp
  have len: "length (invocation_bytes kResponseMessage (invocation_response_body p)) \<le>
      kMaxInvocationMessageSize"
    using size by (simp add: invocation_bytes_def)
  show ?thesis
    using ok len u unfolding decode_invocation_response_def invocation_bytes_def
    by (simp add: not_less)
      (simp add: invocation_response_body_def invocation_response_ok_def
        invocation_metrics_codec.dec_enc ref not_less)
qed

lemma decode_invocation_response_InrD:
  assumes "decode_invocation_response b = Inr p"
  shows "b = invocation_bytes kResponseMessage (invocation_response_body p) \<and>
    invocation_response_ok p \<and> (np_output_available p \<or> np_output p = default_ref)"
proof -
  from assms obtain sz r where hdr: "decode_invocation_header kResponseMessage b = Inr (sz, r)"
    and sz: "unat sz = length r"
    and rest: "r = invocation_response_body p \<and> invocation_response_ok p \<and>
      (np_output_available p \<or> np_output p = default_ref)"
    by (auto simp: decode_invocation_response_def Option.bind_eq_Some_conv
        invocation_response_body_def invocation_response_ok_def not_less
        split: if_splits sum.splits option.splits
        dest!: get_sound invocation_metrics_codec.dec_sound invocation_ref.dec_sound
          invocation_status_of_code_SomeD) (use flag_zero in blast)
  have "sz = word_of_nat (length r)" by (simp add: sz [symmetric])
  with decode_invocation_header_sound [OF hdr] rest show ?thesis
    by (simp add: invocation_bytes_def)
qed

text \<open>
  C9. Encoding and decoding of invocation responses are inverse to each other: the client decodes
  a packet to a response exactly when the service's encoder produces that packet for the response
  (a response without output has its output field at the default). No service can make the client
  see an output reference that leaves its region, or a reply for agent 0.
\<close>

theorem invocation_response_exact:
  "decode_invocation_response bytes = Inr p \<longleftrightarrow>
     encode_invocation_response p = Inr bytes \<and> (np_output_available p \<or> np_output p = default_ref)"
proof
  assume dec: "decode_invocation_response bytes = Inr p"
  then have "kHeaderSize + length (invocation_response_body p) \<le> kMaxInvocationMessageSize"
    using decode_invocation_response_InrD [OF dec]
    by (auto simp: decode_invocation_response_def invocation_bytes_def split: if_splits)
  with decode_invocation_response_InrD [OF dec] encode_invocation_response_ok [of p]
  show "encode_invocation_response p = Inr bytes \<and>
      (np_output_available p \<or> np_output p = default_ref)" by simp
next
  assume "encode_invocation_response p = Inr bytes \<and>
      (np_output_available p \<or> np_output p = default_ref)"
  with encode_invocation_response_InrD [of p bytes] decode_invocation_response_body [of p]
  show "decode_invocation_response bytes = Inr p" by (cases "np_output_available p") auto
qed

end
