(* ===== verification/Text_IO.thy ===== *)
theory Text_IO
  imports Prelude
begin

text \<open>
  What the sources use of the C++ library on text: \<open>std::getline\<close> over a file, formatted input of
  a token and of an unsigned integer, \<open>std::stoull\<close>, \<open>std::string::find\<close> and the joining of
  \<open>std::filesystem\<close> paths. A readable file is its contents, an unreadable one is \<open>None\<close>.
\<close>

text \<open>\<open>isspace\<close> in the C locale.\<close>

definition is_space :: "char \<Rightarrow> bool" where
  "is_space c \<longleftrightarrow> c = CHR '' '' \<or> (9 \<le> (of_char c :: nat) \<and> (of_char c :: nat) \<le> 13)"

definition is_digit :: "char \<Rightarrow> bool" where
  "is_digit c \<longleftrightarrow> 48 \<le> (of_char c :: nat) \<and> (of_char c :: nat) \<le> 57"

definition newline :: char where
  "newline = CHR 0x0A"

text \<open>The lines that repeated calls of \<open>std::getline\<close> return.\<close>

function lines_of :: "string \<Rightarrow> string list" where
  "lines_of s =
     (if s = [] then []
      else takeWhile (\<lambda>c. c \<noteq> newline) s # lines_of (tl (dropWhile (\<lambda>c. c \<noteq> newline) s)))"
  by pat_completeness auto

termination lines_of
proof (relation "measure length")
  fix s :: string assume "s \<noteq> []"
  then have "length (tl (dropWhile (\<lambda>c. c \<noteq> newline) s)) < length s"
    using length_dropWhile_le [of "\<lambda>c. c \<noteq> newline" s] by (cases s) (auto simp: less_Suc_eq_le)
  then show "(tl (dropWhile (\<lambda>c. c \<noteq> newline) s), s) \<in> measure length" by simp
qed simp

declare lines_of.simps [simp del]

lemma lines_of_Nil [simp]: "lines_of [] = []"
  by (simp add: lines_of.simps)

lemma lines_of_no_newline:
  assumes "l \<in> set (lines_of s)"
  shows "newline \<notin> set l"
  using assms
proof (induction s rule: lines_of.induct)
  case (1 s)
  then show ?case
    by (cases "s = []") (auto simp: lines_of.simps [of s] dest: set_takeWhileD)
qed

text \<open>\<open>stream >> text\<close>: the next token and what follows it; fails at the end of the input.\<close>

definition read_token :: "string \<Rightarrow> (string \<times> string) option" where
  "read_token s =
     (let s = dropWhile is_space s
      in if s = [] then None
         else Some (takeWhile (\<lambda>c. \<not> is_space c) s, dropWhile (\<lambda>c. \<not> is_space c) s))"

text \<open>
  \<open>std::stoull\<close> and the extraction of a \<open>uint64_t\<close>: leading space, a sign, and the longest run of
  digits. No digits, or a value above \<open>2 ^ 64 - 1\<close>, is an exception (or a failed stream); a minus
  sign negates modulo \<open>2 ^ 64\<close>.
\<close>

definition parse_u64 :: "string \<Rightarrow> u64 option" where
  "parse_u64 s =
     (let s = dropWhile is_space s;
          neg = (s \<noteq> [] \<and> hd s = CHR ''-'');
          s = (if s \<noteq> [] \<and> (hd s = CHR ''-'' \<or> hd s = CHR ''+'') then tl s else s);
          ds = takeWhile is_digit s;
          n = string_to_nat ds
      in if ds = [] \<or> n \<ge> 2 ^ 64 then None
         else Some (if neg then - word_of_nat n else word_of_nat n))"

lemma nat_to_string_digits: "nat_to_string n \<noteq> [] \<and> (\<forall>c \<in> set (nat_to_string n). is_digit c)"
proof (induction n rule: nat_to_string.induct)
  case (1 n)
  then show ?case
    by (auto simp: nat_to_string.simps [of n] is_digit_def)
qed

text \<open>Reading back what \<open>std::to_string\<close> printed.\<close>

lemma parse_u64_to_string: "parse_u64 (u64_to_string w) = Some w"
proof -
  let ?s = "nat_to_string (unat w)"
  obtain c cs where s: "?s = c # cs" using nat_to_string_digits [of "unat w"] by (cases ?s) auto
  then have c: "is_digit c" using nat_to_string_digits [of "unat w"] by auto
  then have "\<not> is_space c" "c \<noteq> CHR ''-''" "c \<noteq> CHR ''+''"
    by (auto simp: is_digit_def is_space_def)
  then have "dropWhile is_space ?s = ?s" by (simp add: s)
  moreover have "takeWhile is_digit ?s = ?s"
    using nat_to_string_digits [of "unat w"] by (auto simp: takeWhile_eq_all_conv)
  moreover have "unat w < 2 ^ 64"
    using unsigned_less [of w, where ?'a = nat] by simp
  ultimately show ?thesis
    using \<open>c \<noteq> CHR ''-''\<close> \<open>c \<noteq> CHR ''+''\<close> string_to_nat_to_string [of "unat w"]
    by (simp add: parse_u64_def u64_to_string_def Let_def s del: string_to_nat.simps)
qed

text \<open>\<open>text.find(pattern)\<close>, as the part of the text from the first occurrence on.\<close>

fun find_from :: "string \<Rightarrow> string \<Rightarrow> string option" where
  "find_from pat [] = (if pat = [] then Some [] else None)"
| "find_from pat (c # cs) =
     (if take (length pat) (c # cs) = pat then Some (c # cs) else find_from pat cs)"

text \<open>\<open>operator/\<close> of \<open>std::filesystem::path\<close> on POSIX.\<close>

definition path_join :: "string \<Rightarrow> string \<Rightarrow> string" where
  "path_join a b =
     (if b \<noteq> [] \<and> hd b = CHR ''/'' then b
      else if a = [] \<or> last a = CHR ''/'' then a @ b else a @ ''/'' @ b)"

lemma path_join_inject:
  assumes "b = [] \<or> hd b \<noteq> CHR ''/''" and "c = [] \<or> hd c \<noteq> CHR ''/''"
  shows "path_join a b = path_join a c \<longleftrightarrow> b = c"
  using assms by (auto simp: path_join_def)

type_synonym file_system = "string \<Rightarrow> string option"

end
