(* ===== verification/Resource_Monitor.thy ===== *)
theory Resource_Monitor
  imports Complex_Main Agent_Types Text_IO
begin

text \<open>
  Memory sampling and memory admission (\<^verbatim>\<open>agent-runtime/src/resource_monitor.cpp\<close>). The files
  under \<^verbatim>\<open>/proc\<close> and \<^verbatim>\<open>/sys\<close> are an argument of the model, and so is the parser of floating point
  numbers, whose result no other code reads. The controller's reservations are an association
  list; the sum over them is computed in 64-bit arithmetic as the code does, and the lemmas show
  that it never wraps.
\<close>

section \<open>Sampling\<close>

record memory_snapshot =
  ms_cpu_threads :: u32
  ms_total :: u64
  ms_available :: u64
  ms_cgroup_current :: u64
  ms_cgroup_limit :: u64
  ms_pressure :: rat

definition default_memory_snapshot :: memory_snapshot where
  "default_memory_snapshot =
     \<lparr>ms_cpu_threads = - 1, ms_total = 0, ms_available = 0, ms_cgroup_current = 0,
      ms_cgroup_limit = 0, ms_pressure = 0\<rparr>"

definition read_uint_file :: "file_system \<Rightarrow> string \<Rightarrow> u64 option" where
  "read_uint_file fs path =
     (case fs path of None \<Rightarrow> None
      | Some contents \<Rightarrow>
          (case read_token contents of None \<Rightarrow> None
           | Some (t, _) \<Rightarrow> if t = ''max'' then None else parse_u64 t))"

definition current_cgroup_v2_path :: "file_system \<Rightarrow> string" where
  "current_cgroup_v2_path fs =
     (case List.find (\<lambda>line. take 3 line = ''0::'')
             (case fs ''/proc/self/cgroup'' of None \<Rightarrow> [] | Some s \<Rightarrow> lines_of s)
      of None \<Rightarrow> ''/sys/fs/cgroup''
       | Some line \<Rightarrow>
           path_join ''/sys/fs/cgroup'' (dropWhile (\<lambda>c. c = CHR ''/'') (drop 3 line)))"

definition read_pressure_avg10 :: "(string \<Rightarrow> rat option) \<Rightarrow> file_system \<Rightarrow> string \<Rightarrow> rat" where
  "read_pressure_avg10 stod fs path =
     (case fs path of None \<Rightarrow> 0
      | Some s \<Rightarrow>
          (case lines_of s of [] \<Rightarrow> 0
           | line # _ \<Rightarrow>
               (case find_from ''avg10='' line of None \<Rightarrow> 0
                | Some rest \<Rightarrow>
                    (case stod (drop (length ''avg10='') rest) of None \<Rightarrow> 0 | Some d \<Rightarrow> d))))"

text \<open>One round of the loop over \<^verbatim>\<open>/proc/meminfo\<close>.\<close>

definition meminfo_line :: "memory_snapshot \<Rightarrow> string \<Rightarrow> memory_snapshot" where
  "meminfo_line m line =
     (case read_token line of None \<Rightarrow> m
      | Some (key, rest) \<Rightarrow>
          (case parse_u64 rest of None \<Rightarrow> m
           | Some kib \<Rightarrow>
               if key = ''MemTotal:'' then m\<lparr>ms_total := kib * 1024\<rparr>
               else if key = ''MemAvailable:'' then m\<lparr>ms_available := kib * 1024\<rparr>
               else m))"

definition sample_memory ::
  "int \<Rightarrow> (string \<Rightarrow> rat option) \<Rightarrow> file_system \<Rightarrow> string + memory_snapshot" where
  "sample_memory online_cpus stod fs =
     (let m = default_memory_snapshot
           \<lparr>ms_cpu_threads := (if online_cpus > 0 then word_of_int online_cpus else 1)\<rparr>
      in case fs ''/proc/meminfo'' of
        None \<Rightarrow> Inl ''cannot open /proc/meminfo''
      | Some s \<Rightarrow>
          (let m = foldl meminfo_line m (lines_of s)
           in if ms_total m = 0 \<or> ms_available m = 0
              then Inl ''MemTotal or MemAvailable is missing from /proc/meminfo''
              else
                (let cgroup = current_cgroup_v2_path fs;
                     current = read_uint_file fs (path_join cgroup ''memory.current'');
                     limit = read_uint_file fs (path_join cgroup ''memory.max'');
                     pressure = read_pressure_avg10 stod fs (path_join cgroup ''memory.pressure'');
                     m = m\<lparr>ms_cgroup_current := (case current of None \<Rightarrow> 0 | Some v \<Rightarrow> v),
                           ms_cgroup_limit := (case limit of None \<Rightarrow> 0 | Some v \<Rightarrow> v),
                           ms_pressure := (if pressure = 0
                             then read_pressure_avg10 stod fs ''/proc/pressure/memory''
                             else pressure)\<rparr>
                 in if ms_cgroup_limit m > 0
                    then Inr (m\<lparr>ms_available := min (ms_available m)
                           (if ms_cgroup_limit m > ms_cgroup_current m
                            then ms_cgroup_limit m - ms_cgroup_current m else 0)\<rparr>)
                    else Inr m)))"

text \<open>
  What a sample promises: the reported memory is within the group's limit, whatever the files
  contain.
\<close>

lemma sample_memory_within_limit:
  assumes "sample_memory cpus stod fs = Inr m" and "ms_cgroup_limit m > 0"
  shows "ms_available m \<le> ms_cgroup_limit m"
proof -
  have le: "min a (l - c) \<le> l" if "c < l" for a c l :: u64
  proof -
    from that have "l - c \<le> l" by (simp add: word_le_nat_alt unat_sub word_less_nat_alt)
    then show ?thesis by (rule min.coboundedI2)
  qed
  show ?thesis
    using assms
    by (auto simp: sample_memory_def Let_def split: option.splits if_splits intro: le)
qed

section \<open>Admission\<close>

record admission_controller =
  ac_reservations :: "(agent_id \<times> u64) list"
  ac_safety_margin :: u64

definition initial_controller :: "u64 \<Rightarrow> admission_controller" where
  "initial_controller margin = \<lparr>ac_reservations = [], ac_safety_margin = margin\<rparr>"

text \<open>The sum of the reservations of everyone but \<open>owner\<close>, in the order of iteration.\<close>

definition reserved_by_others :: "agent_id \<Rightarrow> (agent_id \<times> u64) list \<Rightarrow> u64" where
  "reserved_by_others owner rs =
     foldl (\<lambda>reserved (id, reservation). if id \<noteq> owner then reserved + reservation else reserved) 0 rs"

definition allocatable_bytes :: "u64 \<Rightarrow> u64 \<Rightarrow> u64 \<Rightarrow> u64" where
  "allocatable_bytes margin available reserved =
     (let protected_bytes =
        (if margin \<ge> available \<or> reserved \<ge> available - margin then available
         else margin + reserved)
      in available - protected_bytes)"

definition try_reserve ::
  "agent_id \<Rightarrow> u64 \<Rightarrow> memory_snapshot \<Rightarrow> admission_controller \<Rightarrow> (string + unit) \<times> admission_controller"
where
  "try_reserve owner bytes m ac =
     (let allocatable = allocatable_bytes (ac_safety_margin ac) (ms_available m)
            (reserved_by_others owner (ac_reservations ac))
      in if bytes > allocatable
         then (Inl (''memory admission rejected: requested='' @ u64_to_string bytes @
                    '' allocatable='' @ u64_to_string allocatable), ac)
         else (Inr (), ac\<lparr>ac_reservations := AList.update owner bytes (ac_reservations ac)\<rparr>))"

definition release_reservation :: "agent_id \<Rightarrow> admission_controller \<Rightarrow> admission_controller" where
  "release_reservation owner ac =
     ac\<lparr>ac_reservations := AList.delete owner (ac_reservations ac)\<rparr>"

definition reserved_bytes :: "admission_controller \<Rightarrow> u64" where
  "reserved_bytes ac = foldl (\<lambda>total (_, bytes). total + bytes) 0 (ac_reservations ac)"

text \<open>The exact total, and the invariant that it fits the 64-bit sums of the code.\<close>

definition exact_total :: "(agent_id \<times> u64) list \<Rightarrow> nat" where
  "exact_total rs = (\<Sum>(_, b) \<leftarrow> rs. unat b)"

definition controller_ok :: "admission_controller \<Rightarrow> bool" where
  "controller_ok ac \<longleftrightarrow>
     distinct (map fst (ac_reservations ac)) \<and> exact_total (ac_reservations ac) < 2 ^ 64"

lemma exact_total_simps [simp]:
  "exact_total [] = 0" "exact_total (x # rs) = unat (snd x) + exact_total rs"
  by (auto simp: exact_total_def split: prod.splits)

lemma foldl_sum:
  "unat acc + exact_total rs < 2 ^ 64 \<Longrightarrow>
   unat (foldl (\<lambda>total (_, bytes). total + bytes) acc rs) = unat acc + exact_total rs"
proof (induction rs arbitrary: acc)
  case (Cons x rs)
  then have "unat (acc + snd x) = unat acc + unat (snd x)"
    by (simp add: unat_word_ariths)
  with Cons.IH [of "acc + snd x"] Cons.prems show ?case by (cases x) simp
qed simp

lemma reserved_by_others_delete:
  "reserved_by_others owner rs = foldl (\<lambda>total (_, bytes). total + bytes) 0 (AList.delete owner rs)"
proof -
  have "foldl (\<lambda>reserved (id, reservation). if id \<noteq> owner then reserved + reservation else reserved) acc rs
      = foldl (\<lambda>total (_, bytes). total + bytes) acc (AList.delete owner rs)" for acc
    by (induction rs arbitrary: acc) (auto simp: AList.delete_eq)
  then show ?thesis by (simp add: reserved_by_others_def)
qed

lemma exact_total_delete_le: "exact_total (AList.delete owner rs) \<le> exact_total rs"
  by (induction rs) (auto simp: AList.delete_eq)

lemma exact_total_update:
  "distinct (map fst rs) \<Longrightarrow>
   exact_total (AList.update owner b rs) = unat b + exact_total (AList.delete owner rs)"
proof (induction rs)
  case (Cons x rs)
  obtain k v where x: "x = (k, v)" by (cases x)
  show ?case
  proof (cases "k = owner")
    case True
    with Cons.prems x have "owner \<notin> fst ` set rs" by force
    then have "AList.delete owner rs = rs" by simp
    with True x show ?thesis by simp
  next
    case False
    with Cons x show ?thesis by simp
  qed
qed (simp add: AList.delete_eq)

lemma unat_reserved_by_others:
  "controller_ok ac \<Longrightarrow>
   unat (reserved_by_others owner (ac_reservations ac)) =
     exact_total (AList.delete owner (ac_reservations ac))"
  using foldl_sum [of 0 "AList.delete owner (ac_reservations ac)"]
    exact_total_delete_le [of owner "ac_reservations ac"]
  by (simp add: reserved_by_others_delete controller_ok_def)

lemma allocatable_bytes_bound:
  "unat (allocatable_bytes margin available reserved) =
     unat available - (unat margin + unat reserved)"
proof (cases "margin \<ge> available \<or> reserved \<ge> available - margin")
  case True
  have "unat available \<le> unat margin + unat reserved"
  proof (cases "available \<le> margin")
    case False
    then have "unat (available - margin) = unat available - unat margin"
      by (simp add: unat_sub)
    with True False show ?thesis by (simp add: word_le_nat_alt)
  qed (simp add: word_le_nat_alt)
  with True show ?thesis by (simp add: allocatable_bytes_def)
next
  case False
  then have m: "unat margin < unat available" and "unat (available - margin) = unat available - unat margin"
    by (simp_all add: not_le word_less_nat_alt unat_sub word_le_nat_alt)
  with False have r: "unat margin + unat reserved < unat available"
    by (simp add: not_le word_less_nat_alt)
  moreover have "unat available < 2 ^ 64" using unsigned_less [of available, where ?'a = nat] by simp
  ultimately have "unat (margin + reserved) = unat margin + unat reserved"
    by (simp add: unat_word_ariths)
  with False r show ?thesis by (simp add: allocatable_bytes_def unat_sub word_le_nat_alt)
qed

text \<open>The operations of the controller, and the states that sequences of them reach.\<close>

datatype admission_op = Try_reserve agent_id u64 memory_snapshot | Release_reservation agent_id

fun admission_step :: "admission_controller \<Rightarrow> admission_op \<Rightarrow> admission_controller" where
  "admission_step ac (Try_reserve owner bytes m) = snd (try_reserve owner bytes m ac)"
| "admission_step ac (Release_reservation owner) = release_reservation owner ac"

lemma try_reserve_ok:
  assumes "controller_ok ac"
  shows "controller_ok (snd (try_reserve owner bytes m ac))"
proof (cases "bytes > allocatable_bytes (ac_safety_margin ac) (ms_available m)
            (reserved_by_others owner (ac_reservations ac))")
  case False
  let ?rest = "AList.delete owner (ac_reservations ac)"
  from False have "unat bytes \<le> unat (ms_available m) - (unat (ac_safety_margin ac) + exact_total ?rest)"
    by (simp add: not_less word_le_nat_alt allocatable_bytes_bound unat_reserved_by_others [OF assms])
  moreover have "unat (ms_available m) < 2 ^ 64"
    using unsigned_less [of "ms_available m", where ?'a = nat] by simp
  moreover have "exact_total ?rest < 2 ^ 64"
    using assms exact_total_delete_le [of owner "ac_reservations ac"] by (simp add: controller_ok_def)
  ultimately have "unat bytes + exact_total ?rest < 2 ^ 64" by linarith
  with False assms show ?thesis
    by (simp add: try_reserve_def controller_ok_def Let_def exact_total_update distinct_update)
qed (simp add: try_reserve_def Let_def assms)

lemma release_reservation_ok: "controller_ok ac \<Longrightarrow> controller_ok (release_reservation owner ac)"
  using exact_total_delete_le [of owner "ac_reservations ac"]
  by (simp add: controller_ok_def release_reservation_def distinct_delete)

lemma admission_reachable_ok:
  "controller_ok ac \<Longrightarrow> controller_ok (foldl admission_step ac ops)"
proof (induction ops arbitrary: ac)
  case (Cons op ops)
  then show ?case by (cases op) (simp_all add: try_reserve_ok release_reservation_ok)
qed simp

lemma initial_controller_ok: "controller_ok (initial_controller margin)"
  by (simp add: controller_ok_def initial_controller_def)

text \<open>
  C6. Memory admission never over-commits, although its sums are computed modulo \<open>2 ^ 64\<close>: after any
  sequence of reservations and releases the reported total is the exact sum of the reservations,
  and a request for a positive amount is admitted exactly when the safety margin, the other
  owners' reservations and the request together fit the available memory.
\<close>

theorem admission_exact:
  fixes ops :: "admission_op list" and margin :: u64
  shows "let ac = foldl admission_step (initial_controller margin) ops in
    unat (reserved_bytes ac) = exact_total (ac_reservations ac) \<and>
    (0 < bytes \<longrightarrow>
      (fst (try_reserve owner bytes m ac) = Inr () \<longleftrightarrow>
        unat (ac_safety_margin ac) + exact_total (AList.delete owner (ac_reservations ac)) +
          unat bytes \<le> unat (ms_available m)))"
proof -
  define ac where "ac = foldl admission_step (initial_controller margin) ops"
  have ok: "controller_ok ac"
    unfolding ac_def by (rule admission_reachable_ok [OF initial_controller_ok])
  then have "unat (reserved_bytes ac) = exact_total (ac_reservations ac)"
    using foldl_sum [of 0 "ac_reservations ac"] by (simp add: reserved_bytes_def controller_ok_def)
  moreover have "fst (try_reserve owner bytes m ac) = Inr () \<longleftrightarrow>
      unat bytes \<le> unat (ms_available m) -
        (unat (ac_safety_margin ac) + exact_total (AList.delete owner (ac_reservations ac)))"
    using allocatable_bytes_bound [of "ac_safety_margin ac" "ms_available m"
        "reserved_by_others owner (ac_reservations ac)"] unat_reserved_by_others [OF ok, of owner]
    by (auto simp: try_reserve_def Let_def not_less word_le_nat_alt word_less_nat_alt)
  moreover have "0 < bytes \<Longrightarrow> 0 < unat bytes" by (simp add: word_less_nat_alt)
  ultimately show ?thesis unfolding ac_def [symmetric] Let_def by auto
qed

definition sample_snapshot :: memory_snapshot where
  "sample_snapshot = default_memory_snapshot\<lparr>ms_available := 100\<rparr>"

theorem admission_exact_witness:
  "fst (try_reserve 2 30 sample_snapshot
     (foldl admission_step (initial_controller 10) [Try_reserve 1 60 sample_snapshot])) = Inr ()"
  using admission_exact [of 10 "[Try_reserve 1 60 sample_snapshot]" 30 2 sample_snapshot]
  by (simp add: initial_controller_def try_reserve_def Let_def allocatable_bytes_def
      reserved_by_others_def sample_snapshot_def default_memory_snapshot_def)

end
