(* ===== verification/Scheduler.thy ===== *)
theory Scheduler
  imports Resource_Monitor
begin

text \<open>
  The task scheduler (\<^verbatim>\<open>agent-runtime/src/scheduler.cpp\<close>, class \<open>AgentScheduler\<close>): its state and
  every operation. A public operation holds the mutex for its whole body, so it is one atomic
  step; it returns \<open>Inl\<close> with the error text (empty where the code returns false without setting
  one) and the state it leaves. The clock is an argument. \<open>nodes_\<close> and \<open>ready_\<close> are lists in the
  order of iteration. \<open>nodes_.at\<close> on an absent id, which would throw, leaves the state unchanged
  here; the invariant of \<^verbatim>\<open>Scheduler_Inv\<close> shows that it is never applied to one.
\<close>

section \<open>State\<close>

record sched_node =
  nd_snapshot :: agent_snapshot
  nd_successors :: "agent_id list"
  nd_reserved :: bool

record scheduler =
  sc_nodes :: "(agent_id \<times> sched_node) list"
  sc_ready :: "agent_id list"
  sc_reserved_cpu :: u64
  sc_reserved_memory :: u64

definition empty_scheduler :: scheduler where
  "empty_scheduler = \<lparr>sc_nodes = [], sc_ready = [], sc_reserved_cpu = 0, sc_reserved_memory = 0\<rparr>"

type_synonym 's op_result = "(string + unit) \<times> 's"

abbreviation node_of :: "scheduler \<Rightarrow> agent_id \<Rightarrow> sched_node option" where
  "node_of s x \<equiv> map_of (sc_nodes s) x"

abbreviation nd_state :: "sched_node \<Rightarrow> agent_state" where
  "nd_state n \<equiv> as_state (nd_snapshot n)"

abbreviation nd_spec :: "sched_node \<Rightarrow> agent_task_spec" where
  "nd_spec n \<equiv> as_spec (nd_snapshot n)"

definition update_node :: "agent_id \<Rightarrow> (sched_node \<Rightarrow> sched_node) \<Rightarrow> scheduler \<Rightarrow> scheduler" where
  "update_node x f s = s\<lparr>sc_nodes := AList.map_entry x f (sc_nodes s)\<rparr>"

definition update_snapshot ::
  "agent_id \<Rightarrow> (agent_snapshot \<Rightarrow> agent_snapshot) \<Rightarrow> scheduler \<Rightarrow> scheduler" where
  "update_snapshot x f = update_node x (\<lambda>n. n\<lparr>nd_snapshot := f (nd_snapshot n)\<rparr>)"

definition ready_insert :: "agent_id \<Rightarrow> scheduler \<Rightarrow> scheduler" where
  "ready_insert x s =
     s\<lparr>sc_ready := (if x \<in> set (sc_ready s) then sc_ready s else sc_ready s @ [x])\<rparr>"

definition ready_erase :: "agent_id \<Rightarrow> scheduler \<Rightarrow> scheduler" where
  "ready_erase x s = s\<lparr>sc_ready := removeAll x (sc_ready s)\<rparr>"

section \<open>Submission\<close>

text \<open>
  The first loop of \<open>submit_batch_locked\<close>. The range check of the invocation kind holds by the type.
\<close>

fun check_tasks :: "agent_id list \<Rightarrow> agent_id list \<Rightarrow> agent_task_spec list \<Rightarrow> string option" where
  "check_tasks present incoming [] = None"
| "check_tasks present incoming (t # ts) =
     (if ts_id t = kInvalidAgentId then Some ''agent id 0 is reserved''
      else if ts_command t \<noteq> [] \<and> ts_invocation t \<noteq> None
      then Some ''agent cannot contain both a command and an invocation''
      else if (case ts_invocation t of None \<Rightarrow> False
               | Some i \<Rightarrow> iv_target i = [] \<or> iv_operation i = [])
      then Some ''invocation kind, target, and operation are invalid''
      else if ts_id t \<in> set present \<or> ts_id t \<in> set incoming
      then Some (''duplicate agent id: '' @ u64_to_string (ts_id t))
      else check_tasks present (ts_id t # incoming) ts)"

text \<open>The second loop: \<open>known\<close> are the ids of the existing and of the incoming agents.\<close>

fun check_dependencies :: "agent_id list \<Rightarrow> agent_task_spec list \<Rightarrow> string option" where
  "check_dependencies known [] = None"
| "check_dependencies known (t # ts) =
     (case List.find (\<lambda>d. d = ts_id t \<or> d \<notin> set known) (ts_dependencies t) of
        Some d \<Rightarrow> Some (''invalid dependency '' @ u64_to_string d @ '' for agent '' @
                        u64_to_string (ts_id t))
      | None \<Rightarrow> check_dependencies known ts)"

definition new_node :: "nat \<Rightarrow> agent_task_spec \<Rightarrow> sched_node" where
  "new_node now t =
     \<lparr>nd_snapshot = default_snapshot\<lparr>as_spec := t, as_state := Created, as_created_at := now\<rparr>,
      nd_successors = [], nd_reserved = False\<rparr>"

definition insert_nodes :: "nat \<Rightarrow> agent_task_spec list \<Rightarrow> scheduler \<Rightarrow> scheduler" where
  "insert_nodes now ts s = s\<lparr>sc_nodes := sc_nodes s @ map (\<lambda>t. (ts_id t, new_node now t)) ts\<rparr>"

text \<open>
  The loop over the dependencies of one task: the task becomes a successor of each of them, and
  those that are not completed are counted.
\<close>

fun link_dependencies :: "agent_id \<Rightarrow> agent_id list \<Rightarrow> u32 \<Rightarrow> scheduler \<Rightarrow> u32 \<times> scheduler" where
  "link_dependencies x [] unresolved s = (unresolved, s)"
| "link_dependencies x (d # ds) unresolved s =
     (case node_of s d of
        None \<Rightarrow> link_dependencies x ds unresolved s
      | Some p \<Rightarrow>
          link_dependencies x ds
            (if \<not> is_terminal (nd_state p) \<or> nd_state p \<noteq> Completed
             then unresolved + 1 else unresolved)
            (update_node d (\<lambda>n. n\<lparr>nd_successors := nd_successors n @ [x]\<rparr>) s))"

definition link_task :: "agent_task_spec \<Rightarrow> scheduler \<Rightarrow> scheduler" where
  "link_task t s =
     (let (unresolved, s) = link_dependencies (ts_id t) (ts_dependencies t) 0 s
      in update_snapshot (ts_id t) (\<lambda>sn. sn\<lparr>as_unresolved := unresolved\<rparr>) s)"

subsection \<open>Depth-first search for a cycle\<close>

datatype visit = Visit_none | Visit_active | Visit_done

text \<open>
  The recursive lambda \<open>visit\<close>, applied to each id of a list until one finds a cycle: the loop over
  the successors of a node, and the loop over all nodes.
\<close>

function (sequential) visit_all ::
  "(agent_id \<Rightarrow> agent_id list) \<Rightarrow> agent_id list \<Rightarrow> (agent_id \<Rightarrow> visit) \<Rightarrow> bool \<times> (agent_id \<Rightarrow> visit)"
where
  "visit_all succs [] v = (False, v)"
| "visit_all succs (x # xs) v =
     (case v x of
        Visit_active \<Rightarrow> (True, v)
      | Visit_done \<Rightarrow> visit_all succs xs v
      | Visit_none \<Rightarrow>
          (case visit_all succs (succs x) (v(x := Visit_active)) of
             (found, v') \<Rightarrow>
               if found then (True, v') else visit_all succs xs (v'(x := Visit_done))))"
  by pat_completeness auto

definition unvisited :: "(agent_id \<Rightarrow> visit) \<Rightarrow> agent_id set" where
  "unvisited v = {y. v y = Visit_none}"

lemma unvisited_update:
  "w \<noteq> Visit_none \<Longrightarrow> unvisited (v(x := w)) = unvisited v - {x}"
  by (auto simp: unvisited_def)

lemma visit_all_unvisited:
  "visit_all_dom (succs, xs, v) \<Longrightarrow> unvisited (snd (visit_all succs xs v)) \<subseteq> unvisited v"
proof (induction succs xs v rule: visit_all.pinduct)
  case (1 succs v)
  then show ?case by (simp add: visit_all.psimps)
next
  case (2 succs x xs v)
  show ?case
  proof (cases "v x")
    case Visit_none
    obtain found v' where r: "visit_all succs (succs x) (v(x := Visit_active)) = (found, v')"
      by fastforce
    have sub: "unvisited v' \<subseteq> unvisited v"
    proof -
      have "unvisited v' \<subseteq> unvisited (v(x := Visit_active))"
        using 2(2) [OF Visit_none] unfolding r snd_conv .
      moreover have "unvisited (v(x := Visit_active)) = unvisited v - {x}"
        by (rule unvisited_update) simp
      ultimately show ?thesis by blast
    qed
    show ?thesis
    proof (cases found)
      case True
      with 2(1) Visit_none sub show ?thesis by (simp add: visit_all.psimps r)
    next
      case False
      have "unvisited (snd (visit_all succs xs (v'(x := Visit_done)))) \<subseteq> unvisited v"
      proof -
        have "unvisited (v'(x := Visit_done)) = unvisited v' - {x}"
          by (rule unvisited_update) simp
        with 2(3) [OF Visit_none r [symmetric] False] sub show ?thesis by blast
      qed
      with 2(1) Visit_none False show ?thesis by (simp add: visit_all.psimps r)
    qed
  qed (use 2 in \<open>simp_all add: visit_all.psimps\<close>)
qed

termination visit_all
proof (relation "measures [\<lambda>(_, _, v). card (unvisited v), \<lambda>(_, xs, _). length xs]")
  fix succs :: "agent_id \<Rightarrow> agent_id list" and x :: agent_id and xs v
  assume "v x = Visit_none"
  then have "x \<in> unvisited v" by (simp add: unvisited_def)
  then have less: "card (unvisited v - {x}) < card (unvisited v)"
    by (intro psubset_card_mono) auto
  then show "((succs, succs x, v(x := Visit_active)), succs, x # xs, v)
      \<in> measures [\<lambda>(_, _, v). card (unvisited v), \<lambda>(_, xs, _). length xs]"
    by (simp add: unvisited_update)
  fix found v'
  assume r: "(found, v') = visit_all succs (succs x) (v(x := Visit_active))" and "\<not> found"
    and dom: "visit_all_dom (succs, succs x, v(x := Visit_active))"
  have "unvisited (v(x := Visit_active)) = unvisited v - {x}"
    by (rule unvisited_update) simp
  then have "unvisited v' \<subseteq> unvisited v - {x}"
    using visit_all_unvisited [OF dom] by (simp only: r [symmetric] snd_conv)
  then have "card (unvisited v' - {x}) \<le> card (unvisited v - {x})"
    by (intro card_mono) auto
  with less show "((succs, xs, v'(x := Visit_done)), succs, x # xs, v)
      \<in> measures [\<lambda>(_, _, v). card (unvisited v), \<lambda>(_, xs, _). length xs]"
    by (simp add: unvisited_update)
qed auto

definition successors_of :: "scheduler \<Rightarrow> agent_id \<Rightarrow> agent_id list" where
  "successors_of s x = (case node_of s x of None \<Rightarrow> [] | Some n \<Rightarrow> nd_successors n)"

definition graph_has_cycle :: "scheduler \<Rightarrow> bool" where
  "graph_has_cycle s =
     fst (visit_all (successors_of s) (map fst (sc_nodes s)) (\<lambda>_. Visit_none))"

subsection \<open>The whole submission\<close>

definition enqueue_ready :: "agent_id \<Rightarrow> scheduler \<Rightarrow> scheduler" where
  "enqueue_ready x s = ready_insert x (update_snapshot x (\<lambda>sn. sn\<lparr>as_state := Ready\<rparr>) s)"

definition settle_task :: "agent_task_spec \<Rightarrow> scheduler \<Rightarrow> scheduler" where
  "settle_task t s =
     (case node_of s (ts_id t) of None \<Rightarrow> s
      | Some n \<Rightarrow>
          if as_unresolved (nd_snapshot n) = 0 then enqueue_ready (ts_id t) s
          else update_snapshot (ts_id t) (\<lambda>sn. sn\<lparr>as_state := Waiting_dependency\<rparr>) s)"

definition submit_batch :: "nat \<Rightarrow> agent_task_spec list \<Rightarrow> scheduler \<Rightarrow> scheduler op_result" where
  "submit_batch now ts s =
     (if ts = [] then (Inl ''task batch is empty'', s)
      else case check_tasks (map fst (sc_nodes s)) [] ts of
        Some e \<Rightarrow> (Inl e, s)
      | None \<Rightarrow>
          (case check_dependencies (map fst (sc_nodes s) @ map ts_id ts) ts of
             Some e \<Rightarrow> (Inl e, s)
           | None \<Rightarrow>
               (let linked = fold link_task ts (insert_nodes now ts s)
                in if graph_has_cycle linked
                   then (Inl ''task dependencies contain a cycle'',
                         linked\<lparr>sc_nodes := sc_nodes s, sc_ready := sc_ready s\<rparr>)
                   else (Inr (), fold settle_task ts linked))))"

definition submit :: "nat \<Rightarrow> agent_task_spec \<Rightarrow> scheduler \<Rightarrow> scheduler op_result" where
  "submit now t = submit_batch now [t]"

definition spawn :: "nat \<Rightarrow> agent_id \<Rightarrow> agent_task_spec \<Rightarrow> scheduler \<Rightarrow> scheduler op_result" where
  "spawn now parent t s =
     (if parent \<notin> fst ` set (sc_nodes s) then (Inl ''parent agent does not exist'', s)
      else submit_batch now [t\<lparr>ts_parent_id := parent\<rparr>] s)"

section \<open>Dispatch\<close>

text \<open>The guarded subtraction of \<open>dispatch_locked\<close>.\<close>

definition allocatable :: "u64 \<Rightarrow> u64 \<Rightarrow> u64" where
  "allocatable available reserved = (if available > reserved then available - reserved else 0)"

definition fits_resources :: "memory_snapshot \<Rightarrow> u64 \<Rightarrow> u64 \<Rightarrow> sched_node \<Rightarrow> bool" where
  "fits_resources m cpu memory n \<longleftrightarrow>
     \<not> (ucast (rr_cpu_threads (ts_resources (nd_spec n))) > allocatable (ucast (ms_cpu_threads m)) cpu \<or>
        rr_memory_bytes (ts_resources (nd_spec n)) > allocatable (ms_available m) memory)"

text \<open>The clock counts nanoseconds, \<open>waited\<close> milliseconds.\<close>

definition dispatch_score :: "nat \<Rightarrow> sched_node \<Rightarrow> int" where
  "dispatch_score now n =
     sint (ts_priority (nd_spec n)) * 1000000 +
     (int now - int (as_created_at (nd_snapshot n))) div 1000000"

text \<open>The loop over \<open>ready_\<close>, with the selected agent and the best score so far.\<close>

fun dispatch_scan ::
  "memory_snapshot \<Rightarrow> nat \<Rightarrow> agent_id list \<Rightarrow> agent_id \<Rightarrow> int \<Rightarrow> scheduler \<Rightarrow> agent_id \<times> scheduler"
where
  "dispatch_scan m now [] selected best s = (selected, s)"
| "dispatch_scan m now (x # xs) selected best s =
     (case node_of s x of
        None \<Rightarrow> dispatch_scan m now xs selected best s
      | Some n \<Rightarrow>
          if \<not> fits_resources m (sc_reserved_cpu s) (sc_reserved_memory s) n
          then dispatch_scan m now xs selected best
                 (update_snapshot x (\<lambda>sn. sn\<lparr>as_state := Waiting_resource\<rparr>) s)
          else
            (let s = (if nd_state n = Waiting_resource
                      then update_snapshot x (\<lambda>sn. sn\<lparr>as_state := Ready\<rparr>) s else s);
                 score = dispatch_score now n
             in if selected = kInvalidAgentId \<or> score > best
                then dispatch_scan m now xs x score s
                else dispatch_scan m now xs selected best s))"

definition reserve_node :: "agent_id \<Rightarrow> sched_node \<Rightarrow> scheduler \<Rightarrow> scheduler" where
  "reserve_node x n s =
     ready_erase x
       ((update_node x (\<lambda>n. n\<lparr>nd_snapshot := (nd_snapshot n)\<lparr>as_state := Dispatched\<rparr>,
                              nd_reserved := True\<rparr>) s)
        \<lparr>sc_reserved_cpu := sc_reserved_cpu s + ucast (rr_cpu_threads (ts_resources (nd_spec n))),
         sc_reserved_memory := sc_reserved_memory s + rr_memory_bytes (ts_resources (nd_spec n))\<rparr>)"

definition dispatch_locked :: "memory_snapshot \<Rightarrow> nat \<Rightarrow> scheduler \<Rightarrow> agent_id option \<times> scheduler" where
  "dispatch_locked m now s =
     (let (selected, s) = dispatch_scan m now (sc_ready s) kInvalidAgentId (- (2 ^ 63)) s
      in if selected = kInvalidAgentId then (None, s)
         else (case node_of s selected of None \<Rightarrow> (None, s)
               | Some n \<Rightarrow> (Some selected, reserve_node selected n s)))"

definition try_dispatch :: "memory_snapshot \<Rightarrow> nat \<Rightarrow> scheduler \<Rightarrow> agent_id option \<times> scheduler" where
  "try_dispatch m now s = dispatch_locked m now s"

text \<open>
  \<open>wait_dispatch\<close> gives up the mutex for at most 100 ms when nothing is ready; \<open>others\<close> is what the
  other threads do to the state meanwhile.
\<close>

definition wait_dispatch ::
  "memory_snapshot \<Rightarrow> nat \<Rightarrow> (scheduler \<Rightarrow> scheduler) \<Rightarrow> scheduler \<Rightarrow> agent_id option \<times> scheduler" where
  "wait_dispatch m now others s =
     dispatch_locked m now (if sc_ready s = [] then others s else s)"

section \<open>Transitions\<close>

definition allowed_transition :: "agent_state \<Rightarrow> agent_state \<Rightarrow> bool" where
  "allowed_transition current next =
     (case next of
        Running \<Rightarrow> current = Dispatched
      | Blocked \<Rightarrow> current = Running
      | Ready \<Rightarrow> current = Blocked \<or> current = Suspended \<or> current = Waiting_resource
      | Completed \<Rightarrow> current = Running \<or> current = Blocked \<or> current = Dispatched
      | Failed \<Rightarrow> current = Running \<or> current = Blocked \<or> current = Dispatched
      | Cancelled \<Rightarrow> \<not> is_terminal current
      | _ \<Rightarrow> False)"

definition transition_locked ::
  "agent_id \<Rightarrow> sched_node \<Rightarrow> agent_state \<Rightarrow> scheduler \<Rightarrow> scheduler op_result" where
  "transition_locked x n next s =
     (if \<not> allowed_transition (nd_state n) next
      then (Inl (''invalid transition '' @ state_to_string (nd_state n) @ '' -> '' @
                 state_to_string next), s)
      else (Inr (), update_snapshot x (\<lambda>sn. sn\<lparr>as_state := next\<rparr>) s))"

text \<open>\<open>transition_locked\<close> followed by \<open>rest\<close>, or the early return.\<close>

definition transition_then ::
  "agent_id \<Rightarrow> sched_node \<Rightarrow> agent_state \<Rightarrow> (scheduler \<Rightarrow> scheduler) \<Rightarrow> scheduler \<Rightarrow> scheduler op_result"
where
  "transition_then x n next rest s =
     (case transition_locked x n next s of
        (Inl e, s) \<Rightarrow> (Inl e, s) | (Inr _, s) \<Rightarrow> (Inr (), rest s))"

definition mark_running :: "nat \<Rightarrow> agent_id \<Rightarrow> i64 \<Rightarrow> scheduler \<Rightarrow> scheduler op_result" where
  "mark_running now x pid s =
     (case node_of s x of None \<Rightarrow> (Inl ''agent does not exist'', s)
      | Some n \<Rightarrow> transition_then x n Running
          (update_snapshot x (\<lambda>sn. sn\<lparr>as_process_id := pid, as_started_at := now\<rparr>)) s)"

definition mark_blocked :: "agent_id \<Rightarrow> scheduler \<Rightarrow> scheduler op_result" where
  "mark_blocked x s =
     (case node_of s x of None \<Rightarrow> (Inl [], s)
      | Some n \<Rightarrow> transition_then x n Blocked (\<lambda>s. s) s)"

definition wake :: "agent_id \<Rightarrow> scheduler \<Rightarrow> scheduler op_result" where
  "wake x s =
     (case node_of s x of None \<Rightarrow> (Inl [], s)
      | Some n \<Rightarrow> transition_then x n Ready (ready_insert x) s)"

definition release_resources :: "agent_id \<Rightarrow> scheduler \<Rightarrow> scheduler" where
  "release_resources x s =
     (case node_of s x of None \<Rightarrow> s
      | Some n \<Rightarrow>
          if \<not> nd_reserved n then s
          else (let memory = rr_memory_bytes (ts_resources (nd_spec n));
                    cpu = ucast (rr_cpu_threads (ts_resources (nd_spec n)))
                in (update_node x (\<lambda>n. n\<lparr>nd_reserved := False\<rparr>) s)
                   \<lparr>sc_reserved_cpu :=
                      (if cpu > sc_reserved_cpu s then 0 else sc_reserved_cpu s - cpu),
                    sc_reserved_memory :=
                      (if memory > sc_reserved_memory s then 0
                       else sc_reserved_memory s - memory)\<rparr>))"

text \<open>The body of the loop over the successors in \<open>complete\<close>.\<close>

definition notify_successor :: "agent_id \<Rightarrow> scheduler \<Rightarrow> scheduler" where
  "notify_successor y s =
     (case node_of s y of None \<Rightarrow> s
      | Some n \<Rightarrow>
          (let u = as_unresolved (nd_snapshot n);
               u = (if u > 0 then u - 1 else u);
               s = update_snapshot y (\<lambda>sn. sn\<lparr>as_unresolved := u\<rparr>) s
           in if u = 0 \<and> nd_state n = Waiting_dependency then enqueue_ready y s else s))"

definition complete :: "nat \<Rightarrow> agent_id \<Rightarrow> scheduler \<Rightarrow> scheduler op_result" where
  "complete now x s =
     (case node_of s x of None \<Rightarrow> (Inl [], s)
      | Some n \<Rightarrow> transition_then x n Completed
          (\<lambda>s. fold notify_successor (nd_successors n)
             (release_resources x (update_snapshot x (\<lambda>sn. sn\<lparr>as_finished_at := now\<rparr>) s))) s)"

subsection \<open>Cancellation of descendants\<close>

definition cancel_node :: "nat \<Rightarrow> string \<Rightarrow> agent_id \<Rightarrow> agent_id \<Rightarrow> scheduler \<Rightarrow> scheduler" where
  "cancel_node now reason parent x s =
     update_snapshot x (\<lambda>sn. sn\<lparr>as_state := Cancelled,
         as_error := reason @ '': '' @ u64_to_string parent, as_finished_at := now\<rparr>)
       (release_resources x (ready_erase x s))"

definition live_nodes :: "scheduler \<Rightarrow> nat" where
  "live_nodes s = length (filter (\<lambda>(_, n). \<not> is_terminal (nd_state n)) (sc_nodes s))"

text \<open>
  \<open>cancel_descendants_locked\<close>: \<open>xs\<close> are the successors of \<open>parent\<close> still to be visited.
\<close>

function (sequential) cancel_descendants ::
  "nat \<Rightarrow> string \<Rightarrow> agent_id \<Rightarrow> agent_id list \<Rightarrow> scheduler \<Rightarrow> scheduler"
where
  "cancel_descendants now reason parent [] s = s"
| "cancel_descendants now reason parent (x # xs) s =
     (case node_of s x of
        None \<Rightarrow> cancel_descendants now reason parent xs s
      | Some n \<Rightarrow>
          if is_terminal (nd_state n) then cancel_descendants now reason parent xs s
          else cancel_descendants now reason parent xs
                 (cancel_descendants now reason x (nd_successors n)
                    (cancel_node now reason parent x s)))"
  by pat_completeness auto

lemma map_entry_filter_length:
  assumes "\<And>n. P (x, f n) \<Longrightarrow> P (x, n)"
  shows "length (filter P (AList.map_entry x f al)) \<le> length (filter P al)"
  using assms by (induction al) (auto split: if_splits)

lemma live_nodes_update_le:
  assumes "\<And>n. \<not> is_terminal (nd_state (f n)) \<Longrightarrow> \<not> is_terminal (nd_state n)"
  shows "live_nodes (update_node x f s) \<le> live_nodes s"
  unfolding live_nodes_def update_node_def
  using map_entry_filter_length [of "\<lambda>(_, n). \<not> is_terminal (nd_state n)" x f "sc_nodes s"] assms
  by auto

lemma live_nodes_release [simp]: "live_nodes (release_resources x s) \<le> live_nodes s"
  using live_nodes_update_le [of "\<lambda>n. n\<lparr>nd_reserved := False\<rparr>" x s]
  by (auto simp: release_resources_def Let_def live_nodes_def split: option.splits)

lemma map_entry_filter_less:
  assumes "map_of al x = Some n" and "P (x, n)" and "\<And>n. \<not> P (x, f n)"
  shows "length (filter P (AList.map_entry x f al)) < length (filter P al)"
  using assms by (induction al) (auto split: if_splits)

lemma live_nodes_cancel_node:
  assumes "node_of s x = Some n" and "\<not> is_terminal (nd_state n)"
  shows "live_nodes (cancel_node now reason parent x s) < live_nodes s"
proof -
  let ?f = "\<lambda>n. n\<lparr>nd_snapshot := (nd_snapshot n)\<lparr>as_state := Cancelled,
         as_error := reason @ '': '' @ u64_to_string parent, as_finished_at := now\<rparr>\<rparr>"
  let ?s = "release_resources x (ready_erase x s)"
  have "\<exists>m. node_of ?s x = Some m \<and> nd_state m = nd_state n"
    using assms(1)
    by (auto simp: release_resources_def ready_erase_def update_node_def map_entry_map_of Let_def)
  then obtain m where "node_of ?s x = Some m" "\<not> is_terminal (nd_state m)" using assms(2) by auto
  then have "live_nodes (cancel_node now reason parent x s) < live_nodes ?s"
    unfolding live_nodes_def cancel_node_def update_snapshot_def update_node_def
    using map_entry_filter_less [of "sc_nodes ?s" x m "\<lambda>(_, n). \<not> is_terminal (nd_state n)" ?f]
    by simp
  also have "live_nodes ?s \<le> live_nodes (ready_erase x s)" by simp
  also have "live_nodes (ready_erase x s) = live_nodes s"
    by (simp add: live_nodes_def ready_erase_def)
  finally show ?thesis .
qed

lemma cancel_descendants_live:
  "cancel_descendants_dom (now, reason, parent, xs, s) \<Longrightarrow>
   live_nodes (cancel_descendants now reason parent xs s) \<le> live_nodes s"
proof (induction now reason parent xs s rule: cancel_descendants.pinduct)
  case (1 now reason parent s)
  then show ?case by (simp add: cancel_descendants.psimps)
next
  case (2 now reason parent x xs s)
  show ?case
  proof (cases "node_of s x")
    case (Some n)
    with 2 show ?thesis
      using live_nodes_cancel_node [OF Some, of now reason parent]
      by (auto simp: cancel_descendants.psimps)
  qed (use 2 in \<open>simp add: cancel_descendants.psimps\<close>)
qed

termination cancel_descendants
proof (relation "measures [\<lambda>(_, _, _, _, s). live_nodes s, \<lambda>(_, _, _, xs, _). length xs]")
  fix now :: nat and reason :: string and parent x xs s n
  assume n: "node_of s x = Some n" "\<not> is_terminal (nd_state n)"
  then have less: "live_nodes (cancel_node now reason parent x s) < live_nodes s"
    by (rule live_nodes_cancel_node)
  then show "((now, reason, x, nd_successors n, cancel_node now reason parent x s),
      now, reason, parent, x # xs, s)
    \<in> measures [\<lambda>(_, _, _, _, s). live_nodes s, \<lambda>(_, _, _, xs, _). length xs]"
    by simp
  assume dom: "cancel_descendants_dom
    (now, reason, x, nd_successors n, cancel_node now reason parent x s)"
  from cancel_descendants_live [OF dom] less
  show "((now, reason, parent, xs,
        cancel_descendants now reason x (nd_successors n) (cancel_node now reason parent x s)),
      now, reason, parent, x # xs, s)
    \<in> measures [\<lambda>(_, _, _, _, s). live_nodes s, \<lambda>(_, _, _, xs, _). length xs]"
    by simp
qed auto

definition fail :: "nat \<Rightarrow> agent_id \<Rightarrow> string \<Rightarrow> scheduler \<Rightarrow> scheduler op_result" where
  "fail now x message s =
     (case node_of s x of None \<Rightarrow> (Inl ''agent does not exist'', s)
      | Some n \<Rightarrow>
          (let s = release_resources x s;
               sn = nd_snapshot n
           in if as_retry_count sn < ts_retry_limit (as_spec sn)
              then (Inr (), ready_insert x (update_snapshot x (\<lambda>sn. sn
                     \<lparr>as_retry_count := as_retry_count sn + 1, as_error := message,
                      as_process_id := - 1, as_state := Ready\<rparr>) s))
              else transition_then x n Failed
                (\<lambda>s. cancel_descendants now ''dependency agent failed'' x (nd_successors n)
                   (update_snapshot x (\<lambda>sn. sn\<lparr>as_error := message, as_finished_at := now\<rparr>) s)) s))"

definition cancel :: "nat \<Rightarrow> agent_id \<Rightarrow> scheduler \<Rightarrow> scheduler op_result" where
  "cancel now x s =
     (case node_of s x of None \<Rightarrow> (Inl [], s)
      | Some n \<Rightarrow> transition_then x n Cancelled
          (\<lambda>s. cancel_descendants now ''dependency agent was cancelled'' x (nd_successors n)
             (update_snapshot x (\<lambda>sn. sn\<lparr>as_finished_at := now\<rparr>)
                (release_resources x (ready_erase x s)))) s)"

section \<open>Bindings and queries\<close>

definition update_live ::
  "string \<Rightarrow> (agent_snapshot \<Rightarrow> agent_snapshot) \<Rightarrow> agent_id \<Rightarrow> scheduler \<Rightarrow> scheduler op_result" where
  "update_live e f x s =
     (case node_of s x of None \<Rightarrow> (Inl e, s)
      | Some n \<Rightarrow> if is_terminal (nd_state n) then (Inl e, s) else (Inr (), update_snapshot x f s))"

definition bind_context :: "agent_id \<Rightarrow> context_id \<Rightarrow> scheduler \<Rightarrow> scheduler op_result" where
  "bind_context x c =
     update_live ''cannot bind context to agent'' (\<lambda>sn. sn\<lparr>as_context_id := c\<rparr>) x"

definition bind_process :: "agent_id \<Rightarrow> i64 \<Rightarrow> scheduler \<Rightarrow> scheduler op_result" where
  "bind_process x pid s =
     (if sint pid < 0 then (Inl ''cannot bind process to agent'', s)
      else update_live ''cannot bind process to agent'' (\<lambda>sn. sn\<lparr>as_process_id := pid\<rparr>) x s)"

definition record_metrics :: "agent_id \<Rightarrow> performance_metrics \<Rightarrow> scheduler \<Rightarrow> scheduler op_result" where
  "record_metrics x m =
     update_live ''cannot record metrics for agent'' (\<lambda>sn. sn\<lparr>as_metrics := m\<rparr>) x"

definition snapshot :: "agent_id \<Rightarrow> scheduler \<Rightarrow> agent_snapshot option" where
  "snapshot x s = map_option nd_snapshot (node_of s x)"

definition snapshots :: "scheduler \<Rightarrow> agent_snapshot list" where
  "snapshots s = sort_key (\<lambda>sn. ts_id (as_spec sn)) (map (nd_snapshot \<circ> snd) (sc_nodes s))"

definition scheduler_size :: "scheduler \<Rightarrow> nat" where
  "scheduler_size s = length (sc_nodes s)"

definition all_terminal :: "scheduler \<Rightarrow> bool" where
  "all_terminal s \<longleftrightarrow> list_all (\<lambda>(_, n). is_terminal (nd_state n)) (sc_nodes s)"

end
