(* ===== verification/Scheduler_Graph.thy ===== *)
theory Scheduler_Graph
  imports Scheduler
begin

text \<open>
  Correctness of the two graph traversals of the scheduler. \<open>graph_has_cycle\<close> answers true exactly
  when the successor lists have a cycle, and \<open>cancel_descendants\<close> cancels exactly the agents that
  a path of unfinished agents reaches.
\<close>

section \<open>The search for a cycle\<close>

definition edges :: "(agent_id \<Rightarrow> agent_id list) \<Rightarrow> (agent_id \<times> agent_id) set" where
  "edges succs = {(a, b). b \<in> set (succs a)}"

lemma edges_iff [simp]: "(a, b) \<in> edges succs \<longleftrightarrow> b \<in> set (succs a)"
  by (simp add: edges_def)

definition active :: "(agent_id \<Rightarrow> visit) \<Rightarrow> agent_id set" where
  "active v = {x. v x = Visit_active}"

definition finished :: "(agent_id \<Rightarrow> visit) \<Rightarrow> agent_id set" where
  "finished v = {x. v x = Visit_done}"

lemma visit_updates [simp]:
  "active (v(x := Visit_active)) = insert x (active v)"
  "active (v(x := Visit_done)) = active v - {x}"
  "finished (v(x := Visit_done)) = insert x (finished v)"
  "finished (v(x := Visit_active)) = finished v - {x}"
  by (auto simp: active_def finished_def)

lemma visit_updates_fun [simp]:
  "active (\<lambda>a. if a = x then Visit_active else v a) = insert x (active v)"
  "active (\<lambda>a. if a = x then Visit_done else v a) = active v - {x}"
  "finished (\<lambda>a. if a = x then Visit_done else v a) = insert x (finished v)"
  "finished (\<lambda>a. if a = x then Visit_active else v a) = finished v - {x}"
  by (auto simp: active_def finished_def)

text \<open>A finished node has only finished successors and lies on no cycle.\<close>

definition finished_ok :: "(agent_id \<Rightarrow> agent_id list) \<Rightarrow> (agent_id \<Rightarrow> visit) \<Rightarrow> bool" where
  "finished_ok succs v \<longleftrightarrow>
     (\<forall>x \<in> finished v. set (succs x) \<subseteq> finished v \<and> (x, x) \<notin> (edges succs)\<^sup>+)"

lemma finished_closed:
  assumes "finished_ok succs v" and "x \<in> finished v" and "(x, y) \<in> (edges succs)\<^sup>*"
  shows "y \<in> finished v"
  using assms(3,2)
proof (induction rule: rtrancl_induct)
  case (step y z)
  with assms(1) show ?case by (auto simp: finished_ok_def)
qed

lemma finish_node:
  assumes ok: "finished_ok succs v" and x: "x \<notin> finished v" and succs: "set (succs x) \<subseteq> finished v"
  shows "finished_ok succs (v(x := Visit_done))"
proof -
  have "(x, x) \<notin> (edges succs)\<^sup>+"
  proof
    assume "(x, x) \<in> (edges succs)\<^sup>+"
    then obtain y where "y \<in> set (succs x)" and "(y, x) \<in> (edges succs)\<^sup>*"
      by (auto dest: tranclD)
    with succs finished_closed [OF ok] x show False by blast
  qed
  with ok succs show ?thesis by (auto simp: finished_ok_def)
qed

lemma start_node:
  assumes "finished_ok succs v" and "v x = Visit_none"
  shows "finished_ok succs (v(x := Visit_active))"
proof -
  have "finished (v(x := Visit_active)) = finished v"
    using assms(2) by (auto simp: finished_def)
  with assms(1) show ?thesis by (simp add: finished_ok_def)
qed

text \<open>When the search finds no cycle, it leaves every node of the list finished.\<close>

lemma visit_all_complete:
  assumes "visit_all succs xs v = (False, v')" and "finished_ok succs v"
  shows "active v' = active v \<and> finished v \<subseteq> finished v' \<and> set xs \<subseteq> finished v' \<and>
    finished_ok succs v'"
  using assms
proof (induction succs xs v arbitrary: v' rule: visit_all.induct)
  case (1 succs v)
  then show ?case by simp
next
  case (2 succs x xs v)
  show ?case
  proof (cases "v x")
    case Visit_none
    obtain found w where w: "visit_all succs (succs x) (v(x := Visit_active)) = (found, w)"
      by fastforce
    with 2(4) Visit_none have found: "\<not> found"
      and rest: "visit_all succs xs (w(x := Visit_done)) = (False, v')"
      by (auto split: if_splits)
    have x: "x \<notin> finished v" "x \<notin> active v" using Visit_none by (auto simp: finished_def active_def)
    have "finished_ok succs (v(x := Visit_active))"
      by (rule start_node [OF 2(5) Visit_none])
    from 2(1) [OF Visit_none _ this] w found have
      rec: "active w = insert x (active v)" "finished v - {x} \<subseteq> finished w"
        "set (succs x) \<subseteq> finished w" "finished_ok succs w"
      unfolding visit_updates by metis+
    have "x \<in> active w" by (simp add: rec(1))
    then have "x \<notin> finished w" by (simp add: active_def finished_def)
    from finish_node [OF rec(4) this rec(3)] have "finished_ok succs (w(x := Visit_done))" .
    from 2(2) [OF Visit_none w [symmetric] found rest this] rec x show ?thesis
      by auto
  next
    case Visit_active
    with 2(4) show ?thesis by simp
  next
    case Visit_done
    with 2(4) have rest: "visit_all succs xs v = (False, v')" by simp
    from 2(3) [OF Visit_done this 2(5)] Visit_done show ?thesis
      by (auto simp: finished_def)
  qed
qed

text \<open>When it finds one, there is one, provided the active nodes are ancestors of the list.\<close>

lemma visit_all_sound:
  assumes "visit_all succs xs v = (True, v')"
    and "\<And>g x. g \<in> active v \<Longrightarrow> x \<in> set xs \<Longrightarrow> (g, x) \<in> (edges succs)\<^sup>+"
    and "finished_ok succs v"
  shows "\<exists>x. (x, x) \<in> (edges succs)\<^sup>+"
  using assms
proof (induction succs xs v arbitrary: v' rule: visit_all.induct)
  case (1 succs v)
  then show ?case by simp
next
  case (2 succs x xs v)
  show ?case
  proof (cases "v x")
    case Visit_none
    obtain found w where w: "visit_all succs (succs x) (v(x := Visit_active)) = (found, w)"
      by fastforce
    have ok: "finished_ok succs (v(x := Visit_active))"
      by (rule start_node [OF 2(6) Visit_none])
    show ?thesis
    proof (cases found)
      case True
      have anc: "(g, y) \<in> (edges succs)\<^sup>+"
        if "g \<in> active (v(x := Visit_active))" and "y \<in> set (succs x)" for g y
      proof -
        from that(2) have "(x, y) \<in> edges succs" by simp
        with that(1) 2(5) [of g x] show ?thesis by (auto intro: trancl_into_trancl)
      qed
      have "visit_all succs (succs x) (v(x := Visit_active)) = (True, w)"
        using w True by (simp only:)
      then show ?thesis by (rule 2(1) [OF Visit_none _ anc ok])
    next
      case False
      have "visit_all succs (succs x) (v(x := Visit_active)) = (False, w)"
        using w False by (simp only:)
      from visit_all_complete [OF this ok]
      have rec: "active w = insert x (active v)" "set (succs x) \<subseteq> finished w" "finished_ok succs w"
        by auto
      have "x \<in> active w" by (simp add: rec(1))
      then have "x \<notin> finished w" by (simp add: active_def finished_def)
      from finish_node [OF rec(3) this rec(2)] have "finished_ok succs (w(x := Visit_done))" .
      moreover have "visit_all succs xs (w(x := Visit_done)) = (True, v')"
        using 2(4) Visit_none w False by simp
      moreover have "(g, y) \<in> (edges succs)\<^sup>+"
        if "g \<in> active (w(x := Visit_done))" and "y \<in> set xs" for g y
        using that 2(5) [of g y] by (simp add: rec(1))
      ultimately show ?thesis using 2(2) [OF Visit_none w [symmetric] False] by blast
    qed
  next
    case Visit_active
    then have "x \<in> active v" by (simp add: active_def)
    with 2(5) [of x x] show ?thesis by auto
  next
    case Visit_done
    with 2 show ?thesis by auto
  qed
qed

lemma finished_ok_initial: "finished_ok succs (\<lambda>_. Visit_none)"
  by (simp add: finished_ok_def finished_def)

lemma visit_all_iff:
  assumes "\<And>x. succs x \<noteq> [] \<Longrightarrow> x \<in> set xs"
  shows "fst (visit_all succs xs (\<lambda>_. Visit_none)) \<longleftrightarrow> \<not> acyclic (edges succs)"
proof (cases "visit_all succs xs (\<lambda>_. Visit_none)")
  case (Pair found v')
  show ?thesis
  proof (cases found)
    case True
    with Pair visit_all_sound [of succs xs "\<lambda>_. Visit_none" v']
    have "\<exists>x. (x, x) \<in> (edges succs)\<^sup>+"
      by (simp add: finished_ok_initial active_def)
    with Pair True show ?thesis by (simp add: acyclic_def)
  next
    case False
    with Pair visit_all_complete [of succs xs "\<lambda>_. Visit_none" v']
    have black: "set xs \<subseteq> finished v'" "finished_ok succs v'" by (simp_all add: finished_ok_initial)
    have "acyclic (edges succs)"
      unfolding acyclic_def
    proof (intro allI notI)
      fix x assume cycle: "(x, x) \<in> (edges succs)\<^sup>+"
      then have "succs x \<noteq> []" by (auto dest: tranclD)
      with assms black cycle show False by (auto simp: finished_ok_def)
    qed
    with Pair False show ?thesis by simp
  qed
qed

text \<open>
  C5. The cycle check of the scheduler is exact: the depth-first search over the successor lists,
  with its three colours and its early returns, reports a cycle exactly when the dependency graph
  has one. The graph is arbitrary (self loops, repeated edges and unreachable parts included), and
  so is the order in which the nodes are iterated.
\<close>

theorem graph_has_cycle_iff:
  "graph_has_cycle s \<longleftrightarrow> (\<exists>x. (x, x) \<in> (edges (successors_of s))\<^sup>+)"
proof -
  have "x \<in> set (map fst (sc_nodes s))" if "successors_of s x \<noteq> []" for x
    using that by (auto simp: successors_of_def split: option.splits dest!: map_of_SomeD_key)
  from visit_all_iff [OF this] show ?thesis
    by (simp add: graph_has_cycle_def acyclic_def)
qed

section \<open>Lookups after the primitive updates\<close>

lemma node_of_update_node [sched_simps]:
  "node_of (update_node x f s) y = (if y = x then map_option f (node_of s x) else node_of s y)"
  by (simp add: update_node_def map_entry_map_of)

lemma node_of_update_snapshot [sched_simps]:
  "node_of (update_snapshot x f s) y =
     (if y = x then map_option (\<lambda>n. n\<lparr>nd_snapshot := f (nd_snapshot n)\<rparr>) (node_of s x)
      else node_of s y)"
  by (simp add: update_snapshot_def node_of_update_node)

lemma node_of_ready [sched_simps]:
  "node_of (ready_insert x s) y = node_of s y" "node_of (ready_erase x s) y = node_of s y"
  by (simp_all add: ready_insert_def ready_erase_def)

lemma node_of_release [sched_simps]:
  "node_of (release_resources x s) y =
     (if y = x then map_option (\<lambda>n. n\<lparr>nd_reserved := False\<rparr>) (node_of s x) else node_of s y)"
  by (cases "node_of s x")
    (auto simp: release_resources_def Let_def node_of_update_node)

lemma node_of_cancel_node [sched_simps]:
  "node_of (cancel_node now reason parent x s) y =
     (if y = x then map_option (\<lambda>n. n\<lparr>nd_snapshot := (nd_snapshot n)\<lparr>as_state := Cancelled,
        as_error := reason @ '': '' @ u64_to_string parent, as_finished_at := now\<rparr>,
        nd_reserved := False\<rparr>) (node_of s x)
      else node_of s y)"
  by (cases "node_of s x") (simp_all add: cancel_node_def sched_simps)

lemma ready_updates [sched_simps]:
  "sc_ready (update_node x f s) = sc_ready s"
  "sc_ready (update_snapshot x g s) = sc_ready s"
  "sc_ready (release_resources x s) = sc_ready s"
  "sc_ready (ready_erase x s) = removeAll x (sc_ready s)"
  "sc_ready (cancel_node now reason parent x s) = removeAll x (sc_ready s)"
  by (auto simp: update_node_def update_snapshot_def release_resources_def ready_erase_def
      cancel_node_def Let_def split: option.splits)

lemma set_ready_insert [sched_simps]: "set (sc_ready (ready_insert x s)) = insert x (set (sc_ready s))"
  by (auto simp: ready_insert_def)

lemma keys_updates [sched_simps]:
  "map fst (sc_nodes (update_node x f s)) = map fst (sc_nodes s)"
  "map fst (sc_nodes (update_snapshot x g s)) = map fst (sc_nodes s)"
  "map fst (sc_nodes (ready_insert x s)) = map fst (sc_nodes s)"
  "map fst (sc_nodes (ready_erase x s)) = map fst (sc_nodes s)"
  "map fst (sc_nodes (release_resources x s)) = map fst (sc_nodes s)"
  "map fst (sc_nodes (cancel_node now reason parent x s)) = map fst (sc_nodes s)"
  by (auto simp: update_node_def update_snapshot_def ready_insert_def ready_erase_def
      release_resources_def cancel_node_def Let_def split: option.splits)

section \<open>The cancellation of descendants\<close>

text \<open>What every single cancellation preserves, the whole traversal preserves.\<close>

lemma cancel_descendants_preserves:
  assumes "P s"
    and "\<And>s x n parent. P s \<Longrightarrow> node_of s x = Some n \<Longrightarrow> \<not> is_terminal (nd_state n) \<Longrightarrow>
      P (cancel_node now reason parent x s)"
  shows "P (cancel_descendants now reason parent xs s)"
  using assms
proof (induction now reason parent xs s rule: cancel_descendants.induct)
  case (2 now reason parent x xs s)
  then show ?case by (cases "node_of s x") auto
qed simp

definition live :: "scheduler \<Rightarrow> agent_id \<Rightarrow> bool" where
  "live s x \<longleftrightarrow> (case node_of s x of None \<Rightarrow> False | Some n \<Rightarrow> \<not> is_terminal (nd_state n))"

text \<open>The agents that a path of unfinished agents reaches from one of \<open>xs\<close>.\<close>

inductive live_reach :: "scheduler \<Rightarrow> agent_id list \<Rightarrow> agent_id \<Rightarrow> bool"
  for s :: scheduler and xs :: "agent_id list" where
  start: "x \<in> set xs \<Longrightarrow> live s x \<Longrightarrow> live_reach s xs x"
| step: "live_reach s xs y \<Longrightarrow> z \<in> set (successors_of s y) \<Longrightarrow> live s z \<Longrightarrow> live_reach s xs z"

lemma live_reach_live: "live_reach s xs y \<Longrightarrow> live s y"
  by (cases rule: live_reach.cases)

lemma live_reach_Nil [simp]: "\<not> live_reach s [] y"
proof
  assume "live_reach s [] y"
  then show False by (induction rule: live_reach.induct) simp_all
qed

lemma live_reach_mono:
  assumes "live_reach s xs y" and "\<And>z. live s z \<Longrightarrow> live s' z"
    and "successors_of s = successors_of s'" and "set xs \<subseteq> set xs' "
  shows "live_reach s' xs' y"
  using assms(1)
proof (induction rule: live_reach.induct)
  case (start x)
  then show ?case using assms by (auto intro: live_reach.start)
next
  case (step y z)
  then show ?case using assms by (auto intro: live_reach.step)
qed

text \<open>What cancellation leaves of a node.\<close>

definition cancelled_version :: "sched_node \<Rightarrow> sched_node \<Rightarrow> bool" where
  "cancelled_version n n' \<longleftrightarrow>
     nd_state n' = Cancelled \<and> \<not> nd_reserved n' \<and> nd_successors n' = nd_successors n \<and>
     nd_spec n' = nd_spec n \<and> as_unresolved (nd_snapshot n') = as_unresolved (nd_snapshot n) \<and>
     as_retry_count (nd_snapshot n') = as_retry_count (nd_snapshot n)"

text \<open>The contract of the traversal from the agents \<open>xs\<close>.\<close>

definition cancels :: "scheduler \<Rightarrow> agent_id list \<Rightarrow> scheduler \<Rightarrow> bool" where
  "cancels s xs s' \<longleftrightarrow>
     map fst (sc_nodes s') = map fst (sc_nodes s) \<and>
     sc_ready s' = filter (\<lambda>y. \<not> live_reach s xs y) (sc_ready s) \<and>
     (\<forall>y. if live_reach s xs y
          then \<exists>n n'. node_of s y = Some n \<and> node_of s' y = Some n' \<and> cancelled_version n n'
          else node_of s' y = node_of s y)"

lemma cancels_successors:
  assumes "cancels s xs s'"
  shows "successors_of s' = successors_of s"
proof
  fix y
  from assms have "if live_reach s xs y
      then \<exists>n n'. node_of s y = Some n \<and> node_of s' y = Some n' \<and> cancelled_version n n'
      else node_of s' y = node_of s y"
    unfolding cancels_def by blast
  then show "successors_of s' y = successors_of s y"
    by (auto simp: successors_of_def cancelled_version_def split: if_splits)
qed

lemma cancels_live:
  assumes "cancels s xs s'"
  shows "live s' y \<longleftrightarrow> live s y \<and> \<not> live_reach s xs y"
proof -
  from assms have "if live_reach s xs y
      then \<exists>n n'. node_of s y = Some n \<and> node_of s' y = Some n' \<and> cancelled_version n n'
      else node_of s' y = node_of s y"
    unfolding cancels_def by blast
  then show ?thesis
    by (auto simp: live_def cancelled_version_def split: if_splits)
qed

lemma live_reach_dead_head:
  assumes "\<not> live s x"
  shows "live_reach s (x # xs) y \<longleftrightarrow> live_reach s xs y"
proof
  assume "live_reach s (x # xs) y"
  then show "live_reach s xs y"
    by (induction rule: live_reach.induct) (use assms in \<open>auto intro: live_reach.intros\<close>)
next
  assume "live_reach s xs y"
  then show "live_reach s (x # xs) y" by (rule live_reach_mono) auto
qed

text \<open>The set that a traversal reaches, split at its first agent.\<close>

lemma live_reach_Cons:
  assumes x: "live s x"
    and s1: "\<And>y. live s1 y \<longleftrightarrow> live s y \<and> y \<noteq> x" "successors_of s1 = successors_of s"
    and s2: "cancels s1 (successors_of s x) s2"
  shows "live_reach s (x # xs) y \<longleftrightarrow>
    y = x \<or> live_reach s1 (successors_of s x) y \<or> live_reach s2 xs y"
proof
  have live2: "live s2 z \<longleftrightarrow> live s z \<and> z \<noteq> x \<and> \<not> live_reach s1 (successors_of s x) z" for z
    by (simp add: cancels_live [OF s2] s1(1))
  have succs2: "successors_of s2 = successors_of s"
    by (simp add: cancels_successors [OF s2] s1(2))
  {
    assume "live_reach s (x # xs) y"
    then show "y = x \<or> live_reach s1 (successors_of s x) y \<or> live_reach s2 xs y"
    proof (induction rule: live_reach.induct)
      case (start z)
      then show ?case by (cases "live s2 z") (auto simp: live2 intro: live_reach.start)
    next
      case (step y z)
      show ?case
      proof (cases "live s2 z")
        case True
        then have "live s1 z" by (simp add: live2 s1(1))
        with step True have "y \<noteq> x" "\<not> live_reach s1 (successors_of s x) y"
          using live2 [of z] live_reach.start [of z "successors_of s x" s1]
            live_reach.step [of s1 "successors_of s x" y z]
          by (auto simp: s1(2))
        with step True have "live_reach s2 xs y" by blast
        then show ?thesis using step True by (auto simp: succs2 intro: live_reach.step)
      next
        case False
        with step show ?thesis by (auto simp: live2)
      qed
    qed
  next
    assume "y = x \<or> live_reach s1 (successors_of s x) y \<or> live_reach s2 xs y"
    moreover have head: "live_reach s (x # xs) x" using x by (auto intro: live_reach.start)
    moreover have "live_reach s (x # xs) y" if "live_reach s1 (successors_of s x) y"
      using that
    proof (induction rule: live_reach.induct)
      case (start z)
      with head show ?case by (auto simp: s1(1) intro: live_reach.step)
    next
      case (step y z)
      then show ?case by (auto simp: s1 intro: live_reach.step)
    qed
    moreover have "live_reach s (x # xs) y" if "live_reach s2 xs y"
      using that by (rule live_reach_mono) (auto simp: live2 succs2)
    ultimately show "live_reach s (x # xs) y" by blast
  }
qed

lemma cancels_Cons:
  assumes x: "node_of s x = Some n" "\<not> is_terminal (nd_state n)"
    and s1: "s1 = cancel_node now reason parent x s"
    and s2: "cancels s1 (nd_successors n) s2" and s3: "cancels s2 xs s3"
  shows "cancels s (x # xs) s3"
proof -
  have lx: "live s x" using x by (simp add: live_def)
  have succ: "nd_successors n = successors_of s x" using x by (simp add: successors_of_def)
  have live1: "live s1 y \<longleftrightarrow> live s y \<and> y \<noteq> x" for y
    using x by (auto simp: s1 live_def sched_simps)
  have succs1: "successors_of s1 = successors_of s"
    using x by (auto simp: s1 successors_of_def sched_simps)
  note split = live_reach_Cons [OF lx live1 succs1 s2 [unfolded succ], of xs]
  have keys: "map fst (sc_nodes s3) = map fst (sc_nodes s)"
    using s2 s3 by (simp add: cancels_def s1 sched_simps)
  have ready: "sc_ready s3 = filter (\<lambda>y. \<not> live_reach s (x # xs) y) (sc_ready s)"
    using s2 s3 unfolding split
    by (auto simp: cancels_def s1 succ sched_simps removeAll_filter_not_eq intro!: filter_cong)
  have node: "if live_reach s (x # xs) y
      then \<exists>m m'. node_of s y = Some m \<and> node_of s3 y = Some m' \<and> cancelled_version m m'
      else node_of s3 y = node_of s y" for y
  proof -
    have n1: "node_of s1 y = (if y = x then map_option (\<lambda>n. n\<lparr>nd_snapshot := (nd_snapshot n)
        \<lparr>as_state := Cancelled, as_error := reason @ '': '' @ u64_to_string parent,
         as_finished_at := now\<rparr>, nd_reserved := False\<rparr>) (node_of s x) else node_of s y)"
      by (simp add: s1 sched_simps)
    have n2: "if live_reach s1 (nd_successors n) y
      then \<exists>m m'. node_of s1 y = Some m \<and> node_of s2 y = Some m' \<and> cancelled_version m m'
      else node_of s2 y = node_of s1 y"
      using s2 unfolding cancels_def by blast
    have n3: "if live_reach s2 xs y
      then \<exists>m m'. node_of s2 y = Some m \<and> node_of s3 y = Some m' \<and> cancelled_version m m'
      else node_of s3 y = node_of s2 y"
      using s3 unfolding cancels_def by blast
    have excl: "\<not> (live_reach s2 xs y \<and> (y = x \<or> live_reach s1 (nd_successors n) y))"
      using live_reach_live [of s2 xs y] cancels_live [OF s2, of y] live1 by blast
    have nx: "\<not> live_reach s1 (nd_successors n) x"
      using live_reach_live live1 by blast
    show ?thesis
      using n1 n2 n3 excl nx x unfolding split succ [symmetric]
      by (auto simp: cancelled_version_def split: if_splits)
  qed
  with keys ready show ?thesis unfolding cancels_def by blast
qed

lemma cancel_descendants_cancels:
  "cancels s xs (cancel_descendants now reason parent xs s)"
proof (induction now reason parent xs s rule: cancel_descendants.induct)
  case (1 now reason parent s)
  then show ?case by (simp add: cancels_def)
next
  case (2 now reason parent x xs s)
  have dead: "cancels s (x # xs) s'" if "cancels s xs s'" and "\<not> live s x" for s'
    using that(1) unfolding cancels_def live_reach_dead_head [OF that(2)] .
  show ?case
  proof (cases "node_of s x")
    case None
    with 2 dead show ?thesis by (simp add: live_def)
  next
    case (Some n)
    show ?thesis
    proof (cases "is_terminal (nd_state n)")
      case True
      with Some 2 dead show ?thesis by (simp add: live_def)
    next
      case False
      with Some 2 show ?thesis by (simp add: cancels_Cons [OF Some False refl])
    qed
  qed
qed

text \<open>
  C8. Cancelling a node of the dependency graph cancels exactly its unfinished descendants: after
  \<open>cancel\<close> succeeds, an agent that a path of unfinished agents reaches from \<open>x\<close> is CANCELLED, holds
  no resources and is not in the ready queue, and every other agent is untouched, whatever the
  shape of the graph and the order of the successor lists.
\<close>

theorem cancel_exact:
  assumes "cancel now x s = (Inr (), s')"
  shows "live s x \<and> (\<forall>y.
    if live_reach s [x] y
    then \<exists>m m'. node_of s y = Some m \<and> node_of s' y = Some m' \<and> cancelled_version m m' \<and>
      y \<notin> set (sc_ready s')
    else node_of s' y = node_of s y \<and> (y \<in> set (sc_ready s') \<longleftrightarrow> y \<in> set (sc_ready s)))"
proof -
  from assms obtain n where n: "node_of s x = Some n" "\<not> is_terminal (nd_state n)"
    by (auto simp: cancel_def transition_then_def transition_locked_def allowed_transition_def
        split: option.splits if_splits)
  define s1 where "s1 = update_snapshot x (\<lambda>sn. sn\<lparr>as_finished_at := now\<rparr>)
    (release_resources x (ready_erase x (update_snapshot x (\<lambda>sn. sn\<lparr>as_state := Cancelled\<rparr>) s)))"
  define s2 where "s2 = cancel_descendants now ''dependency agent was cancelled'' x (nd_successors n) s1"
  have s': "s' = s2"
    using assms n by (simp add: cancel_def transition_then_def transition_locked_def
        allowed_transition_def s1_def s2_def)
  have node1: "node_of s1 y = (if y = x then Some (n\<lparr>nd_snapshot := (nd_snapshot n)
      \<lparr>as_state := Cancelled, as_finished_at := now\<rparr>, nd_reserved := False\<rparr>) else node_of s y)" for y
    using n by (simp add: s1_def sched_simps)
  have live1: "live s1 y \<longleftrightarrow> live s y \<and> y \<noteq> x" for y
    using n by (auto simp: live_def node1)
  have succs1: "successors_of s1 = successors_of s"
    using n by (auto simp: successors_of_def node1)
  have succ: "nd_successors n = successors_of s x" using n by (simp add: successors_of_def)
  have lx: "live s x" using n by (simp add: live_def)
  have c2: "cancels s1 (successors_of s x) s2"
    unfolding s2_def succ by (rule cancel_descendants_cancels)
  have reach: "live_reach s [x] y \<longleftrightarrow> y = x \<or> live_reach s1 (successors_of s x) y" for y
    using live_reach_Cons [OF lx live1 succs1 c2, of "[]"] by simp
  have ready: "sc_ready s1 = removeAll x (sc_ready s)"
    by (simp add: s1_def sched_simps)
  have node2: "if live_reach s1 (successors_of s x) y
      then \<exists>m m'. node_of s1 y = Some m \<and> node_of s2 y = Some m' \<and> cancelled_version m m'
      else node_of s2 y = node_of s1 y" for y
    using c2 unfolding cancels_def by blast
  have ready2: "sc_ready s2 = filter (\<lambda>y. \<not> live_reach s1 (successors_of s x) y) (sc_ready s1)"
    using c2 unfolding cancels_def by blast
  have nx: "\<not> live_reach s1 (successors_of s x) x"
    using live_reach_live live1 by blast
  have "if live_reach s [x] y
    then \<exists>m m'. node_of s y = Some m \<and> node_of s' y = Some m' \<and> cancelled_version m m' \<and>
      y \<notin> set (sc_ready s')
    else node_of s' y = node_of s y \<and> (y \<in> set (sc_ready s') \<longleftrightarrow> y \<in> set (sc_ready s))" for y
  proof (cases "y = x")
    case True
    with node2 [of y] node1 [of y] n nx show ?thesis
      by (simp add: reach s' ready2 ready cancelled_version_def)
  next
    case False
    with node1 [of y] have "node_of s1 y = node_of s y" by simp
    with False node2 [of y] show ?thesis
      by (auto simp: reach s' ready2 ready)
  qed
  with lx show ?thesis by blast
qed

text \<open>A chain of three agents whose first is running.\<close>

definition sample_chain :: scheduler where
  "sample_chain = \<lparr>sc_nodes =
     [(1, \<lparr>nd_snapshot = default_snapshot\<lparr>as_state := Running\<rparr>, nd_successors = [2],
           nd_reserved = True\<rparr>),
      (2, \<lparr>nd_snapshot = default_snapshot\<lparr>as_state := Waiting_dependency\<rparr>, nd_successors = [3],
           nd_reserved = False\<rparr>),
      (3, \<lparr>nd_snapshot = default_snapshot\<lparr>as_state := Waiting_dependency\<rparr>, nd_successors = [],
           nd_reserved = False\<rparr>)],
     sc_ready = [], sc_reserved_cpu = 1, sc_reserved_memory = 0\<rparr>"

theorem cancel_exact_witness:
  "\<exists>s' m'. cancel 5 1 sample_chain = (Inr (), s') \<and> node_of s' 3 = Some m' \<and> nd_state m' = Cancelled"
proof -
  obtain s' where s': "cancel 5 1 sample_chain = (Inr (), s')"
    by (simp add: cancel_def sample_chain_def default_snapshot_def transition_then_def
        transition_locked_def allowed_transition_def)
  have "live_reach sample_chain [1] 1"
    by (rule live_reach.start) (simp_all add: live_def sample_chain_def)
  then have "live_reach sample_chain [1] 2"
    by (rule live_reach.step) (simp_all add: live_def successors_of_def sample_chain_def)
  then have "live_reach sample_chain [1] 3"
    by (rule live_reach.step) (simp_all add: live_def successors_of_def sample_chain_def)
  with cancel_exact [OF s'] s' show ?thesis
    by (auto simp: cancelled_version_def split: if_splits)
qed

end
