(* ===== verification/Scheduler_Submit.thy ===== *)
theory Scheduler_Submit
  imports Scheduler_Graph
begin

text \<open>
  What a submission does, in closed form: the nodes, successor lists and counters that
  \<open>submit_batch\<close> leaves, derived from its loops, and its failure cases.
\<close>

section \<open>The two validation loops\<close>

lemma check_tasks_None:
  assumes "check_tasks present incoming ts = None"
  shows "distinct (map ts_id ts) \<and> 0 \<notin> ts_id ` set ts \<and>
    ts_id ` set ts \<inter> (set present \<union> set incoming) = {}"
  using assms
proof (induction ts arbitrary: incoming)
  case (Cons t ts)
  then have "check_tasks present (ts_id t # incoming) ts = None"
    and "ts_id t \<noteq> 0" "ts_id t \<notin> set present" "ts_id t \<notin> set incoming"
    by (auto split: if_splits)
  with Cons.IH [of "ts_id t # incoming"] show ?case by auto
qed simp

lemma check_dependencies_None:
  assumes "check_dependencies known ts = None" and "t \<in> set ts" and "d \<in> set (ts_dependencies t)"
  shows "d \<noteq> ts_id t \<and> d \<in> set known"
  using assms
proof (induction ts)
  case (Cons u us)
  then have find: "List.find (\<lambda>d. d = ts_id u \<or> d \<notin> set known) (ts_dependencies u) = None"
    and rest: "check_dependencies known us = None"
    by (auto split: option.splits)
  show ?case
  proof (cases "t = u")
    case True
    with find Cons.prems(3) show ?thesis by (auto simp: find_None_iff)
  next
    case False
    with Cons rest show ?thesis by simp
  qed
qed simp

section \<open>The linking loops\<close>

definition done_at :: "scheduler \<Rightarrow> agent_id \<Rightarrow> bool" where
  "done_at s d \<longleftrightarrow> (\<exists>n. node_of s d = Some n \<and> nd_state n = Completed)"

definition add_successors :: "agent_id list \<Rightarrow> sched_node \<Rightarrow> sched_node" where
  "add_successors xs n = n\<lparr>nd_successors := nd_successors n @ xs\<rparr>"

lemma add_successors_simps [simp]:
  "nd_snapshot (add_successors xs n) = nd_snapshot n"
  "nd_successors (add_successors xs n) = nd_successors n @ xs"
  "nd_reserved (add_successors xs n) = nd_reserved n"
  "add_successors [] n = n"
  "add_successors ys (add_successors xs n) = add_successors (xs @ ys) n"
  by (simp_all add: add_successors_def)

lemma reserved_updates [sched_simps]:
  "sc_reserved_cpu (update_node x f s) = sc_reserved_cpu s"
  "sc_reserved_memory (update_node x f s) = sc_reserved_memory s"
  "sc_reserved_cpu (update_snapshot x g s) = sc_reserved_cpu s"
  "sc_reserved_memory (update_snapshot x g s) = sc_reserved_memory s"
  "sc_reserved_cpu (ready_insert x s) = sc_reserved_cpu s"
  "sc_reserved_memory (ready_insert x s) = sc_reserved_memory s"
  by (simp_all add: update_node_def update_snapshot_def ready_insert_def)

text \<open>Two states with the same keys, ready queue and reservations.\<close>

definition same_frame :: "scheduler \<Rightarrow> scheduler \<Rightarrow> bool" where
  "same_frame s s' \<longleftrightarrow>
     map fst (sc_nodes s') = map fst (sc_nodes s) \<and> sc_ready s' = sc_ready s \<and>
     sc_reserved_cpu s' = sc_reserved_cpu s \<and> sc_reserved_memory s' = sc_reserved_memory s"

lemma same_frame_update [simp]:
  "same_frame s (update_node x f s)" "same_frame s (update_snapshot x g s)" "same_frame s s"
  by (simp_all add: same_frame_def sched_simps)

lemma same_frame_trans: "same_frame s t \<Longrightarrow> same_frame t u \<Longrightarrow> same_frame s u"
  by (simp add: same_frame_def)

lemma link_dependencies_spec:
  assumes "\<And>d. d \<in> set ds \<Longrightarrow> node_of s d \<noteq> None"
  shows "fst (link_dependencies x ds u s) =
      u + word_of_nat (length (filter (\<lambda>d. \<not> done_at s d) ds)) \<and>
    same_frame s (snd (link_dependencies x ds u s)) \<and>
    (\<forall>y. node_of (snd (link_dependencies x ds u s)) y =
      map_option (add_successors (replicate (count_list ds y) x)) (node_of s y))"
  using assms
proof (induction ds arbitrary: u s)
  case Nil
  have "add_successors [] = (\<lambda>n. n)" by (rule ext) simp
  then show ?case by (simp add: option.map_ident)
next
  case (Cons d ds)
  then obtain p where p: "node_of s d = Some p" by force
  let ?s = "update_node d (add_successors [x]) s"
  let ?u = "if \<not> is_terminal (nd_state p) \<or> nd_state p \<noteq> Completed then u + 1 else u"
  have eq: "link_dependencies x (d # ds) u s = link_dependencies x ds ?u ?s"
    by (simp add: p add_successors_def [abs_def])
  have fin: "done_at ?s y = done_at s y" for y
    by (auto simp: done_at_def sched_simps)
  have u: "?u = u + word_of_nat (if done_at s d then 0 else 1)"
    using p by (auto simp: done_at_def)
  have ex: "node_of ?s y \<noteq> None" if "y \<in> set ds" for y
    using Cons.prems [of y] that p by (auto simp: sched_simps)
  from Cons.IH [of ?s ?u] ex have ih: "fst (link_dependencies x ds ?u ?s) =
      ?u + word_of_nat (length (filter (\<lambda>d. \<not> done_at ?s d) ds))"
    "same_frame ?s (snd (link_dependencies x ds ?u ?s))"
    "\<And>y. node_of (snd (link_dependencies x ds ?u ?s)) y =
      map_option (add_successors (replicate (count_list ds y) x)) (node_of ?s y)"
    by blast+
  have "fst (link_dependencies x (d # ds) u s) =
      u + word_of_nat (length (filter (\<lambda>d. \<not> done_at s d) (d # ds)))"
  proof -
    have "fst (link_dependencies x (d # ds) u s) =
        ?u + word_of_nat (length (filter (\<lambda>d. \<not> done_at s d) ds))"
      by (simp only: eq ih(1) fin)
    then show ?thesis unfolding u by simp
  qed
  moreover have "same_frame s (snd (link_dependencies x (d # ds) u s))"
    unfolding eq using same_frame_trans [OF same_frame_update(1) ih(2)] .
  moreover have "node_of (snd (link_dependencies x (d # ds) u s)) y =
      map_option (add_successors (replicate (count_list (d # ds) y) x)) (node_of s y)" for y
    unfolding eq ih(3) by (auto simp: sched_simps option.map_comp comp_def p)
  ultimately show ?case by blast
qed

text \<open>The successors that the tasks \<open>ts\<close> add to \<open>y\<close>.\<close>

definition new_successors :: "agent_task_spec list \<Rightarrow> agent_id \<Rightarrow> agent_id list" where
  "new_successors ts y = concat (map (\<lambda>t. replicate (count_list (ts_dependencies t) y) (ts_id t)) ts)"

definition unresolved_count :: "scheduler \<Rightarrow> agent_task_spec \<Rightarrow> nat" where
  "unresolved_count s t = length (filter (\<lambda>d. \<not> done_at s d) (ts_dependencies t))"

definition set_unresolved :: "u32 \<Rightarrow> sched_node \<Rightarrow> sched_node" where
  "set_unresolved u n = n\<lparr>nd_snapshot := (nd_snapshot n)\<lparr>as_unresolved := u\<rparr>\<rparr>"

lemma link_task_spec:
  assumes "\<And>d. d \<in> set (ts_dependencies t) \<Longrightarrow> node_of s d \<noteq> None"
  shows "same_frame s (link_task t s) \<and>
    (\<forall>y. node_of (link_task t s) y =
      map_option (\<lambda>n. (if y = ts_id t then set_unresolved (word_of_nat (unresolved_count s t)) else id)
        (add_successors (replicate (count_list (ts_dependencies t) y) (ts_id t)) n)) (node_of s y))"
proof -
  obtain u s' where l: "link_dependencies (ts_id t) (ts_dependencies t) 0 s = (u, s')" by fastforce
  from link_dependencies_spec [of "ts_dependencies t" s "ts_id t" 0] assms l
  have u: "u = word_of_nat (unresolved_count s t)" and frame: "same_frame s s'"
    and node: "\<And>y. node_of s' y = map_option
      (add_successors (replicate (count_list (ts_dependencies t) y) (ts_id t))) (node_of s y)"
    by (simp_all add: unresolved_count_def)
  have eq: "link_task t s = update_snapshot (ts_id t) (\<lambda>sn. sn\<lparr>as_unresolved := u\<rparr>) s'"
    by (simp add: link_task_def l)
  have "same_frame s (link_task t s)"
    unfolding eq by (rule same_frame_trans [OF frame]) simp
  then show ?thesis
    by (auto simp: eq u node sched_simps option.map_comp comp_def set_unresolved_def id_def)
qed

lemma set_unresolved_add: "add_successors xs (set_unresolved u n) = set_unresolved u (add_successors xs n)"
  by (simp add: set_unresolved_def add_successors_def)

lemma fold_link_spec:
  assumes "\<And>t d. t \<in> set ts \<Longrightarrow> d \<in> set (ts_dependencies t) \<Longrightarrow> node_of s d \<noteq> None"
    and "distinct (map ts_id ts)"
  shows "same_frame s (fold link_task ts s) \<and>
    (\<forall>y. node_of (fold link_task ts s) y =
      map_option (\<lambda>n. (case List.find (\<lambda>t. ts_id t = y) ts of
          None \<Rightarrow> id | Some t \<Rightarrow> set_unresolved (word_of_nat (unresolved_count s t)))
        (add_successors (new_successors ts y) n)) (node_of s y))"
  using assms
proof (induction ts arbitrary: s)
  case Nil
  then show ?case by (simp add: new_successors_def id_def option.map_ident)
next
  case (Cons t ts)
  from link_task_spec [of t s] Cons.prems(1) [of t]
  have frame: "same_frame s (link_task t s)"
    and node: "\<And>y. node_of (link_task t s) y =
      map_option (\<lambda>n. (if y = ts_id t then set_unresolved (word_of_nat (unresolved_count s t)) else id)
        (add_successors (replicate (count_list (ts_dependencies t) y) (ts_id t)) n)) (node_of s y)"
    by simp_all
  have fin: "done_at (link_task t s) = done_at s"
    by (rule ext) (auto simp: done_at_def node set_unresolved_def split: if_splits)
  have count: "unresolved_count (link_task t s) = unresolved_count s"
    by (rule ext) (simp add: unresolved_count_def fin)
  have ex: "node_of (link_task t s) d \<noteq> None" if "u \<in> set ts" "d \<in> set (ts_dependencies u)" for u d
    using Cons.prems(1) [of u d] that by (simp add: node)
  have dist: "distinct (map ts_id ts)" using Cons.prems(2) by simp
  from Cons.IH [of "link_task t s", unfolded count, OF _ dist] ex
  have ih: "same_frame (link_task t s) (fold link_task ts (link_task t s))"
    "\<And>y. node_of (fold link_task ts (link_task t s)) y =
      map_option (\<lambda>n. (case List.find (\<lambda>t. ts_id t = y) ts of
          None \<Rightarrow> id | Some t \<Rightarrow> set_unresolved (word_of_nat (unresolved_count s t)))
        (add_successors (new_successors ts y) n)) (node_of (link_task t s) y)"
    by simp_all
  have none: "List.find (\<lambda>u. ts_id u = ts_id t) ts = None"
    using Cons.prems(2) by (auto simp: find_None_iff image_iff)
  have "node_of (fold link_task (t # ts) s) y =
      map_option (\<lambda>n. (case List.find (\<lambda>t. ts_id t = y) (t # ts) of
          None \<Rightarrow> id | Some t \<Rightarrow> set_unresolved (word_of_nat (unresolved_count s t)))
        (add_successors (new_successors (t # ts) y) n)) (node_of s y)" for y
    using none
    by (cases "node_of s y")
      (auto simp: ih(2) node new_successors_def set_unresolved_add id_def split: option.splits)
  with same_frame_trans [OF frame ih(1)] show ?case by simp
qed

section \<open>The settling loop\<close>

definition set_state :: "agent_state \<Rightarrow> sched_node \<Rightarrow> sched_node" where
  "set_state st n = n\<lparr>nd_snapshot := (nd_snapshot n)\<lparr>as_state := st\<rparr>\<rparr>"

definition settled :: "sched_node \<Rightarrow> sched_node" where
  "settled n = set_state (if as_unresolved (nd_snapshot n) = 0 then Ready else Waiting_dependency) n"

lemma settle_task_spec:
  assumes "node_of s (ts_id t) = Some n"
  shows "map fst (sc_nodes (settle_task t s)) = map fst (sc_nodes s) \<and>
    sc_reserved_cpu (settle_task t s) = sc_reserved_cpu s \<and>
    sc_reserved_memory (settle_task t s) = sc_reserved_memory s \<and>
    sc_ready (settle_task t s) = sc_ready
      (if as_unresolved (nd_snapshot n) = 0 then ready_insert (ts_id t) s else s) \<and>
    (\<forall>y. node_of (settle_task t s) y = (if y = ts_id t then Some (settled n) else node_of s y))"
  using assms
  by (simp add: settle_task_def enqueue_ready_def sched_simps settled_def set_state_def)
    (simp add: ready_insert_def sched_simps)

lemma fold_settle_spec:
  assumes "distinct (map ts_id ts)" and "\<And>t. t \<in> set ts \<Longrightarrow> node_of s (ts_id t) \<noteq> None"
    and "distinct (sc_ready s)"
  shows "map fst (sc_nodes (fold settle_task ts s)) = map fst (sc_nodes s) \<and>
    sc_reserved_cpu (fold settle_task ts s) = sc_reserved_cpu s \<and>
    sc_reserved_memory (fold settle_task ts s) = sc_reserved_memory s \<and>
    distinct (sc_ready (fold settle_task ts s)) \<and>
    set (sc_ready (fold settle_task ts s)) = set (sc_ready s) \<union>
      {x. x \<in> ts_id ` set ts \<and> (\<exists>n. node_of s x = Some n \<and> as_unresolved (nd_snapshot n) = 0)} \<and>
    (\<forall>y. node_of (fold settle_task ts s) y =
      (if y \<in> ts_id ` set ts then map_option settled (node_of s y) else node_of s y))"
  using assms
proof (induction ts arbitrary: s)
  case Nil
  then show ?case by simp
next
  case (Cons t ts)
  from Cons.prems(2) [of t] obtain n where n: "node_of s (ts_id t) = Some n" by auto
  from settle_task_spec [OF this]
  have s1: "map fst (sc_nodes (settle_task t s)) = map fst (sc_nodes s)"
    "sc_reserved_cpu (settle_task t s) = sc_reserved_cpu s"
    "sc_reserved_memory (settle_task t s) = sc_reserved_memory s"
    "sc_ready (settle_task t s) = sc_ready
      (if as_unresolved (nd_snapshot n) = 0 then ready_insert (ts_id t) s else s)"
    and node: "\<And>y. node_of (settle_task t s) y = (if y = ts_id t then Some (settled n) else node_of s y)"
    by blast+
  have d: "distinct (sc_ready (settle_task t s))"
    using Cons.prems(3) by (simp add: s1 ready_insert_def)
  have ex: "node_of (settle_task t s) (ts_id u) \<noteq> None" if "u \<in> set ts" for u
    using Cons.prems(2) [of u] that by (auto simp: node)
  from Cons.prems(1) have fresh: "ts_id t \<notin> ts_id ` set ts" and dist: "distinct (map ts_id ts)"
    by auto
  from Cons.IH [OF dist ex d]
  have ih: "map fst (sc_nodes (fold settle_task ts (settle_task t s))) = map fst (sc_nodes s)"
    "sc_reserved_cpu (fold settle_task ts (settle_task t s)) = sc_reserved_cpu s"
    "sc_reserved_memory (fold settle_task ts (settle_task t s)) = sc_reserved_memory s"
    "distinct (sc_ready (fold settle_task ts (settle_task t s)))"
    "set (sc_ready (fold settle_task ts (settle_task t s))) = set (sc_ready (settle_task t s)) \<union>
      {x. x \<in> ts_id ` set ts \<and>
        (\<exists>n. node_of (settle_task t s) x = Some n \<and> as_unresolved (nd_snapshot n) = 0)}"
    "\<And>y. node_of (fold settle_task ts (settle_task t s)) y =
      (if y \<in> ts_id ` set ts then map_option settled (node_of (settle_task t s) y)
       else node_of (settle_task t s) y)"
    using s1 by auto
  have "set (sc_ready (fold settle_task (t # ts) s)) = set (sc_ready s) \<union>
      {x. x \<in> ts_id ` set (t # ts) \<and> (\<exists>n. node_of s x = Some n \<and> as_unresolved (nd_snapshot n) = 0)}"
    using fresh n by (auto simp: ih(5) node s1(4) set_ready_insert split: if_splits)
  moreover have "node_of (fold settle_task (t # ts) s) y =
      (if y \<in> ts_id ` set (t # ts) then map_option settled (node_of s y) else node_of s y)" for y
    using fresh n by (auto simp: ih(6) node)
  ultimately show ?case using ih by simp
qed

section \<open>The whole submission\<close>

lemma map_of_new_nodes:
  "map_of (map (\<lambda>t. (ts_id t, new_node now t)) ts) y =
     map_option (new_node now) (List.find (\<lambda>t. ts_id t = y) ts)"
  by (induction ts) auto

lemma find_id_None: "List.find (\<lambda>t. ts_id t = y) ts = None \<longleftrightarrow> y \<notin> ts_id ` set ts"
  by (auto simp: find_None_iff)

lemma find_id_SomeD: "List.find (\<lambda>t. ts_id t = y) ts = Some t \<Longrightarrow> t \<in> set ts \<and> ts_id t = y"
  by (auto simp: find_Some_iff)

lemma find_id_member:
  "distinct (map ts_id ts) \<Longrightarrow> t \<in> set ts \<Longrightarrow> List.find (\<lambda>u. ts_id u = ts_id t) ts = Some t"
  by (induction ts) force+

text \<open>The node of a submitted task.\<close>

definition submitted_node :: "nat \<Rightarrow> agent_task_spec list \<Rightarrow> scheduler \<Rightarrow> agent_task_spec \<Rightarrow> sched_node" where
  "submitted_node now ts s t =
     settled (set_unresolved (word_of_nat (unresolved_count s t))
       (add_successors (new_successors ts (ts_id t)) (new_node now t)))"

lemma submitted_node_simps [simp]:
  "nd_spec (submitted_node now ts s t) = t"
  "nd_successors (submitted_node now ts s t) = new_successors ts (ts_id t)"
  "nd_reserved (submitted_node now ts s t) = False"
  "as_unresolved (nd_snapshot (submitted_node now ts s t)) = word_of_nat (unresolved_count s t)"
  "nd_state (submitted_node now ts s t) =
     (if word_of_nat (unresolved_count s t) = (0 :: u32) then Ready else Waiting_dependency)"
  by (simp_all add: submitted_node_def settled_def set_state_def set_unresolved_def
      add_successors_def new_node_def)

text \<open>Everything an accepted batch promises.\<close>

definition submitted :: "nat \<Rightarrow> agent_task_spec list \<Rightarrow> scheduler \<Rightarrow> scheduler \<Rightarrow> bool" where
  "submitted now ts s s' \<longleftrightarrow>
     map fst (sc_nodes s') = map fst (sc_nodes s) @ map ts_id ts \<and>
     distinct (map ts_id ts) \<and> 0 \<notin> ts_id ` set ts \<and>
     ts_id ` set ts \<inter> fst ` set (sc_nodes s) = {} \<and>
     (\<forall>t \<in> set ts. \<forall>d \<in> set (ts_dependencies t). d \<in> fst ` set (sc_nodes s) \<union> ts_id ` set ts) \<and>
     acyclic (edges (successors_of s')) \<and>
     sc_reserved_cpu s' = sc_reserved_cpu s \<and> sc_reserved_memory s' = sc_reserved_memory s \<and>
     distinct (sc_ready s') \<and>
     set (sc_ready s') = set (sc_ready s) \<union>
       {ts_id t | t. t \<in> set ts \<and> word_of_nat (unresolved_count s t) = (0 :: u32)} \<and>
     (\<forall>y. node_of s' y =
       (case List.find (\<lambda>t. ts_id t = y) ts of
          Some t \<Rightarrow> Some (submitted_node now ts s t)
        | None \<Rightarrow> map_option (add_successors (new_successors ts y)) (node_of s y)))"

lemma submit_batch_submitted:
  assumes "submit_batch now ts s = (Inr (), s')" and ready: "distinct (sc_ready s)"
  shows "submitted now ts s s'"
proof -
  let ?s0 = "insert_nodes now ts s"
  let ?linked = "fold link_task ts ?s0"
  let ?done = "done_at s"
  from assms(1) have tasks: "check_tasks (map fst (sc_nodes s)) [] ts = None"
    and deps: "check_dependencies (map fst (sc_nodes s) @ map ts_id ts) ts = None"
    and nocycle: "\<not> graph_has_cycle ?linked" and s': "s' = fold settle_task ts ?linked"
    by (auto simp: submit_batch_def Let_def split: if_splits option.splits)
  from check_tasks_None [OF tasks] have dist: "distinct (map ts_id ts)" and nz: "0 \<notin> ts_id ` set ts"
    and fresh: "ts_id ` set ts \<inter> fst ` set (sc_nodes s) = {}" by auto
  have known: "d \<in> fst ` set (sc_nodes s) \<union> ts_id ` set ts"
    if "t \<in> set ts" "d \<in> set (ts_dependencies t)" for t d
    using check_dependencies_None [OF deps that] by auto
  have old: "node_of s y = None" if "y \<in> ts_id ` set ts" for y
    using that fresh by (auto simp: map_of_eq_None_iff)
  have node0: "node_of ?s0 y = (case List.find (\<lambda>t. ts_id t = y) ts of
      Some t \<Rightarrow> Some (new_node now t) | None \<Rightarrow> node_of s y)" for y
    using old [of y] find_id_None [of y ts]
    by (cases "List.find (\<lambda>t. ts_id t = y) ts"; cases "node_of s y")
      (auto simp: insert_nodes_def map_add_def map_of_new_nodes)
  have ex0: "node_of ?s0 d \<noteq> None" if "d \<in> fst ` set (sc_nodes s) \<union> ts_id ` set ts" for d
    using that find_id_None [of d ts] map_of_eq_None_iff [of "sc_nodes s" d]
    by (auto simp: node0 split: option.splits)
  have fin0: "done_at ?s0 = done_at s"
  proof
    fix d show "done_at ?s0 d = done_at s d"
      using old [of d] find_id_None [of d ts]
      by (auto simp: done_at_def node0 new_node_def split: option.splits)
  qed
  have count0: "unresolved_count ?s0 = unresolved_count s"
    by (rule ext) (simp add: unresolved_count_def fin0)
  from fold_link_spec [of ts ?s0, unfolded count0, OF ex0 [OF known] dist]
  have frame: "same_frame ?s0 ?linked"
    and node1: "\<And>y. node_of ?linked y =
      map_option (\<lambda>n. (case List.find (\<lambda>t. ts_id t = y) ts of
          None \<Rightarrow> id | Some t \<Rightarrow> set_unresolved (word_of_nat (unresolved_count s t)))
        (add_successors (new_successors ts y) n)) (node_of ?s0 y)"
    by simp_all
  have ready0: "sc_ready ?linked = sc_ready s"
    and keys0: "map fst (sc_nodes ?linked) = map fst (sc_nodes s) @ map ts_id ts"
    and res0: "sc_reserved_cpu ?linked = sc_reserved_cpu s"
      "sc_reserved_memory ?linked = sc_reserved_memory s"
    using frame by (simp_all add: same_frame_def insert_nodes_def comp_def)
  have node2: "node_of ?linked y = (case List.find (\<lambda>t. ts_id t = y) ts of
      Some t \<Rightarrow> Some (set_unresolved (word_of_nat (unresolved_count s t))
        (add_successors (new_successors ts y) (new_node now t)))
      | None \<Rightarrow> map_option (add_successors (new_successors ts y)) (node_of s y))" for y
    by (simp add: node1 node0 split: option.splits)
  have ex1: "node_of ?linked (ts_id t) \<noteq> None" if "t \<in> set ts" for t
    by (simp add: node2 find_id_member [OF dist that])
  note settle = fold_settle_spec [OF dist ex1, unfolded ready0 keys0 res0, OF _ ready]
  have node: "node_of s' y = (case List.find (\<lambda>t. ts_id t = y) ts of
          Some t \<Rightarrow> Some (submitted_node now ts s t)
        | None \<Rightarrow> map_option (add_successors (new_successors ts y)) (node_of s y))" for y
  proof (cases "List.find (\<lambda>t. ts_id t = y) ts")
    case None
    with settle find_id_None [of y ts] show ?thesis by (simp add: s' node2)
  next
    case (Some t)
    then have "y \<in> ts_id ` set ts" and "ts_id t = y" using find_id_SomeD by blast+
    with settle Some show ?thesis by (simp add: s' node2 submitted_node_def)
  qed
  have succs: "successors_of s' = successors_of ?linked"
    by (rule ext) (auto simp: successors_of_def node node2 set_unresolved_def new_node_def
        dest: find_id_SomeD split: option.splits)
  have rdy: "{x. x \<in> ts_id ` set ts \<and> (\<exists>n. node_of ?linked x = Some n \<and> as_unresolved (nd_snapshot n) = 0)}
    = {ts_id t | t. t \<in> set ts \<and> word_of_nat (unresolved_count s t) = (0 :: u32)}"
    by (auto simp: node2 find_id_member [OF dist] set_unresolved_def) blast
  have acyc: "acyclic (edges (successors_of s'))"
    using nocycle graph_has_cycle_iff [of ?linked] by (simp add: succs acyclic_def)
  show ?thesis
    unfolding submitted_def using dist nz fresh known acyc settle node
    by (auto simp: s' rdy)
qed

end
