(* ===== verification/Scheduler_Inv.thy ===== *)
theory Scheduler_Inv
  imports Scheduler_Submit "HOL-Library.Multiset"
begin

text \<open>
  The scheduler as a transition system: the operations that clients and workers call in any order,
  and the iteration order of the containers, which may change at any time. \<open>sched_ok\<close> is the
  invariant of every reachable state; it covers the graph, the ready queue and the release of
  resources. The stronger invariants of \<^verbatim>\<open>Scheduler_Careful\<close> need guards on the callers.
\<close>

section \<open>Operations and reachable states\<close>

datatype sched_op =
    Do_submit nat "agent_task_spec list"
  | Do_spawn nat agent_id agent_task_spec
  | Do_dispatch memory_snapshot nat
  | Do_mark_running nat agent_id i64
  | Do_mark_blocked agent_id
  | Do_wake agent_id
  | Do_complete nat agent_id
  | Do_fail nat agent_id string
  | Do_cancel nat agent_id
  | Do_bind_context agent_id context_id
  | Do_bind_process agent_id i64
  | Do_record_metrics agent_id performance_metrics
  | Reorder "(agent_id \<times> sched_node) list" "agent_id list"

fun run_op :: "sched_op \<Rightarrow> scheduler \<Rightarrow> scheduler" where
  "run_op (Do_submit now ts) s = snd (submit_batch now ts s)"
| "run_op (Do_spawn now p t) s = snd (spawn now p t s)"
| "run_op (Do_dispatch m now) s = snd (try_dispatch m now s)"
| "run_op (Do_mark_running now x pid) s = snd (mark_running now x pid s)"
| "run_op (Do_mark_blocked x) s = snd (mark_blocked x s)"
| "run_op (Do_wake x) s = snd (wake x s)"
| "run_op (Do_complete now x) s = snd (complete now x s)"
| "run_op (Do_fail now x e) s = snd (fail now x e s)"
| "run_op (Do_cancel now x) s = snd (cancel now x s)"
| "run_op (Do_bind_context x c) s = snd (bind_context x c s)"
| "run_op (Do_bind_process x pid) s = snd (bind_process x pid s)"
| "run_op (Do_record_metrics x m) s = snd (record_metrics x m s)"
| "run_op (Reorder ns rs) s =
     (if mset ns = mset (sc_nodes s) \<and> mset rs = mset (sc_ready s)
      then s\<lparr>sc_nodes := ns, sc_ready := rs\<rparr> else s)"

inductive reachable :: "(sched_op \<Rightarrow> scheduler \<Rightarrow> bool) \<Rightarrow> scheduler \<Rightarrow> bool"
  for guard :: "sched_op \<Rightarrow> scheduler \<Rightarrow> bool" where
  initial: "reachable guard empty_scheduler"
| operation: "reachable guard s \<Longrightarrow> guard op s \<Longrightarrow> reachable guard (run_op op s)"

section \<open>The invariant\<close>

definition waiting_to_run :: "agent_state \<Rightarrow> bool" where
  "waiting_to_run st \<longleftrightarrow> st = Ready \<or> st = Waiting_resource"

lemma waiting_to_run_simps [simp]:
  "waiting_to_run Ready" "waiting_to_run Waiting_resource"
  "\<not> waiting_to_run Created" "\<not> waiting_to_run Waiting_dependency" "\<not> waiting_to_run Dispatched"
  "\<not> waiting_to_run Running" "\<not> waiting_to_run Blocked" "\<not> waiting_to_run Suspended"
  "\<not> waiting_to_run Completed" "\<not> waiting_to_run Failed" "\<not> waiting_to_run Cancelled"
  by (simp_all add: waiting_to_run_def)

lemma waiting_not_terminal: "waiting_to_run st \<Longrightarrow> \<not> is_terminal st"
  by (auto simp: waiting_to_run_def)

text \<open>
  The graph: ids are keys and not 0, dependencies and successors exist, \<open>x\<close> is a successor of \<open>d\<close>
  as often as \<open>d\<close> is a dependency of \<open>x\<close>, and there is no cycle.
\<close>

definition graph_ok :: "scheduler \<Rightarrow> bool" where
  "graph_ok s \<longleftrightarrow>
     distinct (map fst (sc_nodes s)) \<and>
     (\<forall>x n. node_of s x = Some n \<longrightarrow> x \<noteq> 0 \<and> ts_id (nd_spec n) = x \<and>
        (\<forall>d \<in> set (ts_dependencies (nd_spec n)). node_of s d \<noteq> None) \<and>
        (\<forall>y \<in> set (nd_successors n). node_of s y \<noteq> None) \<and>
        (\<forall>y m. node_of s y = Some m \<longrightarrow>
           count_list (nd_successors n) y = count_list (ts_dependencies (nd_spec m)) x)) \<and>
     acyclic (edges (successors_of s))"

lemma graph_okD:
  assumes "graph_ok s" and "node_of s x = Some n"
  shows "x \<noteq> 0" "ts_id (nd_spec n) = x"
    "d \<in> set (ts_dependencies (nd_spec n)) \<Longrightarrow> node_of s d \<noteq> None"
    "y \<in> set (nd_successors n) \<Longrightarrow> node_of s y \<noteq> None"
    "node_of s y = Some m \<Longrightarrow>
      count_list (nd_successors n) y = count_list (ts_dependencies (nd_spec m)) x"
  using assms unfolding graph_ok_def by blast+

definition ready_exact :: "scheduler \<Rightarrow> bool" where
  "ready_exact s \<longleftrightarrow>
     distinct (sc_ready s) \<and>
     (\<forall>x. x \<in> set (sc_ready s) \<longleftrightarrow> (\<exists>n. node_of s x = Some n \<and> waiting_to_run (nd_state n)))"

definition node_ok :: "sched_node \<Rightarrow> bool" where
  "node_ok n \<longleftrightarrow> nd_state n \<noteq> Created \<and> (is_terminal (nd_state n) \<longrightarrow> \<not> nd_reserved n)"

definition sched_ok :: "scheduler \<Rightarrow> bool" where
  "sched_ok s \<longleftrightarrow> graph_ok s \<and> ready_exact s \<and> (\<forall>x n. node_of s x = Some n \<longrightarrow> node_ok n)"

lemma sched_okD:
  assumes "sched_ok s"
  shows "graph_ok s" "ready_exact s" "node_of s x = Some n \<Longrightarrow> node_ok n"
  using assms by (auto simp: sched_ok_def)

section \<open>Updates of one node\<close>

text \<open>
  Most operations, and the steps of the others, replace one node and adjust the ready queue to it.
\<close>

definition point_update :: "agent_id \<Rightarrow> sched_node \<Rightarrow> sched_node \<Rightarrow> scheduler \<Rightarrow> scheduler \<Rightarrow> bool" where
  "point_update x n n' s s' \<longleftrightarrow>
     node_of s x = Some n \<and> map fst (sc_nodes s') = map fst (sc_nodes s) \<and>
     (\<forall>y. node_of s' y = (if y = x then Some n' else node_of s y)) \<and>
     nd_spec n' = nd_spec n \<and> nd_successors n' = nd_successors n \<and>
     (distinct (sc_ready s) \<longrightarrow> distinct (sc_ready s')) \<and>
     set (sc_ready s') = (if waiting_to_run (nd_state n') then insert x (set (sc_ready s))
                          else set (sc_ready s) - {x})"

lemma point_update_successors: "point_update x n n' s s' \<Longrightarrow> successors_of s' = successors_of s"
  by (rule ext) (auto simp: point_update_def successors_of_def)

lemma point_update_graph:
  assumes p: "point_update x n n' s s'" and g: "graph_ok s"
  shows "graph_ok s'"
proof -
  have node: "node_of s' y = (if y = x then Some n' else node_of s y)" for y
    using p by (simp add: point_update_def)
  have old: "\<exists>m. node_of s y = Some m \<and> nd_spec m' = nd_spec m \<and> nd_successors m' = nd_successors m"
    if "node_of s' y = Some m'" for y m'
    using that p by (auto simp: node point_update_def split: if_splits)
  have dom: "node_of s' y = None \<longleftrightarrow> node_of s y = None" for y
    using p by (auto simp: node point_update_def)
  have keys: "map fst (sc_nodes s') = map fst (sc_nodes s)" using p by (simp add: point_update_def)
  show ?thesis
    unfolding graph_ok_def keys point_update_successors [OF p]
  proof (intro conjI allI impI)
    fix y m' assume "node_of s' y = Some m'"
    then obtain m where m: "node_of s y = Some m" "nd_spec m' = nd_spec m"
      "nd_successors m' = nd_successors m" using old by blast
    note facts = graph_okD [OF g m(1)]
    show "y \<noteq> 0" "ts_id (nd_spec m') = y"
      "\<forall>d \<in> set (ts_dependencies (nd_spec m')). node_of s' d \<noteq> None"
      "\<forall>z \<in> set (nd_successors m'). node_of s' z \<noteq> None"
      unfolding dom m using facts(1-4) by blast+
    fix z k' assume "node_of s' z = Some k'"
    then obtain k where "node_of s z = Some k" "nd_spec k' = nd_spec k" using old by blast
    with facts(5) show "count_list (nd_successors m') z = count_list (ts_dependencies (nd_spec k')) y"
      unfolding m by simp
  qed (use g in \<open>simp_all add: graph_ok_def\<close>)
qed

lemma point_update_ready:
  assumes p: "point_update x n n' s s'" and r: "ready_exact s"
  shows "ready_exact s'"
proof -
  have "y \<in> set (sc_ready s') \<longleftrightarrow> (\<exists>m. node_of s' y = Some m \<and> waiting_to_run (nd_state m))" for y
    using p r by (auto simp: point_update_def ready_exact_def split: if_splits)
  with p r show ?thesis by (simp add: point_update_def ready_exact_def)
qed

lemma point_update_ok:
  assumes "point_update x n n' s s'" and "sched_ok s" and "node_ok n'"
  shows "sched_ok s'"
proof -
  have "node_ok m" if "node_of s' y = Some m" for y m
    using assms that by (auto simp: point_update_def sched_ok_def split: if_splits)
  with assms show ?thesis
    by (auto simp: sched_ok_def intro: point_update_graph point_update_ready)
qed

lemma point_update_ready_member:
  assumes "ready_exact s" and "node_of s x = Some n"
  shows "x \<in> set (sc_ready s) \<longleftrightarrow> waiting_to_run (nd_state n)"
  using assms by (auto simp: ready_exact_def)

text \<open>An update that keeps the agent in or out of the queue.\<close>

lemma point_update_snapshot:
  assumes "sched_ok s" and "node_of s x = Some n"
    and "as_spec (f (nd_snapshot n)) = nd_spec n"
    and "waiting_to_run (as_state (f (nd_snapshot n))) = waiting_to_run (nd_state n)"
  shows "point_update x n (n\<lparr>nd_snapshot := f (nd_snapshot n)\<rparr>) s (update_snapshot x f s)"
  using assms point_update_ready_member [OF sched_okD(2) [OF assms(1)] assms(2)]
  by (auto simp: point_update_def sched_simps)

text \<open>A new state, the bookkeeping that goes with it, and the release of the reservation.\<close>

lemma point_update_remove:
  assumes "node_of s x = Some n" and "as_spec (f (nd_snapshot n)) = nd_spec n"
    and "as_spec (g (f (nd_snapshot n))) = nd_spec n"
    and "\<not> waiting_to_run (as_state (g (f (nd_snapshot n))))"
    and "x \<notin> set (sc_ready s)"
  shows "point_update x n (n\<lparr>nd_snapshot := g (f (nd_snapshot n)), nd_reserved := False\<rparr>) s
    (release_resources x (update_snapshot x g (update_snapshot x f s)))"
  using assms by (auto simp: point_update_def sched_simps)

lemma point_update_cancel_node:
  assumes "node_of s x = Some n"
  shows "point_update x n (n\<lparr>nd_snapshot := (nd_snapshot n)\<lparr>as_state := Cancelled,
        as_error := reason @ '': '' @ u64_to_string parent, as_finished_at := now\<rparr>,
        nd_reserved := False\<rparr>) s (cancel_node now reason parent x s)"
  using assms by (auto simp: point_update_def sched_simps distinct_removeAll)

lemma cancel_node_ok:
  assumes "sched_ok s" and "node_of s x = Some n"
  shows "sched_ok (cancel_node now reason parent x s)"
  by (rule point_update_ok [OF point_update_cancel_node [OF assms(2)] assms(1)])
    (simp add: node_ok_def)

lemma cancel_descendants_ok: "sched_ok s \<Longrightarrow> sched_ok (cancel_descendants now reason parent xs s)"
  by (rule cancel_descendants_preserves) (auto intro: cancel_node_ok)

section \<open>Each operation preserves the invariant\<close>

lemma map_entry_twice: "AList.map_entry k g (AList.map_entry k f al) = AList.map_entry k (g \<circ> f) al"
  by (induction al) auto

lemma update_snapshot_twice:
  "update_snapshot x g (update_snapshot x f s) = update_snapshot x (g \<circ> f) s"
  unfolding update_snapshot_def update_node_def by (simp add: map_entry_twice comp_def)

lemma transition_then_snd:
  "snd (transition_then x n next rest s) =
     (if allowed_transition (nd_state n) next
      then rest (update_snapshot x (\<lambda>sn. sn\<lparr>as_state := next\<rparr>) s) else s)"
  by (simp add: transition_then_def transition_locked_def)

lemma transition_then_fst:
  "fst (transition_then x n next rest s) = Inr () \<longleftrightarrow> allowed_transition (nd_state n) next"
  by (simp add: transition_then_def transition_locked_def)

text \<open>An update that ends in a state outside the queue, for an agent that is not in it.\<close>

lemma plain_update_ok:
  assumes ok: "sched_ok s" and n: "node_of s x = Some n"
    and "as_spec (f (nd_snapshot n)) = nd_spec n"
    and "waiting_to_run (as_state (f (nd_snapshot n))) = waiting_to_run (nd_state n)"
    and "node_ok (n\<lparr>nd_snapshot := f (nd_snapshot n)\<rparr>)"
  shows "sched_ok (update_snapshot x f s)"
  by (rule point_update_ok [OF point_update_snapshot [of s x n f, OF ok n assms(3,4)] ok assms(5)])

lemma point_update_enqueue:
  assumes n: "node_of s x = Some n"
    and "as_spec (f (nd_snapshot n)) = nd_spec n" and "waiting_to_run (as_state (f (nd_snapshot n)))"
  shows "point_update x n (n\<lparr>nd_snapshot := f (nd_snapshot n)\<rparr>) s (ready_insert x (update_snapshot x f s))"
  using assms by (auto simp: point_update_def sched_simps) (simp add: ready_insert_def sched_simps)

lemma enqueue_update_ok:
  assumes ok: "sched_ok s" and n: "node_of s x = Some n"
    and "as_spec (f (nd_snapshot n)) = nd_spec n" and "waiting_to_run (as_state (f (nd_snapshot n)))"
  shows "sched_ok (ready_insert x (update_snapshot x f s))"
  using assms(3,4) waiting_not_terminal
  by (intro point_update_ok [OF point_update_enqueue [of s x n f, OF n assms(3,4)] ok])
    (auto simp: node_ok_def)

lemma mark_running_ok: "sched_ok s \<Longrightarrow> sched_ok (snd (mark_running now x pid s))"
  by (auto simp: mark_running_def transition_then_snd update_snapshot_twice allowed_transition_def
      node_ok_def intro!: plain_update_ok split: option.splits)

lemma mark_blocked_ok: "sched_ok s \<Longrightarrow> sched_ok (snd (mark_blocked x s))"
  by (auto simp: mark_blocked_def transition_then_snd allowed_transition_def
      node_ok_def intro!: plain_update_ok split: option.splits)

lemma wake_ok: "sched_ok s \<Longrightarrow> sched_ok (snd (wake x s))"
  by (auto simp: wake_def transition_then_snd allowed_transition_def
      intro!: enqueue_update_ok split: option.splits)

lemma update_live_ok:
  assumes "sched_ok s" and "\<And>sn. as_spec (f sn) = as_spec sn \<and> as_state (f sn) = as_state sn"
  shows "sched_ok (snd (update_live e f x s))"
  using assms(1) sched_okD(3) [OF assms(1)]
  by (auto simp: update_live_def assms(2) node_ok_def intro!: plain_update_ok split: option.splits)

lemma notify_successor_ok:
  assumes ok: "sched_ok s"
  shows "sched_ok (notify_successor y s)"
proof (cases "node_of s y")
  case (Some n)
  have "node_ok (n\<lparr>nd_snapshot := (nd_snapshot n)\<lparr>as_unresolved := u\<rparr>\<rparr>)" for u
    using sched_okD(3) [OF ok Some] by (simp add: node_ok_def)
  with ok Some show ?thesis
    by (auto simp: notify_successor_def Let_def enqueue_ready_def update_snapshot_twice
        intro!: plain_update_ok enqueue_update_ok)
qed (simp add: notify_successor_def ok)

lemma fold_notify_ok: "sched_ok s \<Longrightarrow> sched_ok (fold notify_successor ys s)"
  by (induction ys arbitrary: s) (simp_all add: notify_successor_ok)

text \<open>Leaving the queue for good: the new state is terminal and the reservation is released.\<close>

lemma retire_ok:
  assumes ok: "sched_ok s" and n: "node_of s x = Some n" and "\<not> waiting_to_run (nd_state n)"
    and "as_spec (f (nd_snapshot n)) = nd_spec n" and "is_terminal (as_state (f (nd_snapshot n)))"
  shows "sched_ok (release_resources x (update_snapshot x f s))"
proof -
  have nw: "\<not> waiting_to_run (as_state (f (nd_snapshot n)))"
    using assms(5) waiting_not_terminal by blast
  have "x \<notin> set (sc_ready s)"
    using point_update_ready_member [OF sched_okD(2) [OF ok] n] assms(3) by simp
  with n nw assms(4) have "point_update x n (n\<lparr>nd_snapshot := f (nd_snapshot n), nd_reserved := False\<rparr>) s
      (release_resources x (update_snapshot x f s))"
    by (auto simp: point_update_def sched_simps)
  from point_update_ok [OF this ok] show ?thesis
    using assms(5) by (auto simp: node_ok_def is_terminal_def)
qed

lemma complete_ok: "sched_ok s \<Longrightarrow> sched_ok (snd (complete now x s))"
  by (auto simp: complete_def transition_then_snd update_snapshot_twice allowed_transition_def
      intro!: fold_notify_ok retire_ok split: option.splits)

lemma release_ok:
  assumes ok: "sched_ok s"
  shows "sched_ok (release_resources x s)"
proof (cases "node_of s x")
  case (Some n)
  have "point_update x n (n\<lparr>nd_reserved := False\<rparr>) s (release_resources x s)"
    using Some point_update_ready_member [OF sched_okD(2) [OF ok] Some]
    by (auto simp: point_update_def sched_simps)
  from point_update_ok [OF this ok] sched_okD(3) [OF ok Some] show ?thesis
    by (simp add: node_ok_def)
qed (simp add: release_resources_def ok)

lemma fail_ok: "sched_ok s \<Longrightarrow> sched_ok (snd (fail now x e s))"
proof -
  assume ok: "sched_ok s"
  show ?thesis
  proof (cases "node_of s x")
    case (Some n)
    have r: "sched_ok (release_resources x s)" by (rule release_ok [OF ok])
    have nr: "node_of (release_resources x s) x = Some (n\<lparr>nd_reserved := False\<rparr>)"
      using Some by (simp add: sched_simps)
    have retry: "sched_ok (ready_insert x (update_snapshot x f (release_resources x s)))"
      if "as_spec (f (nd_snapshot n)) = nd_spec n" "as_state (f (nd_snapshot n)) = Ready" for f
      using enqueue_update_ok [OF r nr, of f] that by simp
    have fail: "sched_ok (cancel_descendants now ''dependency agent failed'' x (nd_successors n)
        (update_snapshot x g (release_resources x s)))"
      if "allowed_transition (nd_state n) Failed" "as_spec (g (nd_snapshot n)) = nd_spec n"
        "as_state (g (nd_snapshot n)) = Failed" for g
      using that
      by (intro cancel_descendants_ok plain_update_ok [OF r nr])
        (auto simp: allowed_transition_def node_ok_def)
    show ?thesis
      using Some r by (auto simp: fail_def Let_def transition_then_snd update_snapshot_twice
          intro!: retry fail)
  qed (simp add: fail_def ok)
qed

lemma cancel_ok: "sched_ok s \<Longrightarrow> sched_ok (snd (cancel now x s))"
proof -
  assume ok: "sched_ok s"
  show ?thesis
  proof (cases "node_of s x")
    case (Some n)
    let ?f = "\<lambda>sn. sn\<lparr>as_state := Cancelled, as_finished_at := now\<rparr>"
    let ?s = "update_snapshot x (\<lambda>sn. sn\<lparr>as_finished_at := now\<rparr>) (release_resources x
        (ready_erase x (update_snapshot x (\<lambda>sn. sn\<lparr>as_state := Cancelled\<rparr>) s)))"
    have "point_update x n (n\<lparr>nd_snapshot := ?f (nd_snapshot n), nd_reserved := False\<rparr>) s ?s"
      using Some by (auto simp: point_update_def sched_simps distinct_removeAll)
    from point_update_ok [OF this ok] have "sched_ok ?s" by (simp add: node_ok_def)
    with Some ok show ?thesis
      by (auto simp: cancel_def transition_then_snd intro: cancel_descendants_ok)
  qed (simp add: cancel_def ok)
qed

section \<open>The dispatch scan\<close>

text \<open>The state that the scan gives to each agent it looks at.\<close>

definition scanned :: "memory_snapshot \<Rightarrow> scheduler \<Rightarrow> sched_node \<Rightarrow> sched_node" where
  "scanned m s n = set_state
     (if fits_resources m (sc_reserved_cpu s) (sc_reserved_memory s) n then Ready
      else Waiting_resource) n"

text \<open>The agents that can be dispatched, and their scores.\<close>

definition candidate :: "memory_snapshot \<Rightarrow> scheduler \<Rightarrow> agent_id \<Rightarrow> bool" where
  "candidate m s x \<longleftrightarrow> (case node_of s x of None \<Rightarrow> False
     | Some n \<Rightarrow> fits_resources m (sc_reserved_cpu s) (sc_reserved_memory s) n)"

definition score_of :: "nat \<Rightarrow> scheduler \<Rightarrow> agent_id \<Rightarrow> int" where
  "score_of now s x = (case node_of s x of None \<Rightarrow> 0 | Some n \<Rightarrow> dispatch_score now n)"

text \<open>
  The choice that the scan makes among \<open>xs\<close>, given the choice so far: keep it when no candidate is
  better, or take a best one.
\<close>

definition best_choice ::
  "memory_snapshot \<Rightarrow> nat \<Rightarrow> scheduler \<Rightarrow> agent_id list \<Rightarrow> agent_id \<Rightarrow> int \<Rightarrow> agent_id \<Rightarrow> bool" where
  "best_choice m now s xs selected best x \<longleftrightarrow>
     (x = selected \<and> (\<forall>y \<in> set xs. candidate m s y \<longrightarrow> selected \<noteq> 0 \<and> score_of now s y \<le> best)) \<or>
     (x \<in> set xs \<and> candidate m s x \<and> (selected \<noteq> 0 \<longrightarrow> best < score_of now s x) \<and>
      (\<forall>y \<in> set xs. candidate m s y \<longrightarrow> score_of now s y \<le> score_of now s x))"

lemma set_state_simps [simp]:
  "nd_state (set_state st n) = st" "nd_spec (set_state st n) = nd_spec n"
  "nd_successors (set_state st n) = nd_successors n" "nd_reserved (set_state st n) = nd_reserved n"
  "as_created_at (nd_snapshot (set_state st n)) = as_created_at (nd_snapshot n)"
  "as_unresolved (nd_snapshot (set_state st n)) = as_unresolved (nd_snapshot n)"
  by (simp_all add: set_state_def)

lemma set_state_same: "nd_state n = st \<Longrightarrow> set_state st n = n"
  by (auto simp: set_state_def)

lemma fits_set_state [simp]: "fits_resources m c r (set_state st n) = fits_resources m c r n"
  by (simp add: fits_resources_def)

lemma update_state_set_state:
  "(\<lambda>n. n\<lparr>nd_snapshot := (nd_snapshot n)\<lparr>as_state := st\<rparr>\<rparr>) = set_state st"
  by (rule ext) (simp add: set_state_def)

text \<open>One step of the scan.\<close>

definition scan_one :: "memory_snapshot \<Rightarrow> agent_id \<Rightarrow> sched_node \<Rightarrow> scheduler \<Rightarrow> scheduler" where
  "scan_one m x n s =
     (if \<not> fits_resources m (sc_reserved_cpu s) (sc_reserved_memory s) n
      then update_snapshot x (\<lambda>sn. sn\<lparr>as_state := Waiting_resource\<rparr>) s
      else if nd_state n = Waiting_resource
      then update_snapshot x (\<lambda>sn. sn\<lparr>as_state := Ready\<rparr>) s else s)"

lemma scan_one_spec:
  assumes "node_of s x = Some n" and "waiting_to_run (nd_state n)"
  shows "same_frame s (scan_one m x n s)"
    and "node_of (scan_one m x n s) y = (if y = x then Some (scanned m s n) else node_of s y)"
  using assms
  by (auto simp: scan_one_def scanned_def sched_simps set_state_def waiting_to_run_def)

lemma dispatch_scan_Cons:
  assumes "node_of s x = Some n"
  shows "dispatch_scan m now (x # xs) selected best s =
    (if fits_resources m (sc_reserved_cpu s) (sc_reserved_memory s) n \<and>
        (selected = 0 \<or> dispatch_score now n > best)
     then dispatch_scan m now xs x (dispatch_score now n) (scan_one m x n s)
     else dispatch_scan m now xs selected best (scan_one m x n s))"
  using assms by (simp add: scan_one_def Let_def)

lemma dispatch_scan_spec:
  assumes "distinct xs" and "0 \<notin> set xs"
    and "\<And>x. x \<in> set xs \<Longrightarrow> \<exists>n. node_of s x = Some n \<and> waiting_to_run (nd_state n)"
  shows "same_frame s (snd (dispatch_scan m now xs selected best s)) \<and>
    (\<forall>y. node_of (snd (dispatch_scan m now xs selected best s)) y =
      (if y \<in> set xs then map_option (scanned m s) (node_of s y) else node_of s y)) \<and>
    best_choice m now s xs selected best (fst (dispatch_scan m now xs selected best s))"
  using assms
proof (induction xs arbitrary: selected best s)
  case Nil
  then show ?case by (simp add: best_choice_def)
next
  case (Cons x xs)
  from Cons.prems(3) [of x] obtain n where n: "node_of s x = Some n" and w: "waiting_to_run (nd_state n)"
    by auto
  let ?s = "scan_one m x n s"
  have frame: "same_frame s ?s" and node: "\<And>y. node_of ?s y = (if y = x then Some (scanned m s n) else node_of s y)"
    by (simp_all only: scan_one_spec [OF n w])
  have res: "sc_reserved_cpu ?s = sc_reserved_cpu s" "sc_reserved_memory ?s = sc_reserved_memory s"
    using frame by (simp_all add: same_frame_def)
  have scan: "scanned m ?s = scanned m s" by (rule ext) (simp add: scanned_def res)
  have cand: "candidate m ?s = candidate m s"
    unfolding candidate_def res using n by (auto simp: node scanned_def fun_eq_iff)
  have score: "score_of now ?s = score_of now s"
    using n by (auto simp: score_of_def node scanned_def dispatch_score_def fun_eq_iff)
  from Cons.prems have dist: "distinct xs" "0 \<notin> set xs" "x \<notin> set xs" "x \<noteq> 0" by auto
  have ex: "\<exists>n. node_of ?s y = Some n \<and> waiting_to_run (nd_state n)" if "y \<in> set xs" for y
    using Cons.prems(3) [of y] that dist by (auto simp: node)
  have ih: "same_frame ?s (snd (dispatch_scan m now xs sel b ?s))"
    "node_of (snd (dispatch_scan m now xs sel b ?s)) y =
      (if y \<in> set xs then map_option (scanned m s) (node_of ?s y) else node_of ?s y)"
    "best_choice m now s xs sel b (fst (dispatch_scan m now xs sel b ?s))" for sel b y
    using Cons.IH [OF dist(1,2) ex, of sel b]
    unfolding best_choice_def cand score scan by blast+
  have frame': "same_frame s (snd (dispatch_scan m now xs sel b ?s))" for sel b
    by (rule same_frame_trans [OF frame ih(1)])
  have node': "node_of (snd (dispatch_scan m now xs sel b ?s)) y =
      (if y \<in> set (x # xs) then map_option (scanned m s) (node_of s y) else node_of s y)" for sel b y
    using dist n by (simp add: ih(2) node)
  have cx: "candidate m s x \<longleftrightarrow> fits_resources m (sc_reserved_cpu s) (sc_reserved_memory s) n"
    and sx: "score_of now s x = dispatch_score now n"
    using n by (simp_all add: candidate_def score_of_def)
  have choice: "best_choice m now s (x # xs) selected best
      (fst (dispatch_scan m now (x # xs) selected best s))"
  proof (cases "candidate m s x \<and> (selected = 0 \<or> score_of now s x > best)")
    case True
    with ih(3) [of x "score_of now s x"] dist show ?thesis
      unfolding dispatch_scan_Cons [OF n] cx [symmetric] sx [symmetric] best_choice_def by force
  next
    case False
    with ih(3) [of selected best] show ?thesis
      unfolding dispatch_scan_Cons [OF n] cx [symmetric] sx [symmetric] best_choice_def
      by (auto split: if_splits)
  qed
  from frame' node' choice show ?case
    unfolding dispatch_scan_Cons [OF n] by (auto split: if_splits)
qed

text \<open>What dispatching does to a state that satisfies the invariant.\<close>

lemma dispatch_cases:
  assumes ok: "sched_ok s"
  shows dispatch_none: "dispatch_locked m now s = (None, s') \<Longrightarrow> same_frame s s' \<and>
    (\<forall>y. node_of s' y =
      (if y \<in> set (sc_ready s) then map_option (scanned m s) (node_of s y) else node_of s y)) \<and>
    (\<forall>y \<in> set (sc_ready s). \<not> candidate m s y)"
    and dispatch_some: "dispatch_locked m now s = (Some x, s') \<Longrightarrow>
    \<exists>n s1. node_of s x = Some n \<and> x \<in> set (sc_ready s) \<and> candidate m s x \<and>
      (\<forall>y \<in> set (sc_ready s). candidate m s y \<longrightarrow> score_of now s y \<le> score_of now s x) \<and>
      same_frame s s1 \<and>
      (\<forall>y. node_of s1 y =
        (if y \<in> set (sc_ready s) then map_option (scanned m s) (node_of s y) else node_of s y)) \<and>
      s' = reserve_node x (scanned m s n) s1"
proof -
  obtain sel s1 where scan: "dispatch_scan m now (sc_ready s) 0 (- (2 ^ 63)) s = (sel, s1)" by fastforce
  have r: "ready_exact s" and g: "graph_ok s" using ok by (simp_all add: sched_ok_def)
  have nz: "0 \<notin> set (sc_ready s)"
    using r graph_okD(1) [OF g] unfolding ready_exact_def by blast
  have ex: "\<exists>n. node_of s y = Some n \<and> waiting_to_run (nd_state n)" if "y \<in> set (sc_ready s)" for y
    using r that unfolding ready_exact_def by blast
  have "distinct (sc_ready s)" using r by (simp add: ready_exact_def)
  from dispatch_scan_spec [OF this nz ex, of m now 0 "- (2 ^ 63)"] scan
  have frame: "same_frame s s1"
    and node: "\<And>y. node_of s1 y =
      (if y \<in> set (sc_ready s) then map_option (scanned m s) (node_of s y) else node_of s y)"
    and choice: "best_choice m now s (sc_ready s) 0 (- (2 ^ 63)) sel"
    by simp_all
  have in_ready: "sel \<in> set (sc_ready s)" if "sel \<noteq> 0"
    using choice that by (auto simp: best_choice_def)
  have found: "\<exists>n. node_of s1 sel = Some n" if "sel \<noteq> 0"
    using in_ready [OF that] ex [of sel] by (auto simp: node)
  {
    assume "dispatch_locked m now s = (None, s')"
    with scan found have "sel = 0" and "s' = s1"
      by (auto simp: dispatch_locked_def split: if_splits option.splits)
    with frame node choice nz show "same_frame s s' \<and>
      (\<forall>y. node_of s' y =
        (if y \<in> set (sc_ready s) then map_option (scanned m s) (node_of s y) else node_of s y)) \<and>
      (\<forall>y \<in> set (sc_ready s). \<not> candidate m s y)"
      by (auto simp: best_choice_def)
  next
    assume "dispatch_locked m now s = (Some x, s')"
    with scan have sel: "sel = x" "x \<noteq> 0" and s': "\<exists>n'. node_of s1 x = Some n' \<and> s' = reserve_node x n' s1"
      by (auto simp: dispatch_locked_def split: if_splits option.splits)
    from in_ready sel have rx: "x \<in> set (sc_ready s)" by simp
    with ex obtain n where n: "node_of s x = Some n" by blast
    with s' rx have "s' = reserve_node x (scanned m s n) s1" by (simp add: node)
    moreover have "candidate m s x"
      "\<forall>y \<in> set (sc_ready s). candidate m s y \<longrightarrow> score_of now s y \<le> score_of now s x"
      using choice sel by (auto simp: best_choice_def)
    ultimately show "\<exists>n s1. node_of s x = Some n \<and> x \<in> set (sc_ready s) \<and> candidate m s x \<and>
      (\<forall>y \<in> set (sc_ready s). candidate m s y \<longrightarrow> score_of now s y \<le> score_of now s x) \<and>
      same_frame s s1 \<and>
      (\<forall>y. node_of s1 y =
        (if y \<in> set (sc_ready s) then map_option (scanned m s) (node_of s y) else node_of s y)) \<and>
      s' = reserve_node x (scanned m s n) s1"
      using n rx frame node by blast
  }
qed

text \<open>The scan alone keeps the invariant.\<close>

lemma scanned_ok:
  assumes ok: "sched_ok s" and frame: "same_frame s s1"
    and node: "\<And>y. node_of s1 y =
      (if y \<in> set (sc_ready s) then map_option (scanned m s) (node_of s y) else node_of s y)"
  shows "sched_ok s1"
proof -
  have g: "graph_ok s" and r: "ready_exact s" using ok by (simp_all add: sched_ok_def)
  have old: "\<exists>n. node_of s y = Some n \<and> nd_spec n' = nd_spec n \<and> nd_successors n' = nd_successors n \<and>
      waiting_to_run (nd_state n') = waiting_to_run (nd_state n) \<and> (n' = n \<or> waiting_to_run (nd_state n'))"
    if "node_of s1 y = Some n'" for y n'
    using that r by (auto simp: node scanned_def ready_exact_def split: if_splits)
  have dom: "node_of s1 y = None \<longleftrightarrow> node_of s y = None" for y by (simp add: node)
  have succs: "successors_of s1 = successors_of s"
    by (rule ext) (auto simp: successors_of_def node scanned_def split: option.splits)
  have keys: "map fst (sc_nodes s1) = map fst (sc_nodes s)" and ready: "sc_ready s1 = sc_ready s"
    using frame by (simp_all add: same_frame_def)
  have "graph_ok s1"
    unfolding graph_ok_def keys succs dom
  proof (intro conjI allI impI ballI)
    show "distinct (map fst (sc_nodes s))" "acyclic (edges (successors_of s))"
      using g by (simp_all add: graph_ok_def)
    fix y n' assume "node_of s1 y = Some n'"
    then obtain n where n: "node_of s y = Some n" "nd_spec n' = nd_spec n" "nd_successors n' = nd_successors n"
      using old by blast
    note facts = graph_okD [OF g n(1)]
    show "y \<noteq> 0" "ts_id (nd_spec n') = y" using facts(1,2) n by simp_all
    show "node_of s d \<noteq> None" if "d \<in> set (ts_dependencies (nd_spec n'))" for d
      using facts(3) that n by simp
    show "node_of s d \<noteq> None" if "d \<in> set (nd_successors n')" for d
      using facts(4) that n by simp
    fix z k' assume "node_of s1 z = Some k'"
    then obtain k where "node_of s z = Some k" "nd_spec k' = nd_spec k" using old by blast
    with facts(5) n show "count_list (nd_successors n') z = count_list (ts_dependencies (nd_spec k')) y"
      by simp
  qed
  moreover have "ready_exact s1"
  proof -
    have "(\<exists>n. node_of s1 y = Some n \<and> waiting_to_run (nd_state n)) \<longleftrightarrow>
        (\<exists>n. node_of s y = Some n \<and> waiting_to_run (nd_state n))" for y
      using old [of y] dom [of y] by (cases "node_of s1 y"; cases "node_of s y") auto
    with r show ?thesis by (simp add: ready_exact_def ready)
  qed
  moreover have "node_ok n'" if "node_of s1 y = Some n'" for y n'
  proof -
    from old [OF that] obtain n where "node_of s y = Some n" "n' = n \<or> waiting_to_run (nd_state n')"
      by blast
    with sched_okD(3) [OF ok] show ?thesis by (auto simp: node_ok_def waiting_to_run_def)
  qed
  ultimately show ?thesis by (simp add: sched_ok_def)
qed

lemma point_update_reserve:
  assumes "node_of s x = Some n"
  shows "point_update x n (n\<lparr>nd_snapshot := (nd_snapshot n)\<lparr>as_state := Dispatched\<rparr>, nd_reserved := True\<rparr>)
    s (reserve_node x n s)"
  using assms by (auto simp: point_update_def reserve_node_def ready_erase_def update_node_def
      map_entry_map_of distinct_removeAll)

lemma dispatch_ok:
  assumes ok: "sched_ok s"
  shows "sched_ok (snd (dispatch_locked m now s))"
proof (cases "dispatch_locked m now s")
  case (Pair r s')
  show ?thesis
  proof (cases r)
    case None
    with dispatch_none [OF ok] Pair have "same_frame s s'"
      "\<And>y. node_of s' y =
        (if y \<in> set (sc_ready s) then map_option (scanned m s) (node_of s y) else node_of s y)"
      by blast+
    from scanned_ok [OF ok this] Pair show ?thesis by simp
  next
    case (Some x)
    from dispatch_some [OF ok] Pair Some obtain n s1 where
      n: "node_of s x = Some n" "x \<in> set (sc_ready s)" and frame: "same_frame s s1"
      and node: "\<And>y. node_of s1 y =
        (if y \<in> set (sc_ready s) then map_option (scanned m s) (node_of s y) else node_of s y)"
      and s': "s' = reserve_node x (scanned m s n) s1" by blast
    have "node_of s1 x = Some (scanned m s n)" using n by (simp add: node)
    from point_update_ok [OF point_update_reserve [OF this] scanned_ok [OF ok frame node]]
    have "sched_ok (reserve_node x (scanned m s n) s1)" by (simp add: node_ok_def)
    with Pair s' show ?thesis by simp
  qed
qed

section \<open>Submission preserves the invariant\<close>

lemma count_list_replicate: "count_list (replicate k x) y = (if x = y then k else 0)"
  by (induction k) auto

lemma count_list_eq_0: "x \<notin> set xs \<Longrightarrow> count_list xs x = 0"
  by (induction xs) auto

lemma count_new_successors:
  "distinct (map ts_id ts) \<Longrightarrow> count_list (new_successors ts y) z =
     (case List.find (\<lambda>t. ts_id t = z) ts of None \<Rightarrow> 0 | Some t \<Rightarrow> count_list (ts_dependencies t) y)"
proof (induction ts)
  case Nil
  then show ?case by (simp add: new_successors_def)
next
  case (Cons t ts)
  have "List.find (\<lambda>u. ts_id u = ts_id t) ts = None"
    using Cons.prems by (auto simp: find_None_iff image_iff)
  with Cons show ?case
    by (auto simp: new_successors_def count_list_replicate split: option.splits)
qed

lemma new_successors_subset: "set (new_successors ts y) \<subseteq> ts_id ` set ts"
  by (auto simp: new_successors_def split: if_splits)

lemma submitted_graph_ok:
  assumes sub: "submitted now ts s s'" and g: "graph_ok s"
  shows "graph_ok s'"
proof -
  let ?f = "\<lambda>y. List.find (\<lambda>t. ts_id t = y) ts"
  have dist: "distinct (map ts_id ts)" and nz: "0 \<notin> ts_id ` set ts"
    and fresh: "ts_id ` set ts \<inter> fst ` set (sc_nodes s) = {}"
    and known: "\<And>t d. t \<in> set ts \<Longrightarrow> d \<in> set (ts_dependencies t) \<Longrightarrow>
      d \<in> fst ` set (sc_nodes s) \<union> ts_id ` set ts"
    and node: "\<And>y. node_of s' y = (case ?f y of Some t \<Rightarrow> Some (submitted_node now ts s t)
        | None \<Rightarrow> map_option (add_successors (new_successors ts y)) (node_of s y))"
    and keys: "map fst (sc_nodes s') = map fst (sc_nodes s) @ map ts_id ts"
    and acyc: "acyclic (edges (successors_of s'))"
    using sub unfolding submitted_def by blast+
  have old: "?f y = None" if "node_of s y \<noteq> None" for y
    using that fresh map_of_eq_None_iff [of "sc_nodes s" y] unfolding find_id_None by auto
  have ex: "node_of s' y \<noteq> None \<longleftrightarrow> node_of s y \<noteq> None \<or> y \<in> ts_id ` set ts" for y
    using find_id_None [of y ts] by (auto simp: node split: option.splits)
  have deps_old: "count_list (ts_dependencies (nd_spec n)) y = 0"
    if "node_of s z = Some n" "node_of s y = None" for z n y
    using graph_okD(3) [OF g that(1), of y] that(2) by (intro count_list_eq_0) auto
  have succs_old: "count_list (nd_successors n) y = 0"
    if "node_of s z = Some n" "node_of s y = None" for z n y
    using graph_okD(4) [OF g that(1), of y] that(2) by (intro count_list_eq_0) auto
  have new: "node_of s y = None" if "?f y = Some t" for y t
    using old [of y] that by (cases "node_of s y") auto
  have cnt: "count_list (new_successors ts y) z =
      (case ?f z of None \<Rightarrow> 0 | Some t \<Rightarrow> count_list (ts_dependencies t) y)" for y z
    by (rule count_new_successors [OF dist])
  have "distinct (map fst (sc_nodes s'))"
    using g dist fresh by (auto simp: keys graph_ok_def)
  moreover have "y \<noteq> 0 \<and> ts_id (nd_spec n) = y \<and>
      (\<forall>d \<in> set (ts_dependencies (nd_spec n)). node_of s' d \<noteq> None) \<and>
      (\<forall>z \<in> set (nd_successors n). node_of s' z \<noteq> None) \<and>
      (\<forall>z m. node_of s' z = Some m \<longrightarrow>
        count_list (nd_successors n) z = count_list (ts_dependencies (nd_spec m)) y)"
    if n: "node_of s' y = Some n" for y n
  proof (cases "?f y")
    case (Some t)
    then have t: "t \<in> set ts" "ts_id t = y" using find_id_SomeD by blast+
    have n': "n = submitted_node now ts s t" using n Some by (simp add: node)
    have "node_of s' d \<noteq> None" if "d \<in> set (ts_dependencies t)" for d
      using known [OF t(1) that] map_of_eq_None_iff [of "sc_nodes s" d] unfolding ex by blast
    moreover have "node_of s' z \<noteq> None" if "z \<in> set (new_successors ts y)" for z
      using new_successors_subset that unfolding ex by blast
    moreover have "count_list (new_successors ts y) z = count_list (ts_dependencies (nd_spec m)) y"
      if "node_of s' z = Some m" for z m
    proof (cases "?f z")
      case None
      with that obtain k where "node_of s z = Some k" "nd_spec m = nd_spec k" by (auto simp: node)
      with deps_old [OF _ new [OF Some]] None show ?thesis by (simp add: cnt)
    next
      case (Some u)
      with that show ?thesis by (auto simp: node cnt)
    qed
    ultimately show ?thesis using t nz by (auto simp: n')
  next
    case None
    with n obtain k where k: "node_of s y = Some k" and n': "n = add_successors (new_successors ts y) k"
      by (auto simp: node)
    note facts = graph_okD [OF g k]
    have "node_of s' d \<noteq> None" if "d \<in> set (ts_dependencies (nd_spec k))" for d
      using facts(3) [OF that] unfolding ex by blast
    moreover have "node_of s' z \<noteq> None" if "z \<in> set (nd_successors n)" for z
      using that facts(4) [of z] new_successors_subset [of ts y] unfolding ex n' by auto
    moreover have "count_list (nd_successors n) z = count_list (ts_dependencies (nd_spec m)) y"
      if "node_of s' z = Some m" for z m
    proof (cases "?f z")
      case None
      with that obtain j where j: "node_of s z = Some j" "nd_spec m = nd_spec j" by (auto simp: node)
      with facts(5) [OF j(1)] None show ?thesis by (simp add: n' cnt)
    next
      case (Some u)
      with that have "m = submitted_node now ts s u" by (simp add: node)
      with succs_old [OF k new [OF Some]] Some show ?thesis by (simp add: n' cnt)
    qed
    ultimately show ?thesis using facts(1,2) by (simp add: n')
  qed
  ultimately show ?thesis using acyc unfolding graph_ok_def by blast
qed

lemma submitted_ok:
  assumes sub: "submitted now ts s s'" and ok: "sched_ok s"
  shows "sched_ok s'"
proof -
  let ?f = "\<lambda>y. List.find (\<lambda>t. ts_id t = y) ts"
  have dist: "distinct (map ts_id ts)"
    and fresh: "ts_id ` set ts \<inter> fst ` set (sc_nodes s) = {}"
    and node: "\<And>y. node_of s' y = (case ?f y of Some t \<Rightarrow> Some (submitted_node now ts s t)
        | None \<Rightarrow> map_option (add_successors (new_successors ts y)) (node_of s y))"
    and rd: "distinct (sc_ready s')"
    and ready: "set (sc_ready s') = set (sc_ready s) \<union>
       {ts_id t | t. t \<in> set ts \<and> word_of_nat (unresolved_count s t) = (0 :: u32)}"
    using sub unfolding submitted_def by blast+
  have r: "\<And>y. y \<in> set (sc_ready s) \<longleftrightarrow> (\<exists>n. node_of s y = Some n \<and> waiting_to_run (nd_state n))"
    using ok by (simp add: sched_ok_def ready_exact_def)
  have mem: "y \<in> set (sc_ready s') \<longleftrightarrow> (\<exists>n. node_of s' y = Some n \<and> waiting_to_run (nd_state n))" for y
  proof (cases "?f y")
    case None
    then have "y \<notin> ts_id ` set ts" using find_id_None [of y ts] by blast
    with None show ?thesis by (auto simp: node ready r)
  next
    case (Some t)
    then have t: "t \<in> set ts" "ts_id t = y" using find_id_SomeD by blast+
    have "y \<in> ts_id ` set ts" using t by blast
    with fresh have "y \<notin> fst ` set (sc_nodes s)" by blast
    then have "node_of s y = None" by (simp only: map_of_eq_None_iff not_False_eq_True)
    then have "y \<notin> set (sc_ready s)" by (simp add: r)
    moreover have "u = t" if "u \<in> set ts" "ts_id u = y" for u
      using find_id_member [OF dist that(1)] unfolding that(2) Some by simp
    ultimately have "y \<in> set (sc_ready s') \<longleftrightarrow> word_of_nat (unresolved_count s t) = (0 :: u32)"
      unfolding ready using t by blast
    moreover have "node_of s' y = Some (submitted_node now ts s t)" by (simp add: node Some)
    ultimately show ?thesis by simp
  qed
  have "node_ok n" if "node_of s' y = Some n" for y n
  proof (cases "?f y")
    case None
    with that obtain k where k: "node_of s y = Some k" "n = add_successors (new_successors ts y) k"
      by (auto simp: node)
    with sched_okD(3) [OF ok k(1)] show ?thesis by (simp add: node_ok_def)
  next
    case (Some t)
    with that have "n = submitted_node now ts s t" by (simp add: node)
    then show ?thesis by (simp add: node_ok_def)
  qed
  with mem rd submitted_graph_ok [OF sub sched_okD(1) [OF ok]] show ?thesis
    by (simp add: sched_ok_def ready_exact_def)
qed

lemma submit_batch_error: "fst (submit_batch now ts s) \<noteq> Inr () \<Longrightarrow>
    sc_reserved_cpu (snd (submit_batch now ts s)) = sc_reserved_cpu s \<Longrightarrow>
    sc_reserved_memory (snd (submit_batch now ts s)) = sc_reserved_memory s \<Longrightarrow>
    snd (submit_batch now ts s) = s"
  by (auto simp: submit_batch_def Let_def split: if_splits option.splits)

lemma link_dependencies_reserved:
  "sc_reserved_cpu (snd (link_dependencies x ds u s)) = sc_reserved_cpu s \<and>
   sc_reserved_memory (snd (link_dependencies x ds u s)) = sc_reserved_memory s"
  by (induction ds arbitrary: u s) (auto simp: sched_simps split: option.splits)

lemma fold_link_reserved:
  "sc_reserved_cpu (fold link_task ts s) = sc_reserved_cpu s \<and>
   sc_reserved_memory (fold link_task ts s) = sc_reserved_memory s"
proof (induction ts arbitrary: s)
  case (Cons t ts)
  have "sc_reserved_cpu (link_task t s) = sc_reserved_cpu s \<and>
      sc_reserved_memory (link_task t s) = sc_reserved_memory s"
    using link_dependencies_reserved [of "ts_id t" "ts_dependencies t" 0 s]
    by (cases "link_dependencies (ts_id t) (ts_dependencies t) 0 s")
      (simp add: link_task_def sched_simps)
  with Cons show ?case by simp
qed simp

text \<open>A rejected batch leaves the scheduler as it was.\<close>

lemma submit_batch_rejected: "fst (submit_batch now ts s) \<noteq> Inr () \<Longrightarrow> snd (submit_batch now ts s) = s"
  using fold_link_reserved [of ts "insert_nodes now ts s"]
  by (intro submit_batch_error)
    (auto simp: submit_batch_def Let_def insert_nodes_def split: if_splits option.splits)

lemma submit_batch_ok:
  assumes "sched_ok s"
  shows "sched_ok (snd (submit_batch now ts s))"
proof (cases "fst (submit_batch now ts s) = Inr ()")
  case True
  then have "submit_batch now ts s = (Inr (), snd (submit_batch now ts s))"
    by (metis prod.collapse)
  then have "submitted now ts s (snd (submit_batch now ts s))"
    using submit_batch_submitted sched_okD(2) [OF assms] by (auto simp: ready_exact_def)
  then show ?thesis by (rule submitted_ok [OF _ assms])
next
  case False
  with submit_batch_rejected assms show ?thesis by metis
qed

lemma reorder_ok:
  assumes ok: "sched_ok s" and ns: "mset ns = mset (sc_nodes s)" and rs: "mset rs = mset (sc_ready s)"
  shows "sched_ok (s\<lparr>sc_nodes := ns, sc_ready := rs\<rparr>)"
proof -
  let ?s = "s\<lparr>sc_nodes := ns, sc_ready := rs\<rparr>"
  have keys: "distinct (map fst (sc_nodes s))" using ok by (simp add: sched_ok_def graph_ok_def)
  have "mset (map fst ns) = mset (map fst (sc_nodes s))" using ns by simp
  with keys have d: "distinct (map fst ns)" by (metis mset_eq_imp_distinct_iff)
  have "set ns = set (sc_nodes s)" using ns by (metis set_mset_mset)
  with keys d have same: "map_of ns = map_of (sc_nodes s)"
    by (intro ext) (metis map_of_eqI map_of_eq_Some_iff not_Some_eq subsetI weak_map_of_SomeI)
  have node: "node_of ?s = node_of s" by (simp add: same)
  have succs: "successors_of ?s = successors_of s" by (rule ext) (simp add: successors_of_def same)
  have "set rs = set (sc_ready s)" "distinct rs = distinct (sc_ready s)"
    using rs by (metis set_mset_mset, metis mset_eq_imp_distinct_iff)
  then have "ready_exact ?s" using ok by (simp add: sched_ok_def ready_exact_def same)
  moreover have "graph_ok ?s"
  proof -
    have "distinct (map fst (sc_nodes ?s))" using d by simp
    with ok show ?thesis
      unfolding sched_ok_def graph_ok_def succs node
      by (elim conjE) (intro conjI; assumption)
  qed
  ultimately show ?thesis using ok unfolding sched_ok_def node by simp
qed

lemma spawn_snd: "snd (spawn now p t s) = s \<or>
    snd (spawn now p t s) = snd (submit_batch now [t\<lparr>ts_parent_id := p\<rparr>] s)"
  by (simp add: spawn_def)

lemma run_op_ok: "sched_ok s \<Longrightarrow> sched_ok (run_op op s)"
proof (induction op)
  case (Do_spawn now p t)
  with spawn_snd [of now p t s] show ?case by (auto intro: submit_batch_ok)
qed (auto intro: submit_batch_ok mark_running_ok mark_blocked_ok wake_ok complete_ok fail_ok
    cancel_ok update_live_ok dispatch_ok reorder_ok
    simp: try_dispatch_def bind_context_def bind_process_def record_metrics_def)

lemma empty_ok: "sched_ok empty_scheduler"
  by (simp add: sched_ok_def graph_ok_def ready_exact_def empty_scheduler_def successors_of_def
      edges_def acyclic_def)

text \<open>
  C3. The invariant of the scheduler holds in every state that any sequence of its operations
  reaches, with arbitrary arguments, failing calls included, and with any iteration order: the
  dependency graph is closed, acyclic and mirrored by the successor lists, the ready queue holds
  exactly the agents that are READY or WAITING_RESOURCE, each once, and a finished agent holds no
  reservation.
\<close>

theorem scheduler_invariant: "reachable guard s \<Longrightarrow> sched_ok s"
  by (induction rule: reachable.induct) (auto intro: empty_ok run_op_ok)

theorem scheduler_invariant_witness:
  "sched_ok (run_op (Do_submit 0 [default_task\<lparr>ts_id := 1\<rparr>]) empty_scheduler)"
  by (rule scheduler_invariant [where guard = "\<lambda>_ _. True"])
    (rule reachable.operation [OF reachable.initial], simp)

end
