(* ===== verification/Scheduler_Careful.thy ===== *)
theory Scheduler_Careful
  imports Scheduler_Inv
begin

text \<open>
  What the scheduler guarantees to callers that follow its protocol: \<open>fail\<close> is called for an agent
  that was dispatched and has not finished, \<open>wake\<close> for one that holds no reservation, and no task
  has \<open>2 ^ 32\<close> dependencies. Then the counters are exact, the reserved amounts are the sums over the
  dispatched agents, no agent runs before its dependencies are completed, and none is lost.
\<close>

section \<open>Guards and invariants\<close>

definition busy :: "agent_state \<Rightarrow> bool" where
  "busy st \<longleftrightarrow> st = Dispatched \<or> st = Running \<or> st = Blocked"

lemma busy_simps [simp]:
  "busy Dispatched" "busy Running" "busy Blocked" "\<not> busy Created" "\<not> busy Waiting_dependency"
  "\<not> busy Ready" "\<not> busy Waiting_resource" "\<not> busy Suspended" "\<not> busy Completed" "\<not> busy Failed"
  "\<not> busy Cancelled"
  by (simp_all add: busy_def)

fun careful :: "sched_op \<Rightarrow> scheduler \<Rightarrow> bool" where
  "careful (Do_submit now ts) s = (\<forall>t \<in> set ts. length (ts_dependencies t) < 2 ^ 32)"
| "careful (Do_spawn now p t) s = (length (ts_dependencies t) < 2 ^ 32)"
| "careful (Do_fail now x e) s =
     (case node_of s x of None \<Rightarrow> True | Some n \<Rightarrow> busy (nd_state n))"
| "careful (Do_wake x) s = (case node_of s x of None \<Rightarrow> True | Some n \<Rightarrow> \<not> nd_reserved n)"
| "careful _ s = True"

text \<open>A node holds a reservation exactly while it is dispatched, running or blocked.\<close>

definition reserves :: "sched_node \<Rightarrow> bool" where
  "reserves n \<longleftrightarrow> (nd_reserved n \<longleftrightarrow> busy (nd_state n))"

text \<open>
  The counter of unresolved dependencies. \<open>ys\<close> are successors that are still to be notified; between
  operations there are none.
\<close>

definition count_ok :: "nat \<Rightarrow> sched_node \<Rightarrow> bool" where
  "count_ok k n \<longleftrightarrow>
     unat (as_unresolved (nd_snapshot n)) = k \<and>
     (nd_state n = Waiting_dependency \<longrightarrow> k \<noteq> 0) \<and>
     (nd_state n \<noteq> Waiting_dependency \<longrightarrow> nd_state n \<noteq> Cancelled \<longrightarrow> k = 0)"

definition counts_ok :: "agent_id list \<Rightarrow> scheduler \<Rightarrow> bool" where
  "counts_ok ys s \<longleftrightarrow> (\<forall>x n. node_of s x = Some n \<longrightarrow>
     count_ok (unresolved_count s (nd_spec n) + count_list ys x) n)"

definition cpu_of :: "agent_task_spec \<Rightarrow> nat" where
  "cpu_of t = unat (rr_cpu_threads (ts_resources t))"

definition memory_of :: "agent_task_spec \<Rightarrow> nat" where
  "memory_of t = unat (rr_memory_bytes (ts_resources t))"

definition amount :: "(agent_task_spec \<Rightarrow> nat) \<Rightarrow> sched_node option \<Rightarrow> nat" where
  "amount f on = (case on of None \<Rightarrow> 0 | Some n \<Rightarrow> if nd_reserved n then f (nd_spec n) else 0)"

definition reserved_sum :: "(agent_task_spec \<Rightarrow> nat) \<Rightarrow> scheduler \<Rightarrow> nat" where
  "reserved_sum f s = (\<Sum>x \<in> fst ` set (sc_nodes s). amount f (node_of s x))"

definition sums_ok :: "scheduler \<Rightarrow> bool" where
  "sums_ok s \<longleftrightarrow>
     unat (sc_reserved_cpu s) = reserved_sum cpu_of s \<and>
     unat (sc_reserved_memory s) = reserved_sum memory_of s"

definition careful_inv :: "agent_id list \<Rightarrow> scheduler \<Rightarrow> bool" where
  "careful_inv ys s \<longleftrightarrow>
     (\<forall>x n. node_of s x = Some n \<longrightarrow> reserves n) \<and> counts_ok ys s \<and> sums_ok s"

lemma careful_invD:
  assumes "careful_inv ys s"
  shows "node_of s x = Some n \<Longrightarrow> reserves n"
    and "node_of s x = Some n \<Longrightarrow> count_ok (unresolved_count s (nd_spec n) + count_list ys x) n"
    and "sums_ok s"
  using assms by (auto simp: careful_inv_def counts_ok_def)

section \<open>The sums\<close>

lemma reserved_sum_cong:
  assumes "map fst (sc_nodes s') = map fst (sc_nodes s)"
    and "\<And>y. amount f (node_of s' y) = amount f (node_of s y)"
  shows "reserved_sum f s' = reserved_sum f s"
proof -
  have "fst ` set (sc_nodes s') = fst ` set (sc_nodes s)"
    using assms(1) by (metis list.set_map)
  then show ?thesis using assms(2) by (simp add: reserved_sum_def)
qed

lemma reserved_sum_point:
  assumes "map fst (sc_nodes s') = map fst (sc_nodes s)" and "node_of s x = Some n"
    and node: "\<And>y. node_of s' y = (if y = x then Some n' else node_of s y)"
  shows "reserved_sum f s' + amount f (Some n) = reserved_sum f s + amount f (Some n')"
proof -
  let ?K = "fst ` set (sc_nodes s)"
  have K: "fst ` set (sc_nodes s') = ?K" using assms(1) by (metis list.set_map)
  have x: "x \<in> ?K" using assms(2) by (rule map_of_SomeD_key)
  have fin: "finite ?K" by simp
  have "reserved_sum f s' = amount f (Some n') + (\<Sum>y \<in> ?K - {x}. amount f (node_of s' y))"
    unfolding reserved_sum_def K by (simp add: sum.remove [OF fin x] node)
  also have "(\<Sum>y \<in> ?K - {x}. amount f (node_of s' y)) = (\<Sum>y \<in> ?K - {x}. amount f (node_of s y))"
    by (rule sum.cong) (auto simp: node)
  finally show ?thesis
    unfolding reserved_sum_def using sum.remove [OF fin x, of "\<lambda>y. amount f (node_of s y)"] assms(2)
    by simp
qed

lemma reserved_sum_ge: "node_of s x = Some n \<Longrightarrow> amount f (Some n) \<le> reserved_sum f s"
  unfolding reserved_sum_def
  using member_le_sum [of x "fst ` set (sc_nodes s)" "\<lambda>y. amount f (node_of s y)"]
  by (simp add: map_of_SomeD_key)

lemma sums_ok_frame:
  assumes "sums_ok s" and "map fst (sc_nodes s') = map fst (sc_nodes s)"
    and "\<And>f y. amount f (node_of s' y) = amount f (node_of s y)"
    and "sc_reserved_cpu s' = sc_reserved_cpu s" and "sc_reserved_memory s' = sc_reserved_memory s"
  shows "sums_ok s'"
  using assms reserved_sum_cong [OF assms(2,3)] by (simp add: sums_ok_def)

lemma sums_ok_update_snapshot:
  assumes "sums_ok s" and "\<And>sn. as_spec (f sn) = as_spec sn"
  shows "sums_ok (update_snapshot x f s)"
  by (rule sums_ok_frame [OF assms(1)])
    (auto simp: sched_simps amount_def assms(2) split: option.splits)

lemma sums_ok_ready:
  "sums_ok s \<Longrightarrow> sums_ok (ready_insert x s)" "sums_ok s \<Longrightarrow> sums_ok (ready_erase x s)"
  by (auto simp: sums_ok_def reserved_sum_def ready_insert_def ready_erase_def)

text \<open>Releasing a reservation subtracts exactly what it added.\<close>

lemma unat_release:
  assumes "unat (R :: u64) = r" and "unat a \<le> r"
  shows "unat (if a > R then 0 else R - a) = r - unat a"
  using assms by (auto simp: word_less_nat_alt unat_sub word_le_nat_alt)

lemma unat_ucast_cpu: "unat (ucast (c :: u32) :: u64) = unat c"
proof -
  have "unat c < 2 ^ 32" using unsigned_less [of c, where ?'a = nat] by simp
  then show ?thesis by (simp add: unsigned_ucast_eq take_bit_nat_eq_self)
qed

lemma sums_ok_release:
  assumes ok: "sums_ok s"
  shows "sums_ok (release_resources x s)"
proof (cases "node_of s x")
  case None
  with ok show ?thesis by (simp add: release_resources_def)
next
  case (Some n)
  show ?thesis
  proof (cases "nd_reserved n")
    case False
    with Some ok show ?thesis by (simp add: release_resources_def)
  next
    case True
    let ?s = "release_resources x s"
    have "reserved_sum f ?s + amount f (Some n) = reserved_sum f s + amount f (Some (n\<lparr>nd_reserved := False\<rparr>))" for f
      using Some by (intro reserved_sum_point [of ?s s x n]) (simp_all add: sched_simps)
    then have sum: "reserved_sum f ?s = reserved_sum f s - f (nd_spec n)" for f
      using True by (simp add: amount_def) (metis add_diff_cancel_right')
    have ge: "f (nd_spec n) \<le> reserved_sum f s" for f
      using reserved_sum_ge [OF Some, of f] True by (simp add: amount_def)
    have cpu: "unat (sc_reserved_cpu ?s) = reserved_sum cpu_of s - cpu_of (nd_spec n)"
      using Some True ok ge [of cpu_of]
        unat_release [of "sc_reserved_cpu s" "reserved_sum cpu_of s"
          "ucast (rr_cpu_threads (ts_resources (nd_spec n)))"]
      by (simp add: release_resources_def Let_def sums_ok_def unat_ucast_cpu cpu_of_def)
    have memory: "unat (sc_reserved_memory ?s) = reserved_sum memory_of s - memory_of (nd_spec n)"
      using Some True ok ge [of memory_of]
        unat_release [of "sc_reserved_memory s" "reserved_sum memory_of s"
          "rr_memory_bytes (ts_resources (nd_spec n))"]
      by (simp add: release_resources_def Let_def sums_ok_def memory_of_def)
    from cpu memory sum show ?thesis by (simp add: sums_ok_def)
  qed
qed

lemma sums_ok_cancel_node: "sums_ok s \<Longrightarrow> sums_ok (cancel_node now reason parent x s)"
  unfolding cancel_node_def
  by (intro sums_ok_update_snapshot sums_ok_release sums_ok_ready) simp_all

lemma sums_ok_notify: "sums_ok s \<Longrightarrow> sums_ok (notify_successor y s)"
  by (auto simp: notify_successor_def Let_def enqueue_ready_def
      intro!: sums_ok_ready sums_ok_update_snapshot split: option.splits)

section \<open>Updates of one node\<close>

lemma unresolved_count_cong: "done_at s' = done_at s \<Longrightarrow> unresolved_count s' = unresolved_count s"
  by (rule ext) (simp add: unresolved_count_def)

lemma point_update_done:
  assumes "point_update x n n' s s'" and "nd_state n' = Completed \<longleftrightarrow> nd_state n = Completed"
  shows "done_at s' = done_at s"
  using assms by (auto simp: point_update_def done_at_def fun_eq_iff)

lemma careful_point:
  assumes p: "point_update x n n' s s'" and c: "careful_inv ys s"
    and "reserves n'" and "sums_ok s'"
    and completed: "nd_state n' = Completed \<longleftrightarrow> nd_state n = Completed"
    and "\<And>k. count_ok k n \<Longrightarrow> count_ok k n'"
  shows "careful_inv ys s'"
proof -
  have count: "unresolved_count s' = unresolved_count s"
    by (rule unresolved_count_cong [OF point_update_done [OF p completed]])
  have node: "node_of s' y = (if y = x then Some n' else node_of s y)" for y
    using p by (simp add: point_update_def)
  have n: "node_of s x = Some n" "nd_spec n' = nd_spec n" using p by (simp_all add: point_update_def)
  have "count_ok (unresolved_count s' (nd_spec m) + count_list ys y) m"
    if m: "node_of s' y = Some m" for y m
  proof (cases "y = x")
    case True
    then have "m = n'" using m by (simp add: node)
    with assms(6) [OF careful_invD(2) [OF c n(1)]] True show ?thesis by (simp add: n(2) count)
  next
    case False
    then have "node_of s y = Some m" using m by (simp add: node)
    from careful_invD(2) [OF c this] show ?thesis by (simp add: count)
  qed
  moreover have "reserves m" if "node_of s' y = Some m" for y m
    using that assms(3) careful_invD(1) [OF c, of y m] by (auto simp: node split: if_splits)
  ultimately show ?thesis using assms(4) by (simp add: careful_inv_def counts_ok_def)
qed

lemma careful_snapshot:
  assumes ok: "sched_ok s" and c: "careful_inv ys s" and n: "node_of s x = Some n"
    and spec: "\<And>sn. as_spec (f sn) = as_spec sn"
    and "waiting_to_run (as_state (f (nd_snapshot n))) = waiting_to_run (nd_state n)"
    and "busy (as_state (f (nd_snapshot n))) = busy (nd_state n)"
    and "as_state (f (nd_snapshot n)) = Completed \<longleftrightarrow> nd_state n = Completed"
    and "\<And>k. count_ok k n \<Longrightarrow> count_ok k (n\<lparr>nd_snapshot := f (nd_snapshot n)\<rparr>)"
  shows "careful_inv ys (update_snapshot x f s)"
  by (rule careful_point [OF point_update_snapshot [of s x n f, OF ok n spec assms(5)] c _ _ _ assms(8)])
    (use assms(6,7) careful_invD(1) [OF c n] sums_ok_update_snapshot [OF careful_invD(3) [OF c] spec]
      in \<open>auto simp: reserves_def\<close>)

lemma careful_enqueue:
  assumes c: "careful_inv ys s" and n: "node_of s x = Some n"
    and spec: "\<And>sn. as_spec (f sn) = as_spec sn"
    and "as_state (f (nd_snapshot n)) = Ready" and "\<not> nd_reserved n" and "nd_state n \<noteq> Completed"
    and "\<And>k. count_ok k n \<Longrightarrow> count_ok k (n\<lparr>nd_snapshot := f (nd_snapshot n)\<rparr>)"
  shows "careful_inv ys (ready_insert x (update_snapshot x f s))"
proof (rule careful_point [OF point_update_enqueue [of s x n f, OF n spec] c _ _ _ assms(7)])
  show "waiting_to_run (as_state (f (nd_snapshot n)))" by (simp add: assms(4))
  show "reserves (n\<lparr>nd_snapshot := f (nd_snapshot n)\<rparr>)" using assms(4,5) by (simp add: reserves_def)
  show "sums_ok (ready_insert x (update_snapshot x f s))"
    by (intro sums_ok_ready sums_ok_update_snapshot careful_invD(3) [OF c] spec)
qed (use assms(4,6) in auto)

lemma careful_cancel_node:
  assumes c: "careful_inv ys s" and n: "node_of s x = Some n" "\<not> is_terminal (nd_state n)"
  shows "careful_inv ys (cancel_node now reason parent x s)"
  by (rule careful_point [OF point_update_cancel_node [OF n(1)] c])
    (use n(2) sums_ok_cancel_node [OF careful_invD(3) [OF c]] in
      \<open>auto simp: reserves_def count_ok_def\<close>)

lemma careful_cancel_descendants:
  "careful_inv ys s \<Longrightarrow> careful_inv ys (cancel_descendants now reason parent xs s)"
  by (rule cancel_descendants_preserves) (auto intro: careful_cancel_node)

section \<open>Each operation preserves the invariants\<close>

lemma careful_mark_running:
  assumes "sched_ok s" and "careful_inv [] s"
  shows "careful_inv [] (snd (mark_running now x pid s))"
  using assms
  by (auto simp: mark_running_def transition_then_snd update_snapshot_twice allowed_transition_def
      count_ok_def intro!: careful_snapshot split: option.splits)

lemma careful_mark_blocked:
  assumes "sched_ok s" and "careful_inv [] s"
  shows "careful_inv [] (snd (mark_blocked x s))"
  using assms
  by (auto simp: mark_blocked_def transition_then_snd allowed_transition_def
      count_ok_def intro!: careful_snapshot split: option.splits)

lemma careful_wake:
  assumes "sched_ok s" and c: "careful_inv [] s" and "careful (Do_wake x) s"
  shows "careful_inv [] (snd (wake x s))"
  using assms careful_invD(1) [OF c]
  by (auto simp: wake_def transition_then_snd allowed_transition_def count_ok_def reserves_def
      intro!: careful_enqueue split: option.splits)

lemma careful_update_live:
  assumes "sched_ok s" and "careful_inv [] s"
    and "\<And>sn. as_spec (f sn) = as_spec sn \<and> as_state (f sn) = as_state sn \<and>
      as_unresolved (f sn) = as_unresolved sn"
  shows "careful_inv [] (snd (update_live e f x s))"
  using assms(1,2)
  by (auto simp: update_live_def assms(3) count_ok_def intro!: careful_snapshot split: option.splits)

lemma reserves_dead: "reserves n \<Longrightarrow> \<not> busy (nd_state n) \<Longrightarrow> \<not> nd_reserved n"
  by (simp add: reserves_def)

lemma careful_fail:
  assumes ok: "sched_ok s" and c: "careful_inv [] s" and guard: "careful (Do_fail now x e) s"
  shows "careful_inv [] (snd (fail now x e s))"
proof (cases "node_of s x")
  case None
  with c show ?thesis by (simp add: fail_def)
next
  case (Some n)
  with guard have b: "busy (nd_state n)" by simp
  then have not_waiting: "\<not> waiting_to_run (nd_state n)" by (auto simp: busy_def)
  let ?r = "release_resources x s"
  have nr: "x \<notin> set (sc_ready s)"
    using point_update_ready_member [OF sched_okD(2) [OF ok] Some] not_waiting by simp
  have sums: "sums_ok (update_snapshot x f ?r)" if "\<And>sn. as_spec (f sn) = as_spec sn" for f
    by (intro sums_ok_update_snapshot sums_ok_release careful_invD(3) [OF c] that)
  have retry: "careful_inv [] (ready_insert x (update_snapshot x f ?r))"
    if f: "\<And>sn. as_spec (f sn) = as_spec sn" "\<And>sn. as_state (f sn) = Ready"
      "\<And>sn. as_unresolved (f sn) = as_unresolved sn" for f
  proof (rule careful_point [OF _ c])
    show "point_update x n (n\<lparr>nd_snapshot := f (nd_snapshot n), nd_reserved := False\<rparr>) s
        (ready_insert x (update_snapshot x f ?r))"
      using Some f by (auto simp: point_update_def sched_simps) (simp add: ready_insert_def sched_simps)
  qed (use b f sums [of f] in \<open>auto simp: reserves_def count_ok_def busy_def intro: sums_ok_ready\<close>)
  have failed: "careful_inv [] (update_snapshot x f ?r)"
    if f: "\<And>sn. as_spec (f sn) = as_spec sn" "\<And>sn. as_state (f sn) = Failed"
      "\<And>sn. as_unresolved (f sn) = as_unresolved sn" for f
  proof (rule careful_point [OF _ c])
    show "point_update x n (n\<lparr>nd_snapshot := f (nd_snapshot n), nd_reserved := False\<rparr>) s
        (update_snapshot x f ?r)"
      using Some f nr by (auto simp: point_update_def sched_simps)
  qed (use b f sums [of f] in \<open>auto simp: reserves_def count_ok_def busy_def\<close>)
  have "allowed_transition (nd_state n) Failed" using b by (auto simp: allowed_transition_def busy_def)
  with Some show ?thesis
    by (auto simp: fail_def Let_def transition_then_snd update_snapshot_twice
        intro!: retry failed careful_cancel_descendants)
qed

lemma careful_cancel:
  assumes c: "careful_inv [] s"
  shows "careful_inv [] (snd (cancel now x s))"
proof (cases "node_of s x")
  case None
  with c show ?thesis by (simp add: cancel_def)
next
  case (Some n)
  let ?s = "update_snapshot x (\<lambda>sn. sn\<lparr>as_finished_at := now\<rparr>) (release_resources x
      (ready_erase x (update_snapshot x (\<lambda>sn. sn\<lparr>as_state := Cancelled\<rparr>) s)))"
  have "careful_inv [] ?s" if live: "\<not> is_terminal (nd_state n)"
  proof (rule careful_point [OF _ c])
    show "point_update x n (n\<lparr>nd_snapshot := (nd_snapshot n)\<lparr>as_state := Cancelled,
        as_finished_at := now\<rparr>, nd_reserved := False\<rparr>) s ?s"
      using Some by (auto simp: point_update_def sched_simps distinct_removeAll)
    show "sums_ok ?s"
      by (intro sums_ok_update_snapshot sums_ok_release sums_ok_ready careful_invD(3) [OF c]) simp_all
  qed (use live in \<open>auto simp: reserves_def count_ok_def\<close>)
  with Some c show ?thesis
    by (auto simp: cancel_def transition_then_snd allowed_transition_def
        intro: careful_cancel_descendants)
qed

text \<open>Completion: the counters of the successors are due a decrement, then get it.\<close>

lemma filter_not_done:
  assumes "\<And>d. done_at s' d \<longleftrightarrow> done_at s d \<or> d = x" and "\<not> done_at s x"
  shows "length (filter (\<lambda>d. \<not> done_at s d) ds) =
    length (filter (\<lambda>d. \<not> done_at s' d) ds) + count_list ds x"
  using assms by (induction ds) auto

lemma careful_completed:
  assumes ok: "sched_ok s" and c: "careful_inv [] s" and n: "node_of s x = Some n"
    and b: "busy (nd_state n)"
    and f: "\<And>sn. as_spec (f sn) = as_spec sn" "\<And>sn. as_state (f sn) = Completed"
      "\<And>sn. as_unresolved (f sn) = as_unresolved sn"
  shows "careful_inv (nd_successors n) (release_resources x (update_snapshot x f s))"
proof -
  let ?s = "release_resources x (update_snapshot x f s)"
  let ?n = "n\<lparr>nd_snapshot := f (nd_snapshot n), nd_reserved := False\<rparr>"
  have node: "node_of ?s y = (if y = x then Some ?n else node_of s y)" for y
    using n by (simp add: sched_simps)
  have nb: "\<not> done_at s x" using n b by (auto simp: done_at_def busy_def)
  have fin: "done_at ?s d \<longleftrightarrow> done_at s d \<or> d = x" for d
    by (auto simp: done_at_def node f)
  note g = sched_okD(1) [OF ok]
  have count: "count_ok (unresolved_count ?s (nd_spec m) + count_list (nd_successors n) y) m"
    if m: "node_of ?s y = Some m" for y m
  proof -
    obtain m0 where m0: "node_of s y = Some m0" and spec: "nd_spec m = nd_spec m0"
      and unres: "as_unresolved (nd_snapshot m) = as_unresolved (nd_snapshot m0)"
      and state: "nd_state m = (if y = x then Completed else nd_state m0)"
      using m n by (auto simp: node f split: if_splits)
    have "unresolved_count s (nd_spec m0) =
        unresolved_count ?s (nd_spec m0) + count_list (ts_dependencies (nd_spec m0)) x"
      unfolding unresolved_count_def by (rule filter_not_done [OF fin nb])
    also have "count_list (ts_dependencies (nd_spec m0)) x = count_list (nd_successors n) y"
      using graph_okD(5) [OF g n m0] by simp
    finally have "count_ok (unresolved_count ?s (nd_spec m) + count_list (nd_successors n) y) m0"
      using careful_invD(2) [OF c m0] by (simp add: spec)
    then show ?thesis
      using b n m0 by (auto simp: count_ok_def unres state busy_def)
  qed
  have "reserves m" if "node_of ?s y = Some m" for y m
    using that careful_invD(1) [OF c] by (auto simp: node reserves_def f split: if_splits)
  moreover have "sums_ok ?s"
    by (intro sums_ok_release sums_ok_update_snapshot careful_invD(3) [OF c] f)
  ultimately show ?thesis using count by (simp add: careful_inv_def counts_ok_def)
qed

lemma unat_minus_one: "(u :: u32) > 0 \<Longrightarrow> unat (u - 1) = unat u - 1"
  by (simp add: unat_sub word_le_nat_alt word_less_nat_alt Suc_leI)

lemma careful_notify:
  assumes c: "careful_inv (y # ys) s" and "node_of s y \<noteq> None"
  shows "careful_inv ys (notify_successor y s)"
proof -
  from assms(2) obtain n where n: "node_of s y = Some n" by blast
  let ?s = "notify_successor y s"
  let ?u = "as_unresolved (nd_snapshot n)"
  let ?k = "unresolved_count s (nd_spec n) + count_list ys y"
  from careful_invD(2) [OF c n] have k: "count_ok (Suc ?k) n" by simp
  then have u: "?u > 0" by (simp add: count_ok_def word_less_nat_alt)
  from k have ku: "unat (?u - 1) = ?k" using unat_minus_one [OF u] by (simp add: count_ok_def)
  then have zero: "?u - 1 = 0 \<longleftrightarrow> ?k = 0" by (metis unat_0 unat_eq_zero)
  let ?n = "n\<lparr>nd_snapshot := (nd_snapshot n)\<lparr>as_unresolved := ?u - 1,
    as_state := (if ?k = 0 \<and> nd_state n = Waiting_dependency then Ready else nd_state n)\<rparr>\<rparr>"
  have node: "node_of ?s z = (if z = y then Some ?n else node_of s z)" for z
    using n u zero by (auto simp: notify_successor_def Let_def enqueue_ready_def sched_simps)
  have fin: "done_at ?s = done_at s"
    using n by (auto simp: done_at_def node fun_eq_iff split: if_splits)
  have count: "count_ok (unresolved_count ?s (nd_spec m) + count_list ys z) m"
    if m: "node_of ?s z = Some m" for z m
  proof (cases "z = y")
    case True
    with m have "m = ?n" by (simp add: node)
    moreover have "count_ok ?k ?n" using k ku by (auto simp: count_ok_def)
    ultimately show ?thesis using True by (simp add: unresolved_count_cong [OF fin])
  next
    case False
    with m have "node_of s z = Some m" by (simp add: node)
    from careful_invD(2) [OF c this] False show ?thesis by (simp add: unresolved_count_cong [OF fin])
  qed
  have "reserves m" if "node_of ?s z = Some m" for z m
    using that careful_invD(1) [OF c, of z m] careful_invD(1) [OF c n]
    by (auto simp: node reserves_def split: if_splits)
  with count sums_ok_notify [OF careful_invD(3) [OF c]] show ?thesis
    by (simp add: careful_inv_def counts_ok_def)
qed

lemma notify_keeps: "node_of s z \<noteq> None \<Longrightarrow> node_of (notify_successor y s) z \<noteq> None"
  by (auto simp: notify_successor_def Let_def enqueue_ready_def sched_simps split: option.splits)

lemma careful_fold_notify:
  assumes "careful_inv ys s" and "\<And>y. y \<in> set ys \<Longrightarrow> node_of s y \<noteq> None"
  shows "careful_inv [] (fold notify_successor ys s)"
  using assms
proof (induction ys arbitrary: s)
  case (Cons y ys)
  then have "careful_inv ys (notify_successor y s)" by (intro careful_notify) simp_all
  moreover have "node_of (notify_successor y s) z \<noteq> None" if "z \<in> set ys" for z
    using Cons.prems(2) [of z] that by (intro notify_keeps) simp
  ultimately show ?case using Cons.IH by simp
qed simp

lemma careful_complete:
  assumes ok: "sched_ok s" and c: "careful_inv [] s"
  shows "careful_inv [] (snd (complete now x s))"
proof (cases "node_of s x")
  case None
  with c show ?thesis by (simp add: complete_def)
next
  case (Some n)
  let ?f = "\<lambda>sn. sn\<lparr>as_state := Completed, as_finished_at := now\<rparr>"
  let ?s = "release_resources x (update_snapshot x ?f s)"
  have "careful_inv [] (fold notify_successor (nd_successors n) ?s)" if "busy (nd_state n)"
  proof (rule careful_fold_notify)
    show "careful_inv (nd_successors n) ?s"
      by (rule careful_completed [OF ok c Some that]) simp_all
    show "node_of ?s y \<noteq> None" if "y \<in> set (nd_successors n)" for y
      using graph_okD(4) [OF sched_okD(1) [OF ok] Some that] by (auto simp: sched_simps)
  qed
  with Some c show ?thesis
    by (auto simp: complete_def transition_then_snd update_snapshot_twice comp_def
        allowed_transition_def busy_def)
qed

lemma careful_scanned:
  assumes ok: "sched_ok s" and c: "careful_inv [] s" and frame: "same_frame s s1"
    and node: "\<And>y. node_of s1 y =
      (if y \<in> set (sc_ready s) then map_option (scanned m s) (node_of s y) else node_of s y)"
  shows "careful_inv [] s1"
proof -
  have old: "\<exists>n. node_of s y = Some n \<and> nd_spec n' = nd_spec n \<and> nd_reserved n' = nd_reserved n \<and>
      as_unresolved (nd_snapshot n') = as_unresolved (nd_snapshot n) \<and>
      (nd_state n' = nd_state n \<or> waiting_to_run (nd_state n') \<and> waiting_to_run (nd_state n))"
    if "node_of s1 y = Some n'" for y n'
    using that sched_okD(2) [OF ok] by (auto simp: node scanned_def ready_exact_def split: if_splits)
  have fin: "done_at s1 = done_at s"
  proof
    fix y
    show "done_at s1 y = done_at s y"
      using sched_okD(2) [OF ok]
      by (auto simp: done_at_def node scanned_def ready_exact_def split: if_splits)
  qed
  have "count_ok (unresolved_count s1 (nd_spec n')) n' \<and> reserves n'" if n': "node_of s1 y = Some n'" for y n'
  proof -
    from old [OF n'] obtain n where n: "node_of s y = Some n" and eq: "nd_spec n' = nd_spec n"
      "nd_reserved n' = nd_reserved n" "as_unresolved (nd_snapshot n') = as_unresolved (nd_snapshot n)"
      and st: "nd_state n' = nd_state n \<or> waiting_to_run (nd_state n') \<and> waiting_to_run (nd_state n)"
      by blast
    from careful_invD(1,2) [OF c n] st show ?thesis
      by (auto simp: count_ok_def reserves_def eq unresolved_count_cong [OF fin] waiting_to_run_def)
  qed
  moreover have "sums_ok s1"
  proof (rule sums_ok_frame [OF careful_invD(3) [OF c]])
    show "amount f (node_of s1 y) = amount f (node_of s y)" for f y
      by (cases "node_of s y") (auto simp: node scanned_def amount_def)
  qed (use frame in \<open>simp_all add: same_frame_def\<close>)
  ultimately show ?thesis by (simp add: careful_inv_def counts_ok_def)
qed

text \<open>A dispatched agent fits what is left, so adding its request does not wrap.\<close>

lemma fits_no_wrap:
  assumes "fits_resources m cpu memory n"
  shows "cpu_of (nd_spec n) > 0 \<Longrightarrow> unat cpu + cpu_of (nd_spec n) \<le> unat (ms_cpu_threads m)"
    and "memory_of (nd_spec n) > 0 \<Longrightarrow> unat memory + memory_of (nd_spec n) \<le> unat (ms_available m)"
    and "unat (cpu + ucast (rr_cpu_threads (ts_resources (nd_spec n)))) = unat cpu + cpu_of (nd_spec n)"
    and "unat (memory + rr_memory_bytes (ts_resources (nd_spec n))) = unat memory + memory_of (nd_spec n)"
proof -
  have fit: "unat r + unat b \<le> unat a" if "\<not> b > allocatable a r" "unat b > 0" for a r b
  proof (cases "a > r")
    case True
    then have "unat (a - r) = unat a - unat r" by (simp add: unat_sub)
    with that True show ?thesis
      by (simp add: allocatable_def word_le_nat_alt word_less_nat_alt)
  next
    case False
    with that show ?thesis by (simp add: allocatable_def word_less_nat_alt)
  qed
  have add: "unat (r + b) = unat r + unat b" if "\<not> b > allocatable a r" for a r b
  proof (cases "unat b = 0")
    case True
    then have "b = 0" by (simp add: unat_eq_zero)
    then show ?thesis by simp
  next
    case False
    with fit [OF that] have "unat r + unat b \<le> unat a" by simp
    moreover have "unat a < 2 ^ 64" using unsigned_less [of a, where ?'a = nat] by simp
    ultimately show ?thesis by (simp add: unat_word_ariths)
  qed
  let ?c = "ucast (rr_cpu_threads (ts_resources (nd_spec n))) :: u64"
  let ?m = "rr_memory_bytes (ts_resources (nd_spec n))"
  from assms have c: "\<not> ?c > allocatable (ucast (ms_cpu_threads m)) cpu"
    and mem: "\<not> ?m > allocatable (ms_available m) memory"
    by (simp_all add: fits_resources_def)
  show "cpu_of (nd_spec n) > 0 \<Longrightarrow> unat cpu + cpu_of (nd_spec n) \<le> unat (ms_cpu_threads m)"
    using fit [OF c] by (simp add: cpu_of_def unat_ucast_cpu)
  show "memory_of (nd_spec n) > 0 \<Longrightarrow> unat memory + memory_of (nd_spec n) \<le> unat (ms_available m)"
    using fit [OF mem] by (simp add: memory_of_def)
  show "unat (cpu + ?c) = unat cpu + cpu_of (nd_spec n)"
    using add [OF c] by (simp add: cpu_of_def unat_ucast_cpu)
  show "unat (memory + ?m) = unat memory + memory_of (nd_spec n)"
    using add [OF mem] by (simp add: memory_of_def)
qed

lemma reserve_amounts:
  "sc_reserved_cpu (reserve_node x n s) =
     sc_reserved_cpu s + ucast (rr_cpu_threads (ts_resources (nd_spec n)))"
  "sc_reserved_memory (reserve_node x n s) =
     sc_reserved_memory s + rr_memory_bytes (ts_resources (nd_spec n))"
  by (simp_all add: reserve_node_def ready_erase_def)

lemma careful_reserve:
  assumes c: "careful_inv [] s" and n: "node_of s x = Some n" and w: "waiting_to_run (nd_state n)"
    and fits: "fits_resources m (sc_reserved_cpu s) (sc_reserved_memory s) n"
  shows "careful_inv [] (reserve_node x n s)"
proof (rule careful_point [OF point_update_reserve [OF n] c])
  let ?n = "n\<lparr>nd_snapshot := (nd_snapshot n)\<lparr>as_state := Dispatched\<rparr>, nd_reserved := True\<rparr>"
  have free: "\<not> nd_reserved n"
    using careful_invD(1) [OF c n] w by (auto simp: reserves_def waiting_to_run_def)
  have p: "point_update x n ?n s (reserve_node x n s)" by (rule point_update_reserve [OF n])
  have "reserved_sum f (reserve_node x n s) + amount f (Some n) = reserved_sum f s + amount f (Some ?n)" for f
    using p by (intro reserved_sum_point [of _ s x n]) (auto simp: point_update_def)
  then have "reserved_sum f (reserve_node x n s) = reserved_sum f s + f (nd_spec n)" for f
    using free by (simp add: amount_def)
  then show "sums_ok (reserve_node x n s)"
    using careful_invD(3) [OF c] fits_no_wrap(3,4) [OF fits]
    by (simp add: sums_ok_def reserve_amounts)
qed (use w in \<open>auto simp: reserves_def count_ok_def waiting_to_run_def\<close>)

lemma careful_dispatch:
  assumes ok: "sched_ok s" and c: "careful_inv [] s"
  shows "careful_inv [] (snd (dispatch_locked m now s))"
proof (cases "dispatch_locked m now s")
  case (Pair r s')
  show ?thesis
  proof (cases r)
    case None
    with dispatch_none [OF ok] Pair have "same_frame s s'" "\<And>y. node_of s' y =
        (if y \<in> set (sc_ready s) then map_option (scanned m s) (node_of s y) else node_of s y)"
      by blast+
    from careful_scanned [OF ok c this] Pair show ?thesis by simp
  next
    case (Some x)
    from dispatch_some [OF ok] Pair Some obtain n s1 where
      n: "node_of s x = Some n" "x \<in> set (sc_ready s)" and cand: "candidate m s x"
      and frame: "same_frame s s1"
      and node: "\<And>y. node_of s1 y =
        (if y \<in> set (sc_ready s) then map_option (scanned m s) (node_of s y) else node_of s y)"
      and s': "s' = reserve_node x (scanned m s n) s1" by blast
    have res: "sc_reserved_cpu s1 = sc_reserved_cpu s" "sc_reserved_memory s1 = sc_reserved_memory s"
      using frame by (simp_all add: same_frame_def)
    have "careful_inv [] (reserve_node x (scanned m s n) s1)"
    proof (rule careful_reserve [OF careful_scanned [OF ok c frame node]])
      show "node_of s1 x = Some (scanned m s n)" using n by (simp add: node)
      show "fits_resources m (sc_reserved_cpu s1) (sc_reserved_memory s1) (scanned m s n)"
        using cand n by (simp add: res candidate_def scanned_def)
    qed (simp add: scanned_def)
    with Pair s' show ?thesis by simp
  qed
qed

lemma careful_submitted:
  assumes sub: "submitted now ts s s'" and ok: "sched_ok s" and c: "careful_inv [] s"
    and bound: "\<And>t. t \<in> set ts \<Longrightarrow> length (ts_dependencies t) < 2 ^ 32"
  shows "careful_inv [] s'"
proof -
  let ?f = "\<lambda>y. List.find (\<lambda>t. ts_id t = y) ts"
  have fresh: "ts_id ` set ts \<inter> fst ` set (sc_nodes s) = {}"
    and node: "\<And>y. node_of s' y = (case ?f y of Some t \<Rightarrow> Some (submitted_node now ts s t)
        | None \<Rightarrow> map_option (add_successors (new_successors ts y)) (node_of s y))"
    and keys: "map fst (sc_nodes s') = map fst (sc_nodes s) @ map ts_id ts"
    and res: "sc_reserved_cpu s' = sc_reserved_cpu s" "sc_reserved_memory s' = sc_reserved_memory s"
    using sub unfolding submitted_def by blast+
  have new: "node_of s y = None" if "?f y = Some t" for y t
  proof -
    from that have "y \<in> ts_id ` set ts" using find_id_SomeD by blast
    with fresh have "y \<notin> fst ` set (sc_nodes s)" by blast
    then show ?thesis by (simp only: map_of_eq_None_iff not_False_eq_True)
  qed
  have fin: "done_at s' = done_at s"
  proof
    fix y show "done_at s' y = done_at s y"
      using new [of y] by (cases "?f y") (auto simp: done_at_def node)
  qed
  have local_ok: "count_ok (unresolved_count s' (nd_spec n)) n \<and> reserves n"
    if n: "node_of s' y = Some n" for y n
  proof (cases "?f y")
    case None
    with n obtain k where k: "node_of s y = Some k" and eq: "n = add_successors (new_successors ts y) k"
      by (auto simp: node)
    from careful_invD(1,2) [OF c k] show ?thesis
      by (simp add: eq count_ok_def reserves_def unresolved_count_cong [OF fin])
  next
    case (Some t)
    then have t: "t \<in> set ts" using find_id_SomeD by blast
    have eq: "n = submitted_node now ts s t" using n Some by (simp add: node)
    have "unresolved_count s t \<le> length (ts_dependencies t)" by (simp add: unresolved_count_def)
    with bound [OF t] have u: "unat (word_of_nat (unresolved_count s t) :: u32) = unresolved_count s t"
      by (simp add: unat_of_nat take_bit_nat_eq_self)
    then have "word_of_nat (unresolved_count s t) = (0 :: u32) \<longleftrightarrow> unresolved_count s t = 0"
      by (metis unat_0 unat_eq_zero)
    with u show ?thesis
      by (simp add: eq count_ok_def reserves_def unresolved_count_cong [OF fin])
  qed
  have "reserved_sum f s' = reserved_sum f s" for f
  proof -
    have K: "fst ` set (sc_nodes s') = fst ` set (sc_nodes s) \<union> ts_id ` set ts"
      using arg_cong [OF keys, of set] by (simp add: image_Un)
    have "reserved_sum f s' = (\<Sum>x \<in> fst ` set (sc_nodes s). amount f (node_of s' x)) +
        (\<Sum>x \<in> ts_id ` set ts. amount f (node_of s' x))"
      unfolding reserved_sum_def K using fresh by (intro sum.union_disjoint) auto
    also have "(\<Sum>x \<in> ts_id ` set ts. amount f (node_of s' x)) = 0"
    proof (intro sum.neutral ballI)
      fix x assume "x \<in> ts_id ` set ts"
      then obtain t where "?f x = Some t" using find_id_None [of x ts] by (cases "?f x") auto
      then show "amount f (node_of s' x) = 0" by (simp add: node amount_def)
    qed
    also have "(\<Sum>x \<in> fst ` set (sc_nodes s). amount f (node_of s' x)) = reserved_sum f s"
      unfolding reserved_sum_def
    proof (rule sum.cong)
      fix x assume "x \<in> fst ` set (sc_nodes s)"
      then have "x \<notin> ts_id ` set ts" using fresh by blast
      then have "?f x = None" by (simp only: find_id_None not_False_eq_True)
      then show "amount f (node_of s' x) = amount f (node_of s x)"
        by (cases "node_of s x") (simp_all add: node amount_def)
    qed simp
    finally show ?thesis by simp
  qed
  then have "sums_ok s'" using careful_invD(3) [OF c] by (simp add: sums_ok_def res)
  with local_ok show ?thesis by (simp add: careful_inv_def counts_ok_def)
qed

lemma careful_submit_batch:
  assumes ok: "sched_ok s" and c: "careful_inv [] s"
    and bound: "\<And>t. t \<in> set ts \<Longrightarrow> length (ts_dependencies t) < 2 ^ 32"
  shows "careful_inv [] (snd (submit_batch now ts s))"
proof (cases "fst (submit_batch now ts s) = Inr ()")
  case True
  then have "submit_batch now ts s = (Inr (), snd (submit_batch now ts s))"
    by (metis prod.collapse)
  then have "submitted now ts s (snd (submit_batch now ts s))"
    using submit_batch_submitted sched_okD(2) [OF ok] by (auto simp: ready_exact_def)
  then show ?thesis by (rule careful_submitted [OF _ ok c bound])
next
  case False
  from submit_batch_rejected [OF this] c show ?thesis by simp
qed

lemma reorder_node:
  assumes ok: "sched_ok s" and ns: "mset ns = mset (sc_nodes s)"
  shows "map_of ns = map_of (sc_nodes s)"
proof -
  have keys: "distinct (map fst (sc_nodes s))" using ok by (simp add: sched_ok_def graph_ok_def)
  have "mset (map fst ns) = mset (map fst (sc_nodes s))" using ns by simp
  with keys have d: "distinct (map fst ns)" by (metis mset_eq_imp_distinct_iff)
  have "set ns = set (sc_nodes s)" using ns by (metis set_mset_mset)
  with keys d show ?thesis
    by (intro ext) (metis map_of_eqI map_of_eq_Some_iff not_Some_eq subsetI weak_map_of_SomeI)
qed

lemma careful_reorder:
  assumes ok: "sched_ok s" and c: "careful_inv [] s" and ns: "mset ns = mset (sc_nodes s)"
  shows "careful_inv [] (s\<lparr>sc_nodes := ns, sc_ready := rs\<rparr>)"
proof -
  let ?s = "s\<lparr>sc_nodes := ns, sc_ready := rs\<rparr>"
  have node: "node_of ?s = node_of s" using reorder_node [OF ok ns] by simp
  have "set ns = set (sc_nodes s)" using ns by (metis set_mset_mset)
  then have "reserved_sum f ?s = reserved_sum f s" for f
    unfolding reserved_sum_def node by simp
  then have sums: "sums_ok ?s" using careful_invD(3) [OF c] by (simp add: sums_ok_def)
  have "done_at ?s = done_at s" by (rule ext) (simp only: done_at_def node)
  then have count: "unresolved_count ?s = unresolved_count s" by (rule unresolved_count_cong)
  from c sums show ?thesis
    unfolding careful_inv_def counts_ok_def node count by blast
qed

lemma careful_run_op:
  assumes ok: "sched_ok s" and c: "careful_inv [] s" and g: "careful op s"
  shows "careful_inv [] (run_op op s)"
proof (cases op)
  case (Do_submit now ts)
  with g careful_submit_batch [OF ok c] show ?thesis by simp
next
  case (Do_spawn now p t)
  have "careful_inv [] (snd (submit_batch now [t\<lparr>ts_parent_id := p\<rparr>] s))"
    using g Do_spawn by (intro careful_submit_batch [OF ok c]) auto
  with Do_spawn spawn_snd [of now p t s] c show ?thesis by auto
next
  case (Do_wake x)
  with g careful_wake [OF ok c] show ?thesis by simp
next
  case (Do_fail now x e)
  with g careful_fail [OF ok c] show ?thesis by simp
qed (use ok c in \<open>auto intro: careful_mark_running careful_mark_blocked careful_complete careful_cancel
    careful_update_live careful_dispatch careful_reorder
    simp: try_dispatch_def bind_context_def bind_process_def record_metrics_def\<close>)

lemma careful_empty: "careful_inv [] empty_scheduler"
  by (simp add: careful_inv_def counts_ok_def sums_ok_def reserved_sum_def empty_scheduler_def)

lemma careful_reachable: "reachable careful s \<Longrightarrow> sched_ok s \<and> careful_inv [] s"
  by (induction rule: reachable.induct) (auto intro: empty_ok run_op_ok careful_empty careful_run_op)

section \<open>Properties\<close>

text \<open>
  C10. Dispatching is optimal in every reachable state: \<open>try_dispatch\<close> returns nothing only if no
  agent of the ready queue fits the unreserved resources, and otherwise returns a ready agent that
  fits and whose score (priority, then milliseconds waited) no other fitting agent exceeds; that
  agent leaves the queue, is DISPATCHED and holds its reservation.
\<close>

theorem dispatch_best:
  assumes "reachable guard s" and "try_dispatch m now s = (r, s')"
  shows "case r of
      None \<Rightarrow> \<forall>y \<in> set (sc_ready s). \<not> candidate m s y
    | Some x \<Rightarrow> x \<in> set (sc_ready s) \<and> candidate m s x \<and>
        (\<forall>y \<in> set (sc_ready s). candidate m s y \<longrightarrow> score_of now s y \<le> score_of now s x) \<and>
        x \<notin> set (sc_ready s') \<and>
        (\<exists>n. node_of s' x = Some n \<and> nd_state n = Dispatched \<and> nd_reserved n)"
proof -
  have ok: "sched_ok s" using assms(1)
    by (induction rule: reachable.induct) (auto intro: empty_ok run_op_ok)
  have d: "dispatch_locked m now s = (r, s')" using assms(2) by (simp add: try_dispatch_def)
  show ?thesis
  proof (cases r)
    case None
    with dispatch_none [OF ok] d show ?thesis by simp
  next
    case (Some x)
    with dispatch_some [OF ok] d obtain n s1 where
      n: "node_of s x = Some n" "x \<in> set (sc_ready s)" "candidate m s x"
      and best: "\<forall>y \<in> set (sc_ready s). candidate m s y \<longrightarrow> score_of now s y \<le> score_of now s x"
      and node: "\<forall>y. node_of s1 y =
        (if y \<in> set (sc_ready s) then map_option (scanned m s) (node_of s y) else node_of s y)"
      and s': "s' = reserve_node x (scanned m s n) s1" by blast
    have "node_of s1 x = Some (scanned m s n)" using n node by simp
    then have p: "point_update x (scanned m s n) ((scanned m s n)\<lparr>nd_snapshot :=
        (nd_snapshot (scanned m s n))\<lparr>as_state := Dispatched\<rparr>, nd_reserved := True\<rparr>) s1 s'"
      unfolding s' by (rule point_update_reserve)
    with n best Some show ?thesis by (simp add: point_update_def)
  qed
qed

text \<open>Two independent agents, of priorities 1 and 5.\<close>

definition two_agents :: scheduler where
  "two_agents = run_op (Do_submit 0 [default_task\<lparr>ts_id := 1, ts_priority := 1\<rparr>,
     default_task\<lparr>ts_id := 2, ts_priority := 5\<rparr>]) empty_scheduler"

definition one_cpu :: memory_snapshot where
  "one_cpu = default_memory_snapshot\<lparr>ms_cpu_threads := 1\<rparr>"

lemma two_agents_reachable: "reachable careful two_agents"
  unfolding two_agents_def
  by (rule reachable.operation [OF reachable.initial]) (simp add: default_task_def)

theorem dispatch_best_witness:
  "fst (try_dispatch one_cpu 7 two_agents) = Some 2 \<and> candidate one_cpu two_agents 1 \<and>
   score_of 7 two_agents 1 \<le> score_of 7 two_agents 2"
proof -
  have f: "fst (try_dispatch one_cpu 7 two_agents) = Some 2" by code_simp
  have one: "1 \<in> set (sc_ready two_agents) \<and> candidate one_cpu two_agents 1" by code_simp
  from f one
    dispatch_best [OF two_agents_reachable, of one_cpu 7 "Some 2" "snd (try_dispatch one_cpu 7 two_agents)"]
  show ?thesis by (simp add: prod_eq_iff)
qed

text \<open>
  C1. Dependencies are respected: in every state that careful callers reach, an agent that has left
  WAITING_DEPENDENCY other than by cancellation (so every agent that is dispatched, running or
  completed) has only COMPLETED dependencies, and an agent that still waits has one that is not.
\<close>

theorem dependencies_respected:
  assumes "reachable careful s" and "node_of s x = Some n"
  shows "(nd_state n \<noteq> Waiting_dependency \<longrightarrow> nd_state n \<noteq> Cancelled \<longrightarrow>
      (\<forall>d \<in> set (ts_dependencies (nd_spec n)). done_at s d)) \<and>
    (nd_state n = Waiting_dependency \<longrightarrow>
      (\<exists>d \<in> set (ts_dependencies (nd_spec n)). \<not> done_at s d))"
proof -
  from careful_reachable [OF assms(1)] have "careful_inv [] s" by blast
  from careful_invD(2) [OF this assms(2)]
  have c: "count_ok (length (filter (\<lambda>d. \<not> done_at s d) (ts_dependencies (nd_spec n)))) n"
    by (simp add: unresolved_count_def)
  then show ?thesis by (auto simp: count_ok_def filter_empty_conv)
qed

definition two_steps :: scheduler where
  "two_steps = run_op (Do_complete 9 1) (run_op (Do_dispatch one_cpu 8)
     (run_op (Do_submit 0 [default_task\<lparr>ts_id := 1\<rparr>,
        default_task\<lparr>ts_id := 2, ts_dependencies := [1]\<rparr>]) empty_scheduler))"

lemma two_steps_reachable: "reachable careful two_steps"
  unfolding two_steps_def
  by (intro reachable.operation reachable.initial) (simp_all add: default_task_def)

theorem dependencies_respected_witness:
  "\<exists>n. node_of two_steps 2 = Some n \<and> nd_state n = Ready \<and> done_at two_steps 1"
proof -
  have "map_option nd_state (node_of two_steps 2) = Some Ready \<and>
      map_option (ts_dependencies \<circ> nd_spec) (node_of two_steps 2) = Some [1]" by code_simp
  then obtain n where n: "node_of two_steps 2 = Some n" "nd_state n = Ready"
    "ts_dependencies (nd_spec n) = [1]" by auto
  from dependencies_respected [OF two_steps_reachable n(1)] n show ?thesis by simp
qed






text \<open>
  A failure report revives a finished agent: \<open>fail\<close> checks the retry budget before the state,
  so for an agent that was cancelled (or completed) and has retries left it succeeds and puts the
  agent back into the ready queue.
\<close>

theorem fail_revives:
  assumes "node_of s x = Some n" and "is_terminal (nd_state n)"
    and "as_retry_count (nd_snapshot n) < ts_retry_limit (nd_spec n)"
  shows "fst (fail now x e s) = Inr () \<and> x \<in> set (sc_ready (snd (fail now x e s))) \<and>
    (\<exists>n'. node_of (snd (fail now x e s)) x = Some n' \<and> nd_state n' = Ready)"
  using assms by (auto simp: fail_def Let_def sched_simps)

definition cancelled_once :: scheduler where
  "cancelled_once = run_op (Do_cancel 3 1)
     (run_op (Do_submit 0 [default_task\<lparr>ts_id := 1, ts_retry_limit := 2\<rparr>]) empty_scheduler)"

theorem fail_revives_witness:
  "1 \<in> set (sc_ready (snd (fail 4 1 ''cancelled'' cancelled_once)))"
proof -
  have "map_option nd_state (node_of cancelled_once 1) = Some Cancelled \<and>
      map_option (as_retry_count \<circ> nd_snapshot) (node_of cancelled_once 1) = Some 0 \<and>
      map_option (ts_retry_limit \<circ> nd_spec) (node_of cancelled_once 1) = Some 2" by code_simp
  then obtain n where "node_of cancelled_once 1 = Some n" "is_terminal (nd_state n)"
    "as_retry_count (nd_snapshot n) < ts_retry_limit (nd_spec n)" by auto
  from fail_revives [OF this] show ?thesis by blast
qed

text \<open>
  Waking a blocked agent leaks its reservation: it keeps the first reservation, is dispatched
  again with a second one, and completion returns only one. After the trace below every agent is
  finished and one CPU thread stays reserved for ever.
\<close>

definition leak_trace :: "sched_op list" where
  "leak_trace =
     [Do_submit 0 [default_task\<lparr>ts_id := 1\<rparr>], Do_dispatch default_memory_snapshot 1,
      Do_mark_running 2 1 77, Do_mark_blocked 1, Do_wake 1, Do_dispatch default_memory_snapshot 3,
      Do_complete 4 1]"

theorem wake_leaks_reservation:
  "all_terminal (fold run_op leak_trace empty_scheduler) \<and>
   sc_reserved_cpu (fold run_op leak_trace empty_scheduler) = 1"
  by code_simp

end
