(* ===== verification/Context_Manager.thy ===== *)
theory Context_Manager
  imports Agent_Types "HOL-Library.Multiset"
begin

text \<open>
  The manager of model contexts (\<^verbatim>\<open>agent_runtime_top/src/context_manager.cpp\<close>): logical contexts,
  their owners, and the small pool of resident sequences of the inference engine that they share
  by swapping. The swap callbacks are arguments: a missing callback is \<open>None\<close>, and a call returns
  \<open>Inl\<close> with the error text that it left. Sizes and counters are 64-bit words.
\<close>

section \<open>State\<close>

record context_lease =
  cl_context_id :: context_id
  cl_sequence_id :: int
  cl_created :: bool
  cl_restored :: bool

type_synonym swap_call = "context_id \<Rightarrow> int \<Rightarrow> string + unit"

record swap_callbacks =
  sw_save :: "swap_call option"
  sw_load :: "swap_call option"

record context_stats =
  st_active_contexts :: u64
  st_active_owners :: u64
  st_resident :: u64
  st_swapped :: u64
  st_created :: u64
  st_shared_acquisitions :: u64
  st_released :: u64
  st_swap_outs :: u64
  st_swap_ins :: u64

record context_entry =
  ce_id :: context_id
  ce_sequence :: int
  ce_resident :: bool
  ce_pins :: nat
  ce_owners :: "agent_id list"
  ce_last_access :: nat

record context_manager =
  cm_max_resident :: nat
  cm_max_logical :: nat
  cm_contexts :: "(context_id \<times> context_entry) list"
  cm_free :: "int list"
  cm_next_id :: context_id
  cm_stats :: context_stats

definition zero_stats :: context_stats where
  "zero_stats = \<lparr>st_active_contexts = 0, st_active_owners = 0, st_resident = 0, st_swapped = 0,
     st_created = 0, st_shared_acquisitions = 0, st_released = 0, st_swap_outs = 0,
     st_swap_ins = 0\<rparr>"

text \<open>The constructor: sequences \<open>max\<close> down to 1, so that 1 is handed out first.\<close>

definition new_manager :: "nat \<Rightarrow> nat \<Rightarrow> context_manager" where
  "new_manager max_resident max_logical =
     (let r = max 1 max_resident
      in \<lparr>cm_max_resident = r,
          cm_max_logical = max r (if max_logical = 0 then r else max_logical),
          cm_contexts = [], cm_free = rev (map int [1..<Suc r]), cm_next_id = 1,
          cm_stats = zero_stats\<rparr>)"

abbreviation entry_of :: "context_manager \<Rightarrow> context_id \<Rightarrow> context_entry option" where
  "entry_of cm c \<equiv> map_of (cm_contexts cm) c"

definition update_entry :: "context_id \<Rightarrow> (context_entry \<Rightarrow> context_entry) \<Rightarrow> context_manager \<Rightarrow> context_manager"
where
  "update_entry c f cm = cm\<lparr>cm_contexts := AList.map_entry c f (cm_contexts cm)\<rparr>"

definition update_stats :: "(context_stats \<Rightarrow> context_stats) \<Rightarrow> context_manager \<Rightarrow> context_manager" where
  "update_stats f cm = cm\<lparr>cm_stats := f (cm_stats cm)\<rparr>"

section \<open>Lookups\<close>

definition find_for_agent :: "agent_id \<Rightarrow> context_manager \<Rightarrow> context_id option" where
  "find_for_agent a cm =
     map_option fst (List.find (\<lambda>(_, e). a \<in> set (ce_owners e)) (cm_contexts cm))"

definition authorized :: "context_entry \<Rightarrow> agent_id \<Rightarrow> agent_id \<Rightarrow> bool" where
  "authorized e agent parent \<longleftrightarrow>
     agent \<in> set (ce_owners e) \<or> (parent \<noteq> 0 \<and> parent \<in> set (ce_owners e))"

section \<open>Sequences\<close>

definition evictable :: "context_id \<Rightarrow> context_entry \<Rightarrow> bool" where
  "evictable excluded e \<longleftrightarrow> \<not> (\<not> ce_resident e \<or> ce_pins e \<noteq> 0 \<or> ce_id e = excluded)"

text \<open>The loop that looks for the least recently used context, with the candidate so far.\<close>

fun pick_victim ::
  "context_id \<Rightarrow> (context_id \<times> context_entry) list \<Rightarrow> (context_id \<times> context_entry) option \<Rightarrow>
   (context_id \<times> context_entry) option"
where
  "pick_victim excluded [] candidate = candidate"
| "pick_victim excluded ((c, e) # es) candidate =
     (if \<not> evictable excluded e then pick_victim excluded es candidate
      else if candidate = None \<or> ce_last_access e < ce_last_access (snd (the candidate))
      then pick_victim excluded es (Some (c, e))
      else pick_victim excluded es candidate)"

definition error_or :: "string \<Rightarrow> string \<Rightarrow> string" where
  "error_or e fallback = (if e = [] then fallback else e)"

definition obtain_sequence ::
  "context_id \<Rightarrow> swap_callbacks option \<Rightarrow> context_manager \<Rightarrow> (string + int) \<times> context_manager"
where
  "obtain_sequence excluded swap cm =
     (if cm_free cm \<noteq> [] then (Inr (last (cm_free cm)), cm\<lparr>cm_free := butlast (cm_free cm)\<rparr>)
      else case Option.bind swap sw_save of
        None \<Rightarrow> (Inl ''all model contexts are in use'', cm)
      | Some save \<Rightarrow>
          (case pick_victim excluded (cm_contexts cm) None of
             None \<Rightarrow> (Inl ''all resident contexts are pinned by active requests'', cm)
           | Some (c, e) \<Rightarrow>
               (case save (ce_id e) (ce_sequence e) of
                  Inl err \<Rightarrow> (Inl (error_or err ''cannot swap out least-recently-used context''), cm)
                | Inr _ \<Rightarrow>
                    (Inr (ce_sequence e),
                     update_stats (\<lambda>st. st\<lparr>st_swap_outs := st_swap_outs st + 1,
                         st_resident := st_resident st - 1, st_swapped := st_swapped st + 1\<rparr>)
                       (update_entry c (\<lambda>e. e\<lparr>ce_sequence := - 1, ce_resident := False\<rparr>) cm)))))"

definition make_resident ::
  "context_id \<Rightarrow> context_entry \<Rightarrow> swap_callbacks option \<Rightarrow> context_manager \<Rightarrow>
   (string + unit) \<times> context_manager"
where
  "make_resident c e swap cm =
     (if ce_resident e then (Inr (), cm)
      else case Option.bind swap sw_load of
        None \<Rightarrow> (Inl ''context is swapped out'', cm)
      | Some load \<Rightarrow>
          (case obtain_sequence (ce_id e) swap cm of
             (Inl err, cm) \<Rightarrow> (Inl err, cm)
           | (Inr sequence, cm) \<Rightarrow>
               (case load (ce_id e) sequence of
                  Inl err \<Rightarrow> (Inl (error_or err ''cannot restore swapped context''),
                              cm\<lparr>cm_free := cm_free cm @ [sequence]\<rparr>)
                | Inr _ \<Rightarrow>
                    (Inr (),
                     update_stats (\<lambda>st. st\<lparr>st_swap_ins := st_swap_ins st + 1,
                         st_resident := st_resident st + 1, st_swapped := st_swapped st - 1\<rparr>)
                       (update_entry c (\<lambda>e. e\<lparr>ce_sequence := sequence, ce_resident := True\<rparr>) cm)))))"

section \<open>Public operations\<close>

text \<open>The end of the two paths of \<open>acquire\<close> that use an existing context.\<close>

definition pin_existing ::
  "nat \<Rightarrow> context_id \<Rightarrow> bool \<Rightarrow> context_manager \<Rightarrow> (string + context_lease) \<times> context_manager" where
  "pin_existing now c was_swapped cm =
     (let cm = update_entry c (\<lambda>e. e\<lparr>ce_last_access := now, ce_pins := ce_pins e + 1\<rparr>) cm
      in case entry_of cm c of
        None \<Rightarrow> (Inl [], cm)
      | Some e \<Rightarrow> (Inr \<lparr>cl_context_id = ce_id e, cl_sequence_id = ce_sequence e,
                        cl_created = False, cl_restored = was_swapped\<rparr>, cm))"

definition create_context ::
  "nat \<Rightarrow> agent_id \<Rightarrow> int \<Rightarrow> context_manager \<Rightarrow> (string + context_lease) \<times> context_manager" where
  "create_context now agent sequence cm =
     (let c = cm_next_id cm;
          e = \<lparr>ce_id = c, ce_sequence = sequence, ce_resident = True, ce_pins = 1,
               ce_owners = [agent], ce_last_access = now\<rparr>;
          cm = cm\<lparr>cm_next_id := c + 1,
                  cm_contexts := (if entry_of cm c = None then cm_contexts cm @ [(c, e)]
                                  else cm_contexts cm)\<rparr>
      in (Inr \<lparr>cl_context_id = c, cl_sequence_id = sequence, cl_created = True, cl_restored = False\<rparr>,
          update_stats (\<lambda>st. st\<lparr>st_created := st_created st + 1,
              st_active_contexts := st_active_contexts st + 1,
              st_active_owners := st_active_owners st + 1, st_resident := st_resident st + 1\<rparr>) cm))"

definition add_owner :: "context_id \<Rightarrow> agent_id \<Rightarrow> context_manager \<Rightarrow> context_manager" where
  "add_owner c agent cm =
     (case entry_of cm c of None \<Rightarrow> cm
      | Some e \<Rightarrow>
          if agent \<in> set (ce_owners e) then cm
          else update_stats (\<lambda>st. st\<lparr>st_active_owners := st_active_owners st + 1,
                   st_shared_acquisitions := st_shared_acquisitions st + 1\<rparr>)
                 (update_entry c (\<lambda>e. e\<lparr>ce_owners := ce_owners e @ [agent]\<rparr>) cm))"

definition acquire ::
  "nat \<Rightarrow> agent_id \<Rightarrow> agent_id \<Rightarrow> context_id \<Rightarrow> swap_callbacks option \<Rightarrow> context_manager \<Rightarrow>
   (string + context_lease) \<times> context_manager"
where
  "acquire now agent parent requested swap cm =
     (if agent = 0 then (Inl ''agent id 0 cannot own a context'', cm)
      else if requested = 0 then
        (case Option.bind (find_for_agent agent cm) (\<lambda>c. map_option (Pair c) (entry_of cm c)) of
           Some (c, e) \<Rightarrow>
             (case make_resident c e swap cm of
                (Inl err, cm) \<Rightarrow> (Inl err, cm)
              | (Inr _, cm) \<Rightarrow> pin_existing now c (\<not> ce_resident e) cm)
         | None \<Rightarrow>
             if length (cm_contexts cm) \<ge> cm_max_logical cm
             then (Inl ''logical context capacity is exhausted'', cm)
             else (case obtain_sequence 0 swap cm of
                     (Inl err, cm) \<Rightarrow> (Inl err, cm)
                   | (Inr sequence, cm) \<Rightarrow> create_context now agent sequence cm))
      else
        (case entry_of cm requested of
           None \<Rightarrow> (Inl ''requested context does not exist'', cm)
         | Some e \<Rightarrow>
             if \<not> authorized e agent parent then (Inl ''context ownership check failed'', cm)
             else (case make_resident requested e swap cm of
                     (Inl err, cm) \<Rightarrow> (Inl err, cm)
                   | (Inr _, cm) \<Rightarrow>
                       pin_existing now requested (\<not> ce_resident e) (add_owner requested agent cm))))"

definition finish :: "nat \<Rightarrow> context_id \<Rightarrow> context_manager \<Rightarrow> (string + unit) \<times> context_manager" where
  "finish now c cm =
     (case entry_of cm c of
        None \<Rightarrow> (Inl ''context does not exist'', cm)
      | Some e \<Rightarrow>
          if ce_pins e = 0 then (Inl ''context is not pinned'', cm)
          else (Inr (), update_entry c (\<lambda>e. e\<lparr>ce_pins := ce_pins e - 1, ce_last_access := now\<rparr>) cm))"

text \<open>The result of a successful release: the sequence that was freed (-1: none), and whether the
  context is gone.\<close>

definition release_context ::
  "nat \<Rightarrow> agent_id \<Rightarrow> agent_id \<Rightarrow> context_id \<Rightarrow> context_manager \<Rightarrow>
   (string + (int \<times> bool)) \<times> context_manager"
where
  "release_context now agent parent c cm =
     (case entry_of cm c of
        None \<Rightarrow> (Inl ''context does not exist'', cm)
      | Some e \<Rightarrow>
          (let owner = (if agent \<notin> set (ce_owners e) \<and> parent \<noteq> 0 \<and> parent \<in> set (ce_owners e)
                        then parent else agent)
           in if owner \<notin> set (ce_owners e) then (Inl ''context ownership check failed'', cm)
              else if length (ce_owners e) = 1 \<and> ce_pins e \<noteq> 0 then (Inl ''context is busy'', cm)
              else
                (let owners = removeAll owner (ce_owners e);
                     cm = update_stats (\<lambda>st. st\<lparr>st_active_owners :=
                            (if st_active_owners st > 0 then st_active_owners st - 1
                             else st_active_owners st)\<rparr>)
                            (update_entry c (\<lambda>e. e\<lparr>ce_owners := owners\<rparr>) cm)
                 in if owners \<noteq> []
                    then (Inr (- 1, False), update_entry c (\<lambda>e. e\<lparr>ce_last_access := now\<rparr>) cm)
                    else
                      (let cm = (if ce_resident e
                             then update_stats (\<lambda>st. st\<lparr>st_resident := st_resident st - 1\<rparr>)
                                    (cm\<lparr>cm_free := cm_free cm @ [ce_sequence e]\<rparr>)
                             else update_stats (\<lambda>st. st\<lparr>st_swapped := st_swapped st - 1\<rparr>) cm);
                           cm = cm\<lparr>cm_contexts := AList.delete c (cm_contexts cm)\<rparr>
                       in (Inr (if ce_resident e then ce_sequence e else - 1, True),
                           update_stats (\<lambda>st. st\<lparr>st_released := st_released st + 1,
                               st_active_contexts := st_active_contexts st - 1\<rparr>) cm)))))"

definition owns :: "agent_id \<Rightarrow> context_id \<Rightarrow> context_manager \<Rightarrow> bool" where
  "owns agent c cm = (case entry_of cm c of None \<Rightarrow> False | Some e \<Rightarrow> agent \<in> set (ce_owners e))"

end
