(* ===== verification/Alist_Multiset.thy ===== *)
theory Alist_Multiset
  imports Prelude "HOL-Library.Multiset"
begin

text \<open>
  The entries of an unordered container as a multiset, which its order of iteration does not change.
\<close>

text \<open>The values as a multiset, when one entry is replaced or removed.\<close>

lemma mset_map_entry:
  "distinct (map fst al) \<Longrightarrow> map_of al k = Some v \<Longrightarrow>
   \<exists>M. mset (map snd al) = add_mset v M \<and>
     (\<forall>f. mset (map snd (AList.map_entry k f al)) = add_mset (f v) M) \<and>
     mset (map snd (AList.delete k al)) = M"
proof (induction al)
  case (Cons x al)
  obtain k' v' where x: "x = (k', v')" by (cases x)
  show ?case
  proof (cases "k' = k")
    case True
    with Cons.prems x have "k \<notin> fst ` set al" by auto
    then have "AList.delete k al = al" by simp
    with True Cons.prems x show ?thesis by auto
  next
    case False
    with Cons.prems x obtain M where "mset (map snd al) = add_mset v M"
      "\<forall>f. mset (map snd (AList.map_entry k f al)) = add_mset (f v) M"
      "mset (map snd (AList.delete k al)) = M"
      using Cons.IH by auto
    with False x show ?thesis by (auto intro!: exI [of _ "add_mset v' M"])
  qed
qed simp

end
