(* ===== verification/Context_Inv.thy ===== *)
theory Context_Inv
  imports Context_Manager Alist_Multiset
begin

text \<open>
  The invariant of the context manager: the engine's sequences are partitioned among the free list
  and the resident contexts, the statistics are exact, and pinned contexts are resident. It is
  stated with the sequences that are in the hands of an operation, so that it also holds between
  the steps of one.
\<close>

section \<open>The invariant\<close>

definition entries :: "context_manager \<Rightarrow> context_entry multiset" where
  "entries cm = mset (map snd (cm_contexts cm))"

definition all_sequences :: "context_manager \<Rightarrow> int multiset" where
  "all_sequences cm = mset (map int [1..<Suc (cm_max_resident cm)])"

definition resident_sequences :: "context_manager \<Rightarrow> int multiset" where
  "resident_sequences cm = image_mset ce_sequence (filter_mset ce_resident (entries cm))"

definition owner_total :: "context_manager \<Rightarrow> nat" where
  "owner_total cm = sum_mset (image_mset (length \<circ> ce_owners) (entries cm))"

definition entry_ok :: "context_manager \<Rightarrow> context_id \<Rightarrow> context_entry \<Rightarrow> bool" where
  "entry_ok cm c e \<longleftrightarrow>
     ce_id e = c \<and> c \<noteq> 0 \<and> c < cm_next_id cm \<and> ce_owners e \<noteq> [] \<and> distinct (ce_owners e) \<and>
     0 \<notin> set (ce_owners e) \<and> (\<not> ce_resident e \<longrightarrow> ce_sequence e = - 1 \<and> ce_pins e = 0)"

definition stats_exact :: "context_manager \<Rightarrow> bool" where
  "stats_exact cm \<longleftrightarrow>
     st_active_contexts (cm_stats cm) = of_nat (size (entries cm)) \<and>
     st_active_owners (cm_stats cm) = of_nat (owner_total cm) \<and>
     st_resident (cm_stats cm) = of_nat (size (filter_mset ce_resident (entries cm))) \<and>
     st_swapped (cm_stats cm) = of_nat (size (filter_mset (\<lambda>e. \<not> ce_resident e) (entries cm)))"

text \<open>\<open>hand\<close> are the sequences that the operation in progress has obtained and not yet given away.\<close>

definition cm_inv :: "int multiset \<Rightarrow> context_manager \<Rightarrow> bool" where
  "cm_inv hand cm \<longleftrightarrow>
     distinct (map fst (cm_contexts cm)) \<and>
     (\<forall>c e. entry_of cm c = Some e \<longrightarrow> entry_ok cm c e) \<and>
     mset (cm_free cm) + hand + resident_sequences cm = all_sequences cm \<and>
     stats_exact cm \<and> length (cm_contexts cm) \<le> cm_max_logical cm"

text \<open>The counters of the code have room: fewer than \<open>2 ^ 64\<close> contexts were created.\<close>

definition roomy :: "context_manager \<Rightarrow> bool" where
  "roomy cm \<longleftrightarrow> cm_next_id cm \<noteq> - 1 \<and> owner_total cm < 2 ^ 64"

section \<open>Entries as a multiset\<close>

lemma entries_at:
  assumes "distinct (map fst (cm_contexts cm))" and "entry_of cm c = Some e"
  obtains M where "entries cm = add_mset e M"
    and "\<And>f. entries (update_entry c f cm) = add_mset (f e) M"
    and "entries (cm\<lparr>cm_contexts := AList.delete c (cm_contexts cm)\<rparr>) = M"
  using mset_map_entry [OF assms] that by (auto simp: entries_def update_entry_def)

lemma entry_of_update [ctx_simps]:
  "entry_of (update_entry c f cm) d = (if d = c then map_option f (entry_of cm c) else entry_of cm d)"
  by (simp add: update_entry_def map_entry_map_of)

lemma manager_fields [ctx_simps]:
  "cm_free (update_entry c f cm) = cm_free cm" "cm_next_id (update_entry c f cm) = cm_next_id cm"
  "cm_max_resident (update_entry c f cm) = cm_max_resident cm"
  "cm_max_logical (update_entry c f cm) = cm_max_logical cm"
  "cm_stats (update_entry c f cm) = cm_stats cm"
  "map fst (cm_contexts (update_entry c f cm)) = map fst (cm_contexts cm)"
  "length (cm_contexts (update_entry c f cm)) = length (cm_contexts cm)"
  "cm_contexts (update_stats g cm) = cm_contexts cm" "cm_free (update_stats g cm) = cm_free cm"
  "cm_next_id (update_stats g cm) = cm_next_id cm"
  "cm_max_resident (update_stats g cm) = cm_max_resident cm"
  "cm_max_logical (update_stats g cm) = cm_max_logical cm"
  "cm_stats (update_stats g cm) = g (cm_stats cm)"
  by (simp_all add: update_entry_def update_stats_def) (metis length_map map_entry_keys)

lemma entries_update_stats [ctx_simps]: "entries (update_stats g cm) = entries cm"
  "entries (cm\<lparr>cm_free := fr\<rparr>) = entries cm"
  by (simp_all add: entries_def update_stats_def)

lemma cm_invD:
  assumes "cm_inv hand cm"
  shows "distinct (map fst (cm_contexts cm))" and "entry_of cm c = Some e \<Longrightarrow> entry_ok cm c e"
    and "mset (cm_free cm) + hand + resident_sequences cm = all_sequences cm"
    and "stats_exact cm" and "length (cm_contexts cm) \<le> cm_max_logical cm"
  using assms by (auto simp: cm_inv_def)

text \<open>
  The general step: one entry is replaced, the statistics follow, and sequences move between the
  free list, the hand and the entry.
\<close>

lemma cm_inv_update:
  assumes inv: "cm_inv hand cm" and e: "entry_of cm c = Some e"
    and ok: "entry_ok cm c (f e)"
    and seqs: "mset free' + hand' + (if ce_resident (f e) then {#ce_sequence (f e)#} else {#}) =
      mset (cm_free cm) + hand + (if ce_resident e then {#ce_sequence e#} else {#})"
    and stats: "st_active_contexts st' = st_active_contexts (cm_stats cm)"
      "st_active_owners st' + of_nat (length (ce_owners e)) =
        st_active_owners (cm_stats cm) + of_nat (length (ce_owners (f e)))"
      "st_resident st' + (if ce_resident e then 1 else 0) =
        st_resident (cm_stats cm) + (if ce_resident (f e) then 1 else 0)"
      "st_swapped st' + (if ce_resident e then 0 else 1) =
        st_swapped (cm_stats cm) + (if ce_resident (f e) then 0 else 1)"
    and cm': "cm_contexts cm' = cm_contexts (update_entry c f cm)" "cm_free cm' = free'"
      "cm_stats cm' = st'" "cm_next_id cm' = cm_next_id cm"
      "cm_max_resident cm' = cm_max_resident cm" "cm_max_logical cm' = cm_max_logical cm"
  shows "cm_inv hand' cm'"
proof -
  obtain M where M: "entries cm = add_mset e M" "\<And>f. entries (update_entry c f cm) = add_mset (f e) M"
    using entries_at [OF cm_invD(1) [OF inv] e] by metis
  have ents: "entries cm' = add_mset (f e) M" using M(2) [of f] by (simp add: entries_def cm'(1))
  have node: "entry_of cm' d = (if d = c then Some (f e) else entry_of cm d)" for d
    using e by (simp add: cm'(1) entry_of_update)
  let ?own = "\<lambda>e. if ce_resident e then {#ce_sequence e#} else {#}"
  let ?R = "image_mset ce_sequence (filter_mset ce_resident M)"
  have "mset free' + hand' + resident_sequences cm' = (mset free' + hand' + ?own (f e)) + ?R"
    by (simp add: resident_sequences_def ents)
  also have "\<dots> = (mset (cm_free cm) + hand + ?own e) + ?R"
    by (simp only: seqs)
  also have "\<dots> = mset (cm_free cm) + hand + resident_sequences cm"
    by (simp add: resident_sequences_def M(1))
  also have "\<dots> = all_sequences cm'"
    unfolding cm_invD(3) [OF inv] by (simp only: all_sequences_def cm'(5))
  finally have "mset free' + hand' + resident_sequences cm' = all_sequences cm'" .
  moreover have "stats_exact cm'"
    using cm_invD(4) [OF inv] stats
    by (auto simp: stats_exact_def owner_total_def ents M(1) cm' algebra_simps split: if_splits)
  moreover have "entry_ok cm' d g" if "entry_of cm' d = Some g" for d g
  proof -
    have "entry_ok cm' d g = entry_ok cm d g" by (simp add: entry_ok_def cm'(4))
    moreover have "g = f e \<and> d = c \<or> entry_of cm d = Some g"
      using that unfolding node by (auto split: if_splits)
    ultimately show ?thesis using ok cm_invD(2) [OF inv] by auto
  qed
  moreover have "distinct (map fst (cm_contexts cm'))" "length (cm_contexts cm') \<le> cm_max_logical cm'"
    using cm_invD(1,5) [OF inv] by (simp_all only: cm' manager_fields)
  ultimately show ?thesis by (simp add: cm_inv_def cm'(2))
qed

section \<open>Eviction\<close>

text \<open>The victim is a least recently used unpinned resident context other than the excluded one.\<close>

lemma pick_victim_spec:
  assumes "\<And>x. candidate = Some x \<Longrightarrow> evictable excluded (snd x)"
  shows "case pick_victim excluded es candidate of
      None \<Rightarrow> candidate = None \<and> (\<forall>(c, e) \<in> set es. \<not> evictable excluded e)
    | Some (c, e) \<Rightarrow> evictable excluded e \<and> ((c, e) \<in> set es \<or> candidate = Some (c, e)) \<and>
        (\<forall>(d, g) \<in> set es. evictable excluded g \<longrightarrow> ce_last_access e \<le> ce_last_access g) \<and>
        (\<forall>x. candidate = Some x \<longrightarrow> ce_last_access e \<le> ce_last_access (snd x))"
  using assms
proof (induction excluded es candidate rule: pick_victim.induct)
  case (1 excluded candidate)
  then show ?case by (auto split: option.splits)
next
  case (2 excluded c e es candidate)
  let ?new = "evictable excluded e \<and>
    (candidate = None \<or> ce_last_access e < ce_last_access (snd (the candidate)))"
  show ?case
  proof (cases ?new)
    case True
    then have "pick_victim excluded ((c, e) # es) candidate = pick_victim excluded es (Some (c, e))"
      by simp
    moreover have "case pick_victim excluded es (Some (c, e)) of
        None \<Rightarrow> Some (c, e) = None \<and> (\<forall>(c, e) \<in> set es. \<not> evictable excluded e)
      | Some (d, g) \<Rightarrow> evictable excluded g \<and> ((d, g) \<in> set es \<or> Some (c, e) = Some (d, g)) \<and>
          (\<forall>(d, h) \<in> set es. evictable excluded h \<longrightarrow> ce_last_access g \<le> ce_last_access h) \<and>
          (\<forall>x. Some (c, e) = Some x \<longrightarrow> ce_last_access g \<le> ce_last_access (snd x))"
      using 2(2) True by simp
    ultimately show ?thesis using True
      by (cases "pick_victim excluded es (Some (c, e))") fastforce+
  next
    case False
    then have eq: "pick_victim excluded ((c, e) # es) candidate = pick_victim excluded es candidate"
      by auto
    have ih: "case pick_victim excluded es candidate of
        None \<Rightarrow> candidate = None \<and> (\<forall>(c, e) \<in> set es. \<not> evictable excluded e)
      | Some (d, g) \<Rightarrow> evictable excluded g \<and> ((d, g) \<in> set es \<or> candidate = Some (d, g)) \<and>
          (\<forall>(d, h) \<in> set es. evictable excluded h \<longrightarrow> ce_last_access g \<le> ce_last_access h) \<and>
          (\<forall>x. candidate = Some x \<longrightarrow> ce_last_access g \<le> ce_last_access (snd x))"
      using 2(1) 2(3) 2(4) False by (cases "evictable excluded e") simp_all
    show ?thesis
    proof (cases "pick_victim excluded es candidate")
      case None
      with ih False eq show ?thesis by auto
    next
      case (Some x)
      obtain d g where x: "x = (d, g)" by (cases x)
      have "ce_last_access g \<le> ce_last_access e" if "evictable excluded e"
        using that False ih Some x by (cases candidate) auto
      with ih show ?thesis unfolding eq Some x by auto
    qed
  qed
qed

section \<open>The steps of an acquisition\<close>

text \<open>
  What no step of another context's acquisition touches: the keys, the limits, and every entry that
  may not be evicted.
\<close>

definition keeps :: "context_id \<Rightarrow> context_manager \<Rightarrow> context_manager \<Rightarrow> bool" where
  "keeps excluded cm cm' \<longleftrightarrow>
     map fst (cm_contexts cm') = map fst (cm_contexts cm) \<and>
     cm_next_id cm' = cm_next_id cm \<and> cm_max_resident cm' = cm_max_resident cm \<and>
     cm_max_logical cm' = cm_max_logical cm \<and> owner_total cm' = owner_total cm \<and>
     (\<forall>c e. entry_of cm c = Some e \<longrightarrow> \<not> evictable excluded e \<longrightarrow> entry_of cm' c = Some e) \<and>
     (\<forall>c e. entry_of cm c = Some e \<longrightarrow> evictable excluded e \<longrightarrow>
        entry_of cm' c = Some e \<or> entry_of cm' c = Some (e\<lparr>ce_sequence := - 1, ce_resident := False\<rparr>))"

lemma keeps_refl [simp]: "keeps excluded cm cm"
  by (simp add: keeps_def)

lemma owner_total_update:
  assumes "distinct (map fst (cm_contexts cm))" and "entry_of cm c = Some e"
  shows "owner_total (update_entry c f cm) + length (ce_owners e) =
    owner_total cm + length (ce_owners (f e))"
proof -
  obtain M where "entries cm = add_mset e M" "entries (update_entry c f cm) = add_mset (f e) M"
    using entries_at [OF assms] by metis
  then show ?thesis by (simp add: owner_total_def)
qed

lemma owner_total_simps [ctx_simps]:
  "owner_total (update_stats g cm) = owner_total cm"
  "owner_total (cm\<lparr>cm_free := fr\<rparr>) = owner_total cm"
  by (simp_all add: owner_total_def entries_update_stats)

lemma victim_member:
  assumes "pick_victim excluded (cm_contexts cm) None = Some (c, e)"
    and "distinct (map fst (cm_contexts cm))"
  shows "entry_of cm c = Some e \<and> evictable excluded e \<and>
    (\<forall>d g. entry_of cm d = Some g \<longrightarrow> evictable excluded g \<longrightarrow> ce_last_access e \<le> ce_last_access g)"
proof -
  from pick_victim_spec [of None excluded "cm_contexts cm"] assms(1)
  have v: "evictable excluded e" "(c, e) \<in> set (cm_contexts cm)"
    "\<forall>(d, g) \<in> set (cm_contexts cm). evictable excluded g \<longrightarrow> ce_last_access e \<le> ce_last_access g"
    by auto
  have "entry_of cm c = Some e" using v(2) assms(2) by simp
  with v show ?thesis by (auto dest: map_of_SomeD)
qed

lemma obtain_sequence_spec:
  assumes inv: "cm_inv {#} cm" and o: "obtain_sequence excluded swap cm = (r, cm')"
  shows "(\<forall>err. r = Inl err \<longrightarrow> cm' = cm) \<and>
    (\<forall>q. r = Inr q \<longrightarrow> cm_inv {#q#} cm' \<and> keeps excluded cm cm')"
proof (cases "cm_free cm = []")
  case False
  then have eq: "r = Inr (last (cm_free cm))" "cm' = cm\<lparr>cm_free := butlast (cm_free cm)\<rparr>"
    using o by (simp_all add: obtain_sequence_def)
  have fr: "mset (cm_free cm) = add_mset (last (cm_free cm)) (mset (butlast (cm_free cm)))"
  proof -
    have "cm_free cm = butlast (cm_free cm) @ [last (cm_free cm)]" using False by simp
    from arg_cong [OF this, of mset] show ?thesis by simp
  qed
  have "cm_inv {#last (cm_free cm)#} cm'"
    using inv unfolding eq cm_inv_def
    by (simp add: entry_ok_def stats_exact_def all_sequences_def resident_sequences_def
        owner_total_def entries_def fr)
  moreover have "keeps excluded cm cm'" by (simp add: keeps_def eq owner_total_simps)
  ultimately show ?thesis by (simp add: eq)
next
  case True
  show ?thesis
  proof (cases "\<exists>q. r = Inr q")
    case False
    with True o show ?thesis
      by (auto simp: obtain_sequence_def split: option.splits sum.splits)
  next
    case q: True
    with True o obtain c e where v: "pick_victim excluded (cm_contexts cm) None = Some (c, e)"
      and r: "r = Inr (ce_sequence e)"
      and cm': "cm' = update_stats (\<lambda>st. st\<lparr>st_swap_outs := st_swap_outs st + 1,
          st_resident := st_resident st - 1, st_swapped := st_swapped st + 1\<rparr>)
        (update_entry c (\<lambda>e. e\<lparr>ce_sequence := - 1, ce_resident := False\<rparr>) cm)"
      by (auto simp: obtain_sequence_def split: option.splits sum.splits)
    note dist = cm_invD(1) [OF inv]
    from victim_member [OF v dist] have e: "entry_of cm c = Some e" and ev: "evictable excluded e"
      by auto
    then have res: "ce_resident e" "ce_pins e = 0" by (simp_all add: evictable_def)
    have "cm_inv {#ce_sequence e#} cm'"
      by (rule cm_inv_update [OF inv e, where f = "\<lambda>e. e\<lparr>ce_sequence := - 1, ce_resident := False\<rparr>"
            and free' = "cm_free cm"])
        (use cm_invD(2) [OF inv e] res in \<open>auto simp: cm' ctx_simps entry_ok_def\<close>)
    moreover have "keeps excluded cm cm'"
      using e ev owner_total_update [OF dist e, of "\<lambda>e. e\<lparr>ce_sequence := - 1, ce_resident := False\<rparr>"]
      by (auto simp: keeps_def cm' ctx_simps)
    ultimately show ?thesis by (simp add: r)
  qed
qed

text \<open>Bringing a context in: it is resident afterwards, and nothing but eviction happened.\<close>

lemma make_resident_spec:
  assumes inv: "cm_inv {#} cm" and e: "entry_of cm c = Some e"
    and m: "make_resident c e swap cm = (r, cm')"
  shows "cm_inv {#} cm' \<and>
    (\<exists>cm1. keeps c cm cm1 \<and> map fst (cm_contexts cm') = map fst (cm_contexts cm1) \<and>
      cm_next_id cm' = cm_next_id cm1 \<and> cm_max_resident cm' = cm_max_resident cm1 \<and>
      cm_max_logical cm' = cm_max_logical cm1 \<and> owner_total cm' = owner_total cm1 \<and>
      (\<forall>d. d \<noteq> c \<longrightarrow> entry_of cm' d = entry_of cm1 d)) \<and>
    (\<exists>e'. entry_of cm' c = Some e' \<and> ce_owners e' = ce_owners e \<and> ce_pins e' = ce_pins e \<and>
      ce_last_access e' = ce_last_access e \<and> ce_id e' = c \<and>
      (r = Inr () \<longrightarrow> ce_resident e') \<and> (ce_resident e \<longrightarrow> e' = e))"
proof (cases "ce_resident e")
  case True
  with m have "r = Inr ()" "cm' = cm" by (simp_all add: make_resident_def)
  with inv e True cm_invD(2) [OF inv e] show ?thesis
    by (auto simp: entry_ok_def intro!: exI [of _ cm])
next
  case False
  have eid: "ce_id e = c" using cm_invD(2) [OF inv e] by (simp add: entry_ok_def)
  have not_ev: "\<not> evictable c e" using False by (simp add: evictable_def)
  show ?thesis
  proof (cases "Option.bind swap sw_load")
    case None
    with False m have "cm' = cm" "r \<noteq> Inr ()" by (auto simp: make_resident_def)
    with inv e eid show ?thesis by (auto intro!: exI [of _ cm])
  next
    case (Some load)
    obtain r1 cm1 where o: "obtain_sequence c swap cm = (r1, cm1)" by fastforce
    note spec = obtain_sequence_spec [OF inv o]
    show ?thesis
    proof (cases r1)
      case (Inl err)
      with False Some m o eid spec have "cm' = cm" "r \<noteq> Inr ()" by (auto simp: make_resident_def)
      with inv e eid show ?thesis by (auto intro!: exI [of _ cm])
    next
      case (Inr q)
      with spec have inv1: "cm_inv {#q#} cm1" and keep: "keeps c cm cm1" by auto
      have e1: "entry_of cm1 c = Some e" using keep e not_ev by (simp add: keeps_def)
      show ?thesis
      proof (cases "load c q")
        case (Inl err)
        then have eq: "cm' = cm1\<lparr>cm_free := cm_free cm1 @ [q]\<rparr>" "r \<noteq> Inr ()"
          using False Some m o Inr eid by (auto simp: make_resident_def)
        have "cm_inv {#} cm'"
          using inv1 unfolding eq cm_inv_def
          by (simp add: entry_ok_def stats_exact_def all_sequences_def resident_sequences_def
              owner_total_def entries_def)
        with keep e1 eid eq show ?thesis by (auto simp: owner_total_simps intro!: exI [of _ cm1])
      next
        case (Inr u)
        let ?f = "\<lambda>e. e\<lparr>ce_sequence := q, ce_resident := True\<rparr>"
        have eq: "cm' = update_stats (\<lambda>st. st\<lparr>st_swap_ins := st_swap_ins st + 1,
              st_resident := st_resident st + 1, st_swapped := st_swapped st - 1\<rparr>)
            (update_entry c ?f cm1)"
          using False Some m o \<open>r1 = Inr q\<close> Inr eid by (auto simp: make_resident_def)
        have "cm_inv {#} cm'"
          by (rule cm_inv_update [OF inv1 e1, where f = ?f and free' = "cm_free cm1"])
            (use cm_invD(2) [OF inv1 e1] False in \<open>auto simp: eq ctx_simps entry_ok_def\<close>)
        moreover have "owner_total cm' = owner_total cm1"
          using owner_total_update [OF cm_invD(1) [OF inv1] e1, of ?f] by (simp add: eq ctx_simps)
        moreover have "\<forall>d. d \<noteq> c \<longrightarrow> entry_of cm' d = entry_of cm1 d"
          "entry_of cm' c = Some (?f e)" using e1 by (simp_all add: eq ctx_simps)
        ultimately show ?thesis
          using keep eid False by (auto simp: eq ctx_simps intro!: exI [of _ cm1])
      qed
    qed
  qed
qed

lemma pin_existing_inv:
  assumes inv: "cm_inv {#} cm" and e: "entry_of cm c = Some e" and res: "ce_resident e"
  shows "cm_inv {#} (snd (pin_existing now c w cm))"
    and "fst (pin_existing now c w cm) = Inr \<lparr>cl_context_id = c, cl_sequence_id = ce_sequence e,
      cl_created = False, cl_restored = w\<rparr>"
    and "entry_of (snd (pin_existing now c w cm)) d =
      (if d = c then Some (e\<lparr>ce_last_access := now, ce_pins := ce_pins e + 1\<rparr>) else entry_of cm d)"
proof -
  let ?f = "\<lambda>e. e\<lparr>ce_last_access := now, ce_pins := ce_pins e + 1\<rparr>"
  have eid: "ce_id e = c" using cm_invD(2) [OF inv e] by (simp add: entry_ok_def)
  have eq: "pin_existing now c w cm = (Inr \<lparr>cl_context_id = c, cl_sequence_id = ce_sequence e,
      cl_created = False, cl_restored = w\<rparr>, update_entry c ?f cm)"
    using e eid by (simp add: pin_existing_def ctx_simps)
  have "cm_inv {#} (update_entry c ?f cm)"
    by (rule cm_inv_update [OF inv e, where f = ?f and free' = "cm_free cm"])
      (use cm_invD(2) [OF inv e] res in \<open>auto simp: ctx_simps entry_ok_def\<close>)
  then show "cm_inv {#} (snd (pin_existing now c w cm))" by (simp add: eq)
  show "fst (pin_existing now c w cm) = Inr \<lparr>cl_context_id = c, cl_sequence_id = ce_sequence e,
      cl_created = False, cl_restored = w\<rparr>" by (simp add: eq)
  show "entry_of (snd (pin_existing now c w cm)) d =
      (if d = c then Some (e\<lparr>ce_last_access := now, ce_pins := ce_pins e + 1\<rparr>) else entry_of cm d)"
    using e by (simp add: eq ctx_simps)
qed

lemma add_owner_inv:
  assumes inv: "cm_inv {#} cm" and e: "entry_of cm c = Some e" and a: "a \<noteq> 0"
  shows "cm_inv {#} (add_owner c a cm)"
    and "entry_of (add_owner c a cm) d = (if d = c then Some
      (if a \<in> set (ce_owners e) then e else e\<lparr>ce_owners := ce_owners e @ [a]\<rparr>) else entry_of cm d)"
proof -
  let ?f = "\<lambda>e. e\<lparr>ce_owners := ce_owners e @ [a]\<rparr>"
  have "cm_inv {#} (add_owner c a cm)" if new: "a \<notin> set (ce_owners e)"
    by (rule cm_inv_update [OF inv e, where f = ?f and free' = "cm_free cm"])
      (use cm_invD(2) [OF inv e] new a e in \<open>auto simp: add_owner_def ctx_simps entry_ok_def\<close>)
  with inv e show "cm_inv {#} (add_owner c a cm)" by (cases "a \<in> set (ce_owners e)") (auto simp: add_owner_def)
  show "entry_of (add_owner c a cm) d = (if d = c then Some
      (if a \<in> set (ce_owners e) then e else e\<lparr>ce_owners := ce_owners e @ [a]\<rparr>) else entry_of cm d)"
    using e by (simp add: add_owner_def ctx_simps)
qed

lemma unat_plus_one: "w \<noteq> - 1 \<Longrightarrow> unat (w + 1) = Suc (unat w)" for w :: u64
proof -
  assume "w \<noteq> - 1"
  then have "w + 1 \<noteq> 0" by (metis add_eq_0_iff2)
  then have "unat (w + 1) \<noteq> 0" by (simp add: unat_eq_zero)
  moreover have "unat w < 2 ^ 64" using unsigned_less [of w, where ?'a = nat] by simp
  ultimately show ?thesis
    by (cases "Suc (unat w) = 2 ^ 64") (auto simp: unat_word_ariths)
qed

lemma create_context_inv:
  assumes inv: "cm_inv {#q#} cm" and a: "a \<noteq> 0" and room: "cm_next_id cm \<noteq> - 1"
    and next_id: "cm_next_id cm \<noteq> 0"
    and size: "length (cm_contexts cm) < cm_max_logical cm"
  shows "cm_inv {#} (snd (create_context now a q cm))"
    and "fst (create_context now a q cm) =
      Inr \<lparr>cl_context_id = cm_next_id cm, cl_sequence_id = q, cl_created = True, cl_restored = False\<rparr>"
    and "entry_of (snd (create_context now a q cm)) d = (if d = cm_next_id cm
      then Some \<lparr>ce_id = cm_next_id cm, ce_sequence = q, ce_resident = True, ce_pins = 1,
        ce_owners = [a], ce_last_access = now\<rparr> else entry_of cm d)"
proof -
  let ?c = "cm_next_id cm"
  let ?e = "\<lparr>ce_id = ?c, ce_sequence = q, ce_resident = True, ce_pins = 1, ce_owners = [a],
    ce_last_access = now\<rparr>"
  let ?cm = "snd (create_context now a q cm)"
  have fresh: "entry_of cm ?c = None"
  proof (cases "entry_of cm ?c")
    case (Some e)
    from cm_invD(2) [OF inv this] show ?thesis by (simp add: entry_ok_def)
  qed
  then have keys: "?c \<notin> fst ` set (cm_contexts cm)" by (simp add: map_of_eq_None_iff)
  have ctx: "cm_contexts ?cm = cm_contexts cm @ [(?c, ?e)]"
    using fresh by (simp add: create_context_def Let_def update_stats_def)
  have node: "entry_of ?cm d = (if d = ?c then Some ?e else entry_of cm d)" for d
    using fresh by (cases "entry_of cm d") (auto simp: ctx map_add_def)
  have ents: "entries ?cm = add_mset ?e (entries cm)" by (simp add: entries_def ctx)
  have "unat (?c + 1) = Suc (unat ?c)"
    using room by (simp add: unat_plus_one)
  then have less: "d < ?c + 1" if "d < ?c \<or> d = ?c" for d
    using that by (auto simp: word_less_nat_alt)
  have fields: "cm_free ?cm = cm_free cm" "cm_max_resident ?cm = cm_max_resident cm"
    by (simp_all add: create_context_def Let_def update_stats_def)
  have "resident_sequences ?cm = add_mset q (resident_sequences cm)"
    by (simp add: resident_sequences_def ents)
  moreover have "all_sequences ?cm = all_sequences cm" by (simp only: all_sequences_def fields)
  ultimately have "mset (cm_free ?cm) + {#} + resident_sequences ?cm = all_sequences ?cm"
    using cm_invD(3) [OF inv] by (simp add: fields(1) ac_simps)
  moreover have "stats_exact ?cm"
    using cm_invD(4) [OF inv] by (simp add: stats_exact_def owner_total_def ents)
      (simp add: create_context_def Let_def update_stats_def)
  moreover have "entry_ok ?cm d g" if "entry_of ?cm d = Some g" for d g
    using that cm_invD(2) [OF inv, of d g] less a next_id
    by (auto simp: node entry_ok_def create_context_def Let_def update_stats_def split: if_splits)
  moreover have "distinct (map fst (cm_contexts ?cm))" "length (cm_contexts ?cm) \<le> cm_max_logical ?cm"
    using cm_invD(1) [OF inv] keys size
    by (simp_all add: ctx) (simp add: create_context_def Let_def update_stats_def)
  ultimately show "cm_inv {#} ?cm" by (simp add: cm_inv_def)
  show "fst (create_context now a q cm) =
      Inr \<lparr>cl_context_id = ?c, cl_sequence_id = q, cl_created = True, cl_restored = False\<rparr>"
    by (simp add: create_context_def Let_def)
  show "entry_of ?cm d = (if d = ?c then Some ?e else entry_of cm d)" by (rule node)
qed

section \<open>The operations\<close>

definition cm_ok :: "context_manager \<Rightarrow> bool" where
  "cm_ok cm \<longleftrightarrow> cm_inv {#} cm \<and> cm_next_id cm \<noteq> 0"

text \<open>A pinned context stays resident in its sequence.\<close>

definition pins_stable :: "context_manager \<Rightarrow> context_manager \<Rightarrow> bool" where
  "pins_stable cm cm' \<longleftrightarrow> (\<forall>c e. entry_of cm c = Some e \<longrightarrow> ce_pins e > 0 \<longrightarrow>
     (\<exists>e'. entry_of cm' c = Some e' \<and> ce_resident e' \<and> ce_sequence e' = ce_sequence e))"

lemma pinned_resident:
  assumes "cm_inv h cm" and "entry_of cm c = Some e" and "ce_pins e > 0"
  shows "ce_resident e"
  using cm_invD(2) [OF assms(1,2)] assms(3) by (auto simp: entry_ok_def)

lemma pins_stable_refl: "cm_inv h cm \<Longrightarrow> pins_stable cm cm"
  by (auto simp: pins_stable_def intro: pinned_resident)

lemma keeps_pins:
  assumes "cm_inv h cm" and "keeps excluded cm cm'"
  shows "pins_stable cm cm'"
  using assms pinned_resident [OF assms(1)]
  by (auto simp: pins_stable_def keeps_def evictable_def)

text \<open>
  What an acquisition by \<open>agent\<close> promises: the lease names a context that the agent now owns, that is
  resident in the leased sequence and pinned.
\<close>

definition granted :: "agent_id \<Rightarrow> context_lease \<Rightarrow> context_manager \<Rightarrow> bool" where
  "granted agent l cm \<longleftrightarrow>
     (\<exists>e. entry_of cm (cl_context_id l) = Some e \<and> ce_resident e \<and>
        ce_sequence e = cl_sequence_id l \<and> ce_pins e > 0 \<and> agent \<in> set (ce_owners e))"

lemma make_resident_keeps:
  assumes inv: "cm_inv {#} cm" and e: "entry_of cm c = Some e"
    and m: "make_resident c e swap cm = (r, cm')"
  shows "cm_inv {#} cm'" and "pins_stable cm cm'" and "cm_next_id cm' = cm_next_id cm"
    and "\<exists>e'. entry_of cm' c = Some e' \<and> ce_owners e' = ce_owners e \<and> (r = Inr () \<longrightarrow> ce_resident e')"
proof -
  note spec = make_resident_spec [OF inv e m]
  from spec obtain cm1 e' where keep: "keeps c cm cm1" and rest: "cm_next_id cm' = cm_next_id cm1"
    "\<forall>d. d \<noteq> c \<longrightarrow> entry_of cm' d = entry_of cm1 d"
    and e': "entry_of cm' c = Some e'" "ce_resident e \<longrightarrow> e' = e"
    by blast
  show "cm_inv {#} cm'" using spec by blast
  show "cm_next_id cm' = cm_next_id cm" using keep rest by (simp add: keeps_def)
  show "\<exists>e'. entry_of cm' c = Some e' \<and> ce_owners e' = ce_owners e \<and> (r = Inr () \<longrightarrow> ce_resident e')"
    using spec by blast
  show "pins_stable cm cm'"
    unfolding pins_stable_def
  proof (intro allI impI)
    fix d g assume g: "entry_of cm d = Some g" "ce_pins g > 0"
    show "\<exists>g'. entry_of cm' d = Some g' \<and> ce_resident g' \<and> ce_sequence g' = ce_sequence g"
    proof (cases "d = c")
      case True
      with g e e' pinned_resident [OF inv g] show ?thesis by auto
    next
      case False
      with keeps_pins [OF inv keep] g rest show ?thesis by (simp add: pins_stable_def)
    qed
  qed
qed

lemma pins_stable_trans: 
  assumes "pins_stable cm cm1"
    and "\<And>c e. entry_of cm1 c = Some e \<Longrightarrow>
      \<exists>e'. entry_of cm2 c = Some e' \<and> ce_resident e' = ce_resident e \<and> ce_sequence e' = ce_sequence e"
  shows "pins_stable cm cm2"
  using assms unfolding pins_stable_def by metis

lemma add_owner_next [ctx_simps]: "cm_next_id (add_owner c a cm) = cm_next_id cm"
  by (simp add: add_owner_def ctx_simps split: option.splits)

lemma pin_existing_next [ctx_simps]: "cm_next_id (snd (pin_existing now c w cm)) = cm_next_id cm"
  by (simp add: pin_existing_def Let_def ctx_simps split: option.splits)

lemma acquire_existing:
  assumes ok: "cm_ok cm" and e: "entry_of cm c = Some e" and a: "a \<noteq> 0"
    and m: "make_resident c e swap cm = (Inr u, cm1)"
    and out: "pin_existing now c w (if add then add_owner c a cm1 else cm1) = (r, cm')"
    and owner: "\<not> add \<longrightarrow> a \<in> set (ce_owners e)"
  shows "cm_ok cm' \<and> pins_stable cm cm' \<and> (\<exists>l. r = Inr l \<and> granted a l cm' \<and> cl_context_id l = c)"
proof -
  have inv: "cm_inv {#} cm" using ok by (simp add: cm_ok_def)
  note mr = make_resident_keeps [OF inv e m]
  from mr(4) obtain e1 where e1: "entry_of cm1 c = Some e1" "ce_owners e1 = ce_owners e" "ce_resident e1"
    by auto
  define cm2 where "cm2 = (if add then add_owner c a cm1 else cm1)"
  define e2 where "e2 = (if add \<and> a \<notin> set (ce_owners e1) then e1\<lparr>ce_owners := ce_owners e1 @ [a]\<rparr> else e1)"
  have inv2: "cm_inv {#} cm2" using add_owner_inv(1) [OF mr(1) e1(1) a] mr(1) by (simp add: cm2_def)
  have node2: "entry_of cm2 d = (if d = c then Some e2 else entry_of cm1 d)" for d
    using add_owner_inv(2) [OF mr(1) e1(1) a] e1(1) by (simp add: cm2_def e2_def)
  have e2: "entry_of cm2 c = Some e2" "ce_resident e2" "a \<in> set (ce_owners e2)"
    using e1 owner by (auto simp: node2 e2_def)
  note pin = pin_existing_inv [OF inv2 e2(1,2), of now w]
  have cm': "cm' = snd (pin_existing now c w cm2)" and r: "r = fst (pin_existing now c w cm2)"
    using out by (simp_all add: cm2_def)
  have "cm_next_id cm' = cm_next_id cm"
    using mr(3) by (simp add: cm' cm2_def ctx_simps)
  moreover have "pins_stable cm cm'"
    by (rule pins_stable_trans [OF mr(2)]) (use e1(1) in \<open>auto simp: cm' pin(3) node2 e2_def\<close>)
  moreover have "granted a \<lparr>cl_context_id = c, cl_sequence_id = ce_sequence e2, cl_created = False,
      cl_restored = w\<rparr> cm'"
    using e2 by (simp add: granted_def cm' pin(3))
  ultimately show ?thesis using ok pin(1,2) by (simp add: cm_ok_def cm' r)
qed

lemma find_for_agent_owner:
  assumes "cm_inv h cm" and "find_for_agent a cm = Some c" and "entry_of cm c = Some e"
  shows "a \<in> set (ce_owners e)"
proof -
  from assms(2) obtain g where "List.find (\<lambda>(_, e). a \<in> set (ce_owners e)) (cm_contexts cm) = Some (c, g)"
    by (auto simp: find_for_agent_def)
  then have "(c, g) \<in> set (cm_contexts cm)" "a \<in> set (ce_owners g)"
    by (auto simp: find_Some_iff) (metis nth_mem)
  with cm_invD(1) [OF assms(1)] assms(3) show ?thesis by simp
qed

lemma acquire_spec:
  assumes ok: "cm_ok cm" and room: "roomy cm"
    and acq: "acquire now a p req swap cm = (r, cm')"
  shows "cm_ok cm' \<and> pins_stable cm cm' \<and>
    (\<forall>l. r = Inr l \<longrightarrow> granted a l cm' \<and>
      (if req = 0 then cl_created l \<longrightarrow> entry_of cm (cl_context_id l) = None
       else cl_context_id l = req \<and> (\<exists>e. entry_of cm req = Some e \<and> authorized e a p)))"
proof (cases "a = 0")
  case True
  with acq ok show ?thesis by (auto simp: acquire_def cm_ok_def pins_stable_refl)
next
  case a: False
  have inv: "cm_inv {#} cm" using ok by (simp add: cm_ok_def)
  show ?thesis
  proof (cases "req = 0")
    case True
    show ?thesis
    proof (cases "Option.bind (find_for_agent a cm) (\<lambda>c. map_option (Pair c) (entry_of cm c))")
      case (Some ce)
      then obtain c e where ce: "ce = (c, e)" "find_for_agent a cm = Some c" "entry_of cm c = Some e"
        by (auto simp: Option.bind_eq_Some_conv)
      have owner: "a \<in> set (ce_owners e)" by (rule find_for_agent_owner [OF inv ce(2,3)])
      obtain m cm1 where m: "make_resident c e swap cm = (m, cm1)" by fastforce
      show ?thesis
      proof (cases m)
        case (Inl err)
        with a True Some ce m acq have "r = Inl err" "cm' = cm1" by (auto simp: acquire_def)
        with make_resident_keeps [OF inv ce(3) m] ok show ?thesis by (simp add: cm_ok_def)
      next
        case (Inr u)
        with a True Some ce m acq have pin: "pin_existing now c (\<not> ce_resident e) cm1 = (r, cm')"
          by (simp add: acquire_def)
        from acquire_existing [OF ok ce(3) a m [unfolded Inr], of now "\<not> ce_resident e" False r cm'] pin owner
        obtain l where "cm_ok cm'" "pins_stable cm cm'" "r = Inr l" "granted a l cm'" by auto
        moreover have "\<not> cl_created l"
          using pin \<open>r = Inr l\<close> by (auto simp: pin_existing_def Let_def split: option.splits)
        ultimately show ?thesis using True by auto
      qed
    next
      case None
      show ?thesis
      proof (cases "length (cm_contexts cm) \<ge> cm_max_logical cm")
        case full: True
        with None a True acq ok inv show ?thesis by (auto simp: acquire_def pins_stable_refl)
      next
        case space: False
        obtain o1 cm1 where o: "obtain_sequence 0 swap cm = (o1, cm1)" by fastforce
        note spec = obtain_sequence_spec [OF inv o]
        show ?thesis
        proof (cases o1)
          case (Inl err)
          with None space a True acq ok inv o spec show ?thesis by (auto simp: acquire_def pins_stable_refl)
        next
          case (Inr q)
          with spec have inv1: "cm_inv {#q#} cm1" and keep: "keeps 0 cm cm1" by auto
          have eq: "(r, cm') = create_context now a q cm1"
            using None space a True acq o Inr by (simp add: acquire_def)
          have same: "cm_next_id cm1 = cm_next_id cm" "cm_max_logical cm1 = cm_max_logical cm"
            "length (cm_contexts cm1) = length (cm_contexts cm)"
            using keep by (auto simp: keeps_def dest: arg_cong [of _ _ length])
          have pre: "cm_next_id cm1 \<noteq> - 1" "cm_next_id cm1 \<noteq> 0"
            "length (cm_contexts cm1) < cm_max_logical cm1"
            using room ok space by (simp_all add: same roomy_def cm_ok_def)
          note cr = create_context_inv [OF inv1 a pre, of now]
          have r: "r = Inr \<lparr>cl_context_id = cm_next_id cm, cl_sequence_id = q, cl_created = True,
              cl_restored = False\<rparr>" and cm': "cm' = snd (create_context now a q cm1)"
            using eq cr(2) same by (metis fst_conv, metis snd_conv)
          have fresh: "entry_of cm (cm_next_id cm) = None"
            using cm_invD(2) [OF inv, of "cm_next_id cm"]
            by (cases "entry_of cm (cm_next_id cm)") (auto simp: entry_ok_def)
          have next_new: "cm_next_id cm' = cm_next_id cm + 1"
            by (simp add: cm' create_context_def Let_def update_stats_def same)
          have "cm_next_id cm + 1 \<noteq> 0" using room by (simp add: roomy_def add_eq_0_iff2)
          moreover have "pins_stable cm cm'"
          proof -
            have "entry_of cm' c = entry_of cm1 c" if "entry_of cm c \<noteq> None" for c
              using that fresh cr(3) by (auto simp: cm' same)
            with keeps_pins [OF inv keep] show ?thesis unfolding pins_stable_def by fastforce
          qed
          moreover have "granted a \<lparr>cl_context_id = cm_next_id cm, cl_sequence_id = q, cl_created = True,
              cl_restored = False\<rparr> cm'"
            by (simp add: granted_def cm' cr(3) same)
          ultimately show ?thesis using cr(1) True fresh by (simp add: cm_ok_def r cm' next_new [unfolded cm'])
        qed
      qed
    qed
  next
    case req: False
    show ?thesis
    proof (cases "\<exists>e. entry_of cm req = Some e \<and> authorized e a p")
      case False
      with req a acq ok inv show ?thesis
        by (auto simp: acquire_def pins_stable_refl split: option.splits if_splits)
    next
      case True
      then obtain e where e: "entry_of cm req = Some e" "authorized e a p" by blast
      obtain m cm1 where m: "make_resident req e swap cm = (m, cm1)" by fastforce
      show ?thesis
      proof (cases m)
        case (Inl err)
        with a req e m acq have "r = Inl err" "cm' = cm1" by (auto simp: acquire_def)
        with make_resident_keeps [OF inv e(1) m] ok show ?thesis by (simp add: cm_ok_def)
      next
        case (Inr u)
        with a req e m acq have pin: "pin_existing now req (\<not> ce_resident e) (add_owner req a cm1) = (r, cm')"
          by (simp add: acquire_def)
        from acquire_existing [OF ok e(1) a m [unfolded Inr], of now "\<not> ce_resident e" True r cm'] pin e req
        show ?thesis by auto
      qed
    qed
  qed
qed

end
