(* ===== verification/Context_Steps.thy ===== *)
theory Context_Steps
  imports Context_Inv
begin

text \<open>
  The context manager as a state machine: \<open>finish\<close> and \<open>release\<close> keep the invariant, the reachable
  states of the manager, and its correctness properties.
\<close>

section \<open>Finish and release\<close>

lemma finish_ok:
  assumes ok: "cm_ok cm" and f: "finish now c cm = (r, cm')"
  shows "cm_ok cm'" and "pins_stable cm cm'"
proof -
  have inv: "cm_inv {#} cm" using ok by (simp add: cm_ok_def)
  have "cm_ok cm' \<and> pins_stable cm cm'"
  proof (cases "\<exists>e. entry_of cm c = Some e \<and> ce_pins e > 0")
    case False
    then have "cm' = cm" using f by (auto simp: finish_def split: option.splits if_splits)
    with ok inv show ?thesis by (simp add: pins_stable_refl)
  next
    case True
    then obtain e where e: "entry_of cm c = Some e" "ce_pins e > 0" by blast
    let ?f = "\<lambda>e. e\<lparr>ce_pins := ce_pins e - 1, ce_last_access := now\<rparr>"
    have cm': "cm' = update_entry c ?f cm" using f e by (simp add: finish_def)
    have res: "ce_resident e" by (rule pinned_resident [OF inv e])
    have "entry_ok cm c (?f e)" using cm_invD(2) [OF inv e(1)] by (simp add: entry_ok_def)
    then have "cm_inv {#} cm'"
      by (rule cm_inv_update [OF inv e(1), where cm' = cm' and hand' = "{#}"])
        (simp_all add: cm' ctx_simps)
    moreover have "pins_stable cm cm'"
      by (rule pins_stable_trans [OF pins_stable_refl [OF inv]])
        (auto simp: cm' ctx_simps split: if_splits)
    ultimately show ?thesis using ok by (simp add: cm_ok_def cm' ctx_simps)
  qed
  then show "cm_ok cm'" "pins_stable cm cm'" by simp_all
qed

lemma update_entry_twice:
  "update_entry c f (update_stats g (update_entry c h cm)) = update_stats g (update_entry c (f \<circ> h) cm)"
  "update_entry c f (update_entry c h cm) = update_entry c (f \<circ> h) cm"
proof -
  have "AList.map_entry c f (AList.map_entry c h al) = AList.map_entry c (f \<circ> h) al"
    for al :: "(context_id \<times> context_entry) list"
    by (induction al) auto
  then show "update_entry c f (update_stats g (update_entry c h cm)) = update_stats g (update_entry c (f \<circ> h) cm)"
    and "update_entry c f (update_entry c h cm) = update_entry c (f \<circ> h) cm"
    by (simp_all add: update_entry_def update_stats_def)
qed

lemma delete_map_entry: "AList.delete c (AList.map_entry c f al) = AList.delete c al"
  by (induction al) auto

text \<open>Whose ownership a release ends.\<close>

definition released_owner :: "context_entry \<Rightarrow> agent_id \<Rightarrow> agent_id \<Rightarrow> agent_id" where
  "released_owner e agent parent =
     (if agent \<notin> set (ce_owners e) \<and> parent \<noteq> 0 \<and> parent \<in> set (ce_owners e) then parent else agent)"

lemma owner_counter:
  assumes "cm_inv h cm" and "owner_total cm < 2 ^ 64" and "entry_of cm c = Some e"
  shows "st_active_owners (cm_stats cm) > 0"
proof -
  obtain M where "entries cm = add_mset e M" using entries_at [OF cm_invD(1) [OF assms(1)] assms(3)] by metis
  moreover have "ce_owners e \<noteq> []" using cm_invD(2) [OF assms(1,3)] by (simp add: entry_ok_def)
  ultimately have "0 < owner_total cm" by (simp add: owner_total_def)
  then have "unat (of_nat (owner_total cm) :: u64) \<noteq> 0"
    using assms(2) by (simp add: unat_of_nat)
  moreover have "st_active_owners (cm_stats cm) = of_nat (owner_total cm)"
    using cm_invD(4) [OF assms(1)] by (simp add: stats_exact_def)
  ultimately show ?thesis by (metis unat_0 word_neq_0_conv)
qed

text \<open>A release that leaves other owners, and one that ends the context.\<close>

lemma release_shared:
  assumes inv: "cm_inv {#} cm" and room: "owner_total cm < 2 ^ 64" and e: "entry_of cm c = Some e"
    and o: "w \<in> set (ce_owners e)" and w: "w = released_owner e a p" and len: "length (ce_owners e) \<noteq> 1"
    and rel: "release_context now a p c cm = (r, cm')"
  shows "r = Inr (- 1, False)" and "cm_inv {#} cm'" and "cm_next_id cm' = cm_next_id cm"
    and "entry_of cm' d = (if d = c
      then Some (e\<lparr>ce_owners := removeAll w (ce_owners e), ce_last_access := now\<rparr>) else entry_of cm d)"
    and "cm_free cm' = cm_free cm"
proof -
  have ok: "entry_ok cm c e" by (rule cm_invD(2) [OF inv e])
  have dist: "distinct (ce_owners e)" using ok by (simp add: entry_ok_def)
  have rem: "removeAll w (ce_owners e) \<noteq> []"
  proof
    assume "removeAll w (ce_owners e) = []"
    then have "set (ce_owners e) \<subseteq> {w}" by (auto simp: removeAll_filter_not_eq filter_empty_conv)
    then have "card (set (ce_owners e)) \<le> 1" using card_mono [of "{w}"] by fastforce
    then have "length (ce_owners e) \<le> 1" using distinct_card [OF dist] by simp
    with len o show False by (cases "ce_owners e") auto
  qed
  let ?g = "\<lambda>st. st\<lparr>st_active_owners := (if st_active_owners st > 0 then st_active_owners st - 1
    else st_active_owners st)\<rparr>"
  let ?f = "(\<lambda>e. e\<lparr>ce_last_access := now\<rparr>) \<circ> (\<lambda>x. x\<lparr>ce_owners := removeAll w (ce_owners e)\<rparr>)"
  have out: "r = Inr (- 1, False) \<and> cm' = update_stats ?g (update_entry c ?f cm)"
    using rel e o rem len unfolding w
    by (auto simp: release_context_def Let_def update_entry_twice released_owner_def split: if_splits)
  then show "r = Inr (- 1, False)" by simp
  have pos: "st_active_owners (cm_stats cm) > 0" by (rule owner_counter [OF inv room e])
  have len1: "Suc (length (removeAll w (ce_owners e))) = length (ce_owners e)"
    using o dist length_pos_if_in_set [OF o]
    by (simp add: distinct_remove1_removeAll [symmetric] length_remove1)
  have own: "st_active_owners (cm_stats cm) - 1 + of_nat (length (ce_owners e)) =
      st_active_owners (cm_stats cm) + of_nat (length (removeAll w (ce_owners e)))"
    unfolding len1 [symmetric] by simp
  have fe: "?f e = e\<lparr>ce_owners := removeAll w (ce_owners e), ce_last_access := now\<rparr>" by simp
  have fok: "entry_ok cm c (?f e)" using ok rem by (auto simp: entry_ok_def distinct_removeAll)
  have st: "cm_stats cm' = (cm_stats cm)\<lparr>st_active_owners := st_active_owners (cm_stats cm) - 1\<rparr>"
    using out pos by (simp add: manager_fields)
  show "cm_inv {#} cm'"
    by (rule cm_inv_update [where f = ?f and cm' = cm' and hand' = "{#}" and free' = "cm_free cm"
        and st' = "cm_stats cm'", OF inv e fok])
      (simp_all only: fe st, use out own in \<open>simp_all add: manager_fields\<close>)
  show "cm_next_id cm' = cm_next_id cm" "cm_free cm' = cm_free cm"
    "entry_of cm' d = (if d = c
      then Some (e\<lparr>ce_owners := removeAll w (ce_owners e), ce_last_access := now\<rparr>) else entry_of cm d)"
    using out e by (simp_all add: ctx_simps)
qed

lemma release_last:
  assumes inv: "cm_inv {#} cm" and room: "owner_total cm < 2 ^ 64" and e: "entry_of cm c = Some e"
    and w: "ce_owners e = [released_owner e a p]" and pins: "ce_pins e = 0"
    and rel: "release_context now a p c cm = (r, cm')"
  shows "r = Inr (if ce_resident e then ce_sequence e else - 1, True)" and "cm_inv {#} cm'"
    and "cm_next_id cm' = cm_next_id cm"
    and "entry_of cm' d = (if d = c then None else entry_of cm d)"
    and "cm_free cm' = cm_free cm @ (if ce_resident e then [ce_sequence e] else [])"
proof -
  have ok: "entry_ok cm c e" by (rule cm_invD(2) [OF inv e])
  let ?cm = "cm\<lparr>cm_contexts := AList.delete c (cm_contexts cm)\<rparr>"
  obtain M where M: "entries cm = add_mset e M" "entries ?cm = M"
    using entries_at [OF cm_invD(1) [OF inv] e] by metis
  have pos: "st_active_owners (cm_stats cm) > 0" by (rule owner_counter [OF inv room e])
  have mem: "released_owner e a p \<in> set (ce_owners e)" by (subst w) simp
  have rem: "removeAll (released_owner e a p) (ce_owners e) = []" by (subst w) simp
  have len: "length (ce_owners e) = 1" by (subst w) simp
  let ?g = "\<lambda>st. st\<lparr>st_active_owners := st_active_owners st - 1\<rparr>"
  let ?h = "\<lambda>st. if ce_resident e then st\<lparr>st_resident := st_resident st - 1\<rparr>
    else st\<lparr>st_swapped := st_swapped st - 1\<rparr>"
  let ?k = "\<lambda>st. st\<lparr>st_released := st_released st + 1, st_active_contexts := st_active_contexts st - 1\<rparr>"
  have out: "r = Inr (if ce_resident e then ce_sequence e else - 1, True) \<and>
    cm' = ?cm\<lparr>cm_stats := ?k (?h (?g (cm_stats cm))),
      cm_free := cm_free cm @ (if ce_resident e then [ce_sequence e] else [])\<rparr>"
    using rel e mem rem len pins pos
    by (auto simp: release_context_def Let_def update_entry_def update_stats_def delete_map_entry
      released_owner_def split: if_splits)
  then show "r = Inr (if ce_resident e then ce_sequence e else - 1, True)" by simp
  have cm': "cm_contexts cm' = AList.delete c (cm_contexts cm)" "cm_next_id cm' = cm_next_id cm"
    "cm_free cm' = cm_free cm @ (if ce_resident e then [ce_sequence e] else [])"
    "cm_max_resident cm' = cm_max_resident cm" "cm_max_logical cm' = cm_max_logical cm"
    "cm_stats cm' = ?k (?h (?g (cm_stats cm)))"
    using out by simp_all
  show "cm_next_id cm' = cm_next_id cm"
    "cm_free cm' = cm_free cm @ (if ce_resident e then [ce_sequence e] else [])" by (fact cm')+
  have node: "entry_of cm' d = (if d = c then None else entry_of cm d)" for d
    by (simp add: cm'(1) delete_conv)
  then show "entry_of cm' d = (if d = c then None else entry_of cm d)" .
  have ents: "entries cm' = M" using M(2) by (simp add: entries_def cm'(1))
  have "resident_sequences cm = (if ce_resident e then {#ce_sequence e#} else {#}) + resident_sequences cm'"
    by (simp add: resident_sequences_def ents M(1))
  moreover have "all_sequences cm' = all_sequences cm" by (simp only: all_sequences_def cm')
  ultimately have "mset (cm_free cm') + {#} + resident_sequences cm' = all_sequences cm'"
    using cm_invD(3) [OF inv] by (cases "ce_resident e") (simp_all add: cm'(3) ac_simps)
  moreover have "stats_exact cm'"
    using cm_invD(4) [OF inv] len
    by (simp add: stats_exact_def owner_total_def ents M(1) cm'(6))
  moreover have "entry_ok cm' d g" if "entry_of cm' d = Some g" for d g
    using that [unfolded node] cm_invD(2) [OF inv, of d g]
    by (auto simp: entry_ok_def cm'(2) split: if_splits)
  moreover have "distinct (map fst (cm_contexts cm'))" "length (cm_contexts cm') \<le> cm_max_logical cm'"
    using cm_invD(1,5) [OF inv] length_delete_le [of c "cm_contexts cm"]
    by (simp_all add: cm' distinct_delete)
  ultimately show "cm_inv {#} cm'" by (simp add: cm_inv_def)
qed

lemma release_refused:
  assumes rel: "release_context now a p c cm = (r, cm')"
    and "\<not> (\<exists>e. entry_of cm c = Some e \<and> released_owner e a p \<in> set (ce_owners e) \<and>
      \<not> (length (ce_owners e) = 1 \<and> ce_pins e \<noteq> 0))"
  shows "\<exists>err. r = Inl err" and "cm' = cm"
  using assms by (auto simp: release_context_def Let_def released_owner_def split: option.splits if_splits)

lemma single_owner: "x \<in> set xs \<Longrightarrow> length xs = 1 \<Longrightarrow> xs = [x]"
  by (cases xs) auto

lemma release_context_ok:
  assumes ok: "cm_ok cm" and room: "owner_total cm < 2 ^ 64" and rel: "release_context now a p c cm = (r, cm')"
  shows "cm_ok cm'" and "pins_stable cm cm'"
proof -
  have inv: "cm_inv {#} cm" using ok by (simp add: cm_ok_def)
  have "cm_ok cm' \<and> pins_stable cm cm'"
  proof (cases "\<exists>e. entry_of cm c = Some e \<and> released_owner e a p \<in> set (ce_owners e) \<and>
      \<not> (length (ce_owners e) = 1 \<and> ce_pins e \<noteq> 0)")
    case False
    from release_refused(2) [OF rel False] ok inv show ?thesis by (simp add: pins_stable_refl)
  next
    case True
    then obtain e where e: "entry_of cm c = Some e" "released_owner e a p \<in> set (ce_owners e)"
      "\<not> (length (ce_owners e) = 1 \<and> ce_pins e \<noteq> 0)" by blast
    show ?thesis
    proof (cases "length (ce_owners e) = 1")
      case True
      with e have "ce_pins e = 0" by simp
      note rl = release_last [OF inv room e(1) single_owner [OF e(2) True] this rel]
      have "pins_stable cm cm'"
        using pinned_resident [OF inv] \<open>ce_pins e = 0\<close> e(1) by (auto simp: pins_stable_def rl(4))
      with ok rl(2,3) show ?thesis by (simp add: cm_ok_def)
    next
      case False
      note rs = release_shared [OF inv room e(1,2) refl False rel]
      have "pins_stable cm cm'"
        by (rule pins_stable_trans [OF pins_stable_refl [OF inv]])
          (use e in \<open>auto simp: rs(4) split: if_splits\<close>)
      with ok rs(2,3) show ?thesis by (simp add: cm_ok_def)
    qed
  qed
  then show "cm_ok cm'" "pins_stable cm cm'" by simp_all
qed

lemma release_context_exact:
  assumes inv: "cm_inv {#} cm" and room: "owner_total cm < 2 ^ 64" and rel: "release_context now a p c cm = (res, cm')"
  shows "case entry_of cm c of None \<Rightarrow> (\<exists>err. res = Inl err) \<and> cm' = cm | Some e \<Rightarrow>
    (let w = released_owner e a p
     in if w \<notin> set (ce_owners e) \<or> ce_owners e = [w] \<and> ce_pins e \<noteq> 0
        then (\<exists>err. res = Inl err) \<and> cm' = cm
        else if ce_owners e = [w]
        then res = Inr (if ce_resident e then ce_sequence e else - 1, True) \<and>
          cm_free cm' = cm_free cm @ (if ce_resident e then [ce_sequence e] else []) \<and>
          (\<forall>d. entry_of cm' d = (if d = c then None else entry_of cm d))
        else res = Inr (- 1, False) \<and> cm_free cm' = cm_free cm \<and>
          (\<forall>d. entry_of cm' d = (if d = c then Some (e\<lparr>ce_owners := removeAll w (ce_owners e),
              ce_last_access := now\<rparr>) else entry_of cm d)))"
proof (cases "entry_of cm c")
  case None
  with release_refused [OF rel] show ?thesis by simp
next
  case e: (Some e)
  let ?w = "released_owner e a p"
  have one: "length (ce_owners e) = 1 \<longleftrightarrow> ce_owners e = [?w]" if "?w \<in> set (ce_owners e)"
    using single_owner [OF that] by auto
  consider "?w \<notin> set (ce_owners e) \<or> ce_owners e = [?w] \<and> ce_pins e \<noteq> 0"
    | "?w \<in> set (ce_owners e)" "ce_owners e = [?w]" "ce_pins e = 0"
    | "?w \<in> set (ce_owners e)" "ce_owners e \<noteq> [?w]" by blast
  then show ?thesis
  proof cases
    case 1
    with release_refused [OF rel] e one show ?thesis by (auto simp: Let_def)
  next
    case 2
    note rl = release_last [OF inv room e 2(2,3) rel]
    with 2 show ?thesis unfolding e Let_def by simp
  next
    case 3
    then have len: "length (ce_owners e) \<noteq> 1" using one by simp
    note rs = release_shared [OF inv room e 3(1) refl len rel]
    with 3 show ?thesis unfolding e Let_def by simp
  qed
qed

section \<open>The state machine\<close>

datatype context_op =
    Op_Acquire nat agent_id agent_id context_id "swap_callbacks option"
  | Op_Finish nat context_id
  | Op_Release nat agent_id agent_id context_id

fun context_step :: "context_op \<Rightarrow> context_manager \<Rightarrow> context_manager" where
  "context_step (Op_Acquire now a p c swap) cm = snd (acquire now a p c swap cm)"
| "context_step (Op_Finish now c) cm = snd (finish now c cm)"
| "context_step (Op_Release now a p c) cm = snd (release_context now a p c cm)"

inductive cm_reachable :: "nat \<Rightarrow> nat \<Rightarrow> context_manager \<Rightarrow> bool" for r l where
  start: "cm_reachable r l (new_manager r l)"
| step: "cm_reachable r l cm \<Longrightarrow> roomy cm \<Longrightarrow> cm_reachable r l (context_step op cm)"

lemma new_manager_ok: "cm_ok (new_manager r l)"
  by (simp add: cm_ok_def cm_inv_def new_manager_def Let_def all_sequences_def resident_sequences_def
    entries_def stats_exact_def owner_total_def zero_stats_def del: upt_Suc)

lemma context_step_ok:
  assumes ok: "cm_ok cm" and room: "roomy cm"
  shows "cm_ok (context_step op cm) \<and> pins_stable cm (context_step op cm)"
proof (cases op)
  case (Op_Acquire now a p c swap)
  obtain x cm' where "acquire now a p c swap cm = (x, cm')" by fastforce
  with acquire_spec [OF ok room this] Op_Acquire show ?thesis by simp
next
  case (Op_Finish now c)
  obtain x cm' where "finish now c cm = (x, cm')" by fastforce
  with finish_ok [OF ok this] Op_Finish show ?thesis by simp
next
  case (Op_Release now a p c)
  obtain x cm' where "release_context now a p c cm = (x, cm')" by fastforce
  with release_context_ok [OF ok _ this] room Op_Release show ?thesis by (simp add: roomy_def)
qed

lemma reachable_ok: "cm_reachable r l cm \<Longrightarrow> cm_ok cm"
  by (induction rule: cm_reachable.induct) (simp_all add: new_manager_ok context_step_ok)

lemma make_resident_limits:
  "cm_max_resident (snd (make_resident c e swap cm)) = cm_max_resident cm"
  "cm_max_logical (snd (make_resident c e swap cm)) = cm_max_logical cm"
  by (auto simp: make_resident_def obtain_sequence_def ctx_simps
    split: option.splits prod.splits sum.splits if_splits)

lemma obtain_sequence_limits:
  "cm_max_resident (snd (obtain_sequence c swap cm)) = cm_max_resident cm"
  "cm_max_logical (snd (obtain_sequence c swap cm)) = cm_max_logical cm"
  by (auto simp: obtain_sequence_def ctx_simps split: option.splits prod.splits sum.splits if_splits)

lemma small_step_limits:
  "cm_max_resident (snd (pin_existing now c w cm)) = cm_max_resident cm"
  "cm_max_logical (snd (pin_existing now c w cm)) = cm_max_logical cm"
  "cm_max_resident (add_owner c a cm) = cm_max_resident cm"
  "cm_max_logical (add_owner c a cm) = cm_max_logical cm"
  "cm_max_resident (snd (create_context now a q cm)) = cm_max_resident cm"
  "cm_max_logical (snd (create_context now a q cm)) = cm_max_logical cm"
  by (auto simp: pin_existing_def add_owner_def create_context_def Let_def ctx_simps update_stats_def
    split: option.splits)

lemma acquire_limits:
  "cm_max_resident (snd (acquire now a p c swap cm)) = cm_max_resident cm \<and>
   cm_max_logical (snd (acquire now a p c swap cm)) = cm_max_logical cm"
proof -
  have split1: "snd (case make_resident d e swap cm of (Inl err, cm) \<Rightarrow> (Inl err, cm)
      | (Inr u, cm) \<Rightarrow> g cm) = (case fst (make_resident d e swap cm) of
        Inl err \<Rightarrow> snd (make_resident d e swap cm) | Inr u \<Rightarrow> snd (g (snd (make_resident d e swap cm))))"
    for d e and g :: "context_manager \<Rightarrow> (string + context_lease) \<times> context_manager"
    by (simp add: case_prod_beta split: sum.splits prod.splits)
  have split2: "snd (case obtain_sequence 0 swap cm of (Inl err, cm) \<Rightarrow> (Inl err, cm)
      | (Inr u, cm) \<Rightarrow> create_context now a u cm) = (case fst (obtain_sequence 0 swap cm) of
        Inl err \<Rightarrow> snd (obtain_sequence 0 swap cm)
      | Inr u \<Rightarrow> snd (create_context now a u (snd (obtain_sequence 0 swap cm))))"
    by (simp add: case_prod_beta split: sum.splits prod.splits)
  show ?thesis
    unfolding acquire_def
    by (auto simp: split1 split2 make_resident_limits obtain_sequence_limits small_step_limits
      split: option.split sum.split)
qed

lemma context_step_limits:
  "cm_max_resident (context_step op cm) = cm_max_resident cm \<and>
   cm_max_logical (context_step op cm) = cm_max_logical cm"
proof (cases op)
  case Op_Acquire
  then show ?thesis by (simp add: acquire_limits)
next
  case Op_Finish
  then show ?thesis by (simp add: finish_def ctx_simps split: option.splits)
next
  case Op_Release
  then show ?thesis
    by (simp add: release_context_def Let_def ctx_simps split: option.splits)
qed

lemma reachable_limits:
  "cm_reachable r l cm \<Longrightarrow> cm_max_resident cm = max 1 r \<and> cm_max_logical cm = max (max 1 r) l"
  by (induction rule: cm_reachable.induct)
    (auto simp: new_manager_def Let_def context_step_limits)

section \<open>Properties\<close>

definition resident_list :: "context_manager \<Rightarrow> context_entry list" where
  "resident_list cm = filter ce_resident (map snd (cm_contexts cm))"

lemma partition_list:
  assumes "cm_inv {#} cm"
  shows "distinct (cm_free cm @ map ce_sequence (resident_list cm))"
    and "set (cm_free cm @ map ce_sequence (resident_list cm)) = {1..int (cm_max_resident cm)}"
proof -
  let ?xs = "cm_free cm @ map ce_sequence (resident_list cm)"
  let ?ys = "map int [1..<Suc (cm_max_resident cm)]"
  have eq: "mset ?xs = mset ?ys"
    using cm_invD(3) [OF assms]
    by (simp add: resident_list_def resident_sequences_def all_sequences_def entries_def mset_filter
      del: upt_Suc)
  have "distinct ?ys" by (simp add: distinct_map del: upt_Suc)
  then show "distinct ?xs" using mset_eq_imp_distinct_iff [OF eq] by blast
  have "set ?xs = set ?ys" by (rule mset_eq_setD [OF eq])
  also have "\<dots> = int ` {1..cm_max_resident cm}" by (auto simp del: upt_Suc)
  also have "\<dots> = {1..int (cm_max_resident cm)}" by (simp add: image_int_atLeastAtMost)
  finally show "set ?xs = {1..int (cm_max_resident cm)}" .
qed

text \<open>Example states: one sequence, two contexts.\<close>

definition demo_swap :: "swap_callbacks option" where
  "demo_swap = Some \<lparr>sw_save = Some (\<lambda>_ _. Inr ()), sw_load = Some (\<lambda>_ _. Inr ())\<rparr>"

definition demo_pinned :: context_manager where
  "demo_pinned = context_step (Op_Acquire 1 7 0 0 demo_swap) (new_manager 1 2)"

definition demo_idle :: context_manager where
  "demo_idle = context_step (Op_Finish 2 1) demo_pinned"

lemma demo_roomy: "roomy (new_manager 1 2)" "roomy demo_pinned" "roomy demo_idle"
proof -
  have "cm_next_id (new_manager 1 2) = 1" "cm_next_id demo_pinned = 2" "cm_next_id demo_idle = 2"
    by code_simp+
  moreover have "entries (new_manager 1 2) = {#}"
    "image_mset ce_owners (entries demo_pinned) = {#[7]#}"
    "image_mset ce_owners (entries demo_idle) = {#[7]#}"
    unfolding entries_def demo_pinned_def demo_idle_def demo_swap_def by code_simp+
  ultimately show "roomy (new_manager 1 2)" "roomy demo_pinned" "roomy demo_idle"
    by (simp_all add: roomy_def owner_total_def multiset.map_comp [symmetric])
qed

lemma demo_reachable: "cm_reachable 1 2 demo_pinned" "cm_reachable 1 2 demo_idle"
  using cm_reachable.intros demo_roomy unfolding demo_idle_def demo_pinned_def by blast+

text \<open>
  C13. In every state that the manager reaches by any sequence of acquisitions, releases and ends of
  requests, with any swap callbacks, the sequences 1 to max of the engine are partitioned: each is
  either once in the free list or belongs to exactly one resident context. The number of contexts is
  within the logical capacity, every pinned context is resident, and the counters of contexts,
  owners, resident and swapped contexts are exact.
\<close>

theorem sequences_partitioned:
  assumes "cm_reachable r l cm"
  shows "distinct (cm_free cm @ map ce_sequence (resident_list cm)) \<and>
    set (cm_free cm @ map ce_sequence (resident_list cm)) = {1..int (max 1 r)} \<and>
    length (cm_contexts cm) \<le> max (max 1 r) l \<and>
    (\<forall>(c, e) \<in> set (cm_contexts cm). ce_pins e > 0 \<longrightarrow> ce_resident e) \<and>
    st_active_contexts (cm_stats cm) = of_nat (length (cm_contexts cm)) \<and>
    st_active_owners (cm_stats cm) = of_nat (\<Sum>(c, e) \<leftarrow> cm_contexts cm. length (ce_owners e)) \<and>
    st_resident (cm_stats cm) = of_nat (length (resident_list cm)) \<and>
    st_swapped (cm_stats cm) = of_nat (length (cm_contexts cm) - length (resident_list cm))"
proof -
  have inv: "cm_inv {#} cm" using reachable_ok [OF assms] by (simp add: cm_ok_def)
  note lim = reachable_limits [OF assms]
  have pins: "ce_resident e" if "(c, e) \<in> set (cm_contexts cm)" "ce_pins e > 0" for c e
  proof -
    have "entry_of cm c = Some e" using that(1) cm_invD(1) [OF inv] by simp
    from pinned_resident [OF inv this that(2)] show ?thesis .
  qed
  have size: "size (entries cm) = length (cm_contexts cm)"
    and res: "size (filter_mset ce_resident (entries cm)) = length (resident_list cm)"
    by (simp_all add: entries_def resident_list_def mset_filter [symmetric] del: mset_filter mset_map)
  have "size (entries cm) = size (filter_mset ce_resident (entries cm)) +
      size (filter_mset (\<lambda>e. \<not> ce_resident e) (entries cm))"
    by (metis multiset_partition size_union)
  then have swapped: "size (filter_mset (\<lambda>e. \<not> ce_resident e) (entries cm)) =
      length (cm_contexts cm) - length (resident_list cm)"
    by (simp only: size res)
  have own: "owner_total cm = (\<Sum>(c, e) \<leftarrow> cm_contexts cm. length (ce_owners e))"
    by (simp add: owner_total_def entries_def sum_mset_sum_list [symmetric] multiset.map_comp
      case_prod_unfold comp_def)
  note st = cm_invD(4) [OF inv, unfolded stats_exact_def size res swapped own]
  show ?thesis using partition_list [OF inv] lim cm_invD(5) [OF inv] pins st by auto
qed

lemma sequences_partitioned_witness:
  "set (cm_free demo_idle @ map ce_sequence (resident_list demo_idle)) = {1..int (max 1 1)}"
  using sequences_partitioned [OF demo_reachable(2)] by blast

text \<open>
  C14. A context that an unfinished request has pinned is neither evicted, moved to another sequence
  nor deleted by any operation of any agent.
\<close>

theorem pinned_context_stays:
  assumes "cm_reachable r l cm" and "roomy cm" and "entry_of cm c = Some e" and "ce_pins e > 0"
  shows "\<exists>e'. entry_of (context_step op cm) c = Some e' \<and> ce_resident e' \<and>
    ce_sequence e' = ce_sequence e"
  using context_step_ok [OF reachable_ok [OF assms(1)] assms(2), of op] assms(3,4)
  by (simp add: pins_stable_def)

lemma pinned_context_stays_witness:
  "\<exists>e'. entry_of (context_step (Op_Acquire 3 8 0 0 demo_swap) demo_pinned) 1 = Some e' \<and>
    ce_resident e' \<and> ce_sequence e' = 1"
proof -
  have "entry_of demo_pinned 1 = Some \<lparr>ce_id = 1, ce_sequence = 1, ce_resident = True, ce_pins = 1,
    ce_owners = [7], ce_last_access = 1\<rparr>" by code_simp
  from pinned_context_stays [OF demo_reachable(1) demo_roomy(2) this] show ?thesis
    by (metis context_entry.select_convs(2) context_entry.select_convs(4) zero_less_one)
qed

text \<open>
  A lease that \<open>acquire\<close> grants names a context that the agent owns afterwards, pinned and
  resident in the leased sequence. A request for a particular context gets that context, and only
  where the agent or its parent already owned it; a request for any gets one of the agent's own or
  a fresh one.
\<close>

theorem acquire_grants:
  assumes "cm_reachable r l cm" and "roomy cm" and "acquire now a p req swap cm = (Inr lease, cm')"
  shows "granted a lease cm' \<and>
    (if req = 0 then cl_created lease \<longrightarrow> entry_of cm (cl_context_id lease) = None
     else cl_context_id lease = req \<and> (\<exists>e. entry_of cm req = Some e \<and> authorized e a p))"
  using acquire_spec [OF reachable_ok [OF assms(1)] assms(2,3)] by blast

lemma acquire_grants_witness:
  "granted 8 \<lparr>cl_context_id = 2, cl_sequence_id = 1, cl_created = True, cl_restored = False\<rparr>
    (context_step (Op_Acquire 3 8 0 0 demo_swap) demo_idle)"
proof -
  have "fst (acquire 3 8 0 0 demo_swap demo_idle) =
    Inr \<lparr>cl_context_id = 2, cl_sequence_id = 1, cl_created = True, cl_restored = False\<rparr>" by code_simp
  then have "acquire 3 8 0 0 demo_swap demo_idle =
    (Inr \<lparr>cl_context_id = 2, cl_sequence_id = 1, cl_created = True, cl_restored = False\<rparr>,
     context_step (Op_Acquire 3 8 0 0 demo_swap) demo_idle)" by (simp add: prod_eq_iff)
  from acquire_grants [OF demo_reachable(2) demo_roomy(3) this] show ?thesis by simp
qed

text \<open>
  C15. When no sequence is free, the one obtained is taken from the least recently used of the
  contexts that are resident, not pinned and not the one being restored; that context is swapped
  out and all others are unchanged.
\<close>

theorem eviction_is_lru:
  assumes "cm_reachable r l cm" and "cm_free cm = []"
    and "obtain_sequence excluded swap cm = (Inr q, cm')"
  shows "\<exists>c e. entry_of cm c = Some e \<and> evictable excluded e \<and> q = ce_sequence e \<and>
    (\<forall>d g. entry_of cm d = Some g \<longrightarrow> evictable excluded g \<longrightarrow> ce_last_access e \<le> ce_last_access g) \<and>
    (\<forall>d. entry_of cm' d =
      (if d = c then Some (e\<lparr>ce_sequence := - 1, ce_resident := False\<rparr>) else entry_of cm d))"
proof -
  have inv: "cm_inv {#} cm" using reachable_ok [OF assms(1)] by (simp add: cm_ok_def)
  obtain save c e where s: "Option.bind swap sw_save = Some save"
    and v: "pick_victim excluded (cm_contexts cm) None = Some (c, e)"
    and q: "q = ce_sequence e" and cm': "cm' = update_stats (\<lambda>st. st\<lparr>st_swap_outs := st_swap_outs st + 1,
         st_resident := st_resident st - 1, st_swapped := st_swapped st + 1\<rparr>)
       (update_entry c (\<lambda>e. e\<lparr>ce_sequence := - 1, ce_resident := False\<rparr>) cm)"
    using assms(2,3) by (auto simp: obtain_sequence_def split: option.splits sum.splits)
  from victim_member [OF v cm_invD(1) [OF inv]] show ?thesis
    by (intro exI [of _ c] exI [of _ e]) (simp add: q cm' ctx_simps)
qed

lemma eviction_is_lru_witness:
  "cm_free demo_idle = [] \<and>
   (\<exists>c e. entry_of demo_idle c = Some e \<and> evictable 0 e \<and> ce_sequence e = 1)"
proof -
  have free: "cm_free demo_idle = []" by code_simp
  have "fst (obtain_sequence 0 demo_swap demo_idle) = Inr 1" by code_simp
  then have "obtain_sequence 0 demo_swap demo_idle = (Inr 1, snd (obtain_sequence 0 demo_swap demo_idle))"
    by (simp add: prod_eq_iff)
  from eviction_is_lru [OF demo_reachable(2) free this] free show ?thesis by force
qed

text \<open>
  A release fails, changing nothing, when the context does not exist, when neither the agent
  nor its parent owns it, or when its last owner releases it while it is pinned. Otherwise it ends
  one ownership: the agent's, or, for an agent that is no owner itself, its parent's. With an owner
  left the context stays where it is; without one it is deleted and its sequence is free again.
\<close>

theorem release_exact:
  assumes "cm_reachable r l cm" and "roomy cm" and "release_context now a p c cm = (res, cm')"
  shows "case entry_of cm c of None \<Rightarrow> (\<exists>err. res = Inl err) \<and> cm' = cm | Some e \<Rightarrow>
    (let w = released_owner e a p
     in if w \<notin> set (ce_owners e) \<or> ce_owners e = [w] \<and> ce_pins e \<noteq> 0
        then (\<exists>err. res = Inl err) \<and> cm' = cm
        else if ce_owners e = [w]
        then res = Inr (if ce_resident e then ce_sequence e else - 1, True) \<and>
          cm_free cm' = cm_free cm @ (if ce_resident e then [ce_sequence e] else []) \<and>
          (\<forall>d. entry_of cm' d = (if d = c then None else entry_of cm d))
        else res = Inr (- 1, False) \<and> cm_free cm' = cm_free cm \<and>
          (\<forall>d. entry_of cm' d = (if d = c then Some (e\<lparr>ce_owners := removeAll w (ce_owners e),
              ce_last_access := now\<rparr>) else entry_of cm d)))"
  using release_context_exact [OF _ _ assms(3)] reachable_ok [OF assms(1)] assms(2)
  by (simp add: cm_ok_def roomy_def)

lemma release_exact_witness:
  "fst (release_context 3 7 0 1 demo_idle) = Inr (1, True) \<and>
   entry_of (snd (release_context 3 7 0 1 demo_idle)) 1 = None"
proof -
  have "entry_of demo_idle 1 = Some \<lparr>ce_id = 1, ce_sequence = 1, ce_resident = True, ce_pins = 0,
    ce_owners = [7], ce_last_access = 2\<rparr>" by code_simp
  with release_exact [OF demo_reachable(2) demo_roomy(3) prod.collapse [symmetric], of 3 7 0 1]
  show ?thesis by (simp add: released_owner_def Let_def)
qed

end
