(* ===== verification/Posix.thy ===== *)
theory Posix
  imports Prelude
begin

text \<open>
  The fragment of the Linux interface that the shared memory of the runtime is written against:
  the descriptor table of the process, memory files with their seals, shared mappings. Every call
  that may fail takes its outcome from a list of faults, so that the theorems about the code range
  over all patterns of failure; an error is the text that \<^verbatim>\<open>strerror\<close> gives for \<^verbatim>\<open>errno\<close>.
\<close>

section \<open>State\<close>

record memfile =
  mf_data :: "u8 list"
  mf_sealed :: bool
  mf_writers :: nat

text \<open>A mapping is the file it shows and whether it may be written.\<close>

type_synonym mapping = "nat \<times> bool"

record kernel =
  k_open :: "(int \<times> nat) list"
  k_files :: "(nat \<times> memfile) list"
  k_next_file :: nat
  k_faults :: "string option list"
  k_pid :: u64
  k_next_region :: u64

type_synonym 'a sys = "kernel \<Rightarrow> (string + 'a) \<times> kernel"

abbreviation file_of :: "kernel \<Rightarrow> int \<Rightarrow> nat option" where
  "file_of k fd \<equiv> map_of (k_open k) fd"

abbreviation memfile_of :: "kernel \<Rightarrow> nat \<Rightarrow> memfile option" where
  "memfile_of k f \<equiv> map_of (k_files k) f"

text \<open>What a descriptor shows.\<close>

definition contents :: "kernel \<Rightarrow> int \<Rightarrow> u8 list option" where
  "contents k fd = Option.bind (file_of k fd) (\<lambda>f. map_option mf_data (memfile_of k f))"

definition update_file :: "nat \<Rightarrow> (memfile \<Rightarrow> memfile) \<Rightarrow> kernel \<Rightarrow> kernel" where
  "update_file f g k = k\<lparr>k_files := AList.map_entry f g (k_files k)\<rparr>"

section \<open>Calls\<close>

definition sys_call :: "'a sys \<Rightarrow> 'a sys" where
  "sys_call f k =
     (case k_faults k of
        [] \<Rightarrow> f k
      | None # fs \<Rightarrow> f (k\<lparr>k_faults := fs\<rparr>)
      | Some e # fs \<Rightarrow> (Inl e, k\<lparr>k_faults := fs\<rparr>))"

text \<open>A new descriptor is the lowest number that is not in use.\<close>

definition free_descriptor :: "kernel \<Rightarrow> int" where
  "free_descriptor k =
     (case List.find (\<lambda>d. d \<notin> set (map fst (k_open k))) (map int [0..<Suc (length (k_open k))]) of
        Some d \<Rightarrow> d | None \<Rightarrow> int (length (k_open k)))"

definition open_file :: "nat \<Rightarrow> kernel \<Rightarrow> (string + int) \<times> kernel" where
  "open_file f k = (Inr (free_descriptor k), k\<lparr>k_open := (free_descriptor k, f) # k_open k\<rparr>)"

definition sys_memfd_create :: "int sys" where
  "sys_memfd_create = sys_call (\<lambda>k.
     open_file (k_next_file k)
       (k\<lparr>k_files := (k_next_file k, \<lparr>mf_data = [], mf_sealed = False, mf_writers = 0\<rparr>) # k_files k,
          k_next_file := k_next_file k + 1\<rparr>))"

definition with_file :: "int \<Rightarrow> (nat \<Rightarrow> memfile \<Rightarrow> 'a sys) \<Rightarrow> 'a sys" where
  "with_file fd g k =
     (case file_of k fd of
        None \<Rightarrow> (Inl ''Bad file descriptor'', k)
      | Some f \<Rightarrow> (case memfile_of k f of
            None \<Rightarrow> (Inl ''Bad file descriptor'', k)
          | Some mf \<Rightarrow> g f mf k))"

definition resize_data :: "nat \<Rightarrow> u8 list \<Rightarrow> u8 list" where
  "resize_data n bs = take n bs @ replicate (n - length bs) 0"

definition sys_ftruncate :: "int \<Rightarrow> u64 \<Rightarrow> unit sys" where
  "sys_ftruncate fd n = sys_call (with_file fd (\<lambda>f mf k.
     if mf_sealed mf then (Inl ''Operation not permitted'', k)
     else (Inr (), update_file f (\<lambda>mf. mf\<lparr>mf_data := resize_data (unat n) (mf_data mf)\<rparr>) k)))"

definition sys_fstat :: "int \<Rightarrow> nat sys" where
  "sys_fstat fd = sys_call (with_file fd (\<lambda>f mf k. (Inr (length (mf_data mf)), k)))"

definition sys_mmap :: "int \<Rightarrow> bool \<Rightarrow> mapping sys" where
  "sys_mmap fd writable = sys_call (with_file fd (\<lambda>f mf k.
     if writable \<and> mf_sealed mf then (Inl ''Operation not permitted'', k)
     else (Inr (f, writable),
           if writable then update_file f (\<lambda>mf. mf\<lparr>mf_writers := mf_writers mf + 1\<rparr>) k else k)))"

definition sys_munmap :: "mapping \<Rightarrow> unit sys" where
  "sys_munmap m = sys_call (\<lambda>k. (Inr (),
     if snd m then update_file (fst m) (\<lambda>mf. mf\<lparr>mf_writers := mf_writers mf - 1\<rparr>) k else k))"

text \<open>Seals against writing, growing, shrinking and further seals.\<close>

definition sys_add_seals :: "int \<Rightarrow> unit sys" where
  "sys_add_seals fd = sys_call (with_file fd (\<lambda>f mf k.
     if mf_sealed mf then (Inl ''Operation not permitted'', k)
     else if mf_writers mf \<noteq> 0 then (Inl ''Device or resource busy'', k)
     else (Inr (), update_file f (\<lambda>mf. mf\<lparr>mf_sealed := True\<rparr>) k)))"

definition sys_dup :: "int \<Rightarrow> int sys" where
  "sys_dup fd = sys_call (\<lambda>k.
     case file_of k fd of None \<Rightarrow> (Inl ''Bad file descriptor'', k) | Some f \<Rightarrow> open_file f k)"

text \<open>\<open>close\<close> releases the descriptor whatever it returns.\<close>

definition sys_close :: "int \<Rightarrow> kernel \<Rightarrow> kernel" where
  "sys_close fd k = k\<lparr>k_open := AList.delete fd (k_open k)\<rparr>"

section \<open>The descriptor table\<close>

definition kernel_ok :: "kernel \<Rightarrow> bool" where
  "kernel_ok k \<longleftrightarrow>
     distinct (map fst (k_open k)) \<and> (\<forall>(fd, f) \<in> set (k_open k). 0 \<le> fd \<and> memfile_of k f \<noteq> None) \<and>
     (\<forall>f \<in> set (map fst (k_files k)). f < k_next_file k)"

lemma free_descriptor_spec: "free_descriptor k \<notin> set (map fst (k_open k)) \<and> 0 \<le> free_descriptor k"
proof -
  let ?ds = "map int [0..<Suc (length (k_open k))]"
  have "\<exists>d \<in> set ?ds. d \<notin> set (map fst (k_open k))"
  proof (rule ccontr)
    assume "\<not> ?thesis"
    then have "set ?ds \<subseteq> set (map fst (k_open k))" by blast
    then have "card (set ?ds) \<le> card (set (map fst (k_open k)))" by (intro card_mono) auto
    also have "\<dots> \<le> length (k_open k)" using card_length [of "map fst (k_open k)"] by simp
    finally show False by (simp add: card_image del: upt_Suc)
  qed
  then obtain d where d: "List.find (\<lambda>d. d \<notin> set (map fst (k_open k))) ?ds = Some d"
    by (metis (no_types, lifting) find_None_iff not_None_eq)
  then have "d \<in> set ?ds" "d \<notin> set (map fst (k_open k))"
    by (auto simp: find_Some_iff simp del: upt_Suc)
  then show ?thesis using d by (auto simp: free_descriptor_def simp del: upt_Suc)
qed

lemma file_of_update [sys_simps]: "file_of (update_file f g k) fd = file_of k fd"
  by (simp add: update_file_def)

lemma memfile_of_update [sys_simps]:
  "memfile_of (update_file f g k) f' = (if f' = f then map_option g (memfile_of k f) else memfile_of k f')"
  by (simp add: update_file_def map_entry_map_of)

lemma update_file_fields [sys_simps]:
  "k_open (update_file f g k) = k_open k" "k_next_file (update_file f g k) = k_next_file k"
  "k_faults (update_file f g k) = k_faults k" "k_pid (update_file f g k) = k_pid k"
  "k_next_region (update_file f g k) = k_next_region k"
  "map fst (k_files (update_file f g k)) = map fst (k_files k)"
  by (simp_all add: update_file_def map_entry_keys)

lemma kernel_ok_update [sys_simps]: "kernel_ok (update_file f g k) = kernel_ok k"
  unfolding kernel_ok_def update_file_fields(1,2,6) memfile_of_update by (auto split: if_splits)

lemma kernel_ok_faults [sys_simps]:
  "kernel_ok (k\<lparr>k_faults := fs\<rparr>) = kernel_ok k" "kernel_ok (k\<lparr>k_next_region := n\<rparr>) = kernel_ok k"
  by (simp_all add: kernel_ok_def)

lemma kernel_ok_close: "kernel_ok k \<Longrightarrow> kernel_ok (sys_close fd k)"
  by (auto simp: kernel_ok_def sys_close_def AList.delete_eq distinct_map_filter)

lemma file_of_close: "file_of (sys_close fd k) fd' = (if fd' = fd then None else file_of k fd')"
  by (simp add: sys_close_def delete_conv)

lemma kernel_okD:
  assumes "kernel_ok k" and "file_of k fd = Some f"
  shows "0 \<le> fd" and "\<exists>mf. memfile_of k f = Some mf"
proof -
  have "(fd, f) \<in> set (k_open k)" using map_of_SomeD [OF assms(2)] .
  with assms(1) have "0 \<le> fd \<and> memfile_of k f \<noteq> None" by (auto simp: kernel_ok_def)
  then show "0 \<le> fd" "\<exists>mf. memfile_of k f = Some mf" by auto
qed

lemma kernel_ok_open:
  assumes "kernel_ok k" and "memfile_of k f \<noteq> None"
  shows "kernel_ok (snd (open_file f k))"
  using assms free_descriptor_spec [of k] by (auto simp: kernel_ok_def open_file_def)

text \<open>The outcome of a call: its fault is consumed, then it runs or not.\<close>

lemma sys_call_cases:
  assumes "sys_call f k = (r, k')"
  obtains (fault) e fs where "r = Inl e" "k' = k\<lparr>k_faults := fs\<rparr>"
  | (run) fs where "f (k\<lparr>k_faults := fs\<rparr>) = (r, k')"
proof (cases "k_faults k")
  case Nil
  have "k\<lparr>k_faults := []\<rparr> = k" by (subst Nil [symmetric]) simp
  moreover have "f k = (r, k')" using assms Nil by (simp add: sys_call_def)
  ultimately have "f (k\<lparr>k_faults := []\<rparr>) = (r, k')" by (simp only:)
  then show ?thesis by (rule run)
next
  case (Cons x fs)
  with assms show ?thesis using fault run by (cases x) (auto simp: sys_call_def)
qed

lemma sys_call_no_fault: "k_faults k = [] \<Longrightarrow> sys_call f k = f k"
  by (simp add: sys_call_def)

end
