(* ===== verification/Shared_Memory.thy ===== *)
theory Shared_Memory
  imports Posix Agent_Types Wire
begin

text \<open>
  Shared memory regions, the store of agent results, the descriptor channel and the event notifier
  (\<^verbatim>\<open>agent-runtime/src/shared_memory.cpp\<close>). The process-wide state of the operating system is passed
  explicitly; a C++ object that owns a descriptor is a record, and the destructor and the move
  assignment that C++ runs implicitly are written out.
\<close>

section \<open>Regions\<close>

record region =
  rg_address :: "mapping option"
  rg_size :: u64
  rg_descriptor :: int
  rg_region_id :: u64
  rg_read_only :: bool

definition empty_region :: region where
  "empty_region = \<lparr>rg_address = None, rg_size = 0, rg_descriptor = - 1, rg_region_id = 0,
     rg_read_only = False\<rparr>"

definition region_valid :: "region \<Rightarrow> bool" where
  "region_valid r \<longleftrightarrow> rg_address r \<noteq> None \<and> rg_size r > 0"

definition system_error :: "string \<Rightarrow> string \<Rightarrow> string" where
  "system_error operation strerror = operation @ '' failed: '' @ strerror"

definition make_region_id :: "kernel \<Rightarrow> u64 \<times> kernel" where
  "make_region_id k =
     (push_bit 32 (k_pid k) OR (k_next_region k AND 0xffffffff),
      k\<lparr>k_next_region := k_next_region k + 1\<rparr>)"

text \<open>\<open>std::numeric_limits<off_t>::max()\<close>.\<close>

definition off_max :: u64 where
  "off_max = 0x7fffffffffffffff"

definition region_create :: "u64 \<Rightarrow> region sys" where
  "region_create sz k =
     (if sz = 0 \<or> sz > off_max then (Inl ''shared memory size must be non-zero'', k)
      else case sys_memfd_create k of
        (Inl e, k) \<Rightarrow> (Inl (system_error ''memfd_create'' e), k)
      | (Inr fd, k) \<Rightarrow>
          (case sys_ftruncate fd sz k of
             (Inl e, k) \<Rightarrow> (Inl (system_error ''ftruncate'' e), sys_close fd k)
           | (Inr _, k) \<Rightarrow>
               (case sys_mmap fd True k of
                  (Inl e, k) \<Rightarrow> (Inl (system_error ''mmap'' e), sys_close fd k)
                | (Inr m, k) \<Rightarrow>
                    (case make_region_id k of
                       (rid, k) \<Rightarrow> (Inr \<lparr>rg_address = Some m, rg_size = sz, rg_descriptor = fd,
                                       rg_region_id = rid, rg_read_only = False\<rparr>, k)))))"

text \<open>The two functions that map a received descriptor differ in the access they ask for.\<close>

definition map_descriptor :: "bool \<Rightarrow> string \<Rightarrow> int \<Rightarrow> u64 \<Rightarrow> u64 \<Rightarrow> region sys" where
  "map_descriptor writable what fd sz rid k =
     (if fd < 0 \<or> sz = 0 then (Inl ''invalid shared memory descriptor'', k)
      else case sys_fstat fd k of
        (Inl e, k) \<Rightarrow> (Inl ''shared memory descriptor is smaller than declared'', sys_close fd k)
      | (Inr n, k) \<Rightarrow>
          if n < unat sz
          then (Inl ''shared memory descriptor is smaller than declared'', sys_close fd k)
          else (case sys_mmap fd writable k of
                  (Inl e, k) \<Rightarrow> (Inl (system_error what e), sys_close fd k)
                | (Inr m, k) \<Rightarrow> (Inr \<lparr>rg_address = Some m, rg_size = sz, rg_descriptor = fd,
                                   rg_region_id = rid, rg_read_only = \<not> writable\<rparr>, k)))"

definition map_existing :: "int \<Rightarrow> u64 \<Rightarrow> u64 \<Rightarrow> region sys" where
  "map_existing = map_descriptor True ''mmap''"

definition map_existing_read_only :: "int \<Rightarrow> u64 \<Rightarrow> u64 \<Rightarrow> region sys" where
  "map_existing_read_only = map_descriptor False ''mmap read-only''"

text \<open>A method that changes the region returns it.\<close>

definition region_resize :: "u64 \<Rightarrow> region \<Rightarrow> kernel \<Rightarrow> (string + unit) \<times> region \<times> kernel" where
  "region_resize sz r k =
     (case rg_address r of
        None \<Rightarrow> (Inl ''invalid shared memory resize'', r, k)
      | Some m \<Rightarrow>
          if \<not> region_valid r \<or> rg_read_only r \<or> sz = 0 \<or> sz > off_max
          then (Inl ''invalid shared memory resize'', r, k)
          else if sz = rg_size r then (Inr (), r, k)
          else case sys_munmap m k of
            (Inl e, k) \<Rightarrow> (Inl (system_error ''munmap before resize'' e), r, k)
          | (Inr _, k) \<Rightarrow>
              (case sys_ftruncate (rg_descriptor r) sz k of
                 (Inl e, k) \<Rightarrow>
                   (case sys_mmap (rg_descriptor r) True k of
                      (Inl e', k) \<Rightarrow> (Inl (system_error ''resize shared memory'' e'),
                                     r\<lparr>rg_address := None\<rparr>, k)
                    | (Inr m, k) \<Rightarrow> (Inl (system_error ''resize shared memory'' e),
                                    r\<lparr>rg_address := Some m\<rparr>, k))
               | (Inr _, k) \<Rightarrow>
                   (case sys_mmap (rg_descriptor r) True k of
                      (Inl e, k) \<Rightarrow> (Inl (system_error ''remap resized shared memory'' e),
                                    r\<lparr>rg_address := None, rg_size := sz\<rparr>, k)
                    | (Inr m, k) \<Rightarrow> (Inr (), r\<lparr>rg_address := Some m, rg_size := sz\<rparr>, k))))"

definition seal_read_only :: "region \<Rightarrow> kernel \<Rightarrow> (string + unit) \<times> region \<times> kernel" where
  "seal_read_only r k =
     (case rg_address r of
        None \<Rightarrow> (Inl ''shared memory region is not writable'', r, k)
      | Some m \<Rightarrow>
          if \<not> region_valid r \<or> rg_read_only r
          then (Inl ''shared memory region is not writable'', r, k)
          else case sys_munmap m k of
            (Inl e, k) \<Rightarrow> (Inl (system_error ''munmap before sealing'' e), r, k)
          | (Inr _, k) \<Rightarrow>
              (case sys_add_seals (rg_descriptor r) k of
                 (Inl e, k) \<Rightarrow> (Inl (system_error ''seal shared memory'' e),
                               r\<lparr>rg_address := None\<rparr>, k)
               | (Inr _, k) \<Rightarrow>
                   (case sys_mmap (rg_descriptor r) False k of
                      (Inl e, k) \<Rightarrow> (Inl (system_error ''remap sealed shared memory'' e),
                                    r\<lparr>rg_address := None\<rparr>, k)
                    | (Inr m, k) \<Rightarrow> (Inr (), r\<lparr>rg_address := Some m, rg_read_only := True\<rparr>, k))))"

definition unmap_region :: "region \<Rightarrow> kernel \<Rightarrow> kernel" where
  "unmap_region r k =
     (case rg_address r of
        Some m \<Rightarrow> if rg_size r > 0 then snd (sys_munmap m k) else k
      | None \<Rightarrow> k)"

text \<open>\<open>reset\<close>, which is also the destructor; the region is empty afterwards.\<close>

definition region_reset :: "region \<Rightarrow> kernel \<Rightarrow> kernel" where
  "region_reset r k =
     (let k = unmap_region r k
      in if rg_descriptor r \<ge> 0 then sys_close (rg_descriptor r) k else k)"

text \<open>\<open>release_descriptor\<close> gives the descriptor away and leaves the region empty.\<close>

definition region_release :: "region \<Rightarrow> kernel \<Rightarrow> int \<times> region \<times> kernel" where
  "region_release r k = (rg_descriptor r, empty_region, unmap_region r k)"

text \<open>Move assignment of \<open>other\<close> to \<open>r\<close>: the new value of \<open>r\<close>, and \<open>other\<close> is empty.\<close>

definition region_assign :: "region \<Rightarrow> region \<Rightarrow> kernel \<Rightarrow> region \<times> region \<times> kernel" where
  "region_assign r other k = (other, empty_region, region_reset r k)"

section \<open>Result handles and the result store\<close>

record result_handle =
  rh_reference :: shared_buffer_ref
  rh_descriptor :: int

definition handle_valid :: "result_handle \<Rightarrow> bool" where
  "handle_valid h \<longleftrightarrow> rh_descriptor h \<ge> 0 \<and> br_region_id (rh_reference h) \<noteq> 0"

definition handle_destroy :: "result_handle \<Rightarrow> kernel \<Rightarrow> kernel" where
  "handle_destroy h k = (if rh_descriptor h \<ge> 0 then sys_close (rh_descriptor h) k else k)"

definition handle_release :: "result_handle \<Rightarrow> int \<times> result_handle" where
  "handle_release h = (rh_descriptor h, h\<lparr>rh_descriptor := - 1\<rparr>)"

definition handle_assign ::
  "result_handle \<Rightarrow> result_handle \<Rightarrow> kernel \<Rightarrow> result_handle \<times> result_handle \<times> kernel" where
  "handle_assign h other k =
     (\<lparr>rh_reference = rh_reference other, rh_descriptor = rh_descriptor other\<rparr>,
      other\<lparr>rh_descriptor := - 1\<rparr>, handle_destroy h k)"

record stored_result =
  sr_region :: region
  sr_reference :: shared_buffer_ref

type_synonym result_store = "(agent_id \<times> stored_result) list"

text \<open>\<open>insert_or_assign\<close>: assigning to an existing entry resets the region it held.\<close>

definition insert_or_assign ::
  "agent_id \<Rightarrow> stored_result \<Rightarrow> result_store \<Rightarrow> kernel \<Rightarrow> result_store \<times> kernel" where
  "insert_or_assign a s st k =
     (case map_of st a of
        None \<Rightarrow> (st @ [(a, s)], k)
      | Some old \<Rightarrow> (AList.map_entry a (\<lambda>_. s) st, region_reset (sr_region old) k))"

definition result_reference :: "region \<Rightarrow> u64 \<Rightarrow> u32 \<Rightarrow> u32 \<Rightarrow> shared_buffer_ref" where
  "result_reference r len ty flags =
     \<lparr>br_region_id = rg_region_id r, br_region_size = rg_size r, br_offset = 0, br_length = len,
      br_data_type = ty, br_flags = flags OR shared_buffer_immutable, br_version = 1\<rparr>"

text \<open>\<open>publish\<close> takes the region by value: on every early return the parameter is destroyed.\<close>

definition publish ::
  "agent_id \<Rightarrow> region \<Rightarrow> u64 \<Rightarrow> u32 \<Rightarrow> u32 \<Rightarrow> result_store \<Rightarrow> kernel \<Rightarrow>
   (string + unit) \<times> result_store \<times> kernel"
where
  "publish a r len ty flags st k =
     (if a = kInvalidAgentId \<or> \<not> region_valid r \<or> len > rg_size r
      then (Inl ''invalid agent result'', st, region_reset r k)
      else
        (let retained = (if len = 0 then 1 else len)
         in case (if retained \<noteq> rg_size r then region_resize retained r k else (Inr (), r, k)) of
              (Inl e, r, k) \<Rightarrow> (Inl e, st, region_reset r k)
            | (Inr _, r, k) \<Rightarrow>
                (case seal_read_only r k of
                   (Inl e, r, k) \<Rightarrow> (Inl e, st, region_reset r k)
                 | (Inr _, r, k) \<Rightarrow>
                     (case insert_or_assign a
                        \<lparr>sr_region = r, sr_reference = result_reference r len ty flags\<rparr> st k of
                        (st, k) \<Rightarrow> (Inr (), st, k)))))"

definition acquire_result :: "agent_id \<Rightarrow> result_store \<Rightarrow> result_handle sys" where
  "acquire_result a st k =
     (case map_of st a of
        None \<Rightarrow> (Inl ''agent result is not available'', k)
      | Some s \<Rightarrow>
          (case sys_dup (rg_descriptor (sr_region s)) k of
             (Inl e, k) \<Rightarrow> (Inl (system_error ''duplicate result descriptor'' e), k)
           | (Inr fd, k) \<Rightarrow> (Inr \<lparr>rh_reference = sr_reference s, rh_descriptor = fd\<rparr>, k)))"

definition erase_result :: "agent_id \<Rightarrow> result_store \<Rightarrow> kernel \<Rightarrow> bool \<times> result_store \<times> kernel" where
  "erase_result a st k =
     (case map_of st a of
        None \<Rightarrow> (False, st, k)
      | Some s \<Rightarrow> (True, AList.delete a st, region_reset (sr_region s) k))"

fun clear_results :: "result_store \<Rightarrow> kernel \<Rightarrow> result_store \<times> kernel" where
  "clear_results [] k = ([], k)"
| "clear_results ((a, s) # st) k = clear_results st (region_reset (sr_region s) k)"

definition result_count :: "result_store \<Rightarrow> nat" where
  "result_count st = length st"

section \<open>The descriptor channel\<close>

text \<open>
  A packet on the socket: the bytes, the file that travels with it, and whether the control data
  was cut. A reference crosses the socket as the memory image of its struct, 48 bytes.
\<close>

record packet =
  pk_payload :: "u8 list"
  pk_file :: "nat option"
  pk_truncated :: bool

definition send_reference ::
  "shared_buffer_ref \<Rightarrow> int \<Rightarrow> packet list \<Rightarrow> kernel \<Rightarrow> (string + unit) \<times> packet list \<times> kernel" where
  "send_reference b fd sock k =
     (if br_region_id b = 0 \<or> br_region_size b = 0 \<or> br_offset b > br_region_size b \<or>
         br_length b > br_region_size b - br_offset b \<or> fd < 0
      then (Inl ''invalid shared buffer reference'', sock, k)
      else case sys_call (\<lambda>k. case file_of k fd of None \<Rightarrow> (Inl ''Bad file descriptor'', k)
                            | Some f \<Rightarrow> (Inr f, k)) k of
        (Inl e, k) \<Rightarrow> (Inl (system_error ''sendmsg'' e), sock, k)
      | (Inr f, k) \<Rightarrow>
          (Inr (), sock @ [\<lparr>pk_payload = ref_bytes b, pk_file = Some f, pk_truncated = False\<rparr>], k))"

text \<open>
  \<open>recvmsg\<close> installs the descriptor of the packet in the receiver. The struct is filled from the
  48 bytes that were received. After a short packet the code reports an \<^verbatim>\<open>errno\<close> that no call has
  set; the model gives it the text for 0.
\<close>

definition sys_recvmsg :: "packet list \<Rightarrow> kernel \<Rightarrow> (string + (u8 list \<times> int option \<times> bool)) \<times> packet list \<times> kernel"
where
  "sys_recvmsg sock k =
     (case sys_call (\<lambda>k. case sock of [] \<Rightarrow> (Inl ''Resource temporarily unavailable'', k)
                         | p # _ \<Rightarrow> (Inr p, k)) k of
        (Inl e, k) \<Rightarrow> (Inl e, sock, k)
      | (Inr p, k) \<Rightarrow>
          (case pk_file p of
             Some f \<Rightarrow> (case open_file f k of
                 (Inl e, k) \<Rightarrow> (Inl e, tl sock, k)
               | (Inr fd, k) \<Rightarrow> (Inr (take 48 (pk_payload p), Some fd, pk_truncated p), tl sock, k))
           | None \<Rightarrow> (Inr (take 48 (pk_payload p), None, pk_truncated p), tl sock, k)))"

definition receive_reference ::
  "packet list \<Rightarrow> kernel \<Rightarrow> (string + (shared_buffer_ref \<times> int)) \<times> packet list \<times> kernel" where
  "receive_reference sock k =
     (case sys_recvmsg sock k of
        (Inl e, sock, k) \<Rightarrow> (Inl (system_error ''recvmsg'' e), sock, k)
      | (Inr (bytes, fd, truncated), sock, k) \<Rightarrow>
          (case get_ref_fields bytes of
             None \<Rightarrow> (Inl (system_error ''recvmsg'' ''Success''), sock, k)
           | Some (b, _) \<Rightarrow>
               if truncated then (Inl ''received descriptor was truncated'', sock, k)
               else case fd of
                 None \<Rightarrow> (Inl ''message did not contain a file descriptor'', sock, k)
               | Some fd \<Rightarrow>
                   if br_version b \<noteq> 1 \<or> br_region_size b = 0 \<or> br_offset b > br_region_size b \<or>
                      br_length b > br_region_size b - br_offset b
                   then (Inl ''invalid shared buffer bounds'', sock, sys_close fd k)
                   else (Inr (b, fd), sock, k)))"

section \<open>The event notifier\<close>

text \<open>An event descriptor is a 64-bit counter; the descriptor is not blocking.\<close>

record notifier =
  en_descriptor :: int
  en_counter :: u64

definition max_u64 :: u64 where
  "max_u64 = - 1"

definition event_signal :: "u64 \<Rightarrow> notifier \<Rightarrow> (string + unit) \<times> notifier" where
  "event_signal v n =
     (if en_descriptor n < 0 \<or> v = 0 \<or> v = max_u64 then (Inl ''invalid eventfd signal'', n)
      else if unat (en_counter n) + unat v > unat (max_u64 - 1)
      then (Inl (system_error ''eventfd write'' ''Resource temporarily unavailable''), n)
      else (Inr (), n\<lparr>en_counter := en_counter n + v\<rparr>))"

text \<open>\<open>poll\<close> waits until the counter is positive or the time is over, or fails.\<close>

definition event_wait :: "string option \<Rightarrow> notifier \<Rightarrow> (string + u64) \<times> notifier" where
  "event_wait poll_error n =
     (if en_descriptor n < 0 then (Inl ''eventfd is not initialized'', n)
      else case poll_error of
        Some e \<Rightarrow> (Inl (system_error ''eventfd poll'' e), n)
      | None \<Rightarrow>
          if en_counter n = 0 then (Inl ''eventfd wait timed out'', n)
          else (Inr (en_counter n), n\<lparr>en_counter := 0\<rparr>))"

end
