(* ===== verification/Shared_Memory_Inv.thy ===== *)
theory Shared_Memory_Inv
  imports Shared_Memory Alist_Multiset
begin

text \<open>
  Ownership of descriptors and immutability of results: the operations on regions and on the result
  store as steps of a process, the invariant of its state, and the correctness properties.
\<close>

section \<open>What a call may touch\<close>

text \<open>\<open>F\<close> are the files whose contents or seals may change, \<open>D\<close> the descriptors that may.\<close>

definition frame :: "nat set \<Rightarrow> int set \<Rightarrow> kernel \<Rightarrow> kernel \<Rightarrow> bool" where
  "frame F D k k' \<longleftrightarrow> kernel_ok k' \<and> k_pid k' = k_pid k \<and>
     (\<forall>fd. fd \<notin> D \<longrightarrow> file_of k' fd = file_of k fd) \<and>
     (\<forall>f mf. f \<notin> F \<longrightarrow> memfile_of k f = Some mf \<longrightarrow>
        (\<exists>mf'. memfile_of k' f = Some mf' \<and> mf_data mf' = mf_data mf \<and> mf_sealed mf' = mf_sealed mf))"

lemma frame_trans:
  assumes "frame F D k k1" and "frame F' D' k1 k2"
  shows "frame (F \<union> F') (D \<union> D') k k2"
  using assms unfolding frame_def by (metis UnCI)

lemma frame_fewer:
  assumes "frame F D k k'" and "\<And>fd. fd \<in> D \<Longrightarrow> file_of k' fd = file_of k fd"
  shows "frame F D' k k'"
  using assms unfolding frame_def by metis

lemma frame_new_file:
  "frame {f} D k k' \<Longrightarrow> memfile_of k f = None \<Longrightarrow> frame {} D k k'"
  unfolding frame_def by (metis option.distinct(1) singletonD)

lemma frame_mono: "frame F D k k' \<Longrightarrow> F \<subseteq> F' \<Longrightarrow> D \<subseteq> D' \<Longrightarrow> frame F' D' k k'"
  unfolding frame_def by blast

lemma frameD:
  assumes "frame F D k k'"
  shows "kernel_ok k'" and "k_pid k' = k_pid k"
    and "fd \<notin> D \<Longrightarrow> file_of k' fd = file_of k fd"
    and "f \<notin> F \<Longrightarrow> memfile_of k f = Some mf \<Longrightarrow>
      \<exists>mf'. memfile_of k' f = Some mf' \<and> mf_data mf' = mf_data mf \<and> mf_sealed mf' = mf_sealed mf"
  using assms by (auto simp: frame_def)

lemma frame_faults: "kernel_ok k \<Longrightarrow> frame {} {} k (k\<lparr>k_faults := fs\<rparr>)"
  by (simp add: frame_def sys_simps)

lemma frame_update:
  "kernel_ok k \<Longrightarrow> frame {f} {} k (update_file f g (k\<lparr>k_faults := fs\<rparr>))"
  by (simp add: frame_def sys_simps)

lemma frame_update_writers:
  "kernel_ok k \<Longrightarrow> frame {} {} k (update_file f (\<lambda>mf. mf\<lparr>mf_writers := w mf\<rparr>) (k\<lparr>k_faults := fs\<rparr>))"
  by (auto simp: frame_def sys_simps)

section \<open>Calls\<close>

lemma munmap_frame:
  assumes "kernel_ok k" and "sys_munmap m k = (r, k')"
  shows "frame {} {} k k'"
  using assms(2) unfolding sys_munmap_def
  by (cases rule: sys_call_cases)
    (use assms(1) in \<open>auto intro: frame_faults frame_update_writers\<close>)

lemma mmap_frame:
  assumes "kernel_ok k" and "sys_mmap fd w k = (r, k')"
  shows "frame {} {} k k'" and "r = Inr m \<Longrightarrow> Some (fst m) = file_of k fd \<and> snd m = w"
  using assms(2) unfolding sys_mmap_def
  by (cases rule: sys_call_cases;
    use assms(1) in \<open>auto simp: with_file_def intro: frame_faults frame_update_writers
      split: option.splits if_splits\<close>)+

lemma ftruncate_frame:
  assumes "kernel_ok k" and "sys_ftruncate fd n k = (r, k')"
    and "file_of k fd = Some f" and "memfile_of k f = Some mf"
  shows "frame {f} {} k k'"
    and "\<exists>mf'. memfile_of k' f = Some mf' \<and> mf_sealed mf' = mf_sealed mf \<and>
      mf_data mf' = (if r = Inr () then resize_data (unat n) (mf_data mf) else mf_data mf)"
  using assms(2) unfolding sys_ftruncate_def
  by (cases rule: sys_call_cases;
    use assms(1,3,4) in \<open>auto simp: with_file_def sys_simps
      intro: frame_update frame_mono [OF frame_faults] split: option.splits if_splits\<close>)+

lemma add_seals_frame:
  assumes "kernel_ok k" and "sys_add_seals fd k = (r, k')"
    and "file_of k fd = Some f" and "memfile_of k f = Some mf"
  shows "frame {f} {} k k'"
    and "\<exists>mf'. memfile_of k' f = Some mf' \<and> mf_data mf' = mf_data mf \<and>
      mf_sealed mf' = (if r = Inr () then True else mf_sealed mf)"
  using assms(2) unfolding sys_add_seals_def
  by (cases rule: sys_call_cases;
    use assms(1,3,4) in \<open>auto simp: with_file_def sys_simps
      intro: frame_update frame_mono [OF frame_faults] split: option.splits if_splits\<close>)+

lemma close_frame:
  assumes "kernel_ok k"
  shows "frame {} {fd} k (sys_close fd k)"
  using kernel_ok_close [OF assms] file_of_close [of fd k]
  by (auto simp: frame_def) (simp_all add: sys_close_def)

lemma open_frame:
  assumes "kernel_ok k" and "memfile_of k f \<noteq> None" and "open_file f (k\<lparr>k_faults := fs\<rparr>) = (r, k')"
  shows "\<exists>fd. r = Inr fd \<and> file_of k fd = None \<and> frame {} {fd} k k' \<and> file_of k' fd = Some f"
proof -
  let ?k = "k\<lparr>k_faults := fs\<rparr>"
  have eq: "r = Inr (free_descriptor ?k)" "k' = snd (open_file f ?k)"
    using assms(3) by (simp_all add: open_file_def)
  have "file_of k (free_descriptor ?k) = None"
    using free_descriptor_spec [of ?k] by (simp add: map_of_eq_None_iff)
  moreover have "kernel_ok k'"
    unfolding eq(2) by (rule kernel_ok_open) (use assms in \<open>simp_all add: sys_simps\<close>)
  ultimately show ?thesis using eq by (auto simp: frame_def open_file_def)
qed

lemma dup_frame:
  assumes "kernel_ok k" and "sys_dup fd k = (r, k')"
  shows "(\<exists>e. r = Inl e \<and> frame {} {} k k') \<or>
    (\<exists>fd'. r = Inr fd' \<and> file_of k fd' = None \<and> frame {} {fd'} k k' \<and>
      file_of k fd \<noteq> None \<and> file_of k' fd' = file_of k fd)"
  using assms(2) unfolding sys_dup_def
proof (cases rule: sys_call_cases)
  case (fault e fs)
  with assms(1) show ?thesis by (simp add: frame_faults)
next
  case (run fs)
  show ?thesis
  proof (cases "file_of k fd")
    case None
    with run assms(1) show ?thesis by (auto simp: frame_faults)
  next
    case (Some f)
    with run have "open_file f (k\<lparr>k_faults := fs\<rparr>) = (r, k')" by simp
    with open_frame [OF assms(1)] kernel_okD(2) [OF assms(1) Some] Some show ?thesis by force
  qed
qed

lemma memfd_frame:
  assumes ok: "kernel_ok k" and c: "sys_memfd_create k = (r, k')"
  shows "(\<exists>e. r = Inl e \<and> frame {} {} k k') \<or>
    (\<exists>fd f. r = Inr fd \<and> file_of k fd = None \<and> frame {} {fd} k k' \<and> file_of k' fd = Some f \<and>
      memfile_of k f = None \<and> memfile_of k' f = Some \<lparr>mf_data = [], mf_sealed = False, mf_writers = 0\<rparr>)"
  using c unfolding sys_memfd_create_def
proof (cases rule: sys_call_cases)
  case (fault e fs)
  with ok show ?thesis by (simp add: frame_faults)
next
  case (run fs)
  define f where "f = k_next_file k"
  define mf where "mf = \<lparr>mf_data = [] :: u8 list, mf_sealed = False, mf_writers = 0\<rparr>"
  define k1 where "k1 = k\<lparr>k_files := (f, mf) # k_files k, k_next_file := f + 1\<rparr>"
  have fresh: "memfile_of k f = None"
    using ok by (auto simp: kernel_ok_def f_def map_of_eq_None_iff)
  have "\<forall>(fd, g) \<in> set (k_open k). 0 \<le> fd \<and> memfile_of k1 g \<noteq> None"
    using ok by (auto simp: kernel_ok_def k1_def)
  then have ok1: "kernel_ok k1" using ok by (fastforce simp: kernel_ok_def k1_def f_def)
  have o: "open_file f (k1\<lparr>k_faults := fs\<rparr>) = (r, k')"
  proof -
    have "k1\<lparr>k_faults := fs\<rparr> = k\<lparr>k_faults := fs, k_files := (f, mf) # k_files k, k_next_file := f + 1\<rparr>"
      by (rule kernel.equality) (simp_all add: k1_def)
    with run show ?thesis by (simp add: f_def mf_def)
  qed
  have node: "memfile_of k1 g = (if g = f then Some mf else memfile_of k g)" for g
    by (simp add: k1_def)
  from open_frame [OF ok1 _ o] obtain fd where fd: "r = Inr fd" "file_of k1 fd = None"
    "frame {} {fd} k1 k'" "file_of k' fd = Some f" by (auto simp: node)
  have "k_files k' = k_files k1" using o by (auto simp: open_file_def)
  then have node': "memfile_of k' g = (if g = f then Some mf else memfile_of k g)" for g
    by (simp add: k1_def)
  have "frame {} {fd} k k'"
    using fd(3) fresh by (auto simp: frame_def node' k1_def)
  with fd fresh show ?thesis by (simp add: node' mf_def) (simp add: k1_def)
qed

section \<open>Regions\<close>

text \<open>A region in the hands of a producer: its file is its own and not sealed.\<close>

definition loose_ok :: "kernel \<Rightarrow> region \<Rightarrow> bool" where
  "loose_ok k r \<longleftrightarrow> \<not> rg_read_only r \<and> rg_region_id r \<noteq> 0 \<and> rg_size r \<noteq> 0 \<and>
     (\<exists>f mf. file_of k (rg_descriptor r) = Some f \<and> memfile_of k f = Some mf \<and> \<not> mf_sealed mf \<and>
        (rg_address r \<noteq> None \<longrightarrow> rg_address r = Some (f, True) \<and> length (mf_data mf) = unat (rg_size r)))"

lemma unmap_frame: "kernel_ok k \<Longrightarrow> frame {} {} k (unmap_region r k)"
  using munmap_frame [OF _ prod.collapse [symmetric]] frame_faults [of k "k_faults k"]
  by (auto simp: unmap_region_def split: option.split)

lemma reset_frame:
  assumes "kernel_ok k"
  shows "frame {} {rg_descriptor r} k (region_reset r k)"
    and "file_of (region_reset r k) (rg_descriptor r) = None"
proof -
  note u = unmap_frame [OF assms, of r]
  note c = close_frame [OF frameD(1) [OF u], of "rg_descriptor r"]
  show "frame {} {rg_descriptor r} k (region_reset r k)"
    using frame_trans [OF u c] frame_mono [OF u, of "{}" "{rg_descriptor r}"]
    by (simp add: region_reset_def Let_def)
  show "file_of (region_reset r k) (rg_descriptor r) = None"
  proof (cases "rg_descriptor r \<ge> 0")
    case True
    then show ?thesis by (simp add: region_reset_def Let_def file_of_close)
  next
    case False
    have "file_of k (rg_descriptor r) = None"
      using kernel_okD(1) [OF assms, of "rg_descriptor r"] False
      by (cases "file_of k (rg_descriptor r)") auto
    with False frameD(3) [OF u, of "rg_descriptor r"] show ?thesis
      by (simp add: region_reset_def Let_def)
  qed
qed

lemma region_id_nonzero:
  assumes "push_bit 32 (k_pid k) \<noteq> 0"
  shows "fst (make_region_id k) \<noteq> 0"
  using assms by (auto simp: make_region_id_def or_eq_0_iff)

lemma make_region_id_frame: "kernel_ok k \<Longrightarrow> frame {} {} k (snd (make_region_id k))"
  by (simp add: make_region_id_def frame_def sys_simps)

lemma length_resize_data [simp]: "length (resize_data n bs) = n"
  by (simp add: resize_data_def)

lemma resize_data_same [simp]: "resize_data (length bs) bs = bs"
  by (simp add: resize_data_def)

lemma create_frame:
  assumes ok: "kernel_ok k" and pid: "push_bit 32 (k_pid k) \<noteq> 0" and c: "region_create sz k = (res, k')"
  shows "(\<exists>e. res = Inl e \<and> frame {} {} k k') \<or>
    (\<exists>r f. res = Inr r \<and> file_of k (rg_descriptor r) = None \<and> frame {} {rg_descriptor r} k k' \<and>
      loose_ok k' r \<and> region_valid r \<and> rg_size r = sz \<and>
      file_of k' (rg_descriptor r) = Some f \<and> memfile_of k f = None)"
proof (cases "sz = 0 \<or> sz > off_max")
  case True
  with c ok show ?thesis using frame_faults [of k "k_faults k"] by (auto simp: region_create_def)
next
  case sz: False
  obtain r1 k1 where m: "sys_memfd_create k = (r1, k1)" by fastforce
  from memfd_frame [OF ok m] show ?thesis
  proof (elim disjE exE conjE)
    fix e assume "r1 = Inl e" "frame {} {} k k1"
    with c sz m show ?thesis by (auto simp: region_create_def)
  next
    fix fd f assume r1: "r1 = Inr fd" and new: "file_of k fd = None" and fr1: "frame {} {fd} k k1"
      and fd: "file_of k1 fd = Some f" and f: "memfile_of k f = None"
      and mf: "memfile_of k1 f = Some \<lparr>mf_data = [], mf_sealed = False, mf_writers = 0\<rparr>"
    have closed: "frame {} {} k (sys_close fd k2)" if "frame {f} {} k1 k2" for k2
    proof -
      have "frame {f} {fd} k k2" using frame_trans [OF fr1 that] by simp
      from frame_trans [OF this close_frame [OF frameD(1) [OF that], of fd]]
      have "frame {f} {fd} k (sys_close fd k2)" by simp
      then have "frame {f} {} k (sys_close fd k2)"
        by (rule frame_fewer) (simp add: file_of_close new)
      then show ?thesis using f by (rule frame_new_file)
    qed
    obtain r2 k2 where t: "sys_ftruncate fd sz k1 = (r2, k2)" by fastforce
    note ft = ftruncate_frame [OF frameD(1) [OF fr1] t fd mf]
    show ?thesis
    proof (cases r2)
      case (Inl e)
      with c sz m r1 t closed [OF ft(1)] show ?thesis by (auto simp: region_create_def)
    next
      case (Inr u)
      obtain r3 k3 where mm: "sys_mmap fd True k2 = (r3, k3)" by fastforce
      note mp = mmap_frame [OF frameD(1) [OF ft(1)] mm]
      have fr13: "frame {f} {} k1 k3" using frame_trans [OF ft(1) mp(1)] by simp
      show ?thesis
      proof (cases r3)
        case (Inl e)
        with c sz m r1 t Inr mm closed [OF fr13] show ?thesis by (auto simp: region_create_def)
      next
        case r3: (Inr mpd)
        obtain rid k4 where rid: "make_region_id k3 = (rid, k4)" by fastforce
        define r where "r = \<lparr>rg_address = Some mpd, rg_size = sz, rg_descriptor = fd,
          rg_region_id = rid, rg_read_only = False\<rparr>"
        have out: "res = Inr r" "k' = k4"
          using c sz m r1 t Inr mm r3 rid by (simp_all add: region_create_def r_def)
        have fr34: "frame {} {} k3 k4"
          using make_region_id_frame [OF frameD(1) [OF mp(1)]] rid by simp
        have fr14: "frame {f} {} k1 k4" using frame_trans [OF fr13 fr34] by simp
        have fr: "frame {} {fd} k k4"
          using frame_trans [OF fr1 fr14] f by (auto intro: frame_new_file)
        have fd4: "file_of k4 fd = Some f" using frameD(3) [OF fr14, of fd] fd by simp
        have mpd: "mpd = (f, True)"
          using mp(2) [OF r3] frameD(3) [OF ft(1), of fd] fd by (auto simp: prod_eq_iff)
        have fr24: "frame {} {} k2 k4" using frame_trans [OF mp(1) fr34] by simp
        from ft(2) Inr obtain mf2 where "memfile_of k2 f = Some mf2" "\<not> mf_sealed mf2"
          "length (mf_data mf2) = unat sz" by auto
        with frameD(4) [OF fr24, of f mf2] obtain mf4 where "memfile_of k4 f = Some mf4"
          "\<not> mf_sealed mf4" "length (mf_data mf4) = unat sz" by auto
        moreover have "rid \<noteq> 0"
          using region_id_nonzero [of k3] pid rid frameD(2) [OF fr1] frameD(2) [OF fr13] by simp
        ultimately have "loose_ok k4 r"
          using fd4 mpd sz by (simp add: loose_ok_def r_def)
        moreover have "region_valid r" using sz by (simp add: region_valid_def r_def word_neq_0_conv)
        ultimately show ?thesis using fr fd4 f new out by (auto simp: r_def)
      qed
    qed
  qed
qed

lemma loose_frame:
  assumes "loose_ok k r" and "frame F D k k'" and "rg_descriptor r \<notin> D"
    and "\<And>f. file_of k (rg_descriptor r) = Some f \<Longrightarrow> f \<notin> F"
  shows "loose_ok k' r"
proof -
  from assms(1) obtain f mf where f: "file_of k (rg_descriptor r) = Some f" "memfile_of k f = Some mf"
    "\<not> mf_sealed mf" "rg_address r \<noteq> None \<longrightarrow> rg_address r = Some (f, True) \<and> length (mf_data mf) = unat (rg_size r)"
    by (auto simp: loose_ok_def)
  from frameD(4) [OF assms(2) assms(4) [OF f(1)] f(2)] obtain mf' where
    "memfile_of k' f = Some mf'" "mf_data mf' = mf_data mf" "mf_sealed mf' = mf_sealed mf" by blast
  with assms(1) f frameD(3) [OF assms(2,3)] show ?thesis by (auto simp: loose_ok_def)
qed

text \<open>Resizing and sealing touch the region's own file only.\<close>

lemma resize_frame:
  assumes ok: "kernel_ok k" and r: "loose_ok k r" and f: "file_of k (rg_descriptor r) = Some f"
    and c: "region_resize sz r k = (res, r', k')"
  shows "frame {f} {} k k' \<and> loose_ok k' r' \<and> rg_descriptor r' = rg_descriptor r \<and>
    rg_region_id r' = rg_region_id r \<and>
    (res = Inr () \<longrightarrow> rg_size r' = sz \<and> region_valid r' \<and>
       (\<exists>mf mf'. memfile_of k f = Some mf \<and> memfile_of k' f = Some mf' \<and>
          mf_data mf' = resize_data (unat sz) (mf_data mf)))"
proof (cases "rg_address r")
  case None
  with c r frame_mono [OF frame_faults [OF ok, of "k_faults k"]] show ?thesis
    by (auto simp: region_resize_def)
next
  case (Some m)
  obtain mf where mf: "memfile_of k f = Some mf" "\<not> mf_sealed mf"
    and m: "m = (f, True)" "length (mf_data mf) = unat (rg_size r)"
    using r f Some by (auto simp: loose_ok_def)
  show ?thesis
  proof (cases "\<not> region_valid r \<or> rg_read_only r \<or> sz = 0 \<or> sz > off_max \<or> sz = rg_size r")
    case True
    then have "r' = r" "k' = k" "res = Inr () \<longrightarrow> sz = rg_size r \<and> region_valid r"
      using c Some by (auto simp: region_resize_def split: if_splits)
    with r mf m(2) frame_mono [OF frame_faults [OF ok, of "k_faults k"]] show ?thesis
      by (auto simp flip: m(2))
  next
    case args: False
    obtain r1 k1 where u: "sys_munmap m k = (r1, k1)" by fastforce
    note fr1 = munmap_frame [OF ok u]
    have loose1: "loose_ok k1 r" by (rule loose_frame [OF r fr1]) auto
    show ?thesis
    proof (cases r1)
      case (Inl e)
      with c Some args u loose1 frame_mono [OF fr1, of "{f}" "{}"] show ?thesis
        by (auto simp: region_resize_def)
    next
      case Inr1: (Inr u1)
      obtain mf1 where mf1: "memfile_of k1 f = Some mf1" "mf_data mf1 = mf_data mf" "\<not> mf_sealed mf1"
        using frameD(4) [OF fr1 _ mf(1)] mf(2) by auto
      have f1: "file_of k1 (rg_descriptor r) = Some f" using frameD(3) [OF fr1] f by simp
      obtain r2 k2 where t: "sys_ftruncate (rg_descriptor r) sz k1 = (r2, k2)" by fastforce
      note ft = ftruncate_frame [OF frameD(1) [OF fr1] t f1 mf1(1)]
      obtain mf2 where mf2: "memfile_of k2 f = Some mf2" "\<not> mf_sealed mf2"
        "mf_data mf2 = (if r2 = Inr () then resize_data (unat sz) (mf_data mf) else mf_data mf)"
        using ft(2) mf1 by auto
      obtain r3 k3 where mm: "sys_mmap (rg_descriptor r) True k2 = (r3, k3)" by fastforce
      note mp = mmap_frame [OF frameD(1) [OF ft(1)] mm]
      obtain mf3 where mf3: "memfile_of k3 f = Some mf3" "\<not> mf_sealed mf3" "mf_data mf3 = mf_data mf2"
        using frameD(4) [OF mp(1) _ mf2(1)] mf2(2) by auto
      have fr: "frame {f} {} k k3"
        using frame_trans [OF fr1 frame_trans [OF ft(1) mp(1)]] by simp
      have f3: "file_of k3 (rg_descriptor r) = Some f" using frameD(3) [OF fr] f by simp
      have map3: "m3 = (f, True)" if "r3 = Inr m3" for m3
        using mp(2) [OF that] frameD(3) [OF ft(1)] f1 by (auto simp: prod_eq_iff)
      have k': "k' = k3" using c Some args u Inr1 t mm
        by (simp add: region_resize_def split: sum.splits)
      have r': "r' = r\<lparr>rg_address := (case r3 of Inl _ \<Rightarrow> None | Inr m3 \<Rightarrow> Some m3),
          rg_size := (case r2 of Inl _ \<Rightarrow> rg_size r | Inr _ \<Rightarrow> sz)\<rparr>"
        and res: "res = Inr () \<longrightarrow> (\<exists>u m3. r2 = Inr u \<and> r3 = Inr m3)"
        using c Some args u Inr1 t mm
        by (auto simp: region_resize_def split: sum.splits)
      have "loose_ok k3 r'"
        using r args f3 mf3 mf2(3) m map3
        by (auto simp: loose_ok_def r' split: sum.splits)
      moreover have "region_valid r'" if "res = Inr ()"
        using res that args by (auto simp: r' region_valid_def word_neq_0_conv split: sum.splits)
      moreover have "mf_data mf3 = resize_data (unat sz) (mf_data mf)" if "res = Inr ()"
        using res that mf2(3) mf3(3) by auto
      ultimately show ?thesis using fr res mf(1) mf3(1) by (auto simp: k' r')
    qed
  qed
qed

lemma seal_frame:
  assumes ok: "kernel_ok k" and r: "loose_ok k r" and f: "file_of k (rg_descriptor r) = Some f"
    and c: "seal_read_only r k = (res, r', k')"
  shows "frame {f} {} k k' \<and> rg_descriptor r' = rg_descriptor r \<and>
    rg_region_id r' = rg_region_id r \<and> rg_size r' = rg_size r \<and>
    (res = Inr () \<longrightarrow> (\<exists>mf mf'. memfile_of k f = Some mf \<and> memfile_of k' f = Some mf' \<and>
       mf_sealed mf' \<and> mf_data mf' = mf_data mf \<and> length (mf_data mf) = unat (rg_size r)))"
proof (cases "rg_address r = None \<or> \<not> region_valid r \<or> rg_read_only r")
  case True
  with c frame_mono [OF frame_faults [OF ok, of "k_faults k"]] show ?thesis
    by (auto simp: seal_read_only_def split: option.splits)
next
  case False
  then obtain m where Some: "rg_address r = Some m" by auto
  obtain mf where mf: "memfile_of k f = Some mf" and m: "m = (f, True)" "length (mf_data mf) = unat (rg_size r)"
    using r f Some by (auto simp: loose_ok_def)
  obtain r1 k1 where u: "sys_munmap m k = (r1, k1)" by fastforce
  note fr1 = munmap_frame [OF ok u]
  show ?thesis
  proof (cases r1)
    case (Inl e)
    with c Some False u frame_mono [OF fr1, of "{f}" "{}"] show ?thesis
      by (auto simp: seal_read_only_def)
  next
    case Inr1: (Inr u1)
    obtain mf1 where mf1: "memfile_of k1 f = Some mf1" "mf_data mf1 = mf_data mf"
      using frameD(4) [OF fr1 _ mf] by auto
    have f1: "file_of k1 (rg_descriptor r) = Some f" using frameD(3) [OF fr1] f by simp
    obtain r2 k2 where s: "sys_add_seals (rg_descriptor r) k1 = (r2, k2)" by fastforce
    note sl = add_seals_frame [OF frameD(1) [OF fr1] s f1 mf1(1)]
    have fr2: "frame {f} {} k k2" using frame_trans [OF fr1 sl(1)] by simp
    show ?thesis
    proof (cases r2)
      case (Inl e)
      with c Some False u Inr1 s fr2 show ?thesis by (auto simp: seal_read_only_def)
    next
      case Inr2: (Inr u2)
      obtain r3 k3 where mm: "sys_mmap (rg_descriptor r) False k2 = (r3, k3)" by fastforce
      note mp = mmap_frame [OF frameD(1) [OF sl(1)] mm]
      have fr3: "frame {f} {} k k3" using frame_trans [OF fr2 mp(1)] by simp
      have "\<exists>mf'. memfile_of k3 f = Some mf' \<and> mf_sealed mf' \<and> mf_data mf' = mf_data mf"
        using sl(2) Inr2 frameD(4) [OF mp(1), of f] mf1(2) by fastforce
      with mf m(2) c Some False u Inr1 s Inr2 mm fr3 show ?thesis
        by (auto simp: seal_read_only_def split: sum.splits)
    qed
  qed
qed

section \<open>The process\<close>

text \<open>
  The state of a process: the kernel, the store, the regions that handlers are filling and the
  handles that clients hold.
\<close>

record process =
  pw_kernel :: kernel
  pw_store :: result_store
  pw_regions :: "region list"
  pw_handles :: "result_handle list"

definition owned :: "process \<Rightarrow> int list" where
  "owned p = map (\<lambda>(a, s). rg_descriptor (sr_region s)) (pw_store p) @
     map rg_descriptor (pw_regions p) @ map rh_descriptor (pw_handles p)"

definition remove_nth :: "nat \<Rightarrow> 'a list \<Rightarrow> 'a list" where
  "remove_nth i xs = take i xs @ drop (Suc i) xs"

text \<open>
  The steps: create a region; write through its mapping; resize it; publish it as the result of an
  agent; acquire, erase and clear results; drop a region or a handle. The list of faults that the
  system meets next may change at any time.
\<close>

datatype memory_op =
    M_Faults "string option list"
  | M_Create u64
  | M_Write nat nat "u8 list"
  | M_Resize nat u64
  | M_Publish nat agent_id u64 u32 u32
  | M_Acquire agent_id
  | M_Erase agent_id
  | M_Clear
  | M_Drop_region nat
  | M_Drop_handle nat

definition write_bytes :: "region \<Rightarrow> nat \<Rightarrow> u8 list \<Rightarrow> kernel \<Rightarrow> kernel" where
  "write_bytes r off bs k =
     (case rg_address r of
        Some (f, True) \<Rightarrow>
          if off + length bs \<le> unat (rg_size r)
          then update_file f (\<lambda>mf. mf\<lparr>mf_data :=
                 take off (mf_data mf) @ bs @ drop (off + length bs) (mf_data mf)\<rparr>) k
          else k
      | _ \<Rightarrow> k)"

fun memory_step :: "memory_op \<Rightarrow> process \<Rightarrow> process" where
  "memory_step (M_Faults fs) p = p\<lparr>pw_kernel := (pw_kernel p)\<lparr>k_faults := fs\<rparr>\<rparr>"
| "memory_step (M_Create sz) p =
     (case region_create sz (pw_kernel p) of
        (Inl _, k) \<Rightarrow> p\<lparr>pw_kernel := k\<rparr>
      | (Inr r, k) \<Rightarrow> p\<lparr>pw_kernel := k, pw_regions := r # pw_regions p\<rparr>)"
| "memory_step (M_Write i off bs) p =
     (if i < length (pw_regions p)
      then p\<lparr>pw_kernel := write_bytes (pw_regions p ! i) off bs (pw_kernel p)\<rparr> else p)"
| "memory_step (M_Resize i sz) p =
     (if i < length (pw_regions p)
      then case region_resize sz (pw_regions p ! i) (pw_kernel p) of
        (_, r, k) \<Rightarrow> p\<lparr>pw_kernel := k, pw_regions := (pw_regions p)[i := r]\<rparr>
      else p)"
| "memory_step (M_Publish i a len ty flags) p =
     (if i < length (pw_regions p)
      then case publish a (pw_regions p ! i) len ty flags (pw_store p) (pw_kernel p) of
        (_, st, k) \<Rightarrow> p\<lparr>pw_kernel := k, pw_store := st, pw_regions := remove_nth i (pw_regions p)\<rparr>
      else p)"
| "memory_step (M_Acquire a) p =
     (case acquire_result a (pw_store p) (pw_kernel p) of
        (Inl _, k) \<Rightarrow> p\<lparr>pw_kernel := k\<rparr>
      | (Inr h, k) \<Rightarrow> p\<lparr>pw_kernel := k, pw_handles := h # pw_handles p\<rparr>)"
| "memory_step (M_Erase a) p =
     (case erase_result a (pw_store p) (pw_kernel p) of
        (_, st, k) \<Rightarrow> p\<lparr>pw_kernel := k, pw_store := st\<rparr>)"
| "memory_step M_Clear p =
     (case clear_results (pw_store p) (pw_kernel p) of
        (st, k) \<Rightarrow> p\<lparr>pw_kernel := k, pw_store := st\<rparr>)"
| "memory_step (M_Drop_region i) p =
     (if i < length (pw_regions p)
      then p\<lparr>pw_kernel := region_reset (pw_regions p ! i) (pw_kernel p),
             pw_regions := remove_nth i (pw_regions p)\<rparr>
      else p)"
| "memory_step (M_Drop_handle i) p =
     (if i < length (pw_handles p)
      then p\<lparr>pw_kernel := handle_destroy (pw_handles p ! i) (pw_kernel p),
             pw_handles := remove_nth i (pw_handles p)\<rparr>
      else p)"

text \<open>What a published result promises about its descriptor.\<close>

definition result_ok :: "kernel \<Rightarrow> int \<Rightarrow> shared_buffer_ref \<Rightarrow> bool" where
  "result_ok k fd b \<longleftrightarrow> ref_in_bounds b \<and> br_offset b = 0 \<and> br_flags b AND shared_buffer_immutable \<noteq> 0 \<and>
     (\<exists>f mf. file_of k fd = Some f \<and> memfile_of k f = Some mf \<and> mf_sealed mf \<and>
        length (mf_data mf) = unat (br_region_size b))"

definition process_ok :: "process \<Rightarrow> bool" where
  "process_ok p \<longleftrightarrow>
     (let k = pw_kernel p
      in kernel_ok k \<and> push_bit 32 (k_pid k) \<noteq> 0 \<and> distinct (map fst (pw_store p)) \<and>
        distinct (owned p) \<and> set (owned p) = {fd. file_of k fd \<noteq> None} \<and>
        (\<forall>r \<in> set (pw_regions p). loose_ok k r) \<and>
        distinct (map (\<lambda>r. file_of k (rg_descriptor r)) (pw_regions p)) \<and>
        (\<forall>(a, s) \<in> set (pw_store p). result_ok k (rg_descriptor (sr_region s)) (sr_reference s)) \<and>
        (\<forall>h \<in> set (pw_handles p). result_ok k (rh_descriptor h) (rh_reference h)))"

lemma result_open: "result_ok k fd b \<Longrightarrow> file_of k fd \<noteq> None"
  unfolding result_ok_def by fastforce

lemma result_frame:
  assumes "result_ok k fd b" and fr: "frame F D k k'" and fd: "fd \<notin> D"
    and F: "\<And>f mf. f \<in> F \<Longrightarrow> memfile_of k f = Some mf \<Longrightarrow> \<not> mf_sealed mf"
  shows "result_ok k' fd b" and "contents k' fd = contents k fd"
proof -
  from assms(1) obtain f mf where f: "file_of k fd = Some f" "memfile_of k f = Some mf" "mf_sealed mf"
    and rest: "ref_in_bounds b" "br_offset b = 0" "br_flags b AND shared_buffer_immutable \<noteq> 0"
      "length (mf_data mf) = unat (br_region_size b)" by (auto simp: result_ok_def)
  have "f \<notin> F" using F f by blast
  from frameD(4) [OF fr this f(2)] obtain mf' where mf': "memfile_of k' f = Some mf'"
    "mf_data mf' = mf_data mf" "mf_sealed mf' = mf_sealed mf" by blast
  have fd': "file_of k' fd = Some f" using frameD(3) [OF fr fd] f by simp
  show "result_ok k' fd b" using mf' fd' rest f(3) by (simp add: result_ok_def)
  show "contents k' fd = contents k fd" using mf' fd' f by (simp add: contents_def)
qed

lemma mset_remove_nth: "i < length xs \<Longrightarrow> mset xs = add_mset (xs ! i) (mset (remove_nth i xs))"
proof -
  assume "i < length xs"
  then have "xs = take i xs @ xs ! i # drop (Suc i) xs" by (rule id_take_nth_drop)
  from arg_cong [OF this, of mset] show ?thesis by (simp add: remove_nth_def)
qed

lemma set_remove_nth: "set (remove_nth i xs) \<subseteq> set xs"
  unfolding remove_nth_def using set_take_subset set_drop_subset by fastforce

lemma map_remove_nth: "map f (remove_nth i xs) = remove_nth i (map f xs)"
  by (simp add: remove_nth_def take_map drop_map)

lemma distinct_remove_nth: "distinct xs \<Longrightarrow> distinct (remove_nth i xs)"
  unfolding remove_nth_def by (metis distinct_append distinct_drop distinct_take
      set_take_disj_set_drop_if_distinct disjoint_iff le_Suc_eq set_drop_subset_set_drop order_refl)

lemma remove_nth_not_member: "distinct xs \<Longrightarrow> i < length xs \<Longrightarrow> xs ! i \<notin> set (remove_nth i xs)"
proof -
  assume "distinct xs" "i < length xs"
  then have "distinct (xs ! i # remove_nth i xs)"
    using mset_remove_nth [of i xs] by (metis mset.simps(2) mset_eq_imp_distinct_iff)
  then show ?thesis by simp
qed

lemma process_okD:
  assumes "process_ok p"
  shows "kernel_ok (pw_kernel p)" and "push_bit 32 (k_pid (pw_kernel p)) \<noteq> 0"
    and "distinct (map fst (pw_store p))" and "distinct (owned p)"
    and "set (owned p) = {fd. file_of (pw_kernel p) fd \<noteq> None}"
    and "r \<in> set (pw_regions p) \<Longrightarrow> loose_ok (pw_kernel p) r"
    and "distinct (map (\<lambda>r. file_of (pw_kernel p) (rg_descriptor r)) (pw_regions p))"
    and "(a, s) \<in> set (pw_store p) \<Longrightarrow>
      result_ok (pw_kernel p) (rg_descriptor (sr_region s)) (sr_reference s)"
    and "h \<in> set (pw_handles p) \<Longrightarrow> result_ok (pw_kernel p) (rh_descriptor h) (rh_reference h)"
  using assms by (auto simp: process_ok_def Let_def)

text \<open>
  The general step: what stays is untouched by the frame, what is new is established, and the
  owned descriptors are again the open ones. What a handle shows does not change.
\<close>

definition good_step :: "process \<Rightarrow> process \<Rightarrow> bool" where
  "good_step p p' \<longleftrightarrow> process_ok p' \<and>
     (\<forall>h \<in> set (pw_handles p) \<inter> set (pw_handles p').
        contents (pw_kernel p') (rh_descriptor h) = contents (pw_kernel p) (rh_descriptor h))"

lemma good_step_refl: "process_ok p \<Longrightarrow> good_step p p"
  by (simp add: good_step_def)

lemma process_ok_step:
  assumes ok: "process_ok p" and fr: "frame F D (pw_kernel p) k"
    and F: "\<And>f mf. f \<in> F \<Longrightarrow> memfile_of (pw_kernel p) f = Some mf \<Longrightarrow> \<not> mf_sealed mf"
    and regions: "\<And>r. r \<in> set rs \<Longrightarrow> r \<in> set (pw_regions p) \<and> rg_descriptor r \<notin> D \<and>
      file_of (pw_kernel p) (rg_descriptor r) \<notin> Some ` F \<or> loose_ok k r"
    and files: "distinct (map (\<lambda>r. file_of k (rg_descriptor r)) rs)"
    and keys: "distinct (map fst st)"
    and store: "\<And>a s. (a, s) \<in> set st \<Longrightarrow> (a, s) \<in> set (pw_store p) \<and> rg_descriptor (sr_region s) \<notin> D \<or>
      result_ok k (rg_descriptor (sr_region s)) (sr_reference s)"
    and handles: "\<And>h. h \<in> set hs \<Longrightarrow> h \<in> set (pw_handles p) \<and> rh_descriptor h \<notin> D \<or>
      result_ok k (rh_descriptor h) (rh_reference h)"
    and owns: "distinct (owned p')" "set (owned p') = {fd. file_of k fd \<noteq> None}"
    and D: "\<And>d. d \<in> D \<Longrightarrow> file_of (pw_kernel p) d = None \<or> file_of k d = None"
    and p': "p' = \<lparr>pw_kernel = k, pw_store = st, pw_regions = rs, pw_handles = hs\<rparr>"
  shows "good_step p p'"
proof -
  have "loose_ok k r" if "r \<in> set rs" for r
    using regions [OF that] loose_frame [OF process_okD(6) [OF ok] fr, of r] by auto
  moreover have "result_ok k (rg_descriptor (sr_region s)) (sr_reference s)" if "(a, s) \<in> set st" for a s
    using store [OF that] result_frame(1) [OF process_okD(8) [OF ok, of a s] fr _ F] by auto
  moreover have "result_ok k (rh_descriptor h) (rh_reference h)" if "h \<in> set hs" for h
    using handles [OF that] result_frame(1) [OF process_okD(9) [OF ok, of h] fr _ F] by auto
  ultimately have ok': "process_ok p'"
    using frameD(1,2) [OF fr] process_okD(2) [OF ok] files keys owns
    by (auto simp: process_ok_def Let_def p')
  have "contents k (rh_descriptor h) = contents (pw_kernel p) (rh_descriptor h)"
    if h: "h \<in> set (pw_handles p)" "h \<in> set (pw_handles p')" for h
  proof -
    note r = process_okD(9) [OF ok h(1)]
    have "file_of k (rh_descriptor h) \<noteq> None"
      using result_open [OF process_okD(9) [OF ok' h(2)]] by (simp only: p' process.select_convs) simp
    moreover have "file_of (pw_kernel p) (rh_descriptor h) \<noteq> None" by (rule result_open [OF r])
    ultimately have "rh_descriptor h \<notin> D" using D [of "rh_descriptor h"] by auto
    from result_frame(2) [OF r fr this F] show ?thesis .
  qed
  with ok' show ?thesis by (simp add: good_step_def p')
qed

text \<open>Descriptors come and go one at a time.\<close>

lemma owned_gain:
  assumes ok: "process_ok p" and fr: "frame F {d} (pw_kernel p) k"
    and d: "file_of (pw_kernel p) d = None" "file_of k d \<noteq> None"
    and m: "mset (owned p') = add_mset d (mset (owned p))"
  shows "distinct (owned p')" and "set (owned p') = {fd. file_of k fd \<noteq> None}"
proof -
  have new: "d \<notin> set (owned p)" using d process_okD(5) [OF ok] by simp
  have "mset (owned p') = mset (d # owned p)" using m by simp
  then have eq: "distinct (owned p') = distinct (d # owned p)" "set (owned p') = set (d # owned p)"
    by (rule mset_eq_imp_distinct_iff, rule mset_eq_setD)
  show "distinct (owned p')" using eq(1) new process_okD(4) [OF ok] by simp
  have "file_of k fd = file_of (pw_kernel p) fd" if "fd \<noteq> d" for fd
    using frameD(3) [OF fr] that by simp
  moreover have "set (owned p') = insert d {fd. file_of (pw_kernel p) fd \<noteq> None}"
    using eq(2) process_okD(5) [OF ok] by simp
  ultimately show "set (owned p') = {fd. file_of k fd \<noteq> None}" using d
    by (intro set_eqI) (metis (mono_tags, lifting) Diff_iff insert_iff mem_Collect_eq singletonD)
qed

lemma owned_lose:
  assumes ok: "process_ok p" and fr: "frame F {d} (pw_kernel p) k" and d: "file_of k d = None"
    and m: "mset (owned p) = add_mset d (mset (owned p'))"
  shows "distinct (owned p')" and "set (owned p') = {fd. file_of k fd \<noteq> None}"
    and "d \<notin> set (owned p')"
proof -
  have "mset (owned p) = mset (d # owned p')" using m by simp
  then have eq: "distinct (owned p) = distinct (d # owned p')" "set (owned p) = set (d # owned p')"
    by (rule mset_eq_imp_distinct_iff, rule mset_eq_setD)
  show dist: "distinct (owned p')" "d \<notin> set (owned p')" using eq(1) process_okD(4) [OF ok] by simp_all
  have "file_of k fd = file_of (pw_kernel p) fd" if "fd \<noteq> d" for fd
    using frameD(3) [OF fr] that by simp
  moreover have "set (owned p') = {fd. file_of (pw_kernel p) fd \<noteq> None} - {d}"
    using eq(2) process_okD(5) [OF ok] dist(2) by auto
  ultimately show "set (owned p') = {fd. file_of k fd \<noteq> None}" using d
    by (intro set_eqI) (metis (mono_tags, lifting) Diff_iff insert_iff mem_Collect_eq singletonD)
qed

lemma owned_same:
  assumes ok: "process_ok p" and fr: "frame F {} (pw_kernel p) k" and m: "mset (owned p') = mset (owned p)"
  shows "distinct (owned p')" and "set (owned p') = {fd. file_of k fd \<noteq> None}"
proof -
  show "distinct (owned p')" using mset_eq_imp_distinct_iff [OF m] process_okD(4) [OF ok] by simp
  have "file_of k fd = file_of (pw_kernel p) fd" for fd using frameD(3) [OF fr] by simp
  then show "set (owned p') = {fd. file_of k fd \<noteq> None}"
    using mset_eq_setD [OF m] process_okD(5) [OF ok] by simp
qed

section \<open>Every step keeps the invariant\<close>

lemma loose_file:
  assumes "loose_ok k r"
  obtains f mf where "file_of k (rg_descriptor r) = Some f" "memfile_of k f = Some mf" "\<not> mf_sealed mf"
  using assms by (auto simp: loose_ok_def)

lemma region_owned:
  assumes "process_ok p" and "i < length (pw_regions p)"
  shows "mset (owned p) = add_mset (rg_descriptor (pw_regions p ! i))
      (mset (owned (p\<lparr>pw_regions := remove_nth i (pw_regions p)\<rparr>)))"
    and "r \<in> set (remove_nth i (pw_regions p)) \<Longrightarrow>
      file_of (pw_kernel p) (rg_descriptor r) \<noteq> file_of (pw_kernel p) (rg_descriptor (pw_regions p ! i))"
proof -
  show "mset (owned p) = add_mset (rg_descriptor (pw_regions p ! i))
      (mset (owned (p\<lparr>pw_regions := remove_nth i (pw_regions p)\<rparr>)))"
    using arg_cong [OF mset_remove_nth [OF assms(2)], of "image_mset rg_descriptor"]
    by (simp add: owned_def)
  let ?fs = "map (\<lambda>r. file_of (pw_kernel p) (rg_descriptor r)) (pw_regions p)"
  assume "r \<in> set (remove_nth i (pw_regions p))"
  then have "file_of (pw_kernel p) (rg_descriptor r) \<in> set (remove_nth i ?fs)"
    by (simp flip: map_remove_nth)
  moreover have "?fs ! i \<notin> set (remove_nth i ?fs)"
    by (rule remove_nth_not_member [OF process_okD(7) [OF assms(1)]]) (use assms(2) in simp)
  ultimately show "file_of (pw_kernel p) (rg_descriptor r) \<noteq>
      file_of (pw_kernel p) (rg_descriptor (pw_regions p ! i))"
    using assms(2) by (metis (no_types, lifting) nth_map)
qed

lemma kept_files:
  assumes ok: "process_ok p" and fr: "frame F D (pw_kernel p) k"
    and sub: "\<And>r. r \<in> set rs \<Longrightarrow> rg_descriptor r \<notin> D"
    and dist: "distinct (map (\<lambda>r. file_of (pw_kernel p) (rg_descriptor r)) rs)"
  shows "distinct (map (\<lambda>r. file_of k (rg_descriptor r)) rs)"
proof -
  have "map (\<lambda>r. file_of k (rg_descriptor r)) rs = map (\<lambda>r. file_of (pw_kernel p) (rg_descriptor r)) rs"
    using frameD(3) [OF fr] sub by simp
  with dist show ?thesis by (simp only:)
qed

lemma descriptor_member:
  "r \<in> set (pw_regions p) \<Longrightarrow> rg_descriptor r \<in> set (owned p)"
  "(a, s) \<in> set (pw_store p) \<Longrightarrow> rg_descriptor (sr_region s) \<in> set (owned p)"
  "h \<in> set (pw_handles p) \<Longrightarrow> rh_descriptor h \<in> set (owned p)"
  by (auto simp: owned_def)

text \<open>A step that only changes files in the hands of nobody, or nothing at all.\<close>

lemma still_ok:
  assumes ok: "process_ok p" and fr: "frame {} {} (pw_kernel p) k"
  shows "good_step p (p\<lparr>pw_kernel := k\<rparr>)"
proof (rule process_ok_step [OF ok fr])
  show "distinct (owned (p\<lparr>pw_kernel := k\<rparr>))" "set (owned (p\<lparr>pw_kernel := k\<rparr>)) = {fd. file_of k fd \<noteq> None}"
    by (rule owned_same [OF ok fr], simp add: owned_def)+
  show "distinct (map (\<lambda>r. file_of k (rg_descriptor r)) (pw_regions p))"
    by (rule kept_files [OF ok fr _ process_okD(7) [OF ok]]) simp
qed (use process_okD(3) [OF ok] in auto)

lemma create_ok:
  assumes ok: "process_ok p" and c: "region_create sz (pw_kernel p) = (Inr r, k)"
  shows "good_step p (p\<lparr>pw_kernel := k, pw_regions := r # pw_regions p\<rparr>)"
proof -
  let ?p = "p\<lparr>pw_kernel := k, pw_regions := r # pw_regions p\<rparr>"
  from create_frame [OF process_okD(1,2) [OF ok] c] obtain f where
    new: "file_of (pw_kernel p) (rg_descriptor r) = None" and fr: "frame {} {rg_descriptor r} (pw_kernel p) k"
    and loose: "loose_ok k r" and f: "file_of k (rg_descriptor r) = Some f" "memfile_of (pw_kernel p) f = None"
    by auto
  have other: "d \<noteq> rg_descriptor r" if "d \<in> set (owned p)" for d
    using that new process_okD(5) [OF ok] by auto
  have old: "file_of (pw_kernel p) (rg_descriptor r') \<noteq> Some f" if "r' \<in> set (pw_regions p)" for r'
    using process_okD(6) [OF ok that] f(2) by (auto simp: loose_ok_def)
  have "mset (owned ?p) = add_mset (rg_descriptor r) (mset (owned p))" by (simp add: owned_def)
  note owns = owned_gain [OF ok fr new _ this]
  have files: "distinct (map (\<lambda>r. file_of k (rg_descriptor r)) (pw_regions p))"
    by (rule kept_files [OF ok fr _ process_okD(7) [OF ok]]) (use other descriptor_member in blast)
  have "file_of k (rg_descriptor r') \<noteq> Some f" if "r' \<in> set (pw_regions p)" for r'
    using old [OF that] frameD(3) [OF fr] other [OF descriptor_member(1) [OF that]] by simp
  then have "Some f \<notin> set (map (\<lambda>r. file_of k (rg_descriptor r)) (pw_regions p))" by force
  with files f(1) have files': "distinct (map (\<lambda>r. file_of k (rg_descriptor r)) (r # pw_regions p))"
    by simp
  show ?thesis
    by (rule process_ok_step [OF ok fr _ _ files' process_okD(3) [OF ok] _ _ owns])
      (use f(1) loose other descriptor_member new in auto)
qed

lemma write_ok:
  assumes ok: "process_ok p" and i: "i < length (pw_regions p)"
  shows "good_step p (p\<lparr>pw_kernel := write_bytes (pw_regions p ! i) off bs (pw_kernel p)\<rparr>)"
proof -
  let ?r = "pw_regions p ! i" and ?k = "write_bytes (pw_regions p ! i) off bs (pw_kernel p)"
  note loose = process_okD(6) [OF ok nth_mem [OF i]]
  from loose_file [OF loose] obtain f mf where f: "file_of (pw_kernel p) (rg_descriptor ?r) = Some f"
    "memfile_of (pw_kernel p) f = Some mf" "\<not> mf_sealed mf" .
  show ?thesis
  proof (cases "rg_address ?r = Some (f, True) \<and> off + length bs \<le> unat (rg_size ?r)")
    case False
    then have "?k = pw_kernel p" using loose f
      by (auto simp: write_bytes_def loose_ok_def split: option.splits bool.splits)
    with good_step_refl [OF ok] show ?thesis by simp
  next
    case True
    let ?g = "\<lambda>mf. mf\<lparr>mf_data := take off (mf_data mf) @ bs @ drop (off + length bs) (mf_data mf)\<rparr>"
    have k: "?k = update_file f ?g (pw_kernel p)" using True by (simp add: write_bytes_def)
    have fr: "frame {f} {} (pw_kernel p) ?k"
      using frame_update [OF process_okD(1) [OF ok], of f ?g "k_faults (pw_kernel p)"] by (simp add: k)
    have len: "length (mf_data mf) = unat (rg_size ?r)" using loose True f by (auto simp: loose_ok_def)
    have loose': "loose_ok ?k ?r"
      using loose f True len by (auto simp: loose_ok_def k sys_simps)
    have other: "rg_descriptor r \<notin> {} \<and> file_of (pw_kernel p) (rg_descriptor r) \<notin> Some ` {f} \<or> r = ?r"
      if "r \<in> set (pw_regions p)" for r
    proof (cases "file_of (pw_kernel p) (rg_descriptor r) = Some f")
      case True
      from that obtain j where j: "j < length (pw_regions p)" "r = pw_regions p ! j"
        by (auto simp: in_set_conv_nth)
      have "j = i"
        using process_okD(7) [OF ok] True f(1) j i by (simp add: distinct_conv_nth) metis
      with j show ?thesis by simp
    qed auto
    show ?thesis
    proof (rule process_ok_step [OF ok fr])
      show "distinct (owned (p\<lparr>pw_kernel := ?k\<rparr>))" "set (owned (p\<lparr>pw_kernel := ?k\<rparr>)) = {fd. file_of ?k fd \<noteq> None}"
        by (rule owned_same [OF ok fr], simp add: owned_def)+
      show "distinct (map (\<lambda>r. file_of ?k (rg_descriptor r)) (pw_regions p))"
        by (rule kept_files [OF ok fr _ process_okD(7) [OF ok]]) simp
      show "r \<in> set (pw_regions p) \<and> rg_descriptor r \<notin> {} \<and>
          file_of (pw_kernel p) (rg_descriptor r) \<notin> Some ` {f} \<or> loose_ok ?k r"
        if "r \<in> set (pw_regions p)" for r
        using other [OF that] that loose' by auto
    qed (use process_okD(3) [OF ok] f in auto)
  qed
qed

end
