(* ===== verification/Shared_Memory_Steps.thy ===== *)
theory Shared_Memory_Steps
  imports Shared_Memory_Inv
begin

text \<open>
  The remaining steps of the process, the states that it reaches, and the correctness properties of
  the shared memory: no descriptor is lost or owned twice, and a published result never changes.
\<close>

lemma owned_alt:
  "mset (owned p) = image_mset (\<lambda>s. rg_descriptor (sr_region s)) (mset (map snd (pw_store p))) +
     image_mset rg_descriptor (mset (pw_regions p)) + image_mset rh_descriptor (mset (pw_handles p))"
  by (simp add: owned_def multiset.map_comp comp_def case_prod_unfold)

lemma not_owned:
  assumes "d \<notin> set (owned p)"
  shows "r \<in> set (pw_regions p) \<Longrightarrow> rg_descriptor r \<noteq> d"
    and "(a, s) \<in> set (pw_store p) \<Longrightarrow> rg_descriptor (sr_region s) \<noteq> d"
    and "h \<in> set (pw_handles p) \<Longrightarrow> rh_descriptor h \<noteq> d"
  using descriptor_member assms by blast+

section \<open>Steps on one region\<close>

lemma update_member:
  "i < length xs \<Longrightarrow> x \<in> set (xs[i := y]) \<Longrightarrow> x = y \<or> x \<in> set (remove_nth i xs)"
  by (auto simp: remove_nth_def upd_conv_take_nth_drop)

text \<open>A step that touches the file of one region and keeps the region.\<close>

lemma region_step_ok:
  assumes ok: "process_ok p" and i: "i < length (pw_regions p)"
    and f: "file_of (pw_kernel p) (rg_descriptor (pw_regions p ! i)) = Some f"
    and fr: "frame {f} {} (pw_kernel p) k" and r': "loose_ok k r'"
    and d: "rg_descriptor r' = rg_descriptor (pw_regions p ! i)"
  shows "good_step p (p\<lparr>pw_kernel := k, pw_regions := (pw_regions p)[i := r']\<rparr>)"
proof -
  let ?rs = "(pw_regions p)[i := r']"
  let ?p = "p\<lparr>pw_kernel := k, pw_regions := ?rs\<rparr>"
  have same: "map (g \<circ> rg_descriptor) ?rs = map (g \<circ> rg_descriptor) (pw_regions p)" for g :: "int \<Rightarrow> 'a"
    using i d by (simp add: map_update list_update_same_conv)
  have "mset (owned ?p) = mset (owned p)" using same [of id] by (simp add: owned_def)
  note owns = owned_same [OF ok fr this]
  have files: "distinct (map (\<lambda>r. file_of k (rg_descriptor r)) ?rs)"
    by (rule kept_files [OF ok fr])
      (use same [of "file_of (pw_kernel p)"] process_okD(7) [OF ok] in \<open>simp_all add: comp_def\<close>)
  have members: "r \<in> set (pw_regions p) \<and> rg_descriptor r \<notin> {} \<and>
      file_of (pw_kernel p) (rg_descriptor r) \<notin> Some ` {f} \<or> loose_ok k r" if "r \<in> set ?rs" for r
  proof (cases "r = r'")
    case False
    then have "r \<in> set (remove_nth i (pw_regions p))" using update_member [OF i that] by simp
    with region_owned(2) [OF ok i] set_remove_nth f show ?thesis by fastforce
  qed (use r' in simp)
  have F: "\<not> mf_sealed mf" if "g \<in> {f}" "memfile_of (pw_kernel p) g = Some mf" for g mf
    using that f process_okD(6) [OF ok nth_mem [OF i]] by (auto simp: loose_ok_def)
  show ?thesis
    by (rule process_ok_step [OF ok fr F members files process_okD(3) [OF ok] _ _ owns]) auto
qed

text \<open>A step that ends with the region destroyed.\<close>

lemma retire_region_ok:
  assumes ok: "process_ok p" and i: "i < length (pw_regions p)"
    and f: "file_of (pw_kernel p) (rg_descriptor (pw_regions p ! i)) = Some f"
    and fr: "frame {f} {rg_descriptor (pw_regions p ! i)} (pw_kernel p) k"
    and gone: "file_of k (rg_descriptor (pw_regions p ! i)) = None"
  shows "good_step p (p\<lparr>pw_kernel := k, pw_regions := remove_nth i (pw_regions p)\<rparr>)"
proof -
  let ?d = "rg_descriptor (pw_regions p ! i)" and ?rs = "remove_nth i (pw_regions p)"
  let ?p = "p\<lparr>pw_kernel := k, pw_regions := ?rs\<rparr>"
  have "mset (owned p) = add_mset ?d (mset (owned ?p))"
    using region_owned(1) [OF ok i] by (simp add: owned_def)
  note owns = owned_lose [OF ok fr gone this]
  have other: "r \<in> set ?rs \<Longrightarrow> rg_descriptor r \<noteq> ?d"
    "(a, s) \<in> set (pw_store p) \<Longrightarrow> rg_descriptor (sr_region s) \<noteq> ?d"
    "h \<in> set (pw_handles p) \<Longrightarrow> rh_descriptor h \<noteq> ?d" for r a s h
    using not_owned [OF owns(3)] by auto
  have files: "distinct (map (\<lambda>r. file_of k (rg_descriptor r)) ?rs)"
    by (rule kept_files [OF ok fr]) (use other distinct_remove_nth [OF process_okD(7) [OF ok]] in
      \<open>auto simp: map_remove_nth\<close>)
  have members: "r \<in> set (pw_regions p) \<and> rg_descriptor r \<notin> {?d} \<and>
      file_of (pw_kernel p) (rg_descriptor r) \<notin> Some ` {f} \<or> loose_ok k r" if "r \<in> set ?rs" for r
    using that region_owned(2) [OF ok i that] set_remove_nth f other(1) by fastforce
  have F: "\<not> mf_sealed mf" if "g \<in> {f}" "memfile_of (pw_kernel p) g = Some mf" for g mf
    using that f process_okD(6) [OF ok nth_mem [OF i]] by (auto simp: loose_ok_def)
  show ?thesis
    by (rule process_ok_step [OF ok fr F members files process_okD(3) [OF ok] _ _ owns(1,2)])
      (use other gone in auto)
qed

lemma drop_region_ok:
  assumes ok: "process_ok p" and i: "i < length (pw_regions p)"
  shows "good_step p (p\<lparr>pw_kernel := region_reset (pw_regions p ! i) (pw_kernel p),
    pw_regions := remove_nth i (pw_regions p)\<rparr>)"
proof -
  obtain f mf where f: "file_of (pw_kernel p) (rg_descriptor (pw_regions p ! i)) = Some f"
    by (rule loose_file [OF process_okD(6) [OF ok nth_mem [OF i]]])
  note rs = reset_frame [OF process_okD(1) [OF ok], of "pw_regions p ! i"]
  show ?thesis by (rule retire_region_ok [OF ok i f frame_mono [OF rs(1)] rs(2)]) auto
qed

lemma drop_handle_ok:
  assumes ok: "process_ok p" and i: "i < length (pw_handles p)"
  shows "good_step p (p\<lparr>pw_kernel := handle_destroy (pw_handles p ! i) (pw_kernel p),
    pw_handles := remove_nth i (pw_handles p)\<rparr>)"
proof -
  let ?h = "pw_handles p ! i" and ?hs = "remove_nth i (pw_handles p)"
  let ?d = "rh_descriptor ?h" and ?k = "handle_destroy ?h (pw_kernel p)"
  let ?p = "p\<lparr>pw_kernel := ?k, pw_handles := ?hs\<rparr>"
  obtain f where "file_of (pw_kernel p) ?d = Some f"
    using process_okD(9) [OF ok nth_mem [OF i]] by (auto simp: result_ok_def)
  then have "0 \<le> ?d" by (rule kernel_okD(1) [OF process_okD(1) [OF ok]])
  then have k: "?k = sys_close ?d (pw_kernel p)" by (simp add: handle_destroy_def)
  have fr: "frame {} {?d} (pw_kernel p) ?k" unfolding k by (rule close_frame [OF process_okD(1) [OF ok]])
  have gone: "file_of ?k ?d = None" by (simp add: k file_of_close)
  moreover have "mset (owned p) = add_mset ?d (mset (owned ?p))"
    using arg_cong [OF mset_remove_nth [OF i], of "image_mset rh_descriptor"] by (simp add: owned_def)
  ultimately have owns: "distinct (owned ?p)" "set (owned ?p) = {fd. file_of ?k fd \<noteq> None}"
    "?d \<notin> set (owned ?p)" using owned_lose [OF ok fr, where p' = ?p] by blast+
  have other: "r \<in> set (pw_regions p) \<Longrightarrow> rg_descriptor r \<noteq> ?d"
    "(a, s) \<in> set (pw_store p) \<Longrightarrow> rg_descriptor (sr_region s) \<noteq> ?d"
    "h \<in> set ?hs \<Longrightarrow> rh_descriptor h \<noteq> ?d" for r a s h
    using not_owned [OF owns(3)] by auto
  have files: "distinct (map (\<lambda>r. file_of ?k (rg_descriptor r)) (pw_regions p))"
    by (rule kept_files [OF ok fr _ process_okD(7) [OF ok]]) (use other in simp)
  show ?thesis
    by (rule process_ok_step [where hs = ?hs, OF ok fr _ _ files process_okD(3) [OF ok] _ _ owns(1,2)])
      (use other gone in \<open>auto dest: subsetD [OF set_remove_nth]\<close>)
qed

lemma resize_ok:
  assumes ok: "process_ok p" and i: "i < length (pw_regions p)"
    and c: "region_resize sz (pw_regions p ! i) (pw_kernel p) = (res, r', k)"
  shows "good_step p (p\<lparr>pw_kernel := k, pw_regions := (pw_regions p)[i := r']\<rparr>)"
proof -
  note loose = process_okD(6) [OF ok nth_mem [OF i]]
  obtain f mf where f: "file_of (pw_kernel p) (rg_descriptor (pw_regions p ! i)) = Some f"
    by (rule loose_file [OF loose])
  from resize_frame [OF process_okD(1) [OF ok] loose f c] show ?thesis
    by (intro region_step_ok [OF ok i f]) auto
qed

section \<open>Steps on the store\<close>

lemma acquire_result_ok:
  assumes ok: "process_ok p" and c: "acquire_result a (pw_store p) (pw_kernel p) = (Inr h, k)"
  shows "good_step p (p\<lparr>pw_kernel := k, pw_handles := h # pw_handles p\<rparr>)"
    and "\<exists>s. map_of (pw_store p) a = Some s \<and> rh_reference h = sr_reference s \<and>
      contents k (rh_descriptor h) = contents (pw_kernel p) (rg_descriptor (sr_region s))"
proof -
  from c obtain s where s: "map_of (pw_store p) a = Some s"
    by (auto simp: acquire_result_def split: option.splits)
  obtain r k1 where d: "sys_dup (rg_descriptor (sr_region s)) (pw_kernel p) = (r, k1)" by fastforce
  let ?d = "rh_descriptor h" and ?p = "p\<lparr>pw_kernel := k, pw_handles := h # pw_handles p\<rparr>"
  have h: "r = Inr ?d" "k1 = k" "rh_reference h = sr_reference s"
    using c s d by (auto simp: acquire_result_def split: sum.splits)
  with dup_frame [OF process_okD(1) [OF ok] d] have new: "file_of (pw_kernel p) ?d = None"
    and fr: "frame {} {?d} (pw_kernel p) k" and same: "file_of (pw_kernel p) (rg_descriptor (sr_region s)) \<noteq> None"
      "file_of k ?d = file_of (pw_kernel p) (rg_descriptor (sr_region s))" by auto
  have stored: "result_ok (pw_kernel p) (rg_descriptor (sr_region s)) (sr_reference s)"
    using process_okD(8) [OF ok map_of_SomeD [OF s]] .
  have other: "d \<noteq> ?d" if "d \<in> set (owned p)" for d
    using that new process_okD(5) [OF ok] by auto
  have s': "rg_descriptor (sr_region s) \<noteq> ?d"
    using other descriptor_member(2) [OF map_of_SomeD [OF s]] by blast
  note kept = result_frame [OF stored fr, of]
  have there: "result_ok k (rg_descriptor (sr_region s)) (sr_reference s)"
    "contents k (rg_descriptor (sr_region s)) = contents (pw_kernel p) (rg_descriptor (sr_region s))"
    using kept s' by simp_all
  have eq: "file_of k ?d = file_of k (rg_descriptor (sr_region s))"
    using same(2) frameD(3) [OF fr, of "rg_descriptor (sr_region s)"] s' by simp
  have "result_ok k ?d (rh_reference h)" using there(1) by (simp add: result_ok_def eq h(3))
  moreover have "mset (owned ?p) = add_mset ?d (mset (owned p))" by (simp add: owned_def)
  note owns = owned_gain [OF ok fr new _ this]
  have files: "distinct (map (\<lambda>r. file_of k (rg_descriptor r)) (pw_regions p))"
    by (rule kept_files [OF ok fr _ process_okD(7) [OF ok]]) (use other descriptor_member in blast)
  ultimately show "good_step p ?p"
    by (intro process_ok_step [where hs = "h # pw_handles p", OF ok fr _ _ files process_okD(3) [OF ok] _ _ owns])
      (use same other descriptor_member new in auto)
  show "\<exists>s. map_of (pw_store p) a = Some s \<and> rh_reference h = sr_reference s \<and>
      contents k ?d = contents (pw_kernel p) (rg_descriptor (sr_region s))"
    using s h(3) there(2) by (auto simp: contents_def eq)
qed

lemma map_of_delete_member: "(b, s) \<in> set (AList.delete a al) \<longleftrightarrow> b \<noteq> a \<and> (b, s) \<in> set al"
  by (auto simp: AList.delete_eq)

lemma erase_ok:
  assumes ok: "process_ok p" and s: "map_of (pw_store p) a = Some s"
  shows "good_step p (p\<lparr>pw_kernel := region_reset (sr_region s) (pw_kernel p),
    pw_store := AList.delete a (pw_store p)\<rparr>)"
proof -
  let ?d = "rg_descriptor (sr_region s)" and ?k = "region_reset (sr_region s) (pw_kernel p)"
  let ?st = "AList.delete a (pw_store p)"
  let ?p = "p\<lparr>pw_kernel := ?k, pw_store := ?st\<rparr>"
  note rs = reset_frame [OF process_okD(1) [OF ok], of "sr_region s"]
  have "mset (owned p) = add_mset ?d (mset (owned ?p))"
  proof -
    obtain M where "mset (map snd (pw_store p)) = add_mset s M" "mset (map snd ?st) = M"
      using mset_map_entry [OF process_okD(3) [OF ok] s] by auto
    then show ?thesis by (simp add: owned_alt)
  qed
  note owns = owned_lose [OF ok rs this]
  have other: "r \<in> set (pw_regions p) \<Longrightarrow> rg_descriptor r \<noteq> ?d"
    "(b, t) \<in> set ?st \<Longrightarrow> rg_descriptor (sr_region t) \<noteq> ?d"
    "h \<in> set (pw_handles p) \<Longrightarrow> rh_descriptor h \<noteq> ?d" for r b t h
    using not_owned [OF owns(3)] by auto
  have files: "distinct (map (\<lambda>r. file_of ?k (rg_descriptor r)) (pw_regions p))"
    by (rule kept_files [OF ok rs(1) _ process_okD(7) [OF ok]]) (use other in simp)
  have keys: "distinct (map fst ?st)" using process_okD(3) [OF ok] by (simp add: distinct_delete)
  show ?thesis
    by (rule process_ok_step [OF ok rs(1) _ _ files keys _ _ owns(1,2)])
      (use other rs(2) in \<open>auto simp: map_of_delete_member\<close>)
qed

lemma clear_ok:
  "process_ok p \<Longrightarrow> clear_results (pw_store p) (pw_kernel p) = (st, k) \<Longrightarrow>
   good_step p (p\<lparr>pw_kernel := k, pw_store := st\<rparr>) \<and> st = []"
proof (induction "pw_store p" arbitrary: p)
  case Nil
  then have "p\<lparr>pw_kernel := k, pw_store := st\<rparr> = p" by (cases p) auto
  with Nil good_step_refl [of p] show ?case by (metis clear_results.simps(1) prod.inject)
next
  case (Cons x rest)
  obtain a s where x: "x = (a, s)" by (cases x)
  let ?p = "p\<lparr>pw_kernel := region_reset (sr_region s) (pw_kernel p), pw_store := rest\<rparr>"
  have "distinct (map fst (x # rest))" using process_okD(3) [OF Cons.prems(1)] Cons.hyps(2) by simp
  then have "a \<notin> fst ` set rest" by (simp add: x)
  then have "AList.delete a (pw_store p) = rest" by (simp add: x flip: Cons.hyps(2))
  moreover have "map_of (pw_store p) a = Some s" by (simp add: x flip: Cons.hyps(2))
  ultimately have good: "good_step p ?p" using erase_ok [OF Cons.prems(1), of a s] by simp
  then have ok: "process_ok ?p" by (simp add: good_step_def)
  have "clear_results (pw_store ?p) (pw_kernel ?p) = (st, k)"
    using Cons.prems(2) by (simp add: x flip: Cons.hyps(2))
  from Cons.hyps(1) [OF _ ok this] good show ?case by (auto simp: good_step_def)
qed

section \<open>Publication\<close>

text \<open>What \<open>publish\<close> does with the region of its caller.\<close>

definition retained :: "u64 \<Rightarrow> u64" where
  "retained len = (if len = 0 then 1 else len)"

lemma publish_cases:
  assumes ok: "kernel_ok k" and loose: "loose_ok k r"
    and f: "file_of k (rg_descriptor r) = Some f" "memfile_of k f = Some mf"
    and pub: "publish a r len ty flags st k = (res, st', k')"
  obtains (failed) e where "res = Inl e" "st' = st" "frame {f} {rg_descriptor r} k k'"
      "file_of k' (rg_descriptor r) = None"
  | (published) r1 k1 mf1 where "res = Inr ()" "a \<noteq> 0" "region_valid r" "len \<le> rg_size r"
      "frame {f} {} k k1" "rg_descriptor r1 = rg_descriptor r" "rg_region_id r1 = rg_region_id r"
      "rg_size r1 = retained len" "memfile_of k1 f = Some mf1" "mf_sealed mf1"
      "mf_data mf1 = resize_data (unat (retained len)) (mf_data mf)"
      "insert_or_assign a \<lparr>sr_region = r1, sr_reference = result_reference r1 len ty flags\<rparr> st k1 = (st', k')"
proof -
  have reset: "frame {f} {rg_descriptor r} k (region_reset r2 k2) \<and>
      file_of (region_reset r2 k2) (rg_descriptor r) = None"
    if "frame {f} {} k k2" "rg_descriptor r2 = rg_descriptor r" for r2 k2
    using reset_frame [OF frameD(1) [OF that(1)], of r2] frame_trans [OF that(1)] that(2) by fastforce
  show ?thesis
  proof (cases "a = 0 \<or> \<not> region_valid r \<or> len > rg_size r")
    case True
    have "frame {f} {} k k" using frame_mono [OF frame_faults [OF ok, of "k_faults k"]] by simp
    from reset [OF this refl] show ?thesis
      using True pub by - (rule failed, auto simp: publish_def)
  next
    case args: False
    have len: "length (mf_data mf) = unat (rg_size r)"
      using loose f args by (auto simp: loose_ok_def region_valid_def)
    obtain res1 r1 k1 where rz: "(if retained len \<noteq> rg_size r then region_resize (retained len) r k
        else (Inr (), r, k)) = (res1, r1, k1)" by (metis prod.exhaust)
    have first: "frame {f} {} k k1 \<and> loose_ok k1 r1 \<and> rg_descriptor r1 = rg_descriptor r \<and>
      rg_region_id r1 = rg_region_id r \<and> (res1 = Inr () \<longrightarrow> rg_size r1 = retained len \<and>
        (\<exists>mf1. memfile_of k1 f = Some mf1 \<and> mf_data mf1 = resize_data (unat (retained len)) (mf_data mf)))"
    proof (cases "retained len = rg_size r")
      case True
      have "frame {f} {} k k" using frame_mono [OF frame_faults [OF ok, of "k_faults k"]] by simp
      moreover have "resize_data (unat (rg_size r)) (mf_data mf) = mf_data mf"
        unfolding len [symmetric] by simp
      ultimately show ?thesis using True rz f loose by auto
    next
      case False
      with rz resize_frame [OF ok loose f(1), of "retained len" res1 r1 k1] f(2) show ?thesis by auto
    qed
    have pub1: "(res, st', k') = (case (res1, r1, k1) of
        (Inl e, r, k) \<Rightarrow> (Inl e, st, region_reset r k)
      | (Inr _, r, k) \<Rightarrow> (case seal_read_only r k of
           (Inl e, r, k) \<Rightarrow> (Inl e, st, region_reset r k)
         | (Inr _, r, k) \<Rightarrow> (case insert_or_assign a
             \<lparr>sr_region = r, sr_reference = result_reference r len ty flags\<rparr> st k of
               (st, k) \<Rightarrow> (Inr (), st, k))))"
      unfolding rz [symmetric] pub [symmetric] using args by (simp add: publish_def Let_def retained_def)
    show ?thesis
    proof (cases res1)
      case (Inl e)
      have out: "res = Inl e" "st' = st" "k' = region_reset r1 k1" using pub1 Inl by simp_all
      have "frame {f} {} k k1" "rg_descriptor r1 = rg_descriptor r" using first by simp_all
      from reset [OF this] out show ?thesis by - (rule failed [of e], simp_all)
    next
      case (Inr u)
      obtain res2 r2 k2 where sl: "seal_read_only r1 k1 = (res2, r2, k2)" by (metis prod.exhaust)
      have fr1: "frame {f} {} k k1" and loose1: "loose_ok k1 r1" and d1: "rg_descriptor r1 = rg_descriptor r"
        using first by simp_all
      have f1: "file_of k1 (rg_descriptor r1) = Some f" using frameD(3) [OF fr1, of "rg_descriptor r"] f d1 by simp
      note second = seal_frame [OF frameD(1) [OF fr1] loose1 f1 sl]
      then have fr2: "frame {f} {} k k2" using frame_trans [OF fr1, of "{f}" "{}" k2] by simp
      show ?thesis
      proof (cases res2)
        case (Inl e)
        have out: "res = Inl e" "st' = st" "k' = region_reset r2 k2" using pub1 Inr sl Inl by simp_all
        have "rg_descriptor r2 = rg_descriptor r" using first second by simp
        from reset [OF fr2 this] out show ?thesis by - (rule failed [of e], simp_all)
      next
        case Inr2: (Inr v)
        from second first Inr Inr2 obtain mf2 where "memfile_of k2 f = Some mf2" "mf_sealed mf2"
          "mf_data mf2 = resize_data (unat (retained len)) (mf_data mf)" by auto
        with pub1 Inr Inr2 sl first second fr2 args show ?thesis
          by - (rule published [of k2 r2 mf2], auto split: prod.splits)
      qed
    qed
  qed
qed

lemma insert_or_assign_spec:
  assumes "distinct (map fst st)" and "insert_or_assign a s st k = (st', k')"
  shows "map_of st' b = (if b = a then Some s else map_of st b)" and "distinct (map fst st')"
    and "(b, t) \<in> set st' \<longleftrightarrow> (if b = a then t = s else (b, t) \<in> set st)"
    and "k' = (case map_of st a of None \<Rightarrow> k | Some old \<Rightarrow> region_reset (sr_region old) k)"
proof -
  have st': "st' = (if map_of st a = None then st @ [(a, s)] else AList.map_entry a (\<lambda>_. s) st)"
    using assms(2) by (auto simp: insert_or_assign_def split: option.splits)
  show dist: "distinct (map fst st')"
    using assms(1) by (auto simp: st' map_entry_keys map_of_eq_None_iff)
  show m: "map_of st' b = (if b = a then Some s else map_of st b)" for b
    by (auto simp: st' map_entry_map_of map_add_def split: option.split)
  show "(b, t) \<in> set st' \<longleftrightarrow> (if b = a then t = s else (b, t) \<in> set st)"
    unfolding map_of_eq_Some_iff [OF dist, symmetric] map_of_eq_Some_iff [OF assms(1), symmetric] m
    by auto
  show "k' = (case map_of st a of None \<Rightarrow> k | Some old \<Rightarrow> region_reset (sr_region old) k)"
    using assms(2) by (auto simp: insert_or_assign_def split: option.splits)
qed

lemma insert_or_assign_owned:
  assumes "distinct (map fst st)" and "insert_or_assign a s st k = (st', k')"
  shows "add_mset s (mset (map snd st)) = (case map_of st a of None \<Rightarrow> mset (map snd st')
     | Some old \<Rightarrow> add_mset old (mset (map snd st')))"
proof (cases "map_of st a")
  case (Some old)
  from mset_map_entry [OF assms(1) Some] obtain M where "mset (map snd st) = add_mset old M"
    "mset (map snd (AList.map_entry a (\<lambda>_. s) st)) = add_mset s M" by auto
  with Some assms(2) show ?thesis by (auto simp: insert_or_assign_def)
qed (use assms in \<open>auto simp: insert_or_assign_def\<close>)

lemma result_reference_ok:
  assumes "rg_size r = retained len" and "rg_region_id r \<noteq> 0"
  shows "ref_in_bounds (result_reference r len ty flags)"
    and "br_offset (result_reference r len ty flags) = 0"
    and "br_flags (result_reference r len ty flags) AND shared_buffer_immutable \<noteq> 0"
    and "br_region_size (result_reference r len ty flags) = retained len"
  using assms
  by (auto simp: result_reference_def ref_in_bounds_def retained_def shared_buffer_immutable_def
    word_ao_absorbs)

lemma publish_ok:
  assumes ok: "process_ok p" and i: "i < length (pw_regions p)"
    and pub: "publish a (pw_regions p ! i) len ty flags (pw_store p) (pw_kernel p) = (res, st, k)"
  shows "good_step p (p\<lparr>pw_kernel := k, pw_store := st, pw_regions := remove_nth i (pw_regions p)\<rparr>)"
proof -
  let ?r = "pw_regions p ! i" and ?k = "pw_kernel p" and ?rs = "remove_nth i (pw_regions p)"
  let ?p = "p\<lparr>pw_kernel := k, pw_store := st, pw_regions := ?rs\<rparr>"
  note loose = process_okD(6) [OF ok nth_mem [OF i]]
  from loose_file [OF loose] obtain f mf where f: "file_of ?k (rg_descriptor ?r) = Some f"
    "memfile_of ?k f = Some mf" "\<not> mf_sealed mf" .
  from process_okD(1) [OF ok] loose f(1,2) pub show ?thesis
  proof (cases rule: publish_cases)
    case (failed e)
    with retire_region_ok [OF ok i f(1) failed(3,4)] show ?thesis by simp
  next
    case (published r1 k1 mf1)
    define s where "s = \<lparr>sr_region = r1, sr_reference = result_reference r1 len ty flags\<rparr>"
    note ins = published(12) [folded s_def]
    note spec = insert_or_assign_spec [OF process_okD(3) [OF ok] ins]
    have sd: "rg_descriptor (sr_region s) = rg_descriptor ?r" by (simp add: s_def published)
    have total: "add_mset (rg_descriptor ?r) (image_mset (\<lambda>s. rg_descriptor (sr_region s)) (mset (map snd (pw_store p)))) =
      (case map_of (pw_store p) a of None \<Rightarrow> image_mset (\<lambda>s. rg_descriptor (sr_region s)) (mset (map snd st))
       | Some old \<Rightarrow> add_mset (rg_descriptor (sr_region old))
           (image_mset (\<lambda>s. rg_descriptor (sr_region s)) (mset (map snd st))))"
      using arg_cong [OF insert_or_assign_owned [OF process_okD(3) [OF ok] ins],
          of "image_mset (\<lambda>s. rg_descriptor (sr_region s))"]
      by (simp add: sd split: option.splits)
    have regions: "mset (pw_regions p) = add_mset ?r (mset ?rs)" by (rule mset_remove_nth [OF i])
    define D where "D = (case map_of (pw_store p) a of None \<Rightarrow> {}
      | Some old \<Rightarrow> {rg_descriptor (sr_region old)})"
    have "frame {f} D ?k k \<and> frame {} D k1 k \<and> distinct (owned ?p) \<and> set (owned ?p) = {fd. file_of k fd \<noteq> None} \<and>
        D \<inter> set (owned ?p) = {} \<and> (\<forall>d \<in> D. file_of k d = None)"
    proof (cases "map_of (pw_store p) a")
      case None
      then have k: "k = k1" using spec(4) by simp
      have "mset (owned ?p) = mset (owned p)" using total None by (simp add: owned_alt regions)
      with owned_same [OF ok published(5), of ?p] published(5) None frame_faults [OF frameD(1) [OF published(5)], of "k_faults k1"]
      show ?thesis by (simp add: k D_def)
    next
      case (Some old)
      then have k: "k = region_reset (sr_region old) k1" using spec(4) by simp
      note rs = reset_frame [OF frameD(1) [OF published(5)], of "sr_region old", folded k]
      have fr: "frame {f} {rg_descriptor (sr_region old)} ?k k" using frame_trans [OF published(5) rs(1)] by simp
      have "mset (owned p) = add_mset (rg_descriptor (sr_region old)) (mset (owned ?p))"
        using total Some by (simp add: owned_alt regions)
      from owned_lose [OF ok _ rs(2) this] frame_mono [OF fr] owned_lose [OF ok fr rs(2) this] fr rs Some
      show ?thesis by (simp add: D_def)
    qed
    then have fr: "frame {f} D ?k k" and fr1: "frame {} D k1 k"
      and owns: "distinct (owned ?p)" "set (owned ?p) = {fd. file_of k fd \<noteq> None}"
      and apart: "\<And>d. d \<in> D \<Longrightarrow> d \<notin> set (owned ?p)" and gone: "\<And>d. d \<in> D \<Longrightarrow> file_of k d = None"
      by blast+
    have new: "result_ok k (rg_descriptor (sr_region s)) (sr_reference s)"
    proof -
      have "(a, s) \<in> set st" using spec(3) [of a s] by simp
      then have "rg_descriptor ?r \<notin> D" using apart descriptor_member(2) [of a s ?p] sd by auto
      then have "file_of k (rg_descriptor ?r) = Some f" using frameD(3) [OF fr] f by simp
      moreover obtain mf2 where "memfile_of k f = Some mf2" "mf_data mf2 = mf_data mf1" "mf_sealed mf2"
        using frameD(4) [OF fr1 _ published(9)] published(10) by auto
      moreover have "rg_region_id r1 \<noteq> 0" using loose published(7) by (simp add: loose_ok_def)
      ultimately show ?thesis
        using result_reference_ok [OF published(8)] published(11)
        by (simp add: result_ok_def sd) (simp add: s_def)
    qed
    have other: "r \<in> set ?rs \<Longrightarrow> rg_descriptor r \<notin> D" "(b, t) \<in> set st \<Longrightarrow> rg_descriptor (sr_region t) \<notin> D"
      "h \<in> set (pw_handles p) \<Longrightarrow> rh_descriptor h \<notin> D" for r b t h
      using not_owned [OF apart, simplified] by blast+
    have files: "distinct (map (\<lambda>r. file_of k (rg_descriptor r)) ?rs)"
      by (rule kept_files [OF ok fr]) (use other distinct_remove_nth [OF process_okD(7) [OF ok]] in
        \<open>auto simp: map_remove_nth\<close>)
    have members: "r \<in> set (pw_regions p) \<and> rg_descriptor r \<notin> D \<and>
        file_of ?k (rg_descriptor r) \<notin> Some ` {f} \<or> loose_ok k r" if "r \<in> set ?rs" for r
      using that region_owned(2) [OF ok i that] set_remove_nth f other(1) by fastforce
    have F: "\<not> mf_sealed mf'" if "g \<in> {f}" "memfile_of ?k g = Some mf'" for g mf'
      using that f by simp
    have stored: "(b, t) \<in> set (pw_store p) \<and> rg_descriptor (sr_region t) \<notin> D \<or>
        result_ok k (rg_descriptor (sr_region t)) (sr_reference t)" if "(b, t) \<in> set st" for b t
      using that spec(3) [of b t] other(2) new by (auto split: if_splits)
    show ?thesis
      by (rule process_ok_step [OF ok fr F members files spec(2) stored _ owns])
        (use other gone in auto)
  qed
qed

section \<open>Reachable processes\<close>

definition new_process :: "u64 \<Rightarrow> process" where
  "new_process pid =
     \<lparr>pw_kernel = \<lparr>k_open = [], k_files = [], k_next_file = 0, k_faults = [], k_pid = pid,
        k_next_region = 1\<rparr>, pw_store = [], pw_regions = [], pw_handles = []\<rparr>"

text \<open>A process number is positive and below \<open>2 ^ 32\<close>.\<close>

inductive memory_reachable :: "u64 \<Rightarrow> process \<Rightarrow> bool" for pid where
  start: "0 < pid \<Longrightarrow> pid < 2 ^ 32 \<Longrightarrow> memory_reachable pid (new_process pid)"
| step: "memory_reachable pid p \<Longrightarrow> memory_reachable pid (memory_step op p)"

lemma memory_step_ok:
  assumes ok: "process_ok p"
  shows "good_step p (memory_step op p)"
proof (cases op)
  case (M_Faults fs)
  with still_ok [OF ok frame_faults [OF process_okD(1) [OF ok], of fs]] show ?thesis by simp
next
  case (M_Create sz)
  obtain r k where c: "region_create sz (pw_kernel p) = (r, k)" by fastforce
  with create_frame [OF process_okD(1,2) [OF ok] c] create_ok [OF ok] still_ok [OF ok, of k] M_Create
  show ?thesis by (cases r) auto
next
  case (M_Write i off bs)
  with write_ok [OF ok, of i off bs] good_step_refl [OF ok] show ?thesis by simp
next
  case (M_Resize i sz)
  obtain res r k where "region_resize sz (pw_regions p ! i) (pw_kernel p) = (res, r, k)" by (metis prod.exhaust)
  with resize_ok [OF ok _ this] good_step_refl [OF ok] M_Resize show ?thesis by simp
next
  case (M_Publish i a len ty flags)
  obtain res st k where "publish a (pw_regions p ! i) len ty flags (pw_store p) (pw_kernel p) = (res, st, k)"
    by (metis prod.exhaust)
  with publish_ok [OF ok _ this] good_step_refl [OF ok] M_Publish show ?thesis by simp
next
  case (M_Acquire a)
  obtain r k where c: "acquire_result a (pw_store p) (pw_kernel p) = (r, k)" by fastforce
  show ?thesis
  proof (cases r)
    case (Inl e)
    have "frame {} {} (pw_kernel p) k"
    proof (cases "map_of (pw_store p) a")
      case None
      with c frame_faults [OF process_okD(1) [OF ok], of "k_faults (pw_kernel p)"] show ?thesis
        by (simp add: acquire_result_def)
    next
      case (Some s)
      obtain d k1 where d: "sys_dup (rg_descriptor (sr_region s)) (pw_kernel p) = (d, k1)" by fastforce
      with dup_frame [OF process_okD(1) [OF ok] d] c Some Inl show ?thesis
        by (auto simp: acquire_result_def split: sum.splits)
    qed
    with still_ok [OF ok] c Inl M_Acquire show ?thesis by simp
  next
    case (Inr h)
    with acquire_result_ok(1) [OF ok] c M_Acquire show ?thesis by simp
  qed
next
  case (M_Erase a)
  with erase_ok [OF ok, of a] good_step_refl [OF ok] show ?thesis
    by (auto simp: erase_result_def split: option.splits)
next
  case M_Clear
  obtain st k where "clear_results (pw_store p) (pw_kernel p) = (st, k)" by fastforce
  with clear_ok [OF ok this] M_Clear show ?thesis by auto
next
  case (M_Drop_region i)
  with drop_region_ok [OF ok, of i] good_step_refl [OF ok] show ?thesis by simp
next
  case (M_Drop_handle i)
  with drop_handle_ok [OF ok, of i] good_step_refl [OF ok] show ?thesis by simp
qed

lemma push_bit_pid: "0 < pid \<Longrightarrow> pid < 2 ^ 32 \<Longrightarrow> push_bit 32 pid \<noteq> 0" for pid :: u64
proof -
  assume pid: "0 < pid" "pid < 2 ^ 32"
  then have "0 < unat pid" "unat pid < 2 ^ 32" by (simp_all add: word_less_nat_alt unat_gt_0)
  then have "unat (push_bit 32 pid) = unat pid * 2 ^ 32"
    by (simp add: push_bit_eq_mult unat_word_ariths)
  with \<open>0 < unat pid\<close> show "push_bit 32 pid \<noteq> 0" by auto
qed

lemma memory_reachable_ok: "memory_reachable pid p \<Longrightarrow> process_ok p"
proof (induction rule: memory_reachable.induct)
  case start
  with push_bit_pid [of pid] show ?case
    by (simp add: process_ok_def new_process_def kernel_ok_def owned_def)
next
  case (step p op)
  with memory_step_ok [of p op] show ?case by (simp add: good_step_def)
qed

section \<open>Properties\<close>

text \<open>An example: four bytes are written, three are published for agent 7, a client takes a handle.\<close>

definition demo_written :: process where
  "demo_written = memory_step (M_Write 0 0 [1, 2, 3, 4]) (memory_step (M_Create 4) (new_process 9))"

definition demo_published :: process where
  "demo_published = memory_step (M_Acquire 7) (memory_step (M_Publish 0 7 3 1 0) demo_written)"

lemma demo_memory: "memory_reachable 9 demo_written" "memory_reachable 9 demo_published"
proof -
  have "memory_reachable 9 (new_process 9)" by (rule memory_reachable.start) simp_all
  then show "memory_reachable 9 demo_written" "memory_reachable 9 demo_published"
    unfolding demo_published_def demo_written_def
    by (auto intro!: memory_reachable.step simp del: memory_step.simps)
qed

text \<open>
  C27. In every state that a process reaches by any sequence of creations, writes, resizes,
  publications, acquisitions, erasures and destructions, whatever calls of the system fail on the
  way, the open descriptors are exactly those owned by a stored result, a region or a handle, each
  by one of them: no descriptor leaks and none is closed twice.
\<close>

theorem descriptors_exact:
  assumes "memory_reachable pid p"
  shows "distinct (owned p) \<and> set (owned p) = {fd. file_of (pw_kernel p) fd \<noteq> None}"
  using process_okD(4,5) [OF memory_reachable_ok [OF assms]] by blast

lemma descriptors_exact_witness: "set (owned demo_published) =
    {fd. file_of (pw_kernel demo_published) fd \<noteq> None}"
  using descriptors_exact [OF demo_memory(2)] by blast

text \<open>
  C28. What a handle shows never changes while the handle lives: no step of the process, not even
  the replacement or the erasure of the result it came from, changes a byte of it. Its reference is
  within the bounds that every receiver checks, names the first byte, and is marked immutable; the
  file has exactly the size that the reference states.
\<close>

theorem results_immutable:
  assumes "memory_reachable pid p" and "h \<in> set (pw_handles p)"
    and "h \<in> set (pw_handles (memory_step op p))"
  shows "ref_in_bounds (rh_reference h) \<and> br_offset (rh_reference h) = 0 \<and>
    br_flags (rh_reference h) AND shared_buffer_immutable \<noteq> 0 \<and>
    (\<exists>bs. contents (pw_kernel p) (rh_descriptor h) = Some bs \<and>
       length bs = unat (br_region_size (rh_reference h)) \<and>
       contents (pw_kernel (memory_step op p)) (rh_descriptor h) = Some bs)"
proof -
  note ok = memory_reachable_ok [OF assms(1)]
  have "contents (pw_kernel (memory_step op p)) (rh_descriptor h) = contents (pw_kernel p) (rh_descriptor h)"
    using memory_step_ok [OF ok, of op] assms(2,3) by (auto simp: good_step_def)
  with process_okD(9) [OF ok assms(2)] show ?thesis by (auto simp: result_ok_def contents_def)
qed

lemma results_immutable_witness:
  "\<exists>h :: result_handle. contents (pw_kernel demo_published) (rh_descriptor h) = Some [1, 2, 3] \<and>
    contents (pw_kernel (memory_step (M_Erase 7) demo_published)) (rh_descriptor h) = Some [1, 2, 3]"
proof -
  let ?h = "\<lparr>rh_reference = \<lparr>br_region_id = 0x900000001, br_region_size = 3, br_offset = 0,
    br_length = 3, br_data_type = 1, br_flags = 2, br_version = 1\<rparr>, rh_descriptor = 1\<rparr>"
  have h: "pw_handles demo_published = [?h]"
    "pw_handles (memory_step (M_Erase 7) demo_published) = [?h]" by code_simp+
  have c: "contents (pw_kernel demo_published) 1 = Some [1, 2, 3]" by code_simp
  have "contents (pw_kernel (memory_step (M_Erase 7) demo_published)) 1 = Some [1, 2, 3]"
    using results_immutable [OF demo_memory(2), of ?h "M_Erase 7"] h c by simp
  with c show ?thesis by - (rule exI [of _ ?h], simp)
qed

text \<open>
  A publication that succeeds stores for the agent a reference to the first \<open>len\<close> bytes of the
  region (to one byte when \<open>len\<close> is 0) and leaves the other results alone; one that fails leaves the
  store unchanged. The region is consumed either way: after a failure its descriptor is closed.
\<close>

theorem publish_exact:
  assumes "memory_reachable pid p" and "i < length (pw_regions p)" and "r = pw_regions p ! i"
    and "contents (pw_kernel p) (rg_descriptor r) = Some bs"
    and "publish a r len ty flags (pw_store p) (pw_kernel p) = (res, st, k)"
  shows "if res = Inr ()
    then (\<exists>s. map_of st a = Some s \<and>
        sr_reference s = \<lparr>br_region_id = rg_region_id r, br_region_size = retained len, br_offset = 0,
          br_length = len, br_data_type = ty, br_flags = flags OR shared_buffer_immutable, br_version = 1\<rparr> \<and>
        contents k (rg_descriptor (sr_region s)) = Some (resize_data (unat (retained len)) bs)) \<and>
      len \<le> rg_size r \<and> (\<forall>b. b \<noteq> a \<longrightarrow> map_of st b = map_of (pw_store p) b)
    else st = pw_store p \<and> file_of k (rg_descriptor r) = None"
proof -
  note ok = memory_reachable_ok [OF assms(1)]
  have pub: "publish a (pw_regions p ! i) len ty flags (pw_store p) (pw_kernel p) = (res, st, k)"
    using assms(5) by (simp add: assms(3))
  have loose: "loose_ok (pw_kernel p) r" using process_okD(6) [OF ok nth_mem [OF assms(2)]] by (simp add: assms(3))
  from loose_file [OF this] obtain f mf where f: "file_of (pw_kernel p) (rg_descriptor r) = Some f"
    "memfile_of (pw_kernel p) f = Some mf" "\<not> mf_sealed mf" .
  have bs: "mf_data mf = bs" using assms(4) f by (simp add: contents_def)
  from process_okD(1) [OF ok] loose f(1,2) assms(5) show ?thesis
  proof (cases rule: publish_cases)
    case (failed e)
    then show ?thesis by simp
  next
    case (published r1 k1 mf1)
    define s where "s = \<lparr>sr_region = r1, sr_reference = result_reference r1 len ty flags\<rparr>"
    note spec = insert_or_assign_spec [OF process_okD(3) [OF ok] published(12) [folded s_def]]
    have "process_ok (p\<lparr>pw_kernel := k, pw_store := st, pw_regions := remove_nth i (pw_regions p)\<rparr>)"
      using publish_ok [OF ok assms(2) pub] by (simp add: good_step_def)
    from process_okD(8) [OF this, of a s] spec(3) [of a s]
    have res: "result_ok k (rg_descriptor r) (sr_reference s)" by (simp add: s_def published)
    have "frame {} (case map_of (pw_store p) a of None \<Rightarrow> {} | Some old \<Rightarrow> {rg_descriptor (sr_region old)}) k1 k"
      using spec(4) frame_faults [OF frameD(1) [OF published(5)], of "k_faults k1"]
        reset_frame(1) [OF frameD(1) [OF published(5)]] by (auto split: option.split)
    then obtain mf2 where mf2: "memfile_of k f = Some mf2" "mf_data mf2 = mf_data mf1"
      using frameD(4) [OF _ _ published(9)] by (metis empty_iff)
    have "file_of k1 (rg_descriptor r) = Some f" using frameD(3) [OF published(5)] f by simp
    moreover have "file_of k (rg_descriptor r) \<noteq> None" by (rule result_open [OF res])
    moreover have "file_of k d = file_of k1 d \<or> file_of k d = None" for d
      using spec(4) reset_frame [OF frameD(1) [OF published(5)]] frameD(3)
      by (cases "map_of (pw_store p) a") (simp, metis (no_types, lifting) option.simps(5) singletonD)
    ultimately have "file_of k (rg_descriptor r) = Some f" by metis
    with mf2 published bs have "contents k (rg_descriptor r) = Some (resize_data (unat (retained len)) bs)"
      by (simp add: contents_def)
    with published spec(1) show ?thesis
      by (auto simp: s_def result_reference_def intro!: exI [of _ s])
  qed
qed

lemma publish_exact_witness:
  "\<exists>res st k. publish 7 (pw_regions demo_written ! 0) 3 1 0 (pw_store demo_written) (pw_kernel demo_written) =
     (res, st, k) \<and> res = Inr () \<and>
   (\<exists>s. map_of st 7 = Some s \<and> contents k (rg_descriptor (sr_region s)) = Some [1, 2, 3])"
proof -
  have c: "contents (pw_kernel demo_written) (rg_descriptor (pw_regions demo_written ! 0)) = Some [1, 2, 3, 4]"
    and n: "length (pw_regions demo_written) = 1" by code_simp+
  have "fst (publish 7 (pw_regions demo_written ! 0) 3 1 0 (pw_store demo_written) (pw_kernel demo_written)) =
    Inr ()" by code_simp
  then obtain st k where pub: "publish 7 (pw_regions demo_written ! 0) 3 1 0 (pw_store demo_written)
    (pw_kernel demo_written) = (Inr (), st, k)" by (metis prod.collapse)
  from publish_exact [OF demo_memory(1) _ refl c pub] n pub show ?thesis
    by (auto simp: retained_def resize_data_def)
qed

end
