(* ===== verification/Shared_Memory_Channel.thy ===== *)
theory Shared_Memory_Channel
  imports Shared_Memory_Inv
begin

text \<open>The correctness properties of the descriptor channel and of the event notifier.\<close>

lemma get_ref_fields_short: "length bs < 48 \<Longrightarrow> get_ref_fields bs = None"
proof (rule ccontr)
  assume len: "length bs < 48" and "get_ref_fields bs \<noteq> None"
  then obtain b r where "get_ref_fields bs = Some (b, r)" by (cases "get_ref_fields bs") auto
  then have "bs = ref_bytes b @ r" using ref_fields.dec_sound by blast
  then have "48 \<le> length bs" by (simp add: ref_bytes_def)
  with len show False by simp
qed

lemma length_ref_bytes: "length (ref_bytes b) = 48"
  by (simp add: ref_bytes_def)

lemma get_ref_fields_bytes: "get_ref_fields (ref_bytes b) = Some (b, [])"
  using ref_fields.dec_enc [of b "[]"] by simp

lemma open_file_fresh:
  assumes "kernel_ok k" and "memfile_of k f \<noteq> None"
  shows "\<exists>fd k'. open_file f k = (Inr fd, k') \<and> file_of k fd = None \<and> frame {} {fd} k k' \<and> file_of k' fd = Some f"
proof -
  obtain r k' where o: "open_file f (k\<lparr>k_faults := k_faults k\<rparr>) = (r, k')" by fastforce
  from open_frame [OF assms o] o show ?thesis by auto
qed

text \<open>
  A reference that \<open>send\<close> accepts reaches the receiver unchanged, with a new descriptor of the
  same file, provided that its version is 1. With another version, which \<open>send\<close> does not check, the
  receiver refuses it and closes the descriptor again.
\<close>

theorem reference_crosses:
  assumes ok: "kernel_ok k" and sent: "send_reference b fd [] k = (Inr (), sock, k1)"
    and quiet: "k_faults k1 = []"
  shows "\<exists>res k2. receive_reference sock k1 = (res, [], k2) \<and>
    (if br_version b = 1
     then (\<exists>fd'. res = Inr (b, fd') \<and> file_of k fd' = None \<and> file_of k2 fd' = file_of k fd)
     else res = Inl ''invalid shared buffer bounds'' \<and> (\<forall>d. file_of k2 d = file_of k d))"
proof -
  have args: "br_region_id b \<noteq> 0" "br_region_size b \<noteq> 0" "\<not> br_offset b > br_region_size b"
    "\<not> br_length b > br_region_size b - br_offset b" "\<not> fd < 0"
    using sent by (auto simp: send_reference_def split: if_splits)
  obtain x k0 where c: "sys_call (\<lambda>k. case file_of k fd of None \<Rightarrow> (Inl ''Bad file descriptor'', k)
      | Some f \<Rightarrow> (Inr f, k)) k = (x, k0)" by fastforce
  obtain f where x: "x = Inr f" and k0: "k1 = k0"
    and sock: "sock = [\<lparr>pk_payload = ref_bytes b, pk_file = Some f, pk_truncated = False\<rparr>]"
    using sent args c by (cases x) (auto simp: send_reference_def)
  from c have "file_of k fd = Some f \<and> k_open k1 = k_open k \<and> k_files k1 = k_files k \<and> kernel_ok k1"
    unfolding k0 x by (cases rule: sys_call_cases) (use ok in \<open>auto simp: sys_simps split: option.splits\<close>)
  then have f: "file_of k fd = Some f" "file_of k1 = file_of k" "memfile_of k1 = memfile_of k" "kernel_ok k1"
    by auto
  from kernel_okD(2) [OF f(4), of fd f] f obtain fd' k2 where o: "open_file f k1 = (Inr fd', k2)"
    "file_of k fd' = None" "frame {} {fd'} k1 k2" "file_of k2 fd' = Some f"
    using open_file_fresh [OF f(4), of f] by auto
  have get: "get_ref_fields (take 48 (ref_bytes b)) = Some (b, [])"
    by (simp add: length_ref_bytes get_ref_fields_bytes)
  have "file_of (sys_close fd' k2) d = file_of k d" for d
    using o(2) frameD(3) [OF o(3), of d] f(2) by (simp add: file_of_close)
  with quiet o f get args show ?thesis
    by (auto simp: receive_reference_def sys_recvmsg_def sock sys_call_no_fault)
qed

lemma reference_crosses_witness:
  "\<exists>b fd k sock k1. kernel_ok k \<and> send_reference b fd [] k = (Inr (), sock, k1) \<and>
    (\<exists>fd' k2. receive_reference sock k1 = (Inr (b, fd'), [], k2))"
proof -
  let ?b = "\<lparr>br_region_id = 5, br_region_size = 3, br_offset = 0, br_length = 3, br_data_type = 1,
    br_flags = 2, br_version = 1\<rparr>"
  let ?k = "\<lparr>k_open = [(0, 0)], k_files = [(0, \<lparr>mf_data = [1, 2, 3], mf_sealed = True, mf_writers = 0\<rparr>)],
    k_next_file = 1, k_faults = [], k_pid = 9, k_next_region = 2\<rparr>"
  let ?s = "[\<lparr>pk_payload = ref_bytes ?b, pk_file = Some 0, pk_truncated = False\<rparr>]"
  have ok: "kernel_ok ?k" by (simp add: kernel_ok_def)
  have s: "send_reference ?b 0 [] ?k = (Inr (), ?s, ?k)"
    by (simp add: send_reference_def sys_call_no_fault)
  from reference_crosses [OF ok s] ok s show ?thesis by fastforce
qed

text \<open>
  A message that carries a descriptor but is too short, or whose control data was cut, is
  refused, and the descriptor that came with it stays open although nobody owns it.
\<close>

theorem receive_leaks_descriptor:
  assumes "kernel_ok k" and "k_faults k = []" and "pk_file p = Some f" and "memfile_of k f \<noteq> None"
    and "length (pk_payload p) < 48 \<or> pk_truncated p"
  shows "\<exists>e fd k'. receive_reference (p # sock) k = (Inl e, sock, k') \<and>
    file_of k fd = None \<and> file_of k' fd = Some f"
proof -
  obtain fd k' where o: "open_file f k = (Inr fd, k')" "file_of k fd = None" "file_of k' fd = Some f"
    using open_file_fresh [OF assms(1,4)] by blast
  have "sys_recvmsg (p # sock) k = (Inr (take 48 (pk_payload p), Some fd, pk_truncated p), sock, k')"
    using assms(2,3) o by (simp add: sys_recvmsg_def sys_call_no_fault)
  with assms(5) o get_ref_fields_short [of "take 48 (pk_payload p)"] show ?thesis
    by (cases "get_ref_fields (take 48 (pk_payload p))") (auto simp: receive_reference_def)
qed

lemma receive_leaks_descriptor_witness:
  "\<exists>k p e fd k'. k_open k = [] \<and> receive_reference [p] k = (Inl e, [], k') \<and> file_of k' fd = Some 0"
proof -
  let ?k = "\<lparr>k_open = [], k_files = [(0, \<lparr>mf_data = [1], mf_sealed = True, mf_writers = 0\<rparr>)],
    k_next_file = 1, k_faults = [], k_pid = 9, k_next_region = 2\<rparr>"
  let ?p = "\<lparr>pk_payload = [1, 2], pk_file = Some 0, pk_truncated = False\<rparr>"
  have "kernel_ok ?k" by (simp add: kernel_ok_def)
  from receive_leaks_descriptor [OF this, of ?p 0 "[]"] show ?thesis
    by (simp del: k_open_def) (metis kernel.select_convs(1))
qed

section \<open>The event notifier\<close>

text \<open>A sequence of signals, with the sum of those that were accepted.\<close>

fun event_signals :: "u64 list \<Rightarrow> notifier \<Rightarrow> nat \<times> notifier" where
  "event_signals [] n = (0, n)"
| "event_signals (v # vs) n =
     (case event_signal v n of
        (Inl _, n) \<Rightarrow> event_signals vs n
      | (Inr _, n) \<Rightarrow> (case event_signals vs n of (s, n) \<Rightarrow> (unat v + s, n)))"

lemma unat_max_u64: "unat (max_u64 - 1) = 2 ^ 64 - 2" "unat max_u64 = 2 ^ 64 - 1"
proof -
  have eq: "max_u64 = 0xffffffffffffffff" by (simp add: max_u64_def)
  show "unat (max_u64 - 1) = 2 ^ 64 - 2" "unat max_u64 = 2 ^ 64 - 1"
    unfolding eq by simp_all
qed

lemma event_signals_counter:
  "event_signals vs n = (s, n') \<Longrightarrow>
   unat (en_counter n') = unat (en_counter n) + s \<and> en_descriptor n' = en_descriptor n"
proof (induction vs arbitrary: n s)
  case (Cons v vs)
  show ?case
  proof (cases "event_signal v n")
    case (Pair r n1)
    show ?thesis
    proof (cases r)
      case (Inl e)
      then have "n1 = n" using Pair by (auto simp: event_signal_def split: if_splits)
      with Cons Pair Inl show ?thesis by simp
    next
      case (Inr u)
      then have n1: "n1 = n\<lparr>en_counter := en_counter n + v\<rparr>"
        and le: "unat (en_counter n) + unat v \<le> 2 ^ 64 - 2"
        using Pair by (auto simp: event_signal_def unat_max_u64 split: if_splits)
      have "unat (en_counter n + v) = unat (en_counter n) + unat v"
        using le by (simp add: unat_word_ariths)
      with Cons Pair Inr n1 show ?thesis by (auto split: prod.splits)
    qed
  qed
qed simp

text \<open>
  No signal is lost and none is counted twice: after any sequence of signals the next wait
  returns the exact sum of those that were accepted, without wrap-around, and starts again at 0;
  it times out only if none was accepted.
\<close>

theorem events_counted:
  assumes "en_descriptor n \<ge> 0" and "en_counter n = 0" and "event_signals vs n = (s, n')"
  shows "event_wait None n' =
    (if s = 0 then (Inl ''eventfd wait timed out'', n')
     else (Inr (of_nat s), n'\<lparr>en_counter := 0\<rparr>)) \<and> s < 2 ^ 64"
proof -
  from event_signals_counter [OF assms(3)] assms(1,2) have u: "unat (en_counter n') = s"
    and d: "\<not> en_descriptor n' < 0" by simp_all
  have "s < 2 ^ 64" using unsigned_less [of "en_counter n'", where ?'a = nat] u by simp
  moreover have "en_counter n' = of_nat s" by (simp flip: u)
  ultimately show ?thesis using d u by (auto simp: event_wait_def)
qed

lemma events_counted_witness:
  "event_wait None (snd (event_signals [2, 0, 3] \<lparr>en_descriptor = 4, en_counter = 0\<rparr>)) =
    (Inr 5, \<lparr>en_descriptor = 4, en_counter = 0\<rparr>)"
proof -
  have s: "event_signals [2, 0, 3] \<lparr>en_descriptor = 4, en_counter = 0\<rparr> =
    (5, \<lparr>en_descriptor = 4, en_counter = 5\<rparr>)"
    by (simp add: event_signal_def unat_max_u64) (simp add: max_u64_def)
  from events_counted [OF _ _ s] s show ?thesis by simp
qed

end
