(* ===== verification/Local_Socket.thy ===== *)
theory Local_Socket
  imports Prelude
begin

text \<open>
  The listening end of a local socket, as both servers of the runtime open and close it
  (\<^verbatim>\<open>open_socket\<close> and the closing part of \<^verbatim>\<open>stop\<close> in \<^verbatim>\<open>agent-runtime/src/invocation_channel.cpp\<close> and
  \<^verbatim>\<open>agent-runtime/src/control_channel.cpp\<close>, which differ in their error texts). The host keeps the
  nodes of the file system and the open sockets of all processes; a socket stands for its
  descriptor, and a call may fail with the next fault of a list.
\<close>

section \<open>The host\<close>

datatype errno = ENOENT | ECONNREFUSED | EADDRINUSE | Errno string

fun strerror :: "errno \<Rightarrow> string" where
  "strerror ENOENT = ''No such file or directory''"
| "strerror ECONNREFUSED = ''Connection refused''"
| "strerror EADDRINUSE = ''Address already in use''"
| "strerror (Errno s) = s"

text \<open>A socket node has an owner and the socket that was bound to it.\<close>

datatype fs_node = Socket_node u32 nat | Other_node

record host =
  ho_node :: "string \<Rightarrow> fs_node option"
  ho_sockets :: "nat list"
  ho_listening :: "nat list"
  ho_next :: nat
  ho_uid :: u32
  ho_faults :: "errno option list"

type_synonym 'a call = "host \<Rightarrow> (errno + 'a) \<times> host"

definition host_call :: "'a call \<Rightarrow> 'a call" where
  "host_call f h =
     (case ho_faults h of
        [] \<Rightarrow> f h
      | None # fs \<Rightarrow> f (h\<lparr>ho_faults := fs\<rparr>)
      | Some e # fs \<Rightarrow> (Inl e, h\<lparr>ho_faults := fs\<rparr>))"

definition host_lstat :: "string \<Rightarrow> fs_node call" where
  "host_lstat path = host_call (\<lambda>h.
     case ho_node h path of None \<Rightarrow> (Inl ENOENT, h) | Some n \<Rightarrow> (Inr n, h))"

definition host_socket :: "nat call" where
  "host_socket = host_call (\<lambda>h.
     (Inr (ho_next h), h\<lparr>ho_sockets := ho_next h # ho_sockets h, ho_next := ho_next h + 1\<rparr>))"

definition host_close :: "nat \<Rightarrow> host \<Rightarrow> host" where
  "host_close s h = h\<lparr>ho_sockets := removeAll s (ho_sockets h), ho_listening := removeAll s (ho_listening h)\<rparr>"

text \<open>A connection is made when the socket behind the node still listens.\<close>

definition host_connect :: "string \<Rightarrow> unit call" where
  "host_connect path = host_call (\<lambda>h.
     case ho_node h path of
       None \<Rightarrow> (Inl ENOENT, h)
     | Some Other_node \<Rightarrow> (Inl ECONNREFUSED, h)
     | Some (Socket_node uid s) \<Rightarrow> (if s \<in> set (ho_listening h) then Inr () else Inl ECONNREFUSED, h))"

definition host_unlink :: "string \<Rightarrow> unit call" where
  "host_unlink path = host_call (\<lambda>h.
     case ho_node h path of
       None \<Rightarrow> (Inl ENOENT, h)
     | Some _ \<Rightarrow> (Inr (), h\<lparr>ho_node := (ho_node h)(path := None)\<rparr>))"

definition host_bind :: "nat \<Rightarrow> string \<Rightarrow> unit call" where
  "host_bind s path = host_call (\<lambda>h.
     case ho_node h path of
       Some _ \<Rightarrow> (Inl EADDRINUSE, h)
     | None \<Rightarrow> (Inr (), h\<lparr>ho_node := (ho_node h)(path \<mapsto> Socket_node (ho_uid h) s)\<rparr>))"

definition host_chmod :: "string \<Rightarrow> unit call" where
  "host_chmod path = host_call (\<lambda>h.
     case ho_node h path of None \<Rightarrow> (Inl ENOENT, h) | Some _ \<Rightarrow> (Inr (), h))"

definition host_listen :: "nat \<Rightarrow> unit call" where
  "host_listen s = host_call (\<lambda>h. (Inr (), h\<lparr>ho_listening := s # ho_listening h\<rparr>))"

section \<open>Opening and closing\<close>

definition sun_path_size :: nat where
  "sun_path_size = 108"

text \<open>The error texts in which the two servers differ.\<close>

record socket_texts =
  tx_address :: string
  tx_refuse :: string
  tx_probe :: string
  tx_in_use :: string
  tx_unlink :: string
  tx_inspect :: string
  tx_create :: string
  tx_bind :: string
  tx_configure :: string

record endpoint =
  ep_path :: string
  ep_listen :: "nat option"
  ep_owns :: bool
  ep_running :: bool

definition make_socket_address :: "string \<Rightarrow> string \<Rightarrow> string + string" where
  "make_socket_address what path = (if path = [] \<or> length path \<ge> sun_path_size then Inl what else Inr path)"

definition system_text :: "string \<Rightarrow> errno \<Rightarrow> string" where
  "system_text operation e = operation @ '' failed: '' @ strerror e"

text \<open>What is at the path: nothing, or a dead socket of this user, which is removed.\<close>

definition clear_path :: "socket_texts \<Rightarrow> string \<Rightarrow> host \<Rightarrow> (string + unit) \<times> host" where
  "clear_path tx path h =
     (case host_lstat path h of
        (Inr node, h) \<Rightarrow>
          (case node of
             Other_node \<Rightarrow> (Inl (tx_refuse tx), h)
           | Socket_node uid _ \<Rightarrow>
               if uid \<noteq> ho_uid h then (Inl (tx_refuse tx), h)
               else (case host_socket h of
                   (Inl e, h) \<Rightarrow> (Inl (system_text (tx_probe tx) e), h)
                 | (Inr probe, h) \<Rightarrow>
                     (case host_connect path h of
                        (r, h) \<Rightarrow>
                          let h = host_close probe h
                          in if r = Inl ECONNREFUSED \<or> r = Inl ENOENT
                             then (case host_unlink path h of
                                 (Inl e, h) \<Rightarrow> (Inl (system_text (tx_unlink tx) e), h)
                               | (Inr _, h) \<Rightarrow> (Inr (), h))
                             else (Inl (tx_in_use tx), h))))
      | (Inl e, h) \<Rightarrow>
          if e \<noteq> ENOENT then (Inl (system_text (tx_inspect tx) e), h) else (Inr (), h))"

definition open_socket ::
  "socket_texts \<Rightarrow> 'a endpoint_scheme \<Rightarrow> host \<Rightarrow> (string + unit) \<times> 'a endpoint_scheme \<times> host" where
  "open_socket tx ep h =
     (let path = ep_path ep in
      case make_socket_address (tx_address tx) path of
        Inl e \<Rightarrow> (Inl e, ep, h)
      | Inr _ \<Rightarrow>
      (case clear_path tx path h of
        (Inl e, h) \<Rightarrow> (Inl e, ep, h)
      | (Inr _, h) \<Rightarrow>
      (case host_socket h of
        (Inl e, h) \<Rightarrow> (Inl (system_text (tx_create tx) e), ep\<lparr>ep_listen := None\<rparr>, h)
      | (Inr s, h) \<Rightarrow>
      (case host_bind s path h of
        (Inl e, h) \<Rightarrow> (Inl (system_text (tx_bind tx) e), ep\<lparr>ep_listen := None\<rparr>, host_close s h)
      | (Inr _, h) \<Rightarrow>
      (case (case host_chmod path h of (Inl e, h) \<Rightarrow> (Inl e, h) | (Inr _, h) \<Rightarrow> host_listen s h) of
        (Inl e, h) \<Rightarrow> (Inl (system_text (tx_configure tx) e), ep\<lparr>ep_listen := None, ep_owns := False\<rparr>,
          snd (host_unlink path (host_close s h)))
      | (Inr _, h) \<Rightarrow> (Inr (), ep\<lparr>ep_listen := Some s, ep_owns := True\<rparr>, h))))))"

text \<open>The two halves of \<^verbatim>\<open>stop\<close>, between which the servers do their own work.\<close>

definition close_listener :: "'a endpoint_scheme \<Rightarrow> host \<Rightarrow> 'a endpoint_scheme \<times> host" where
  "close_listener ep h =
     (case ep_listen ep of
        Some s \<Rightarrow> (ep\<lparr>ep_running := False, ep_listen := None\<rparr>, host_close s h)
      | None \<Rightarrow> (ep\<lparr>ep_running := False\<rparr>, h))"

definition unlink_socket :: "'a endpoint_scheme \<Rightarrow> host \<Rightarrow> 'a endpoint_scheme \<times> host" where
  "unlink_socket ep h =
     (if ep_owns ep then (ep\<lparr>ep_owns := False\<rparr>, snd (host_unlink (ep_path ep) h)) else (ep, h))"

section \<open>What opening does to the path\<close>

definition host_ok :: "host \<Rightarrow> bool" where
  "host_ok h \<longleftrightarrow> set (ho_listening h) \<subseteq> set (ho_sockets h) \<and> (\<forall>s \<in> set (ho_sockets h). s < ho_next h)"

text \<open>A node that must not go: no socket, a socket of somebody else, or one that still listens.\<close>

definition protected :: "host \<Rightarrow> string \<Rightarrow> bool" where
  "protected h path \<longleftrightarrow>
     (case ho_node h path of
        None \<Rightarrow> False
      | Some Other_node \<Rightarrow> True
      | Some (Socket_node uid s) \<Rightarrow> uid \<noteq> ho_uid h \<or> s \<in> set (ho_listening h))"

text \<open>A fault that a call may have: connecting reports a listener that is there.\<close>

definition honest_faults :: "host \<Rightarrow> bool" where
  "honest_faults h \<longleftrightarrow> (\<forall>e. Some e \<in> set (ho_faults h) \<longrightarrow> e \<noteq> ECONNREFUSED \<and> e \<noteq> ENOENT)"

lemma host_call_cases:
  assumes "host_call f h = (r, h')"
  obtains (run) fs where "f (h\<lparr>ho_faults := fs\<rparr>) = (r, h')" "set fs \<subseteq> set (ho_faults h)"
  | (fault) e fs where "r = Inl e" "h' = h\<lparr>ho_faults := fs\<rparr>" "ho_faults h = Some e # fs"
proof (cases "ho_faults h")
  case Nil
  then have "h\<lparr>ho_faults := []\<rparr> = h" by (cases h) simp
  with run [of "[]"] assms Nil show ?thesis by (simp add: host_call_def)
next
  case (Cons x fs)
  then show ?thesis using run [of fs] fault [of _ fs] assms
    by (cases x) (auto simp: host_call_def)
qed

text \<open>What every call keeps; the nodes and sockets that it changes are named by each.\<close>

definition later :: "host \<Rightarrow> host \<Rightarrow> bool" where
  "later h h' \<longleftrightarrow> ho_uid h' = ho_uid h \<and> set (ho_faults h') \<subseteq> set (ho_faults h) \<and> ho_next h \<le> ho_next h'"

lemma later_trans: "later h1 h2 \<Longrightarrow> later h2 h3 \<Longrightarrow> later h1 h3"
  by (auto simp: later_def)

lemma host_lstat_spec:
  assumes "host_lstat p h = (r, h')"
  shows "later h h' \<and> ho_node h' = ho_node h \<and> ho_sockets h' = ho_sockets h \<and> ho_listening h' = ho_listening h \<and>
    (case r of Inr n \<Rightarrow> ho_node h p = Some n | Inl e \<Rightarrow> e = ENOENT \<and> ho_node h p = None \<or> Some e \<in> set (ho_faults h))"
  using assms unfolding host_lstat_def
  by (cases rule: host_call_cases) (auto simp: later_def split: option.splits)

lemma host_socket_spec:
  assumes "host_socket h = (r, h')"
  shows "later h h' \<and> ho_node h' = ho_node h \<and> ho_listening h' = ho_listening h \<and>
    (case r of Inr s \<Rightarrow> s = ho_next h \<and> ho_sockets h' = s # ho_sockets h \<and> ho_next h < ho_next h'
     | Inl e \<Rightarrow> ho_sockets h' = ho_sockets h)"
  using assms unfolding host_socket_def
  by (cases rule: host_call_cases) (auto simp: later_def)

lemma host_connect_spec:
  assumes "host_connect p h = (r, h')"
  shows "later h h' \<and> ho_node h' = ho_node h \<and> ho_sockets h' = ho_sockets h \<and> ho_listening h' = ho_listening h \<and>
    (\<forall>uid s. ho_node h p = Some (Socket_node uid s) \<longrightarrow> s \<in> set (ho_listening h) \<longrightarrow>
      r = Inr () \<or> (\<exists>e. r = Inl e \<and> Some e \<in> set (ho_faults h)))"
  using assms unfolding host_connect_def
  by (cases rule: host_call_cases) (auto simp: later_def split: option.splits fs_node.splits if_splits)

lemma host_unlink_spec:
  assumes "host_unlink p h = (r, h')"
  shows "later h h' \<and> ho_sockets h' = ho_sockets h \<and> ho_listening h' = ho_listening h \<and>
    (ho_node h' = ho_node h \<or> ho_node h' = (ho_node h)(p := None)) \<and>
    (r = Inr () \<longrightarrow> ho_node h' = (ho_node h)(p := None))"
  using assms unfolding host_unlink_def
  by (cases rule: host_call_cases) (auto simp: later_def split: option.splits)

lemma host_bind_spec:
  assumes "host_bind s p h = (r, h')"
  shows "later h h' \<and> ho_sockets h' = ho_sockets h \<and> ho_listening h' = ho_listening h \<and>
    (case r of Inl e \<Rightarrow> ho_node h' = ho_node h
     | Inr _ \<Rightarrow> ho_node h p = None \<and> ho_node h' = (ho_node h)(p \<mapsto> Socket_node (ho_uid h) s))"
  using assms unfolding host_bind_def
  by (cases rule: host_call_cases) (auto simp: later_def split: option.splits)

lemma host_chmod_spec:
  assumes "host_chmod p h = (r, h')"
  shows "later h h' \<and> ho_node h' = ho_node h \<and> ho_sockets h' = ho_sockets h \<and> ho_listening h' = ho_listening h"
  using assms unfolding host_chmod_def
  by (cases rule: host_call_cases) (auto simp: later_def split: option.splits)

lemma host_listen_spec:
  assumes "host_listen s h = (r, h')"
  shows "later h h' \<and> ho_node h' = ho_node h \<and> ho_sockets h' = ho_sockets h \<and>
    ho_listening h' = (case r of Inl e \<Rightarrow> ho_listening h | Inr _ \<Rightarrow> s # ho_listening h)"
  using assms unfolding host_listen_def
  by (cases rule: host_call_cases) (auto simp: later_def)

lemma host_close_fields [simp]:
  "ho_node (host_close s h) = ho_node h" "ho_sockets (host_close s h) = removeAll s (ho_sockets h)"
  "ho_listening (host_close s h) = removeAll s (ho_listening h)" "ho_uid (host_close s h) = ho_uid h"
  "ho_faults (host_close s h) = ho_faults h" "ho_next (host_close s h) = ho_next h"
  by (simp_all add: host_close_def)

lemma later_close [simp]: "later h (host_close s h') = later h h'"
  by (simp add: later_def)

text \<open>A fresh socket is neither open nor listening.\<close>

lemma fresh_socket: "host_ok h \<Longrightarrow> later h h' \<Longrightarrow> ho_next h' \<notin> set (ho_sockets h) \<and> ho_next h' \<notin> set (ho_listening h)"
  by (auto simp: host_ok_def later_def dest: leD)

lemma clear_path_spec:
  assumes ok: "host_ok h" and honest: "honest_faults h" and c: "clear_path tx p h = (r, h')"
  shows "later h h' \<and> ho_sockets h' = ho_sockets h \<and> ho_listening h' = ho_listening h \<and>
    (ho_node h' = ho_node h \<or> \<not> protected h p \<and> ho_node h' = (ho_node h)(p := None)) \<and>
    (r = Inr () \<longrightarrow> ho_node h' = (ho_node h)(p := None) \<and> \<not> protected h p)"
proof -
  obtain r1 h1 where ls: "host_lstat p h = (r1, h1)" by fastforce
  note l = host_lstat_spec [OF ls]
  show ?thesis
  proof (cases r1)
    case (Inl e)
    then have "r = Inr () \<Longrightarrow> e = ENOENT" and [simp]: "h' = h1"
      using c ls by (auto simp: clear_path_def split: if_splits)
    with l Inl honest show ?thesis
      by (auto simp: honest_faults_def protected_def fun_upd_idem_iff)
  next
    case (Inr n)
    show ?thesis
    proof (cases "\<exists>s. n = Socket_node (ho_uid h1) s")
      case False
      then have "h' = h1" "r \<noteq> Inr ()" using c ls Inr by (auto simp: clear_path_def split: fs_node.splits if_splits)
      with l show ?thesis by simp
    next
      case True
      then obtain s where n: "n = Socket_node (ho_uid h) s" using l by (auto simp: later_def)
      obtain r2 h2 where so: "host_socket h1 = (r2, h2)" by fastforce
      obtain r3 h3 where cn: "host_connect p h2 = (r3, h3)" by fastforce
      note so' = host_socket_spec [OF so] and cn' = host_connect_spec [OF cn]
      have l2: "later h h2" using l so' later_trans [of h h1 h2] by simp
      then have l3: "later h h3" using cn' later_trans [of h h2 h3] by simp
      show ?thesis
      proof (cases r2)
        case (Inl e)
        with c ls Inr n so l so' l2 show ?thesis by (auto simp: clear_path_def later_def)
      next
        case (Inr probe)
        let ?h = "host_close probe h3"
        have "probe \<notin> set (ho_sockets h)" "probe \<notin> set (ho_listening h)"
          using fresh_socket [OF ok, of h1] l so' Inr by auto
        then have h3: "ho_sockets ?h = ho_sockets h" "ho_listening ?h = ho_listening h" "ho_node ?h = ho_node h"
          using l so' cn' Inr by simp_all
        obtain r4 h4 where un: "host_unlink p ?h = (r4, h4)" by fastforce
        note un' = host_unlink_spec [OF un]
        have l4: "later h h4" using un' l3 later_trans [of h ?h h4] by simp
        have dead: "\<not> protected h p" if "r3 = Inl ECONNREFUSED \<or> r3 = Inl ENOENT"
        proof
          assume "protected h p"
          then have "s \<in> set (ho_listening h2)" "ho_node h2 p = Some (Socket_node (ho_uid h) s)"
            using l \<open>r1 = Inr n\<close> n so' by (auto simp: protected_def)
          with cn' that obtain e where "e \<in> {ECONNREFUSED, ENOENT}" "Some e \<in> set (ho_faults h2)" by fastforce
          with l2 honest show False by (auto simp: later_def honest_faults_def)
        qed
        have "(if r3 = Inl ECONNREFUSED \<or> r3 = Inl ENOENT
            then (case r4 of Inl e \<Rightarrow> (Inl (system_text (tx_unlink tx) e), h4) | Inr _ \<Rightarrow> (Inr (), h4))
            else (Inl (tx_in_use tx), ?h)) = (r, h')"
          using c ls \<open>r1 = Inr n\<close> n so Inr cn un l
          by (auto simp: clear_path_def Let_def later_def split: if_splits sum.splits)
        then show ?thesis using dead h3 un' l3 l4 by (auto split: if_splits sum.splits)
      qed
    qed
  qed
qed

lemma host_ok_later:
  "host_ok h \<Longrightarrow> later h h' \<Longrightarrow> set (ho_sockets h') = set (ho_sockets h) \<Longrightarrow>
   set (ho_listening h') = set (ho_listening h) \<Longrightarrow> host_ok h'"
  by (auto simp: host_ok_def later_def)

lemma open_socket_spec:
  assumes ok: "host_ok h" and honest: "honest_faults h" and o: "open_socket tx ep h = (r, ep', h')"
  shows "later h h' \<and> host_ok h' \<and> (\<forall>p. p \<noteq> ep_path ep \<longrightarrow> ho_node h' p = ho_node h p) \<and>
    (protected h (ep_path ep) \<longrightarrow> (\<exists>e. r = Inl e) \<and> ho_node h' = ho_node h) \<and>
    (case r of
       Inl e \<Rightarrow> set (ho_sockets h') = set (ho_sockets h) \<and> set (ho_listening h') = set (ho_listening h) \<and>
         ep' \<in> {ep, ep\<lparr>ep_listen := None\<rparr>, ep\<lparr>ep_listen := None, ep_owns := False\<rparr>}
     | Inr _ \<Rightarrow> \<exists>s. s \<notin> set (ho_sockets h) \<and> ep' = ep\<lparr>ep_listen := Some s, ep_owns := True\<rparr> \<and>
         ho_node h' = (ho_node h)(ep_path ep \<mapsto> Socket_node (ho_uid h) s) \<and>
         set (ho_sockets h') = insert s (set (ho_sockets h)) \<and>
         set (ho_listening h') = insert s (set (ho_listening h)))"
proof (cases "make_socket_address (tx_address tx) (ep_path ep)")
  case (Inl e)
  with o ok show ?thesis by (auto simp: open_socket_def later_def)
next
  case addr: (Inr a)
  let ?p = "ep_path ep"
  obtain r1 h1 where c: "clear_path tx ?p h = (r1, h1)" by fastforce
  note c' = clear_path_spec [OF ok honest c]
  show ?thesis
  proof (cases r1)
    case (Inl e)
    with o addr c have "r = Inl e" "h' = h1" "ep' = ep" by (auto simp: open_socket_def)
    with c' host_ok_later [OF ok] show ?thesis by auto
  next
    case clear: (Inr u)
    obtain r2 h2 where so: "host_socket h1 = (r2, h2)" by fastforce
    note so' = host_socket_spec [OF so]
    show ?thesis
    proof (cases r2)
      case (Inl e)
      with o addr c clear so have "\<exists>e. r = Inl e" "h' = h2" "ep' = ep\<lparr>ep_listen := None\<rparr>"
        by (auto simp: open_socket_def)
      moreover have "later h h2" using later_trans [of h h1 h2] c' so' by simp
      ultimately show ?thesis using c' so' clear Inl host_ok_later [OF ok, of h2] by auto
    next
      case socket: (Inr s)
      have new: "s \<notin> set (ho_sockets h)" "s \<notin> set (ho_listening h)"
        using fresh_socket [OF ok, of h1] c' so' socket by auto
      have l2: "later h h2" using later_trans [of h h1 h2] c' so' by simp
      obtain r3 h3 where bi: "host_bind s ?p h2 = (r3, h3)" by fastforce
      note bi' = host_bind_spec [OF bi]
      have l3: "later h h3" using later_trans [OF l2, of h3] bi' by simp
      show ?thesis
      proof (cases r3)
        case (Inl e)
        with o addr c clear so socket bi have "\<exists>e. r = Inl e" "h' = host_close s h3" "ep' = ep\<lparr>ep_listen := None\<rparr>"
          by (auto simp: open_socket_def)
        with c' so' bi' clear socket Inl new l3 host_ok_later [OF ok, of "host_close s h3"] show ?thesis
          by auto
      next
        case bound: (Inr v)
        obtain r4 h4 where ch: "host_chmod ?p h3 = (r4, h4)" by fastforce
        obtain r5 h5 where li: "host_listen s h4 = (r5, h5)" by fastforce
        note ch' = host_chmod_spec [OF ch] and li' = host_listen_spec [OF li]
        obtain h6 where h6: "h6 = (case r4 of Inl _ \<Rightarrow> h4 | Inr _ \<Rightarrow> h5)" by simp
        obtain r7 h7 where un: "host_unlink ?p (host_close s h6) = (r7, h7)" by fastforce
        note un' = host_unlink_spec [OF un]
        have l4: "later h h4" using later_trans [OF l3, of h4] ch' by simp
        have l5: "later h h5" using later_trans [OF l4, of h5] li' by simp
        show ?thesis
        proof (cases "\<exists>x y. r4 = Inr x \<and> r5 = Inr y")
          case True
          with o addr c clear so socket bi bound ch li
          have "r = Inr ()" "h' = h5" "ep' = ep\<lparr>ep_listen := Some s, ep_owns := True\<rparr>"
            by (auto simp: open_socket_def)
          moreover have "s < ho_next h5" using so' bi' ch' li' socket by (auto simp: later_def)
          ultimately show ?thesis using True c' so' bi' ch' li' clear socket bound new l5 ok
            by (auto simp: later_def host_ok_def)
        next
          case False
          with o addr c clear so socket bi bound ch li un h6
          have "\<exists>e. r = Inl e" "h' = h7" "ep' = ep\<lparr>ep_listen := None, ep_owns := False\<rparr>"
            by (auto simp: open_socket_def split: sum.splits)
          moreover have "ho_listening h6 = ho_listening h" "ho_sockets h6 = s # ho_sockets h"
            "ho_node h6 = (ho_node h)(?p \<mapsto> Socket_node (ho_uid h2) s)"
            using False c' so' bi' ch' li' clear socket bound h6 by (auto split: sum.splits)
          moreover have "later h h6" using l4 l5 h6 by (simp split: sum.splits)
          then have "later h h7" using later_trans [of h "host_close s h6" h7] un' by simp
          ultimately show ?thesis using c' un' clear new host_ok_later [OF ok, of h7] by auto
        qed
      qed
    qed
  qed
qed

text \<open>
  Opening the listening socket touches no other path, never removes a node that is not a dead socket of
  this user, and leaks no socket: when it succeeds there is exactly one new socket, which listens
  behind the path and which the server owns; when it fails, at whatever call, the sockets and
  listeners are those of before.
\<close>

theorem open_socket_exact:
  assumes ok: "host_ok h" and honest: "honest_faults h" and o: "open_socket tx ep h = (r, ep', h')"
  shows "(\<forall>p. p \<noteq> ep_path ep \<longrightarrow> ho_node h' p = ho_node h p) \<and>
    (protected h (ep_path ep) \<longrightarrow> (\<exists>e. r = Inl e) \<and> ho_node h' = ho_node h) \<and>
    (case r of
       Inl e \<Rightarrow> set (ho_sockets h') = set (ho_sockets h) \<and> set (ho_listening h') = set (ho_listening h) \<and>
         ep' \<in> {ep, ep\<lparr>ep_listen := None\<rparr>, ep\<lparr>ep_listen := None, ep_owns := False\<rparr>}
     | Inr _ \<Rightarrow> \<exists>s. s \<notin> set (ho_sockets h) \<and> ep' = ep\<lparr>ep_listen := Some s, ep_owns := True\<rparr> \<and>
         ho_node h' = (ho_node h)(ep_path ep \<mapsto> Socket_node (ho_uid h) s) \<and>
         set (ho_sockets h') = insert s (set (ho_sockets h)) \<and>
         set (ho_listening h') = insert s (set (ho_listening h)))"
  using open_socket_spec [OF assms] by blast

definition trial_host :: host where
  "trial_host = \<lparr>ho_node = (\<lambda>_. None)(''/tmp/s'' \<mapsto> Socket_node 1000 3), ho_sockets = [5], ho_listening = [5],
     ho_next = 6, ho_uid = 1000, ho_faults = [None, None, None, None, None, Some (Errno ''denied'')]\<rparr>"

definition no_texts :: socket_texts where
  "no_texts = \<lparr>tx_address = [], tx_refuse = [], tx_probe = [], tx_in_use = [], tx_unlink = [], tx_inspect = [],
     tx_create = [], tx_bind = [], tx_configure = []\<rparr>"

lemma open_socket_exact_witness:
  "\<exists>e ep' h'. open_socket no_texts \<lparr>ep_path = ''/tmp/s'', ep_listen = None, ep_owns = False, ep_running = True\<rparr> trial_host =
      (Inl e, ep', h') \<and> set (ho_sockets h') = {5} \<and> set (ho_listening h') = {5} \<and> \<not> ep_owns ep'"
proof -
  let ?ep = "\<lparr>ep_path = ''/tmp/s'', ep_listen = None, ep_owns = False, ep_running = True\<rparr>"
  have ok: "host_ok trial_host" "honest_faults trial_host"
    by (auto simp: host_ok_def honest_faults_def trial_host_def split: if_splits)
  obtain e ep' h' where o: "open_socket no_texts ?ep trial_host = (Inl e, ep', h')"
    by (simp add: Let_def open_socket_def make_socket_address_def sun_path_size_def clear_path_def host_lstat_def host_call_def
      trial_host_def host_socket_def host_connect_def host_unlink_def host_bind_def host_chmod_def)
  from open_socket_exact [OF ok o] o show ?thesis by (auto simp: trial_host_def)
qed

end
