(* ===== verification/Invocation_Channel.thy ===== *)
theory Invocation_Channel
  imports Shared_Memory Invocation_Protocol Local_Socket
begin

text \<open>
  The transport of model and tool invocations (\<^verbatim>\<open>agent-runtime/src/invocation_channel.cpp\<close>): packets
  with descriptors over a local socket, the client's call with its wait for the response, the
  server's handling of one client, and the life of the listening socket. What the peer does is an
  argument: the packet it sends, the outcomes of \<open>poll\<close>, the time that passes. A socket is an open
  file without bytes of its own.
\<close>

section \<open>Packets\<close>

text \<open>
  A control header carries files, or is of another kind; a ragged one has a length that is no
  multiple of the size of a descriptor.
\<close>

datatype control_header = Rights "nat list" bool | Other_header

record message =
  ms_bytes :: "u8 list"
  ms_headers :: "control_header list"
  ms_cut :: bool

definition sys_socket :: "int sys" where
  "sys_socket = sys_memfd_create"

text \<open>The receiver gets a new descriptor for every file of a message.\<close>

fun install_files :: "nat list \<Rightarrow> kernel \<Rightarrow> int list \<times> kernel" where
  "install_files [] k = ([], k)"
| "install_files (f # fs) k =
     (let d = free_descriptor k
      in case install_files fs (k\<lparr>k_open := (d, f) # k_open k\<rparr>) of (ds, k) \<Rightarrow> (d # ds, k))"

fun install_headers :: "control_header list \<Rightarrow> kernel \<Rightarrow> (int list \<times> bool) option list \<times> kernel" where
  "install_headers [] k = ([], k)"
| "install_headers (Rights fs ragged # hs) k =
     (case install_files fs k of (ds, k) \<Rightarrow>
      case install_headers hs k of (xs, k) \<Rightarrow> (Some (ds, ragged) # xs, k))"
| "install_headers (Other_header # hs) k =
     (case install_headers hs k of (xs, k) \<Rightarrow> (None # xs, k))"

definition sys_recv :: "message option \<Rightarrow> (message \<times> (int list \<times> bool) option list) option sys" where
  "sys_recv msg = sys_call (\<lambda>k.
     case msg of
       None \<Rightarrow> (Inr None, k)
     | Some m \<Rightarrow> (case install_headers (ms_headers m) k of (xs, k) \<Rightarrow> (Inr (Some (m, xs)), k)))"

fun close_descriptors :: "int list \<Rightarrow> kernel \<Rightarrow> kernel" where
  "close_descriptors [] k = k"
| "close_descriptors (d # ds) k = close_descriptors ds (if d \<ge> 0 then sys_close d k else k)"

definition send_packet :: "u8 list \<Rightarrow> int list \<Rightarrow> message sys" where
  "send_packet packet ds k =
     (if packet = [] \<or> length ds > kMaxInvocationInputs
      then (Inl ''invalid invocation packet attachments'', k)
      else if \<exists>d \<in> set ds. d < 0 then (Inl ''invalid invocation descriptor'', k)
      else case sys_call (\<lambda>k.
          if \<exists>d \<in> set ds. file_of k d = None then (Inl ''Bad file descriptor'', k)
          else (Inr \<lparr>ms_bytes = packet,
                  ms_headers = (if ds = [] then [] else [Rights (map (the \<circ> file_of k) ds) False]),
                  ms_cut = False\<rparr>, k)) k of
        (Inl e, k) \<Rightarrow> (Inl (system_error ''send invocation packet'' e), k)
      | (Inr m, k) \<Rightarrow> (Inr m, k))"

text \<open>The loop over the control headers, with the descriptors found so far.\<close>

fun collect_rights ::
  "(int list \<times> bool) option list \<Rightarrow> int list \<Rightarrow> kernel \<Rightarrow> (string + int list) \<times> kernel" where
  "collect_rights [] ds k = (Inr ds, k)"
| "collect_rights (None # xs) ds k = collect_rights xs ds k"
| "collect_rights (Some (new, ragged) # xs) ds k =
     (if new = [] then collect_rights xs ds k
      else if ragged
      then (Inl ''malformed invocation descriptor list'', close_descriptors ds k)
      else if length ds + length new > kMaxInvocationInputs
      then (Inl ''too many invocation descriptors'', close_descriptors ds k)
      else collect_rights xs (ds @ new) k)"

text \<open>The vector of descriptors that is passed in is empty at both calls.\<close>

definition receive_packet :: "message option \<Rightarrow> (u8 list \<times> int list) sys" where
  "receive_packet msg k =
     (case sys_recv msg k of
        (Inl e, k) \<Rightarrow> (Inl (system_error ''receive invocation packet'' e), k)
      | (Inr None, k) \<Rightarrow> (Inl ''invocation peer closed the connection'', k)
      | (Inr (Some (m, xs)), k) \<Rightarrow>
          if ms_bytes m = [] then (Inl ''invocation peer closed the connection'', k)
          else (case collect_rights xs [] k of
              (Inl e, k) \<Rightarrow> (Inl e, k)
            | (Inr ds, k) \<Rightarrow>
                if length (ms_bytes m) > kMaxInvocationMessageSize
                then (Inl ''invocation packet exceeds size limit'', close_descriptors ds k)
                else if ms_cut m
                then (Inl ''invocation descriptors were truncated'', close_descriptors ds k)
                else (Inr (ms_bytes m, ds), k)))"

section \<open>Waiting for the response\<close>

datatype poll_result = Poll_failed string | Poll_interrupted | Poll_timeout | Poll_ready bool

text \<open>
  What one round of the loop meets: the cancel flag, the time in nanoseconds since the call, and
  the result of \<open>poll\<close>; \<open>Poll_ready\<close> tells whether the socket is readable.
\<close>

record poll_event =
  pe_cancelled :: bool
  pe_now :: int
  pe_result :: poll_result

text \<open>The whole milliseconds that remain of \<open>timeout\<close>.\<close>

definition remaining_ms :: "int \<Rightarrow> int \<Rightarrow> int" where
  "remaining_ms timeout now = (timeout * 1000000 - now) div 1000000"

text \<open>\<open>None\<close>: the events are used up and the loop still waits.\<close>

fun wait_for_response :: "int \<Rightarrow> poll_event list \<Rightarrow> (string + unit) option" where
  "wait_for_response timeout [] = None"
| "wait_for_response timeout (e # es) =
     (if pe_cancelled e then Some (Inl ''invocation cancelled'')
      else if timeout > 0 \<and> remaining_ms timeout (pe_now e) \<le> 0
      then Some (Inl ''invocation timed out'')
      else case pe_result e of
          Poll_interrupted \<Rightarrow> wait_for_response timeout es
        | Poll_failed err \<Rightarrow> Some (Inl (system_error ''poll invocation response'' err))
        | Poll_timeout \<Rightarrow> wait_for_response timeout es
        | Poll_ready readable \<Rightarrow>
            if readable then Some (Inr ()) else Some (Inl ''invocation backend disconnected''))"

section \<open>The client\<close>

definition default_socket_path :: "string option \<Rightarrow> u64 \<Rightarrow> string" where
  "default_socket_path runtime_directory uid =
     (case runtime_directory of
        Some d \<Rightarrow> if d \<noteq> [] then d @ ''/agentnucleus-top.sock''
                 else ''/tmp/agentnucleus-top-'' @ u64_to_string uid @ ''.sock''
      | None \<Rightarrow> ''/tmp/agentnucleus-top-'' @ u64_to_string uid @ ''.sock'')"

record invocation_attachment =
  at_producer_id :: agent_id
  at_reference :: shared_buffer_ref
  at_descriptor :: int

record call_result =
  cr_response :: invocation_response
  cr_output :: region

definition attachment_matches :: "invocation_attachment \<Rightarrow> invocation_input \<Rightarrow> bool" where
  "attachment_matches a x \<longleftrightarrow>
     at_producer_id a = nx_producer_id x \<and>
     br_region_id (at_reference a) = br_region_id (nx_reference x) \<and>
     br_region_size (at_reference a) = br_region_size (nx_reference x) \<and>
     br_offset (at_reference a) = br_offset (nx_reference x) \<and>
     br_length (at_reference a) = br_length (nx_reference x) \<and> 0 \<le> at_descriptor a"

text \<open>The end of \<open>invoke\<close>: the response packet and its descriptors have been received.\<close>

definition accept_response ::
  "invocation_request \<Rightarrow> u8 list \<Rightarrow> int list \<Rightarrow> call_result sys" where
  "accept_response q packet ds k =
     (case decode_invocation_response packet of
        Inl e \<Rightarrow> (Inl (if e = [] then ''invocation response does not match request'' else e),
                  close_descriptors ds k)
      | Inr p \<Rightarrow>
          if np_agent_id p \<noteq> nq_agent_id q
          then (Inl ''invocation response does not match request'', close_descriptors ds k)
          else if np_output_available p \<noteq> (length ds = 1)
          then (Inl ''invocation output descriptor mismatch'', close_descriptors ds k)
          else if np_output_available p
          then (case map_existing (hd ds) (br_region_size (np_output p)) (br_region_id (np_output p)) k of
                  (Inl e, k) \<Rightarrow> (Inl e, k)
                | (Inr r, k) \<Rightarrow> (Inr \<lparr>cr_response = p, cr_output = r\<rparr>, k))
          else (Inr \<lparr>cr_response = p, cr_output = empty_region\<rparr>, k))"

text \<open>
  From the open socket \<open>sd\<close> on. \<open>events\<close> and \<open>reply\<close> are what the client meets while it waits and
  then receives. The result is the packet that was sent, if one was, and the outcome; \<open>None\<close>: the
  client still waits.
\<close>

definition exchange ::
  "string \<Rightarrow> invocation_request \<Rightarrow> u8 list \<Rightarrow> int list \<Rightarrow> i64 \<Rightarrow> poll_event list \<Rightarrow> message option \<Rightarrow>
   int \<Rightarrow> kernel \<Rightarrow> (message option \<times> (string + call_result) \<times> kernel) option"
where
  "exchange path q packet descriptors timeout events reply sd k =
     (case make_socket_address ''invocation socket path is empty or too long'' path of
        Inl e \<Rightarrow> Some (None, Inl e, sys_close sd k)
      | Inr _ \<Rightarrow>
      (case sys_call (\<lambda>k. (Inr (), k)) k of
        (Inl e, k) \<Rightarrow> Some (None, Inl (system_error ''connect invocation backend'' e), sys_close sd k)
      | (Inr _, k) \<Rightarrow>
      (case send_packet packet descriptors k of
        (Inl e, k) \<Rightarrow> Some (None, Inl e, sys_close sd k)
      | (Inr m, k) \<Rightarrow>
      (case wait_for_response (sint timeout) events of
        None \<Rightarrow> None
      | Some (Inl e) \<Rightarrow> Some (Some m, Inl e, sys_close sd k)
      | Some (Inr _) \<Rightarrow>
      (case receive_packet reply k of
        (Inl e, k) \<Rightarrow> Some (Some m, Inl e, sys_close sd k)
      | (Inr (bytes, ds), k) \<Rightarrow>
          (case accept_response q bytes ds (sys_close sd k) of
             (r, k) \<Rightarrow> Some (Some m, r, k)))))))"

definition invoke ::
  "string \<Rightarrow> invocation_request \<Rightarrow> invocation_attachment list \<Rightarrow> i64 \<Rightarrow> poll_event list \<Rightarrow>
   message option \<Rightarrow> kernel \<Rightarrow> (message option \<times> (string + call_result) \<times> kernel) option"
where
  "invoke path q attachments timeout events reply k =
     (if length (nq_inputs q) \<noteq> length attachments
      then Some (None, Inl ''invocation attachment count does not match inputs'', k)
      else if \<not> list_all2 attachment_matches attachments (nq_inputs q)
      then Some (None, Inl ''invocation attachment metadata mismatch'', k)
      else case encode_invocation_request q of
        Inl e \<Rightarrow> Some (None, Inl e, k)
      | Inr packet \<Rightarrow>
      (case sys_socket k of
        (Inl e, k) \<Rightarrow> Some (None, Inl (system_error ''create invocation socket'' e), k)
      | (Inr sd, k) \<Rightarrow>
          exchange path q packet (map at_descriptor attachments) timeout events reply sd k))"

section \<open>The server: one client\<close>

record mapped_input =
  mi_producer_id :: agent_id
  mi_reference :: shared_buffer_ref
  mi_region :: region

record handler_result =
  hr_status :: invocation_status
  hr_message :: string
  hr_process_id :: i64
  hr_context_id :: context_id
  hr_metrics :: performance_metrics
  hr_output :: region
  hr_output_length :: u64
  hr_output_type :: u32
  hr_output_flags :: u32

definition default_handler_result :: handler_result where
  "default_handler_result =
     \<lparr>hr_status = St_ok, hr_message = [], hr_process_id = - 1, hr_context_id = kInvalidContextId,
      hr_metrics = default_metrics, hr_output = empty_region, hr_output_length = 0,
      hr_output_type = data_binary, hr_output_flags = shared_buffer_none\<rparr>"

text \<open>The handler of the service. \<open>Inl\<close>: it raised an exception, with a text or without one.\<close>

type_synonym invocation_handler =
  "invocation_request \<Rightarrow> mapped_input list \<Rightarrow> kernel \<Rightarrow> (string option + handler_result) \<times> kernel"

text \<open>The vector of inputs goes out of scope.\<close>

fun destroy_inputs :: "mapped_input list \<Rightarrow> kernel \<Rightarrow> kernel" where
  "destroy_inputs [] k = k"
| "destroy_inputs (x # xs) k = destroy_inputs xs (region_reset (mi_region x) k)"

text \<open>
  The mapping loop. \<open>None\<close>: a mapping failed, the remaining descriptors are closed and the inputs
  destroyed. The check against the largest \<^verbatim>\<open>size_t\<close> holds by the type.
\<close>

fun map_inputs ::
  "invocation_input list \<Rightarrow> int list \<Rightarrow> mapped_input list \<Rightarrow> kernel \<Rightarrow> mapped_input list option \<times> kernel"
where
  "map_inputs (x # xs) (d # ds) inputs k =
     (case map_existing_read_only d (br_region_size (nx_reference x)) (br_region_id (nx_reference x)) k of
        (Inl _, k) \<Rightarrow> (None, destroy_inputs inputs (close_descriptors ds k))
      | (Inr r, k) \<Rightarrow>
          map_inputs xs ds (inputs @ [\<lparr>mi_producer_id = nx_producer_id x,
            mi_reference = nx_reference x, mi_region = r\<rparr>]) k)"
| "map_inputs xs ds inputs k = (Some inputs, close_descriptors ds k)"

definition run_handler :: "invocation_handler \<Rightarrow> invocation_request \<Rightarrow> mapped_input list \<Rightarrow> kernel \<Rightarrow>
  handler_result \<times> kernel" where
  "run_handler handler q inputs k =
     (case handler q inputs k of
        (Inr r, k) \<Rightarrow> (r, k)
      | (Inl (Some what), k) \<Rightarrow>
          (default_handler_result\<lparr>hr_status := St_failed, hr_message := what\<rparr>, k)
      | (Inl None, k) \<Rightarrow>
          (default_handler_result\<lparr>hr_status := St_failed,
             hr_message := ''invocation handler raised an unknown exception''\<rparr>, k))"

definition build_response :: "u64 \<Rightarrow> invocation_request \<Rightarrow> handler_result \<Rightarrow> invocation_response" where
  "build_response pid q r =
     (let p = \<lparr>np_agent_id = nq_agent_id q,
            np_process_id = (if sint (hr_process_id r) \<ge> 0 then hr_process_id r else pid),
            np_status = hr_status r, np_message = hr_message r, np_context_id = hr_context_id r,
            np_metrics = hr_metrics r, np_output_available = False, np_output = default_ref\<rparr>
      in if region_valid (hr_output r) then
           if hr_output_length r > rg_size (hr_output r)
           then p\<lparr>np_status := St_failed,
                  np_message := ''invocation output exceeds its shared region''\<rparr>
           else p\<lparr>np_output_available := True,
                  np_output := \<lparr>br_region_id = rg_region_id (hr_output r),
                    br_region_size = rg_size (hr_output r), br_offset = 0,
                    br_length = hr_output_length r, br_data_type = hr_output_type r,
                    br_flags = hr_output_flags r AND NOT shared_buffer_immutable,
                    br_version = 1\<rparr>\<rparr>
         else if hr_output_length r \<noteq> 0
         then p\<lparr>np_status := St_failed,
                np_message := ''invocation handler returned length without output''\<rparr>
         else p)"

text \<open>From the handler's result to the packet that is sent; then everything is destroyed.\<close>

definition answer ::
  "invocation_request \<Rightarrow> mapped_input list \<Rightarrow> handler_result \<times> kernel \<Rightarrow> message option \<times> kernel" where
  "answer q inputs rk =
     (case rk of (r, k) \<Rightarrow>
      let p = build_response (k_pid k) q r
      in (case encode_invocation_response p of
            Inl _ \<Rightarrow> (None, destroy_inputs inputs (region_reset (hr_output r) k))
          | Inr bytes \<Rightarrow>
              if np_output_available p
              then (case region_release (hr_output r) k of (fd, _, k) \<Rightarrow>
                    case send_packet bytes [fd] k of (sent, k) \<Rightarrow>
                      (case sent of Inl _ \<Rightarrow> None | Inr m \<Rightarrow> Some m,
                       destroy_inputs inputs (if fd \<ge> 0 then sys_close fd k else k)))
              else (case send_packet bytes [] k of (sent, k) \<Rightarrow>
                      (case sent of Inl _ \<Rightarrow> None | Inr m \<Rightarrow> Some m,
                       destroy_inputs inputs (region_reset (hr_output r) k)))))"

text \<open>\<open>trusted\<close>: the credentials of the peer could be read and its user is this one.\<close>

definition handle_client ::
  "bool \<Rightarrow> invocation_handler \<Rightarrow> message option \<Rightarrow> kernel \<Rightarrow> message option \<times> kernel" where
  "handle_client trusted handler msg k =
     (if \<not> trusted then (None, k)
      else case receive_packet msg k of
        (Inl _, k) \<Rightarrow> (None, k)
      | (Inr (packet, ds), k) \<Rightarrow>
      (case decode_invocation_request packet of
        Inl _ \<Rightarrow> (None, close_descriptors ds k)
      | Inr q \<Rightarrow>
      if length ds \<noteq> length (nq_inputs q) then (None, close_descriptors ds k)
      else (case map_inputs (nq_inputs q) ds [] k of
        (None, k) \<Rightarrow> (None, k)
      | (Some inputs, k) \<Rightarrow> answer q inputs (run_handler handler q inputs k))))"

end
