(* ===== verification/Invocation_Delivery.thy ===== *)
theory Invocation_Delivery
  imports Invocation_Channel Shared_Memory_Inv
begin

text \<open>
  The transport of invocations is correct: a call leaks no descriptor on any path, whatever the
  peer sends and whichever system calls fail, and what the client sends is what the handler sees.
\<close>

section \<open>Descriptors that come with a message\<close>

text \<open>All descriptors of the list are open and new with respect to the table before.\<close>

definition received :: "kernel \<Rightarrow> int list \<Rightarrow> kernel \<Rightarrow> bool" where
  "received k ds k' \<longleftrightarrow> frame {} (set ds) k k' \<and> distinct ds \<and>
     (\<forall>d \<in> set ds. 0 \<le> d \<and> file_of k d = None \<and> file_of k' d \<noteq> None)"

lemma frame_refl [simp]: "kernel_ok k \<Longrightarrow> frame {} {} k k"
  by (simp add: frame_def)

lemma frame_without:
  assumes "frame F (insert d D) k k'" and "file_of k' d = file_of k d"
  shows "frame F D k k'"
  using assms unfolding frame_def by (metis insertE)

lemma close_descriptors_frame:
  "kernel_ok k \<Longrightarrow> frame {} (set ds) k (close_descriptors ds k) \<and>
   (\<forall>d. file_of (close_descriptors ds k) d = (if d \<in> set ds \<and> 0 \<le> d then None else file_of k d))"
proof (induction ds arbitrary: k)
  case (Cons d ds)
  let ?k = "if d \<ge> 0 then sys_close d k else k"
  have fr: "frame {} {d} k ?k"
    using close_frame [OF Cons.prems, of d] frame_mono [OF frame_refl [OF Cons.prems], of "{}" "{d}"] by auto
  note ih = Cons.IH [OF frameD(1) [OF fr]]
  have "frame {} (insert d (set ds)) k (close_descriptors ds ?k)"
    using frame_trans [OF fr conjunct1 [OF ih]] by simp
  with ih show ?case by (auto simp: file_of_close)
qed simp

text \<open>Closing everything that was received restores the table.\<close>

lemma close_received:
  assumes "kernel_ok k" and "received k ds k'"
  shows "frame {} {} k (close_descriptors ds k')"
proof -
  have fr: "frame {} (set ds) k k'" using assms(2) by (simp add: received_def)
  note cl = close_descriptors_frame [OF frameD(1) [OF fr], of ds]
  have "frame {} (set ds) k (close_descriptors ds k')"
    using frame_trans [OF fr conjunct1 [OF cl]] by simp
  then show ?thesis
    by (rule frame_fewer) (use assms(2) cl in \<open>simp add: received_def\<close>)
qed

lemma install_files_received:
  "kernel_ok k \<Longrightarrow> \<forall>f \<in> set fs. memfile_of k f \<noteq> None \<Longrightarrow> install_files fs k = (ds, k') \<Longrightarrow>
   received k ds k' \<and> map (file_of k') ds = map Some fs \<and> k_files k' = k_files k"
proof (induction fs arbitrary: k ds)
  case Nil
  then show ?case by (simp add: received_def)
next
  case (Cons f fs)
  let ?d = "free_descriptor k"
  let ?k = "k\<lparr>k_open := (?d, f) # k_open k\<rparr>"
  obtain es where es: "install_files fs ?k = (es, k')" "ds = ?d # es"
    using Cons.prems(3) by (auto simp: Let_def split: prod.splits)
  have o: "open_file f (k\<lparr>k_faults := k_faults k\<rparr>) = (Inr ?d, ?k)" by (simp add: open_file_def)
  have "memfile_of k f \<noteq> None" using Cons.prems(2) by simp
  from open_frame [OF Cons.prems(1) this o] have new: "file_of k ?d = None" and fr: "frame {} {?d} k ?k"
    and there: "file_of ?k ?d = Some f" by auto
  from Cons.IH [OF frameD(1) [OF fr] _ es(1)] Cons.prems(2)
  have ih: "received ?k es k'" "map (file_of k') es = map Some fs" "k_files k' = k_files k" by auto
  have notin: "?d \<notin> set es" using ih(1) there by (auto simp: received_def)
  then have d': "file_of k' ?d = Some f"
    using ih(1) there frameD(3) [of "{}" "set es" ?k k' ?d] by (simp add: received_def)
  have old: "file_of k d = None" if "d \<in> set es" for d
    using that ih(1) by (auto simp: received_def split: if_splits)
  have "frame {} (set ds) k k'"
    using frame_trans [OF fr, of "{}" "set es" k'] ih(1) es(2) by (simp add: received_def)
  moreover have "0 \<le> ?d" using free_descriptor_spec [of k] by simp
  ultimately show ?case
    using ih new d' notin old es(2) by (auto simp: received_def)
qed

lemma received_append:
  assumes "received k ds k1" and "received k1 es k'"
  shows "received k (ds @ es) k'"
proof -
  have fr: "frame {} (set ds) k k1" "frame {} (set es) k1 k'" using assms by (simp_all add: received_def)
  have apart: "d \<notin> set es" if "d \<in> set ds" for d using assms that by (auto simp: received_def)
  have "file_of k d = None" if "d \<in> set es" for d
    using that assms apart frameD(3) [OF fr(1), of d] by (auto simp: received_def)
  moreover have "file_of k' d \<noteq> None" if "d \<in> set ds" for d
    using that assms(1) apart frameD(3) [OF fr(2), of d] by (auto simp: received_def)
  ultimately show ?thesis
    using assms apart frame_trans [OF fr] by (auto simp: received_def)
qed

text \<open>
  The messages of the theorems: they are not empty, every file they carry exists, and their control
  headers are those of whole descriptors, at most as many as the receiver's buffer holds.
\<close>

fun header_files :: "control_header \<Rightarrow> nat list" where
  "header_files (Rights fs ragged) = fs"
| "header_files Other_header = []"

definition message_files :: "message \<Rightarrow> nat list" where
  "message_files m = concat (map header_files (ms_headers m))"

definition message_ok :: "kernel \<Rightarrow> message \<Rightarrow> bool" where
  "message_ok k m \<longleftrightarrow> ms_bytes m \<noteq> [] \<and> length (message_files m) \<le> kMaxInvocationInputs \<and>
     (\<forall>f \<in> set (message_files m). memfile_of k f \<noteq> None) \<and>
     (\<forall>fs. Rights fs True \<notin> set (ms_headers m))"

lemma install_headers_received:
  "kernel_ok k \<Longrightarrow> \<forall>f \<in> set (concat (map header_files hs)). memfile_of k f \<noteq> None \<Longrightarrow>
   install_headers hs k = (xs, k') \<Longrightarrow> \<forall>fs. Rights fs True \<notin> set hs \<Longrightarrow>
   \<exists>ds. received k ds k' \<and> map (file_of k') ds = map Some (concat (map header_files hs)) \<and>
     k_files k' = k_files k \<and>
     (\<forall>es k. length es + length ds \<le> kMaxInvocationInputs \<longrightarrow> collect_rights xs es k = (Inr (es @ ds), k))"
proof (induction hs arbitrary: k xs)
  case Nil
  then show ?case by (auto intro!: exI [of _ "[]"] simp: received_def)
next
  case (Cons h hs)
  show ?case
  proof (cases h)
    case (Rights fs ragged)
    then have whole: "\<not> ragged" using Cons.prems(4) by (cases ragged) auto
    obtain ds k1 ys where ins: "install_files fs k = (ds, k1)" "install_headers hs k1 = (ys, k')"
      "xs = Some (ds, ragged) # ys" using Cons.prems(3) Rights by (auto split: prod.splits)
    from install_files_received [OF Cons.prems(1) _ ins(1)] Cons.prems(2) Rights
    have first: "received k ds k1" "map (file_of k1) ds = map Some fs" "k_files k1 = k_files k" by auto
    then have "kernel_ok k1" unfolding received_def by (blast dest: frameD(1))
    from Cons.IH [OF this _ ins(2)] Cons.prems(2,4) first(3) obtain es where
      rest: "received k1 es k'" "map (file_of k') es = map Some (concat (map header_files hs))"
        "k_files k' = k_files k1"
      and collect: "\<And>gs k. length gs + length es \<le> kMaxInvocationInputs \<Longrightarrow>
        collect_rights ys gs k = (Inr (gs @ es), k)" by auto
    have both: "received k (ds @ es) k'" by (rule received_append [OF first(1) rest(1)])
    have "file_of k' d = file_of k1 d" if "d \<in> set ds" for d
      using that both rest(1) first(1) by (auto simp: received_def frame_def)
    then have "map (file_of k') (ds @ es) = map Some (concat (map header_files (h # hs)))"
      using first(2) rest(2) Rights by (simp cong: map_cong)
    moreover have "collect_rights xs gs k = (Inr (gs @ ds @ es), k)"
      if "length gs + length (ds @ es) \<le> kMaxInvocationInputs" for gs k
      using that collect [of "gs @ ds" k] collect [of gs k] whole by (auto simp: ins(3))
    ultimately show ?thesis using both rest(3) first(3) by (intro exI [of _ "ds @ es"]) simp
  next
    case Other_header
    obtain ys where ins: "install_headers hs k = (ys, k')" "xs = None # ys"
      using Cons.prems(3) Other_header by (auto split: prod.splits)
    from Cons.IH [OF Cons.prems(1) _ ins(1)] Cons.prems(2,4) Other_header show ?thesis
      by (auto simp: ins(2))
  qed
qed

text \<open>Receiving a packet either leaves the table as it was or hands over new descriptors.\<close>

lemma receive_packet_spec:
  assumes ok: "kernel_ok k" and msg: "\<forall>m. msg = Some m \<longrightarrow> message_ok k m"
    and rcv: "receive_packet msg k = (res, k')"
  shows "(\<exists>e. res = Inl e \<and> frame {} {} k k') \<or>
    (\<exists>m ds. msg = Some m \<and> res = Inr (ms_bytes m, ds) \<and> received k ds k' \<and>
      map (file_of k') ds = map Some (message_files m))"
proof -
  obtain r k1 where c: "sys_recv msg k = (r, k1)" by fastforce
  from c show ?thesis unfolding sys_recv_def
  proof (cases rule: sys_call_cases)
    case (fault e fs)
    with rcv c frame_faults [OF ok] show ?thesis by (auto simp: receive_packet_def)
  next
    case (run fs)
    let ?k = "k\<lparr>k_faults := fs\<rparr>"
    show ?thesis
    proof (cases msg)
      case None
      with run rcv c frame_faults [OF ok] show ?thesis by (auto simp: receive_packet_def)
    next
      case (Some m)
      obtain xs k2 where ins: "install_headers (ms_headers m) ?k = (xs, k2)" by fastforce
      with run Some have r: "r = Inr (Some (m, xs))" "k1 = k2" by auto
      have ok': "kernel_ok ?k" by (simp add: sys_simps ok)
      from install_headers_received [OF ok' _ ins] msg Some obtain ds where
        ds: "received ?k ds k2" "map (file_of k2) ds = map Some (message_files m)"
        and all: "\<And>es k. length es + length ds \<le> kMaxInvocationInputs \<Longrightarrow>
          collect_rights xs es k = (Inr (es @ ds), k)"
        by (auto simp: message_ok_def message_files_def)
      have "length ds = length (message_files m)" using arg_cong [OF ds(2), of length] by simp
      then have collect: "collect_rights xs [] k2 = (Inr ds, k2)"
        using all [of "[]" k2] msg Some by (simp add: message_ok_def)
      have rcvd: "received k ds k2"
        using ds(1) by (simp add: received_def frame_def)
      have closed: "frame {} {} k (close_descriptors ds k2)" by (rule close_received [OF ok rcvd])
      show ?thesis
        using rcv c r collect msg Some Some rcvd ds(2) closed
        by (auto simp: receive_packet_def message_ok_def split: if_splits)
    qed
  qed
qed

section \<open>The client\<close>

lemma message_ok_frame: "frame {} D k k' \<Longrightarrow> message_ok k m \<Longrightarrow> message_ok k' m"
  by (fastforce simp: message_ok_def frame_def)

lemma closed_again:
  assumes "frame {} {d} k k1" and "file_of k d = None" and "frame {} {} k1 k2"
  shows "frame {} {} k (sys_close d k2)"
proof -
  have "frame {} {d} k (sys_close d k2)"
    using frame_trans [OF assms(1) frame_trans [OF assms(3) close_frame [OF frameD(1) [OF assms(3)], of d]]]
    by simp
  then show ?thesis by (rule frame_fewer) (simp add: file_of_close assms(2))
qed

lemma received_after_close:
  assumes "kernel_ok k" and "frame {} {d} k k1" and "file_of k d = None" and "file_of k1 d \<noteq> None"
    and "received k1 ds k2"
  shows "received k ds (sys_close d k2)" and "e \<in> set ds \<Longrightarrow> file_of (sys_close d k2) e = file_of k2 e"
proof -
  have fr: "frame {} (set ds) k1 k2" using assms(5) by (simp add: received_def)
  have d: "d \<notin> set ds" using assms(4,5) by (auto simp: received_def)
  have "frame {} (insert d (set ds)) k (sys_close d k2)"
    using frame_trans [OF assms(2) frame_trans [OF fr close_frame [OF frameD(1) [OF fr], of d]]] by simp
  then have "frame {} (set ds) k (sys_close d k2)"
    by (rule frame_without) (simp add: file_of_close assms(3))
  then show "received k ds (sys_close d k2)"
    using assms(2,5) d frameD(3) [OF assms(2)] by (auto simp: received_def file_of_close)
  show "e \<in> set ds \<Longrightarrow> file_of (sys_close d k2) e = file_of k2 e" using d by (auto simp: file_of_close)
qed

lemma fstat_frame:
  assumes "kernel_ok k" and "sys_fstat fd k = (r, k')"
  shows "frame {} {} k k'"
    and "r = Inr n \<Longrightarrow> file_of k fd = Some f \<Longrightarrow> memfile_of k f = Some mf \<Longrightarrow> n = length (mf_data mf)"
  using assms(2) unfolding sys_fstat_def
  by (cases rule: sys_call_cases;
    use assms(1) in \<open>auto simp: with_file_def intro: frame_faults split: option.splits\<close>)+

lemma map_descriptor_spec:
  assumes ok: "kernel_ok k" and d: "0 \<le> d" "sz \<noteq> 0" and f: "file_of k d = Some f"
    and c: "map_descriptor writable what d sz rid k = (res, k')"
  shows "(\<exists>e. res = Inl e \<and> frame {} {d} k k' \<and> file_of k' d = None) \<or>
    (\<exists>r mf. res = Inr r \<and> frame {} {} k k' \<and> rg_descriptor r = d \<and> rg_address r = Some (f, writable) \<and>
      rg_size r = sz \<and> rg_region_id r = rid \<and> rg_read_only r = (\<not> writable) \<and>
      memfile_of k f = Some mf \<and> unat sz \<le> length (mf_data mf))"
proof -
  obtain mf where mf: "memfile_of k f = Some mf" using kernel_okD(2) [OF ok f] by blast
  obtain r1 k1 where s: "sys_fstat d k = (r1, k1)" by fastforce
  note fr1 = fstat_frame(1) [OF ok s]
  have closed: "frame {} {d} k (sys_close d k2) \<and> file_of (sys_close d k2) d = None"
    if "frame {} {} k k2" for k2
    using frame_trans [OF that close_frame [OF frameD(1) [OF that], of d]] by (simp add: file_of_close)
  show ?thesis
  proof (cases r1)
    case (Inl e)
    with c s d closed [OF fr1] show ?thesis by (auto simp: map_descriptor_def)
  next
    case (Inr n)
    have n: "n = length (mf_data mf)" by (rule fstat_frame(2) [OF ok s Inr f mf])
    obtain r2 k2 where m: "sys_mmap d writable k1 = (r2, k2)" by fastforce
    note mp = mmap_frame [OF frameD(1) [OF fr1] m]
    have fr2: "frame {} {} k k2" using frame_trans [OF fr1 mp(1)] by simp
    have "m2 = (f, writable)" if "r2 = Inr m2" for m2
      using mp(2) [OF that] frameD(3) [OF fr1, of d] f by (auto simp: prod_eq_iff)
    with c s d Inr m n closed [OF fr1] closed [OF fr2] fr2 mf show ?thesis
      by (cases r2) (auto simp: map_descriptor_def split: if_splits)
  qed
qed

lemma send_packet_frame:
  assumes "kernel_ok k" and "send_packet packet ds k = (r, k')"
  shows "frame {} {} k k'"
    and "r = Inr m \<Longrightarrow> m = \<lparr>ms_bytes = packet,
      ms_headers = (if ds = [] then [] else [Rights (map (the \<circ> file_of k) ds) False]), ms_cut = False\<rparr> \<and>
      (\<forall>d \<in> set ds. file_of k d \<noteq> None) \<and> packet \<noteq> [] \<and> length ds \<le> kMaxInvocationInputs"
proof -
  let ?call = "sys_call (\<lambda>k. if \<exists>d \<in> set ds. file_of k d = None then (Inl ''Bad file descriptor'', k)
    else (Inr \<lparr>ms_bytes = packet,
      ms_headers = (if ds = [] then [] else [Rights (map (the \<circ> file_of k) ds) False]), ms_cut = False\<rparr>, k))"
  obtain x k1 where c: "?call k = (x, k1)" by fastforce
  have "frame {} {} k k1 \<and> (\<forall>m. x = Inr m \<longrightarrow> m = \<lparr>ms_bytes = packet,
      ms_headers = (if ds = [] then [] else [Rights (map (the \<circ> file_of k) ds) False]), ms_cut = False\<rparr> \<and>
      (\<forall>d \<in> set ds. file_of k d \<noteq> None))"
    using c by (cases rule: sys_call_cases)
      (use assms(1) in \<open>auto intro: frame_faults split: if_splits\<close>)
  with assms c frame_refl [OF assms(1)] show "frame {} {} k k'"
    and "r = Inr m \<Longrightarrow> m = \<lparr>ms_bytes = packet,
      ms_headers = (if ds = [] then [] else [Rights (map (the \<circ> file_of k) ds) False]), ms_cut = False\<rparr> \<and>
      (\<forall>d \<in> set ds. file_of k d \<noteq> None) \<and> packet \<noteq> [] \<and> length ds \<le> kMaxInvocationInputs"
    by (auto simp: send_packet_def split: if_splits sum.splits)
qed

lemma decoded_output_size:
  assumes "decode_invocation_response bytes = Inr p" and "np_output_available p"
  shows "br_region_size (np_output p) \<noteq> 0"
  using assms decode_invocation_response_InrD [OF assms(1)]
  by (auto simp: invocation_response_ok_def valid_reference_def)

text \<open>
  What a call leaves behind, for a reply with given bytes and files: a failed call leaves the
  descriptor table as it was. A successful one keeps the descriptors of the reply: the one of the
  output, which its region owns, or, without an output, whatever the peer sent along.
\<close>

definition call_account ::
  "invocation_request \<Rightarrow> u8 list \<Rightarrow> nat list \<Rightarrow> kernel \<Rightarrow> string + call_result \<Rightarrow> kernel \<Rightarrow> bool" where
  "call_account q bytes files k res k' \<longleftrightarrow>
     (case res of
        Inl e \<Rightarrow> frame {} {} k k'
      | Inr r \<Rightarrow>
          decode_invocation_response bytes = Inr (cr_response r) \<and>
          np_agent_id (cr_response r) = nq_agent_id q \<and>
          (\<exists>ds. received k ds k' \<and> map (file_of k') ds = map Some files \<and>
             (if np_output_available (cr_response r)
              then ds = [rg_descriptor (cr_output r)] \<and>
                rg_size (cr_output r) = br_region_size (np_output (cr_response r)) \<and>
                (\<exists>bs. contents k' (rg_descriptor (cr_output r)) = Some bs \<and>
                   unat (rg_size (cr_output r)) \<le> length bs)
              else cr_output r = empty_region \<and> length ds \<noteq> 1)))"

lemma received_frame_after:
  assumes "received k ds k1" and "frame {} {} k1 k2"
  shows "received k ds k2"
  using assms frame_trans [of "{}" "set ds" k k1 "{}" "{}" k2] by (auto simp: received_def frame_def)

lemma accept_account:
  assumes ok: "kernel_ok k" and rcvd: "received k ds k1"
    and files: "map (file_of k1) ds = map Some files" and acc: "accept_response q bytes ds k1 = (res, k')"
  shows "call_account q bytes files k res k'"
proof -
  note closed = close_received [OF ok rcvd]
  have fr1: "frame {} (set ds) k k1" using rcvd by (simp add: received_def)
  consider (bad) e where "res = Inl e" "k' = close_descriptors ds k1"
    | (plain) p where "decode_invocation_response bytes = Inr p" "np_agent_id p = nq_agent_id q"
        "\<not> np_output_available p" "length ds \<noteq> 1"
        "res = Inr \<lparr>cr_response = p, cr_output = empty_region\<rparr>" "k' = k1"
    | (mapped) p d where "decode_invocation_response bytes = Inr p" "np_agent_id p = nq_agent_id q"
        "np_output_available p" "ds = [d]"
    using acc by (cases "decode_invocation_response bytes"; cases ds)
      (auto simp: accept_response_def split: if_splits)
  then show ?thesis
  proof cases
    case bad
    with closed show ?thesis by (simp add: call_account_def)
  next
    case plain
    with rcvd files show ?thesis by (auto simp: call_account_def)
  next
    case mapped
    then obtain f where d: "0 \<le> d" "file_of k d = None" "file_of k1 d = Some f"
      using rcvd by (auto simp: received_def)
    obtain x k2 where m: "map_existing d (br_region_size (np_output p)) (br_region_id (np_output p)) k1 = (x, k2)"
      by fastforce
    from map_descriptor_spec [OF frameD(1) [OF fr1] d(1) decoded_output_size [OF mapped(1,3)] d(3)
        m [unfolded map_existing_def]]
    show ?thesis
    proof (elim disjE exE conjE)
      fix e assume x: "x = Inl e" "frame {} {d} k1 k2" "file_of k2 d = None"
      have "frame {} {} k k2"
        by (rule frame_fewer [of "{}" "{d}"]) (use frame_trans [OF fr1 x(2)] mapped(4) x(3) d(2) in simp_all)
      with x acc mapped m show ?thesis by (auto simp: accept_response_def call_account_def)
    next
      fix r mf assume r: "x = Inr r" "frame {} {} k1 k2" "rg_descriptor r = d"
        "rg_size r = br_region_size (np_output p)" "memfile_of k1 f = Some mf"
        "unat (br_region_size (np_output p)) \<le> length (mf_data mf)"
      have d2: "file_of k2 d = Some f" using frameD(3) [OF r(2), of d] d(3) by simp
      then have "\<exists>bs. contents k2 d = Some bs \<and> unat (rg_size r) \<le> length bs"
        using frameD(4) [OF r(2) _ r(5)] r(4,6) by (auto simp: contents_def)
      moreover have "received k [d] k2" using received_frame_after [OF rcvd r(2)] mapped(4) by simp
      moreover have "files = [f]" using files d(3) mapped(4) by auto
      ultimately show ?thesis using acc mapped m r d2 by (auto simp: accept_response_def call_account_def)
    qed
  qed
qed

lemma exchange_account:
  assumes ok: "kernel_ok k" and reply: "\<forall>m. reply = Some m \<longrightarrow> message_ok k m"
    and sd: "frame {} {sd} k k1" "file_of k sd = None" "file_of k1 sd \<noteq> None"
    and ex: "exchange path q packet fds timeout events reply sd k1 = Some (sent, res, k')"
  shows "frame {} {} k k' \<and> (\<exists>e. res = Inl e) \<or>
    (\<exists>m. reply = Some m \<and> call_account q (ms_bytes m) (message_files m) k res k')"
proof -
  have closed: "frame {} {} k (sys_close sd k2)" if "frame {} {} k1 k2" for k2
    by (rule closed_again [OF sd(1,2) that])
  obtain r2 k2 where cn: "sys_call (\<lambda>k. (Inr (), k)) k1 = (r2 :: string + unit, k2)" by fastforce
  have fr2: "frame {} {} k1 k2"
    using cn by (cases rule: sys_call_cases) (use frame_faults [OF frameD(1) [OF sd(1)]] in auto)
  obtain r3 k3 where sp: "send_packet packet fds k2 = (r3, k3)" by fastforce
  have fr3: "frame {} {} k1 k3"
    using frame_trans [OF fr2 send_packet_frame(1) [OF frameD(1) [OF fr2] sp]] by simp
  obtain r4 k4 where rp: "receive_packet reply k3 = (r4, k4)" by fastforce
  have reply3: "\<forall>m. reply = Some m \<longrightarrow> message_ok k3 m"
    using reply message_ok_frame [OF sd(1)] message_ok_frame [OF fr3] by blast
  have early: "frame {} {} k k' \<and> (\<exists>e. res = Inl e)"
    if "k' \<in> {sys_close sd k1, sys_close sd k2, sys_close sd k3}" "\<exists>e. res = Inl e"
    using that closed [OF frame_refl [OF frameD(1) [OF sd(1)]]] closed [OF fr2] closed [OF fr3] by blast
  show ?thesis
  proof (cases "\<exists>p u m v. make_socket_address ''invocation socket path is empty or too long'' path = Inr p \<and> r2 = Inr u \<and> r3 = Inr m \<and>
      wait_for_response (sint timeout) events = Some (Inr v)")
    case False
    have "k' \<in> {sys_close sd k1, sys_close sd k2, sys_close sd k3} \<and> (\<exists>e. res = Inl e)"
      using ex cn sp False by (auto simp: exchange_def split: sum.splits option.splits)
    with early show ?thesis by blast
  next
    case True
    then have out: "case r4 of Inl e \<Rightarrow> res = Inl e \<and> k' = sys_close sd k4
      | Inr (bytes, ds) \<Rightarrow> accept_response q bytes ds (sys_close sd k4) = (res, k')"
      using ex cn sp rp by (auto simp: exchange_def split: sum.splits prod.splits)
    from receive_packet_spec [OF frameD(1) [OF fr3] reply3 rp] show ?thesis
    proof (elim disjE exE conjE)
      fix e assume "r4 = Inl e" "frame {} {} k3 k4"
      with out closed [OF frame_trans [OF fr3, of "{}" "{}" k4, simplified]] show ?thesis by simp
    next
      fix m ds assume m: "reply = Some m" "r4 = Inr (ms_bytes m, ds)" and rcvd: "received k3 ds k4"
        and files: "map (file_of k4) ds = map Some (message_files m)"
      have fr13: "frame {} {sd} k k3" using frame_trans [OF sd(1) fr3] by simp
      have "file_of k3 sd \<noteq> None" using frameD(3) [OF fr3, of sd] sd by simp
      note after = received_after_close [OF ok fr13 sd(2) this rcvd]
      have "map (file_of (sys_close sd k4)) ds = map Some (message_files m)"
        using files after(2) by (simp cong: map_cong)
      from accept_account [OF ok after(1) this] out m show ?thesis by auto
    qed
  qed
qed

section \<open>The server\<close>

lemma all_closed:
  assumes "received k ds k1" and "frame {} (set ds) k1 k2" and "\<forall>d \<in> set ds. file_of k2 d = None"
  shows "frame {} {} k k2"
  by (rule frame_fewer [of "{}" "set ds"])
    (use assms frame_trans [of "{}" "set ds" k k1 "{}" "set ds" k2] in \<open>auto simp: received_def\<close>)

abbreviation input_descriptors :: "mapped_input list \<Rightarrow> int list" where
  "input_descriptors \<equiv> map (\<lambda>x. rg_descriptor (mi_region x))"

lemma destroy_inputs_frame:
  "kernel_ok k \<Longrightarrow> frame {} (set (input_descriptors inputs)) k (destroy_inputs inputs k) \<and>
   (\<forall>d. (file_of k d = None \<or> d \<in> set (input_descriptors inputs)) \<longrightarrow>
     file_of (destroy_inputs inputs k) d = None)"
proof (induction inputs arbitrary: k)
  case (Cons x xs)
  note rs = reset_frame [OF Cons.prems, of "mi_region x"]
  note ih = Cons.IH [OF frameD(1) [OF rs(1)]]
  have "frame {} (insert (rg_descriptor (mi_region x)) (set (input_descriptors xs))) k
      (destroy_inputs xs (region_reset (mi_region x) k))"
    using frame_trans [OF rs(1) conjunct1 [OF ih]] by simp
  moreover have "file_of (region_reset (mi_region x) k) d = None"
    if "file_of k d = None \<or> d = rg_descriptor (mi_region x)" for d
    using that rs frameD(3) [OF rs(1), of d] by (cases "d = rg_descriptor (mi_region x)") auto
  ultimately show ?case using ih by auto
qed simp

text \<open>The \<open>i\<close>-th mapped input shows the file of the \<open>i\<close>-th descriptor.\<close>

definition input_maps :: "kernel \<Rightarrow> invocation_input \<Rightarrow> int \<Rightarrow> mapped_input \<Rightarrow> bool" where
  "input_maps k x d y \<longleftrightarrow> mi_producer_id y = nx_producer_id x \<and> mi_reference y = nx_reference x \<and>
     rg_descriptor (mi_region y) = d \<and> rg_size (mi_region y) = br_region_size (nx_reference x) \<and>
     (\<exists>f mf. file_of k d = Some f \<and> memfile_of k f = Some mf \<and> rg_address (mi_region y) = Some (f, False) \<and>
        unat (rg_size (mi_region y)) \<le> length (mf_data mf))"

lemma input_maps_frame:
  "input_maps k x d y \<Longrightarrow> frame {} D k k' \<Longrightarrow> d \<notin> D \<Longrightarrow> input_maps k' x d y"
  unfolding input_maps_def frame_def by fastforce

lemma map_inputs_spec:
  assumes "received k0 (input_descriptors acc @ ds) k" and "length xs = length ds"
    and "\<forall>x \<in> set xs. br_region_size (nx_reference x) \<noteq> 0"
    and "map_inputs xs ds acc k = (res, k')"
  shows "(res = None \<and> frame {} {} k0 k') \<or>
    (\<exists>new. res = Some (acc @ new) \<and> frame {} {} k k' \<and> length new = length xs \<and>
       (\<forall>i < length xs. input_maps k' (xs ! i) (ds ! i) (new ! i)))"
  using assms
proof (induction xs ds acc k rule: map_inputs.induct)
  case (1 x xs d ds acc k)
  let ?done = "input_descriptors acc"
  have rcvd: "received k0 (?done @ d # ds) k" using 1(2) by simp
  then have ok: "kernel_ok k" and d: "0 \<le> d" and notin: "d \<notin> set ?done" "d \<notin> set ds"
    unfolding received_def by (auto dest: frameD(1))
  obtain f where f: "file_of k d = Some f" using rcvd by (auto simp: received_def)
  obtain r1 k1 where m: "map_existing_read_only d (br_region_size (nx_reference x))
    (br_region_id (nx_reference x)) k = (r1, k1)" by fastforce
  have sz: "br_region_size (nx_reference x) \<noteq> 0" using 1(4) by simp
  from map_descriptor_spec [OF ok d sz f m [unfolded map_existing_read_only_def]] show ?case
  proof (elim disjE exE conjE)
    fix e assume r1: "r1 = Inl e" "frame {} {d} k k1" "file_of k1 d = None"
    note cl = close_descriptors_frame [OF frameD(1) [OF r1(2)], of ds]
    note de = destroy_inputs_frame [OF frameD(1) [OF conjunct1 [OF cl]], of acc]
    let ?k = "destroy_inputs acc (close_descriptors ds k1)"
    have "frame {} (set (?done @ d # ds)) k ?k"
      using frame_trans [OF r1(2) frame_trans [OF conjunct1 [OF cl] conjunct1 [OF de]]]
      by (auto elim!: frame_mono)
    moreover have "0 \<le> e" if "e \<in> set ds" for e using rcvd that by (auto simp: received_def)
    then have "\<forall>e \<in> set (?done @ d # ds). file_of ?k e = None"
      using de cl r1(3) by auto
    ultimately have "frame {} {} k0 ?k" by (rule all_closed [OF rcvd])
    with 1(5) m r1(1) show ?thesis by simp
  next
    fix r mf assume r: "r1 = Inr r" "frame {} {} k k1" "rg_descriptor r = d" "rg_address r = Some (f, False)"
      "rg_size r = br_region_size (nx_reference x)" "memfile_of k f = Some mf"
      "unat (br_region_size (nx_reference x)) \<le> length (mf_data mf)"
    let ?y = "\<lparr>mi_producer_id = nx_producer_id x, mi_reference = nx_reference x, mi_region = r\<rparr>"
    have f1: "file_of k1 d = Some f" using frameD(3) [OF r(2), of d] f by simp
    have maps: "input_maps k1 x d ?y"
      using frameD(4) [OF r(2) _ r(6)] r f1 by (auto simp: input_maps_def)
    have "received k0 (input_descriptors (acc @ [?y]) @ ds) k1"
      using received_frame_after [OF rcvd r(2)] r(3) by simp
    from 1(1) [OF m [symmetric] r(1) this] 1(3,4,5) m r(1)
    consider "res = None" "frame {} {} k0 k'" | new where "res = Some (acc @ ?y # new)" "frame {} {} k1 k'"
      "length new = length xs" "\<forall>i < length xs. input_maps k' (xs ! i) (ds ! i) (new ! i)"
      by auto
    then show ?thesis
    proof cases
      case 2
      have "\<forall>i < length (x # xs). input_maps k' ((x # xs) ! i) ((d # ds) ! i) ((?y # new) ! i)"
        using 2(4) input_maps_frame [OF maps 2(2)] by (auto simp: nth_Cons split: nat.split)
      moreover have "frame {} {} k k'" using frame_trans [OF r(2) 2(2)] by simp
      ultimately show ?thesis using 2 by (intro disjI2 exI [of _ "?y # new"]) simp
    qed simp
  qed
qed (auto simp: received_def dest: frameD(1))

text \<open>
  What the server relies on: the handler leaves the table as it is, but for the descriptor of the
  output region that it returns.
\<close>

definition handler_ok :: "invocation_handler \<Rightarrow> bool" where
  "handler_ok handler \<longleftrightarrow> (\<forall>q inputs k r k'. kernel_ok k \<longrightarrow> handler q inputs k = (r, k') \<longrightarrow>
     (case r of
        Inl _ \<Rightarrow> frame {} {} k k'
      | Inr h \<Rightarrow> (let d = rg_descriptor (hr_output h)
                 in if d < 0 then frame {} {} k k' else received k [d] k')))"

lemma run_handler_account:
  assumes "handler_ok handler" and "kernel_ok k" and "run_handler handler q inputs k = (h, k')"
  shows "let d = rg_descriptor (hr_output h) in if d < 0 then frame {} {} k k' else received k [d] k'"
proof -
  obtain r k1 where r: "handler q inputs k = (r, k1)" by fastforce
  with assms(1,2) have "case r of Inl _ \<Rightarrow> frame {} {} k k1
    | Inr h \<Rightarrow> (let d = rg_descriptor (hr_output h) in if d < 0 then frame {} {} k k1 else received k [d] k1)"
    by (auto simp: handler_ok_def)
  with assms(3) r show ?thesis
    by (auto simp: run_handler_def default_handler_result_def empty_region_def Let_def
      split: sum.splits option.splits)
qed

lemma negative_closed: "kernel_ok k \<Longrightarrow> d < 0 \<Longrightarrow> file_of k d = None"
  using kernel_okD(1) [of k d] by (cases "file_of k d") auto

text \<open>Whatever becomes of the answer, the output is closed and the inputs are destroyed.\<close>

lemma answer_end:
  assumes ok: "kernel_ok k" and a: "answer q inputs (h, k) = (sent, k')"
  shows "\<exists>k3. k' = destroy_inputs inputs k3 \<and> frame {} {rg_descriptor (hr_output h)} k k3 \<and>
    file_of k3 (rg_descriptor (hr_output h)) = None"
proof -
  let ?d = "rg_descriptor (hr_output h)" and ?r = "hr_output h"
  let ?p = "build_response (k_pid k) q h"
  have reset: "frame {} {?d} k (region_reset ?r k2) \<and> file_of (region_reset ?r k2) ?d = None"
    if "frame {} {} k k2" for k2
    using reset_frame [OF frameD(1) [OF that], of ?r] frame_trans [OF that] by fastforce
  show ?thesis
  proof (cases "encode_invocation_response ?p")
    case (Inl e)
    with a reset [OF frame_refl [OF ok]] show ?thesis by (auto simp: answer_def Let_def)
  next
    case (Inr bytes)
    show ?thesis
    proof (cases "np_output_available ?p")
      case True
      note fr1 = unmap_frame [OF ok, of ?r]
      obtain x k2 where s: "send_packet bytes [?d] (unmap_region ?r k) = (x, k2)" by fastforce
      have fr2: "frame {} {} k k2"
        using frame_trans [OF fr1 send_packet_frame(1) [OF frameD(1) [OF fr1] s]] by simp
      let ?k3 = "if ?d \<ge> 0 then sys_close ?d k2 else k2"
      have "frame {} {?d} k ?k3"
        using frame_trans [OF fr2 close_frame [OF frameD(1) [OF fr2], of ?d]] frame_mono [OF fr2, of "{}" "{?d}"]
        by simp
      moreover have "file_of ?k3 ?d = None"
        using negative_closed [OF frameD(1) [OF fr2], of ?d] by (simp add: file_of_close)
      moreover have "k' = destroy_inputs inputs ?k3"
        using a Inr True s by (auto simp: answer_def Let_def region_release_def)
      ultimately show ?thesis by blast
    next
      case False
      obtain x k2 where s: "send_packet bytes [] k = (x, k2)" by fastforce
      with a Inr False reset [OF send_packet_frame(1) [OF ok s]] show ?thesis
        by (auto simp: answer_def Let_def)
    qed
  qed
qed

section \<open>From the client to the handler\<close>

lemma sent_message:
  assumes ok: "kernel_ok k" and "open": "\<forall>a \<in> set attachments. file_of k (at_descriptor a) \<noteq> None"
    and inv: "invoke path q attachments timeout events reply k = Some (Some m, res, k')"
  shows "encode_invocation_request q = Inr (ms_bytes m)"
    and "list_all2 attachment_matches attachments (nq_inputs q)"
    and "map Some (message_files m) = map (\<lambda>a. file_of k (at_descriptor a)) attachments"
    and "message_ok k m" and "\<not> ms_cut m"
proof -
  obtain r1 k1 where s: "sys_socket k = (r1, k1)" by fastforce
  obtain packet sd where args: "list_all2 attachment_matches attachments (nq_inputs q)"
    and packet: "encode_invocation_request q = Inr packet" and r1: "r1 = Inr sd"
    and ex: "exchange path q packet (map at_descriptor attachments) timeout events reply sd k1 = Some (Some m, res, k')"
    using inv s by (auto simp: invoke_def split: if_splits sum.splits)
  from memfd_frame [OF ok s [unfolded sys_socket_def]] r1 have new: "file_of k sd = None"
    and fr1: "frame {} {sd} k k1" by auto
  obtain r2 k2 where cn: "sys_call (\<lambda>k. (Inr (), k)) k1 = (r2 :: string + unit, k2)" by fastforce
  have fr2: "frame {} {} k1 k2"
    using cn by (cases rule: sys_call_cases) (use frame_faults [OF frameD(1) [OF fr1]] in auto)
  obtain r3 k3 where sp: "send_packet packet (map at_descriptor attachments) k2 = (r3, k3)" by fastforce
  have r3: "r3 = Inr m"
    using ex cn sp by (auto simp: exchange_def split: sum.splits option.splits prod.splits)
  note m = send_packet_frame(2) [OF frameD(1) [OF fr2] sp r3]
  have same: "file_of k2 (at_descriptor a) = file_of k (at_descriptor a)" if "a \<in> set attachments" for a
  proof -
    have "at_descriptor a \<noteq> sd" using "open" that new by metis
    then show ?thesis using frameD(3) [OF fr2] frameD(3) [OF fr1, of "at_descriptor a"] by simp
  qed
  show "encode_invocation_request q = Inr (ms_bytes m)" using packet m by simp
  show "list_all2 attachment_matches attachments (nq_inputs q)" by (rule args)
  have files: "message_files m = map (the \<circ> file_of k) (map at_descriptor attachments)"
    using m same by (auto simp: message_files_def)
  then show "map Some (message_files m) = map (\<lambda>a. file_of k (at_descriptor a)) attachments"
    using "open" by auto
  have "memfile_of k f \<noteq> None" if f: "f \<in> set (message_files m)" for f
  proof -
    from f obtain a where "a \<in> set attachments" "file_of k (at_descriptor a) = Some f"
      using "open" by (auto simp: files)
    with kernel_okD(2) [OF ok] show ?thesis by auto
  qed
  moreover have "length (message_files m) \<le> kMaxInvocationInputs"
    using m by (auto simp: message_files_def)
  ultimately show "message_ok k m" using m by (auto simp: message_ok_def split: if_splits)
  show "\<not> ms_cut m" using m by simp
qed

lemma map_read_only_no_fault:
  assumes "k_faults k = []" and "0 \<le> d" and "sz \<noteq> 0" and "file_of k d = Some f"
    and "memfile_of k f = Some mf" and "unat sz \<le> length (mf_data mf)"
  shows "map_existing_read_only d sz rid k = (Inr \<lparr>rg_address = Some (f, False), rg_size = sz,
    rg_descriptor = d, rg_region_id = rid, rg_read_only = True\<rparr>, k)"
  using assms
  by (simp add: map_existing_read_only_def map_descriptor_def sys_fstat_def sys_mmap_def
    sys_call_no_fault with_file_def)

lemma map_inputs_no_fault:
  "k_faults k = [] \<Longrightarrow> length xs = length ds \<Longrightarrow>
   \<forall>i < length xs. 0 \<le> ds ! i \<and> br_region_size (nx_reference (xs ! i)) \<noteq> 0 \<and>
     (\<exists>f mf. file_of k (ds ! i) = Some f \<and> memfile_of k f = Some mf \<and>
        unat (br_region_size (nx_reference (xs ! i))) \<le> length (mf_data mf)) \<Longrightarrow>
   \<exists>inputs. map_inputs xs ds acc k = (Some inputs, k)"
proof (induction xs ds acc k rule: map_inputs.induct)
  case (1 x xs d ds acc k)
  from 1(4) obtain f mf where "0 \<le> d" "br_region_size (nx_reference x) \<noteq> 0" "file_of k d = Some f"
    "memfile_of k f = Some mf" "unat (br_region_size (nx_reference x)) \<le> length (mf_data mf)"
    by (auto dest!: spec [of _ 0])
  note m = map_read_only_no_fault [OF 1(2) this]
  have "\<forall>i < length xs. 0 \<le> ds ! i \<and> br_region_size (nx_reference (xs ! i)) \<noteq> 0 \<and>
     (\<exists>f mf. file_of k (ds ! i) = Some f \<and> memfile_of k f = Some mf \<and>
        unat (br_region_size (nx_reference (xs ! i))) \<le> length (mf_data mf))"
    using spec [OF 1(4), of "Suc i" for i] by simp
  with 1(1) [OF m [symmetric] refl 1(2)] 1(3) m show ?case by simp
qed auto

lemma receive_packet_no_fault:
  assumes "kernel_ok k" and "k_faults k = []" and "message_ok k m" and "\<not> ms_cut m"
    and "length (ms_bytes m) \<le> kMaxInvocationMessageSize"
  shows "\<exists>ds k'. receive_packet (Some m) k = (Inr (ms_bytes m, ds), k') \<and> received k ds k' \<and>
    map (file_of k') ds = map Some (message_files m) \<and> k_files k' = k_files k \<and> k_faults k' = []"
proof -
  obtain xs k1 where ins: "install_headers (ms_headers m) k = (xs, k1)" by fastforce
  from install_headers_received [OF assms(1) _ ins] assms(3) obtain ds where
    ds: "received k ds k1" "map (file_of k1) ds = map Some (message_files m)" "k_files k1 = k_files k"
    and all: "\<And>es k. length es + length ds \<le> kMaxInvocationInputs \<Longrightarrow> collect_rights xs es k = (Inr (es @ ds), k)"
    by (auto simp: message_ok_def message_files_def)
  have "length ds = length (message_files m)" using arg_cong [OF ds(2), of length] by simp
  then have "collect_rights xs [] k1 = (Inr ds, k1)"
    using all [of "[]" k1] assms(3) by (simp add: message_ok_def)
  moreover have files: "k_faults (snd (install_files fs k)) = k_faults k" for fs k
    by (induction fs arbitrary: k) (simp_all add: Let_def split: prod.splits, metis kernel.select_convs(4) kernel.surjective kernel.update_convs(1) snd_conv)
  have "k_faults (snd (install_headers hs k)) = k_faults k" for hs k
    by (induction hs k rule: install_headers.induct)
      (auto split: prod.splits, metis files snd_conv)
  then have "k_faults k1 = []" using ins assms(2) by (metis snd_conv)
  ultimately show ?thesis
    using ds ins assms by (auto simp: receive_packet_def sys_recv_def sys_call_no_fault message_ok_def)
qed

end
