(* ===== verification/Invocation_Calls.thy ===== *)
theory Invocation_Calls
  imports Invocation_Delivery
begin

text \<open>
  What an invocation promises, over the lemmas of \<^verbatim>\<open>Invocation_Delivery\<close>: neither side loses a
  descriptor, the handler sees the attachments of the client, the wait ends in time.
\<close>

section \<open>A sample call\<close>

text \<open>The client has one input, file 0; file 1 is the output of the service.\<close>

definition trial_kernel :: kernel where
  "trial_kernel = \<lparr>k_open = [(0, 0)], k_files = [(0, \<lparr>mf_data = [1, 2, 3], mf_sealed = True, mf_writers = 0\<rparr>),
     (1, \<lparr>mf_data = [8, 9], mf_sealed = False, mf_writers = 0\<rparr>)],
    k_next_file = 2, k_faults = [], k_pid = 9, k_next_region = 2\<rparr>"

definition trial_reference :: shared_buffer_ref where
  "trial_reference = \<lparr>br_region_id = 5, br_region_size = 3, br_offset = 0, br_length = 3, br_data_type = 1,
    br_flags = 2, br_version = 1\<rparr>"

definition trial_request :: invocation_request where
  "trial_request = default_invocation_request\<lparr>nq_agent_id := 7, nq_target := ''m'', nq_operation := ''run'',
     nq_inputs := [\<lparr>nx_producer_id = 4, nx_reference = trial_reference\<rparr>]\<rparr>"

definition trial_attachments :: "invocation_attachment list" where
  "trial_attachments = [\<lparr>at_producer_id = 4, at_reference = trial_reference, at_descriptor = 0\<rparr>]"

definition trial_response :: invocation_response where
  "trial_response = default_invocation_response\<lparr>np_agent_id := 7, np_status := St_ok,
     np_output_available := True,
     np_output := trial_reference\<lparr>br_region_size := 2, br_length := 2\<rparr>\<rparr>"

definition trial_reply :: message where
  "trial_reply = \<lparr>ms_bytes = invocation_bytes kResponseMessage (invocation_response_body trial_response),
     ms_headers = [Rights [1] False], ms_cut = False\<rparr>"

lemmas trial_defs = trial_kernel_def trial_reference_def trial_request_def trial_attachments_def
  trial_response_def default_invocation_request_def default_invocation_response_def
  default_resources_def default_metrics_def

lemma trial_kernel_ok: "kernel_ok trial_kernel"
  by (simp add: trial_kernel_def kernel_ok_def)

lemma trial_encode: "encode_invocation_request trial_request =
    Inr (invocation_bytes kRequestMessage (invocation_request_body trial_request))"
  by (rule encode_invocation_request_ok)
    (simp_all add: invocation_request_ok_def invocation_request_body_def trial_defs kMaxStringSize_def
      kMaxInvocationInputs_def kMaxInvocationMessageSize_def kHeaderSize_def valid_input_def
      valid_reference_def kInvalidAgentId_def int64_max_def kInvalidContextId_def input_bytes_def ref_bytes_def data_json_utf8_def)

lemma trial_decode: "decode_invocation_response (ms_bytes trial_reply) = Inr trial_response"
proof -
  have "invocation_response_ok trial_response"
    by (simp add: invocation_response_ok_def trial_defs kMaxStringSize_def valid_reference_def
      kInvalidAgentId_def data_json_utf8_def)
  moreover have "kHeaderSize + length (invocation_response_body trial_response) \<le> kMaxInvocationMessageSize"
    by (simp add: invocation_response_body_def trial_defs kMaxInvocationMessageSize_def kHeaderSize_def
      metrics_bytes_def ref_bytes_def)
  moreover have "np_output_available trial_response" by (simp add: trial_response_def)
  ultimately show ?thesis
    using decode_invocation_response_body [of trial_response] by (simp add: trial_reply_def)
qed

lemma trial_invoke: "\<exists>m r k'. invoke ''/tmp/s'' trial_request trial_attachments 0
    [\<lparr>pe_cancelled = False, pe_now = 0, pe_result = Poll_ready True\<rparr>] (Some trial_reply) trial_kernel =
    Some (Some m, Inr r, k')"
proof -
  have decode: "decode_invocation_response
    (invocation_bytes kResponseMessage (invocation_response_body trial_response)) = Inr trial_response"
    using trial_decode by (simp add: trial_reply_def)
  have inputs: "length (nq_inputs trial_request) = length trial_attachments"
    "list_all2 attachment_matches trial_attachments (nq_inputs trial_request)"
    by (simp_all add: trial_defs attachment_matches_def)
  have sizes: "length (invocation_bytes kResponseMessage (invocation_response_body trial_response)) \<le>
      kMaxInvocationMessageSize"
    by (simp_all add: invocation_bytes_def invocation_response_body_def trial_defs kMaxInvocationMessageSize_def
      kHeaderSize_def metrics_bytes_def ref_bytes_def)
  then have big: "\<not> kMaxInvocationMessageSize <
    length (invocation_bytes kResponseMessage (invocation_response_body trial_response))" by simp
  have fields: "np_output_available trial_response" "np_agent_id trial_response = nq_agent_id trial_request"
    "br_region_size (np_output trial_response) = 2"
    by (simp_all add: trial_defs)
  have some: "invocation_bytes ty b \<noteq> []" for ty b
    by (rule notI, drule arg_cong [of _ _ length]) (simp add: invocation_bytes_def kHeaderSize_def)
  show ?thesis
    unfolding invoke_def exchange_def
    by (simp add: inputs [unfolded trial_attachments_def] trial_encode big fields some decode trial_kernel_def sys_socket_def sys_memfd_create_def sys_call_no_fault
      open_file_def free_descriptor_def make_socket_address_def sun_path_size_def send_packet_def
      kMaxInvocationInputs_def trial_attachments_def receive_packet_def sys_recv_def trial_reply_def
      accept_response_def sys_close_def map_existing_def map_descriptor_def sys_fstat_def sys_mmap_def
      with_file_def update_file_def)
qed

section \<open>No descriptor is lost\<close>

text \<open>
  A call leaves the caller's descriptor table as it was when it fails, at whatever point; when it
  succeeds, the table has the descriptors of the reply in addition: exactly the one of the output,
  owned by the region that is returned and large enough for it, or, when the reply has no output,
  every descriptor that the peer sent along.
\<close>

lemma invoke_account:
  assumes ok: "kernel_ok k" and reply: "\<forall>m. reply = Some m \<longrightarrow> message_ok k m"
    and inv: "invoke path q attachments timeout events reply k = Some (sent, res, k')"
  shows "frame {} {} k k' \<and> (\<exists>e. res = Inl e) \<or>
    (\<exists>m. reply = Some m \<and> call_account q (ms_bytes m) (message_files m) k res k')"
proof -
  obtain r1 k1 where s: "sys_socket k = (r1, k1)" by fastforce
  consider (refused) "k' = k" "\<exists>e. res = Inl e" | (socket) e where "r1 = Inl e" "k' = k1" "\<exists>e. res = Inl e"
    | (connected) packet sd where "r1 = Inr sd"
        "exchange path q packet (map at_descriptor attachments) timeout events reply sd k1 = Some (sent, res, k')"
    using inv s by (auto simp: invoke_def split: if_splits sum.splits)
  then show ?thesis
  proof cases
    case refused
    with frame_refl [OF ok] show ?thesis by simp
  next
    case socket
    with memfd_frame [OF ok s [unfolded sys_socket_def]] show ?thesis by auto
  next
    case connected
    with memfd_frame [OF ok s [unfolded sys_socket_def]] obtain f where "file_of k sd = None"
      "frame {} {sd} k k1" "file_of k1 sd = Some f" by auto
    with exchange_account [OF ok reply, of sd k1] connected(2) show ?thesis by auto
  qed
qed

lemma trial_reply_ok: "message_ok trial_kernel trial_reply"
  by (auto simp: message_ok_def message_files_def trial_reply_def trial_kernel_def kMaxInvocationInputs_def
      invocation_bytes_def invocation_header_bytes_def le_bytes_def)

lemma invoke_account_witness:
  "\<exists>r k'. call_account trial_request (ms_bytes trial_reply) [1] trial_kernel (Inr r) k'"
proof -
  from trial_invoke obtain m r k' where "invoke ''/tmp/s'' trial_request trial_attachments 0
    [\<lparr>pe_cancelled = False, pe_now = 0, pe_result = Poll_ready True\<rparr>] (Some trial_reply) trial_kernel =
    Some (Some m, Inr r, k')" by blast
  from invoke_account [OF trial_kernel_ok _ this] trial_reply_ok
  show ?thesis by (auto simp: message_files_def trial_reply_def)
qed

text \<open>
  The server leaves its descriptor table as it was on every path through one client: an
  untrusted peer, an unreadable packet, a request that does not decode, a count of descriptors that
  does not match, a mapping that fails, an answer that cannot be sent.
\<close>

lemma handle_client_account:
  assumes ok: "kernel_ok k" and msg: "\<forall>m. msg = Some m \<longrightarrow> message_ok k m" and handler: "handler_ok handler"
    and h: "handle_client trusted handler msg k = (sent, k')"
  shows "frame {} {} k k'"
proof (cases trusted)
  case False
  with h frame_refl [OF ok] show ?thesis by (simp add: handle_client_def)
next
  case True
  obtain r1 k1 where rp: "receive_packet msg k = (r1, k1)" by fastforce
  from receive_packet_spec [OF ok msg rp] show ?thesis
  proof (elim disjE exE conjE)
    fix e assume "r1 = Inl e" "frame {} {} k k1"
    with h True rp show ?thesis by (simp add: handle_client_def)
  next
    fix m ds assume r1: "r1 = Inr (ms_bytes m, ds)" and rcvd: "received k ds k1"
    show ?thesis
    proof (cases "\<exists>q. decode_invocation_request (ms_bytes m) = Inr q \<and> length ds = length (nq_inputs q)")
      case False
      then have "k' = close_descriptors ds k1"
        using h True rp r1 by (auto simp: handle_client_def split: sum.splits)
      with close_received [OF ok rcvd] show ?thesis by simp
    next
      case True
      then obtain q where q: "decode_invocation_request (ms_bytes m) = Inr q" "length ds = length (nq_inputs q)"
        by blast
      have sizes: "\<forall>x \<in> set (nq_inputs q). br_region_size (nx_reference x) \<noteq> 0"
        using decode_invocation_request_InrD [OF q(1)]
        by (auto simp: invocation_request_ok_def list_all_iff valid_input_def valid_reference_def)
      obtain r2 k2 where mi: "map_inputs (nq_inputs q) ds [] k1 = (r2, k2)" by fastforce
      have rcvd0: "received k (input_descriptors [] @ ds) k1" using rcvd by simp
      from map_inputs_spec [OF rcvd0 q(2) [symmetric] sizes mi] show ?thesis
      proof (elim disjE exE conjE)
        assume "r2 = None" "frame {} {} k k2"
        with h \<open>trusted\<close> rp r1 q mi show ?thesis by (simp add: handle_client_def)
      next
        fix inputs assume r2: "r2 = Some ([] @ inputs)" and fr2: "frame {} {} k1 k2"
          and len: "length inputs = length (nq_inputs q)"
          and maps: "\<forall>i < length (nq_inputs q). input_maps k2 (nq_inputs q ! i) (ds ! i) (inputs ! i)"
        obtain hr k3 where rh: "run_handler handler q inputs k2 = (hr, k3)" by fastforce
        have out: "answer q inputs (hr, k3) = (sent, k')"
          using h \<open>trusted\<close> rp r1 q mi r2 rh by (simp add: handle_client_def)
        have ids: "input_descriptors inputs = ds"
          using len q(2) maps by (intro nth_equalityI) (simp_all add: input_maps_def)
        have rcvd2: "received k ds k2" by (rule received_frame_after [OF rcvd fr2])
        let ?d = "rg_descriptor (hr_output hr)"
        have acc: "if ?d < 0 then frame {} {} k2 k3 else received k2 [?d] k3"
          using run_handler_account [OF handler frameD(1) [OF fr2] rh] by (simp add: Let_def)
        then have ok3: "kernel_ok k3"
          by (auto simp: received_def dest: frameD(1) split: if_splits)
        from answer_end [OF ok3 out] obtain k4 where k4: "k' = destroy_inputs inputs k4"
          "frame {} {?d} k3 k4" "file_of k4 ?d = None" by blast
        note de = destroy_inputs_frame [OF frameD(1) [OF k4(2)], of inputs, unfolded ids, folded k4(1)]
        have fr: "frame {} (insert ?d (set ds)) k3 k'"
          using frame_trans [OF k4(2) conjunct1 [OF de]] by simp
        show ?thesis
        proof (cases "?d < 0")
          case True
          with acc have rcvd3: "received k ds k3" using received_frame_after [OF rcvd2] by simp
          have "frame {} (set ds) k3 k'"
            by (rule frame_without [OF fr])
              (simp add: negative_closed [OF ok3 True] negative_closed [OF frameD(1) [OF fr] True])
          then show ?thesis by (rule all_closed [OF rcvd3]) (use de in blast)
        next
          case False
          with acc have "received k (ds @ [?d]) k3" using received_append [OF rcvd2] by simp
          then show ?thesis by (rule all_closed) (use fr de k4(3) in auto)
        qed
      qed
    qed
  qed
qed

definition echo_handler :: invocation_handler where
  "echo_handler q inputs k =
     (Inr (default_handler_result\<lparr>hr_message := nq_payload q\<rparr>), k)"

lemma echo_handler_ok: "handler_ok echo_handler"
  by (auto simp: handler_ok_def echo_handler_def default_handler_result_def empty_region_def Let_def)

lemma handle_client_account_witness:
  "frame {} {} trial_kernel (snd (handle_client True echo_handler (Some trial_reply) trial_kernel))"
  by (rule handle_client_account [OF trial_kernel_ok _ echo_handler_ok prod.collapse [symmetric]])
    (simp add: trial_reply_ok)

section \<open>The handler sees the attachments\<close>

definition shows_attachment :: "kernel \<Rightarrow> invocation_attachment \<Rightarrow> mapped_input \<Rightarrow> bool" where
  "shows_attachment k a x \<longleftrightarrow>
     mi_producer_id x = at_producer_id a \<and> rg_size (mi_region x) = br_region_size (at_reference a) \<and>
     br_offset (mi_reference x) = br_offset (at_reference a) \<and>
     br_length (mi_reference x) = br_length (at_reference a) \<and>
     (\<exists>f. file_of k (at_descriptor a) = Some f \<and> rg_address (mi_region x) = Some (f, False))"

definition attachment_backed :: "kernel \<Rightarrow> invocation_attachment \<Rightarrow> bool" where
  "attachment_backed k a \<longleftrightarrow> (\<exists>f mf. file_of k (at_descriptor a) = Some f \<and> memfile_of k f = Some mf \<and>
     unat (br_region_size (at_reference a)) \<le> length (mf_data mf))"

text \<open>
  C29. Delivery: the message of a call whose attachments are open files of their stated sizes, received
  by a server without faults, reaches the handler as the very request of the client, with one
  read-only region per attachment, in order, that maps the file of the client's descriptor.
\<close>

theorem request_delivered:
  assumes ok: "kernel_ok k" and backed: "\<forall>a \<in> set attachments. attachment_backed k a"
    and inv: "invoke path q attachments timeout events reply k = Some (Some m, res, k')"
    and server: "kernel_ok s" "k_faults s = []" "\<forall>f. memfile_of s f = memfile_of k f"
  shows "\<exists>inputs s'. handle_client True handler (Some m) s = answer q inputs (run_handler handler q inputs s') \<and>
    list_all2 (shows_attachment k) attachments inputs \<and> k_files s' = k_files s"
proof -
  have "open": "\<forall>a \<in> set attachments. file_of k (at_descriptor a) \<noteq> None"
    using backed by (auto simp: attachment_backed_def)
  note m = sent_message [OF ok "open" inv]
  from encode_invocation_request_InrD [OF m(1)] have req: "invocation_request_ok q"
    and decode: "decode_invocation_request (ms_bytes m) = Inr q"
    and size: "length (ms_bytes m) \<le> kMaxInvocationMessageSize"
    using decode_invocation_request_body [of q] by (auto simp: invocation_bytes_def)
  have len: "length attachments = length (nq_inputs q)" by (rule list_all2_lengthD [OF m(2)])
  have "message_ok s m" using m(4) server(3) by (simp add: message_ok_def)
  from receive_packet_no_fault [OF server(1,2) this m(5) size] obtain ds s1 where
    rp: "receive_packet (Some m) s = (Inr (ms_bytes m, ds), s1)" and rcvd: "received s ds s1"
    and files: "map (file_of s1) ds = map Some (message_files m)" and s1: "k_files s1 = k_files s" "k_faults s1 = []"
    by blast
  have same: "map (file_of s1) ds = map (\<lambda>a. file_of k (at_descriptor a)) attachments"
    using files m(3) by simp
  then have lends: "length ds = length (nq_inputs q)" using len by (metis length_map)
  have fileof: "file_of s1 (ds ! i) = file_of k (at_descriptor (attachments ! i))" if "i < length ds" for i
    using arg_cong [OF same, of "\<lambda>xs. xs ! i"] that len lends by simp
  have match: "attachment_matches (attachments ! i) (nq_inputs q ! i)" if "i < length ds" for i
    using list_all2_nthD2 [OF m(2), of i] that lends by simp
  have nonzero: "\<forall>x \<in> set (nq_inputs q). br_region_size (nx_reference x) \<noteq> 0"
    using req by (auto simp: invocation_request_ok_def list_all_iff valid_input_def valid_reference_def)
  have each: "0 \<le> ds ! i \<and> br_region_size (nx_reference (nq_inputs q ! i)) \<noteq> 0 \<and>
      (\<exists>f mf. file_of s1 (ds ! i) = Some f \<and> memfile_of s1 f = Some mf \<and>
         unat (br_region_size (nx_reference (nq_inputs q ! i))) \<le> length (mf_data mf))"
    if i: "i < length (nq_inputs q)" for i
  proof -
    have "attachment_backed k (attachments ! i)" using backed i len by simp
    moreover have "0 \<le> ds ! i" using rcvd i lends by (auto simp: received_def)
    moreover have "br_region_size (nx_reference (nq_inputs q ! i)) \<noteq> 0" using nonzero i by simp
    ultimately show ?thesis
      using fileof [of i] match [of i] i lends s1(1) server(3)
      by (auto simp: attachment_backed_def attachment_matches_def)
  qed
  then obtain inputs where mi: "map_inputs (nq_inputs q) ds [] s1 = (Some inputs, s1)"
    using map_inputs_no_fault [OF s1(2) lends [symmetric], of "[]"] by blast
  have "received s (input_descriptors [] @ ds) s1" using rcvd by simp
  from map_inputs_spec [OF this lends [symmetric] nonzero mi] have li: "length inputs = length ds"
    and maps: "\<And>i. i < length ds \<Longrightarrow> input_maps s1 (nq_inputs q ! i) (ds ! i) (inputs ! i)"
    using lends by auto
  have "list_all2 (shows_attachment k) attachments inputs"
  proof (rule list_all2_all_nthI)
    show "length attachments = length inputs" using li len lends by simp
    fix i assume "i < length attachments"
    then have i: "i < length ds" using len lends by simp
    show "shows_attachment k (attachments ! i) (inputs ! i)"
      using maps [OF i] match [OF i] fileof [OF i]
      by (auto simp: shows_attachment_def input_maps_def attachment_matches_def)
  qed
  moreover have "handle_client True handler (Some m) s = answer q inputs (run_handler handler q inputs s1)"
    using rp decode lends mi by (simp add: handle_client_def)
  ultimately show ?thesis using s1(1) by blast
qed

lemma request_delivered_witness:
  "\<exists>m inputs s'. handle_client True echo_handler (Some m) trial_kernel =
      answer trial_request inputs (run_handler echo_handler trial_request inputs s') \<and>
    length inputs = 1"
proof -
  from trial_invoke obtain m r k' where inv: "invoke ''/tmp/s'' trial_request trial_attachments 0
    [\<lparr>pe_cancelled = False, pe_now = 0, pe_result = Poll_ready True\<rparr>] (Some trial_reply) trial_kernel =
    Some (Some m, Inr r, k')" by blast
  have backed: "\<forall>a \<in> set trial_attachments. attachment_backed trial_kernel a"
    by (simp add: trial_attachments_def trial_kernel_def trial_reference_def attachment_backed_def)
  have "k_faults trial_kernel = []" by (simp add: trial_kernel_def)
  from request_delivered [OF trial_kernel_ok backed inv trial_kernel_ok this, of echo_handler]
  show ?thesis by (fastforce simp: trial_attachments_def dest: list_all2_lengthD)
qed

section \<open>The wait\<close>

text \<open>What one round of the loop decides by itself; \<open>None\<close>: it goes around.\<close>

definition round_verdict :: "int \<Rightarrow> poll_event \<Rightarrow> (string + unit) option" where
  "round_verdict timeout e =
     (if pe_cancelled e then Some (Inl ''invocation cancelled'')
      else if timeout > 0 \<and> timeout * 1000000 - pe_now e < 1000000 then Some (Inl ''invocation timed out'')
      else case pe_result e of
          Poll_interrupted \<Rightarrow> None
        | Poll_timeout \<Rightarrow> None
        | Poll_failed err \<Rightarrow> Some (Inl (system_error ''poll invocation response'' err))
        | Poll_ready True \<Rightarrow> Some (Inr ())
        | Poll_ready False \<Rightarrow> Some (Inl ''invocation backend disconnected''))"

text \<open>
  The wait answers with the first round that decides: cancelled, or less than a whole millisecond
  of the timeout left (so up to a millisecond before the deadline), or a failed, readable or
  disconnected poll; interruptions and empty polls go around. It succeeds in a readable round only,
  and with a positive timeout it returns once a round starts after the deadline.
\<close>

theorem wait_first_verdict:
  "wait_for_response timeout es =
      (case List.find (\<lambda>e. round_verdict timeout e \<noteq> None) es of
         None \<Rightarrow> None | Some e \<Rightarrow> round_verdict timeout e) \<and>
    (wait_for_response timeout es = Some (Inr ()) \<longrightarrow>
      (\<exists>e \<in> set es. pe_result e = Poll_ready True \<and> \<not> pe_cancelled e \<and>
        (timeout > 0 \<longrightarrow> pe_now e \<le> timeout * 1000000 - 1000000))) \<and>
    (timeout > 0 \<and> (\<exists>e \<in> set es. timeout * 1000000 \<le> pe_now e) \<longrightarrow>
      wait_for_response timeout es \<noteq> None)"
proof -
  have ms: "remaining_ms t now \<le> 0 \<longleftrightarrow> t * 1000000 - now < 1000000" for t now
    unfolding remaining_ms_def by linarith
  have "wait_for_response timeout es =
      (case List.find (\<lambda>e. round_verdict timeout e \<noteq> None) es of
         None \<Rightarrow> None | Some e \<Rightarrow> round_verdict timeout e)"
    by (induction es) (auto simp: round_verdict_def ms split: poll_result.splits bool.splits)
  moreover have "wait_for_response timeout es = Some (Inr ()) \<longrightarrow>
      (\<exists>e \<in> set es. pe_result e = Poll_ready True \<and> \<not> pe_cancelled e \<and>
        (timeout > 0 \<longrightarrow> pe_now e \<le> timeout * 1000000 - 1000000))"
    by (induction es) (auto simp: ms split: poll_result.splits if_splits)
  moreover have "timeout > 0 \<and> (\<exists>e \<in> set es. timeout * 1000000 \<le> pe_now e) \<longrightarrow>
      wait_for_response timeout es \<noteq> None"
    by (induction es) (auto simp: ms split: poll_result.splits if_splits)
  ultimately show ?thesis by blast
qed

lemma wait_first_verdict_witness:
  "wait_for_response 2
     [\<lparr>pe_cancelled = False, pe_now = 400000, pe_result = Poll_interrupted\<rparr>,
      \<lparr>pe_cancelled = False, pe_now = 1200000, pe_result = Poll_ready True\<rparr>] =
   Some (Inl ''invocation timed out'')"
  unfolding wait_first_verdict [THEN conjunct1]
  by (simp add: round_verdict_def)

end
