(* ===== verification/Invocation_Server.thy ===== *)
theory Invocation_Server
  imports Invocation_Channel
begin

text \<open>
  The life of the invocation servers of a host (class \<^verbatim>\<open>InvocationServer\<close> in
  \<^verbatim>\<open>agent-runtime/src/invocation_channel.cpp\<close>): starting, the accept loop, the client threads and the
  two halves of \<^verbatim>\<open>stop\<close>, between which the clients that are still active finish. Several servers
  share the host; a system step is a step of one of them.
\<close>

section \<open>Operations\<close>

definition kMaxConcurrentInvocationClients :: u64 where
  "kMaxConcurrentInvocationClients = 64"

definition invocation_texts :: socket_texts where
  "invocation_texts =
     \<lparr>tx_address = ''invocation socket path is empty or too long'',
      tx_refuse = ''refusing to replace invocation socket path'',
      tx_probe = ''probe invocation socket'', tx_in_use = ''invocation socket is already in use'',
      tx_unlink = ''unlink stale invocation socket'', tx_inspect = ''inspect invocation socket'',
      tx_create = ''create invocation listener'', tx_bind = ''bind invocation socket'',
      tx_configure = ''configure invocation socket''\<rparr>"

text \<open>
  \<open>sv_threads\<close> counts the client threads that run; \<open>sv_phase\<close> is where the thread that serves stands:
  outside, in the accept loop, or in \<^verbatim>\<open>stop\<close>, waiting for the clients.
\<close>

datatype server_phase = Idle | Serving | Stopping

record server = endpoint +
  sv_handler :: bool
  sv_active :: u64
  sv_threads :: nat
  sv_phase :: server_phase

definition server_start :: "server \<Rightarrow> host \<Rightarrow> (string + unit) \<times> server \<times> host" where
  "server_start s h =
     (if ep_running s then (Inl ''invocation server is already running'', s, h)
      else let s = s\<lparr>ep_running := True\<rparr>
      in if \<not> sv_handler s then (Inl ''invocation handler is empty'', s\<lparr>ep_running := False\<rparr>, h)
      else case open_socket invocation_texts s h of
          (Inl e, s, h) \<Rightarrow> (Inl e, s\<lparr>ep_running := False\<rparr>, h)
        | (Inr _, s, h) \<Rightarrow> (Inr (), s, h))"

text \<open>What a round of the accept loop meets; for a client, whether its thread could be started.\<close>

datatype serve_event = Poll_eintr | Poll_error | Poll_nothing | Accept_eintr | Accept_error | Accept_client bool

datatype serve_verdict = Go_on | Leave | Return_error

text \<open>\<open>still\<close> is the running flag as it is read again after a failed call.\<close>

definition serve_round :: "bool \<Rightarrow> serve_event \<Rightarrow> server \<Rightarrow> serve_verdict \<times> server" where
  "serve_round still ev s =
     (case ev of
        Poll_eintr \<Rightarrow> (Go_on, s)
      | Poll_error \<Rightarrow> (if still then Return_error else Leave, s)
      | Poll_nothing \<Rightarrow> (Go_on, s)
      | Accept_eintr \<Rightarrow> (Go_on, s)
      | Accept_error \<Rightarrow> (if still then Return_error else Leave, s)
      | Accept_client started \<Rightarrow>
          if sv_active s \<ge> kMaxConcurrentInvocationClients then (Go_on, s)
          else let s = s\<lparr>sv_active := sv_active s + 1\<rparr>
          in if started then (Go_on, s\<lparr>sv_threads := sv_threads s + 1\<rparr>)
             else (Go_on, s\<lparr>sv_active := sv_active s - 1\<rparr>))"

definition client_finished :: "server \<Rightarrow> server" where
  "client_finished s = s\<lparr>sv_threads := sv_threads s - 1, sv_active := sv_active s - 1\<rparr>"

definition stop_begin :: "server \<Rightarrow> host \<Rightarrow> server \<times> host" where
  "stop_begin s h = (case close_listener s h of (s, h) \<Rightarrow> (s\<lparr>sv_phase := Stopping\<rparr>, h))"

definition stop_end :: "server \<Rightarrow> host \<Rightarrow> server \<times> host" where
  "stop_end s h = (case unlink_socket s h of (s, h) \<Rightarrow> (s\<lparr>sv_phase := Idle\<rparr>, h))"

section \<open>The servers of a host\<close>

type_synonym system = "(nat \<Rightarrow> server) \<times> host"

text \<open>\<open>guard\<close> restricts which server may be started when.\<close>

inductive server_step :: "((nat \<Rightarrow> server) \<Rightarrow> nat \<Rightarrow> bool) \<Rightarrow> system \<Rightarrow> system \<Rightarrow> bool"
  for guard :: "(nat \<Rightarrow> server) \<Rightarrow> nat \<Rightarrow> bool"
where
  start: "sv_phase (f i) = Idle \<Longrightarrow> guard f i \<Longrightarrow> server_start (f i) h = (r, s, h') \<Longrightarrow>
    server_step guard (f, h) (f(i := s), h')"
| serve: "sv_phase (f i) = Idle \<Longrightarrow> ep_listen (f i) \<noteq> None \<Longrightarrow>
    server_step guard (f, h) (f(i := (f i)\<lparr>sv_phase := Serving\<rparr>), h)"
| turn: "sv_phase (f i) = Serving \<Longrightarrow> ep_running (f i) \<Longrightarrow> serve_round still ev (f i) = (Go_on, s) \<Longrightarrow>
    server_step guard (f, h) (f(i := s), h)"
| leave: "sv_phase (f i) = Serving \<Longrightarrow> serve_round still ev (f i) = (Leave, s) \<Longrightarrow> stop_begin s h = (s', h') \<Longrightarrow>
    server_step guard (f, h) (f(i := s'), h')"
| failed: "sv_phase (f i) = Serving \<Longrightarrow> serve_round still ev (f i) = (Return_error, s) \<Longrightarrow>
    server_step guard (f, h) (f(i := s\<lparr>sv_phase := Idle\<rparr>), h)"
| stop: "sv_phase (f i) \<noteq> Stopping \<Longrightarrow> stop_begin (f i) h = (s, h') \<Longrightarrow>
    server_step guard (f, h) (f(i := s), h')"
| client: "0 < sv_threads (f i) \<Longrightarrow> server_step guard (f, h) (f(i := client_finished (f i)), h)"
| stopped: "sv_phase (f i) = Stopping \<Longrightarrow> sv_active (f i) = 0 \<Longrightarrow> stop_end (f i) h = (s, h') \<Longrightarrow>
    server_step guard (f, h) (f(i := s), h')"

definition fresh_server :: "server \<Rightarrow> bool" where
  "fresh_server s \<longleftrightarrow> ep_listen s = None \<and> \<not> ep_owns s \<and> \<not> ep_running s \<and> sv_active s = 0 \<and>
     sv_threads s = 0 \<and> sv_phase s = Idle"

inductive reachable_servers :: "((nat \<Rightarrow> server) \<Rightarrow> nat \<Rightarrow> bool) \<Rightarrow> system \<Rightarrow> bool"
  for guard :: "(nat \<Rightarrow> server) \<Rightarrow> nat \<Rightarrow> bool"
where
  init: "\<forall>i. fresh_server (f i) \<Longrightarrow> host_ok h \<Longrightarrow> honest_faults h \<Longrightarrow> reachable_servers guard (f, h)"
| step: "reachable_servers guard \<sigma> \<Longrightarrow> server_step guard \<sigma> \<sigma>' \<Longrightarrow> reachable_servers guard \<sigma>'"

text \<open>No server is started on a path whose previous server is still closing.\<close>

definition settled :: "(nat \<Rightarrow> server) \<Rightarrow> nat \<Rightarrow> bool" where
  "settled f i \<longleftrightarrow> (\<forall>j. ep_path (f j) = ep_path (f i) \<longrightarrow> ep_owns (f j) \<longrightarrow> ep_listen (f j) \<noteq> None)"

section \<open>Client threads\<close>

definition clients_ok :: "server \<Rightarrow> bool" where
  "clients_ok s \<longleftrightarrow> unat (sv_active s) = sv_threads s \<and> sv_threads s \<le> 64"

lemma serve_round_clients: "clients_ok s \<Longrightarrow> serve_round still ev s = (v, s') \<Longrightarrow> clients_ok s'"
  by (auto simp: serve_round_def clients_ok_def kMaxConcurrentInvocationClients_def Let_def not_le
      word_less_nat_alt unat_word_ariths split: serve_event.splits if_splits)

lemma server_start_cases:
  assumes "host_ok h" and "honest_faults h" and "server_start s h = (r, s', h')"
  obtains (same) "s' = s" "h' = h" "\<exists>e. r = Inl e"
  | (refused) e where "r = Inl e" "later h h' \<and> host_ok h'" "\<not> ep_running s"
      "s' \<in> {s, s\<lparr>ep_listen := None\<rparr>, s\<lparr>ep_listen := None, ep_owns := False\<rparr>}"
      "\<forall>p. p \<noteq> ep_path s \<longrightarrow> ho_node h' p = ho_node h p" "protected h (ep_path s) \<longrightarrow> ho_node h' = ho_node h"
      "set (ho_sockets h') = set (ho_sockets h)" "set (ho_listening h') = set (ho_listening h)"
  | (opened) x where "r = Inr ()" "later h h' \<and> host_ok h'" "\<not> ep_running s" "\<not> protected h (ep_path s)" "x \<notin> set (ho_sockets h)"
      "s' = s\<lparr>ep_running := True, ep_listen := Some x, ep_owns := True\<rparr>"
      "ho_node h' = (ho_node h)(ep_path s \<mapsto> Socket_node (ho_uid h) x)"
      "set (ho_sockets h') = insert x (set (ho_sockets h))" "set (ho_listening h') = insert x (set (ho_listening h))"
proof (cases "ep_running s \<or> \<not> sv_handler s")
  case True
  then have "s' = s \<and> h' = h \<and> (\<exists>e. r = Inl e)" using assms(3)
    by (cases s) (auto simp: server_start_def Let_def split: if_splits)
  then show ?thesis using same by blast
next
  case False
  let ?s = "s\<lparr>ep_running := True\<rparr>"
  obtain r1 s1 h1 where o: "open_socket invocation_texts ?s h = (r1, s1, h1)" by (cases "open_socket invocation_texts ?s h")
  note spec = open_socket_spec [OF assms(1,2) o, simplified]
  show ?thesis
  proof (cases r1)
    case (Inl e)
    with False assms(3) o have "r = Inl e" "s' = s1\<lparr>ep_running := False\<rparr>" "h' = h1"
      by (auto simp: server_start_def Let_def)
    with spec Inl False show ?thesis by (intro refused [of e]; cases s) auto
  next
    case (Inr u)
    with False assms(3) o have "r = Inr ()" "s' = s1" "h' = h1"
      by (auto simp: server_start_def Let_def)
    with spec Inr False obtain x where "x \<notin> set (ho_sockets h)" "s1 = ?s\<lparr>ep_listen := Some x, ep_owns := True\<rparr>"
      "ho_node h1 = (ho_node h)(ep_path s \<mapsto> Socket_node (ho_uid h) x)"
      "set (ho_sockets h1) = insert x (set (ho_sockets h))" "set (ho_listening h1) = insert x (set (ho_listening h))"
      "\<not> protected h (ep_path s)" "later h h1 \<and> host_ok h1" by auto
    with \<open>r = Inr ()\<close> \<open>s' = s1\<close> \<open>h' = h1\<close> False show ?thesis by (intro opened [of x]) auto
  qed
qed

lemma server_start_clients: "server_start s h = (r, s', h') \<Longrightarrow> clients_ok s' = clients_ok s"
  unfolding server_start_def open_socket_def Let_def clients_ok_def
  by (simp split: if_splits sum.splits prod.splits) (auto split: sum.splits prod.splits)

lemma stop_clients:
  "stop_begin s h = (s', h') \<Longrightarrow> clients_ok s' = clients_ok s"
  "stop_end s h = (s', h') \<Longrightarrow> clients_ok s' = clients_ok s"
  by (auto simp: stop_begin_def stop_end_def close_listener_def unlink_socket_def clients_ok_def split: option.splits if_splits)

lemma client_finished_clients: "clients_ok s \<Longrightarrow> 0 < sv_threads s \<Longrightarrow> clients_ok (client_finished s)"
proof -
  assume "clients_ok s" "0 < sv_threads s"
  then have "unat (sv_active s - 1) = unat (sv_active s) - 1"
    by (intro unat_minus_one) (auto simp: clients_ok_def)
  with \<open>clients_ok s\<close> show ?thesis by (auto simp: clients_ok_def client_finished_def)
qed

lemma clients_ok_phase [simp]: "clients_ok (s\<lparr>sv_phase := p\<rparr>) = clients_ok s"
  by (simp add: clients_ok_def)

lemma server_step_clients:
  assumes "server_step guard \<sigma> \<sigma>'" and "\<forall>i. clients_ok (fst \<sigma> i)"
  shows "\<forall>i. clients_ok (fst \<sigma>' i)"
  using assms
  by (cases rule: server_step.cases)
    (auto simp: server_start_clients stop_clients client_finished_clients dest: serve_round_clients)

text \<open>
  In every reachable state of every server, the count of active clients is the number of client
  threads that run, so it never underflows, and it is at most 64; nothing restricts the order of
  starts, clients and stops.
\<close>

theorem clients_bounded:
  assumes "reachable_servers guard (f, h)"
  shows "unat (sv_active (f i)) = sv_threads (f i) \<and> sv_threads (f i) \<le> 64"
proof -
  have "\<forall>i. clients_ok (fst \<sigma> i)" if "reachable_servers guard \<sigma>" for \<sigma>
    using that
  proof induction
    case (init f h)
    then show ?case by (simp add: fresh_server_def clients_ok_def)
  next
    case (step \<sigma> \<sigma>')
    then show ?case using server_step_clients by simp
  qed
  with assms show ?thesis by (fastforce simp: clients_ok_def)
qed

section \<open>Listening behind the path\<close>

text \<open>The server is reached over its path: the node is its socket, which listens.\<close>

definition serves_path :: "host \<Rightarrow> server \<Rightarrow> bool" where
  "serves_path h s \<longleftrightarrow> (\<exists>x. ep_listen s = Some x \<and> x \<in> set (ho_listening h) \<and>
     ho_node h (ep_path s) = Some (Socket_node (ho_uid h) x))"

definition server_ok :: "host \<Rightarrow> server \<Rightarrow> bool" where
  "server_ok h s \<longleftrightarrow>
     (ep_listen s \<noteq> None \<longrightarrow> ep_running s \<and> ep_owns s \<and> serves_path h s \<and> sv_phase s \<noteq> Stopping) \<and>
     (ep_owns s \<longrightarrow> ep_listen s = None \<longrightarrow> sv_phase s = Stopping)"

definition apart :: "server \<Rightarrow> server \<Rightarrow> bool" where
  "apart s t \<longleftrightarrow> (ep_owns s \<longrightarrow> ep_owns t \<longrightarrow> ep_path s \<noteq> ep_path t) \<and>
     (ep_listen s \<noteq> None \<longrightarrow> ep_listen s \<noteq> ep_listen t)"

definition servers_ok :: "system \<Rightarrow> bool" where
  "servers_ok \<sigma> \<longleftrightarrow> host_ok (snd \<sigma>) \<and> honest_faults (snd \<sigma>) \<and> (\<forall>i. server_ok (snd \<sigma>) (fst \<sigma> i)) \<and>
     (\<forall>i j. i \<noteq> j \<longrightarrow> apart (fst \<sigma> i) (fst \<sigma> j))"

lemma apart_sym: "apart s t \<Longrightarrow> apart t s"
  by (auto simp: apart_def)

lemma servers_ok_update:
  assumes "servers_ok (f, h)" and "host_ok h'" "later h h'" and "server_ok h' s"
    and "\<And>j. j \<noteq> i \<Longrightarrow> server_ok h' (f j)" and "\<And>j. j \<noteq> i \<Longrightarrow> apart s (f j)"
  shows "servers_ok (f(i := s), h')"
  using assms apart_sym by (auto simp: servers_ok_def later_def honest_faults_def)

lemma serve_round_endpoint:
  assumes "serve_round still ev s = (v, s')"
  shows "ep_listen s' = ep_listen s" "ep_path s' = ep_path s" "ep_owns s' = ep_owns s"
    "ep_running s' = ep_running s" "sv_phase s' = sv_phase s"
  using assms by (auto simp: serve_round_def Let_def split: serve_event.splits if_splits)

text \<open>A step that leaves the host and the end point alone.\<close>

lemma servers_ok_same:
  assumes ok: "servers_ok (f, h)" and "ep_listen s = ep_listen (f i)" "ep_path s = ep_path (f i)" "ep_owns s = ep_owns (f i)"
    "ep_running s = ep_running (f i)" "sv_phase s = Stopping \<longleftrightarrow> sv_phase (f i) = Stopping"
  shows "servers_ok (f(i := s), h)"
proof (rule servers_ok_update [OF ok])
  show "host_ok h" "later h h" "server_ok h s" "\<And>j. server_ok h (f j)" "\<And>j. j \<noteq> i \<Longrightarrow> apart s (f j)"
    using assms by (auto simp: servers_ok_def server_ok_def serves_path_def apart_def later_def)
qed

lemma servers_ok_stop_begin:
  assumes ok: "servers_ok (f, h)" and "ep_listen s = ep_listen (f i)" "ep_path s = ep_path (f i)" "ep_owns s = ep_owns (f i)"
    and st: "stop_begin s h = (s', h')"
  shows "servers_ok (f(i := s'), h')"
proof (rule servers_ok_update [OF ok])
  show "host_ok h'" "later h h'" "server_ok h' s'" "\<And>j. j \<noteq> i \<Longrightarrow> apart s' (f j)"
    using assms
    by (auto simp: servers_ok_def server_ok_def serves_path_def apart_def later_def stop_begin_def close_listener_def
      host_ok_def split: option.splits)
  fix j assume j: "j \<noteq> i"
  with ok have "server_ok h (f j)" "apart (f i) (f j)" by (auto simp: servers_ok_def)
  then show "server_ok h' (f j)"
    using st assms(2) by (auto simp: server_ok_def serves_path_def apart_def stop_begin_def close_listener_def
      split: option.splits)
qed

lemma servers_ok_stop_end:
  assumes ok: "servers_ok (f, h)" and ph: "sv_phase (f i) = Stopping" and st: "stop_end (f i) h = (s', h')"
  shows "servers_ok (f(i := s'), h')"
proof -
  obtain r h1 where un: "host_unlink (ep_path (f i)) h = (r, h1)" by fastforce
  note un' = host_unlink_spec [OF un]
  have none: "ep_listen (f i) = None" using ok ph by (auto simp: servers_ok_def server_ok_def)
  show ?thesis
  proof (rule servers_ok_update [OF ok])
    show "host_ok h'" "later h h'" "server_ok h' s'" "\<And>j. j \<noteq> i \<Longrightarrow> apart s' (f j)"
      using ok st un un' none
      by (auto simp: servers_ok_def server_ok_def apart_def later_def stop_end_def unlink_socket_def host_ok_def
        split: if_splits)
    fix j assume j: "j \<noteq> i"
    with ok have "server_ok h (f j)" "apart (f i) (f j)" by (auto simp: servers_ok_def)
    then show "server_ok h' (f j)"
      using st un un' by (auto simp: server_ok_def serves_path_def apart_def stop_end_def unlink_socket_def later_def
        split: if_splits)
  qed
qed

lemma serving_protects: "server_ok h s \<Longrightarrow> ep_listen s \<noteq> None \<Longrightarrow> protected h (ep_path s)"
  by (auto simp: server_ok_def serves_path_def protected_def)

lemma servers_ok_start:
  assumes ok: "servers_ok (f, h)" and ph: "sv_phase (f i) = Idle" and settled: "settled f i"
    and st: "server_start (f i) h = (r, s', h')"
  shows "servers_ok (f(i := s'), h')"
proof -
  have hosts: "host_ok h" "honest_faults h" and self: "server_ok h (f i)" and each: "\<And>j. server_ok h (f j)"
    and ap: "\<And>j. j \<noteq> i \<Longrightarrow> apart (f i) (f j)"
    using ok by (auto simp: servers_ok_def)
  from hosts st show ?thesis
  proof (cases rule: server_start_cases)
    case same
    with ok show ?thesis by simp
  next
    case (refused e)
    then have free: "ep_listen (f i) = None" "\<not> ep_owns (f i)" using self ph by (auto simp: server_ok_def)
    then have s': "ep_listen s' = None" "\<not> ep_owns s'" using refused(4) by auto
    show ?thesis
    proof (rule servers_ok_update [OF ok])
      show "host_ok h'" "later h h'" using refused by simp_all
      show "server_ok h' s'" using s' by (simp add: server_ok_def)
      show "apart s' (f j)" for j using s' by (simp add: apart_def)
      show "server_ok h' (f j)" for j
        using each [of j] serving_protects [OF each, of j] refused
        by (cases "ep_path (f j) = ep_path (f i)") (auto simp: server_ok_def serves_path_def later_def)
    qed
  next
    case (opened x)
    show ?thesis
    proof (rule servers_ok_update [OF ok])
      show "host_ok h'" "later h h'" using opened by simp_all
      show "server_ok h' s'"
        using opened ph by (auto simp: server_ok_def serves_path_def later_def)
      have other: "ep_path (f j) = ep_path (f i) \<Longrightarrow> ep_listen (f j) = None" for j
        using serving_protects [OF each, of j] opened(4) by (metis)
      have old: "ep_listen (f j) \<noteq> Some x" for j
        using each [of j] opened hosts by (auto simp: server_ok_def serves_path_def host_ok_def)
      show "apart s' (f j)" if "j \<noteq> i" for j
        using settled other [of j] old [of j] opened by (auto simp: apart_def settled_def)
      show "server_ok h' (f j)" if "j \<noteq> i" for j
        using each [of j] other [of j] opened by (auto simp: server_ok_def serves_path_def later_def)
    qed
  qed
qed

text \<open>
  As long as no server is started on the path of one that is still closing, a server that holds its
  listening socket is the one that is reached over its path, in every interleaving of the servers
  of the host, and no two servers own the same path.
\<close>

theorem servers_reached:
  assumes "reachable_servers settled (f, h)"
  shows "(ep_listen (f i) \<noteq> None \<longrightarrow> serves_path h (f i)) \<and>
    (ep_owns (f i) \<and> ep_owns (f j) \<and> ep_path (f i) = ep_path (f j) \<longrightarrow> i = j)"
proof -
  have "servers_ok \<sigma>" if "reachable_servers settled \<sigma>" for \<sigma>
    using that
  proof induction
    case (init f h)
    then show ?case by (simp add: fresh_server_def servers_ok_def server_ok_def apart_def)
  next
    case (step \<sigma> \<sigma>')
    from step(2,3) show ?case
    proof cases
      case (start f i h r s h')
      then show ?thesis using step(3) servers_ok_start by simp
    next
      case (leave f i still ev s h s' h')
      then show ?thesis using step(3) serve_round_endpoint(1-3) [OF leave(4)] servers_ok_stop_begin [of f h s i] by simp
    next
      case (turn f i still ev s h)
      then show ?thesis using step(3) serve_round_endpoint [OF turn(5)] servers_ok_same [of f h s i] by simp
    next
      case (failed f i still ev s h)
      then show ?thesis
        using step(3) serve_round_endpoint [OF failed(4)] servers_ok_same [of f h "s\<lparr>sv_phase := Idle\<rparr>" i] by simp
    next
      case (stopped f i h s h')
      then show ?thesis using step(3) servers_ok_stop_end by simp
    next
      case (stop f i h s h')
      then show ?thesis using step(3) servers_ok_stop_begin [of f h "f i" i] by simp
    next
      case (serve f i h)
      then show ?thesis using step(3) servers_ok_same [of f h "(f i)\<lparr>sv_phase := Serving\<rparr>" i] by simp
    next
      case (client f i h)
      then show ?thesis using step(3) servers_ok_same [of f h "client_finished (f i)" i]
        by (simp add: client_finished_def)
    qed
  qed
  with assms have "servers_ok (f, h)" by blast
  then show ?thesis unfolding servers_ok_def server_ok_def apart_def by auto
qed

text \<open>Two servers for \<^verbatim>\<open>/tmp/s\<close>; the first is started and gets a client, then is asked to stop.\<close>

definition new_server :: server where
  "new_server = \<lparr>ep_path = ''/tmp/s'', ep_listen = None, ep_owns = False, ep_running = False,
     sv_handler = True, sv_active = 0, sv_threads = 0, sv_phase = Idle\<rparr>"

definition empty_host :: host where
  "empty_host = \<lparr>ho_node = (\<lambda>_. None), ho_sockets = [], ho_listening = [], ho_next = 0, ho_uid = 1000, ho_faults = []\<rparr>"

lemmas server_run_simps = server_start_def open_socket_def make_socket_address_def sun_path_size_def clear_path_def
  host_lstat_def host_call_def host_socket_def host_connect_def host_unlink_def host_bind_def host_chmod_def
  host_listen_def host_close_def Let_def stop_begin_def stop_end_def close_listener_def unlink_socket_def
  new_server_def empty_host_def

lemma start_new_server: "server_start new_server empty_host =
    (Inr (), new_server\<lparr>ep_running := True, ep_listen := Some 0, ep_owns := True\<rparr>,
     empty_host\<lparr>ho_node := (\<lambda>_. None)(''/tmp/s'' \<mapsto> Socket_node 1000 0), ho_sockets := [0], ho_listening := [0], ho_next := 1\<rparr>)"
  by (simp add: server_run_simps)

lemma reachable_new: "reachable_servers guard (\<lambda>_. new_server, empty_host)"
  by (rule reachable_servers.init) (simp_all add: fresh_server_def new_server_def host_ok_def honest_faults_def empty_host_def)

lemma servers_reached_witness:
  "\<exists>f h. ep_listen (f (0 :: nat)) = Some 0 \<and> serves_path h (f 0)"
proof -
  let ?s = "new_server\<lparr>ep_running := True, ep_listen := Some 0, ep_owns := True\<rparr>"
  have "server_step settled (\<lambda>_. new_server, empty_host) ((\<lambda>_. new_server)(0 := ?s),
     empty_host\<lparr>ho_node := (\<lambda>_. None)(''/tmp/s'' \<mapsto> Socket_node 1000 0), ho_sockets := [0], ho_listening := [0], ho_next := 1\<rparr>)"
    by (rule server_step.start [OF _ _ start_new_server]) (simp_all add: new_server_def settled_def)
  from servers_reached [OF reachable_servers.step [OF reachable_new this], of 0 0] show ?thesis
    by (intro exI [of _ "(\<lambda>_. new_server)(0 := ?s)"]) auto
qed

lemma clients_bounded_witness: "sv_threads new_server \<le> 64"
  using clients_bounded [OF reachable_new] by simp

text \<open>
  Without that restriction the claim fails: \<^verbatim>\<open>stop\<close> closes the listening socket, waits for its clients
  and then removes whatever is at the path. A server that was started in between on the same path,
  which takes the closed socket for a stale one, loses its node: it listens, and nobody reaches it.
\<close>

theorem stop_removes_successor:
  "\<exists>f h. reachable_servers (\<lambda>_ _. True) (f, h) \<and> sv_phase (f 1) = Serving \<and> ep_running (f 1) \<and>
     ep_owns (f 1) \<and> ep_listen (f 1) = Some 2 \<and> 2 \<in> set (ho_listening h) \<and> ho_node h (ep_path (f 1)) = None"
proof -
  let ?g = "\<lambda>_ _. True"
  define s1 where "s1 = new_server\<lparr>ep_running := True, ep_listen := Some 0, ep_owns := True\<rparr>"
  define h1 where "h1 = empty_host\<lparr>ho_node := (\<lambda>_. None)(''/tmp/s'' \<mapsto> Socket_node 1000 0), ho_sockets := [0],
     ho_listening := [0], ho_next := 1\<rparr>"
  define s2 where "s2 = s1\<lparr>ep_running := False, ep_listen := None, sv_phase := Stopping\<rparr>"
  define h2 where "h2 = h1\<lparr>ho_sockets := [], ho_listening := []\<rparr>"
  define t1 where "t1 = new_server\<lparr>ep_running := True, ep_listen := Some 2, ep_owns := True\<rparr>"
  define h3 where "h3 = h2\<lparr>ho_node := (\<lambda>_. None)(''/tmp/s'' \<mapsto> Socket_node 1000 2), ho_sockets := [2],
     ho_listening := [2], ho_next := 3\<rparr>"
  define t2 where "t2 = t1\<lparr>sv_phase := Serving\<rparr>"
  let ?f = "\<lambda>_ :: nat. new_server"
  note sims = server_run_simps s1_def h1_def s2_def h2_def t1_def h3_def t2_def
  have a: "server_step ?g (?f, empty_host) (?f(0 := s1), h1)"
    by (rule server_step.start [OF _ _ start_new_server [folded s1_def h1_def]]) (simp_all add: new_server_def)
  have b: "server_step ?g (?f(0 := s1), h1) (?f(0 := s1, 0 := s2), h2)"
    by (rule server_step.stop) (simp_all add: sims)
  have "server_start new_server h2 = (Inr (), t1, h3)" by (simp add: sims numeral_2_eq_2 numeral_3_eq_3)
  then have c: "server_step ?g (?f(0 := s1, 0 := s2), h2) (?f(0 := s1, 0 := s2, 1 := t1), h3)"
    by (intro server_step.start) (simp_all add: new_server_def)
  have d: "server_step ?g (?f(0 := s1, 0 := s2, 1 := t1), h3) (?f(0 := s1, 0 := s2, 1 := t1, 1 := t2), h3)"
    using server_step.serve [where f = "?f(0 := s1, 0 := s2, 1 := t1)" and i = 1 and guard = ?g and h = h3]
    by (simp add: t1_def t2_def new_server_def)
  obtain s3 h4 where e: "stop_end s2 h3 = (s3, h4)" by fastforce
  have f: "server_step ?g (?f(0 := s1, 0 := s2, 1 := t1, 1 := t2), h3)
      (?f(0 := s1, 0 := s2, 1 := t1, 1 := t2, 0 := s3), h4)"
    by (rule server_step.stopped) (use e in \<open>simp_all add: s2_def s1_def new_server_def\<close>)
  have "reachable_servers ?g (?f(0 := s1, 0 := s2, 1 := t1, 1 := t2, 0 := s3), h4)"
    by (rule reachable_servers.step [OF _ f], rule reachable_servers.step [OF _ d],
      rule reachable_servers.step [OF _ c], rule reachable_servers.step [OF _ b],
      rule reachable_servers.step [OF reachable_new a])
  moreover have "ho_node h4 ''/tmp/s'' = None \<and> ho_listening h4 = [2]"
    using e by (auto simp: sims)
  ultimately show ?thesis
    by (intro exI conjI) (auto simp: t2_def t1_def new_server_def)
qed

end
