(* ===== verification/Process_Executor.thy ===== *)
theory Process_Executor
  imports Prelude
begin

text \<open>
  Running a child process (\<^verbatim>\<open>agent-runtime/src/process_executor.cpp\<close>): the start barrier, the output pipe
  that is drained into a bounded buffer, the wait with its timeout and cancellation, and the exit
  code. What the operating system answers is an argument, call by call; the state is the set of
  descriptors that are open, the child and the signals it got.
\<close>

section \<open>Draining the output\<close>

text \<open>
  What successive reads of the pipe meet: bytes, from which a read takes as many as it has room for
  and leaves the rest, the end of the stream, an interruption, an empty pipe, another error.
\<close>

datatype read_event = Data "u8 list" | End_of_stream | Interrupted | Would_block | Read_error

definition discard_size :: nat where
  "discard_size = 8192"

fun event_size :: "read_event \<Rightarrow> nat" where
  "event_size (Data bs) = Suc (length bs)"
| "event_size _ = 1"

record drained =
  dr_closed :: bool
  dr_output :: "u8 list"
  dr_truncated :: bool

text \<open>\<open>None\<close>: the events are used up and the loop still reads. A read of no bytes is the end.\<close>

function drain_output :: "nat \<Rightarrow> read_event list \<Rightarrow> u8 list \<Rightarrow> bool \<Rightarrow> drained option" where
  "drain_output cap [] out truncated = None"
| "drain_output cap (Data bs # es) out truncated =
     (let available = (if length out < cap then min (cap - length out) discard_size else discard_size);
          rest = (if length bs \<le> available then es else Data (drop available bs) # es)
      in if bs = [] then Some \<lparr>dr_closed = True, dr_output = out, dr_truncated = truncated\<rparr>
         else if length out < cap then drain_output cap rest (out @ take available bs) truncated
         else drain_output cap rest out True)"
| "drain_output cap (End_of_stream # es) out truncated =
     Some \<lparr>dr_closed = True, dr_output = out, dr_truncated = truncated\<rparr>"
| "drain_output cap (Interrupted # es) out truncated = drain_output cap es out truncated"
| "drain_output cap (Would_block # es) out truncated =
     Some \<lparr>dr_closed = False, dr_output = out, dr_truncated = truncated\<rparr>"
| "drain_output cap (Read_error # es) out truncated =
     Some \<lparr>dr_closed = True, dr_output = out, dr_truncated = truncated\<rparr>"
  by pat_completeness auto

termination
  by (relation "measure (\<lambda>(cap, es, out, truncated). sum_list (map event_size es))")
    (auto simp: discard_size_def min_def)

declare drain_output.simps(2) [simp del]



section \<open>One run\<close>

datatype descriptor = Barrier_child | Barrier_parent | Pipe_read | Pipe_write | Pid_fd

datatype child = No_child | Alive | Reaped

datatype signal_target = Process_group | Process | Nobody

definition sigterm :: int where "sigterm = 15"
definition sigkill :: int where "sigkill = 9"

record run_state =
  rs_open :: "descriptor list"
  rs_child :: child
  rs_signals :: "(int \<times> signal_target) list"

record process_result =
  ps_started :: bool
  ps_timed_out :: bool
  ps_exit_code :: int
  ps_process_id :: i64
  ps_output :: "u8 list"
  ps_truncated :: bool
  ps_error :: string

definition default_process_result :: process_result where
  "default_process_result = \<lparr>ps_started = False, ps_timed_out = False, ps_exit_code = - 1, ps_process_id = - 1,
     ps_output = [], ps_truncated = False, ps_error = []\<rparr>"

text \<open>The status of a child that was waited for.\<close>

datatype wait_status = Exited int | Signaled int

datatype wait_result = Not_yet | Status wait_status | Wait_eintr | Wait_failed

datatype pidfd_poll = Pid_ready | Pid_idle | Pid_eintr | Pid_failed

text \<open>
  What one round of the wait meets: the reads of the pipe, the poll of the pidfd, the wait for the
  child, the cancel flag, the nanoseconds since the start, and, when the child is ended, which of
  the three ways to signal it succeed and what the waits after the signals return.
\<close>

record wait_round =
  wr_reads :: "read_event list"
  wr_poll :: pidfd_poll
  wr_wait :: wait_result
  wr_cancelled :: bool
  wr_elapsed :: int
  wr_signals :: "bool \<times> bool \<times> bool"
  wr_grace :: wait_result
  wr_final :: wait_result

record run_env =
  re_socketpair :: bool
  re_pipe :: bool
  re_fork :: "i64 option"
  re_setpgid :: bool
  re_nonblock :: bool
  re_reaped :: bool
  re_send :: bool
  re_pidfd :: bool
  re_rounds :: "wait_round list"
  re_last_reads :: "read_event list"

fun signal_process :: "bool \<Rightarrow> bool \<times> bool \<times> bool \<Rightarrow> signal_target" where
  "signal_process pidfd (group_ok, pidfd_ok, kill_ok) =
     (if group_ok then Process_group else if pidfd \<and> pidfd_ok then Process
      else if kill_ok then Process else Nobody)"

definition send_signal :: "int \<Rightarrow> bool \<Rightarrow> bool \<times> bool \<times> bool \<Rightarrow> run_state \<Rightarrow> run_state" where
  "send_signal sig pidfd oks s = s\<lparr>rs_signals := rs_signals s @ [(sig, signal_process pidfd oks)]\<rparr>"

fun close_all :: "descriptor list \<Rightarrow> run_state \<Rightarrow> run_state" where
  "close_all [] s = s"
| "close_all (d # ds) s = close_all ds (s\<lparr>rs_open := removeAll d (rs_open s)\<rparr>)"

text \<open>The wait that is to take the dead child away.\<close>

definition reap :: "bool \<Rightarrow> run_state \<Rightarrow> run_state" where
  "reap ok s = (if ok then s\<lparr>rs_child := Reaped\<rparr> else s)"

text \<open>\<^verbatim>\<open>kill (pid, SIGKILL)\<close>, before the wait.\<close>

definition kill_child :: "run_state \<Rightarrow> run_state" where
  "kill_child s = s\<lparr>rs_signals := rs_signals s @ [(sigkill, Process)]\<rparr>"

text \<open>What the child's side of the fork exits with, unless the program is executed.\<close>

fun child_exit :: "bool \<Rightarrow> bool \<Rightarrow> bool \<Rightarrow> bool \<Rightarrow> bool \<Rightarrow> int option" where
  "child_exit has_pipe dup_ok setpgid_ok token_ok exec_ok =
     (if has_pipe \<and> \<not> dup_ok then Some 125
      else if \<not> setpgid_ok then Some 124
      else if \<not> token_ok then Some 126
      else if \<not> exec_ok then Some 127 else None)"

text \<open>Ending the child: the signals, the grace period and the status that is found.\<close>

definition end_child :: "bool \<Rightarrow> wait_round \<Rightarrow> wait_status \<Rightarrow> run_state \<Rightarrow> wait_status \<times> run_state" where
  "end_child pidfd w status s =
     (let s = send_signal sigterm pidfd (wr_signals w) s
      in case wr_grace w of
           Status st \<Rightarrow> (st, reap True s)
         | g \<Rightarrow>
             let s = (if g = Not_yet then send_signal sigkill pidfd (wr_signals w) s else s)
             in case wr_final w of
                  Status st \<Rightarrow> (st, reap True s)
                | _ \<Rightarrow> (status, s))"

text \<open>
  The loop. It ends with the status and whether the pipe is at its end (\<open>Inr\<close>) or with an error
  return (\<open>Inl\<close>); \<open>None\<close>: the rounds are used up and the loop still waits.
\<close>

fun wait_loop :: "bool \<Rightarrow> int \<Rightarrow> nat \<Rightarrow> wait_round list \<Rightarrow> bool \<Rightarrow> process_result \<Rightarrow> run_state \<Rightarrow>
    (string + wait_status \<times> bool) option \<times> process_result \<times> run_state" where
  "wait_loop pidfd timeout cap [] closed r s = (None, r, s)"
| "wait_loop pidfd timeout cap (w # ws) closed r s =
     (case (if closed then Some \<lparr>dr_closed = True, dr_output = ps_output r, dr_truncated = ps_truncated r\<rparr>
            else drain_output cap (wr_reads w) (ps_output r) (ps_truncated r)) of
        None \<Rightarrow> (None, r, s)
      | Some d \<Rightarrow>
          let r = r\<lparr>ps_output := dr_output d, ps_truncated := dr_truncated d\<rparr>; closed = dr_closed d
          in if pidfd \<and> wr_poll w = Pid_failed
             then (Some (Inl ''poll on pidfd failed''), r, s)
             else case (if pidfd \<and> wr_poll w \<noteq> Pid_ready then Not_yet else wr_wait w) of
               Status st \<Rightarrow> (Some (Inr (st, closed)), r, reap True s)
             | Wait_eintr \<Rightarrow> wait_loop pidfd timeout cap ws closed r s
             | Wait_failed \<Rightarrow> (Some (Inl ''waitpid failed''), r, s)
             | Not_yet \<Rightarrow>
                 let expired = timeout > 0 \<and> wr_elapsed w \<ge> timeout * 1000000
                 in if wr_cancelled w \<or> expired
                    then (case end_child pidfd w (Exited 0) s of
                            (st, s) \<Rightarrow> (Some (Inr (st, closed)), r\<lparr>ps_timed_out := expired\<rparr>, s))
                    else wait_loop pidfd timeout cap ws closed r s)"

fun exit_code :: "wait_status \<Rightarrow> int" where
  "exit_code (Exited c) = c"
| "exit_code (Signaled sig) = 128 + sig"

text \<open>From the release of the start barrier on.\<close>

definition run_started :: "int \<Rightarrow> nat option \<Rightarrow> run_env \<Rightarrow> process_result \<Rightarrow> run_state \<Rightarrow>
    (process_result \<times> run_state) option" where
  "run_started timeout buffer e r s =
     (let r = r\<lparr>ps_started := True\<rparr>;
          s = (if re_pidfd e then s\<lparr>rs_open := Pid_fd # rs_open s\<rparr> else s);
          cap = (case buffer of None \<Rightarrow> 0 | Some n \<Rightarrow> n)
      in case wait_loop (re_pidfd e) timeout cap (re_rounds e) (buffer = None) r s of
           (None, r, s) \<Rightarrow> None
         | (Some (Inl msg), r, s) \<Rightarrow> Some (r\<lparr>ps_error := msg\<rparr>, close_all [Pipe_read, Pid_fd] s)
         | (Some (Inr (st, closed)), r, s) \<Rightarrow>
             (case (if closed then Some \<lparr>dr_closed = True, dr_output = ps_output r, dr_truncated = ps_truncated r\<rparr>
                    else drain_output cap (re_last_reads e) (ps_output r) (ps_truncated r)) of
                None \<Rightarrow> None
              | Some d \<Rightarrow> Some (r\<lparr>ps_output := dr_output d, ps_truncated := dr_truncated d,
                  ps_exit_code := exit_code st\<rparr>, close_all [Pipe_read, Pid_fd] s)))"

text \<open>
  \<open>on_started\<close> acts on a state of the caller. \<open>buffer\<close> is the capacity of the output buffer, or
  nothing for a null pointer; the code asks for a null pointer exactly when the capacity is zero.
\<close>

definition run_process :: "string list \<Rightarrow> int \<Rightarrow> bool \<Rightarrow> (i64 \<Rightarrow> 'x \<Rightarrow> (string + unit) \<times> 'x) option \<Rightarrow>
    nat option \<Rightarrow> run_env \<Rightarrow> 'x \<Rightarrow> (process_result \<times> run_state) option \<times> 'x" where
  "run_process command timeout cancelled on_started buffer e x =
     (let r = default_process_result; s = \<lparr>rs_open = [], rs_child = No_child, rs_signals = []\<rparr>;
          failed = (\<lambda>msg r s. Some (r\<lparr>ps_error := msg\<rparr>, s))
      in if command = [] \<or> hd command = [] then (failed ''process command is empty'' r s, x)
      else if cancelled then (failed ''process was cancelled before start'' r s, x)
      else if buffer = Some 0 then (failed ''invalid process output buffer'' r s, x)
      else if \<not> re_socketpair e then (failed ''failed to create process start barrier'' r s, x)
      else let s = s\<lparr>rs_open := [Barrier_child, Barrier_parent]\<rparr>
      in if buffer \<noteq> None \<and> \<not> re_pipe e
         then (failed ''failed to create process output pipe'' r (close_all [Barrier_child, Barrier_parent] s), x)
      else let s = (if buffer \<noteq> None then s\<lparr>rs_open := Pipe_read # Pipe_write # rs_open s\<rparr> else s)
      in case re_fork e of
        None \<Rightarrow> (failed ''fork failed'' r (close_all [Barrier_child, Barrier_parent, Pipe_read, Pipe_write] s), x)
      | Some pid \<Rightarrow>
      let s = close_all [Barrier_child, Pipe_write] (s\<lparr>rs_child := Alive\<rparr>)
      in if \<not> re_setpgid e
         then (failed ''failed to isolate process group'' r
           (reap (re_reaped e) (kill_child (close_all [Barrier_parent, Pipe_read] s))), x)
      else if buffer \<noteq> None \<and> \<not> re_nonblock e
         then (failed ''failed to configure process output pipe'' r
           (reap (re_reaped e) (kill_child (close_all [Barrier_parent, Pipe_read] s))), x)
      else let r = r\<lparr>ps_process_id := pid\<rparr>
      in case (case on_started of None \<Rightarrow> (Inr (), x) | Some f \<Rightarrow> f pid x) of
        (Inl err, x) \<Rightarrow>
          (failed (if err = [] then ''process admission rejected'' else err) r
             (reap (re_reaped e) (close_all [Barrier_parent, Pipe_read] s)), x)
      | (Inr _, x) \<Rightarrow>
          if \<not> re_send e
          then (failed ''failed to release process start barrier'' r
             (reap (re_reaped e) (kill_child (close_all [Barrier_parent, Pipe_read] s))), x)
          else (run_started timeout buffer e r (close_all [Barrier_parent] s), x))"

section \<open>The loop\<close>



lemma reap_fields [simp]:
  "rs_open (reap ok s) = rs_open s" "rs_child (reap ok s) = (if ok then Reaped else rs_child s)"
  by (simp_all add: reap_def)

lemma kill_child_fields [simp]: "rs_open (kill_child s) = rs_open s" "rs_child (kill_child s) = rs_child s"
  by (simp_all add: kill_child_def)

lemma send_signal_fields [simp]:
  "rs_open (send_signal sig pidfd oks s) = rs_open s" "rs_child (send_signal sig pidfd oks s) = rs_child s"
  by (simp_all add: send_signal_def)








section \<open>What a run promises\<close>




section \<open>When a run returns\<close>

definition ends_drain :: "read_event \<Rightarrow> bool" where
  "ends_drain ev \<longleftrightarrow> ev \<in> {Data [], End_of_stream, Would_block, Read_error}"

text \<open>A round in which the loop stops.\<close>

definition decisive :: "bool \<Rightarrow> int \<Rightarrow> wait_round \<Rightarrow> bool" where
  "decisive pidfd timeout w \<longleftrightarrow>
     pidfd \<and> wr_poll w = Pid_failed \<or>
     (case (if pidfd \<and> wr_poll w \<noteq> Pid_ready then Not_yet else wr_wait w) of
        Status _ \<Rightarrow> True | Wait_failed \<Rightarrow> True | Wait_eintr \<Rightarrow> False
      | Not_yet \<Rightarrow> wr_cancelled w \<or> timeout > 0 \<and> wr_elapsed w \<ge> timeout * 1000000)"

lemma drain_returns:
  "\<exists>ev \<in> set es. ends_drain ev \<Longrightarrow> drain_output cap es out truncated \<noteq> None"
proof (induction cap es out truncated rule: drain_output.induct)
  case (2 cap bs es out truncated)
  let ?a = "if length out < cap then min (cap - length out) discard_size else discard_size"
  let ?rest = "if length bs \<le> ?a then es else Data (drop ?a bs) # es"
  show ?case
  proof (cases "bs = []")
    case False
    then have rest: "\<exists>ev \<in> set ?rest. ends_drain ev" using 2(3) by (auto simp: ends_drain_def)
    show ?thesis
    proof (cases "length out < cap")
      case True
      from 2(1) [OF refl refl False True rest] show ?thesis
        unfolding drain_output.simps(2) Let_def by (simp only: False True if_True if_False simp_thms)
    next
      case full: False
      from 2(2) [OF refl refl False full rest] show ?thesis
        unfolding drain_output.simps(2) Let_def by (simp only: False full if_True if_False simp_thms)
    qed
  qed (simp add: drain_output.simps(2))
qed (auto simp: ends_drain_def)

lemma wait_loop_returns:
  "\<forall>w \<in> set ws. \<exists>ev \<in> set (wr_reads w). ends_drain ev \<Longrightarrow> \<exists>w \<in> set ws. decisive pidfd timeout w \<Longrightarrow>
   fst (wait_loop pidfd timeout cap ws closed r s) \<noteq> None"
proof (induction pidfd timeout cap ws closed r s rule: wait_loop.induct)
  case (2 pidfd timeout cap w ws closed r s)
  obtain d where d: "(if closed then Some \<lparr>dr_closed = True, dr_output = ps_output r, dr_truncated = ps_truncated r\<rparr>
      else drain_output cap (wr_reads w) (ps_output r) (ps_truncated r)) = Some d"
    using 2(3) drain_returns [of "wr_reads w" cap "ps_output r" "ps_truncated r"]
    by (cases closed; cases "drain_output cap (wr_reads w) (ps_output r) (ps_truncated r)") simp_all
  let ?waited = "if pidfd \<and> wr_poll w \<noteq> Pid_ready then Not_yet else wr_wait w"
  show ?case
  proof (cases "decisive pidfd timeout w")
    case True
    then show ?thesis unfolding wait_loop.simps d option.case Let_def decisive_def
      by (cases "pidfd \<and> wr_poll w = Pid_failed"; cases ?waited) (auto split: prod.splits)
  next
    case False
    then have ws: "\<forall>w \<in> set ws. \<exists>ev \<in> set (wr_reads w). ends_drain ev" "\<exists>w \<in> set ws. decisive pidfd timeout w"
      using 2(3,4) by auto
    have c: "\<not> (pidfd \<and> wr_poll w = Pid_failed)"
      "?waited = Wait_eintr \<or> ?waited = Not_yet \<and> \<not> (wr_cancelled w \<or> timeout > 0 \<and> wr_elapsed w \<ge> timeout * 1000000)"
      using False unfolding decisive_def by (cases ?waited; auto)+
    show ?thesis
    proof (cases "?waited = Wait_eintr")
      case True
      from 2(2) [OF d refl refl c(1) True ws] c(1) True show ?thesis
        unfolding wait_loop.simps d option.case Let_def by simp
    next
      case no: False
      then have n: "?waited = Not_yet" "\<not> (wr_cancelled w \<or> timeout > 0 \<and> wr_elapsed w \<ge> timeout * 1000000)"
        using c(2) by blast+
      from 2(1) [OF d refl refl c(1) n(1) refl n(2) ws] c(1) n show ?thesis
        unfolding wait_loop.simps d option.case Let_def by (auto simp del: if_split)
    qed
  qed
qed simp

text \<open>
  C35. A run returns: when every drain of the pipe meets an end or an empty pipe, it is enough that one
  round finds the child ended, the cancel flag set or a positive timeout passed.
\<close>

theorem run_returns:
  assumes "\<forall>w \<in> set (re_rounds e). \<exists>ev \<in> set (wr_reads w). ends_drain ev"
    and "\<exists>ev \<in> set (re_last_reads e). ends_drain ev"
    and "\<exists>w \<in> set (re_rounds e). decisive (re_pidfd e) timeout w"
  shows "fst (run_process command timeout cancelled on_started buffer e x) \<noteq> None"
proof -
  have "run_started timeout buffer e r s \<noteq> None" for r s
  proof -
    let ?cap = "case buffer of None \<Rightarrow> 0 | Some n \<Rightarrow> n" and ?r = "r\<lparr>ps_started := True\<rparr>"
      and ?s = "if re_pidfd e then s\<lparr>rs_open := Pid_fd # rs_open s\<rparr> else s"
    obtain v r1 s1 where w: "wait_loop (re_pidfd e) timeout ?cap (re_rounds e) (buffer = None) ?r ?s = (v, r1, s1)"
      by (cases "wait_loop (re_pidfd e) timeout ?cap (re_rounds e) (buffer = None) ?r ?s")
    then obtain u where "v = Some u"
      using wait_loop_returns [OF assms(1,3), of ?cap "buffer = None" ?r ?s] by (cases v) simp_all
    with w drain_returns [OF assms(2), of ?cap "ps_output r1" "ps_truncated r1"] show ?thesis
      by (cases u) (auto simp: run_started_def Let_def)
  qed
  then show ?thesis
    by (auto simp: run_process_def Let_def split: option.splits sum.splits prod.splits)
qed

text \<open>
  As long as the child writes without a pause, a drain does not end, so neither the timeout nor the
  cancel flag is looked at.
\<close>

theorem busy_child_starves_timeout:
  "\<forall>ev \<in> set es. \<exists>bs. ev = Data bs \<and> bs \<noteq> [] \<Longrightarrow> drain_output cap es out truncated = None"
proof (induction cap es out truncated rule: drain_output.induct)
  case (2 cap bs es out truncated)
  let ?a = "if length out < cap then min (cap - length out) discard_size else discard_size"
  let ?rest = "if length bs \<le> ?a then es else Data (drop ?a bs) # es"
  have bs: "bs \<noteq> []" and rest: "\<forall>ev \<in> set ?rest. \<exists>bs. ev = Data bs \<and> bs \<noteq> []" using 2(3) by auto
  show ?case
  proof (cases "length out < cap")
    case True
    from 2(1) [OF refl refl bs True rest] show ?thesis
      unfolding drain_output.simps(2) Let_def by (simp only: bs True if_True if_False simp_thms)
  next
    case full: False
    from 2(2) [OF refl refl bs full rest] show ?thesis
      unfolding drain_output.simps(2) Let_def by (simp only: bs full if_True if_False simp_thms)
  qed
qed auto

section \<open>A sample run\<close>

text \<open>The child writes five bytes into a buffer of four, and is ended at its timeout of a millisecond.\<close>

definition sample_round :: "int \<Rightarrow> read_event list \<Rightarrow> wait_round" where
  "sample_round elapsed reads = \<lparr>wr_reads = reads, wr_poll = Pid_idle, wr_wait = Not_yet, wr_cancelled = False,
     wr_elapsed = elapsed, wr_signals = (True, True, True), wr_grace = Not_yet, wr_final = Status (Signaled 9)\<rparr>"

definition sample_env :: run_env where
  "sample_env = \<lparr>re_socketpair = True, re_pipe = True, re_fork = Some 77, re_setpgid = True, re_nonblock = True,
     re_reaped = True, re_send = True, re_pidfd = True,
     re_rounds = [sample_round 500000 [Data [1, 2, 3], Interrupted, Would_block],
                  sample_round 1000000 [Data [4, 5], Would_block]],
     re_last_reads = [End_of_stream]\<rparr>"






lemma run_returns_witness: "fst (run_process [''sleep''] 1 False None (Some 4) sample_env ()) \<noteq> None"
  by (rule run_returns) (auto simp: sample_env_def sample_round_def ends_drain_def decisive_def)

end
