(* ===== verification/Cgroup_Manager.thy ===== *)
theory Cgroup_Manager
  imports Agent_Types Text_IO
begin

text \<open>
  The control groups of agents (\<^verbatim>\<open>agent-runtime/src/cgroup_manager.cpp\<close>). The group file system keeps the
  directories that exist and the last value of each control file. A call meets the next fault of a
  list; a value is written when the stream is destroyed, after its state has been tested, so a
  value that the kernel refuses (\<open>Write_refused\<close>) goes unnoticed.
\<close>

section \<open>The file system\<close>

datatype fs_fault = No_fault | Open_fails string | Write_refused

record cgroup_fs =
  cf_mounted :: bool
  cf_controllers :: string
  cf_has_kill :: bool
  cf_dirs :: "string list"
  cf_files :: "string \<Rightarrow> string option"
  cf_faults :: "fs_fault list"

definition next_fault :: "cgroup_fs \<Rightarrow> fs_fault \<times> cgroup_fs" where
  "next_fault fs = (case cf_faults fs of [] \<Rightarrow> (No_fault, fs) | f # rest \<Rightarrow> (f, fs\<lparr>cf_faults := rest\<rparr>))"

text \<open>Creating or removing a directory; the text is that of the error code.\<close>

definition make_dir :: "string \<Rightarrow> cgroup_fs \<Rightarrow> (string + unit) \<times> cgroup_fs" where
  "make_dir path fs =
     (case next_fault fs of
        (Open_fails e, fs) \<Rightarrow> (Inl e, fs)
      | (_, fs) \<Rightarrow> (Inr (), fs\<lparr>cf_dirs := List.insert path (cf_dirs fs)\<rparr>))"

definition remove_dir :: "string \<Rightarrow> cgroup_fs \<Rightarrow> (string + bool) \<times> cgroup_fs" where
  "remove_dir path fs =
     (case next_fault fs of
        (Open_fails e, fs) \<Rightarrow> (Inl e, fs)
      | (_, fs) \<Rightarrow> (Inr (path \<in> set (cf_dirs fs)), fs\<lparr>cf_dirs := removeAll path (cf_dirs fs)\<rparr>))"

definition write_value :: "string \<Rightarrow> string \<Rightarrow> cgroup_fs \<Rightarrow> (string + unit) \<times> cgroup_fs" where
  "write_value path v fs =
     (case next_fault fs of
        (Open_fails e, fs) \<Rightarrow> (Inl (''cannot write '' @ path), fs)
      | (Write_refused, fs) \<Rightarrow> (Inr (), fs)
      | (No_fault, fs) \<Rightarrow> (Inr (), fs\<lparr>cf_files := (cf_files fs)(path \<mapsto> v)\<rparr>))"

section \<open>Operations\<close>

record cgroup_limits =
  cl_cpu_weight :: u32
  cl_cpu_quota_us :: u64
  cl_cpu_period_us :: u64
  cl_memory_max_bytes :: u64
  cl_pids_max :: u32

definition default_limits :: cgroup_limits where
  "default_limits = \<lparr>cl_cpu_weight = 100, cl_cpu_quota_us = 0, cl_cpu_period_us = 100000,
     cl_memory_max_bytes = 0, cl_pids_max = 32\<rparr>"

text \<open>The words of a text, as \<^verbatim>\<open>>>\<close> reads them one after the other.\<close>

fun words_fuel :: "nat \<Rightarrow> string \<Rightarrow> string list" where
  "words_fuel 0 cs = []"
| "words_fuel (Suc n) cs = (case read_token cs of None \<Rightarrow> [] | Some (w, rest) \<Rightarrow> w # words_fuel n rest)"

definition words_of :: "string \<Rightarrow> string list" where
  "words_of cs = words_fuel (length cs) cs"

definition cgroup_initialize :: "string \<Rightarrow> cgroup_fs \<Rightarrow> (string + unit) \<times> cgroup_fs" where
  "cgroup_initialize root fs =
     (if \<not> cf_mounted fs then (Inl ''cgroup v2 is not mounted'', fs)
      else case make_dir root fs of
        (Inl e, fs) \<Rightarrow> (Inl (''cannot create cgroup root '' @ root @ '': '' @ e), fs)
      | (Inr _, fs) \<Rightarrow>
          (case List.find (\<lambda>r. r \<notin> set (words_of (cf_controllers fs))) [''cpu'', ''memory'', ''pids''] of
             Some r \<Rightarrow> (Inl (''cgroup controller is not delegated: '' @ r), fs)
           | None \<Rightarrow> write_value (path_join root ''cgroup.subtree_control'') ''+cpu +memory +pids'' fs))"

definition group_path :: "string \<Rightarrow> agent_id \<Rightarrow> string" where
  "group_path root a = path_join root (''agent-'' @ u64_to_string a)"

definition cpu_weight :: "cgroup_limits \<Rightarrow> u32" where
  "cpu_weight l = (if cl_cpu_weight l < 1 then 1 else if cl_cpu_weight l > 10000 then 10000 else cl_cpu_weight l)"

text \<open>The control files of a group and what is written to them, in order.\<close>

definition limit_files :: "string \<Rightarrow> cgroup_limits \<Rightarrow> (string \<times> string) list" where
  "limit_files path l =
     [(path_join path ''cpu.weight'', nat_to_string (unat (cpu_weight l))),
      (path_join path ''cpu.max'',
       (if cl_cpu_quota_us l = 0 then ''max '' else u64_to_string (cl_cpu_quota_us l) @ '' '') @
         u64_to_string (cl_cpu_period_us l)),
      (path_join path ''memory.max'',
       if cl_memory_max_bytes l = 0 then ''max'' else u64_to_string (cl_memory_max_bytes l)),
      (path_join path ''pids.max'', nat_to_string (unat (cl_pids_max l)))]"

fun write_or_cleanup :: "string \<Rightarrow> (string \<times> string) list \<Rightarrow> cgroup_fs \<Rightarrow> (string + unit) \<times> cgroup_fs" where
  "write_or_cleanup path [] fs = (Inr (), fs)"
| "write_or_cleanup path ((file, v) # xs) fs =
     (case write_value file v fs of
        (Inl e, fs) \<Rightarrow> (Inl e, snd (remove_dir path fs))
      | (Inr _, fs) \<Rightarrow> write_or_cleanup path xs fs)"

definition create_agent_group :: "string \<Rightarrow> agent_id \<Rightarrow> cgroup_limits \<Rightarrow> cgroup_fs \<Rightarrow> (string + unit) \<times> cgroup_fs" where
  "create_agent_group root a l fs =
     (let path = group_path root a
      in if path \<in> set (cf_dirs fs) then (Inl (''cgroup already exists: '' @ path), fs)
         else case make_dir path fs of
           (Inl e, fs) \<Rightarrow> (Inl (''cannot create '' @ path), fs)
         | (Inr _, fs) \<Rightarrow> write_or_cleanup path (limit_files path l) fs)"

definition attach :: "string \<Rightarrow> agent_id \<Rightarrow> i64 \<Rightarrow> cgroup_fs \<Rightarrow> (string + unit) \<times> cgroup_fs" where
  "attach root a pid =
     write_value (path_join (group_path root a) ''cgroup.procs'') (int_to_string (sint pid))"

definition freeze :: "string \<Rightarrow> agent_id \<Rightarrow> bool \<Rightarrow> cgroup_fs \<Rightarrow> (string + unit) \<times> cgroup_fs" where
  "freeze root a frozen =
     write_value (path_join (group_path root a) ''cgroup.freeze'') (if frozen then ''1'' else ''0'')"

text \<open>
  \<open>procs\<close> are the numbers that are read from \<^verbatim>\<open>cgroup.procs\<close> and whether the end of the file was
  reached; the processes that are killed are returned.
\<close>

definition kill_all :: "string \<Rightarrow> agent_id \<Rightarrow> int list \<times> bool \<Rightarrow> cgroup_fs \<Rightarrow> (string + unit) \<times> int list \<times> cgroup_fs" where
  "kill_all root a procs fs =
     (if cf_has_kill fs \<and> group_path root a \<in> set (cf_dirs fs)
      then (case write_value (path_join (group_path root a) ''cgroup.kill'') ''1'' fs of (r, fs) \<Rightarrow> (r, [], fs))
      else (if snd procs then Inr () else Inl ''cannot read cgroup.procs'', filter (\<lambda>p. p > 0) (fst procs), fs))"

definition remove_agent_group :: "string \<Rightarrow> agent_id \<Rightarrow> cgroup_fs \<Rightarrow> (string + unit) \<times> cgroup_fs" where
  "remove_agent_group root a fs =
     (case remove_dir (group_path root a) fs of
        (Inr True, fs) \<Rightarrow> (Inr (), fs)
      | (_, fs) \<Rightarrow> (Inl (''cannot remove cgroup for agent '' @ u64_to_string a), fs))"

section \<open>Creating a group\<close>

lemma next_fault_cases:
  obtains (none) "next_fault fs = (No_fault, fs)"
  | (fault) f rest where "next_fault fs = (f, fs\<lparr>cf_faults := rest\<rparr>)" "cf_faults fs = f # rest"
  by (cases "cf_faults fs") (auto simp: next_fault_def)

lemma write_value_spec:
  assumes "write_value path v fs = (r, fs')"
  shows "cf_dirs fs' = cf_dirs fs \<and> set (cf_faults fs') \<subseteq> set (cf_faults fs) \<and>
    (r = Inr () \<longrightarrow> Write_refused \<notin> set (cf_faults fs) \<longrightarrow> cf_files fs' = (cf_files fs)(path \<mapsto> v))"
  using assms by (cases fs rule: next_fault_cases) (auto simp: write_value_def split: fs_fault.splits)

lemma write_or_cleanup_spec:
  "write_or_cleanup path xs fs = (r, fs') \<Longrightarrow>
   r = Inr () \<and> cf_dirs fs' = cf_dirs fs \<and>
     (Write_refused \<notin> set (cf_faults fs) \<longrightarrow> cf_files fs' = map_upds (cf_files fs) (map fst xs) (map snd xs)) \<or>
   (\<exists>e. r = Inl e \<and> (cf_dirs fs' = removeAll path (cf_dirs fs) \<or> (\<exists>e. Open_fails e \<in> set (cf_faults fs) \<and> cf_dirs fs' = cf_dirs fs)))"
proof (induction path xs fs rule: write_or_cleanup.induct)
  case (2 path f v xs fs)
  obtain r1 fs1 where w: "write_value f v fs = (r1, fs1)" by fastforce
  note w' = write_value_spec [OF w]
  show ?case
  proof (cases r1)
    case (Inl e)
    have "cf_dirs (snd (remove_dir path fs1)) = removeAll path (cf_dirs fs1) \<or>
        (\<exists>e. Open_fails e \<in> set (cf_faults fs1) \<and> cf_dirs (snd (remove_dir path fs1)) = cf_dirs fs1)"
      by (cases fs1 rule: next_fault_cases) (auto simp: remove_dir_def split: fs_fault.splits)
    moreover have "r = Inl e" "fs' = snd (remove_dir path fs1)" using 2(2) w Inl by auto
    ultimately show ?thesis using w' by auto
  next
    case (Inr u)
    with 2(2) w have "write_or_cleanup path xs fs1 = (r, fs')" by simp
    from 2(1) [OF w [symmetric] Inr this] show ?thesis
    proof (elim disjE exE conjE)
      assume "r = Inr ()" "cf_dirs fs' = cf_dirs fs1"
        "Write_refused \<notin> set (cf_faults fs1) \<longrightarrow> cf_files fs' = map_upds (cf_files fs1) (map fst xs) (map snd xs)"
      with w' Inr show ?thesis by (intro disjI1) auto
    next
      fix e assume "r = Inl e" "cf_dirs fs' = removeAll path (cf_dirs fs1)"
      with w' show ?thesis by simp
    next
      fix e e' assume "r = Inl e" "Open_fails e' \<in> set (cf_faults fs1)" "cf_dirs fs' = cf_dirs fs1"
      with w' show ?thesis by auto
    qed
  qed
qed (auto)

text \<open>
  A group that is created has exactly the four limits, if no write is refused, with the weight inside
  its range; a failed creation leaves no group, if it can be removed.
\<close>

lemma create_agent_group_exact:
  assumes "create_agent_group root a l fs = (r, fs')"
  shows "r = Inr () \<and> set (cf_dirs fs') = insert (group_path root a) (set (cf_dirs fs)) \<and>
      (Write_refused \<notin> set (cf_faults fs) \<longrightarrow>
        cf_files fs' = map_upds (cf_files fs) (map fst (limit_files (group_path root a) l))
          (map snd (limit_files (group_path root a) l))) \<or>
    (\<exists>e. r = Inl e \<and> (set (cf_dirs fs') = set (cf_dirs fs) \<or> (\<exists>e. Open_fails e \<in> set (cf_faults fs))))"
proof (cases "group_path root a \<in> set (cf_dirs fs)")
  case True
  with assms show ?thesis by (auto simp: create_agent_group_def)
next
  case False
  let ?p = "group_path root a"
  obtain r1 fs1 where m: "make_dir ?p fs = (r1, fs1)" by fastforce
  have m': "set (cf_faults fs1) \<subseteq> set (cf_faults fs) \<and> cf_files fs1 = cf_files fs \<and>
    (case r1 of Inl e \<Rightarrow> cf_dirs fs1 = cf_dirs fs | Inr _ \<Rightarrow> cf_dirs fs1 = ?p # cf_dirs fs)"
    using m False by (cases fs rule: next_fault_cases) (auto simp: make_dir_def split: fs_fault.splits)
  show ?thesis
  proof (cases r1)
    case (Inl e)
    with assms False m m' show ?thesis by (auto simp: create_agent_group_def Let_def)
  next
    case (Inr u)
    with assms False m have "write_or_cleanup ?p (limit_files ?p l) fs1 = (r, fs')"
      by (simp add: create_agent_group_def Let_def)
    from write_or_cleanup_spec [OF this] m' Inr False show ?thesis by fastforce
  qed
qed

text \<open>
  A refused limit is reported as success: the group exists, no limit has been written, and the agent
  is started in it.
\<close>

theorem refused_limits_unnoticed:
  assumes "group_path root a \<notin> set (cf_dirs fs)"
    and "cf_faults fs = [No_fault, Write_refused, Write_refused, Write_refused, Write_refused]"
  shows "\<exists>fs'. create_agent_group root a l fs = (Inr (), fs') \<and> cf_files fs' = cf_files fs"
  using assms
  by (simp add: create_agent_group_def make_dir_def next_fault_def Let_def limit_files_def write_value_def)

end
