(* ===== verification/Agent_Runtime.thy ===== *)
theory Agent_Runtime
  imports Scheduler_Careful Invocation_Channel Process_Executor Cgroup_Manager Shared_Memory_Steps
begin

text \<open>
  The runtime that executes agents (\<^verbatim>\<open>agent-runtime/src/runtime.cpp\<close>): it owns the scheduler, the result
  store, the control groups and the cancel tokens, and its workers dispatch agents and run their
  command, handler or invocation. A call of the scheduler or the store is atomic (each has its own
  mutex); what a worker does between two such points is one function, and the points at which
  others can come between are the program counter of a worker. What the operating system and the
  service answer is an argument of the function.
\<close>

section \<open>State\<close>

record execution_result =
  er_success :: bool
  er_message :: string
  er_output :: region
  er_output_length :: u64
  er_output_type :: u32
  er_output_flags :: u32

definition default_execution_result :: execution_result where
  "default_execution_result = \<lparr>er_success = True, er_message = [], er_output = empty_region,
     er_output_length = 0, er_output_type = data_binary, er_output_flags = shared_buffer_none\<rparr>"

text \<open>\<^verbatim>\<open>return {false, message}\<close>.\<close>

definition failure :: "string \<Rightarrow> execution_result" where
  "failure msg = default_execution_result\<lparr>er_success := False, er_message := msg\<rparr>"

text \<open>A handler raises an exception, with a text or without one, or returns a result.\<close>

type_synonym agent_handler = "agent_snapshot \<Rightarrow> kernel \<Rightarrow> (string option + execution_result) \<times> kernel"

record runtime_config =
  rc_worker_count :: nat
  rc_enable_cgroups :: bool
  rc_cgroup_root :: string
  rc_max_output :: u64
  rc_socket :: string

text \<open>
  Where a worker stands: at the head of its loop, waiting in the scheduler, with the agent it got,
  inside one of the three kinds of execution, with the result, or returned.
\<close>

datatype worker =
    At_loop
  | Waiting
  | Picked agent_id
  | In_command agent_snapshot region bool process_result
  | In_handler agent_snapshot agent_handler
  | Marked agent_snapshot
  | In_call agent_snapshot invocation_request "result_handle list"
  | Finished agent_id execution_result
  | Returned

record runtime =
  rt_config :: runtime_config
  rt_scheduler :: scheduler
  rt_store :: result_store
  rt_cgroups :: cgroup_fs
  rt_handlers :: "(string \<times> agent_handler) list"
  rt_tokens :: "(agent_id \<times> bool) list"
  rt_workers :: "worker list"
  rt_active :: nat
  rt_running :: bool
  rt_cancel :: bool
  rt_kernel :: kernel

definition new_runtime :: "runtime_config \<Rightarrow> cgroup_fs \<Rightarrow> kernel \<Rightarrow> runtime" where
  "new_runtime c fs k =
     \<lparr>rt_config = (if rc_worker_count c = 0 then c\<lparr>rc_worker_count := 1\<rparr> else c),
      rt_scheduler = empty_scheduler, rt_store = [], rt_cgroups = fs, rt_handlers = [], rt_tokens = [],
      rt_workers = [], rt_active = 0, rt_running = False, rt_cancel = False, rt_kernel = k\<rparr>"

text \<open>A call of the scheduler.\<close>

definition on_scheduler :: "(scheduler \<Rightarrow> 'a \<times> scheduler) \<Rightarrow> runtime \<Rightarrow> 'a \<times> runtime" where
  "on_scheduler f rt = (case f (rt_scheduler rt) of (r, s) \<Rightarrow> (r, rt\<lparr>rt_scheduler := s\<rparr>))"

abbreviation task_id :: "agent_snapshot \<Rightarrow> agent_id" where
  "task_id sn \<equiv> ts_id (as_spec sn)"

section \<open>The interface\<close>

definition register_handler :: "string \<Rightarrow> agent_handler \<Rightarrow> runtime \<Rightarrow> runtime" where
  "register_handler kind h rt = rt\<lparr>rt_handlers := AList.update kind h (rt_handlers rt)\<rparr>"

text \<open>\<open>threads\<close> tells whether the threads could be created; those that were are joined again.\<close>

definition runtime_start :: "string option \<Rightarrow> runtime \<Rightarrow> (string + unit) \<times> runtime" where
  "runtime_start threads rt =
     (if rt_running rt then (Inl ''runtime is already running'', rt)
      else let rt = rt\<lparr>rt_running := True\<rparr>
      in case (if rc_enable_cgroups (rt_config rt)
               then cgroup_initialize (rc_cgroup_root (rt_config rt)) (rt_cgroups rt)
               else (Inr (), rt_cgroups rt)) of
        (Inl e, fs) \<Rightarrow> (Inl e, rt\<lparr>rt_cgroups := fs, rt_running := False\<rparr>)
      | (Inr _, fs) \<Rightarrow>
          let rt = rt\<lparr>rt_cgroups := fs, rt_cancel := False\<rparr>
          in (case threads of
                None \<Rightarrow> (Inr (), rt\<lparr>rt_workers := replicate (rc_worker_count (rt_config rt)) At_loop\<rparr>)
              | Some what \<Rightarrow> (Inl what, rt\<lparr>rt_running := False, rt_cancel := True\<rparr>)))"

text \<open>\<^verbatim>\<open>stop\<close> up to the joins, and after them, when every worker has returned.\<close>

definition stop_request :: "runtime \<Rightarrow> runtime" where
  "stop_request rt =
     (if rt_running rt
      then rt\<lparr>rt_running := False, rt_cancel := True, rt_tokens := map (\<lambda>(a, _). (a, True)) (rt_tokens rt)\<rparr>
      else rt)"

definition stop_joined :: "runtime \<Rightarrow> runtime" where
  "stop_joined rt = rt\<lparr>rt_workers := []\<rparr>"

definition runtime_submit :: "nat \<Rightarrow> agent_task_spec \<Rightarrow> runtime \<Rightarrow> (string + unit) \<times> runtime" where
  "runtime_submit now t = on_scheduler (submit now t)"

definition runtime_submit_batch :: "nat \<Rightarrow> agent_task_spec list \<Rightarrow> runtime \<Rightarrow> (string + unit) \<times> runtime" where
  "runtime_submit_batch now ts = on_scheduler (submit_batch now ts)"

definition runtime_cancel :: "nat \<Rightarrow> agent_id \<Rightarrow> runtime \<Rightarrow> (string + unit) \<times> runtime" where
  "runtime_cancel now a rt =
     on_scheduler (cancel now a) (rt\<lparr>rt_tokens := AList.map_entry a (\<lambda>_. True) (rt_tokens rt)\<rparr>)"

text \<open>What \<^verbatim>\<open>wait_until_idle\<close> asks in each round.\<close>

definition is_idle :: "runtime \<Rightarrow> bool" where
  "is_idle rt \<longleftrightarrow> all_terminal (rt_scheduler rt) \<and> rt_active rt = 0"

text \<open>The rounds: the states in which it asks, and whether the deadline had passed after the pause.\<close>

fun wait_until_idle :: "(runtime \<times> bool) list \<Rightarrow> runtime \<Rightarrow> bool option" where
  "wait_until_idle [] end_state = None"
| "wait_until_idle ((rt, passed) # rounds) end_state =
     (if is_idle rt then Some True else if passed then Some (is_idle end_state)
      else wait_until_idle rounds end_state)"

definition runtime_result :: "agent_id \<Rightarrow> runtime \<Rightarrow> (string + result_handle) \<times> runtime" where
  "runtime_result a rt =
     (case acquire_result a (rt_store rt) (rt_kernel rt) of (r, k) \<Rightarrow> (r, rt\<lparr>rt_kernel := k\<rparr>))"

definition release_result :: "agent_id \<Rightarrow> runtime \<Rightarrow> (string + unit) \<times> runtime" where
  "release_result a rt =
     (case erase_result a (rt_store rt) (rt_kernel rt) of (found, st, k) \<Rightarrow>
        (if found then Inr () else Inl ''agent result is not available'', rt\<lparr>rt_store := st, rt_kernel := k\<rparr>))"

section \<open>The pieces of an execution\<close>

definition add_token :: "agent_id \<Rightarrow> runtime \<Rightarrow> runtime" where
  "add_token a rt = rt\<lparr>rt_tokens := AList.update a (rt_cancel rt) (rt_tokens rt)\<rparr>"

definition remove_token :: "agent_id \<Rightarrow> runtime \<Rightarrow> runtime" where
  "remove_token a rt = rt\<lparr>rt_tokens := AList.delete a (rt_tokens rt)\<rparr>"

definition token_set :: "agent_id \<Rightarrow> runtime \<Rightarrow> bool" where
  "token_set a rt \<longleftrightarrow> map_of (rt_tokens rt) a = Some True"

definition drop_region :: "region \<Rightarrow> runtime \<Rightarrow> runtime" where
  "drop_region r rt = rt\<lparr>rt_kernel := region_reset r (rt_kernel rt)\<rparr>"

definition drop_handles :: "result_handle list \<Rightarrow> runtime \<Rightarrow> runtime" where
  "drop_handles hs rt = rt\<lparr>rt_kernel := fold handle_destroy hs (rt_kernel rt)\<rparr>"

definition publish_result :: "agent_id \<Rightarrow> region \<Rightarrow> u64 \<Rightarrow> u32 \<Rightarrow> u32 \<Rightarrow> runtime \<Rightarrow> (string + unit) \<times> runtime" where
  "publish_result a r len ty flags rt =
     (case publish a r len ty flags (rt_store rt) (rt_kernel rt) of (res, st, k) \<Rightarrow>
        (res, rt\<lparr>rt_store := st, rt_kernel := k\<rparr>))"

text \<open>The length and flags that are published when the configured limit cuts the output.\<close>

definition limit_output :: "runtime_config \<Rightarrow> u64 \<Rightarrow> u32 \<Rightarrow> u64 \<times> u32" where
  "limit_output c len flags =
     (if rc_max_output c > 0 \<and> len > rc_max_output c then (rc_max_output c, flags OR shared_buffer_truncated)
      else (len, flags))"

section \<open>Commands\<close>

definition command_limits :: "agent_snapshot \<Rightarrow> cgroup_limits" where
  "command_limits sn = default_limits
     \<lparr>cl_cpu_quota_us := ucast (rr_cpu_threads (ts_resources (as_spec sn))) * cl_cpu_period_us default_limits,
      cl_memory_max_bytes := rr_memory_bytes (ts_resources (as_spec sn))\<rparr>"

text \<open>The callback that admits the process once it exists.\<close>

definition admit_process :: "nat \<Rightarrow> agent_id \<Rightarrow> bool \<Rightarrow> i64 \<Rightarrow> runtime \<Rightarrow> (string + unit) \<times> runtime" where
  "admit_process now a grouped pid rt =
     (case (if grouped then attach (rc_cgroup_root (rt_config rt)) a pid (rt_cgroups rt)
            else (Inr (), rt_cgroups rt)) of
        (Inl e, fs) \<Rightarrow> (Inl e, rt\<lparr>rt_cgroups := fs\<rparr>)
      | (Inr _, fs) \<Rightarrow> on_scheduler (mark_running now a pid) (rt\<lparr>rt_cgroups := fs\<rparr>))"

text \<open>The control group of the agent, if they are used.\<close>

definition command_group :: "agent_snapshot \<Rightarrow> runtime \<Rightarrow> (string + bool) \<times> runtime" where
  "command_group sn rt =
     (if rc_enable_cgroups (rt_config rt)
      then (case create_agent_group (rc_cgroup_root (rt_config rt)) (task_id sn) (command_limits sn) (rt_cgroups rt) of
              (Inl e, fs) \<Rightarrow> (Inl e, rt\<lparr>rt_cgroups := fs\<rparr>)
            | (Inr _, fs) \<Rightarrow> (Inr True, rt\<lparr>rt_cgroups := fs\<rparr>))
      else (Inr False, rt))"

definition command_region :: "runtime \<Rightarrow> (string + region) \<times> runtime" where
  "command_region rt =
     (if rc_max_output (rt_config rt) > 0
      then (case region_create (rc_max_output (rt_config rt)) (rt_kernel rt) of
              (r, k) \<Rightarrow> (r, rt\<lparr>rt_kernel := k\<rparr>))
      else (Inr empty_region, rt))"

text \<open>
  Up to the end of the process: the region, the token, the group and the run, whose callback admits
  the process. \<open>None\<close>: the run has not returned.
\<close>

definition command_begin :: "nat \<Rightarrow> run_env \<Rightarrow> agent_snapshot \<Rightarrow> runtime \<Rightarrow> worker option \<times> runtime" where
  "command_begin now e sn rt =
     (let a = task_id sn in
      case command_region rt of
        (Inl err, rt) \<Rightarrow> (Some (Finished a (failure err)), rt)
      | (Inr region, rt) \<Rightarrow>
      (case command_group sn (add_token a rt) of
        (Inl err, rt) \<Rightarrow> (Some (Finished a (failure err)), drop_region region (remove_token a rt))
      | (Inr grouped, rt) \<Rightarrow>
      (case run_process (ts_command (as_spec sn)) (sint (rr_timeout (ts_resources (as_spec sn)))) (token_set a rt)
              (Some (admit_process now a grouped))
              (if region_valid region then Some (unat (rg_size region)) else None) e rt of
        (None, rt) \<Rightarrow> (None, rt)
      | (Some (p, _), rt) \<Rightarrow> (Some (In_command sn region grouped p), rt))))"

definition command_failure :: "process_result \<Rightarrow> string option" where
  "command_failure p =
     (if \<not> ps_started p then Some (ps_error p)
      else if ps_timed_out p then Some ''agent process timed out''
      else if ps_exit_code p \<noteq> 0
      then Some (''agent process exited with code '' @ int_to_string (ps_exit_code p))
      else None)"

definition command_flags :: "process_result \<Rightarrow> u32" where
  "command_flags p =
     (if ps_truncated p then shared_buffer_stdout_stderr OR shared_buffer_truncated else shared_buffer_stdout_stderr)"

text \<open>After the run: the group goes, the output is published, and the result is that of the process.\<close>

definition command_end :: "agent_snapshot \<Rightarrow> region \<Rightarrow> bool \<Rightarrow> process_result \<Rightarrow> runtime \<Rightarrow> execution_result \<times> runtime" where
  "command_end sn region grouped p rt =
     (let a = task_id sn; root = rc_cgroup_root (rt_config rt);
          rt = (if region_valid region then rt\<lparr>rt_kernel := write_bytes region 0 (ps_output p) (rt_kernel rt)\<rparr> else rt);
          rt = (if grouped
                then rt\<lparr>rt_cgroups := snd (remove_agent_group root a (snd (snd (kill_all root a ([], True) (rt_cgroups rt)))))\<rparr>
                else rt);
          rt = remove_token a rt;
          outcome = (case command_failure p of None \<Rightarrow> default_execution_result | Some e \<Rightarrow> failure e)
      in if ps_started p \<and> region_valid region
         then (case publish_result a region (of_nat (length (ps_output p))) data_text_utf8 (command_flags p) rt of
                 (Inl e, rt) \<Rightarrow> (failure e, rt)
               | (Inr _, rt) \<Rightarrow> (outcome, rt))
         else (outcome, drop_region region rt))"

section \<open>Handlers\<close>

definition handler_begin :: "nat \<Rightarrow> agent_snapshot \<Rightarrow> runtime \<Rightarrow> worker \<times> runtime" where
  "handler_begin now sn rt =
     (case map_of (rt_handlers rt) (ts_kind (as_spec sn)) of
        None \<Rightarrow> (Finished (task_id sn) (failure (''no handler registered for kind: '' @ ts_kind (as_spec sn))), rt)
      | Some h \<Rightarrow>
          (case on_scheduler (mark_running now (task_id sn) (- 1)) rt of
             (Inl e, rt) \<Rightarrow> (Finished (task_id sn) (failure e), rt)
           | (Inr _, rt) \<Rightarrow> (In_handler sn h, rt)))"

definition handler_end :: "agent_snapshot \<Rightarrow> agent_handler \<Rightarrow> runtime \<Rightarrow> execution_result \<times> runtime" where
  "handler_end sn h rt =
     (case h sn (rt_kernel rt) of
        (Inl (Some what), k) \<Rightarrow> (failure what, rt\<lparr>rt_kernel := k\<rparr>)
      | (Inl None, k) \<Rightarrow> (failure ''agent handler raised an unknown exception'', rt\<lparr>rt_kernel := k\<rparr>)
      | (Inr r, k) \<Rightarrow>
          let rt = rt\<lparr>rt_kernel := k\<rparr>
          in if region_valid (er_output r) then
               if er_output_length r > rg_size (er_output r)
               then (failure ''agent handler output exceeds its shared region'', drop_region (er_output r) rt)
               else (case limit_output (rt_config rt) (er_output_length r) (er_output_flags r) of (len, flags) \<Rightarrow>
                     case publish_result (task_id sn) (er_output r) len (er_output_type r) flags rt of
                       (Inl e, rt) \<Rightarrow> (failure e, rt)
                     | (Inr _, rt) \<Rightarrow> (r\<lparr>er_output := empty_region\<rparr>, rt))
             else if er_output_length r \<noteq> 0
             then (failure ''agent handler returned output without a region'', drop_region (er_output r) rt)
             else (r\<lparr>er_output := empty_region\<rparr>, drop_region (er_output r) rt))"

section \<open>Invocations\<close>

definition invocation_begin :: "nat \<Rightarrow> agent_snapshot \<Rightarrow> runtime \<Rightarrow> worker \<times> runtime" where
  "invocation_begin now sn rt =
     (if rc_socket (rt_config rt) = []
      then (Finished (task_id sn) (failure ''no model/tool invocation backend is configured''), rt)
      else case on_scheduler (mark_running now (task_id sn) (- 1)) rt of
             (Inl e, rt) \<Rightarrow> (Finished (task_id sn) (failure e), rt)
           | (Inr _, rt) \<Rightarrow> (Marked sn, rt))"

text \<open>The results of the dependencies that have one, with their producers.\<close>

fun acquire_inputs :: "agent_id list \<Rightarrow> runtime \<Rightarrow> (agent_id \<times> result_handle) list \<times> runtime" where
  "acquire_inputs [] rt = ([], rt)"
| "acquire_inputs (d # ds) rt =
     (case runtime_result d rt of
        (Inl _, rt) \<Rightarrow> acquire_inputs ds rt
      | (Inr h, rt) \<Rightarrow> (case acquire_inputs ds rt of (hs, rt) \<Rightarrow> ((d, h) # hs, rt)))"

definition build_request :: "agent_snapshot \<Rightarrow> invocation_spec \<Rightarrow> (agent_id \<times> result_handle) list \<Rightarrow> invocation_request" where
  "build_request sn v inputs =
     \<lparr>nq_agent_id = task_id sn, nq_parent_id = ts_parent_id (as_spec sn), nq_kind = iv_kind v,
      nq_target = iv_target v, nq_operation = iv_operation v, nq_payload = iv_payload v,
      nq_context_id = iv_context_id v, nq_priority = ts_priority (as_spec sn),
      nq_resources = ts_resources (as_spec sn),
      nq_inputs = map (\<lambda>(a, h). \<lparr>nx_producer_id = a, nx_reference = rh_reference h\<rparr>) inputs\<rparr>"

definition attachments_of :: "invocation_request \<Rightarrow> result_handle list \<Rightarrow> invocation_attachment list" where
  "attachments_of q hs =
     map (\<lambda>(x, h). \<lparr>at_producer_id = nx_producer_id x, at_reference = rh_reference h, at_descriptor = rh_descriptor h\<rparr>)
       (zip (nq_inputs q) hs)"

definition invocation_prepare :: "agent_snapshot \<Rightarrow> invocation_spec \<Rightarrow> runtime \<Rightarrow> worker \<times> runtime" where
  "invocation_prepare sn v rt =
     (case acquire_inputs (ts_dependencies (as_spec sn)) (add_token (task_id sn) rt) of (inputs, rt) \<Rightarrow>
        if length inputs > kMaxInvocationInputs
        then (Finished (task_id sn) (failure ''invocation has too many dependency results''),
              drop_handles (map snd inputs) (remove_token (task_id sn) rt))
        else (In_call sn (build_request sn v inputs) (map snd inputs), rt))"

text \<open>What the response does to the scheduler and the store.\<close>

definition bind_response :: "agent_id \<Rightarrow> invocation_response \<Rightarrow> runtime \<Rightarrow> runtime" where
  "bind_response a p rt =
     (let rt = (if sint (np_process_id p) \<ge> 0
                then snd (on_scheduler (bind_process a (np_process_id p)) rt) else rt)
      in if np_context_id p \<noteq> kInvalidContextId
         then snd (on_scheduler (bind_context a (np_context_id p)) rt) else rt)"

definition accept_output :: "agent_snapshot \<Rightarrow> call_result \<Rightarrow> runtime \<Rightarrow> execution_result \<times> runtime" where
  "accept_output sn c rt =
     (let p = cr_response c; success = default_execution_result\<lparr>er_message := np_message p\<rparr>
      in if np_output_available p \<and> br_offset (np_output p) \<noteq> 0
         then (failure ''invocation backend returned a non-zero output offset'', drop_region (cr_output c) rt)
         else if np_output_available p
         then (case limit_output (rt_config rt) (br_length (np_output p))
                      (br_flags (np_output p) AND NOT shared_buffer_immutable) of (len, flags) \<Rightarrow>
               case publish_result (task_id sn) (cr_output c) len (br_data_type (np_output p)) flags rt of
                 (Inl e, rt) \<Rightarrow> (failure e, rt)
               | (Inr _, rt) \<Rightarrow> (success, rt))
         else (success, rt))"

definition accept_call :: "agent_snapshot \<Rightarrow> call_result \<Rightarrow> runtime \<Rightarrow> execution_result \<times> runtime" where
  "accept_call sn c rt =
     (let a = task_id sn; p = cr_response c;
          rt = snd (on_scheduler (record_metrics a (np_metrics p)) rt)
      in if np_status p \<noteq> St_ok
         then (failure (if np_message p = [] then ''model/tool invocation failed'' else np_message p),
               drop_region (cr_output c) rt)
         else accept_output sn c (bind_response a p rt))"

text \<open>\<open>events\<close> and \<open>reply\<close> are what the client meets. \<open>None\<close>: the call has not returned.\<close>

definition invocation_end :: "poll_event list \<Rightarrow> message option \<Rightarrow> agent_snapshot \<Rightarrow> invocation_request \<Rightarrow>
    result_handle list \<Rightarrow> runtime \<Rightarrow> (execution_result \<times> runtime) option" where
  "invocation_end events reply sn q hs rt =
     (case invoke (rc_socket (rt_config rt)) q (attachments_of q hs) (rr_timeout (nq_resources q)) events reply
             (rt_kernel rt) of
        None \<Rightarrow> None
      | Some (_, res, k) \<Rightarrow>
          let rt = remove_token (task_id sn) (rt\<lparr>rt_kernel := k\<rparr>)
          in Some (case (case res of Inl e \<Rightarrow> (failure e, rt) | Inr c \<Rightarrow> accept_call sn c rt) of
                     (r, rt) \<Rightarrow> (r, drop_handles hs rt)))"

section \<open>The worker\<close>

text \<open>The beginning of \<^verbatim>\<open>execute\<close>: the previous result goes, and the kind of the agent decides.\<close>

definition execute_begin :: "nat \<Rightarrow> run_env \<Rightarrow> agent_snapshot \<Rightarrow> runtime \<Rightarrow> worker option \<times> runtime" where
  "execute_begin now e sn rt =
     (let rt = snd (release_result (task_id sn) rt)
      in if ts_invocation (as_spec sn) \<noteq> None
         then (case invocation_begin now sn rt of (w, rt) \<Rightarrow> (Some w, rt))
         else if ts_command (as_spec sn) \<noteq> [] then command_begin now e sn rt
         else (case handler_begin now sn rt of (w, rt) \<Rightarrow> (Some w, rt)))"

definition finish_agent :: "nat \<Rightarrow> agent_id \<Rightarrow> execution_result \<Rightarrow> runtime \<Rightarrow> runtime" where
  "finish_agent now a r rt =
     snd (on_scheduler (if er_success r then complete now a else fail now a (er_message r)) rt)
       \<lparr>rt_active := rt_active rt - 1\<rparr>"

end
