(* ===== verification/Runtime_Steps.thy ===== *)
theory Runtime_Steps
  imports Agent_Runtime
begin

text \<open>
  The steps of the runtime: those of its clients and those of its workers, in any order, and what
  they mean for the scheduler. A worker's loop is \<^verbatim>\<open>worker_loop\<close> of \<^verbatim>\<open>agent-runtime/src/runtime.cpp\<close>.
\<close>

section \<open>The step relation\<close>

abbreviation worker_at :: "runtime \<Rightarrow> nat \<Rightarrow> worker \<Rightarrow> bool" where
  "worker_at rt i w \<equiv> i < length (rt_workers rt) \<and> rt_workers rt ! i = w"

definition set_worker :: "nat \<Rightarrow> worker \<Rightarrow> runtime \<Rightarrow> runtime" where
  "set_worker i w rt = rt\<lparr>rt_workers := (rt_workers rt)[i := w]\<rparr>"

inductive runtime_step :: "runtime \<Rightarrow> runtime \<Rightarrow> bool" where
  submit: "runtime_submit_batch now ts rt = (r, rt') \<Longrightarrow> runtime_step rt rt'"
| spawn: "on_scheduler (spawn now p t) rt = (r, rt') \<Longrightarrow> runtime_step rt rt'"
| cancel: "runtime_cancel now a rt = (r, rt') \<Longrightarrow> runtime_step rt rt'"
| release: "release_result a rt = (r, rt') \<Longrightarrow> runtime_step rt rt'"
| handler: "runtime_step rt (register_handler kind h rt)"
| start: "rt_workers rt = [] \<Longrightarrow> runtime_start threads rt = (r, rt') \<Longrightarrow> runtime_step rt rt'"
| stop: "runtime_step rt (stop_request rt)"
| joined: "\<not> rt_running rt \<Longrightarrow> \<forall>w \<in> set (rt_workers rt). w = Returned \<Longrightarrow> runtime_step rt (stop_joined rt)"
| outside: "runtime_step rt (rt\<lparr>rt_kernel := k\<rparr>)"
| reorder: "runtime_step rt (rt\<lparr>rt_scheduler := run_op (Reorder ns rs) (rt_scheduler rt)\<rparr>)"
| leave: "worker_at rt i At_loop \<Longrightarrow> \<not> rt_running rt \<Longrightarrow> runtime_step rt (set_worker i Returned rt)"
| wait: "worker_at rt i At_loop \<Longrightarrow> rt_running rt \<Longrightarrow> runtime_step rt (set_worker i Waiting rt)"
| none: "worker_at rt i Waiting \<Longrightarrow> on_scheduler (try_dispatch m now) rt = (None, rt') \<Longrightarrow>
    runtime_step rt (set_worker i At_loop rt')"
| pick: "worker_at rt i Waiting \<Longrightarrow> on_scheduler (try_dispatch m now) rt = (Some a, rt') \<Longrightarrow>
    runtime_step rt (set_worker i (Picked a) rt')"
| abandon: "worker_at rt i (Picked a) \<Longrightarrow> \<not> rt_running rt \<Longrightarrow> runtime_step rt (set_worker i Returned rt)"
| vanished: "worker_at rt i (Picked a) \<Longrightarrow> rt_running rt \<Longrightarrow> snapshot a (rt_scheduler rt) = None \<Longrightarrow>
    runtime_step rt (set_worker i At_loop rt)"
| execute: "worker_at rt i (Picked a) \<Longrightarrow> rt_running rt \<Longrightarrow> snapshot a (rt_scheduler rt) = Some sn \<Longrightarrow>
    execute_begin now e sn (rt\<lparr>rt_active := rt_active rt + 1\<rparr>) = (Some w, rt') \<Longrightarrow>
    runtime_step rt (set_worker i w rt')"
| command: "worker_at rt i (In_command sn region grouped p) \<Longrightarrow> command_end sn region grouped p rt = (r, rt') \<Longrightarrow>
    runtime_step rt (set_worker i (Finished (task_id sn) r) rt')"
| handled: "worker_at rt i (In_handler sn h) \<Longrightarrow> handler_end sn h rt = (r, rt') \<Longrightarrow>
    runtime_step rt (set_worker i (Finished (task_id sn) r) rt')"
| prepare: "worker_at rt i (Marked sn) \<Longrightarrow> ts_invocation (as_spec sn) = Some v \<Longrightarrow>
    invocation_prepare sn v rt = (w, rt') \<Longrightarrow> runtime_step rt (set_worker i w rt')"
| call: "worker_at rt i (In_call sn q hs) \<Longrightarrow> invocation_end events reply sn q hs rt = Some (r, rt') \<Longrightarrow>
    runtime_step rt (set_worker i (Finished (task_id sn) r) rt')"
| finish: "worker_at rt i (Finished a r) \<Longrightarrow> runtime_step rt (set_worker i At_loop (finish_agent now a r rt))"

inductive runtime_reachable :: "runtime \<Rightarrow> bool" where
  init: "runtime_reachable (new_runtime c fs k)"
| step: "runtime_reachable rt \<Longrightarrow> runtime_step rt rt' \<Longrightarrow> runtime_reachable rt'"

section \<open>The scheduler of a runtime\<close>

inductive sched_runs :: "scheduler \<Rightarrow> scheduler \<Rightarrow> bool" where
  refl [simp, intro]: "sched_runs s s"
| more: "sched_runs s t \<Longrightarrow> sched_runs s (run_op op t)"



abbreviation schedules :: "runtime \<Rightarrow> runtime \<Rightarrow> bool" where
  "schedules rt rt' \<equiv> sched_runs (rt_scheduler rt) (rt_scheduler rt')"


text \<open>What the pieces of an execution leave alone.\<close>

definition quiet :: "runtime \<Rightarrow> runtime \<Rightarrow> bool" where
  "quiet rt rt' \<longleftrightarrow> schedules rt rt' \<and> rt_workers rt' = rt_workers rt \<and> rt_active rt' = rt_active rt \<and>
     rt_running rt' = rt_running rt \<and> rt_config rt' = rt_config rt"

lemma quiet_refl [simp]: "quiet rt rt"
  by (simp add: quiet_def)


lemma quiet_local [simp]:
  "quiet rt (rt1\<lparr>rt_store := st\<rparr>) = quiet rt rt1" "quiet rt (rt1\<lparr>rt_kernel := k\<rparr>) = quiet rt rt1"
  "quiet rt (rt1\<lparr>rt_cgroups := fs\<rparr>) = quiet rt rt1" "quiet rt (rt1\<lparr>rt_tokens := ts\<rparr>) = quiet rt rt1"
  "quiet rt (add_token a rt1) = quiet rt rt1" "quiet rt (remove_token a rt1) = quiet rt rt1"
  "quiet rt (drop_region r rt1) = quiet rt rt1" "quiet rt (drop_handles hs rt1) = quiet rt rt1"
  by (simp_all add: quiet_def add_token_def remove_token_def drop_region_def drop_handles_def)
























section \<open>The scheduler is driven by its own operations\<close>




section \<open>Idleness\<close>





lemma set_worker_fields [simp]:
  "rt_active (set_worker i w rt) = rt_active rt" "rt_scheduler (set_worker i w rt) = rt_scheduler rt"
  "rt_workers (set_worker i w rt) = (rt_workers rt)[i := w]" "rt_running (set_worker i w rt) = rt_running rt"
  by (simp_all add: set_worker_def)







section \<open>Sample runs\<close>

text \<open>One worker; agent 1 has a handler that fails, and may be retried once.\<close>

definition lone_config :: runtime_config where
  "lone_config = \<lparr>rc_worker_count = 1, rc_enable_cgroups = False, rc_cgroup_root = ''/g'', rc_max_output = 0, rc_socket = []\<rparr>"

definition lone_task :: agent_task_spec where
  "lone_task = default_task\<lparr>ts_id := 1, ts_name := ''a'', ts_kind := ''k'', ts_retry_limit := 1\<rparr>"

definition bad_handler :: agent_handler where
  "bad_handler sn k = (Inl (Some ''no''), k)"

definition no_groups :: cgroup_fs where
  "no_groups = \<lparr>cf_mounted = False, cf_controllers = [], cf_has_kill = False, cf_dirs = [], cf_files = (\<lambda>_. None), cf_faults = []\<rparr>"

definition bare_kernel :: kernel where
  "bare_kernel = \<lparr>k_open = [], k_files = [], k_next_file = 0, k_faults = [], k_pid = 9, k_next_region = 0\<rparr>"

definition s_submitted :: scheduler where "s_submitted = snd (submit_batch 0 [lone_task] empty_scheduler)"
definition s_picked :: scheduler where "s_picked = snd (try_dispatch one_cpu 0 s_submitted)"
definition s_marked :: scheduler where "s_marked = snd (mark_running 0 1 (- 1) s_picked)"
definition s_cancelled :: scheduler where "s_cancelled = snd (cancel 0 1 s_marked)"
definition s_failed :: scheduler where "s_failed = snd (fail 0 1 ''no'' s_cancelled)"

lemma lone_scheduler:
  "submit_batch 0 [lone_task] empty_scheduler = (Inr (), s_submitted)"
  "try_dispatch one_cpu 0 s_submitted = (Some 1, s_picked)"
  "mark_running 0 1 (- 1) s_picked = (Inr (), s_marked)"
  "cancel 0 1 s_marked = (Inr (), s_cancelled)"
  "fail 0 1 ''no'' s_cancelled = (Inr (), s_failed)"
  by (auto simp: prod_eq_iff s_submitted_def s_picked_def s_marked_def s_cancelled_def s_failed_def) (code_simp+)

lemma lone_states:
  "map_option nd_state (node_of s_picked 1) = Some Dispatched" "1 \<notin> set (sc_ready s_picked)"
  "map_option nd_state (node_of s_cancelled 1) = Some Cancelled"
  "map_option nd_state (node_of s_failed 1) = Some Ready" "1 \<in> set (sc_ready s_failed)"
  by code_simp+

definition lone_picked :: runtime where
  "lone_picked = (new_runtime lone_config no_groups bare_kernel)
     \<lparr>rt_scheduler := s_picked, rt_handlers := [(''k'', bad_handler)], rt_workers := [Picked 1], rt_running := True\<rparr>"

lemma lone_picked_reachable: "runtime_reachable lone_picked"
proof -
  let ?r0 = "new_runtime lone_config no_groups bare_kernel"
  let ?r1 = "?r0\<lparr>rt_scheduler := s_submitted\<rparr>"
  let ?r2 = "?r1\<lparr>rt_handlers := [(''k'', bad_handler)]\<rparr>"
  let ?r3 = "?r2\<lparr>rt_workers := [At_loop], rt_running := True\<rparr>"
  let ?r4 = "?r3\<lparr>rt_workers := [Waiting]\<rparr>"
  note ss = new_runtime_def lone_config_def
  have "runtime_submit_batch 0 [lone_task] ?r0 = (Inr (), ?r1)"
    by (simp add: runtime_submit_batch_def on_scheduler_def new_runtime_def lone_scheduler(1))
  then have a: "runtime_step ?r0 ?r1" by (rule runtime_step.submit)
  have b: "runtime_step ?r1 ?r2"
    using runtime_step.handler [of ?r1 "''k''" bad_handler] by (simp add: register_handler_def new_runtime_def)
  have "runtime_start None ?r2 = (Inr (), ?r3)" by (simp add: runtime_start_def ss Let_def)
  then have c: "runtime_step ?r2 ?r3" by (rule runtime_step.start [rotated]) (simp add: ss)
  have d: "runtime_step ?r3 ?r4" using runtime_step.wait [of 0 ?r3] by (simp add: set_worker_def)
  have "on_scheduler (try_dispatch one_cpu 0) ?r4 = (Some 1, ?r4\<lparr>rt_scheduler := s_picked\<rparr>)"
    by (simp add: on_scheduler_def lone_scheduler(2))
  from runtime_step.pick [OF _ this, of 0] have e: "runtime_step ?r4 lone_picked"
    by (simp add: set_worker_def lone_picked_def new_runtime_def)
  show ?thesis
    by (rule runtime_reachable.step [OF _ e], rule runtime_reachable.step [OF _ d], rule runtime_reachable.step [OF _ c],
      rule runtime_reachable.step [OF _ b], rule runtime_reachable.step [OF runtime_reachable.init a])
qed



text \<open>
  A stop can strand an agent: the worker that has just got it from the scheduler sees that the runtime
  is stopping and returns without giving it back. The agent stays dispatched, with its resources
  reserved, in no queue and with no worker, so no later start runs it.
\<close>

theorem stop_strands_agent:
  "\<exists>rt n. runtime_reachable rt \<and> rt_workers rt = [] \<and> \<not> rt_running rt \<and>
     node_of (rt_scheduler rt) 1 = Some n \<and> nd_state n = Dispatched \<and> 1 \<notin> set (sc_ready (rt_scheduler rt))"
proof -
  let ?r1 = "stop_request lone_picked"
  let ?r2 = "set_worker 0 Returned ?r1"
  have a: "runtime_step lone_picked ?r1" by (rule runtime_step.stop)
  have b: "runtime_step ?r1 ?r2"
    by (rule runtime_step.abandon [of _ _ 1]) (simp_all add: stop_request_def lone_picked_def)
  have c: "runtime_step ?r2 (stop_joined ?r2)"
    by (rule runtime_step.joined) (simp_all add: stop_request_def lone_picked_def)
  have "runtime_reachable (stop_joined ?r2)"
    by (rule runtime_reachable.step [OF _ c], rule runtime_reachable.step [OF _ b],
      rule runtime_reachable.step [OF lone_picked_reachable a])
  moreover obtain n where "node_of s_picked 1 = Some n" "nd_state n = Dispatched" using lone_states(1) by auto
  ultimately show ?thesis using lone_states(2)
    by (intro exI [of _ "stop_joined ?r2"] exI [of _ n]) (simp add: stop_joined_def stop_request_def lone_picked_def)
qed

text \<open>
  A cancellation can be undone: an agent that is cancelled while it is executed, and for which the
  cancellation reports success, becomes ready again when its worker reports the failure, as long
  as it has retries left, and is then executed once more.
\<close>

theorem cancelled_agent_runs_again:
  "\<exists>rt rt1 rt2. runtime_reachable rt \<and> runtime_cancel 0 1 rt = (Inr (), rt1) \<and>
     map_option nd_state (node_of (rt_scheduler rt1) 1) = Some Cancelled \<and> runtime_step\<^sup>*\<^sup>* rt1 rt2 \<and>
     map_option nd_state (node_of (rt_scheduler rt2) 1) = Some Ready \<and> 1 \<in> set (sc_ready (rt_scheduler rt2))"
proof -
  obtain n where n: "node_of s_picked 1 = Some n" using lone_states(1) by auto
  let ?sn = "nd_snapshot n"
  have spec: "as_spec ?sn = lone_task"
  proof -
    have "map_option (as_spec \<circ> nd_snapshot) (node_of s_picked 1) = Some lone_task" by code_simp
    with n show ?thesis by simp
  qed
  let ?r1 = "lone_picked\<lparr>rt_active := 1, rt_scheduler := s_marked, rt_workers := [In_handler ?sn bad_handler]\<rparr>"
  let ?r2 = "?r1\<lparr>rt_scheduler := s_cancelled\<rparr>"
  let ?r3 = "?r2\<lparr>rt_workers := [Finished 1 (failure ''no'')]\<rparr>"
  let ?r4 = "?r3\<lparr>rt_workers := [At_loop], rt_active := 0, rt_scheduler := s_failed\<rparr>"
  have "execute_begin 0 e ?sn (lone_picked\<lparr>rt_active := 1\<rparr>) =
      (Some (In_handler ?sn bad_handler), lone_picked\<lparr>rt_active := 1, rt_scheduler := s_marked\<rparr>)" for e
    by (simp add: execute_begin_def release_result_def erase_result_def lone_picked_def new_runtime_def spec
      lone_task_def default_task_def handler_begin_def on_scheduler_def lone_scheduler(3) Let_def)
  from runtime_step.execute [of 0 lone_picked 1 ?sn 0 undefined "In_handler ?sn bad_handler"] this n
  have a: "runtime_step lone_picked ?r1"
    by (simp add: lone_picked_def snapshot_def set_worker_def new_runtime_def)
  have b: "runtime_cancel 0 1 ?r1 = (Inr (), ?r2)"
    by (simp add: runtime_cancel_def on_scheduler_def lone_scheduler(4) lone_picked_def new_runtime_def)
  have c: "runtime_step ?r2 ?r3"
    using runtime_step.handled [of 0 ?r2 ?sn bad_handler "failure ''no''" ?r2]
    by (simp add: handler_end_def bad_handler_def set_worker_def spec lone_task_def default_task_def lone_picked_def)
  have d: "runtime_step ?r3 ?r4"
    using runtime_step.finish [of 0 ?r3 1 "failure ''no''" 0]
    by (simp add: finish_agent_def on_scheduler_def failure_def default_execution_result_def lone_scheduler(5)
      set_worker_def lone_picked_def new_runtime_def)
  show ?thesis
    using runtime_reachable.step [OF lone_picked_reachable a] b c d lone_states(3-5)
    by (intro exI [of _ ?r1] exI [of _ ?r2] exI [of _ ?r4]) (auto intro: rtranclp.rtrancl_into_rtrancl)
qed

end
