(* ===== verification/Control_Channel.thy ===== *)
theory Control_Channel
  imports Runtime_Steps Control_Protocol Local_Socket Invocation_Delivery
begin

text \<open>
  The control channel between \<^verbatim>\<open>agentctl\<close> and \<^verbatim>\<open>agentd\<close> (\<^verbatim>\<open>agent-runtime/src/control_channel.cpp\<close>): packets
  with at most one descriptor, the client's exchange and the fetching of a result, and the daemon,
  which owns the runtime and answers one client after the other. The kernel of the daemon's process
  is that of its runtime; what the peer sends is an argument.
\<close>

section \<open>Packets\<close>

definition send_control :: "u8 list \<Rightarrow> int \<Rightarrow> message sys" where
  "send_control packet fd k =
     (case sys_call (\<lambda>k.
          if fd \<ge> 0 \<and> file_of k fd = None then (Inl ''Bad file descriptor'', k)
          else (Inr \<lparr>ms_bytes = packet,
                  ms_headers = (if fd \<ge> 0 then [Rights [the (file_of k fd)] False] else []),
                  ms_cut = False\<rparr>, k)) k of
        (Inl e, k) \<Rightarrow> (Inl (system_error ''send'' e), k)
      | (Inr m, k) \<Rightarrow> (Inr m, k))"

text \<open>
  The loop over the control headers: of each only the first descriptor is looked at, which is kept
  if it is the first of all and closed otherwise.
\<close>

fun collect_one :: "(int list \<times> bool) option list \<Rightarrow> int \<Rightarrow> kernel \<Rightarrow> int \<times> kernel" where
  "collect_one [] fd k = (fd, k)"
| "collect_one (Some (d # ds, ragged) # xs) fd k =
     (if fd < 0 then collect_one xs d k else collect_one xs fd (sys_close d k))"
| "collect_one (_ # xs) fd k = collect_one xs fd k"

text \<open>The descriptor is returned with an error as well.\<close>

definition receive_control :: "message option \<Rightarrow> kernel \<Rightarrow> (string + u8 list) \<times> int \<times> kernel" where
  "receive_control msg k =
     (case sys_recv msg k of
        (Inl e, k) \<Rightarrow> (Inl (system_error ''recvmsg'' e), - 1, k)
      | (Inr None, k) \<Rightarrow> (Inl ''control peer closed the connection'', - 1, k)
      | (Inr (Some (m, xs)), k) \<Rightarrow>
          if ms_bytes m = [] then (Inl ''control peer closed the connection'', - 1, k)
          else (case collect_one xs (- 1) k of (fd, k) \<Rightarrow>
            (if length (ms_bytes m) > kMaxControlMessageSize then Inl ''control packet exceeds size limit''
             else if ms_cut m then Inl ''control descriptor was truncated''
             else Inr (ms_bytes m), fd, k)))"

definition close_if_open :: "int \<Rightarrow> kernel \<Rightarrow> kernel" where
  "close_if_open fd k = (if fd \<ge> 0 then sys_close fd k else k)"

section \<open>The client\<close>

definition default_control_path :: "string option \<Rightarrow> u64 \<Rightarrow> string" where
  "default_control_path runtime_directory uid =
     (case runtime_directory of
        Some d \<Rightarrow> if d \<noteq> [] then d @ ''/agentnucleus.sock''
                 else ''/tmp/agentnucleus-'' @ u64_to_string uid @ ''.sock''
      | None \<Rightarrow> ''/tmp/agentnucleus-'' @ u64_to_string uid @ ''.sock'')"

text \<open>
  \<open>reply\<close> is what the daemon sends. The result is the packet that was sent, if one was, the response
  and the descriptor that came with it.
\<close>

definition control_exchange ::
  "string \<Rightarrow> control_request \<Rightarrow> message option \<Rightarrow> kernel \<Rightarrow> message option \<times> (string + control_response \<times> int) \<times> kernel"
where
  "control_exchange path q reply k =
     (case encode_control_request q of
        Inl e \<Rightarrow> (None, Inl e, k)
      | Inr packet \<Rightarrow>
      (case sys_socket k of
        (Inl e, k) \<Rightarrow> (None, Inl (system_error ''socket'' e), k)
      | (Inr sd, k) \<Rightarrow>
      (case make_socket_address ''control socket path is empty or too long'' path of
        Inl e \<Rightarrow> (None, Inl e, sys_close sd k)
      | Inr _ \<Rightarrow>
      (case sys_call (\<lambda>k. (Inr (), k)) k of
        (Inl e, k) \<Rightarrow> (None, Inl (system_error ''connect'' e), sys_close sd k)
      | (Inr _, k) \<Rightarrow>
      (case send_control packet (- 1) k of
        (Inl e, k) \<Rightarrow> (None, Inl e, sys_close sd k)
      | (Inr m, k) \<Rightarrow>
      (case receive_control reply k of
        (Inl e, fd, k) \<Rightarrow> (Some m, Inl e, close_if_open fd (sys_close sd k))
      | (Inr bytes, fd, k) \<Rightarrow>
          (case decode_control_response bytes of
             Inl e \<Rightarrow> (Some m, Inl e, close_if_open fd (sys_close sd k))
           | Inr p \<Rightarrow> (Some m, Inr (p, fd), sys_close sd k))))))))"

text \<open>\<^verbatim>\<open>request\<close>: a descriptor that comes with the response is closed.\<close>

definition client_request ::
  "string \<Rightarrow> control_request \<Rightarrow> message option \<Rightarrow> kernel \<Rightarrow> message option \<times> (string + control_response) \<times> kernel"
where
  "client_request path q reply k =
     (case control_exchange path q reply k of
        (m, Inl e, k) \<Rightarrow> (m, Inl e, k)
      | (m, Inr (p, fd), k) \<Rightarrow> (m, Inr p, close_if_open fd k))"

record control_result =
  rx_reference :: shared_buffer_ref
  rx_region :: region

definition result_truncated :: "control_result \<Rightarrow> bool" where
  "result_truncated r \<longleftrightarrow> br_flags (rx_reference r) AND shared_buffer_truncated \<noteq> 0"

definition result_request :: "agent_id \<Rightarrow> control_request" where
  "result_request a = \<lparr>cq_operation = Op_result, cq_target_id = a, cq_task = default_task\<rparr>"

definition fetch_result ::
  "string \<Rightarrow> agent_id \<Rightarrow> message option \<Rightarrow> kernel \<Rightarrow> message option \<times> (string + control_result) \<times> kernel"
where
  "fetch_result path a reply k =
     (if a = kInvalidAgentId then (None, Inl ''invalid result request'', k)
      else case control_exchange path (result_request a) reply k of
        (m, Inl e, k) \<Rightarrow> (m, Inl e, k)
      | (m, Inr (p, fd), k) \<Rightarrow>
          if \<not> cp_success p \<or> \<not> cp_result_available p \<or> fd < 0
          then (m, Inl (if cp_message p = [] then ''agent result is not available'' else cp_message p),
                close_if_open fd k)
          else (case map_existing_read_only fd (br_region_size (cp_result p)) (br_region_id (cp_result p)) k of
                  (Inl e, k) \<Rightarrow> (m, Inl e, k)
                | (Inr r, k) \<Rightarrow> (m, Inr \<lparr>rx_reference = cp_result p, rx_region = r\<rparr>, k)))"

section \<open>The daemon\<close>

definition control_texts :: socket_texts where
  "control_texts =
     \<lparr>tx_address = ''control socket path is empty or too long'',
      tx_refuse = ''refusing to replace existing control socket path'',
      tx_probe = ''probe control socket'', tx_in_use = ''control socket is already in use'',
      tx_unlink = ''unlink stale socket'', tx_inspect = ''lstat control socket'',
      tx_create = ''socket'', tx_bind = ''bind control socket'', tx_configure = ''configure control socket''\<rparr>"

record daemon = endpoint +
  dm_runtime :: runtime

definition new_daemon :: "runtime_config \<Rightarrow> string \<Rightarrow> cgroup_fs \<Rightarrow> kernel \<Rightarrow> daemon" where
  "new_daemon c path fs k =
     \<lparr>ep_path = path, ep_listen = None, ep_owns = False, ep_running = False, dm_runtime = new_runtime c fs k\<rparr>"

text \<open>\<^verbatim>\<open>stop\<close>, up to the joins of the runtime, which follow as \<open>stop_joined\<close>.\<close>

definition daemon_stop :: "daemon \<Rightarrow> host \<Rightarrow> daemon \<times> host" where
  "daemon_stop dm h =
     (case close_listener dm h of (dm, h) \<Rightarrow>
      case unlink_socket dm h of (dm, h) \<Rightarrow> (dm\<lparr>dm_runtime := stop_request (dm_runtime dm)\<rparr>, h))"

definition daemon_start :: "string option \<Rightarrow> daemon \<Rightarrow> host \<Rightarrow> (string + unit) \<times> daemon \<times> host" where
  "daemon_start threads dm h =
     (if ep_running dm then (Inl ''agent daemon is already running'', dm, h)
      else let dm = dm\<lparr>ep_running := True\<rparr>
      in case runtime_start threads (dm_runtime dm) of
        (Inl e, rt) \<Rightarrow> (Inl e, dm\<lparr>ep_running := False, dm_runtime := stop_request rt\<rparr>, h)
      | (Inr _, rt) \<Rightarrow>
          (case open_socket control_texts (dm\<lparr>dm_runtime := rt\<rparr>) h of
             (Inl e, dm, h) \<Rightarrow>
               (Inl e, dm\<lparr>ep_running := False, dm_runtime := stop_request (dm_runtime dm)\<rparr>, h)
           | (Inr _, dm, h) \<Rightarrow> (Inr (), dm, h)))"

definition no_handle :: result_handle where
  "no_handle = \<lparr>rh_reference = default_ref, rh_descriptor = - 1\<rparr>"

text \<open>An operation that reports success with a fixed text, or its error.\<close>

definition report :: "string \<Rightarrow> string + unit \<Rightarrow> control_response" where
  "report what r =
     (case r of
        Inl e \<Rightarrow> default_control_response\<lparr>cp_message := e\<rparr>
      | Inr _ \<Rightarrow> default_control_response\<lparr>cp_success := True, cp_message := what\<rparr>)"

definition on_runtime :: "(runtime \<Rightarrow> (string + unit) \<times> runtime) \<Rightarrow> string \<Rightarrow> daemon \<Rightarrow> control_response \<times> daemon" where
  "on_runtime f what dm = (case f (dm_runtime dm) of (r, rt) \<Rightarrow> (report what r, dm\<lparr>dm_runtime := rt\<rparr>))"

definition dispatch_status :: "agent_id \<Rightarrow> daemon \<Rightarrow> control_response" where
  "dispatch_status a dm =
     (case snapshot a (rt_scheduler (dm_runtime dm)) of
        None \<Rightarrow> default_control_response\<lparr>cp_message := ''agent does not exist''\<rparr>
      | Some sn \<Rightarrow> default_control_response\<lparr>cp_success := True, cp_agents := [make_control_info sn]\<rparr>)"

definition dispatch_result :: "agent_id \<Rightarrow> daemon \<Rightarrow> control_response \<times> result_handle \<times> daemon" where
  "dispatch_result a dm =
     (case runtime_result a (dm_runtime dm) of
        (Inl e, rt) \<Rightarrow> (default_control_response\<lparr>cp_message := e\<rparr>, no_handle, dm\<lparr>dm_runtime := rt\<rparr>)
      | (Inr h, rt) \<Rightarrow>
          (default_control_response\<lparr>cp_success := True, cp_result_available := True, cp_result := rh_reference h\<rparr>,
           h, dm\<lparr>dm_runtime := rt\<rparr>))"

definition dispatch :: "nat \<Rightarrow> control_request \<Rightarrow> daemon \<Rightarrow> control_response \<times> result_handle \<times> daemon" where
  "dispatch now q dm =
     (let a = cq_target_id q;
          plain = (\<lambda>(p, dm). (p, no_handle, dm))
      in case cq_operation q of
        Op_ping \<Rightarrow> (report ''agentd is ready'' (Inr ()), no_handle, dm)
      | Op_submit \<Rightarrow> plain (on_runtime (runtime_submit now (cq_task q)) ''agent submitted'' dm)
      | Op_spawn \<Rightarrow> plain (on_runtime (on_scheduler (spawn now a (cq_task q))) ''child agent spawned'' dm)
      | Op_status \<Rightarrow> (dispatch_status a dm, no_handle, dm)
      | Op_list \<Rightarrow>
          (default_control_response\<lparr>cp_success := True,
             cp_agents := map make_control_info (snapshots (rt_scheduler (dm_runtime dm)))\<rparr>, no_handle, dm)
      | Op_cancel \<Rightarrow> plain (on_runtime (runtime_cancel now a) ''agent cancelled'' dm)
      | Op_shutdown \<Rightarrow> (report ''agentd is stopping'' (Inr ()), no_handle, dm\<lparr>ep_running := False\<rparr>)
      | Op_result \<Rightarrow> dispatch_result a dm
      | Op_release_result \<Rightarrow> plain (on_runtime (release_result a) ''agent result released'' dm))"

text \<open>A response that cannot be encoded is replaced by one that tells why.\<close>

definition encode_or_explain :: "control_response \<Rightarrow> u8 list option" where
  "encode_or_explain p =
     (case encode_control_response p of
        Inr bytes \<Rightarrow> Some bytes
      | Inl e \<Rightarrow>
          (case encode_control_response
                  (default_control_response\<lparr>cp_message := if e = [] then ''cannot encode response'' else e\<rparr>) of
             Inr bytes \<Rightarrow> Some bytes
           | Inl _ \<Rightarrow> None))"

definition with_kernel :: "kernel \<Rightarrow> daemon \<Rightarrow> daemon" where
  "with_kernel k dm = dm\<lparr>dm_runtime := (dm_runtime dm)\<lparr>rt_kernel := k\<rparr>\<rparr>"

abbreviation dm_kernel :: "daemon \<Rightarrow> kernel" where
  "dm_kernel dm \<equiv> rt_kernel (dm_runtime dm)"

definition send_response :: "control_response \<Rightarrow> int \<Rightarrow> kernel \<Rightarrow> message option \<times> kernel" where
  "send_response p fd k =
     (case encode_or_explain p of
        None \<Rightarrow> (None, k)
      | Some bytes \<Rightarrow>
          (case send_control bytes fd k of (Inl _, k) \<Rightarrow> (None, k) | (Inr m, k) \<Rightarrow> (Some m, k)))"

text \<open>\<open>trusted\<close>: the credentials of the peer could be read and its user is this one.\<close>

definition daemon_client :: "bool \<Rightarrow> nat \<Rightarrow> message option \<Rightarrow> daemon \<Rightarrow> message option \<times> daemon" where
  "daemon_client trusted now msg dm =
     (if \<not> trusted then (None, dm)
      else case receive_control msg (dm_kernel dm) of (packet, fd, k) \<Rightarrow>
        (case (case packet of Inl e \<Rightarrow> Inl e | Inr bytes \<Rightarrow> decode_control_request bytes) of
           Inl e \<Rightarrow>
             (case send_response (default_control_response\<lparr>cp_message := if e = [] then ''invalid request'' else e\<rparr>)
                     (- 1) (close_if_open fd k) of
                (m, k) \<Rightarrow> (m, with_kernel k dm))
         | Inr q \<Rightarrow>
             if fd \<ge> 0
             then (case send_response
                       (default_control_response\<lparr>cp_message := ''control requests must not attach descriptors''\<rparr>)
                       (- 1) (close_if_open fd k) of
                     (m, k) \<Rightarrow> (m, with_kernel k dm))
             else (case dispatch now q (with_kernel k dm) of (p, h, dm) \<Rightarrow>
                   case send_response p (rh_descriptor h) (dm_kernel dm) of
                     (m, k) \<Rightarrow> (m, with_kernel (handle_destroy h k) dm))))"

text \<open>What a round of \<^verbatim>\<open>serve\<close> meets; the loop goes on while the daemon runs and is not told to stop.\<close>

datatype accept_event = Nothing_yet | Interrupted_call | Call_failed | Client bool nat "message option"

fun daemon_serve :: "(bool \<times> accept_event) list \<Rightarrow> daemon \<Rightarrow> host \<Rightarrow> (nat \<times> message option list \<times> daemon \<times> host) option"
where
  "daemon_serve [] dm h = None"
| "daemon_serve ((external_stop, ev) # evs) dm h =
     (if ep_listen dm = None then Some (1, [], dm, h)
      else if \<not> ep_running dm \<or> external_stop
      then (case daemon_stop dm h of (dm, h) \<Rightarrow> Some (0, [], dm, h))
      else case ev of
        Call_failed \<Rightarrow> Some (1, [], dm, h)
      | Client trusted now msg \<Rightarrow>
          (case daemon_client trusted now msg dm of (m, dm) \<Rightarrow>
             map_option (\<lambda>(r, ms, x). (r, m # ms, x)) (daemon_serve evs dm h))
      | _ \<Rightarrow> daemon_serve evs dm h)"

end
