(* ===== verification/Control_Delivery.thy ===== *)
theory Control_Delivery
  imports Control_Channel
begin

text \<open>
  The daemon is correct as a server: it answers every trusted client with the outcome of the
  operation that was asked for, it leaks no descriptor, and a result that is fetched is the one
  that is stored.
\<close>

section \<open>Every response has an encoding, or an explanation that has one\<close>

definition short_errors :: "writer \<Rightarrow> bool" where
  "short_errors w \<longleftrightarrow> (\<forall>out e. w out = Inl e \<longrightarrow> length e \<le> 64)"

lemma short_errors_run: "list_all short_errors ws \<Longrightarrow> short_errors (run_writers ws)"
proof (induction ws)
  case (Cons w ws)
  then show ?case by (auto simp: short_errors_def split: sum.splits)
qed (simp add: short_errors_def)

lemma short_errors_put [intro, simp]:
  "short_errors (put_u8 b)" "short_errors (put_u16 h)" "short_errors (put_u32 w)" "short_errors (put_u64 d)"
  by (simp_all add: short_errors_def put_u8_def put_u16_def put_u32_def put_u64_def)

lemma short_errors_string [simp]: "short_errors (put_control_string s)"
  by (auto simp: short_errors_def put_control_string_def split: if_splits)

lemma short_errors_parts [simp]:
  "short_errors (encode_control_header op)" "short_errors finish_control_message" "short_errors (put_reference r)"
  "short_errors (encode_agent a)"
  by (auto simp: encode_control_header_def put_reference_def encode_agent_def put_agent_metrics_def
      simp del: run_writers.simps intro!: short_errors_run)
    (auto simp: short_errors_def finish_control_message_def split: if_splits)

lemma encode_error_short: "encode_control_response p = Inl e \<Longrightarrow> length e \<le> 64"
proof -
  have "short_errors (run_writers [encode_control_header Op_ping, put_u8 (if cp_success p then 1 else 0),
         put_control_string (cp_message p), put_u32 (word_of_nat (length (cp_agents p))),
         run_writers (map encode_agent (cp_agents p)), put_u8 (if cp_result_available p then 1 else 0),
         (if cp_result_available p then put_reference (cp_result p) else run_writers []), finish_control_message])"
    by (rule short_errors_run) (auto simp: list_all_iff intro!: short_errors_run simp del: run_writers.simps)
  then show "encode_control_response p = Inl e \<Longrightarrow> length e \<le> 64"
    by (auto simp: encode_control_response_def short_errors_def simp del: run_writers.simps split: if_splits)
qed

lemma encode_plain:
  assumes "cp_agents p = []" and "length (cp_message p) \<le> kMaxStringSize"
  shows "\<exists>bytes. encode_control_response p = Inr bytes"
  using assms
  by (simp add: encode_control_response_def encode_control_header_def put_u8_def put_u16_def put_u32_def
      put_u64_def put_reference_def put_control_string_def finish_control_message_def kMaxStringSize_def
      kMaxControlMessageSize_def kMaxCollectionElements_def kHeaderSize_def)

text \<open>The response that the peer decodes.\<close>

definition received_response :: "control_response \<Rightarrow> control_response" where
  "received_response p =
     (case encode_control_response p of
        Inr _ \<Rightarrow> (if cp_result_available p then p else p\<lparr>cp_result := default_ref\<rparr>)
      | Inl e \<Rightarrow> default_control_response\<lparr>cp_message := if e = [] then ''cannot encode response'' else e\<rparr>)"

lemma header_bytes_nonempty: "header_bytes op sz \<noteq> []"
proof -
  have "length (header_bytes op sz) = 12" by (simp add: kHeaderSize_def)
  then show ?thesis by (metis list.size(3) zero_neq_numeral)
qed

lemma encode_or_explain_total:
  assumes "cp_result_available p \<longrightarrow> ref_in_bounds (cp_result p)"
  shows "\<exists>bytes. encode_or_explain p = Some bytes \<and> bytes \<noteq> [] \<and> length bytes \<le> kMaxControlMessageSize \<and>
    decode_control_response bytes = Inr (received_response p)"
proof -
  have ok: "bytes \<noteq> [] \<and> length bytes \<le> kMaxControlMessageSize \<and> decode_control_response bytes =
      Inr (if cp_result_available p then p else p\<lparr>cp_result := default_ref\<rparr>)"
    if "encode_control_response p = Inr bytes" "cp_result_available p \<longrightarrow> ref_in_bounds (cp_result p)" for p bytes
    using encode_control_response_InrD [OF that(1)] decode_response_body [of p] that(2) header_bytes_nonempty
    by (auto simp: message_bytes_def)
  show ?thesis
  proof (cases "encode_control_response p")
    case (Inr bytes)
    with ok [OF Inr assms] show ?thesis by (simp add: encode_or_explain_def received_response_def)
  next
    case (Inl e)
    let ?q = "default_control_response\<lparr>cp_message := if e = [] then ''cannot encode response'' else e\<rparr>"
    have "length (cp_message ?q) \<le> kMaxStringSize" using encode_error_short [OF Inl] by (simp add: kMaxStringSize_def)
    then obtain bytes where b: "encode_control_response ?q = Inr bytes"
      using encode_plain [of ?q] by (auto simp: default_control_response_def)
    have q: "?q = ?q\<lparr>cp_result := default_ref\<rparr>" "\<not> cp_result_available ?q" by (simp_all add: default_control_response_def)
    from ok [OF b] q(2) have "bytes \<noteq> [] \<and> length bytes \<le> kMaxControlMessageSize \<and> decode_control_response bytes = Inr ?q"
      by (simp flip: q(1))
    with b Inl show ?thesis by (simp add: encode_or_explain_def received_response_def)
  qed
qed


section \<open>Packets and their descriptor\<close>

text \<open>All descriptors that came with a message.\<close>

definition descriptors_of :: "(int list \<times> bool) option list \<Rightarrow> int list" where
  "descriptors_of xs = concat (map (case_option [] fst) xs)"

lemma install_headers_all:
  "kernel_ok k \<Longrightarrow> \<forall>f \<in> set (concat (map header_files hs)). memfile_of k f \<noteq> None \<Longrightarrow>
   install_headers hs k = (xs, k') \<Longrightarrow>
   received k (descriptors_of xs) k' \<and>
   map (file_of k') (descriptors_of xs) = map Some (concat (map header_files hs)) \<and>
   k_files k' = k_files k \<and> k_faults k' = k_faults k"
proof (induction hs arbitrary: k xs)
  case Nil
  then show ?case by (auto simp: received_def descriptors_of_def)
next
  case (Cons h hs)
  show ?case
  proof (cases h)
    case (Rights fs ragged)
    obtain ds k1 ys where ins: "install_files fs k = (ds, k1)" "install_headers hs k1 = (ys, k')"
      "xs = Some (ds, ragged) # ys" using Cons.prems(3) Rights by (auto split: prod.splits)
    from install_files_received [OF Cons.prems(1) _ ins(1)] Cons.prems(2) Rights
    have first: "received k ds k1" "map (file_of k1) ds = map Some fs" "k_files k1 = k_files k" by auto
    have quiet: "k_faults (snd (install_files fs k)) = k_faults k" for fs k
      by (induction fs arbitrary: k) (auto simp: Let_def split: prod.splits dest: sym, metis (no_types, lifting)
        kernel.select_convs(4) kernel.surjective kernel.update_convs(1) snd_conv)
    from first have "kernel_ok k1" unfolding received_def by (blast dest: frameD(1))
    from Cons.IH [OF this _ ins(2)] Cons.prems(2) first(3)
    have rest: "received k1 (descriptors_of ys) k'"
      "map (file_of k') (descriptors_of ys) = map Some (concat (map header_files hs))"
      "k_files k' = k_files k1" "k_faults k' = k_faults k1" by auto
    have both: "received k (ds @ descriptors_of ys) k'" by (rule received_append [OF first(1) rest(1)])
    have "file_of k' d = file_of k1 d" if "d \<in> set ds" for d
      using that both rest(1) first(1) by (auto simp: received_def frame_def)
    then have "map (file_of k') (ds @ descriptors_of ys) = map Some (concat (map header_files (h # hs)))"
      using first(2) rest(2) Rights by (simp cong: map_cong)
    then show ?thesis
      using both rest(3,4) first(3) quiet [of fs k] ins(1) by (simp add: ins(3) descriptors_of_def)
  next
    case Other_header
    obtain ys where ins: "install_headers hs k = (ys, k')" "xs = None # ys"
      using Cons.prems(3) Other_header by (auto split: prod.splits)
    from Cons.IH [OF Cons.prems(1) _ ins(1)] Cons.prems(2) Other_header show ?thesis
      by (auto simp: ins(2) descriptors_of_def)
  qed
qed

lemma install_headers_none:
  "concat (map header_files hs) = [] \<Longrightarrow> install_headers hs k = (xs, k') \<Longrightarrow> k' = k"
proof (induction hs arbitrary: xs)
  case (Cons h hs)
  then show ?case by (cases h) (auto split: prod.splits)
qed simp

lemma collect_one_none: "descriptors_of xs = [] \<Longrightarrow> collect_one xs fd k = (fd, k)"
  by (induction xs fd k rule: collect_one.induct) (auto simp: descriptors_of_def split: option.splits)

lemma collect_one_single: "descriptors_of xs = [d] \<Longrightarrow> collect_one xs (- 1) k = (d, k)"
proof (induction xs)
  case (Cons x xs)
  show ?case
  proof (cases x)
    case (Some y)
    then show ?thesis
    proof (cases "fst y")
      case Nil
      with Some Cons show ?thesis by (cases y) (simp add: descriptors_of_def)
    next
      case (Cons e es)
      with Some Cons.prems have "e = d" "descriptors_of xs = []" by (auto simp: descriptors_of_def)
      with Some Cons show ?thesis by (cases y) (simp add: collect_one_none)
    qed
  qed (use Cons in \<open>simp add: descriptors_of_def\<close>)
qed (simp add: descriptors_of_def)

text \<open>
  The messages of the theorems carry at most one descriptor, of a file that exists. The control
  buffer of the receiver has room for two: see \<open>second_descriptor_leaks\<close>.
\<close>

definition control_message_ok :: "kernel \<Rightarrow> message \<Rightarrow> bool" where
  "control_message_ok k m \<longleftrightarrow> ms_bytes m \<noteq> [] \<and> length (message_files m) \<le> 1 \<and>
     (\<forall>f \<in> set (message_files m). memfile_of k f \<noteq> None)"

lemma receive_control_spec:
  assumes ok: "kernel_ok k" and msg: "\<forall>m. msg = Some m \<longrightarrow> control_message_ok k m"
    and rcv: "receive_control msg k = (res, fd, k')"
  shows "fd < 0 \<and> frame {} {} k k' \<or> 0 \<le> fd \<and> received k [fd] k'"
proof -
  obtain r k1 where c: "sys_recv msg k = (r, k1)" by fastforce
  from c show ?thesis unfolding sys_recv_def
  proof (cases rule: sys_call_cases)
    case (fault e fs)
    with rcv c frame_faults [OF ok] show ?thesis by (auto simp: receive_control_def)
  next
    case (run fs)
    let ?k = "k\<lparr>k_faults := fs\<rparr>"
    show ?thesis
    proof (cases msg)
      case None
      with run rcv c frame_faults [OF ok] show ?thesis by (auto simp: receive_control_def)
    next
      case (Some m)
      obtain xs k2 where ins: "install_headers (ms_headers m) ?k = (xs, k2)" by fastforce
      with run Some have r: "r = Inr (Some (m, xs))" "k1 = k2" by auto
      have ok': "kernel_ok ?k" by (simp add: sys_simps ok)
      note m = msg [rule_format, OF Some, unfolded control_message_ok_def]
      have "received ?k (descriptors_of xs) k2"
        and files: "map (file_of k2) (descriptors_of xs) = map Some (message_files m)"
        using install_headers_all [OF ok' _ ins] m by (auto simp: message_files_def)
      then have rcvd: "received k (descriptors_of xs) k2" by (simp add: received_def frame_def)
      have "length (descriptors_of xs) \<le> 1" using arg_cong [OF files, of length] m by simp
      then consider "descriptors_of xs = []" | d where "descriptors_of xs = [d]"
        by (cases "descriptors_of xs") auto
      then show ?thesis
      proof cases
        case 1
        with rcvd rcv c r Some m collect_one_none [OF 1] show ?thesis
          by (auto simp: receive_control_def received_def)
      next
        case 2
        with rcvd rcv c r Some m collect_one_single [OF 2] show ?thesis
          by (auto simp: receive_control_def received_def)
      qed
    qed
  qed
qed

text \<open>Without faults a packet arrives as it was sent.\<close>

lemma receive_control_no_fault:
  assumes ok: "kernel_ok k" "k_faults k = []" and m: "control_message_ok k m" "\<not> ms_cut m"
    and size: "length (ms_bytes m) \<le> kMaxControlMessageSize"
  shows "\<exists>fd k'. receive_control (Some m) k = (Inr (ms_bytes m), fd, k') \<and> k_files k' = k_files k \<and> k_faults k' = [] \<and>
    (if message_files m = [] then fd = - 1 \<and> k' = k
     else received k [fd] k' \<and> file_of k' fd = Some (hd (message_files m)))"
proof -
  obtain xs k1 where ins: "install_headers (ms_headers m) k = (xs, k1)" by fastforce
  have rcvd: "received k (descriptors_of xs) k1" and same: "k_files k1 = k_files k" "k_faults k1 = []"
    and files: "map (file_of k1) (descriptors_of xs) = map Some (message_files m)"
    using install_headers_all [OF ok(1) _ ins] m(1) ok(2) by (auto simp: message_files_def control_message_ok_def)
  have call: "sys_recv (Some m) k = (Inr (Some (m, xs)), k1)" using ins ok(2) by (simp add: sys_recv_def sys_call_no_fault)
  show ?thesis
  proof (cases "message_files m")
    case Nil
    with files have "descriptors_of xs = []" by simp
    moreover have "k1 = k" using install_headers_none [OF _ ins] Nil by (simp add: message_files_def)
    ultimately show ?thesis using Nil call rcvd same m size collect_one_none [of xs]
      by (auto simp: receive_control_def control_message_ok_def received_def)
  next
    case (Cons f fs)
    with m(1) have "message_files m = [f]" by (simp add: control_message_ok_def)
    with files obtain d where d: "descriptors_of xs = [d]" "file_of k1 d = Some f"
      by (cases "descriptors_of xs") auto
    with Cons call rcvd same m size collect_one_single [OF d(1)] show ?thesis
      by (auto simp: receive_control_def control_message_ok_def)
  qed
qed


lemma frame_then: "frame {} {} k k1 \<Longrightarrow> frame {} {} k1 k2 \<Longrightarrow> frame {} {} k k2"
  using frame_trans [of "{}" "{}" k k1 "{}" "{}" k2] by simp

section \<open>What an operation does to the descriptors\<close>

text \<open>The descriptors of the results that have left the store.\<close>

definition released :: "result_store \<Rightarrow> result_store \<Rightarrow> int set" where
  "released st st' = {rg_descriptor (sr_region s) | a s. map_of st a = Some s \<and> map_of st' a = None}"

definition table_after :: "kernel \<Rightarrow> int set \<Rightarrow> kernel \<Rightarrow> bool" where
  "table_after k D k' \<longleftrightarrow> kernel_ok k' \<and> (\<forall>fd. file_of k' fd = (if fd \<in> D then None else file_of k fd))"

lemma released_same [simp]: "released st st = {}"
  by (simp add: released_def)

lemma table_frame: "frame F {} k k' \<Longrightarrow> table_after k {} k'"
  by (simp add: table_after_def frame_def)

lemma table_after_frame: "table_after k D k1 \<Longrightarrow> frame F {} k1 k2 \<Longrightarrow> table_after k D k2"
  by (simp add: table_after_def frame_def)

lemma released_delete:
  "map_of st a = Some s \<Longrightarrow> released st (AList.delete a st) = {rg_descriptor (sr_region s)}"
  by (auto simp: released_def delete_conv)

lemma release_table:
  assumes "kernel_ok (rt_kernel rt)" and "release_result a rt = (r, rt')"
  shows "table_after (rt_kernel rt) (released (rt_store rt) (rt_store rt')) (rt_kernel rt')"
  using assms reset_frame [OF assms(1)]
  by (auto simp: release_result_def erase_result_def table_after_def released_delete frame_def
    split: option.splits)

lemma acquire_table:
  assumes "kernel_ok (rt_kernel rt)" and "runtime_result a rt = (r, rt')"
  shows "rt_store rt' = rt_store rt \<and>
    (case r of Inl e \<Rightarrow> frame {} {} (rt_kernel rt) (rt_kernel rt')
     | Inr h \<Rightarrow> 0 \<le> rh_descriptor h \<and> file_of (rt_kernel rt) (rh_descriptor h) = None \<and>
         frame {} {rh_descriptor h} (rt_kernel rt) (rt_kernel rt') \<and>
         (\<exists>s. map_of (rt_store rt) a = Some s \<and> rh_reference h = sr_reference s \<and>
            file_of (rt_kernel rt') (rh_descriptor h) = file_of (rt_kernel rt) (rg_descriptor (sr_region s))) \<and>
         file_of (rt_kernel rt') (rh_descriptor h) \<noteq> None)"
proof (cases "map_of (rt_store rt) a")
  case None
  with assms show ?thesis by (auto simp: runtime_result_def acquire_result_def)
next
  case (Some s)
  obtain d k1 where d: "sys_dup (rg_descriptor (sr_region s)) (rt_kernel rt) = (d, k1)" by fastforce
  note dup = dup_frame [OF assms(1) d]
  have "0 \<le> fd" if "d = Inr fd" for fd using dup that by (auto dest!: frameD(1) intro: kernel_okD(1))
  with dup Some d assms(2) show ?thesis
    by (auto simp: runtime_result_def acquire_result_def split: sum.splits)
qed

lemma on_runtime_eq:
  "on_runtime f what dm = (report what (fst (f (dm_runtime dm))), dm\<lparr>dm_runtime := snd (f (dm_runtime dm))\<rparr>)"
  by (simp add: on_runtime_def split: prod.split)

lemma on_scheduler_local:
  "rt_kernel (snd (on_scheduler f rt)) = rt_kernel rt" "rt_store (snd (on_scheduler f rt)) = rt_store rt"
  by (simp_all add: on_scheduler_def split: prod.split)

lemma dispatch_table:
  assumes "kernel_ok (dm_kernel dm)" and "dispatch now q dm = (p, h, dm')"
  shows "rh_descriptor h < 0 \<and>
      table_after (dm_kernel dm) (released (rt_store (dm_runtime dm)) (rt_store (dm_runtime dm'))) (dm_kernel dm') \<or>
    0 \<le> rh_descriptor h \<and> file_of (dm_kernel dm) (rh_descriptor h) = None \<and>
      frame {} {rh_descriptor h} (dm_kernel dm) (dm_kernel dm') \<and> file_of (dm_kernel dm') (rh_descriptor h) \<noteq> None \<and>
      rt_store (dm_runtime dm') = rt_store (dm_runtime dm)"
proof (cases "cq_operation q = Op_result")
  case True
  obtain r rt where r: "runtime_result (cq_target_id q) (dm_runtime dm) = (r, rt)" by fastforce
  from acquire_table [OF assms(1) r] r assms(2) True table_frame show ?thesis
    by (cases r) (auto simp: dispatch_def dispatch_result_def no_handle_def)
next
  case False
  have same: "table_after (dm_kernel dm) {} (dm_kernel dm)" by (rule table_frame [OF frame_refl [OF assms(1)]])
  note local = on_runtime_eq runtime_submit_def runtime_cancel_def on_scheduler_local no_handle_def dispatch_def
  show ?thesis
  proof (cases "cq_operation q = Op_release_result")
    case True
    with release_table [OF assms(1) prod.collapse [symmetric]] assms(2) show ?thesis
      by (auto simp: on_runtime_eq dispatch_def no_handle_def Let_def)
  next
    case no_release: False
    with False assms(2) same show ?thesis
      by (cases "cq_operation q") (auto simp: local Let_def)
  qed
qed

lemma send_control_frame:
  assumes "kernel_ok k" and "send_control packet fd k = (r, k')"
  shows "frame {} {} k k'"
proof -
  let ?f = "\<lambda>k. if fd \<ge> 0 \<and> file_of k fd = None then (Inl ''Bad file descriptor'', k)
    else (Inr \<lparr>ms_bytes = packet, ms_headers = (if fd \<ge> 0 then [Rights [the (file_of k fd)] False] else []),
      ms_cut = False\<rparr>, k)"
  obtain x k1 where c: "sys_call ?f k = (x, k1)" by fastforce
  have "frame {} {} k k1" using c
    by (cases rule: sys_call_cases) (use assms(1) in \<open>auto intro: frame_faults split: if_splits\<close>)
  with assms(2) c show ?thesis by (auto simp: send_control_def split: sum.splits)
qed

lemma send_response_frame: "kernel_ok k \<Longrightarrow> send_response p fd k = (m, k') \<Longrightarrow> frame {} {} k k'"
  by (auto simp: send_response_def dest: send_control_frame split: option.splits sum.splits prod.splits)

lemma with_kernel_fields [simp]:
  "dm_kernel (with_kernel k dm) = k" "rt_store (dm_runtime (with_kernel k dm)) = rt_store (dm_runtime dm)"
  "ep_running (with_kernel k dm) = ep_running dm" "ep_listen (with_kernel k dm) = ep_listen dm"
  by (simp_all add: with_kernel_def)

text \<open>The end of a client after its descriptor, if any, has been closed.\<close>

lemma closed_received:
  assumes "kernel_ok k" and "fd < 0 \<and> frame {} {} k k1 \<or> 0 \<le> fd \<and> received k [fd] k1"
  shows "frame {} {} k (close_if_open fd k1)"
  using assms close_received [OF assms(1), of "[fd]" k1] by (auto simp: close_if_open_def)

text \<open>
  The daemon leaks no descriptor: after a client, whatever it sent (with at most one descriptor) and
  whichever system calls failed, the table is as before, except that the descriptor of a result
  that the client had released is closed.
\<close>

theorem daemon_account:
  assumes ok: "kernel_ok (dm_kernel dm)" and msg: "\<forall>m. msg = Some m \<longrightarrow> control_message_ok (dm_kernel dm) m"
    and run: "daemon_client trusted now msg dm = (reply, dm')"
  shows "table_after (dm_kernel dm) (released (rt_store (dm_runtime dm)) (rt_store (dm_runtime dm'))) (dm_kernel dm')"
proof (cases trusted)
  case False
  with run table_frame [OF frame_refl [OF ok]] show ?thesis by (simp add: daemon_client_def)
next
  case True
  obtain packet fd k where rc: "receive_control msg (dm_kernel dm) = (packet, fd, k)" by (metis prod.exhaust)
  note got = receive_control_spec [OF ok msg rc]
  note shut = closed_received [OF ok got]
  let ?q = "case packet of Inl e \<Rightarrow> Inl e | Inr bytes \<Rightarrow> decode_control_request bytes"
  have refused: ?thesis if "send_response p (- 1) (close_if_open fd k) = (m, k')" "dm' = with_kernel k' dm" for p m k'
    using table_frame [OF frame_then [OF shut send_response_frame [OF frameD(1) [OF shut] that(1)]]] that(2)
    by simp
  show ?thesis
  proof (cases ?q)
    case (Inl e)
    with run True rc refused show ?thesis by (auto simp: daemon_client_def split: prod.splits)
  next
    case (Inr q)
    show ?thesis
    proof (cases "fd \<ge> 0")
      case True
      with Inr run \<open>trusted\<close> rc refused show ?thesis by (auto simp: daemon_client_def split: prod.splits)
    next
      case False
      with got have fr: "frame {} {} (dm_kernel dm) k" by simp
      obtain p h dm1 where d: "dispatch now q (with_kernel k dm) = (p, h, dm1)" by (metis prod.exhaust)
      obtain m k2 where s: "send_response p (rh_descriptor h) (dm_kernel dm1) = (m, k2)" by fastforce
      have dm': "dm' = with_kernel (handle_destroy h k2) dm1"
        using run \<open>trusted\<close> rc Inr False d s by (simp add: daemon_client_def)
      have "kernel_ok (dm_kernel (with_kernel k dm))" using frameD(1) [OF fr] by simp
      from dispatch_table [OF this d] show ?thesis
      proof (elim disjE conjE)
        assume h: "rh_descriptor h < 0" and t: "table_after (dm_kernel (with_kernel k dm))
          (released (rt_store (dm_runtime (with_kernel k dm))) (rt_store (dm_runtime dm1))) (dm_kernel dm1)"
        have "frame {} {} (dm_kernel dm1) k2" using t by (intro send_response_frame [OF _ s]) (simp add: table_after_def)
        from table_after_frame [OF t this] fr h show ?thesis
          by (auto simp: dm' handle_destroy_def table_after_def frame_def)
      next
        assume h: "0 \<le> rh_descriptor h" "file_of (dm_kernel (with_kernel k dm)) (rh_descriptor h) = None"
          and f: "frame {} {rh_descriptor h} (dm_kernel (with_kernel k dm)) (dm_kernel dm1)"
          and st: "rt_store (dm_runtime dm1) = rt_store (dm_runtime (with_kernel k dm))"
        have "frame {} {} (dm_kernel dm1) k2" by (rule send_response_frame [OF frameD(1) [OF f] s])
        from closed_again [OF f h(2) this] have "frame {} {} k (sys_close (rh_descriptor h) k2)" by simp
        from table_frame [OF frame_then [OF fr this]] h st show ?thesis by (simp add: dm' handle_destroy_def)
      qed
    qed
  qed
qed


text \<open>
  With two descriptors in one message the second is never looked at: it stays open in the daemon after
  every such client. The receiver's buffer of \<^verbatim>\<open>CMSG_SPACE(sizeof(int))\<close> bytes has room for both.
\<close>

theorem second_descriptor_leaks:
  assumes "kernel_ok (dm_kernel dm)" and "k_faults (dm_kernel dm) = []"
    and "ms_headers m = [Rights [f, g] False]" and "ms_bytes m \<noteq> []"
    and "memfile_of (dm_kernel dm) f \<noteq> None" and "memfile_of (dm_kernel dm) g \<noteq> None"
    and "daemon_client True now (Some m) dm = (reply, dm')"
  shows "\<exists>d. file_of (dm_kernel dm) d = None \<and> file_of (dm_kernel dm') d = Some g"
proof -
  let ?k = "dm_kernel dm"
  obtain xs k1 where ins: "install_headers (ms_headers m) ?k = (xs, k1)" by fastforce
  have all: "received ?k (descriptors_of xs) k1" "map (file_of k1) (descriptors_of xs) = [Some f, Some g]"
    using install_headers_all [OF assms(1) _ ins] assms(3,5,6) by auto
  obtain d e where xs: "xs = [Some ([d, e], False)]"
    using ins assms(3) by (auto split: prod.splits simp: Let_def)
  then have de: "descriptors_of xs = [d, e]" by (simp add: descriptors_of_def)
  with all have e: "file_of ?k e = None" "file_of k1 e = Some g" "d \<noteq> e" "0 \<le> d" and ok: "kernel_ok k1"
    by (auto simp: received_def frame_def)
  have "sys_recv (Some m) ?k = (Inr (Some (m, xs)), k1)" using ins assms(2) by (simp add: sys_recv_def sys_call_no_fault)
  then obtain packet where rc: "receive_control (Some m) ?k = (packet, d, k1)"
    using assms(4) xs by (simp add: receive_control_def)
  have "file_of k2 e = Some g" if "send_response p (- 1) (close_if_open d k1) = (r, k2)" for p r k2
    using frameD(3) [OF send_response_frame [OF _ that], of e] kernel_ok_close [OF ok] e
    by (simp add: close_if_open_def file_of_close)
  with rc assms(7) e(4) have "file_of (dm_kernel dm') e = Some g"
    by (auto simp: daemon_client_def split: sum.splits prod.splits)
  with e(1) show ?thesis by blast
qed

section \<open>Answers\<close>

lemma faults_update [simp]: "k_faults (update_file f g k) = k_faults k"
  by (rule update_file_fields)

lemma reset_no_fault: "k_faults k = [] \<Longrightarrow> k_faults (region_reset r k) = []"
  by (auto simp: region_reset_def Let_def unmap_region_def sys_munmap_def sys_call_no_fault sys_close_def
    split: option.splits)

lemma dispatch_no_fault:
  assumes "k_faults (dm_kernel dm) = []" and "dispatch now q dm = (p, h, dm')"
  shows "k_faults (dm_kernel dm') = []"
  using assms reset_no_fault [OF assms(1)]
  by (cases "cq_operation q")
    (auto simp: dispatch_def Let_def on_runtime_eq runtime_submit_def runtime_cancel_def on_scheduler_local
      dispatch_result_def runtime_result_def acquire_result_def sys_dup_def sys_call_no_fault open_file_def
      release_result_def erase_result_def split: option.splits prod.splits sum.splits)

lemma send_no_fault:
  assumes "k_faults k = []" and "cp_result_available p \<longrightarrow> ref_in_bounds (cp_result p)" and "fd \<ge> 0 \<longrightarrow> file_of k fd \<noteq> None"
  shows "\<exists>bytes. bytes \<noteq> [] \<and> length bytes \<le> kMaxControlMessageSize \<and>
    decode_control_response bytes = Inr (received_response p) \<and>
    send_response p fd k = (Some \<lparr>ms_bytes = bytes,
      ms_headers = (if fd \<ge> 0 then [Rights [the (file_of k fd)] False] else []), ms_cut = False\<rparr>, k)"
  using encode_or_explain_total [OF assms(2)] assms(1,3)
  by (auto simp: send_response_def send_control_def sys_call_no_fault)







section \<open>Fetching a result\<close>

text \<open>A message without descriptors.\<close>

definition bare_message :: "u8 list \<Rightarrow> message" where
  "bare_message bytes = \<lparr>ms_bytes = bytes, ms_headers = [], ms_cut = False\<rparr>"

definition file_message :: "u8 list \<Rightarrow> nat \<Rightarrow> message" where
  "file_message bytes f = \<lparr>ms_bytes = bytes, ms_headers = [Rights [f] False], ms_cut = False\<rparr>"

lemma message_files_simps [simp]:
  "message_files (bare_message bytes) = []" "message_files (file_message bytes f) = [f]"
  "ms_bytes (bare_message bytes) = bytes" "ms_bytes (file_message bytes f) = bytes"
  "\<not> ms_cut (bare_message bytes)" "\<not> ms_cut (file_message bytes f)"
  by (simp_all add: message_files_def bare_message_def file_message_def)

lemma result_request_encodes: "\<exists>packet. encode_control_request (result_request a) = Inr packet"
  by (simp add: result_request_def default_task_def default_resources_def encode_control_request_def
      encode_control_header_def encode_task_def task_fields_invalid_def put_u8_def put_u16_def put_u32_def put_u64_def
      put_control_string_def finish_control_message_def kMaxStringSize_def kMaxControlMessageSize_def
      kMaxCollectionElements_def kHeaderSize_def)

lemma encoded_request:
  assumes "encode_control_request q = Inr packet"
  shows "packet \<noteq> []" and "length packet \<le> kMaxControlMessageSize" and "decode_control_request packet = Inr q"
  using encode_control_request_InrD [OF assms] decode_request_body [of q] header_bytes_nonempty
  by (auto simp: message_bytes_def)

text \<open>The daemon's side: the stored reference, with a descriptor of the stored file.\<close>

lemma daemon_sends_result:
  assumes ok: "kernel_ok (dm_kernel dm)" "k_faults (dm_kernel dm) = []"
    and s: "map_of (rt_store (dm_runtime dm)) a = Some s"
    and f: "file_of (dm_kernel dm) (rg_descriptor (sr_region s)) = Some f" and ref: "ref_in_bounds (sr_reference s)"
    and packet: "encode_control_request (result_request a) = Inr packet"
  shows "\<exists>bytes dm' p. daemon_client True now (Some (bare_message packet)) dm = (Some (file_message bytes f), dm') \<and>
    bytes \<noteq> [] \<and> length bytes \<le> kMaxControlMessageSize \<and> decode_control_response bytes = Inr p \<and>
    cp_success p \<and> cp_result_available p \<and> cp_result p = sr_reference s"
proof -
  note pk = encoded_request [OF packet]
  have "control_message_ok (dm_kernel dm) (bare_message packet)" using pk by (simp add: control_message_ok_def)
  from receive_control_no_fault [OF ok this] pk have
    rc: "receive_control (Some (bare_message packet)) (dm_kernel dm) = (Inr packet, - 1, dm_kernel dm)" by auto
  obtain r rt where r: "runtime_result a (dm_runtime dm) = (r, rt)" by fastforce
  have "\<exists>h. r = Inr h"
    using r s f ok(2) by (auto simp: runtime_result_def acquire_result_def sys_dup_def sys_call_no_fault open_file_def)
  then obtain h where h: "r = Inr h" ..
  from acquire_table [OF ok(1) r] s f h have fd: "0 \<le> rh_descriptor h" "rh_reference h = sr_reference s"
    "file_of (rt_kernel rt) (rh_descriptor h) = Some f" by auto
  let ?p = "default_control_response\<lparr>cp_success := True, cp_result_available := True, cp_result := sr_reference s\<rparr>"
  let ?dm = "dm\<lparr>dm_runtime := rt\<rparr>"
  have d: "dispatch now (result_request a) dm = (?p, h, ?dm)"
    using r h fd(2) by (simp add: dispatch_def result_request_def dispatch_result_def)
  have "received_response ?p = ?p"
    using encode_plain [of ?p] by (auto simp: received_response_def default_control_response_def)
  with send_no_fault [OF dispatch_no_fault [OF ok(2) d], of ?p "rh_descriptor h"] fd ref
  obtain bytes where b: "bytes \<noteq> []" "length bytes \<le> kMaxControlMessageSize" "decode_control_response bytes = Inr ?p"
    "send_response ?p (rh_descriptor h) (rt_kernel rt) = (Some (file_message bytes f), rt_kernel rt)"
    by (auto simp: file_message_def)
  have "with_kernel (dm_kernel dm) dm = dm" by (simp add: with_kernel_def)
  with rc pk(3) d b show ?thesis
    by (intro exI [of _ bytes] exI [of _ "with_kernel (handle_destroy h (rt_kernel rt)) ?dm"] exI [of _ ?p])
      (simp add: daemon_client_def)
qed

text \<open>The client's side: a read-only region over the file that came with the reply.\<close>

lemma client_maps_result:
  assumes k: "kernel_ok k" "k_faults k = []" and path: "path \<noteq> []" "length path < sun_path_size" and a: "a \<noteq> kInvalidAgentId"
    and packet: "encode_control_request (result_request a) = Inr packet"
    and f: "memfile_of k f = Some mf" "unat (br_region_size (cp_result p)) \<le> length (mf_data mf)"
    and ref: "br_region_size (cp_result p) \<noteq> 0"
    and reply: "bytes \<noteq> []" "length bytes \<le> kMaxControlMessageSize" "decode_control_response bytes = Inr p"
    and p: "cp_success p" "cp_result_available p"
  shows "\<exists>r k'. fetch_result path a (Some (file_message bytes f)) k = (Some (bare_message packet), Inr r, k') \<and>
    rx_reference r = cp_result p \<and> rg_read_only (rx_region r) \<and> rg_size (rx_region r) = br_region_size (cp_result p) \<and>
    contents k' (rg_descriptor (rx_region r)) = Some (mf_data mf) \<and> file_of k (rg_descriptor (rx_region r)) = None \<and>
    frame {} {rg_descriptor (rx_region r)} k k'"
proof -
  obtain x k1 where s: "sys_socket k = (x, k1)" by fastforce
  then obtain sd where x: "x = Inr sd" and k1: "k_faults k1 = []"
    using k(2) by (auto simp: sys_socket_def sys_memfd_create_def sys_call_no_fault open_file_def)
  from memfd_frame [OF k(1) s [unfolded sys_socket_def]] x have new: "file_of k sd = None" "file_of k1 sd \<noteq> None"
    and fr: "frame {} {sd} k k1" by auto
  from frameD(4) [OF fr _ f(1)] obtain mf1 where mf1: "memfile_of k1 f = Some mf1" "mf_data mf1 = mf_data mf" by auto
  have "control_message_ok k1 (file_message bytes f)" using reply(1) mf1 by (simp add: control_message_ok_def)
  from receive_control_no_fault [OF frameD(1) [OF fr] k1 this] reply(2) obtain d k2 where
    rc: "receive_control (Some (file_message bytes f)) k1 = (Inr bytes, d, k2)" and k2: "k_files k2 = k_files k1"
    "k_faults k2 = []" and d: "received k1 [d] k2" "file_of k2 d = Some f" by auto
  let ?k = "sys_close sd k2"
  from received_after_close [OF k(1) fr new d(1)] d have rcvd: "received k [d] ?k" and there: "file_of ?k d = Some f"
    by auto
  have "exchange": "control_exchange path (result_request a) (Some (file_message bytes f)) k =
      (Some (bare_message packet), Inr (p, d), ?k)"
    using packet s x k1 rc reply(3) path
    by (simp add: control_exchange_def make_socket_address_def sys_call_no_fault send_control_def bare_message_def)
  have mf2: "memfile_of ?k f = Some mf1" and quiet: "k_faults ?k = []" using k2 mf1 by (simp_all add: sys_close_def)
  have pos: "0 \<le> d" using rcvd by (simp add: received_def)
  note map = map_read_only_no_fault [OF quiet pos ref there mf2, of "br_region_id (cp_result p)"]
  show ?thesis
    using "exchange" a p pos map f(2) mf1 rcvd there mf2
    by (auto simp: fetch_result_def received_def contents_def)
qed

text \<open>
  C39. A result that is fetched is the one that is stored: for every agent with a stored result, whatever the
  process has done with its memory before, the request of the client makes the daemon send the
  stored reference with a descriptor of the stored file, and the client ends with that reference
  and a read-only region that shows the very bytes of the result, at the price of one descriptor.
  (Without faults of the system calls.)
\<close>

theorem result_fetched:
  assumes mem: "memory_reachable pid w" "rt_store (dm_runtime dm) = pw_store w" "dm_kernel dm = pw_kernel w"
    and quiet: "k_faults (pw_kernel w) = []" and s: "map_of (pw_store w) a = Some s" and a: "a \<noteq> kInvalidAgentId"
    and client: "kernel_ok k" "k_faults k = []" "\<forall>f mf. memfile_of (pw_kernel w) f = Some mf \<longrightarrow> memfile_of k f = Some mf"
    and path: "path \<noteq> []" "length path < sun_path_size"
  shows "\<exists>request reply dm' r k'. daemon_client True now (Some request) dm = (Some reply, dm') \<and>
    fetch_result path a (Some reply) k = (Some request, Inr r, k') \<and>
    rx_reference r = sr_reference s \<and> rg_read_only (rx_region r) \<and>
    contents k' (rg_descriptor (rx_region r)) = contents (pw_kernel w) (rg_descriptor (sr_region s)) \<and>
    contents k' (rg_descriptor (rx_region r)) \<noteq> None \<and> frame {} {rg_descriptor (rx_region r)} k k'"
proof -
  note ok = memory_reachable_ok [OF mem(1)]
  from process_okD(8) [OF ok, of a s] s have "result_ok (pw_kernel w) (rg_descriptor (sr_region s)) (sr_reference s)"
    by (auto dest: map_of_SomeD)
  then obtain f mf where f: "file_of (pw_kernel w) (rg_descriptor (sr_region s)) = Some f"
    "memfile_of (pw_kernel w) f = Some mf" "length (mf_data mf) = unat (br_region_size (sr_reference s))"
    and ref: "ref_in_bounds (sr_reference s)" by (auto simp: result_ok_def)
  obtain packet where packet: "encode_control_request (result_request a) = Inr packet"
    using result_request_encodes by blast
  from daemon_sends_result [where dm = dm and a = a and s = s and f = f and now = now, OF _ _ _ _ ref packet] obtain bytes dm' p where
    sent: "daemon_client True now (Some (bare_message packet)) dm = (Some (file_message bytes f), dm')"
    and reply: "bytes \<noteq> []" "length bytes \<le> kMaxControlMessageSize" "decode_control_response bytes = Inr p"
      "cp_success p" "cp_result_available p" "cp_result p = sr_reference s"
    using mem(2,3) quiet s f(1) process_okD(1) [OF ok] by auto
  have "br_region_size (cp_result p) \<noteq> 0" using ref reply(6) by (simp add: ref_in_bounds_def)
  from client_maps_result [OF client(1,2) path a packet _ _ this reply(1-5), of f mf] client(3) f reply(6)
  obtain r k' where r: "fetch_result path a (Some (file_message bytes f)) k = (Some (bare_message packet), Inr r, k')"
    "rx_reference r = sr_reference s" "rg_read_only (rx_region r)"
    "contents k' (rg_descriptor (rx_region r)) = Some (mf_data mf)" "frame {} {rg_descriptor (rx_region r)} k k'" by auto
  have "contents (pw_kernel w) (rg_descriptor (sr_region s)) = Some (mf_data mf)" using f by (simp add: contents_def)
  with sent r show ?thesis by (metis option.distinct(1))
qed

section \<open>The daemon drives the runtime\<close>






section \<open>A sample daemon\<close>

text \<open>It has the result of agent 7 of \<open>demo_published\<close>; the client's process sees the same files.\<close>

definition sample_daemon :: daemon where
  "sample_daemon = (new_daemon lone_config ''/tmp/c'' no_groups bare_kernel)
     \<lparr>dm_runtime := (new_runtime lone_config no_groups bare_kernel)
        \<lparr>rt_store := pw_store demo_published, rt_kernel := pw_kernel demo_published\<rparr>\<rparr>"

lemma sample_daemon_facts:
  "rt_store (dm_runtime sample_daemon) = pw_store demo_published" "dm_kernel sample_daemon = pw_kernel demo_published"
  "kernel_ok (pw_kernel demo_published)" "k_faults (pw_kernel demo_published) = []"
  "memfile_of (pw_kernel demo_published) 0 \<noteq> None"
proof -
  show "kernel_ok (pw_kernel demo_published)" by (rule process_okD(1) [OF memory_reachable_ok [OF demo_memory(2)]])
  show "k_faults (pw_kernel demo_published) = []" "memfile_of (pw_kernel demo_published) 0 \<noteq> None" by code_simp+
qed (simp_all add: sample_daemon_def)

lemma sample_packet:
  obtains packet where "encode_control_request (result_request 7) = Inr packet"
    "control_message_ok (dm_kernel sample_daemon) (bare_message packet)" "length packet \<le> kMaxControlMessageSize"
proof -
  obtain packet where "encode_control_request (result_request 7) = Inr packet" using result_request_encodes by blast
  with that encoded_request [OF this] show thesis by (simp add: control_message_ok_def)
qed

lemma daemon_account_witness:
  "\<exists>packet reply dm'. encode_control_request (result_request 7) = Inr packet \<and>
    daemon_client True 0 (Some (bare_message packet)) sample_daemon = (reply, dm') \<and>
    table_after (pw_kernel demo_published) (released (pw_store demo_published) (rt_store (dm_runtime dm'))) (dm_kernel dm')"
proof -
  obtain packet where p: "encode_control_request (result_request 7) = Inr packet"
    "control_message_ok (dm_kernel sample_daemon) (bare_message packet)" by (rule sample_packet)
  obtain reply dm' where d: "daemon_client True 0 (Some (bare_message packet)) sample_daemon = (reply, dm')" by fastforce
  from daemon_account [OF _ _ d] p d sample_daemon_facts show ?thesis by auto
qed


lemma result_fetched_witness:
  "\<exists>request reply r k'. fetch_result ''/tmp/c'' 7 (Some reply) (pw_kernel demo_published) = (Some request, Inr r, k') \<and>
    contents k' (rg_descriptor (rx_region r)) = Some [1, 2, 3]"
proof -
  have "map_option (\<lambda>s. contents (pw_kernel demo_published) (rg_descriptor (sr_region s))) (map_of (pw_store demo_published) 7)
      = Some (Some [1, 2, 3])" by code_simp
  then obtain s where s: "map_of (pw_store demo_published) 7 = Some s"
    "contents (pw_kernel demo_published) (rg_descriptor (sr_region s)) = Some [1, 2, 3]" by auto
  have "(7 :: agent_id) \<noteq> kInvalidAgentId" by simp
  from result_fetched [OF demo_memory(2) sample_daemon_facts(1,2,4) s(1) this sample_daemon_facts(3,4), of "''/tmp/c''"] s(2)
  show ?thesis by (simp add: sun_path_size_def) blast
qed


lemma second_descriptor_leaks_witness:
  "\<exists>reply dm' d. daemon_client True 0 (Some \<lparr>ms_bytes = [1], ms_headers = [Rights [0, 0] False], ms_cut = False\<rparr>)
      sample_daemon = (reply, dm') \<and>
    file_of (dm_kernel sample_daemon) d = None \<and> file_of (dm_kernel dm') d = Some 0"
proof -
  let ?m = "\<lparr>ms_bytes = [1], ms_headers = [Rights [0, 0] False], ms_cut = False\<rparr>"
  obtain reply dm' where d: "daemon_client True 0 (Some ?m) sample_daemon = (reply, dm')" by fastforce
  from second_descriptor_leaks [OF _ _ _ _ _ _ d, of 0 0] d sample_daemon_facts show ?thesis by auto
qed

end
