(* ===== verification/Json_Text.thy ===== *)
theory Json_Text
  imports Complex_Main Text_IO
begin

text \<open>
  The reading of fields out of a JSON object as the service does it for a model payload
  (\<^verbatim>\<open>agent_runtime_top/src/top_runtime.cpp\<close>): the first occurrence of the quoted key is looked for
  anywhere in the text. The theorem says for which objects this finds the field.
\<close>

section \<open>The reader\<close>

abbreviation quote :: char where
  "quote \<equiv> CHR 0x22"

abbreviation backslash :: char where
  "backslash \<equiv> CHR 0x5C"

definition skip_space :: "string \<Rightarrow> string" where
  "skip_space s = dropWhile is_space s"

text \<open>\<open>json_value_position\<close>, as the text from the value on.\<close>

definition json_value :: "string \<Rightarrow> string \<Rightarrow> string option" where
  "json_value json key =
     (case find_from (quote # key @ [quote]) json of
        None \<Rightarrow> None
      | Some s \<Rightarrow>
          let s = skip_space (drop (length key + 2) s)
          in if s = [] \<or> hd s \<noteq> CHR '':'' then None else Some (skip_space (tl s)))"

definition unescape :: "char \<Rightarrow> char option" where
  "unescape c =
     (if c = quote then Some quote else if c = backslash then Some backslash
      else if c = CHR ''/'' then Some (CHR ''/'') else if c = CHR ''b'' then Some (CHR 0x08)
      else if c = CHR ''f'' then Some (CHR 0x0C) else if c = CHR ''n'' then Some (CHR 0x0A)
      else if c = CHR ''r'' then Some (CHR 0x0D) else if c = CHR ''t'' then Some (CHR 0x09) else None)"

fun json_body :: "string \<Rightarrow> string option" where
  "json_body [] = None"
| "json_body (c # cs) =
     (if c = quote then Some []
      else if c \<noteq> backslash then map_option (Cons c) (json_body cs)
      else case cs of
        [] \<Rightarrow> None
      | e # cs \<Rightarrow> (case unescape e of None \<Rightarrow> None | Some x \<Rightarrow> map_option (Cons x) (json_body cs)))"

definition json_string :: "string \<Rightarrow> string \<Rightarrow> string option" where
  "json_string json key =
     (case json_value json key of
        None \<Rightarrow> None
      | Some s \<Rightarrow> if s = [] \<or> hd s \<noteq> quote then None else json_body (tl s))"

text \<open>
  \<open>std::strtoll\<close> in base 10: leading space, a sign, the longest run of digits. A value outside the
  range of the result type, and so also one that \<open>strtoll\<close> saturates, is refused.
\<close>

definition json_int :: "string \<Rightarrow> string \<Rightarrow> int option" where
  "json_int json key =
     (case json_value json key of
        None \<Rightarrow> None
      | Some s \<Rightarrow>
          let s = skip_space s;
              neg = (s \<noteq> [] \<and> hd s = CHR ''-'');
              s = (if s \<noteq> [] \<and> (hd s = CHR ''-'' \<or> hd s = CHR ''+'') then tl s else s);
              ds = takeWhile is_digit s;
              v = (if neg then - int (string_to_nat ds) else int (string_to_nat ds))
          in if ds = [] \<or> v < - (2 ^ 31) \<or> v > 2 ^ 31 - 1 then None else Some v)"

text \<open>A \<open>float\<close>; every comparison with \<open>Nan\<close> is false.\<close>

datatype cfloat = Finite rat | Infinite bool | Nan

fun float_less :: "cfloat \<Rightarrow> cfloat \<Rightarrow> bool" where
  "float_less (Finite a) (Finite b) = (a < b)"
| "float_less (Finite a) (Infinite positive) = positive"
| "float_less (Infinite positive) (Finite b) = (\<not> positive)"
| "float_less (Infinite p) (Infinite q) = (\<not> p \<and> q)"
| "float_less _ _ = False"

definition float_less_eq :: "cfloat \<Rightarrow> cfloat \<Rightarrow> bool" where
  "float_less_eq a b \<longleftrightarrow> float_less a b \<or> a = b \<and> a \<noteq> Nan"

text \<open>\<open>strtof\<close> is the reader of the C library: \<open>None\<close> when it reads no number.\<close>

definition json_float :: "(string \<Rightarrow> cfloat option) \<Rightarrow> string \<Rightarrow> string \<Rightarrow> cfloat option" where
  "json_float strtof json key = Option.bind (json_value json key) strtof"

section \<open>Objects of strings\<close>

text \<open>How a client writes an object of strings.\<close>

fun escape_char :: "char \<Rightarrow> string" where
  "escape_char c =
     (if c = quote then [backslash, quote] else if c = backslash then [backslash, backslash]
      else if c = CHR 0x08 then [backslash, CHR ''b''] else if c = CHR 0x0C then [backslash, CHR ''f'']
      else if c = CHR 0x0A then [backslash, CHR ''n''] else if c = CHR 0x0D then [backslash, CHR ''r'']
      else if c = CHR 0x09 then [backslash, CHR ''t''] else [c])"

definition escape :: "string \<Rightarrow> string" where
  "escape s = concat (map escape_char s)"

definition json_field :: "string \<times> string \<Rightarrow> string" where
  "json_field kv = quote # fst kv @ quote # CHR '':'' # quote # escape (snd kv) @ [quote]"

fun json_fields :: "(string \<times> string) list \<Rightarrow> string" where
  "json_fields [] = ''}''"
| "json_fields [kv] = json_field kv @ ''}''"
| "json_fields (kv # kvs) = json_field kv @ '','' @ json_fields kvs"

definition json_object :: "(string \<times> string) list \<Rightarrow> string" where
  "json_object kvs = ''{'' @ json_fields kvs"

definition plain_key :: "string \<Rightarrow> bool" where
  "plain_key k \<longleftrightarrow> k \<noteq> [] \<and> set k \<inter> {quote, backslash, CHR '':'', CHR '','', CHR ''}''} = {}"

text \<open>A value hides a key when it is the key, or ends with a quote and the key.\<close>

definition hides :: "string \<Rightarrow> string \<Rightarrow> bool" where
  "hides v key \<longleftrightarrow> v = key \<or> (\<exists>p. v = p @ quote # key)"

lemma escape_simps [simp]: "escape [] = []" "escape (c # cs) = escape_char c @ escape cs"
  by (simp_all add: escape_def)

text \<open>Reading back a string that was escaped.\<close>

lemma json_body_escape: "json_body (escape v @ quote # rest) = Some v"
proof (induction v)
  case (Cons c v)
  then show ?case by (auto simp: unescape_def)
qed simp

text \<open>Where the quoted key cannot be.\<close>

abbreviation marker :: "string \<Rightarrow> string" where
  "marker key \<equiv> quote # key @ [quote]"

lemma no_match_skip: "take (length pat) (c # cs) \<noteq> pat \<Longrightarrow> find_from pat (c # cs) = find_from pat cs"
  by simp

lemma marker_match: "take (length (marker key)) (c # cs) = marker key \<longleftrightarrow> c = quote \<and> (\<exists>r. cs = key @ quote # r)"
proof -
  have "take (length (marker key)) (c # cs) = marker key \<longleftrightarrow> c = quote \<and> take (length key + 1) cs = key @ [quote]" by simp
  also have "take (length key + 1) cs = key @ [quote] \<longleftrightarrow> (\<exists>r. cs = key @ quote # r)"
    by (metis append.assoc append_Cons append_Nil append_eq_conv_conj append_take_drop_id length_append_singleton
      Suc_eq_plus1)
  finally show ?thesis .
qed

lemma find_skip: "\<not> (c = quote \<and> (\<exists>r. cs = key @ quote # r)) \<Longrightarrow> find_from (marker key) (c # cs) = find_from (marker key) cs"
  using marker_match [of key c cs] no_match_skip by metis

lemma find_here: "find_from (marker key) (quote # key @ quote # r) = Some (quote # key @ quote # r)"
  using marker_match [of key quote "key @ quote # r"] by (simp del: take_Suc_Cons)

text \<open>Over a text without quotes.\<close>

lemma find_over: "quote \<notin> set xs \<Longrightarrow> find_from (marker key) (xs @ ys) = find_from (marker key) ys"
proof (induction xs)
  case (Cons x xs)
  have "find_from (marker key) (x # xs @ ys) = find_from (marker key) (xs @ ys)" using Cons.prems by (intro find_skip) auto
  then show ?case using Cons by simp
qed simp

lemma same_up_to_quote: "quote \<notin> set a \<Longrightarrow> quote \<notin> set b \<Longrightarrow> a @ quote # r = b @ quote # s \<Longrightarrow> a = b"
proof (induction a arbitrary: b)
  case Nil
  then show ?case by (cases b) auto
next
  case (Cons x a)
  then show ?case by (cases b) auto
qed

text \<open>An escaped value that starts with the key and a quote is the key.\<close>

lemma escaped_prefix:
  assumes "quote \<notin> set key" and "backslash \<notin> set key" and "escape v @ quote # s = key @ quote # r"
  shows "v = key"
  using assms
proof (induction v arbitrary: key)
  case Nil
  then show ?case by (cases key) auto
next
  case (Cons c v)
  show ?case
  proof (cases key)
    case Nil
    with Cons.prems show ?thesis by (auto split: if_splits)
  next
    case (Cons k ks)
    with Cons.prems have "k \<noteq> backslash" by auto
    with Cons.prems(3) Cons have "escape_char c = [c]" "k = c" by (auto split: if_splits)
    with Cons.prems Cons Cons.IH [of ks] show ?thesis by simp
  qed
qed

text \<open>Over an escaped value that neither is the key nor ends with a quote and the key.\<close>

lemma find_over_escaped:
  assumes "quote \<notin> set key" and "backslash \<notin> set key" and "\<not> (\<exists>p. v = p @ quote # key)"
  shows "find_from (marker key) (escape v @ quote # s) = find_from (marker key) (quote # s)"
  using assms(3)
proof (induction v)
  case (Cons c v)
  have ih: "find_from (marker key) (escape v @ quote # s) = find_from (marker key) (quote # s)"
    using Cons by (metis append_Cons)
  have esc: "\<not> (\<exists>r. escape v @ quote # s = key @ quote # r)" if "c = quote"
  proof
    assume "\<exists>r. escape v @ quote # s = key @ quote # r"
    then have "v = key" using escaped_prefix [OF assms(1,2)] by blast
    with that Cons.prems show False by (metis append_Nil)
  qed
  have slash: "find_from (marker key) (backslash # xs) = find_from (marker key) xs" for xs by (rule find_skip) simp
  have other: "find_from (marker key) (d # xs) = find_from (marker key) xs" if "d \<noteq> quote" for d xs
    using that by (intro find_skip) simp
  show ?case
  proof (cases "c = quote")
    case True
    then have "find_from (marker key) (quote # escape v @ quote # s) = find_from (marker key) (escape v @ quote # s)"
      using esc by (intro find_skip) simp
    with True ih slash show ?thesis by (simp del: find_from.simps)
  next
    case False
    with ih slash other show ?thesis by (auto simp del: find_from.simps)
  qed
qed simp

text \<open>Over a whole field of another key.\<close>

lemma find_over_field:
  assumes key: "plain_key key" and k: "plain_key k" "k \<noteq> key" and v: "\<not> hides v key" and s: "s \<noteq> []" "hd s \<notin> set key"
  shows "find_from (marker key) (json_field (k, v) @ s) = find_from (marker key) s"
proof -
  let ?find = "find_from (marker key)"
  have q: "quote \<notin> set key" "backslash \<notin> set key" "CHR '':'' \<notin> set key" "key \<noteq> []" "quote \<notin> set k"
    using key k(1) by (auto simp: plain_key_def)
  let ?v = "escape v @ quote # s"
  have "?find (quote # k @ quote # CHR '':'' # quote # ?v) = ?find (k @ quote # CHR '':'' # quote # ?v)"
    using same_up_to_quote [OF q(5,1)] k(2) by (intro find_skip) metis
  also have "\<dots> = ?find (quote # CHR '':'' # quote # ?v)" by (rule find_over [OF q(5)])
  also have "\<dots> = ?find (CHR '':'' # quote # ?v)" using q(3,4) by (intro find_skip) (cases key, auto)
  also have "\<dots> = ?find (quote # ?v)" by (rule find_skip) simp
  also have "\<dots> = ?find ?v" using escaped_prefix [OF q(1,2)] v by (intro find_skip) (auto simp: hides_def)
  also have "\<dots> = ?find (quote # s)" by (rule find_over_escaped [OF q(1,2)]) (use v in \<open>simp add: hides_def\<close>)
  also have "\<dots> = ?find s" using s q(4) by (intro find_skip) (cases key, auto)
  finally show ?thesis by (simp add: json_field_def)
qed

lemma is_space_quote [simp]: "\<not> is_space quote"
  by (simp add: is_space_def)

lemma json_string_here: "find_from (marker key) json = Some (json_field (key, v) @ s) \<Longrightarrow> json_string json key = Some v"
  by (simp add: json_string_def json_value_def json_field_def skip_space_def is_space_def json_body_escape)

lemma json_fields_find:
  assumes key: "plain_key key"
    and "\<forall>(k, v) \<in> set kvs. plain_key k \<and> \<not> hides v key"
  shows "case map_of kvs key of
      None \<Rightarrow> find_from (marker key) (json_fields kvs) = None
    | Some v \<Rightarrow> \<exists>s. find_from (marker key) (json_fields kvs) = Some (json_field (key, v) @ s)"
  using assms(2)
proof (induction kvs rule: json_fields.induct)
  case 1
  show ?case by simp
next
  case (2 kv)
  obtain k v where kv: "kv = (k, v)" by fastforce
  show ?case
  proof (cases "k = key")
    case True
    have "find_from (marker key) (json_field (key, v) @ ''}'') = Some (json_field (key, v) @ ''}'')"
      using find_here [of key] by (simp add: json_field_def)
    with True kv show ?thesis by auto
  next
    case False
    have "find_from (marker key) (json_field (k, v) @ ''}'') = find_from (marker key) ''}''"
      using 2 kv False key by (intro find_over_field [OF key]) (auto simp: plain_key_def)
    with False kv show ?thesis by simp
  qed
next
  case (3 kv kv2 kvs)
  obtain k v where kv: "kv = (k, v)" by fastforce
  show ?case
  proof (cases "k = key")
    case True
    have "find_from (marker key) (json_field (key, v) @ s) = Some (json_field (key, v) @ s)" for s
      using find_here [of key] by (simp add: json_field_def)
    with True kv show ?thesis by auto
  next
    case False
    have "find_from (marker key) (json_field (k, v) @ '','' @ json_fields (kv2 # kvs)) =
        find_from (marker key) ('','' @ json_fields (kv2 # kvs))"
      using 3(2) kv False key by (intro find_over_field [OF key]) (auto simp: plain_key_def)
    also have "\<dots> = find_from (marker key) (json_fields (kv2 # kvs))" by (rule find_over) simp
    finally have eq: "find_from (marker key) (json_fields (kv # kv2 # kvs)) = find_from (marker key) (json_fields (kv2 # kvs))"
      by (simp add: kv)
    have m: "map_of (kv # kv2 # kvs) key = map_of (kv2 # kvs) key" using False kv by simp
    show ?thesis unfolding eq m by (rule 3(1)) (use 3(2) in simp)
  qed
qed

text \<open>
  The reader finds every field of an object of strings, whatever the values contain and in whatever
  order the fields come, and reports a key that is not there, as long as no value is the key
  itself or ends with a quote followed by the key.
\<close>

theorem json_string_object:
  assumes "plain_key key" and "\<forall>(k, v) \<in> set kvs. plain_key k \<and> \<not> hides v key"
  shows "json_string (json_object kvs) key = map_of kvs key"
proof -
  have "find_from (marker key) (json_object kvs) = find_from (marker key) (json_fields kvs)"
    using find_over [of "''{''" key "json_fields kvs"] by (simp add: json_object_def)
  note found = json_fields_find [OF assms, folded this]
  show ?thesis
  proof (cases "map_of kvs key")
    case None
    with found show ?thesis by (simp add: json_string_def json_value_def)
  next
    case (Some v)
    with found json_string_here [of key "json_object kvs" v] show ?thesis by auto
  qed
qed

lemma json_string_object_witness:
  "json_string (json_object [(''system_prompt'', ''Say '' @ [quote] @ ''prompt: ''), (''prompt'', [quote, backslash])])
     ''prompt'' = Some [quote, backslash]"
  using json_string_object [of "''prompt''"
    "[(''system_prompt'', ''Say '' @ [quote] @ ''prompt: ''), (''prompt'', [quote, backslash])]"]
  by (auto simp: plain_key_def hides_def dest!: arg_cong [of _ _ rev])

text \<open>A value that is the key hides the field.\<close>

theorem json_key_hidden:
  "json_string (json_object [(''mode'', ''prompt''), (''prompt'', ''hello'')]) ''prompt'' = None"
  by code_simp

end
