(* ===== verification/Tool_Manager.thy ===== *)
theory Tool_Manager
  imports Invocation_Channel Process_Executor "HOL-Library.List_Lexorder" "HOL-Library.Char_ord"
begin

text \<open>
  The tools of the service (\<^verbatim>\<open>agent_runtime_top/src/tool_manager.cpp\<close>): the built-in echo, concat and
  shell tools and the registry that dispatches to them. The answers of \<^verbatim>\<open>cancel_requested\<close> are a list,
  one per call; the time a tool takes and what its process meets are arguments.
\<close>

section \<open>Results\<close>

record tool_result =
  tr_status :: invocation_status
  tr_message :: string
  tr_output :: string
  tr_output_type :: u32
  tr_process_id :: i64
  tr_execution_time_us :: u64
  tr_truncated :: bool

definition default_tool_result :: tool_result where
  "default_tool_result = \<lparr>tr_status = St_ok, tr_message = [], tr_output = [], tr_output_type = data_text_utf8,
     tr_process_id = - 1, tr_execution_time_us = 0, tr_truncated = False\<rparr>"

definition kMaxToolOutputBytes :: nat where
  "kMaxToolOutputBytes = 1024 * 1024"

text \<open>A tool sees the memory of the process, its request, its inputs and the answers about the cancellation.\<close>

type_synonym tool_handler = "kernel \<Rightarrow> invocation_request \<Rightarrow> mapped_input list \<Rightarrow> bool list \<Rightarrow> tool_result"

definition rejected :: "string \<Rightarrow> tool_result" where
  "rejected msg = default_tool_result\<lparr>tr_status := St_rejected, tr_message := msg\<rparr>"

definition cancelled_result :: "string \<Rightarrow> tool_result" where
  "cancelled_result msg = default_tool_result\<lparr>tr_status := St_cancelled, tr_message := msg\<rparr>"

section \<open>The built-in tools\<close>

text \<open>The bytes that a mapped region shows.\<close>

definition region_bytes :: "kernel \<Rightarrow> region \<Rightarrow> u8 list" where
  "region_bytes k r = (case rg_address r of
     None \<Rightarrow> [] | Some (f, _) \<Rightarrow> (case memfile_of k f of None \<Rightarrow> [] | Some mf \<Rightarrow> mf_data mf))"

definition input_text :: "kernel \<Rightarrow> mapped_input \<Rightarrow> string" where
  "input_text k x = map char_of_byte (take (unat (br_length (mi_reference x)))
     (drop (unat (br_offset (mi_reference x))) (region_bytes k (mi_region x))))"

text \<open>The next answer of \<^verbatim>\<open>cancel_requested\<close>; no when there is none left.\<close>

fun ask :: "bool list \<Rightarrow> bool \<times> bool list" where
  "ask [] = (False, [])"
| "ask (b # bs) = (b, bs)"

definition echo_tool :: tool_handler where
  "echo_tool k q inputs cancel =
     (if nq_operation q \<noteq> ''execute'' then rejected ''echo tool only supports operation=execute''
      else if fst (ask cancel) then cancelled_result ''echo tool cancelled''
      else if nq_payload q = [] \<and> inputs \<noteq> [] \<and> unat (br_length (mi_reference (hd inputs))) > kMaxToolOutputBytes
      then rejected ''echo output exceeds size limit''
      else let out = (if nq_payload q = [] \<and> inputs \<noteq> [] then input_text k (hd inputs) else nq_payload q)
      in if length out > kMaxToolOutputBytes then rejected ''echo output exceeds size limit''
         else default_tool_result\<lparr>tr_output := out\<rparr>)"

fun concat_inputs :: "kernel \<Rightarrow> mapped_input list \<Rightarrow> bool list \<Rightarrow> string \<Rightarrow> tool_result" where
  "concat_inputs k [] cancel out = default_tool_result\<lparr>tr_output := out\<rparr>"
| "concat_inputs k (x # xs) cancel out =
     (case ask cancel of (stop, cancel) \<Rightarrow>
        if stop then cancelled_result ''concat tool cancelled''
        else if unat (br_length (mi_reference x)) > kMaxToolOutputBytes - length out
        then rejected ''combined tool input exceeds size limit''
        else concat_inputs k xs cancel (out @ input_text k x))"

definition concat_tool :: tool_handler where
  "concat_tool k q inputs cancel =
     (if nq_operation q \<noteq> ''execute'' then rejected ''concat tool only supports operation=execute''
      else if length (nq_payload q) > kMaxToolOutputBytes
      then rejected ''combined tool output exceeds size limit''
      else concat_inputs k inputs cancel (nq_payload q))"

text \<open>
  \<open>before\<close> is the cancel flag when the process would be started, \<open>after\<close> when it has been waited for;
  the watcher only ever sets it. \<open>None\<close>: the process is still waited for.
\<close>

definition shell_tool :: "run_env \<Rightarrow> bool \<Rightarrow> bool \<Rightarrow> invocation_request \<Rightarrow> tool_result option" where
  "shell_tool e before after q =
     (if nq_operation q \<noteq> ''execute'' \<or> nq_payload q = []
      then Some (rejected ''shell tool requires operation=execute and a command payload'')
      else case fst (run_process [''/bin/sh'', ''-c'', nq_payload q] (sint (rr_timeout (nq_resources q)))
             before None (Some kMaxToolOutputBytes) e ()) of
        None \<Rightarrow> None
      | Some (p, s) \<Rightarrow>
          let r = default_tool_result\<lparr>tr_process_id := ps_process_id p,
                tr_output := map char_of_byte (ps_output p), tr_truncated := ps_truncated p\<rparr>
          in Some (if \<not> ps_started p then r\<lparr>tr_status := St_failed, tr_message := ps_error p\<rparr>
             else if after then r\<lparr>tr_status := St_cancelled, tr_message := ''shell tool cancelled''\<rparr>
             else if ps_timed_out p then r\<lparr>tr_status := St_failed, tr_message := ''shell tool timed out''\<rparr>
             else if ps_exit_code p \<noteq> 0
             then r\<lparr>tr_status := St_failed,
                    tr_message := ''shell tool exited with code '' @ int_to_string (ps_exit_code p)\<rparr>
             else r))"

section \<open>The registry\<close>

type_synonym tool_manager = "(string \<times> tool_handler) list"

text \<open>An empty handler is \<open>None\<close>.\<close>

definition register_tool :: "string \<Rightarrow> tool_handler option \<Rightarrow> tool_manager \<Rightarrow> (string + unit) \<times> tool_manager" where
  "register_tool name handler tools =
     (case handler of
        None \<Rightarrow> (Inl ''tool name and handler are required'', tools)
      | Some h \<Rightarrow>
          if name = [] then (Inl ''tool name and handler are required'', tools)
          else if map_of tools name \<noteq> None then (Inl ''tool is already registered'', tools)
          else (Inr (), tools @ [(name, h)]))"

text \<open>The shell tool, if it is enabled, is the handler \<open>shell\<close>.\<close>

definition new_tool_manager :: "tool_handler option \<Rightarrow> tool_manager" where
  "new_tool_manager shell =
     (let t = snd (register_tool ''echo'' (Some echo_tool) []);
          t = snd (register_tool ''concat'' (Some concat_tool) t)
      in if shell \<noteq> None then snd (register_tool ''shell'' shell t) else t)"

definition execute_tool :: "u64 \<Rightarrow> tool_manager \<Rightarrow> tool_handler" where
  "execute_tool elapsed tools k q inputs cancel =
     (case map_of tools (nq_target q) of
        None \<Rightarrow> rejected (''tool is not registered: '' @ nq_target q)
      | Some h \<Rightarrow>
          let r = h k q inputs cancel
          in if tr_execution_time_us r = 0 then r\<lparr>tr_execution_time_us := elapsed\<rparr> else r)"

definition list_tools :: "tool_manager \<Rightarrow> string list" where
  "list_tools tools = sort (map fst tools)"

section \<open>Properties\<close>

definition input_mapped :: "kernel \<Rightarrow> mapped_input \<Rightarrow> bool" where
  "input_mapped k x \<longleftrightarrow> unat (br_offset (mi_reference x)) + unat (br_length (mi_reference x)) \<le>
     length (region_bytes k (mi_region x))"

lemma length_input_text: "input_mapped k x \<Longrightarrow> length (input_text k x) = unat (br_length (mi_reference x))"
  by (simp add: input_mapped_def input_text_def)

lemma concat_inputs_exact:
  "list_all (input_mapped k) inputs \<Longrightarrow> True \<notin> set cancel \<Longrightarrow> length out \<le> kMaxToolOutputBytes \<Longrightarrow>
   concat_inputs k inputs cancel out =
     (if length (out @ concat (map (input_text k) inputs)) \<le> kMaxToolOutputBytes
      then default_tool_result\<lparr>tr_output := out @ concat (map (input_text k) inputs)\<rparr>
      else rejected ''combined tool input exceeds size limit'')"
proof (induction k inputs cancel out rule: concat_inputs.induct)
  case (2 k x xs cancel out)
  have len: "length (input_text k x) = unat (br_length (mi_reference x))" using 2(2) by (simp add: length_input_text)
  obtain c where c: "ask cancel = (False, c)" "True \<notin> set c" using 2(3) by (cases cancel) auto
  show ?case
  proof (cases "length out + length (input_text k x) \<le> kMaxToolOutputBytes")
    case True
    then have "\<not> unat (br_length (mi_reference x)) > kMaxToolOutputBytes - length out" using len by linarith
    with 2(1) [OF c(1) [symmetric] _ this] 2(2) c True show ?thesis by (simp add: add.assoc)
  next
    case False
    then have "unat (br_length (mi_reference x)) > kMaxToolOutputBytes - length out" using len 2(4) by linarith
    with c False show ?thesis by simp
  qed
qed simp

text \<open>
  The concat tool, when nobody cancels it, answers with the payload followed by the bytes of every
  input, in order, exactly when they are together within a megabyte, and otherwise refuses with no
  output; the running subtraction in its test never wraps.
\<close>

theorem concat_tool_exact:
  assumes "nq_operation q = ''execute''" and "list_all (input_mapped k) inputs" and "True \<notin> set cancel"
  shows "let out = nq_payload q @ concat (map (input_text k) inputs);
             r = concat_tool k q inputs cancel
    in if length out \<le> kMaxToolOutputBytes then tr_status r = St_ok \<and> tr_output r = out
       else tr_status r = St_rejected \<and> tr_output r = []"
proof (cases "length (nq_payload q) \<le> kMaxToolOutputBytes")
  case True
  with concat_inputs_exact [OF assms(2,3) True] assms(1) show ?thesis
    by (simp add: concat_tool_def Let_def rejected_def default_tool_result_def)
next
  case False
  with assms(1) show ?thesis by (simp add: concat_tool_def Let_def rejected_def default_tool_result_def)
qed

lemma concat_tool_exact_witness:
  "tr_output (concat_tool
     \<lparr>k_open = [], k_files = [(0, \<lparr>mf_data = [104, 105, 33], mf_sealed = True, mf_writers = 0\<rparr>)],
      k_next_file = 1, k_faults = [], k_pid = 9, k_next_region = 2\<rparr>
     (default_invocation_request\<lparr>nq_operation := ''execute'', nq_payload := ''oh ''\<rparr>)
     [\<lparr>mi_producer_id = 4, mi_reference = default_ref\<lparr>br_offset := 1, br_length := 2\<rparr>,
       mi_region = empty_region\<lparr>rg_address := Some (0, False)\<rparr>\<rparr>] [False]) = ''oh i!''"
proof -
  let ?k = "\<lparr>k_open = [], k_files = [(0, \<lparr>mf_data = [104, 105, 33], mf_sealed = True, mf_writers = 0\<rparr>)],
      k_next_file = 1, k_faults = [], k_pid = 9, k_next_region = 2\<rparr>"
  let ?q = "default_invocation_request\<lparr>nq_operation := ''execute'', nq_payload := ''oh ''\<rparr>"
  let ?x = "\<lparr>mi_producer_id = 4, mi_reference = default_ref\<lparr>br_offset := 1, br_length := 2\<rparr>,
       mi_region = empty_region\<lparr>rg_address := Some (0, False)\<rparr>\<rparr>"
  have bytes: "region_bytes ?k (mi_region ?x) = [104, 105, 33]" by (simp add: region_bytes_def)
  have "input_mapped ?k ?x" unfolding input_mapped_def bytes by simp
  moreover have shown: "input_text ?k ?x = ''i!''"
    unfolding input_text_def bytes by (simp add: char_of_byte_def char_of_def bit_0)
  ultimately show ?thesis
    using concat_tool_exact [of ?q ?k "[?x]" "[False]"]
    by (simp add: Let_def kMaxToolOutputBytes_def default_invocation_request_def)
qed

text \<open>
  The registry: a name is taken once, keeps its handler, and the list is sorted and has exactly the
  registered names, whatever the order of the hash map.
\<close>

fun register_all :: "(string \<times> tool_handler option) list \<Rightarrow> tool_manager \<Rightarrow> tool_manager" where
  "register_all [] tools = tools"
| "register_all ((name, h) # xs) tools = register_all xs (snd (register_tool name h tools))"

lemma register_tool_keeps:
  "distinct (map fst tools) \<Longrightarrow> distinct (map fst (snd (register_tool name h tools)))"
  "map_of tools n = Some g \<Longrightarrow> map_of (snd (register_tool name h tools)) n = Some g"
  by (auto simp: register_tool_def map_add_def map_of_eq_None_iff split: option.splits)

lemma register_all_keeps:
  "distinct (map fst tools) \<Longrightarrow> distinct (map fst (register_all xs tools))"
  "map_of tools n = Some g \<Longrightarrow> map_of (register_all xs tools) n = Some g"
  by (induction xs tools rule: register_all.induct) (auto simp: register_tool_keeps)

lemma list_tools_registered:
  assumes "tools = register_all xs (new_tool_manager shell)"
  shows "sorted (list_tools tools)" and "distinct (list_tools tools)"
    and "n \<in> set (list_tools tools) \<longleftrightarrow> map_of tools n \<noteq> None"
    and "map_of tools ''echo'' = Some echo_tool" and "map_of tools ''concat'' = Some concat_tool"
proof -
  have new: "distinct (map fst (new_tool_manager shell))" "map_of (new_tool_manager shell) ''echo'' = Some echo_tool"
    "map_of (new_tool_manager shell) ''concat'' = Some concat_tool"
    by (auto simp: new_tool_manager_def register_tool_def Let_def split: option.splits)
  show "sorted (list_tools tools)" "distinct (list_tools tools)" "n \<in> set (list_tools tools) \<longleftrightarrow> map_of tools n \<noteq> None"
    "map_of tools ''echo'' = Some echo_tool" "map_of tools ''concat'' = Some concat_tool"
    using register_all_keeps(1) [OF new(1), of xs] register_all_keeps(2) [OF new(2), of xs]
      register_all_keeps(2) [OF new(3), of xs]
    by (auto simp: assms list_tools_def map_of_eq_None_iff)
qed

end
