(* ===== verification/Top_Runtime.thy ===== *)
theory Top_Runtime
  imports Json_Text Context_Steps Tool_Manager Shared_Memory_Inv
begin

text \<open>
  The service that executes model and tool invocations (\<^verbatim>\<open>agent_runtime_top/src/top_runtime.cpp\<close>): the
  model contexts with their checkpoints and conversations, and the handling of each operation. What
  the inference engine, the file system and the clock answer during one call is an argument; what the
  code asks of the engine is appended to a log. \<^verbatim>\<open>generate\<close> holds the conversation mutex throughout.
\<close>

section \<open>State\<close>

datatype kv_type = Kv_f16 | Kv_q8_0 | Kv_q4_0

record top_config =
  tc_model_path :: string
  tc_model_alias :: string
  tc_context_tokens :: u32
  tc_batch_tokens :: u32
  tc_cpu_threads :: u32
  tc_max_contexts :: u64
  tc_max_swapped :: u64
  tc_max_tokens :: u32
  tc_temperature :: cfloat
  tc_top_p :: cfloat
  tc_gpu_layers :: i32
  tc_kv_type_k :: kv_type
  tc_kv_type_v :: kv_type
  tc_use_mmap :: bool
  tc_use_mlock :: bool
  tc_shell_tool :: bool
  tc_chat_template :: bool
  tc_context_swap :: bool
  tc_swap_directory :: string

record context_snapshot =
  cs_path :: string
  cs_position :: int
  cs_bytes :: u64

type_synonym chat = "(string \<times> string) list"

record conversation =
  cv_messages :: chat
  cv_template :: bool

text \<open>The calls that reach a sequence of the engine.\<close>

datatype engine_call =
    Clear int
  | Save int context_id
  | Load int context_id
  | Infer int context_id bool

record top_runtime =
  tp_config :: top_config
  tp_contexts :: context_manager
  tp_tools :: tool_manager
  tp_model :: u64
  tp_initialized :: bool
  tp_swap_directory :: string
  tp_owns_directory :: bool
  tp_snapshots :: "(context_id \<times> context_snapshot) list"
  tp_snapshot_bytes :: u64
  tp_conversations :: "(context_id \<times> conversation) list"
  tp_calls :: "engine_call list"

definition kSharedPrefixSlots :: u64 where
  "kSharedPrefixSlots = 8"

definition LLM_MAX_PROMPT :: nat where
  "LLM_MAX_PROMPT = 131072"

definition LLM_MAX_MODEL_PATH :: nat where
  "LLM_MAX_MODEL_PATH = 256"

definition logical_context_limit :: "top_config \<Rightarrow> u64" where
  "logical_context_limit c =
     (if \<not> tc_context_swap c then tc_max_contexts c
      else if tc_max_swapped c > - 1 - tc_max_contexts c then - 1
      else tc_max_contexts c + tc_max_swapped c)"

definition new_top_runtime :: "tool_handler option \<Rightarrow> top_config \<Rightarrow> top_runtime" where
  "new_top_runtime shell c =
     \<lparr>tp_config = c, tp_contexts = new_manager (unat (tc_max_contexts c)) (unat (logical_context_limit c)),
      tp_tools = new_tool_manager (if tc_shell_tool c then shell else None), tp_model = 0,
      tp_initialized = False, tp_swap_directory = [], tp_owns_directory = False, tp_snapshots = [],
      tp_snapshot_bytes = 0, tp_conversations = [], tp_calls = []\<rparr>"

text \<open>
  What one call meets: the renderer of chats; the checkpoint that the engine writes, with position
  and size; whether it restores; whether the file calls of a swap succeed; the outcome of a warm-up
  and of the inference; the figures of the statistics as they are printed.
\<close>

record inference =
  if_result :: int
  if_text :: "string option"
  if_cancelled :: bool
  if_prompt_tokens :: int
  if_tokens_generated :: int
  if_reused_tokens :: int
  if_execution_us :: u64
  if_cache_bytes :: u64
  if_cache_hit :: bool

text \<open>What the engine is asked for.\<close>

record engine_request =
  er_prompt :: string
  er_system :: string
  er_sequence :: int
  er_first_turn :: bool
  er_close_turn :: bool
  er_cpu_threads :: u32
  er_temperature :: cfloat
  er_top_p :: cfloat
  er_max_tokens :: int

record top_env =
  te_now :: nat
  te_strtof :: "string \<Rightarrow> cfloat option"
  te_template :: "chat \<Rightarrow> bool \<Rightarrow> string option"
  te_checkpoint :: "(int \<times> u64) option"
  te_restores :: bool
  te_secured :: bool
  te_renamed :: bool
  te_removed :: bool
  te_warmup :: "string \<Rightarrow> int"
  te_inference :: "engine_request \<Rightarrow> inference"
  te_engine_stats :: "string list"
  te_elapsed :: u64

section \<open>The checkpoints of contexts\<close>

record store_env =
  se_runtime_directory :: "string option"
  se_temporary :: "string option"
  se_nonce :: u64
  se_created :: bool
  se_secured :: bool

definition swap_base :: "top_config \<Rightarrow> store_env \<Rightarrow> string option" where
  "swap_base c e =
     (if tc_swap_directory c \<noteq> [] then Some (tc_swap_directory c)
      else case se_runtime_directory e of
        Some d \<Rightarrow> if d \<noteq> [] then Some d else se_temporary e
      | None \<Rightarrow> se_temporary e)"

definition initialize_snapshot_store :: "store_env \<Rightarrow> top_runtime \<Rightarrow> (string + unit) \<times> top_runtime" where
  "initialize_snapshot_store e tp =
     (if \<not> tc_context_swap (tp_config tp) then (Inr (), tp)
      else case swap_base (tp_config tp) e of
        None \<Rightarrow> (Inl ''cannot locate a temporary directory'', tp)
      | Some base \<Rightarrow>
          let directory = path_join base (''agentnucleus-contexts-'' @ u64_to_string (se_nonce e))
          in if \<not> se_created e
             then (Inl (''cannot create context swap directory: '' @ directory), tp\<lparr>tp_owns_directory := False\<rparr>)
             else if \<not> se_secured e
             then (Inl (''cannot secure context swap directory: '' @ directory), tp\<lparr>tp_owns_directory := False\<rparr>)
             else (Inr (), tp\<lparr>tp_owns_directory := True, tp_swap_directory := directory\<rparr>))"

definition snapshot_path :: "top_runtime \<Rightarrow> context_id \<Rightarrow> string" where
  "snapshot_path tp c = path_join (tp_swap_directory tp) (''context-'' @ u64_to_string c @ ''.bin'')"

abbreviation snapshot_of :: "top_runtime \<Rightarrow> context_id \<Rightarrow> context_snapshot option" where
  "snapshot_of tp c \<equiv> map_of (tp_snapshots tp) c"

text \<open>
  \<open>swap_out_context\<close> in two parts: the answer to the context manager, and what a successful call has
  done. So for \<open>swap_in_context\<close>.
\<close>

definition swap_out_answer :: "top_env \<Rightarrow> top_runtime \<Rightarrow> swap_call" where
  "swap_out_answer e tp c q =
     (if tp_swap_directory tp = [] then Inl ''context swap is not initialized''
      else case te_checkpoint e of
        None \<Rightarrow> Inl ''cannot checkpoint llama sequence''
      | Some _ \<Rightarrow>
          if \<not> te_secured e then Inl ''cannot secure context checkpoint''
          else if \<not> te_renamed e then Inl ''cannot publish context checkpoint atomically''
          else Inr ())"

definition put_snapshot :: "context_id \<Rightarrow> context_snapshot \<Rightarrow> top_runtime \<Rightarrow> top_runtime" where
  "put_snapshot c s tp =
     (let total = (case snapshot_of tp c of None \<Rightarrow> tp_snapshot_bytes tp | Some old \<Rightarrow> tp_snapshot_bytes tp - cs_bytes old)
      in tp\<lparr>tp_snapshots := AList.update c s (tp_snapshots tp), tp_snapshot_bytes := total + cs_bytes s\<rparr>)"

definition swap_out_effect :: "top_env \<Rightarrow> context_id \<Rightarrow> int \<Rightarrow> top_runtime \<Rightarrow> top_runtime" where
  "swap_out_effect e c q tp =
     (case te_checkpoint e of
        None \<Rightarrow> tp
      | Some (position, bytes) \<Rightarrow>
          put_snapshot c \<lparr>cs_path = snapshot_path tp c, cs_position = position, cs_bytes = bytes\<rparr>
            (tp\<lparr>tp_calls := tp_calls tp @ [Save q c, Clear q]\<rparr>))"

definition swap_in_answer :: "top_env \<Rightarrow> top_runtime \<Rightarrow> swap_call" where
  "swap_in_answer e tp c q =
     (case snapshot_of tp c of
        None \<Rightarrow> Inl ''context checkpoint does not exist''
      | Some _ \<Rightarrow> if te_restores e then Inr () else Inl ''cannot restore llama sequence checkpoint'')"

definition erase_snapshot :: "context_id \<Rightarrow> top_runtime \<Rightarrow> top_runtime" where
  "erase_snapshot c tp =
     (case snapshot_of tp c of
        None \<Rightarrow> tp
      | Some s \<Rightarrow> tp\<lparr>tp_snapshots := AList.delete c (tp_snapshots tp), tp_snapshot_bytes := tp_snapshot_bytes tp - cs_bytes s\<rparr>)"

definition swap_in_effect :: "top_env \<Rightarrow> context_id \<Rightarrow> int \<Rightarrow> top_runtime \<Rightarrow> top_runtime" where
  "swap_in_effect e c q tp =
     (let tp = tp\<lparr>tp_calls := tp_calls tp @ [Load q c]\<rparr> in if te_removed e then erase_snapshot c tp else tp)"

definition remove_snapshot :: "context_id \<Rightarrow> top_runtime \<Rightarrow> top_runtime" where
  "remove_snapshot = erase_snapshot"

definition cleanup_snapshots :: "top_runtime \<Rightarrow> top_runtime" where
  "cleanup_snapshots tp =
     tp\<lparr>tp_snapshots := [], tp_snapshot_bytes := 0, tp_swap_directory := [], tp_owns_directory := False\<rparr>"

section \<open>Life cycle\<close>

definition int_max :: u32 where
  "int_max = 0x7fffffff"

definition config_invalid :: "top_config \<Rightarrow> bool" where
  "config_invalid c \<longleftrightarrow>
     tc_model_alias c = [] \<or> tc_model_path c = [] \<or> length (tc_model_path c) \<ge> LLM_MAX_MODEL_PATH \<or>
     tc_context_tokens c = 0 \<or> tc_context_tokens c > int_max \<or> tc_batch_tokens c = 0 \<or> tc_batch_tokens c > int_max \<or>
     tc_cpu_threads c = 0 \<or> tc_cpu_threads c > int_max \<or>
     tc_max_tokens c = 0 \<or> tc_max_tokens c > tc_context_tokens c \<or>
     float_less_eq (tc_temperature c) (Finite 0) \<or> float_less (Finite 2) (tc_temperature c) \<or>
     float_less_eq (tc_top_p c) (Finite 0) \<or> float_less (Finite 1) (tc_top_p c) \<or>
     tc_max_contexts c = 0 \<or> (tc_context_swap c \<and> tc_max_swapped c = 0) \<or>
     logical_context_limit c = - 1 \<or> tc_max_contexts c > 64 - kSharedPrefixSlots - 1"

text \<open>What the engine loads; the figures are of the type \<^verbatim>\<open>int\<close>.\<close>

record model_config =
  mc_model_path :: string
  mc_n_ctx :: int
  mc_n_batch :: int
  mc_n_seq_max :: int
  mc_n_threads :: int
  mc_n_gpu_layers :: int
  mc_temperature :: cfloat
  mc_top_p :: cfloat
  mc_max_tokens :: int
  mc_use_mmap :: bool
  mc_use_mlock :: bool
  mc_kv_type_k :: kv_type
  mc_kv_type_v :: kv_type

definition to_int :: "u64 \<Rightarrow> int" where
  "to_int w = sint (ucast w :: u32)"

definition make_model_config :: "top_config \<Rightarrow> model_config" where
  "make_model_config c =
     \<lparr>mc_model_path = take (LLM_MAX_MODEL_PATH - 1) (tc_model_path c), mc_n_ctx = sint (tc_context_tokens c),
      mc_n_batch = sint (tc_batch_tokens c), mc_n_seq_max = to_int (tc_max_contexts c + kSharedPrefixSlots + 1),
      mc_n_threads = sint (tc_cpu_threads c), mc_n_gpu_layers = sint (tc_gpu_layers c),
      mc_temperature = tc_temperature c, mc_top_p = tc_top_p c, mc_max_tokens = sint (tc_max_tokens c),
      mc_use_mmap = tc_use_mmap c, mc_use_mlock = tc_use_mlock c,
      mc_kv_type_k = tc_kv_type_k c, mc_kv_type_v = tc_kv_type_v c\<rparr>"

text \<open>Whether the engine starts, and the number of the model that it loads.\<close>

definition top_initialize :: "bool \<Rightarrow> (model_config \<Rightarrow> u64 option) \<Rightarrow> store_env \<Rightarrow> top_runtime \<Rightarrow> (string + unit) \<times> top_runtime" where
  "top_initialize engine load e tp =
     (if tp_initialized tp then (Inl ''top runtime is already initialized'', tp)
      else if config_invalid (tp_config tp) then (Inl ''invalid top runtime model/context configuration'', tp)
      else if \<not> engine then (Inl ''cannot initialize the LLM manager'', tp)
      else case load (make_model_config (tp_config tp)) of
        None \<Rightarrow> (Inl (''cannot load model: '' @ tc_model_path (tp_config tp)), tp)
      | Some m \<Rightarrow>
          (case initialize_snapshot_store e (tp\<lparr>tp_model := m\<rparr>) of
             (Inl err, tp) \<Rightarrow> (Inl err, tp\<lparr>tp_model := 0\<rparr>)
           | (Inr _, tp) \<Rightarrow> (Inr (), tp\<lparr>tp_initialized := True\<rparr>)))"

definition top_shutdown :: "top_runtime \<Rightarrow> top_runtime" where
  "top_shutdown tp =
     (if \<not> tp_initialized tp then tp
      else (cleanup_snapshots tp)\<lparr>tp_conversations := [], tp_model := 0, tp_initialized := False\<rparr>)"

section \<open>Results\<close>

definition problem :: "invocation_status \<Rightarrow> string \<Rightarrow> handler_result" where
  "problem st msg = default_handler_result\<lparr>hr_status := st, hr_message := msg\<rparr>"

text \<open>\<open>tell\<close>: the caller passed an error text to be filled in.\<close>

definition make_text_result :: "string \<Rightarrow> u32 \<Rightarrow> bool \<Rightarrow> kernel \<Rightarrow> handler_result \<times> kernel" where
  "make_text_result text ty tell k =
     (case region_create (max 1 (of_nat (length text))) k of
        (Inl e, k) \<Rightarrow> (problem St_failed (if tell then e else ''cannot allocate invocation output''), k)
      | (Inr r, k) \<Rightarrow>
          (default_handler_result\<lparr>hr_output := r, hr_output_length := of_nat (length text), hr_output_type := ty\<rparr>,
           if text \<noteq> [] then write_bytes r 0 (map byte_of_char text) k else k))"

definition format_chat :: "top_env \<Rightarrow> chat \<Rightarrow> bool \<Rightarrow> string option" where
  "format_chat e messages add = (if messages = [] then None else te_template e messages add)"

section \<open>Contexts\<close>

text \<open>The contexts that an acquisition has swapped, with the sequences.\<close>

definition is_resident :: "context_manager \<Rightarrow> context_id \<Rightarrow> bool" where
  "is_resident cm c = (case entry_of cm c of None \<Rightarrow> False | Some e \<Rightarrow> ce_resident e)"

definition swapped_out :: "context_manager \<Rightarrow> context_manager \<Rightarrow> (context_id \<times> int) list" where
  "swapped_out cm cm' =
     [(c, ce_sequence e). (c, e) \<leftarrow> cm_contexts cm, ce_resident e \<and> \<not> is_resident cm' c]"

definition swapped_in :: "context_manager \<Rightarrow> context_manager \<Rightarrow> (context_id \<times> int) list" where
  "swapped_in cm cm' =
     [(c, ce_sequence e). (c, e) \<leftarrow> cm_contexts cm', ce_resident e \<and> (case entry_of cm c of None \<Rightarrow> False | Some e0 \<Rightarrow> \<not> ce_resident e0)]"

text \<open>
  The acquisition with the two callbacks. It saves at most one context and then loads at most one
  other, so each callback sees the checkpoints as they are at the beginning.
\<close>

definition acquire_context ::
  "top_env \<Rightarrow> agent_id \<Rightarrow> agent_id \<Rightarrow> context_id \<Rightarrow> top_runtime \<Rightarrow> (string + context_lease) \<times> top_runtime" where
  "acquire_context e agent parent requested tp =
     (let cm = tp_contexts tp;
          swap = (if tc_context_swap (tp_config tp)
                  then Some \<lparr>sw_save = Some (swap_out_answer e tp), sw_load = Some (swap_in_answer e tp)\<rparr> else None)
      in case acquire (te_now e) agent parent requested swap cm of
        (r, cm') \<Rightarrow>
          (r, fold (\<lambda>(c, q). swap_in_effect e c q) (swapped_in cm cm')
                (fold (\<lambda>(c, q). swap_out_effect e c q) (swapped_out cm cm') (tp\<lparr>tp_contexts := cm'\<rparr>))))"

definition finish_context :: "top_env \<Rightarrow> context_id \<Rightarrow> top_runtime \<Rightarrow> top_runtime" where
  "finish_context e c tp = tp\<lparr>tp_contexts := snd (finish (te_now e) c (tp_contexts tp))\<rparr>"

definition clear_sequence :: "int \<Rightarrow> top_runtime \<Rightarrow> top_runtime" where
  "clear_sequence q tp = (if q \<ge> 0 then tp\<lparr>tp_calls := tp_calls tp @ [Clear q]\<rparr> else tp)"

text \<open>
  The operation \<^verbatim>\<open>release_context\<close>: what the context manager does, and then, outside of its mutex,
  what follows from it.
\<close>

definition release_begin ::
  "top_env \<Rightarrow> invocation_request \<Rightarrow> top_runtime \<Rightarrow> (string + (int \<times> bool)) \<times> top_runtime" where
  "release_begin e q tp =
     (if nq_context_id q = 0 then (Inl ''context id is required'', tp)
      else case release_context (te_now e) (nq_agent_id q) (nq_parent_id q) (nq_context_id q) (tp_contexts tp) of
        (Inl err, cm) \<Rightarrow> (Inl (if err = [] then ''context id is required'' else err), tp\<lparr>tp_contexts := cm\<rparr>)
      | (Inr x, cm) \<Rightarrow> (Inr x, tp\<lparr>tp_contexts := cm\<rparr>))"

definition release_end :: "context_id \<Rightarrow> int \<times> bool \<Rightarrow> top_runtime \<Rightarrow> top_runtime" where
  "release_end c x tp =
     (let tp = clear_sequence (fst x) tp
      in if snd x
         then (remove_snapshot c tp)\<lparr>tp_conversations := AList.delete c (tp_conversations tp)\<rparr>
         else tp)"

definition handle_release ::
  "top_env \<Rightarrow> invocation_request \<Rightarrow> kernel \<Rightarrow> top_runtime \<Rightarrow> handler_result \<times> kernel \<times> top_runtime" where
  "handle_release e q k tp =
     (case release_begin e q tp of
        (Inl err, tp) \<Rightarrow> (problem St_rejected err, k, tp)
      | (Inr x, tp) \<Rightarrow>
          (case make_text_result (''{'' @ [quote] @ ''released'' @ [quote] @ '':true}'') data_json_utf8 False k of
             (r, k) \<Rightarrow> (r, k, release_end (nq_context_id q) x tp)))"


section \<open>Statistics and warm-up\<close>

text \<open>The figures of the engine come printed, in the order of the text.\<close>

definition json_pairs :: "(string \<times> string) list \<Rightarrow> string" where
  "json_pairs kvs = concat (map (\<lambda>(i, k, v). (if i = 0 then ''{'' else '','') @ [quote] @ k @ [quote] @ '':'' @ v)
     (enumerate 0 kvs)) @ ''}''"

definition stats_text :: "top_env \<Rightarrow> top_runtime \<Rightarrow> string" where
  "stats_text e tp =
     (let st = cm_stats (tp_contexts tp) in json_pairs
       (zip [''requests'', ''tokens'', ''prefix_evictions'', ''avg_latency_ms'', ''tokens_per_second'',
             ''shared_hits'', ''reused_tokens''] (te_engine_stats e) @
        [(''active_contexts'', u64_to_string (st_active_contexts st)),
         (''active_owners'', u64_to_string (st_active_owners st)),
         (''resident_contexts'', u64_to_string (st_resident st)),
         (''swapped_contexts'', u64_to_string (st_swapped st)),
         (''swap_outs'', u64_to_string (st_swap_outs st)), (''swap_ins'', u64_to_string (st_swap_ins st)),
         (''snapshot_count'', nat_to_string (length (tp_snapshots tp))),
         (''snapshot_bytes'', u64_to_string (tp_snapshot_bytes tp))]))"

text \<open>Whether the payload is taken as a JSON object.\<close>

definition is_object :: "string \<Rightarrow> bool" where
  "is_object payload \<longleftrightarrow> skip_space payload \<noteq> [] \<and> hd (skip_space payload) = CHR ''{''"

definition string_field :: "string \<Rightarrow> string \<Rightarrow> string" where
  "string_field payload key = (case json_string payload key of None \<Rightarrow> [] | Some v \<Rightarrow> v)"

text \<open>\<open>cancelled\<close>: the answer of \<^verbatim>\<open>cancel_requested\<close> after the encoding, when it is asked.\<close>

definition warmup_prompt :: "top_env \<Rightarrow> top_config \<Rightarrow> string \<Rightarrow> string" where
  "warmup_prompt e c prompt =
     (if tc_chat_template c
      then case format_chat e [(''system'', prompt)] False of Some formatted \<Rightarrow> formatted | None \<Rightarrow> prompt
      else prompt)"

definition handle_warmup ::
  "top_env \<Rightarrow> bool \<Rightarrow> invocation_request \<Rightarrow> kernel \<Rightarrow> top_runtime \<Rightarrow> handler_result \<times> kernel" where
  "handle_warmup e cancelled q k tp =
     (let prompt = (if is_object (nq_payload q) then string_field (nq_payload q) ''system_prompt'' else nq_payload q)
      in if prompt = [] \<or> length prompt > LLM_MAX_PROMPT
         then (problem St_rejected ''warmup_prefix requires a valid system prompt'', k)
         else let sequence = te_warmup e (warmup_prompt e (tp_config tp) prompt)
         in if sequence < 0
         then (if sequence = - 2 \<or> cancelled then problem St_cancelled ''shared prefix warmup cancelled''
               else problem St_failed ''shared prefix encoding failed'', k)
         else make_text_result (''{'' @ [quote] @ ''warmed'' @ [quote] @ '':true,'' @ [quote] @ ''reserved_sequence'' @
                [quote] @ '':'' @ int_to_string sequence @ ''}'') data_json_utf8 False k)"

section \<open>Generation\<close>

record generation =
  gn_prompt :: string
  gn_system :: string
  gn_max_tokens :: int
  gn_temperature :: cfloat
  gn_top_p :: cfloat

definition parse_generation :: "top_env \<Rightarrow> top_config \<Rightarrow> string \<Rightarrow> generation" where
  "parse_generation e c payload =
     (let g = \<lparr>gn_prompt = payload, gn_system = [], gn_max_tokens = sint (tc_max_tokens c),
            gn_temperature = tc_temperature c, gn_top_p = tc_top_p c\<rparr>;
          value_or = (\<lambda>v d. case v of None \<Rightarrow> d | Some x \<Rightarrow> x)
      in if is_object payload
         then g\<lparr>gn_prompt := string_field payload ''prompt'', gn_system := string_field payload ''system_prompt'',
                gn_max_tokens := (case json_int payload ''max_tokens'' of None \<Rightarrow> gn_max_tokens g | Some n \<Rightarrow> n),
                gn_temperature := value_or (json_float (te_strtof e) payload ''temperature'') (gn_temperature g),
                gn_top_p := value_or (json_float (te_strtof e) payload ''top_p'') (gn_top_p g)\<rparr>
         else g)"

definition mapped_text :: "kernel \<Rightarrow> mapped_input \<Rightarrow> string" where
  "mapped_text k x =
     (if br_data_type (mi_reference x) = data_text_utf8 \<or> br_data_type (mi_reference x) = data_json_utf8
      then input_text k x else [])"

definition dependency_marker :: "mapped_input \<Rightarrow> string" where
  "dependency_marker x =
     newline # ''[dependency '' @ u64_to_string (mi_producer_id x) @ '']'' @ [newline]"

fun append_inputs :: "kernel \<Rightarrow> mapped_input list \<Rightarrow> string \<Rightarrow> string + string" where
  "append_inputs k [] prompt = Inr prompt"
| "append_inputs k (x # xs) prompt =
     (if unat (br_length (mi_reference x)) > LLM_MAX_PROMPT then Inl ''model dependency input exceeds prompt limit''
      else let dependency = mapped_text k x; m = dependency_marker x
      in if dependency = [] then append_inputs k xs prompt
         else if length prompt > LLM_MAX_PROMPT \<or> length m > LLM_MAX_PROMPT - length prompt \<or>
                 length dependency > LLM_MAX_PROMPT - length prompt - length m
         then Inl ''combined model prompt exceeds size limit''
         else append_inputs k xs (prompt @ m @ dependency))"

definition generation_invalid :: "generation \<Rightarrow> bool" where
  "generation_invalid g \<longleftrightarrow>
     gn_prompt g = [] \<or> length (gn_prompt g) > LLM_MAX_PROMPT \<or> length (gn_system g) > LLM_MAX_PROMPT \<or>
     gn_max_tokens g \<le> 0 \<or> gn_max_tokens g > 4096 \<or>
     float_less (gn_temperature g) (Finite 0) \<or> float_less (Finite 2) (gn_temperature g) \<or>
     float_less_eq (gn_top_p g) (Finite 0) \<or> float_less (Finite 1) (gn_top_p g)"

definition starts_with :: "string \<Rightarrow> string \<Rightarrow> bool" where
  "starts_with s p \<longleftrightarrow> take (length p) s = p"

definition empty_conversation :: conversation where
  "empty_conversation = \<lparr>cv_messages = [], cv_template = True\<rparr>"

text \<open>The conversation of a leased context: a new one, the one that is kept, or one without a template.\<close>

definition lease_conversation :: "context_lease \<Rightarrow> top_runtime \<Rightarrow> conversation" where
  "lease_conversation l tp =
     (if cl_created l then empty_conversation\<lparr>cv_template := tc_chat_template (tp_config tp)\<rparr>
      else case map_of (tp_conversations tp) (cl_context_id l) of
        Some cv \<Rightarrow> cv
      | None \<Rightarrow> empty_conversation\<lparr>cv_template := False\<rparr>)"

definition put_conversation :: "context_id \<Rightarrow> conversation \<Rightarrow> top_runtime \<Rightarrow> top_runtime" where
  "put_conversation c cv tp = tp\<lparr>tp_conversations := AList.update c cv (tp_conversations tp)\<rparr>"

text \<open>
  What is asked of the engine, and how the messages and the template flag stand at that point. An
  error comes with the conversation as it is left.
\<close>

record prompt_plan =
  pl_conversation :: conversation
  pl_prompt :: string
  pl_system :: string
  pl_applied :: bool

definition first_plan :: "top_env \<Rightarrow> generation \<Rightarrow> conversation \<Rightarrow> prompt_plan" where
  "first_plan e g cv =
     (let msgs = cv_messages cv @ (if gn_system g = [] then [] else [(''system'', gn_system g)]) @
            [(''user'', gn_prompt g)]
      in case format_chat e msgs True of
        None \<Rightarrow> \<lparr>pl_conversation = \<lparr>cv_messages = [], cv_template = False\<rparr>, pl_prompt = gn_prompt g,
                 pl_system = gn_system g, pl_applied = False\<rparr>
      | Some full \<Rightarrow>
          let plan = \<lparr>pl_conversation = cv\<lparr>cv_messages := msgs\<rparr>, pl_prompt = full, pl_system = [], pl_applied = True\<rparr>
          in if gn_system g = [] then plan
             else case format_chat e [(''system'', gn_system g)] False of
               Some sys \<Rightarrow>
                 if starts_with full sys then plan\<lparr>pl_prompt := drop (length sys) full, pl_system := sys\<rparr> else plan
             | None \<Rightarrow> plan)"

definition next_plan :: "top_env \<Rightarrow> generation \<Rightarrow> conversation \<Rightarrow> string + prompt_plan" where
  "next_plan e g cv =
     (case format_chat e (cv_messages cv) False of
        None \<Rightarrow> Inl ''cannot render previous chat history''
      | Some previous \<Rightarrow>
          (let msgs = cv_messages cv @ [(''user'', gn_prompt g)]
           in case format_chat e msgs True of
             None \<Rightarrow> Inl ''cannot extend chat template history''
           | Some full \<Rightarrow>
               if starts_with full previous
               then Inr \<lparr>pl_conversation = cv\<lparr>cv_messages := msgs\<rparr>,
                      pl_prompt = (if previous \<noteq> [] \<and> last previous = newline
                                   then newline # drop (length previous) full else drop (length previous) full),
                      pl_system = [], pl_applied = True\<rparr>
               else Inl ''chat template history became inconsistent''))"

definition make_plan :: "top_env \<Rightarrow> generation \<Rightarrow> bool \<Rightarrow> conversation \<Rightarrow> string + prompt_plan" where
  "make_plan e g created cv =
     (if cv_template cv then if created then Inr (first_plan e g cv) else next_plan e g cv
      else Inr \<lparr>pl_conversation = cv, pl_prompt = gn_prompt g, pl_system = gn_system g, pl_applied = False\<rparr>)"

definition make_engine_request ::
  "top_config \<Rightarrow> generation \<Rightarrow> invocation_request \<Rightarrow> context_lease \<Rightarrow> prompt_plan \<Rightarrow> engine_request" where
  "make_engine_request c g q l plan =
     \<lparr>er_prompt = pl_prompt plan, er_system = pl_system plan, er_sequence = cl_sequence_id l,
      er_first_turn = cl_created l, er_close_turn = pl_applied plan,
      er_cpu_threads = min (rr_cpu_threads (nq_resources q)) (tc_cpu_threads c),
      er_temperature = gn_temperature g, er_top_p = gn_top_p g, er_max_tokens = gn_max_tokens g\<rparr>"

text \<open>After an inference that failed.\<close>

definition generation_failed ::
  "top_env \<Rightarrow> inference \<Rightarrow> bool \<Rightarrow> invocation_request \<Rightarrow> context_lease \<Rightarrow> conversation \<Rightarrow> prompt_plan \<Rightarrow> top_runtime \<Rightarrow>
   handler_result \<times> top_runtime"
where
  "generation_failed e f cancelled q l before plan tp =
     (let c = cl_context_id l;
          cv = (if pl_applied plan then (pl_conversation plan)\<lparr>cv_messages := cv_messages before\<rparr> else pl_conversation plan);
          tp = put_conversation c cv tp;
          tp = (if cl_created l
                then (case release_context (te_now e) (nq_agent_id q) (nq_parent_id q) c (tp_contexts tp) of
                        (r, cm) \<Rightarrow>
                          let tp = tp\<lparr>tp_contexts := cm\<rparr>;
                              tp = (case r of Inl _ \<Rightarrow> tp | Inr (s, _) \<Rightarrow> clear_sequence s tp)
                          in tp\<lparr>tp_conversations := AList.delete c (tp_conversations tp)\<rparr>)
                else tp)
      in (if cancelled \<or> if_cancelled f then problem St_cancelled ''model generation cancelled''
          else problem St_failed ''model generation failed'', tp))"

definition generation_metrics :: "inference \<Rightarrow> performance_metrics" where
  "generation_metrics f = default_metrics
     \<lparr>pm_execution_time_us := if_execution_us f, pm_input_tokens := word_of_int (max 0 (if_prompt_tokens f)),
      pm_output_tokens := word_of_int (max 0 (if_tokens_generated f)),
      pm_reused_tokens := word_of_int (max 0 (if_reused_tokens f)),
      pm_cache_bytes := if_cache_bytes f, pm_cache_hit := if_cache_hit f\<rparr>"

definition generation_done ::
  "inference \<Rightarrow> context_lease \<Rightarrow> prompt_plan \<Rightarrow> kernel \<Rightarrow> top_runtime \<Rightarrow> handler_result \<times> kernel \<times> top_runtime" where
  "generation_done f l plan k tp =
     (let out = (case if_text f of None \<Rightarrow> [] | Some t \<Rightarrow> t);
          cv = pl_conversation plan;
          cv = (if pl_applied plan then cv\<lparr>cv_messages := cv_messages cv @ [(''assistant'', out)]\<rparr> else cv)
      in case make_text_result out data_text_utf8 True k of
        (r, k) \<Rightarrow> (r\<lparr>hr_context_id := cl_context_id l, hr_metrics := generation_metrics f\<rparr>, k,
                   put_conversation (cl_context_id l) cv tp))"

text \<open>
  From the leased context on. \<open>Infer\<close> logs the sequence that the engine works on and whether it is the
  first turn.
\<close>

definition generate_leased ::
  "top_env \<Rightarrow> bool \<Rightarrow> generation \<Rightarrow> invocation_request \<Rightarrow> context_lease \<Rightarrow> kernel \<Rightarrow> top_runtime \<Rightarrow>
   handler_result \<times> kernel \<times> top_runtime"
where
  "generate_leased e cancelled g q l k tp =
     (let c = cl_context_id l; before = lease_conversation l tp in
      case make_plan e g (cl_created l) before of
        Inl err \<Rightarrow> (problem St_failed err, k, finish_context e c (put_conversation c before tp))
      | Inr plan \<Rightarrow>
          let f = te_inference e (make_engine_request (tp_config tp) g q l plan);
              tp = finish_context e c (tp\<lparr>tp_calls := tp_calls tp @ [Infer (cl_sequence_id l) c (cl_created l)]\<rparr>)
          in if if_result f \<noteq> 0
             then (case generation_failed e f cancelled q l before plan tp of (r, tp) \<Rightarrow> (r, k, tp))
             else generation_done f l plan k tp)"

definition handle_generate ::
  "top_env \<Rightarrow> bool \<Rightarrow> invocation_request \<Rightarrow> mapped_input list \<Rightarrow> kernel \<Rightarrow> top_runtime \<Rightarrow>
   handler_result \<times> kernel \<times> top_runtime"
where
  "handle_generate e cancelled q inputs k tp =
     (let g = parse_generation e (tp_config tp) (nq_payload q) in
      case append_inputs k inputs (gn_prompt g) of
        Inl err \<Rightarrow> (problem St_rejected err, k, tp)
      | Inr prompt \<Rightarrow>
          let g = g\<lparr>gn_prompt := prompt\<rparr>
          in if generation_invalid g then (problem St_rejected ''invalid model generation payload'', k, tp)
             else case acquire_context e (nq_agent_id q) (nq_parent_id q) (nq_context_id q) tp of
               (Inl err, tp) \<Rightarrow> (problem St_busy err, k, tp)
             | (Inr l, tp) \<Rightarrow> generate_leased e cancelled g q l k tp)"

section \<open>Dispatch\<close>

definition handle_model ::
  "top_env \<Rightarrow> bool \<Rightarrow> invocation_request \<Rightarrow> mapped_input list \<Rightarrow> kernel \<Rightarrow> top_runtime \<Rightarrow>
   handler_result \<times> kernel \<times> top_runtime"
where
  "handle_model e cancelled q inputs k tp =
     (if nq_target q \<noteq> tc_model_alias (tp_config tp)
      then (problem St_rejected (''unknown model alias: '' @ nq_target q), k, tp)
      else if nq_operation q = ''release_context'' then handle_release e q k tp
      else if nq_operation q = ''stats''
      then (case make_text_result (stats_text e tp) data_json_utf8 False k of (r, k) \<Rightarrow> (r, k, tp))
      else if nq_operation q = ''warmup_prefix''
      then (case handle_warmup e cancelled q k tp of (r, k) \<Rightarrow> (r, k, tp))
      else if nq_operation q \<noteq> ''generate''
      then (problem St_rejected ''model operation must be generate, warmup_prefix, stats, or release_context'', k, tp)
      else handle_generate e cancelled q inputs k tp)"

definition handle_tool ::
  "top_env \<Rightarrow> bool list \<Rightarrow> invocation_request \<Rightarrow> mapped_input list \<Rightarrow> kernel \<Rightarrow> top_runtime \<Rightarrow> handler_result \<times> kernel" where
  "handle_tool e cancel q inputs k tp =
     (let t = execute_tool (te_elapsed e) (tp_tools tp) k q inputs cancel in
      case make_text_result (tr_output t) (tr_output_type t) True k of (r, k) \<Rightarrow>
        let r = (if tr_status t \<noteq> St_ok then r\<lparr>hr_status := tr_status t, hr_message := tr_message t\<rparr> else r);
            r = r\<lparr>hr_process_id := tr_process_id t,
                  hr_metrics := (hr_metrics r)\<lparr>pm_execution_time_us := tr_execution_time_us t\<rparr>\<rparr>
        in (if tr_truncated t then r\<lparr>hr_output_flags := hr_output_flags r OR shared_buffer_truncated\<rparr> else r, k))"

text \<open>\<open>cancel\<close> are the answers of \<^verbatim>\<open>cancel_requested\<close>; every kind of invocation is one of the two.\<close>

definition top_handle ::
  "top_env \<Rightarrow> bool list \<Rightarrow> invocation_request \<Rightarrow> mapped_input list \<Rightarrow> kernel \<Rightarrow> top_runtime \<Rightarrow>
   handler_result \<times> kernel \<times> top_runtime"
where
  "top_handle e cancel q inputs k tp =
     (if \<not> tp_initialized tp then (problem St_failed ''top runtime is not initialized'', k, tp)
      else case ask cancel of (stop, cancel) \<Rightarrow>
        if stop then (problem St_cancelled ''invocation cancelled before execution'', k, tp)
        else case nq_kind q of
          Kind_model \<Rightarrow> handle_model e (fst (ask cancel)) q inputs k tp
        | Kind_tool \<Rightarrow> (case handle_tool e cancel q inputs k tp of (r, k) \<Rightarrow> (r, k, tp)))"

end
