(* ===== verification/Context_Moves.thy ===== *)
theory Context_Moves
  imports Context_Steps
begin

text \<open>
  What an acquisition does to the residency of every context: which contexts it may swap, that a
  context stays in its sequence as long as it is resident, and which one it pins. The callers of the
  context manager rely on this.
\<close>

definition saved :: "swap_callbacks option \<Rightarrow> context_id \<Rightarrow> int \<Rightarrow> bool" where
  "saved swap c q \<longleftrightarrow> (\<exists>w save. swap = Some w \<and> sw_save w = Some save \<and> save c q = Inr ())"

text \<open>One entry before and after; \<open>pin\<close> tells whether it is the one that is pinned.\<close>

definition moved :: "swap_callbacks option \<Rightarrow> context_id \<Rightarrow> bool \<Rightarrow> context_entry \<Rightarrow> context_entry \<Rightarrow> bool" where
  "moved swap c pin e e' \<longleftrightarrow> ce_pins e' = ce_pins e + (if pin then 1 else 0) \<and>
     (ce_resident e \<and> ce_resident e' \<longrightarrow> ce_sequence e' = ce_sequence e) \<and>
     (ce_resident e \<and> \<not> ce_resident e' \<longrightarrow> saved swap c (ce_sequence e))"

definition moves :: "swap_callbacks option \<Rightarrow> context_id option \<Rightarrow> context_manager \<Rightarrow> context_manager \<Rightarrow> bool" where
  "moves swap l cm cm' \<longleftrightarrow>
     (\<forall>c e. entry_of cm c = Some e \<longrightarrow>
        (\<exists>e'. entry_of cm' c = Some e' \<and> moved swap c (l = Some c) e e')) \<and>
     (\<forall>c e'. entry_of cm c = None \<longrightarrow> entry_of cm' c = Some e' \<longrightarrow> ce_resident e' \<and> l = Some c \<and> ce_pins e' = 1)"

lemma moves_refl [simp]: "moves swap None cm cm"
  by (simp add: moves_def moved_def)

lemma movesD:
  assumes "moves swap l cm cm'" and "entry_of cm c = Some e"
  obtains e' where "entry_of cm' c = Some e'" "moved swap c (l = Some c) e e'"
  using assms unfolding moves_def by blast

lemma moves_new:
  "moves swap l cm cm' \<Longrightarrow> entry_of cm c = None \<Longrightarrow> entry_of cm' c = Some e' \<Longrightarrow>
   ce_resident e' \<and> l = Some c \<and> ce_pins e' = 1"
  unfolding moves_def by blast

lemma moves_fields [simp]:
  "moves swap l cm (cm'\<lparr>cm_free := fr\<rparr>) = moves swap l cm cm'"
  by (simp add: moves_def)

text \<open>A step that only pins, or only changes owners and times.\<close>

lemma moves_then:
  assumes "moves swap None cm cm1"
    and "\<And>c e. entry_of cm1 c = Some e \<Longrightarrow> \<exists>e'. entry_of cm' c = Some e' \<and> ce_resident e' = ce_resident e \<and>
      ce_sequence e' = ce_sequence e \<and> ce_pins e' = ce_pins e + (if l = Some c then 1 else 0)"
    and "\<And>c e'. entry_of cm1 c = None \<Longrightarrow> entry_of cm' c = Some e' \<Longrightarrow> ce_resident e' \<and> l = Some c \<and> ce_pins e' = 1"
  shows "moves swap l cm cm'"
  unfolding moves_def
proof (intro conjI allI impI)
  fix c e assume e: "entry_of cm c = Some e"
  obtain e1 where e1: "entry_of cm1 c = Some e1" "moved swap c False e e1" using movesD [OF assms(1) e] by auto
  from assms(2) [OF e1(1)] e1(2) show "\<exists>e'. entry_of cm' c = Some e' \<and> moved swap c (l = Some c) e e'"
    by (auto simp: moved_def)
next
  fix c e' assume c: "entry_of cm c = None" "entry_of cm' c = Some e'"
  then have "entry_of cm1 c = None" using moves_new [OF assms(1) c(1)] by (cases "entry_of cm1 c") auto
  from assms(3) [OF this c(2)] show "ce_resident e'" "l = Some c" "ce_pins e' = 1" by simp_all
qed

lemma obtain_moves:
  assumes inv: "cm_inv {#} cm" and o: "obtain_sequence excluded swap cm = (r, cm')"
  shows "moves swap None cm cm'"
proof (cases "cm_contexts cm' = cm_contexts cm")
  case True
  then show ?thesis by (simp add: moves_def moved_def)
next
  case False
  have free: "cm_free cm = []" by (rule ccontr) (use o False in \<open>auto simp: obtain_sequence_def\<close>)
  obtain save where bind: "Option.bind swap sw_save = Some save"
    using o False free by (cases "Option.bind swap sw_save") (auto simp: obtain_sequence_def)
  then obtain w where w: "swap = Some w" "sw_save w = Some save" by (auto simp: Option.bind_eq_Some_conv)
  obtain c e where c: "pick_victim excluded (cm_contexts cm) None = Some (c, e)"
    using o False free bind by (cases "pick_victim excluded (cm_contexts cm) None") (auto simp: obtain_sequence_def)
  have "save (ce_id e) (ce_sequence e) = Inr ()"
    using o False free bind c by (cases "save (ce_id e) (ce_sequence e)") (auto simp: obtain_sequence_def)
  with w c have v: "swap = Some w" "sw_save w = Some save"
      "pick_victim excluded (cm_contexts cm) None = Some (c, e)" "save (ce_id e) (ce_sequence e) = Inr ()"
    and cm': "cm' = update_stats (\<lambda>st. st\<lparr>st_swap_outs := st_swap_outs st + 1,
        st_resident := st_resident st - 1, st_swapped := st_swapped st + 1\<rparr>)
      (update_entry c (\<lambda>e. e\<lparr>ce_sequence := - 1, ce_resident := False\<rparr>) cm)"
    using o free bind by (simp_all add: obtain_sequence_def)
  from victim_member [OF v(3) cm_invD(1) [OF inv]] have e: "entry_of cm c = Some e" by simp
  have "ce_id e = c" using cm_invD(2) [OF inv e] by (simp add: entry_ok_def)
  with v have sv: "saved swap c (ce_sequence e)" by (auto simp: saved_def)
  show ?thesis unfolding moves_def
  proof (intro conjI allI impI)
    fix d x assume "entry_of cm d = Some x"
    with sv e show "\<exists>e'. entry_of cm' d = Some e' \<and> moved swap d (None = Some d) x e'"
      by (cases "d = c") (simp_all add: cm' ctx_simps moved_def)
  next
    fix d x assume "entry_of cm d = None" "entry_of cm' d = Some x"
    with e have False by (auto simp: cm' ctx_simps split: if_splits)
    then show "ce_resident x" "None = Some d" "ce_pins x = 1" by simp_all
  qed
qed

lemma make_resident_moves:
  assumes inv: "cm_inv {#} cm" and e: "entry_of cm c = Some e" and m: "make_resident c e swap cm = (r, cm')"
  shows "moves swap None cm cm'"
proof (cases "ce_resident e \<or> Option.bind swap sw_load = None")
  case True
  with m show ?thesis by (auto simp: make_resident_def split: if_splits)
next
  case False
  obtain r1 cm1 where o: "obtain_sequence (ce_id e) swap cm = (r1, cm1)" by fastforce
  note mv = obtain_moves [OF inv o]
  have eid: "ce_id e = c" using cm_invD(2) [OF inv e] by (simp add: entry_ok_def)
  have cases: "cm' = cm1 \<or> (\<exists>q. cm' = cm1\<lparr>cm_free := cm_free cm1 @ [q]\<rparr>) \<or>
      (\<exists>q g. cm' = update_stats g (update_entry c (\<lambda>e. e\<lparr>ce_sequence := q, ce_resident := True\<rparr>) cm1))"
    using False m o by (auto simp: make_resident_def split: option.splits sum.splits)
  then show ?thesis
  proof (elim disjE exE)
    fix q g assume eq: "cm' = update_stats g (update_entry c (\<lambda>e. e\<lparr>ce_sequence := q, ce_resident := True\<rparr>) cm1)"
    show ?thesis unfolding moves_def
    proof (intro conjI allI impI)
      fix d x assume d: "entry_of cm d = Some x"
      obtain x1 where "entry_of cm1 d = Some x1" "moved swap d False x x1" using movesD [OF mv d] by auto
      then show "\<exists>e'. entry_of cm' d = Some e' \<and> moved swap d (None = Some d) x e'"
        using d e False by (cases "d = c") (auto simp: eq ctx_simps moved_def)
    next
      fix d x assume d: "entry_of cm d = None" "entry_of cm' d = Some x"
      then have "entry_of cm1 d \<noteq> None" by (auto simp: eq ctx_simps split: if_splits)
      with d(1) have False using moves_new [OF mv d(1)] by auto
      then show "ce_resident x" "None = Some d" "ce_pins x = 1" by simp_all
    qed
  qed (use mv in simp_all)
qed

lemma acquire_moves:
  assumes ok: "cm_ok cm" and room: "roomy cm" and acq: "acquire now a p req swap cm = (r, cm')"
  shows "moves swap (case r of Inl _ \<Rightarrow> None | Inr l \<Rightarrow> Some (cl_context_id l)) cm cm' \<and>
    (\<forall>l. r = Inr l \<longrightarrow> (cl_created l \<longleftrightarrow> entry_of cm (cl_context_id l) = None))"
proof -
  have inv: "cm_inv {#} cm" using ok by (simp add: cm_ok_def)
  have pinned: "moves swap (Some c) cm (snd (pin_existing now c w cm2)) \<and>
      fst (pin_existing now c w cm2) = Inr \<lparr>cl_context_id = c, cl_sequence_id = ce_sequence e2, cl_created = False, cl_restored = w\<rparr>"
    if mv: "moves swap None cm cm1" and e1: "entry_of cm1 c = Some e1" and inv2: "cm_inv {#} cm2"
      and e2: "entry_of cm2 c = Some e2" "ce_resident e2" "ce_sequence e2 = ce_sequence e1" "ce_resident e1"
        "ce_pins e2 = ce_pins e1" and others: "\<And>d. d \<noteq> c \<Longrightarrow> entry_of cm2 d = entry_of cm1 d" for c w cm1 e1 cm2 e2
  proof -
    note pin = pin_existing_inv [OF inv2 e2(1,2), of now w]
    have "moves swap (Some c) cm (snd (pin_existing now c w cm2))"
      by (rule moves_then [OF mv]) (use e1 e2 others pin(3) in \<open>auto split: if_splits\<close>)
    with pin(2) show ?thesis by simp
  qed
  show ?thesis
  proof (cases "a = 0")
    case True
    with acq show ?thesis by (auto simp: acquire_def)
  next
    case a: False
    show ?thesis
    proof (cases "req = 0")
      case True
      show ?thesis
      proof (cases "Option.bind (find_for_agent a cm) (\<lambda>c. map_option (Pair c) (entry_of cm c))")
        case (Some ce)
        then obtain c e where ce: "ce = (c, e)" "entry_of cm c = Some e" by (auto simp: Option.bind_eq_Some_conv)
        obtain m cm1 where m: "make_resident c e swap cm = (m, cm1)" by fastforce
        note mv = make_resident_moves [OF inv ce(2) m] and mr = make_resident_keeps [OF inv ce(2) m]
        show ?thesis
        proof (cases m)
          case (Inl err)
          with a True Some ce m acq mv show ?thesis by (auto simp: acquire_def)
        next
          case (Inr u)
          from mr(4) Inr obtain e1 where e1: "entry_of cm1 c = Some e1" "ce_resident e1" by auto
          have "(r, cm') = pin_existing now c (\<not> ce_resident e) cm1" using Inr a True Some ce m acq by (simp add: acquire_def)
          with pinned [OF mv e1(1) mr(1) e1 refl e1(2) refl refl, of "\<not> ce_resident e"] ce(2) show ?thesis
            by (metis (no_types, lifting) context_lease.select_convs(1,3) fst_conv option.distinct(1) snd_conv sum.inject(2) sum.simps(6))
        qed
      next
        case None
        show ?thesis
        proof (cases "length (cm_contexts cm) \<ge> cm_max_logical cm")
          case full: True
          with None a True acq show ?thesis by (auto simp: acquire_def)
        next
          case space: False
          obtain o1 cm1 where o: "obtain_sequence 0 swap cm = (o1, cm1)" by fastforce
          note mv = obtain_moves [OF inv o] and spec = obtain_sequence_spec [OF inv o]
          show ?thesis
          proof (cases o1)
            case (Inl err)
            with None space a True acq o mv show ?thesis by (auto simp: acquire_def)
          next
            case (Inr q)
            with spec have inv1: "cm_inv {#q#} cm1" and keep: "keeps 0 cm cm1" by auto
            have eq: "(r, cm') = create_context now a q cm1" using None space a True acq o Inr by (simp add: acquire_def)
            have same: "cm_next_id cm1 = cm_next_id cm" "cm_max_logical cm1 = cm_max_logical cm"
              "length (cm_contexts cm1) = length (cm_contexts cm)"
              using keep by (auto simp: keeps_def dest: arg_cong [of _ _ length])
            have pre: "cm_next_id cm1 \<noteq> - 1" "cm_next_id cm1 \<noteq> 0" "length (cm_contexts cm1) < cm_max_logical cm1"
              using room ok space by (simp_all add: same roomy_def cm_ok_def)
            note cr = create_context_inv [OF inv1 a pre, of now]
            have none: "entry_of cm1 (cm_next_id cm1) = None"
              using cm_invD(2) [OF inv1, of "cm_next_id cm1"]
              by (cases "entry_of cm1 (cm_next_id cm1)") (auto simp: entry_ok_def)
            have "moves swap (Some (cm_next_id cm1)) cm (snd (create_context now a q cm1))"
              by (rule moves_then [OF mv]) (use cr(3) none in \<open>auto split: if_splits\<close>)
            moreover have "entry_of cm (cm_next_id cm1) = None"
              using cm_invD(2) [OF inv, of "cm_next_id cm"]
              by (cases "entry_of cm (cm_next_id cm)") (auto simp: entry_ok_def same)
            ultimately show ?thesis using eq cr(2) by (auto simp: prod_eq_iff)
          qed
        qed
      qed
    next
      case req: False
      show ?thesis
      proof (cases "\<exists>e. entry_of cm req = Some e \<and> authorized e a p")
        case False
        with req a acq show ?thesis by (auto simp: acquire_def split: option.splits if_splits)
      next
        case True
        then obtain e where e: "entry_of cm req = Some e" "authorized e a p" by blast
        obtain m cm1 where m: "make_resident req e swap cm = (m, cm1)" by fastforce
        note mv = make_resident_moves [OF inv e(1) m] and mr = make_resident_keeps [OF inv e(1) m]
        show ?thesis
        proof (cases m)
          case (Inl err)
          with a req e m acq mv show ?thesis by (auto simp: acquire_def)
        next
          case (Inr u)
          from mr(4) Inr obtain e1 where e1: "entry_of cm1 req = Some e1" "ce_resident e1" by auto
          note ao = add_owner_inv [OF mr(1) e1(1) a]
          have "(r, cm') = pin_existing now req (\<not> ce_resident e) (add_owner req a cm1)"
            using Inr a req e m acq by (simp add: acquire_def)
          moreover obtain e2 where "entry_of (add_owner req a cm1) req = Some e2" "ce_resident e2"
            "ce_sequence e2 = ce_sequence e1" "ce_pins e2 = ce_pins e1" using ao(2) [of req] e1 by (auto split: if_splits)
          moreover have "entry_of (add_owner req a cm1) d = entry_of cm1 d" if "d \<noteq> req" for d using ao(2) that by simp
          ultimately show ?thesis using pinned [OF mv e1(1) ao(1) _ _ _ e1(2), of e2 "\<not> ce_resident e"] e(1)
            by (auto simp: prod_eq_iff)
        qed
      qed
    qed
  qed
qed

text \<open>A context that an acquisition creates has one owner.\<close>

lemma acquire_created:
  assumes inv: "cm_inv {#} cm" and acq: "acquire now a p req swap cm = (Inr l, cm')" and new: "cl_created l"
  shows "owner_total cm' \<le> Suc (owner_total cm)"
    and "entry_of cm' (cl_context_id l) = Some \<lparr>ce_id = cl_context_id l, ce_sequence = cl_sequence_id l, ce_resident = True,
      ce_pins = 1, ce_owners = [a], ce_last_access = now\<rparr>"
proof -
  have pin: "\<not> cl_created l'" if "pin_existing now c w cm1 = (Inr l', cm2)" for l' c w cm1 cm2
    using that by (auto simp: pin_existing_def Let_def split: option.splits)
  obtain q cm1 where o: "obtain_sequence 0 swap cm = (Inr q, cm1)" and cr: "create_context now a q cm1 = (Inr l, cm')"
    using acq new pin by (auto simp: acquire_def split: if_splits option.splits sum.splits prod.splits)
  have keep: "owner_total cm1 = owner_total cm" "cm_inv {#q#} cm1" using obtain_sequence_spec [OF inv o] by (auto simp: keeps_def)
  have "owner_total cm' \<le> Suc (owner_total cm1)"
    using cr by (auto simp: create_context_def Let_def owner_total_def entries_def update_stats_def)
  with keep show "owner_total cm' \<le> Suc (owner_total cm)" by simp
  have none: "entry_of cm1 (cm_next_id cm1) = None"
    using cm_invD(2) [OF keep(2), of "cm_next_id cm1"] by (cases "entry_of cm1 (cm_next_id cm1)") (auto simp: entry_ok_def)
  show "entry_of cm' (cl_context_id l) = Some \<lparr>ce_id = cl_context_id l, ce_sequence = cl_sequence_id l, ce_resident = True,
      ce_pins = 1, ce_owners = [a], ce_last_access = now\<rparr>"
    using cr none by (auto simp: create_context_def Let_def update_stats_def map_add_def)
qed

end
