(* ===== verification/Top_Inv.thy ===== *)
theory Top_Inv
  imports Top_Runtime Context_Moves
begin

text \<open>
  The invariant of the service: the tokens of a context are only in its own sequence, a context that
  is swapped out has its checkpoint, the counted bytes are those of the checkpoints, and no
  checkpoint, conversation or pin outlives its use.
\<close>

section \<open>What is in a sequence\<close>

text \<open>The contexts whose tokens a sequence holds after a call of the engine.\<close>

fun put_tokens :: "engine_call \<Rightarrow> (int \<Rightarrow> context_id set) \<Rightarrow> int \<Rightarrow> context_id set" where
  "put_tokens (Clear q) t = t(q := {})"
| "put_tokens (Save q c) t = t"
| "put_tokens (Load q c) t = t(q := insert c (t q))"
| "put_tokens (Infer q c first) t = t(q := insert c (t q))"

definition tokens :: "engine_call list \<Rightarrow> int \<Rightarrow> context_id set" where
  "tokens calls = fold put_tokens calls (\<lambda>_. {})"

lemma tokens_append: "tokens (xs @ ys) = fold put_tokens ys (tokens xs)"
  by (simp add: tokens_def)

lemma tokens_snoc [simp]:
  "tokens (xs @ [Clear q]) = (tokens xs)(q := {})" "tokens (xs @ [Infer q c b]) = (tokens xs)(q := insert c (tokens xs q))"
  by (simp_all add: tokens_append)

lemma tokens_outs:
  "tokens (calls @ concat (map (\<lambda>(c, q). [Save q c, Clear q]) xs)) q =
   (if q \<in> snd ` set xs then {} else tokens calls q)"
proof (induction xs arbitrary: calls)
  case (Cons x xs)
  obtain c p where x: "x = (c, p)" by fastforce
  show ?case using Cons.IH [of "calls @ [Save p c, Clear p]"] by (auto simp: x tokens_append)
qed simp

lemma tokens_ins: "tokens (calls @ map (\<lambda>(c, q). Load q c) xs) q = tokens calls q \<union> {c. (c, q) \<in> set xs}"
proof (induction xs arbitrary: calls)
  case (Cons x xs)
  obtain c p where x: "x = (c, p)" by fastforce
  show ?case using Cons.IH [of "calls @ [Load p c]"] by (auto simp: x tokens_append)
qed simp

text \<open>A context is saved from, loaded into and worked on in a sequence without tokens of another one.\<close>

fun safe_call :: "(int \<Rightarrow> context_id set) \<Rightarrow> engine_call \<Rightarrow> bool" where
  "safe_call t (Clear q) \<longleftrightarrow> True"
| "safe_call t (Save q c) \<longleftrightarrow> t q \<subseteq> {c}"
| "safe_call t (Load q c) \<longleftrightarrow> t q \<subseteq> {c}"
| "safe_call t (Infer q c first) \<longleftrightarrow> t q \<subseteq> {c}"

fun safe_calls :: "(int \<Rightarrow> context_id set) \<Rightarrow> engine_call list \<Rightarrow> bool" where
  "safe_calls t [] \<longleftrightarrow> True"
| "safe_calls t (x # xs) \<longleftrightarrow> safe_call t x \<and> safe_calls (put_tokens x t) xs"

lemma safe_append: "safe_calls t (xs @ ys) \<longleftrightarrow> safe_calls t xs \<and> safe_calls (fold put_tokens xs t) ys"
  by (induction xs arbitrary: t) auto

lemma safe_snoc: "safe_calls (\<lambda>_. {}) (xs @ [x]) \<longleftrightarrow> safe_calls (\<lambda>_. {}) xs \<and> safe_call (tokens xs) x"
  by (simp add: safe_append tokens_def)

lemma safe_outs:
  "(\<And>c q. (c, q) \<in> set xs \<Longrightarrow> t q \<subseteq> {c}) \<Longrightarrow> safe_calls t (concat (map (\<lambda>(c, q). [Save q c, Clear q]) xs))"
proof (induction xs arbitrary: t)
  case (Cons x xs)
  obtain c q where x: "x = (c, q)" by fastforce
  have "safe_calls (t(q := {})) (concat (map (\<lambda>(c, q). [Save q c, Clear q]) xs))"
    by (rule Cons.IH) (use Cons.prems in auto)
  then show ?case using Cons.prems [of c q] by (simp add: x)
qed simp

lemma safe_ins:
  "(\<And>c q. (c, q) \<in> set xs \<Longrightarrow> t q \<subseteq> {c}) \<Longrightarrow> (\<And>c d q. (c, q) \<in> set xs \<Longrightarrow> (d, q) \<in> set xs \<Longrightarrow> c = d) \<Longrightarrow>
   safe_calls t (map (\<lambda>(c, q). Load q c) xs)"
proof (induction xs arbitrary: t)
  case (Cons x xs)
  obtain c q where x: "x = (c, q)" by fastforce
  have "(t(q := insert c (t q))) p \<subseteq> {d}" if "(d, p) \<in> set xs" for d p
    using Cons.prems(1) [of d p] Cons.prems(2) [of c p d] that by (auto simp: x)
  then have "safe_calls (t(q := insert c (t q))) (map (\<lambda>(c, q). Load q c) xs)"
    by (rule Cons.IH) (use Cons.prems(2) in auto)
  then show ?case using Cons.prems(1) [of c q] by (simp add: x)
qed simp

section \<open>The invariant\<close>

definition private_sequences :: "engine_call list \<Rightarrow> context_manager \<Rightarrow> bool" where
  "private_sequences calls cm \<longleftrightarrow> safe_calls (\<lambda>_. {}) calls \<and>
     (\<forall>c e. entry_of cm c = Some e \<longrightarrow> ce_resident e \<longrightarrow> tokens calls (ce_sequence e) \<subseteq> {c}) \<and>
     (\<forall>q \<in> set (cm_free cm). tokens calls q = {})"

definition store_exact :: "top_runtime \<Rightarrow> bool" where
  "store_exact tp \<longleftrightarrow> distinct (map fst (tp_snapshots tp)) \<and>
     tp_snapshot_bytes tp = sum_list (map (cs_bytes \<circ> snd) (tp_snapshots tp))"

text \<open>\<open>pinned\<close> is the context that a generation in progress holds.\<close>

definition top_inv :: "context_id option \<Rightarrow> top_runtime \<Rightarrow> bool" where
  "top_inv pinned tp \<longleftrightarrow>
     cm_ok (tp_contexts tp) \<and> store_exact tp \<and> private_sequences (tp_calls tp) (tp_contexts tp) \<and>
     (\<forall>c e. entry_of (tp_contexts tp) c = Some e \<longrightarrow>
        ce_pins e = (if pinned = Some c then 1 else 0) \<and> (\<not> ce_resident e \<longrightarrow> snapshot_of tp c \<noteq> None)) \<and>
     (\<forall>c. snapshot_of tp c \<noteq> None \<or> map_of (tp_conversations tp) c \<noteq> None \<longrightarrow> entry_of (tp_contexts tp) c \<noteq> None)"

lemma top_invD:
  assumes "top_inv pinned tp"
  shows "cm_ok (tp_contexts tp)" and "cm_inv {#} (tp_contexts tp)" and "store_exact tp"
    and "private_sequences (tp_calls tp) (tp_contexts tp)"
    and "entry_of (tp_contexts tp) c = Some e \<Longrightarrow> ce_pins e = (if pinned = Some c then 1 else 0)"
    and "entry_of (tp_contexts tp) c = Some e \<Longrightarrow> \<not> ce_resident e \<Longrightarrow> snapshot_of tp c \<noteq> None"
    and "snapshot_of tp c \<noteq> None \<Longrightarrow> entry_of (tp_contexts tp) c \<noteq> None"
    and "map_of (tp_conversations tp) c \<noteq> None \<Longrightarrow> entry_of (tp_contexts tp) c \<noteq> None"
  using assms unfolding top_inv_def by (simp_all add: cm_ok_def)

lemma top_invI:
  assumes "cm_ok (tp_contexts tp)" and "store_exact tp" and "private_sequences (tp_calls tp) (tp_contexts tp)"
    and "\<And>c e. entry_of (tp_contexts tp) c = Some e \<Longrightarrow> ce_pins e = (if pinned = Some c then 1 else 0)"
    and "\<And>c e. entry_of (tp_contexts tp) c = Some e \<Longrightarrow> \<not> ce_resident e \<Longrightarrow> snapshot_of tp c \<noteq> None"
    and "\<And>c. snapshot_of tp c \<noteq> None \<Longrightarrow> entry_of (tp_contexts tp) c \<noteq> None"
    and "\<And>c. map_of (tp_conversations tp) c \<noteq> None \<Longrightarrow> entry_of (tp_contexts tp) c \<noteq> None"
  shows "top_inv pinned tp"
  using assms unfolding top_inv_def by blast

section \<open>Sequences belong to one context\<close>

lemma resident_member:
  "distinct (map fst (cm_contexts cm)) \<Longrightarrow> entry_of cm c = Some e \<Longrightarrow> ce_resident e \<Longrightarrow> e \<in> set (resident_list cm)"
  by (force simp: resident_list_def dest: map_of_SomeD)

lemma sequence_unique:
  assumes inv: "cm_inv {#} cm" and c: "entry_of cm c = Some e" "ce_resident e" and d: "entry_of cm d = Some g" "ce_resident g"
    and same: "ce_sequence e = ce_sequence g"
  shows "c = d"
proof -
  note dist = cm_invD(1) [OF inv]
  have "inj_on ce_sequence (set (resident_list cm))"
    using partition_list(1) [OF inv] by (simp add: distinct_map)
  from inj_onD [OF this same resident_member [OF dist c] resident_member [OF dist d]] have "e = g" .
  with cm_invD(2) [OF inv c(1)] cm_invD(2) [OF inv d(1)] show ?thesis by (simp add: entry_ok_def)
qed

lemma sequence_not_free:
  assumes inv: "cm_inv {#} cm" and c: "entry_of cm c = Some e" "ce_resident e"
  shows "ce_sequence e \<notin> set (cm_free cm)" and "1 \<le> ce_sequence e"
  using partition_list [OF inv] resident_member [OF cm_invD(1) [OF inv] c] by auto

text \<open>Every sequence is free or some context's.\<close>

lemma sequence_cases:
  assumes inv: "cm_inv {#} cm" and q: "1 \<le> q" "q \<le> int (cm_max_resident cm)"
  obtains (free) "q \<in> set (cm_free cm)"
  | (resident) c e where "entry_of cm c = Some e" "ce_resident e" "ce_sequence e = q"
proof -
  have "q \<in> set (cm_free cm @ map ce_sequence (resident_list cm))" using partition_list(2) [OF inv] q by simp
  then consider "q \<in> set (cm_free cm)" | e where "e \<in> set (resident_list cm)" "ce_sequence e = q" by auto
  then show thesis
  proof cases
    case 2
    then obtain c where "(c, e) \<in> set (cm_contexts cm)" "ce_resident e" by (auto simp: resident_list_def)
    with cm_invD(1) [OF inv] 2 resident show thesis by (metis map_of_eq_Some_iff)
  qed (rule free)
qed

lemma sequence_range:
  assumes "cm_inv {#} cm"
  shows "entry_of cm c = Some e \<Longrightarrow> ce_resident e \<Longrightarrow> 1 \<le> ce_sequence e \<and> ce_sequence e \<le> int (cm_max_resident cm)"
    and "q \<in> set (cm_free cm) \<Longrightarrow> 1 \<le> q \<and> q \<le> int (cm_max_resident cm)"
  using partition_list(2) [OF assms] resident_member [OF cm_invD(1) [OF assms]] by auto

section \<open>The effects of an acquisition\<close>

lemma set_swapped_out:
  "distinct (map fst (cm_contexts cm)) \<Longrightarrow> (c, q) \<in> set (swapped_out cm cm') \<longleftrightarrow>
   (\<exists>e. entry_of cm c = Some e \<and> ce_resident e \<and> ce_sequence e = q \<and> \<not> is_resident cm' c)"
  by (fastforce simp: swapped_out_def)

lemma set_swapped_in:
  "distinct (map fst (cm_contexts cm')) \<Longrightarrow> (c, q) \<in> set (swapped_in cm cm') \<longleftrightarrow>
   (\<exists>e e0. entry_of cm' c = Some e \<and> ce_resident e \<and> ce_sequence e = q \<and> entry_of cm c = Some e0 \<and> \<not> ce_resident e0)"
  by (fastforce simp: swapped_in_def split: option.splits)

lemma private_after:
  assumes inv: "cm_inv {#} cm" "cm_inv {#} cm'" and priv: "private_sequences calls cm"
    and lim: "cm_max_resident cm' = cm_max_resident cm"
    and stay: "\<And>c e. entry_of cm c = Some e \<Longrightarrow> \<exists>e'. entry_of cm' c = Some e' \<and>
      (ce_resident e \<and> ce_resident e' \<longrightarrow> ce_sequence e' = ce_sequence e)"
  shows "private_sequences ((calls @ concat (map (\<lambda>(c, q). [Save q c, Clear q]) (swapped_out cm cm'))) @
    map (\<lambda>(c, q). Load q c) (swapped_in cm cm')) cm'"
proof -
  let ?mid = "calls @ concat (map (\<lambda>(c, q). [Save q c, Clear q]) (swapped_out cm cm'))"
  note outs = set_swapped_out [OF cm_invD(1) [OF inv(1)], of _ _ cm']
  note ins = set_swapped_in [OF cm_invD(1) [OF inv(2)], of _ _ cm]
  text \<open>A sequence that changes hands has been cleared.\<close>
  have clean: "tokens ?mid q = {}"
    if q: "1 \<le> q" "q \<le> int (cm_max_resident cm)"
      and no: "\<And>c e. entry_of cm c = Some e \<Longrightarrow> ce_resident e \<Longrightarrow> ce_sequence e = q \<Longrightarrow> \<not> is_resident cm' c" for q
  proof (cases rule: sequence_cases [OF inv(1) q])
    case 1
    then show ?thesis using priv by (simp add: tokens_outs private_sequences_def)
  next
    case (2 c e)
    then have "(c, q) \<in> set (swapped_out cm cm')" using outs no by blast
    then have "q \<in> snd ` set (swapped_out cm cm')" by force
    then show ?thesis by (simp add: tokens_outs)
  qed
  have res: "\<exists>e'. entry_of cm' c = Some e' \<and> ce_resident e'" if "is_resident cm' c" for c
    using that by (auto simp: is_resident_def split: option.splits)
  have mid: "tokens ?mid (ce_sequence e') \<subseteq> {c}" if c: "entry_of cm' c = Some e'" "ce_resident e'" for c e'
  proof (cases "\<exists>e. entry_of cm c = Some e \<and> ce_resident e")
    case True
    then obtain e where e: "entry_of cm c = Some e" "ce_resident e" by blast
    then have same: "ce_sequence e = (ce_sequence e')" using stay [OF e(1)] c by auto
    have "tokens calls (ce_sequence e) \<subseteq> {c}" using priv e unfolding private_sequences_def by blast
    then show ?thesis unfolding same by (auto simp: tokens_outs)
  next
    case False
    have "tokens ?mid (ce_sequence e') = {}"
    proof (rule clean)
      fix d e assume d: "entry_of cm d = Some e" "ce_resident e" "ce_sequence e = (ce_sequence e')"
      show "\<not> is_resident cm' d"
      proof
        assume "is_resident cm' d"
        then obtain g where g: "entry_of cm' d = Some g" "ce_resident g" using res by blast
        then have "ce_sequence g = (ce_sequence e')" using stay [OF d(1)] d by auto
        from sequence_unique [OF inv(2) g c this] d False show False by blast
      qed
    qed (use sequence_range(1) [OF inv(2) c, unfolded lim] in simp_all)
    then show ?thesis by simp
  qed
  show ?thesis unfolding private_sequences_def
  proof (intro conjI allI impI ballI)
    have "safe_calls (tokens calls) (concat (map (\<lambda>(c, q). [Save q c, Clear q]) (swapped_out cm cm')))"
      by (rule safe_outs) (use priv in \<open>auto simp: outs private_sequences_def\<close>)
    moreover have "safe_calls (tokens ?mid) (map (\<lambda>(c, q). Load q c) (swapped_in cm cm'))"
      by (rule safe_ins) (use mid sequence_unique [OF inv(2)] in \<open>auto simp: ins\<close>)
    ultimately show "safe_calls (\<lambda>_. {}) (?mid @ map (\<lambda>(c, q). Load q c) (swapped_in cm cm'))"
      using priv by (simp add: safe_append private_sequences_def tokens_def)
  next
    fix c e' assume c: "entry_of cm' c = Some e'" "ce_resident e'"
    let ?q = "ce_sequence e'"
    have "{d. (d, ?q) \<in> set (swapped_in cm cm')} \<subseteq> {c}"
      using sequence_unique [OF inv(2)] c by (auto simp: ins)
    moreover note mid [OF c]
    ultimately show "tokens (?mid @ map (\<lambda>(c, q). Load q c) (swapped_in cm cm')) ?q \<subseteq> {c}"
      unfolding tokens_ins by blast
  next
    fix q assume q: "q \<in> set (cm_free cm')"
    have "tokens ?mid q = {}"
    proof (rule clean)
      fix d e assume d: "entry_of cm d = Some e" "ce_resident e" "ce_sequence e = q"
      show "\<not> is_resident cm' d"
      proof
        assume "is_resident cm' d"
        then obtain g where g: "entry_of cm' d = Some g" "ce_resident g" using res by blast
        then have "ce_sequence g = q" using stay [OF d(1)] d by auto
        with sequence_not_free(1) [OF inv(2) g] q show False by simp
      qed
    qed (use sequence_range(2) [OF inv(2) q] lim in simp_all)
    moreover have "(c, q) \<notin> set (swapped_in cm cm')" for c
      using sequence_not_free(1) [OF inv(2)] q by (auto simp: ins)
    ultimately show "tokens (?mid @ map (\<lambda>(c, q). Load q c) (swapped_in cm cm')) q = {}"
      unfolding tokens_ins by blast
  qed
qed

lemma store_exactD:
  "store_exact tp \<Longrightarrow> distinct (map fst (tp_snapshots tp))"
  "store_exact tp \<Longrightarrow> tp_snapshot_bytes tp = sum_list (map (cs_bytes \<circ> snd) (tp_snapshots tp))"
  by (simp_all add: store_exact_def)

lemma store_exact_fields [simp]:
  "store_exact (tp\<lparr>tp_calls := calls\<rparr>) = store_exact tp" "store_exact (tp\<lparr>tp_contexts := cm\<rparr>) = store_exact tp"
  "store_exact (tp\<lparr>tp_conversations := cvs\<rparr>) = store_exact tp"
  by (simp_all add: store_exact_def)

lemma sum_delete:
  "distinct (map fst xs) \<Longrightarrow> map_of xs c = Some s \<Longrightarrow>
   sum_list (map (f \<circ> snd) xs) = f s + sum_list (map (f \<circ> snd) (AList.delete c xs))" for f :: "'v \<Rightarrow> 'w::comm_monoid_add"
proof (induction xs)
  case (Cons x xs)
  obtain d t where x: "x = (d, t)" by fastforce
  show ?case
  proof (cases "d = c")
    case True
    with Cons.prems x have "c \<notin> fst ` set xs" "t = s" by auto
    then have "AList.delete c xs = xs" by (simp add: delete_id)
    with True x \<open>t = s\<close> show ?thesis by simp
  next
    case False
    with Cons x show ?thesis by (simp add: add.left_commute)
  qed
qed simp

lemma sum_update:
  "distinct (map fst xs) \<Longrightarrow> sum_list (map (f \<circ> snd) (AList.update c s xs)) =
   f s + sum_list (map (f \<circ> snd) (AList.delete c xs))" for f :: "'v \<Rightarrow> 'w::comm_monoid_add"
proof (induction xs)
  case (Cons x xs)
  obtain d t where x: "x = (d, t)" by fastforce
  show ?case
  proof (cases "d = c")
    case True
    with Cons.prems x have "c \<notin> fst ` set xs" by auto
    then have "AList.delete c xs = xs" by (simp add: delete_id)
    with True x show ?thesis by simp
  next
    case False
    with Cons x show ?thesis by (simp add: add.left_commute)
  qed
qed simp

lemma delete_absent: "map_of xs c = None \<Longrightarrow> AList.delete c xs = xs"
  by (simp add: delete_id map_of_eq_None_iff)

lemma put_snapshot_simps [simp]:
  "tp_contexts (put_snapshot c s tp) = tp_contexts tp" "tp_conversations (put_snapshot c s tp) = tp_conversations tp"
  "tp_calls (put_snapshot c s tp) = tp_calls tp" "tp_config (put_snapshot c s tp) = tp_config tp"
  "tp_initialized (put_snapshot c s tp) = tp_initialized tp"
  "snapshot_of (put_snapshot c s tp) d = (if d = c then Some s else snapshot_of tp d)"
  by (simp_all add: put_snapshot_def Let_def update_conv')

lemma put_snapshot_store: "store_exact tp \<Longrightarrow> store_exact (put_snapshot c s tp)"
proof -
  assume st: "store_exact tp"
  note d = store_exactD [OF st]
  show ?thesis
  proof (cases "snapshot_of tp c")
    case None
    then show ?thesis using d sum_update [OF d(1), of cs_bytes c s]
      by (simp add: put_snapshot_def store_exact_def distinct_update delete_absent Let_def)
  next
    case (Some old)
    then show ?thesis using d sum_update [OF d(1), of cs_bytes c s] sum_delete [OF d(1) Some, of cs_bytes]
      by (simp add: put_snapshot_def store_exact_def distinct_update Let_def)
  qed
qed

lemma erase_snapshot_simps [simp]:
  "tp_contexts (erase_snapshot c tp) = tp_contexts tp" "tp_conversations (erase_snapshot c tp) = tp_conversations tp"
  "tp_calls (erase_snapshot c tp) = tp_calls tp" "tp_config (erase_snapshot c tp) = tp_config tp"
  "tp_initialized (erase_snapshot c tp) = tp_initialized tp"
  by (simp_all add: erase_snapshot_def split: option.splits)

lemma erase_snapshot_of [simp]: "snapshot_of (erase_snapshot c tp) d = (if d = c then None else snapshot_of tp d)"
  by (auto simp: erase_snapshot_def delete_conv' split: option.splits)

lemma erase_snapshot_store: "store_exact tp \<Longrightarrow> store_exact (erase_snapshot c tp)"
proof -
  assume st: "store_exact tp"
  note d = store_exactD [OF st]
  show ?thesis
  proof (cases "snapshot_of tp c")
    case None
    with st show ?thesis by (simp add: erase_snapshot_def)
  next
    case (Some old)
    then show ?thesis using d sum_delete [OF d(1) Some, of cs_bytes]
      by (simp add: erase_snapshot_def store_exact_def distinct_delete)
  qed
qed

lemma outs_effect:
  fixes tp :: top_runtime and xs :: "(context_id \<times> int) list"
  assumes "xs = [] \<or> te_checkpoint e \<noteq> None"
  defines "tp' \<equiv> fold (\<lambda>(c, q). swap_out_effect e c q) xs tp"
  shows "tp_contexts tp' = tp_contexts tp" and "tp_conversations tp' = tp_conversations tp" and "tp_config tp' = tp_config tp"
    and "tp_calls tp' = tp_calls tp @ concat (map (\<lambda>(c, q). [Save q c, Clear q]) xs)"
    and "store_exact tp \<Longrightarrow> store_exact tp'"
    and "snapshot_of tp' d \<noteq> None \<longleftrightarrow> d \<in> fst ` set xs \<or> snapshot_of tp d \<noteq> None"
    and "tp_initialized tp' = tp_initialized tp"
proof -
  have "tp_contexts tp' = tp_contexts tp \<and> tp_conversations tp' = tp_conversations tp \<and> tp_config tp' = tp_config tp \<and>
    tp_calls tp' = tp_calls tp @ concat (map (\<lambda>(c, q). [Save q c, Clear q]) xs) \<and> (store_exact tp \<longrightarrow> store_exact tp') \<and>
    (snapshot_of tp' d \<noteq> None \<longleftrightarrow> d \<in> fst ` set xs \<or> snapshot_of tp d \<noteq> None) \<and> tp_initialized tp' = tp_initialized tp"
    using assms(1) unfolding tp'_def
  proof (induction xs arbitrary: tp)
    case (Cons x xs)
    obtain c q where x: "x = (c, q)" by fastforce
    obtain n b where ck: "te_checkpoint e = Some (n, b)" using Cons.prems by auto
    let ?t = "swap_out_effect e c q tp"
    have "tp_contexts ?t = tp_contexts tp \<and> tp_conversations ?t = tp_conversations tp \<and> tp_config ?t = tp_config tp \<and>
      tp_calls ?t = tp_calls tp @ [Save q c, Clear q] \<and> (store_exact tp \<longrightarrow> store_exact ?t) \<and>
      snapshot_of ?t d = (if d = c then snapshot_of ?t c else snapshot_of tp d) \<and> snapshot_of ?t c \<noteq> None \<and>
      tp_initialized ?t = tp_initialized tp"
      by (auto simp: swap_out_effect_def ck intro!: put_snapshot_store)
    with Cons.IH [of ?t] ck show ?case by (auto simp: x)
  qed simp
  then show "tp_contexts tp' = tp_contexts tp" and "tp_conversations tp' = tp_conversations tp" and "tp_config tp' = tp_config tp"
    and "tp_calls tp' = tp_calls tp @ concat (map (\<lambda>(c, q). [Save q c, Clear q]) xs)"
    and "store_exact tp \<Longrightarrow> store_exact tp'"
    and "snapshot_of tp' d \<noteq> None \<longleftrightarrow> d \<in> fst ` set xs \<or> snapshot_of tp d \<noteq> None"
    and "tp_initialized tp' = tp_initialized tp" by simp_all
qed

lemma ins_effect:
  fixes tp :: top_runtime and xs :: "(context_id \<times> int) list" and e :: top_env
  defines "tp' \<equiv> fold (\<lambda>(c, q). swap_in_effect e c q) xs tp"
  shows "tp_contexts tp' = tp_contexts tp" and "tp_conversations tp' = tp_conversations tp" and "tp_config tp' = tp_config tp"
    and "tp_calls tp' = tp_calls tp @ map (\<lambda>(c, q). Load q c) xs"
    and "store_exact tp \<Longrightarrow> store_exact tp'"
    and "snapshot_of tp' d = (if te_removed e \<and> d \<in> fst ` set xs then None else snapshot_of tp d)"
    and "tp_initialized tp' = tp_initialized tp"
proof -
  have "tp_contexts tp' = tp_contexts tp \<and> tp_conversations tp' = tp_conversations tp \<and> tp_config tp' = tp_config tp \<and>
    tp_calls tp' = tp_calls tp @ map (\<lambda>(c, q). Load q c) xs \<and> (store_exact tp \<longrightarrow> store_exact tp') \<and>
    snapshot_of tp' d = (if te_removed e \<and> d \<in> fst ` set xs then None else snapshot_of tp d) \<and> tp_initialized tp' = tp_initialized tp"
    unfolding tp'_def
  proof (induction xs arbitrary: tp)
    case (Cons x xs)
    obtain c q where x: "x = (c, q)" by fastforce
    let ?t = "swap_in_effect e c q tp"
    have "tp_contexts ?t = tp_contexts tp \<and> tp_conversations ?t = tp_conversations tp \<and> tp_config ?t = tp_config tp \<and>
      tp_calls ?t = tp_calls tp @ [Load q c] \<and> (store_exact tp \<longrightarrow> store_exact ?t) \<and>
      snapshot_of ?t d = (if te_removed e \<and> d = c then None else snapshot_of tp d) \<and> tp_initialized ?t = tp_initialized tp"
      by (auto simp: swap_in_effect_def Let_def intro!: erase_snapshot_store)
    with Cons.IH [of ?t] show ?case by (auto simp: x)
  qed simp
  then show "tp_contexts tp' = tp_contexts tp" and "tp_conversations tp' = tp_conversations tp" and "tp_config tp' = tp_config tp"
    and "tp_calls tp' = tp_calls tp @ map (\<lambda>(c, q). Load q c) xs"
    and "store_exact tp \<Longrightarrow> store_exact tp'"
    and "snapshot_of tp' d = (if te_removed e \<and> d \<in> fst ` set xs then None else snapshot_of tp d)"
    and "tp_initialized tp' = tp_initialized tp" by simp_all
qed

lemma acquire_context_inv:
  assumes inv: "top_inv None tp" and room: "roomy (tp_contexts tp)"
    and acq: "acquire_context e a p req tp = (r, tp')"
  shows "top_inv (case r of Inl _ \<Rightarrow> None | Inr l \<Rightarrow> Some (cl_context_id l)) tp'"
    and "tp_conversations tp' = tp_conversations tp" and "tp_config tp' = tp_config tp" and "tp_initialized tp' = tp_initialized tp"
    and "r = Inr l \<Longrightarrow> granted a l (tp_contexts tp') \<and>
      (cl_created l \<longleftrightarrow> entry_of (tp_contexts tp) (cl_context_id l) = None)"
    and "r = Inr l \<Longrightarrow> cl_created l \<Longrightarrow> snapshot_of tp' (cl_context_id l) = None \<and>
      owner_total (tp_contexts tp') \<le> Suc (owner_total (tp_contexts tp))"
    and "r = Inr l \<Longrightarrow> cl_created l \<Longrightarrow> map_option ce_owners (entry_of (tp_contexts tp') (cl_context_id l)) = Some [a]"
proof -
  let ?cm = "tp_contexts tp"
  define swap where "swap = (if tc_context_swap (tp_config tp)
    then Some \<lparr>sw_save = Some (swap_out_answer e tp), sw_load = Some (swap_in_answer e tp)\<rparr> else None)"
  obtain r' cm' where acq': "acquire (te_now e) a p req swap ?cm = (r', cm')" by fastforce
  define outs where "outs = fold (\<lambda>(c, q). swap_out_effect e c q) (swapped_out ?cm cm') (tp\<lparr>tp_contexts := cm'\<rparr>)"
  have eq: "r' = r" "tp' = fold (\<lambda>(c, q). swap_in_effect e c q) (swapped_in ?cm cm') outs"
    using acq acq' by (simp_all add: acquire_context_def swap_def [symmetric] Let_def outs_def)
  note D = top_invD [OF inv]
  note mv = acquire_moves [OF D(1) room acq', THEN conjunct1]
  define l where "l = (case r' of Inl _ \<Rightarrow> None | Inr l \<Rightarrow> Some (cl_context_id l))"
  have mv: "moves swap l ?cm cm'" using mv by (simp add: l_def)
  have cm': "cm' = context_step (Op_Acquire (te_now e) a p req swap) ?cm" by (simp add: acq')
  have ok': "cm_ok cm'" using context_step_ok [OF D(1) room] unfolding cm' by blast
  then have inv': "cm_inv {#} cm'" by (simp add: cm_ok_def)
  have lim: "cm_max_resident cm' = cm_max_resident ?cm" using acquire_limits [of "te_now e" a p req swap ?cm] acq' by simp
  have saved: "te_checkpoint e \<noteq> None" if "saved swap c q" for c q
    using that by (auto simp: saved_def swap_def swap_out_answer_def split: if_splits option.splits)
  have out: "te_checkpoint e \<noteq> None" if "(c, q) \<in> set (swapped_out ?cm cm')" for c q
  proof -
    from that obtain g where g: "entry_of ?cm c = Some g" "ce_resident g" "\<not> is_resident cm' c"
      unfolding set_swapped_out [OF cm_invD(1) [OF D(2)]] by blast
    from movesD [OF mv g(1)] obtain g' where "entry_of cm' c = Some g'" "moved swap c (l = Some c) g g'" .
    with g have "saved swap c (ce_sequence g)" by (simp add: moved_def is_resident_def)
    then show ?thesis by (rule saved)
  qed
  have ck: "swapped_out ?cm cm' = [] \<or> te_checkpoint e \<noteq> None" using out by (cases "swapped_out ?cm cm'") auto
  note o = outs_effect [OF ck, of "tp\<lparr>tp_contexts := cm'\<rparr>", folded outs_def]
  note i = ins_effect [where e = e and xs = "swapped_in ?cm cm'" and tp = outs, folded eq(2)]
  show "tp_conversations tp' = tp_conversations tp" "tp_config tp' = tp_config tp" "tp_initialized tp' = tp_initialized tp"
    by (simp_all add: o i)
  have calls: "tp_calls tp' = (tp_calls tp @ concat (map (\<lambda>(c, q). [Save q c, Clear q]) (swapped_out ?cm cm'))) @
      map (\<lambda>(c, q). Load q c) (swapped_in ?cm cm')" by (simp add: o i)
  have ctx: "tp_contexts tp' = cm'" by (simp add: o i)
  have stay: "\<exists>g'. entry_of cm' c = Some g' \<and> (ce_resident g \<and> ce_resident g' \<longrightarrow> ce_sequence g' = ce_sequence g)"
    if "entry_of ?cm c = Some g" for c g
    using movesD [OF mv that] by (auto simp: moved_def)
  have "private_sequences (tp_calls tp') cm'" unfolding calls
    by (rule private_after [OF D(2) inv' D(4) lim stay])
  moreover have "store_exact tp'" using i(5) o(5) D(3) by simp
  moreover have "ce_pins g' = (if l = Some c then 1 else 0)" "\<not> ce_resident g' \<longrightarrow> snapshot_of tp' c \<noteq> None"
    if g': "entry_of cm' c = Some g'" for c g'
  proof -
    have "ce_pins g' = (if l = Some c then 1 else 0) \<and> (\<not> ce_resident g' \<longrightarrow> snapshot_of tp' c \<noteq> None)"
    proof (cases "entry_of ?cm c")
      case None
      with moves_new [OF mv None g'] show ?thesis by simp
    next
      case (Some g)
      from movesD [OF mv Some] g' have m: "moved swap c (l = Some c) g g'" by auto
      have "snapshot_of tp' c \<noteq> None" if no: "\<not> ce_resident g'"
      proof -
        have "c \<notin> fst ` set (swapped_in ?cm cm')"
          using g' no by (auto simp: set_swapped_in [OF cm_invD(1) [OF inv']])
        moreover have "snapshot_of outs c \<noteq> None"
        proof (cases "ce_resident g")
          case True
          then have "(c, ce_sequence g) \<in> set (swapped_out ?cm cm')"
            using Some g' no by (simp add: set_swapped_out [OF cm_invD(1) [OF D(2)]] is_resident_def)
          then have "c \<in> fst ` set (swapped_out ?cm cm')" by force
          then show ?thesis using o(6) by blast
        next
          case False
          then show ?thesis using D(6) [OF Some] o(6) by simp
        qed
        ultimately show ?thesis using i(6) by simp
      qed
      with m D(5) [OF Some] show ?thesis by (simp add: moved_def)
    qed
    then show "ce_pins g' = (if l = Some c then 1 else 0)" "\<not> ce_resident g' \<longrightarrow> snapshot_of tp' c \<noteq> None" by simp_all
  qed
  moreover have old: "entry_of ?cm c \<noteq> None" if "snapshot_of tp' c \<noteq> None" for c
  proof -
    from that have "snapshot_of outs c \<noteq> None" using i(6) by (auto split: if_splits)
    then have "c \<in> fst ` set (swapped_out ?cm cm') \<or> snapshot_of tp c \<noteq> None" using o(6) by auto
    then show ?thesis
    proof
      assume "c \<in> fst ` set (swapped_out ?cm cm')"
      then show ?thesis by (auto simp: set_swapped_out [OF cm_invD(1) [OF D(2)]])
    qed (use D(7) in blast)
  qed
  moreover have "entry_of cm' c \<noteq> None" if "snapshot_of tp' c \<noteq> None \<or> map_of (tp_conversations tp') c \<noteq> None" for c
  proof -
    have "map_of (tp_conversations tp') c = map_of (tp_conversations tp) c" by (simp add: o i)
    with that old [of c] D(8) [of c] have "entry_of ?cm c \<noteq> None" by auto
    then show ?thesis using stay by (cases "entry_of ?cm c") auto
  qed
  ultimately show "top_inv (case r of Inl _ \<Rightarrow> None | Inr l \<Rightarrow> Some (cl_context_id l)) tp'"
    using ok' by (simp add: top_inv_def ctx eq(1) [symmetric] l_def [symmetric])
  show gr: "granted a l' (tp_contexts tp') \<and> (cl_created l' \<longleftrightarrow> entry_of (tp_contexts tp) (cl_context_id l') = None)"
    if "r = Inr l'" for l'
    using that acquire_spec [OF D(1) room acq'] acquire_moves [OF D(1) room acq'] by (simp only: ctx eq(1))
  show "snapshot_of tp' (cl_context_id l') = None \<and> owner_total (tp_contexts tp') \<le> Suc (owner_total (tp_contexts tp))"
    if r: "r = Inr l'" "cl_created l'" for l'
    using gr [OF r(1)] r old [of "cl_context_id l'"] acquire_created(1) [OF D(2) _ r(2)] acq' unfolding ctx eq(1) by blast
  show "map_option ce_owners (entry_of (tp_contexts tp') (cl_context_id l')) = Some [a]" if r: "r = Inr l'" "cl_created l'" for l'
    using acquire_created(2) [OF D(2) _ r(2), of "te_now e" a p req swap cm'] acq' r(1) by (simp add: ctx eq(1))
qed

section \<open>The other steps\<close>

lemma private_same:
  assumes "private_sequences calls cm"
    and "\<And>c e'. entry_of cm' c = Some e' \<Longrightarrow> ce_resident e' \<Longrightarrow>
      \<exists>e. entry_of cm c = Some e \<and> ce_resident e \<and> ce_sequence e = ce_sequence e'"
    and "set (cm_free cm') \<subseteq> set (cm_free cm)"
  shows "private_sequences calls cm'"
proof -
  have "tokens calls (ce_sequence e') \<subseteq> {c}" if "entry_of cm' c = Some e'" "ce_resident e'" for c e'
    using assms(2) [OF that] assms(1) unfolding private_sequences_def by metis
  with assms(1,3) show ?thesis unfolding private_sequences_def by blast
qed

text \<open>The engine works on the sequence of a resident context.\<close>

lemma private_infer:
  assumes inv: "cm_inv {#} cm" and priv: "private_sequences calls cm" and c: "entry_of cm c = Some e" "ce_resident e"
  shows "private_sequences (calls @ [Infer (ce_sequence e) c first]) cm"
proof -
  have "tokens calls (ce_sequence e) \<subseteq> {c}" using priv c unfolding private_sequences_def by blast
  have other: "ce_sequence g \<noteq> ce_sequence e" if "entry_of cm d = Some g" "ce_resident g" "d \<noteq> c" for d g
    using sequence_unique [OF inv that(1,2) c] that(3) by blast
  have "tokens (calls @ [Infer (ce_sequence e) c first]) (ce_sequence g) \<subseteq> {d}"
    if d: "entry_of cm d = Some g" "ce_resident g" for d g
  proof (cases "d = c")
    case True
    with d c \<open>tokens calls (ce_sequence e) \<subseteq> {c}\<close> show ?thesis by simp
  next
    case False
    have "tokens calls (ce_sequence g) \<subseteq> {d}" using priv d unfolding private_sequences_def by blast
    with other [OF d False] show ?thesis by simp
  qed
  moreover have "tokens (calls @ [Infer (ce_sequence e) c first]) q = {}" if "q \<in> set (cm_free cm)" for q
    using that sequence_not_free(1) [OF inv c] priv unfolding private_sequences_def by auto
  moreover have "safe_calls (\<lambda>_. {}) (calls @ [Infer (ce_sequence e) c first])"
    using priv c by (auto simp: safe_snoc private_sequences_def)
  ultimately show ?thesis unfolding private_sequences_def by blast
qed

lemma top_inv_fields [simp]:
  "top_inv pinned (tp\<lparr>tp_initialized := i\<rparr>) = top_inv pinned tp" "top_inv pinned (tp\<lparr>tp_model := m\<rparr>) = top_inv pinned tp"
  by (simp_all add: top_inv_def store_exact_def)

lemma finish_context_inv:
  assumes inv: "top_inv (Some c) tp" and e: "entry_of (tp_contexts tp) c = Some g"
  shows "top_inv None (finish_context e c tp)"
    and "entry_of (tp_contexts (finish_context e c tp)) c = Some (g\<lparr>ce_pins := 0, ce_last_access := te_now e\<rparr>)"
    and "owner_total (tp_contexts (finish_context e c tp)) = owner_total (tp_contexts tp)"
proof -
  note D = top_invD [OF inv]
  let ?f = "\<lambda>g. g\<lparr>ce_pins := ce_pins g - 1, ce_last_access := te_now e\<rparr>"
  have pin: "ce_pins g = 1" using D(5) [OF e] by simp
  have fin: "finish (te_now e) c (tp_contexts tp) = (Inr (), update_entry c ?f (tp_contexts tp))"
    using e pin by (simp add: finish_def)
  have cm: "tp_contexts (finish_context e c tp) = update_entry c ?f (tp_contexts tp)"
    by (simp add: finish_context_def fin)
  have at: "entry_of (tp_contexts (finish_context e c tp)) d =
      (if d = c then Some (g\<lparr>ce_pins := 0, ce_last_access := te_now e\<rparr>) else entry_of (tp_contexts tp) d)" for d
    using e pin by (simp add: cm ctx_simps)
  then show "entry_of (tp_contexts (finish_context e c tp)) c = Some (g\<lparr>ce_pins := 0, ce_last_access := te_now e\<rparr>)" by simp
  have "cm_ok (update_entry c ?f (tp_contexts tp))" by (rule finish_ok(1) [OF D(1) fin])
  moreover have "private_sequences (tp_calls tp) (tp_contexts (finish_context e c tp))"
    by (rule private_same [OF D(4)]) (use at e in \<open>auto simp: cm manager_fields split: if_splits\<close>)
  moreover have "ce_pins h = 0 \<and> (ce_resident h \<or> snapshot_of tp d \<noteq> None)"
    if h: "entry_of (tp_contexts (finish_context e c tp)) d = Some h" for d h
  proof -
    obtain h0 where "entry_of (tp_contexts tp) d = Some h0" "ce_resident h = ce_resident h0"
      "d \<noteq> c \<longrightarrow> h = h0" "d = c \<longrightarrow> ce_pins h = 0"
      using h [unfolded at] e by (cases "d = c") auto
    with D(5) [of d h0] D(6) [of d h0] show ?thesis by (cases "d = c"; cases "ce_resident h"; simp)
  qed
  moreover have "entry_of (tp_contexts (finish_context e c tp)) d \<noteq> None"
    if "entry_of (tp_contexts tp) d \<noteq> None" for d using that by (simp add: at)
  moreover have rest: "tp_snapshots (finish_context e c tp) = tp_snapshots tp" "tp_calls (finish_context e c tp) = tp_calls tp"
    "tp_conversations (finish_context e c tp) = tp_conversations tp" "store_exact (finish_context e c tp)"
    using D(3) by (simp_all add: finish_context_def)
  ultimately have all: "cm_ok (tp_contexts (finish_context e c tp))"
      "private_sequences (tp_calls tp) (tp_contexts (finish_context e c tp))"
      "\<And>d h. entry_of (tp_contexts (finish_context e c tp)) d = Some h \<Longrightarrow> ce_pins h = 0 \<and> (ce_resident h \<or> snapshot_of tp d \<noteq> None)"
      "\<And>d. entry_of (tp_contexts tp) d \<noteq> None \<Longrightarrow> entry_of (tp_contexts (finish_context e c tp)) d \<noteq> None"
    by (simp_all only: cm)
  show "top_inv None (finish_context e c tp)"
  proof (rule top_invI)
    fix d assume "map_of (tp_conversations (finish_context e c tp)) d \<noteq> None"
    then show "entry_of (tp_contexts (finish_context e c tp)) d \<noteq> None" unfolding rest using all(4) D(8) by blast
  next
    fix d assume "snapshot_of (finish_context e c tp) d \<noteq> None"
    then show "entry_of (tp_contexts (finish_context e c tp)) d \<noteq> None" unfolding rest using all(4) D(7) by blast
  next
    fix d h assume "entry_of (tp_contexts (finish_context e c tp)) d = Some h" "\<not> ce_resident h"
    then show "snapshot_of (finish_context e c tp) d \<noteq> None" unfolding rest using all(3) [of d h] by blast
  next
    fix d h assume "entry_of (tp_contexts (finish_context e c tp)) d = Some h"
    then show "ce_pins h = (if None = Some d then 1 else 0)" using all(3) [of d h] by simp
  qed (use all rest in \<open>simp_all only: rest\<close>)
  show "owner_total (tp_contexts (finish_context e c tp)) = owner_total (tp_contexts tp)"
    using owner_total_update [OF cm_invD(1) [OF D(2)] e, of ?f] by (simp add: cm)
qed

lemma finish_context_other [simp]:
  "tp_conversations (finish_context e c tp) = tp_conversations tp" "tp_snapshots (finish_context e c tp) = tp_snapshots tp"
  "tp_calls (finish_context e c tp) = tp_calls tp" "tp_config (finish_context e c tp) = tp_config tp"
  "tp_initialized (finish_context e c tp) = tp_initialized tp"
  by (simp_all add: finish_context_def)

lemma infer_inv:
  assumes inv: "top_inv pinned tp" and e: "entry_of (tp_contexts tp) c = Some g" "ce_resident g"
  shows "top_inv pinned (tp\<lparr>tp_calls := tp_calls tp @ [Infer (ce_sequence g) c first]\<rparr>)"
  using inv private_infer [OF top_invD(2,4) [OF inv] e] by (simp add: top_inv_def)

lemma put_conversation_inv:
  assumes "top_inv pinned tp" and "entry_of (tp_contexts tp) c \<noteq> None"
  shows "top_inv pinned (put_conversation c cv tp)"
  using assms by (auto simp: top_inv_def put_conversation_def update_conv' split: if_splits)

lemma forget_conversation_inv:
  assumes "top_inv pinned tp"
  shows "top_inv pinned (tp\<lparr>tp_conversations := AList.delete c (tp_conversations tp)\<rparr>)"
  using assms by (auto simp: top_inv_def delete_conv' split: if_splits)

lemma private_clear:
  assumes "private_sequences calls cm"
  shows "private_sequences (calls @ [Clear q]) cm"
  using assms unfolding private_sequences_def by (auto simp: safe_snoc)

text \<open>A release that the context manager accepts, with what follows from it.\<close>

lemma release_inv:
  assumes inv: "top_inv None tp" and room: "owner_total (tp_contexts tp) < 2 ^ 64"
    and rel: "release_context now a p c (tp_contexts tp) = (Inr x, cm')"
  shows "top_inv None (release_end c x (tp\<lparr>tp_contexts := cm'\<rparr>))"
proof -
  note D = top_invD [OF inv]
  note spec = release_context_exact [OF D(2) room rel]
  obtain g where e: "entry_of (tp_contexts tp) c = Some g" using spec by (cases "entry_of (tp_contexts tp) c") auto
  let ?w = "released_owner g a p"
  have ok': "cm_ok cm'" by (rule release_context_ok(1) [OF D(1) room rel])
  show ?thesis
  proof (cases "ce_owners g = [?w]")
    case True
    then have x: "x = (if ce_resident g then ce_sequence g else - 1, True)"
      and free: "cm_free cm' = cm_free (tp_contexts tp) @ (if ce_resident g then [ce_sequence g] else [])"
      and at: "\<And>d. entry_of cm' d = (if d = c then None else entry_of (tp_contexts tp) d)"
      using spec e by (auto simp: Let_def split: if_splits)
    have priv: "private_sequences (if ce_resident g then tp_calls tp @ [Clear (ce_sequence g)] else tp_calls tp) cm'"
    proof (cases "ce_resident g")
      case True
      have "tokens (tp_calls tp @ [Clear (ce_sequence g)]) (ce_sequence h) \<subseteq> {d}"
        if "entry_of cm' d = Some h" "ce_resident h" for d h
        using that D(4) at unfolding private_sequences_def by (auto split: if_splits)
      then show ?thesis using D(4) free True unfolding private_sequences_def by (auto simp: safe_snoc)
    next
      case False
      have "private_sequences (tp_calls tp) cm'"
        by (rule private_same [OF D(4)]) (use at free False in \<open>auto split: if_splits\<close>)
      with False show ?thesis by simp
    qed
    have pos: "1 \<le> ce_sequence g" if "ce_resident g" by (rule sequence_not_free(2) [OF D(2) e that])
    define t where "t = erase_snapshot c (tp\<lparr>tp_contexts := cm',
      tp_calls := (if ce_resident g then tp_calls tp @ [Clear (ce_sequence g)] else tp_calls tp)\<rparr>)"
    have eq: "release_end c x (tp\<lparr>tp_contexts := cm'\<rparr>) = t\<lparr>tp_conversations := AList.delete c (tp_conversations tp)\<rparr>"
      using pos by (cases "ce_resident g") (simp_all add: release_end_def x clear_sequence_def remove_snapshot_def Let_def t_def)
    have t: "tp_contexts t = cm'" "store_exact t" "\<And>d. snapshot_of t d = (if d = c then None else snapshot_of tp d)"
      "private_sequences (tp_calls t) cm'"
      using D(3) priv by (auto simp: t_def intro!: erase_snapshot_store)
    show ?thesis using ok' t(2,4) D(5-8) unfolding eq top_inv_def
      by (auto simp: t at delete_conv' split: if_splits)
  next
    case False
    then have x: "x = (- 1, False)" and free: "cm_free cm' = cm_free (tp_contexts tp)"
      and at: "\<And>d. entry_of cm' d = (if d = c then Some (g\<lparr>ce_owners := removeAll ?w (ce_owners g),
        ce_last_access := now\<rparr>) else entry_of (tp_contexts tp) d)"
      using spec e by (auto simp: Let_def split: if_splits)
    have eq: "release_end c x (tp\<lparr>tp_contexts := cm'\<rparr>) = tp\<lparr>tp_contexts := cm'\<rparr>"
      by (simp add: release_end_def x clear_sequence_def)
    have "private_sequences (tp_calls tp) cm'"
      by (rule private_same [OF D(4)]) (use at free e in \<open>auto split: if_splits\<close>)
    then show ?thesis using ok' D(3,5-8) e unfolding eq top_inv_def by (auto simp: at split: if_splits)
  qed
qed

section \<open>A generation\<close>

text \<open>After the inference the context is unpinned; a failure gives a context that was created back.\<close>

lemma generation_failed_inv:
  assumes inv: "top_inv None tp" and room: "cl_created l \<Longrightarrow> owner_total (tp_contexts tp) < 2 ^ 64"
    and c: "entry_of (tp_contexts tp) (cl_context_id l) \<noteq> None"
    and new: "cl_created l \<Longrightarrow> snapshot_of tp (cl_context_id l) = None"
  shows "top_inv None (snd (generation_failed e f cancelled q l before plan tp))"
proof -
  let ?c = "cl_context_id l"
  define cv where "cv = (if pl_applied plan then (pl_conversation plan)\<lparr>cv_messages := cv_messages before\<rparr> else pl_conversation plan)"
  define t where "t = put_conversation ?c cv tp"
  have t: "top_inv None t" unfolding t_def by (rule put_conversation_inv [OF inv c])
  have same: "tp_contexts t = tp_contexts tp" "tp_snapshots t = tp_snapshots tp" by (simp_all add: t_def put_conversation_def)
  show ?thesis
  proof (cases "cl_created l")
    case False
    with t show ?thesis by (simp add: generation_failed_def Let_def t_def cv_def)
  next
    case True
    obtain r cm' where rel: "release_context (te_now e) (nq_agent_id q) (nq_parent_id q) ?c (tp_contexts t) = (r, cm')" by fastforce
    define u where "u = (case r of Inl _ \<Rightarrow> t\<lparr>tp_contexts := cm'\<rparr> | Inr x \<Rightarrow> clear_sequence (fst x) (t\<lparr>tp_contexts := cm'\<rparr>))"
    have eq: "snd (generation_failed e f cancelled q l before plan tp) = u\<lparr>tp_conversations := AList.delete ?c (tp_conversations u)\<rparr>"
      using True rel [unfolded same]
      by (cases r) (simp_all add: generation_failed_def Let_def t_def [symmetric] cv_def [symmetric] u_def same case_prod_unfold)
    note room' = room [OF True, folded same(1)]
    show ?thesis
    proof (cases r)
      case (Inl err)
      with rel release_context_exact [OF top_invD(2) [OF t] room' rel] have "cm' = tp_contexts t"
        by (auto simp: Let_def split: option.splits if_splits)
      then have "u = t" by (simp add: u_def Inl)
      with t show ?thesis unfolding eq by (simp add: forget_conversation_inv)
    next
      case (Inr x)
      note rl = release_inv [OF t room' rel [unfolded Inr]]
      have "snapshot_of (clear_sequence (fst x) (t\<lparr>tp_contexts := cm'\<rparr>)) ?c = None"
        using new [OF True] same by (simp add: clear_sequence_def)
      then have "release_end ?c x (t\<lparr>tp_contexts := cm'\<rparr>) =
          (if snd x then u\<lparr>tp_conversations := AList.delete ?c (tp_conversations u)\<rparr> else u)"
        by (simp add: release_end_def u_def Inr remove_snapshot_def erase_snapshot_def Let_def)
      with rl forget_conversation_inv [of None u ?c] show ?thesis unfolding eq by (auto split: if_splits)
    qed
  qed
qed

lemma generate_leased_inv:
  assumes inv: "top_inv (Some (cl_context_id l)) tp" and room: "cl_created l \<Longrightarrow> owner_total (tp_contexts tp) < 2 ^ 64"
    and g: "granted a l (tp_contexts tp)" and new: "cl_created l \<Longrightarrow> snapshot_of tp (cl_context_id l) = None"
    and gen: "generate_leased e cancelled g0 q l k tp = (r, k', tp')"
  shows "top_inv None tp'"
proof -
  let ?c = "cl_context_id l"
  obtain h where h: "entry_of (tp_contexts tp) ?c = Some h" "ce_resident h" "ce_sequence h = cl_sequence_id l"
    using g by (auto simp: granted_def)
  define before where "before = lease_conversation l tp"
  show ?thesis
  proof (cases "make_plan e g0 (cl_created l) before")
    case (Inl err)
    have "tp' = finish_context e ?c (put_conversation ?c before tp)"
      using gen Inl by (simp add: generate_leased_def Let_def before_def)
    moreover have "top_inv (Some ?c) (put_conversation ?c before tp)" using put_conversation_inv [OF inv] h(1) by simp
    ultimately show ?thesis using finish_context_inv(1) h(1) by (simp add: put_conversation_def)
  next
    case (Inr plan)
    define t where "t = tp\<lparr>tp_calls := tp_calls tp @ [Infer (cl_sequence_id l) ?c (cl_created l)]\<rparr>"
    have t: "top_inv (Some ?c) t" using infer_inv [OF inv h(1,2), of "cl_created l"] by (simp add: t_def h(3))
    have at: "entry_of (tp_contexts t) ?c = Some h" by (simp add: t_def h(1))
    note fin = finish_context_inv [OF t at, of e]
    have snap: "tp_snapshots t = tp_snapshots tp" "tp_contexts t = tp_contexts tp" by (simp_all add: t_def)
    define f where "f = te_inference e (make_engine_request (tp_config tp) g0 q l plan)"
    show ?thesis
    proof (cases "if_result f \<noteq> 0")
      case True
      have "tp' = snd (generation_failed e f cancelled q l before plan (finish_context e ?c t))"
        using gen Inr True by (auto simp: generate_leased_def Let_def before_def t_def f_def split: prod.splits)
      then show ?thesis
        using generation_failed_inv [OF fin(1), of l e f cancelled q before plan] fin(2,3) room new by (simp add: snap)
    next
      case False
      then obtain cv where "tp' = put_conversation ?c cv (finish_context e ?c t)"
        using gen Inr by (auto simp: generate_leased_def generation_done_def Let_def before_def t_def f_def split: prod.splits)
      then show ?thesis using put_conversation_inv [OF fin(1)] fin(2) by simp
    qed
  qed
qed

text \<open>The counters have room for one more context.\<close>

definition top_roomy :: "top_runtime \<Rightarrow> bool" where
  "top_roomy tp \<longleftrightarrow> cm_next_id (tp_contexts tp) \<noteq> - 1 \<and> owner_total (tp_contexts tp) + 1 < 2 ^ 64"

lemma top_roomyD: "top_roomy tp \<Longrightarrow> roomy (tp_contexts tp)"
  by (simp add: top_roomy_def roomy_def)

lemma handle_generate_inv:
  assumes inv: "top_inv None tp" and room: "top_roomy tp" and h: "handle_generate e cancelled q inputs k tp = (r, k', tp')"
  shows "top_inv None tp'"
proof -
  define g where "g = parse_generation e (tp_config tp) (nq_payload q)"
  obtain a tp1 where acq: "acquire_context e (nq_agent_id q) (nq_parent_id q) (nq_context_id q) tp = (a, tp1)" by fastforce
  note ac = acquire_context_inv [OF inv top_roomyD [OF room] acq]
  consider "tp' = tp" | err where "a = Inl err" "tp' = tp1"
    | l prompt where "a = Inr l" "generate_leased e cancelled (g\<lparr>gn_prompt := prompt\<rparr>) q l k tp1 = (r, k', tp')"
    using h acq by (auto simp: handle_generate_def Let_def g_def [symmetric] split: sum.splits if_splits)
  then show ?thesis
  proof cases
    case 3
    have "owner_total (tp_contexts tp1) < 2 ^ 64" if "cl_created l"
      using ac(6) [OF 3(1) that] room by (simp add: top_roomy_def)
    note room1 = this
    have "top_inv (Some (cl_context_id l)) tp1" using ac(1) 3(1) by simp
    from generate_leased_inv [OF this room1 _ _ 3(2)] ac(5,6) [OF 3(1)] show ?thesis by blast
  qed (use inv ac(1) in auto)
qed

lemma handle_release_inv:
  assumes inv: "top_inv None tp" and room: "top_roomy tp" and h: "handle_release e q k tp = (r, k', tp')"
  shows "top_inv None tp'"
proof (cases "nq_context_id q = 0")
  case True
  with inv h show ?thesis by (simp add: handle_release_def release_begin_def)
next
  case False
  obtain a cm' where rel: "release_context (te_now e) (nq_agent_id q) (nq_parent_id q) (nq_context_id q) (tp_contexts tp) = (a, cm')"
    by fastforce
  have room': "owner_total (tp_contexts tp) < 2 ^ 64" using room by (simp add: top_roomy_def)
  show ?thesis
  proof (cases a)
    case (Inl err)
    with release_context_exact [OF top_invD(2) [OF inv] room' rel] have "cm' = tp_contexts tp"
      by (auto simp: Let_def split: option.splits if_splits)
    with h rel Inl False inv show ?thesis by (simp add: handle_release_def release_begin_def)
  next
    case (Inr x)
    have "tp' = release_end (nq_context_id q) x (tp\<lparr>tp_contexts := cm'\<rparr>)"
      using h rel Inr False by (auto simp: handle_release_def release_begin_def split: prod.splits)
    with release_inv [OF inv room' rel [unfolded Inr]] show ?thesis by simp
  qed
qed

lemma top_handle_inv:
  assumes inv: "top_inv None tp" and room: "top_roomy tp" and h: "top_handle e cancel q inputs k tp = (r, k', tp')"
  shows "top_inv None tp'"
proof -
  consider "tp' = tp" | "handle_release e q k tp = (r, k', tp')"
    | cancelled where "handle_generate e cancelled q inputs k tp = (r, k', tp')"
    using h by (auto simp: top_handle_def handle_model_def split: prod.splits if_splits invocation_kind.splits)
  then show ?thesis
    by cases (use inv handle_release_inv [OF inv room] handle_generate_inv [OF inv room] in auto)
qed

section \<open>Reachable states\<close>

inductive top_reachable :: "top_config \<Rightarrow> top_runtime \<Rightarrow> bool" for c where
  start: "top_reachable c (new_top_runtime shell c)"
| initialize: "top_reachable c tp \<Longrightarrow> top_reachable c (snd (top_initialize engine load e tp))"
| handle: "top_reachable c tp \<Longrightarrow> top_roomy tp \<Longrightarrow> top_reachable c (snd (snd (top_handle e cancel q inputs k tp)))"

lemma entries_new: "entry_of (new_manager r l) c = None"
  by (simp add: new_manager_def Let_def)

lemma new_top_inv: "top_inv None (new_top_runtime shell c)"
proof (rule top_invI)
  show "cm_ok (tp_contexts (new_top_runtime shell c))" by (simp add: new_top_runtime_def new_manager_ok)
qed (simp_all add: new_top_runtime_def store_exact_def private_sequences_def entries_new tokens_def)

lemma store_env_inv:
  "top_inv None tp \<Longrightarrow> top_inv None (snd (initialize_snapshot_store e tp))"
  by (auto simp: initialize_snapshot_store_def top_inv_def store_exact_def Let_def split: option.splits)

lemma top_reachable_inv: "top_reachable c tp \<Longrightarrow> top_inv None tp"
proof (induction rule: top_reachable.induct)
  case (start shell)
  show ?case by (rule new_top_inv)
next
  case (initialize tp engine load e)
  then have "top_inv None (snd (initialize_snapshot_store e (tp\<lparr>tp_model := m\<rparr>)))" for m
    by (simp add: store_env_inv)
  with initialize.IH show ?case
    by (auto simp: top_initialize_def split: option.splits prod.splits sum.splits) (metis snd_conv top_inv_fields)+
next
  case (handle tp e cancel q inputs k)
  show ?case by (rule top_handle_inv [OF handle.IH handle.hyps(2)]) (simp add: prod_eq_iff)
qed

end
