(* ===== verification/Top_Steps.thy ===== *)
theory Top_Steps
  imports Top_Inv
begin

text \<open>
  What holds of the service in every state it reaches: sequences and checkpoints belong to one
  context, and the conversations that are kept consist of complete turns, whatever failed on the way.
  Then the text that a generation works on, and a release that overlaps with a generation.
\<close>

section \<open>Conversations\<close>

text \<open>Complete turns, perhaps after a system prompt.\<close>

fun turns :: "chat \<Rightarrow> bool" where
  "turns [] \<longleftrightarrow> True"
| "turns [m] \<longleftrightarrow> False"
| "turns (m # n # ms) \<longleftrightarrow> fst m = ''user'' \<and> fst n = ''assistant'' \<and> turns ms"

definition chat_ok :: "chat \<Rightarrow> bool" where
  "chat_ok ms \<longleftrightarrow> turns ms \<or> (ms \<noteq> [] \<and> fst (hd ms) = ''system'' \<and> snd (hd ms) \<noteq> [] \<and> turns (tl ms))"

definition conversation_ok :: "conversation \<Rightarrow> bool" where
  "conversation_ok cv \<longleftrightarrow> chat_ok (cv_messages cv) \<and> (\<not> cv_template cv \<longrightarrow> cv_messages cv = [])"

definition conversations_ok :: "top_runtime \<Rightarrow> bool" where
  "conversations_ok tp \<longleftrightarrow> (\<forall>c cv. map_of (tp_conversations tp) c = Some cv \<longrightarrow> conversation_ok cv)"

lemma turns_snoc: "turns ms \<Longrightarrow> turns (ms @ [(''user'', u), (''assistant'', a)])"
  by (induction ms rule: turns.induct) auto

lemma chat_ok_snoc: "chat_ok ms \<Longrightarrow> chat_ok (ms @ [(''user'', u), (''assistant'', a)])"
  using turns_snoc [of ms u a] turns_snoc [of "tl ms" u a] unfolding chat_ok_def by (cases ms) auto

lemma empty_conversation_ok [simp]: "conversation_ok (empty_conversation\<lparr>cv_template := b\<rparr>)" "conversation_ok empty_conversation"
  by (simp_all add: conversation_ok_def empty_conversation_def chat_ok_def)

lemma lease_conversation_ok: "conversations_ok tp \<Longrightarrow> conversation_ok (lease_conversation l tp)"
  by (auto simp: lease_conversation_def conversations_ok_def split: option.splits)

text \<open>The conversation of a plan: one user message more than the one before, or unchanged.\<close>

lemma make_plan_ok:
  assumes plan: "make_plan e g created cv = Inr pl" and ok: "conversation_ok cv" and new: "created \<Longrightarrow> cv_messages cv = []"
  shows "if pl_applied pl
    then cv_template (pl_conversation pl) \<and> (\<forall>a. chat_ok (cv_messages (pl_conversation pl) @ [(''assistant'', a)]))
    else conversation_ok (pl_conversation pl)"
proof -
  have snoc: "chat_ok (cv_messages cv @ [(''user'', u), (''assistant'', a)])" for u a
    using chat_ok_snoc ok by (simp add: conversation_ok_def)
  show ?thesis
  proof (cases "cv_template cv")
    case False
    with plan ok show ?thesis by (auto simp: make_plan_def)
  next
    case active: True
    show ?thesis
    proof (cases created)
      case True
      have "pl = first_plan e g cv" using plan True active by (simp add: make_plan_def)
      then show ?thesis using new [OF True] active
        by (auto simp: first_plan_def conversation_ok_def chat_ok_def Let_def split: option.splits)
    next
      case False
      then have "next_plan e g cv = Inr pl" using plan active by (simp add: make_plan_def)
      then show ?thesis using snoc active by (auto simp: next_plan_def Let_def split: option.splits if_splits)
    qed
  qed
qed

lemma put_conversation_ok: "conversations_ok tp \<Longrightarrow> conversation_ok cv \<Longrightarrow> conversations_ok (put_conversation c cv tp)"
  by (auto simp: conversations_ok_def put_conversation_def update_conv')

lemma conversations_untouched [simp]:
  "tp_conversations (clear_sequence q tp) = tp_conversations tp" "tp_conversations (remove_snapshot c tp) = tp_conversations tp"
  by (simp_all add: clear_sequence_def remove_snapshot_def)

lemma conversations_ok_delete [simp]:
  "tp_conversations tp = tp_conversations tp0 \<Longrightarrow> conversations_ok tp0 \<Longrightarrow>
   conversations_ok (tp\<lparr>tp_conversations := AList.delete c (tp_conversations tp0)\<rparr>)"
  by (auto simp: conversations_ok_def delete_conv')

lemma conversations_ok_fields [simp]:
  "conversations_ok (tp\<lparr>tp_contexts := cm\<rparr>) = conversations_ok tp"
  "conversations_ok (tp\<lparr>tp_calls := calls\<rparr>) = conversations_ok tp"
  "conversations_ok (finish_context e c tp) = conversations_ok tp"
  "conversations_ok (clear_sequence q tp) = conversations_ok tp"
  "conversations_ok (remove_snapshot c tp) = conversations_ok tp"
  by (simp_all add: conversations_ok_def clear_sequence_def remove_snapshot_def)

lemma generation_failed_ok:
  assumes ok: "conversations_ok tp" and before: "conversation_ok before"
    and plan: "if pl_applied plan then cv_template (pl_conversation plan) else conversation_ok (pl_conversation plan)"
  shows "conversations_ok (snd (generation_failed e f cancelled q l before plan tp))"
proof -
  define cv where "cv = (if pl_applied plan then (pl_conversation plan)\<lparr>cv_messages := cv_messages before\<rparr> else pl_conversation plan)"
  have "conversation_ok cv" using before plan by (auto simp: cv_def conversation_ok_def)
  then have "conversations_ok (put_conversation (cl_context_id l) cv tp)" by (rule put_conversation_ok [OF ok])
  then show ?thesis
    by (auto simp: generation_failed_def Let_def cv_def [symmetric] split: prod.splits sum.splits)
qed

lemma generate_leased_ok:
  assumes ok: "conversations_ok tp" and gen: "generate_leased e cancelled g q l k tp = (r, k', tp')"
  shows "conversations_ok tp'"
proof -
  define before where "before = lease_conversation l tp"
  have b: "conversation_ok before" unfolding before_def by (rule lease_conversation_ok [OF ok])
  show ?thesis
  proof (cases "make_plan e g (cl_created l) before")
    case (Inl err)
    with gen put_conversation_ok [OF ok b] show ?thesis
      by (auto simp: generate_leased_def Let_def before_def [symmetric])
  next
    case (Inr plan)
    have "cl_created l \<Longrightarrow> cv_messages before = []"
      by (simp add: before_def lease_conversation_def empty_conversation_def)
    note p = make_plan_ok [OF Inr b this]
    define t where "t = finish_context e (cl_context_id l) (tp\<lparr>tp_calls := tp_calls tp @ [Infer (cl_sequence_id l) (cl_context_id l) (cl_created l)]\<rparr>)"
    have t: "conversations_ok t" using ok by (simp add: t_def)
    define f where "f = te_inference e (make_engine_request (tp_config tp) g q l plan)"
    show ?thesis
    proof (cases "if_result f \<noteq> 0")
      case True
      have "tp' = snd (generation_failed e f cancelled q l before plan t)"
        using gen Inr True by (auto simp: generate_leased_def Let_def before_def t_def f_def split: prod.splits)
      with generation_failed_ok [OF t b, of plan] p show ?thesis by (auto split: if_splits)
    next
      case False
      define cv where "cv = (if pl_applied plan
        then (pl_conversation plan)\<lparr>cv_messages := cv_messages (pl_conversation plan) @
          [(''assistant'', case if_text f of None \<Rightarrow> [] | Some t \<Rightarrow> t)]\<rparr> else pl_conversation plan)"
      have "tp' = put_conversation (cl_context_id l) cv t"
        using gen Inr False
        by (auto simp: generate_leased_def generation_done_def Let_def before_def t_def f_def cv_def split: prod.splits)
      moreover have "conversation_ok cv" using p by (auto simp: cv_def conversation_ok_def)
      ultimately show ?thesis using put_conversation_ok [OF t] by simp
    qed
  qed
qed

lemma top_handle_ok:
  assumes inv: "top_inv None tp" and room: "top_roomy tp" and ok: "conversations_ok tp"
    and h: "top_handle e cancel q inputs k tp = (r, k', tp')"
  shows "conversations_ok tp'"
proof -
  consider "tp' = tp" | "handle_release e q k tp = (r, k', tp')"
    | cancelled where "handle_generate e cancelled q inputs k tp = (r, k', tp')"
    using h by (auto simp: top_handle_def handle_model_def split: prod.splits if_splits invocation_kind.splits)
  then show ?thesis
  proof cases
    case 2
    then show ?thesis using ok
      by (auto simp: handle_release_def release_begin_def release_end_def Let_def
        split: prod.splits sum.splits if_splits)
  next
    case (3 cancelled)
    obtain a tp1 where acq: "acquire_context e (nq_agent_id q) (nq_parent_id q) (nq_context_id q) tp = (a, tp1)" by fastforce
    have ok1: "conversations_ok tp1"
      using ok acquire_context_inv(2) [OF inv top_roomyD [OF room] acq] by (simp add: conversations_ok_def)
    show ?thesis using 3 acq ok ok1 generate_leased_ok [OF ok1]
      by (auto simp: handle_generate_def Let_def split: sum.splits if_splits)
  qed (use ok in simp)
qed

lemma top_reachable_ok: "top_reachable c tp \<Longrightarrow> conversations_ok tp"
proof (induction rule: top_reachable.induct)
  case (start shell)
  show ?case by (simp add: conversations_ok_def new_top_runtime_def)
next
  case (initialize tp engine load e)
  have "tp_conversations (snd (top_initialize engine load e tp)) = tp_conversations tp"
    by (auto simp: top_initialize_def initialize_snapshot_store_def Let_def split: option.splits prod.splits sum.splits if_splits)
  with initialize.IH show ?case by (simp add: conversations_ok_def)
next
  case (handle tp e cancel q inputs k)
  show ?case
    by (rule top_handle_ok [OF top_reachable_inv [OF handle.hyps(1)] handle.hyps(2) handle.IH]) (simp add: prod_eq_iff)
qed

section \<open>Example states\<close>

text \<open>One sequence, and a template that ends every message with a newline.\<close>

definition demo_config :: top_config where
  "demo_config = \<lparr>tc_model_path = ''p'', tc_model_alias = ''m'', tc_context_tokens = 64, tc_batch_tokens = 8,
     tc_cpu_threads = 1, tc_max_contexts = 1, tc_max_swapped = 2, tc_max_tokens = 8, tc_temperature = Finite 1,
     tc_top_p = Finite 1, tc_gpu_layers = 0, tc_kv_type_k = Kv_f16, tc_kv_type_v = Kv_f16,
     tc_use_mmap = True, tc_use_mlock = False, tc_shell_tool = False, tc_chat_template = True, tc_context_swap = True,
     tc_swap_directory = ''/s''\<rparr>"

definition demo_render :: "chat \<Rightarrow> bool \<Rightarrow> string option" where
  "demo_render ms add = Some (concat (map (\<lambda>(r, t). hd r # t @ [newline]) ms) @ (if add then ''a'' else []))"

definition demo_env :: "nat \<Rightarrow> int \<Rightarrow> top_env" where
  "demo_env now result = \<lparr>te_now = now, te_strtof = (\<lambda>_. None), te_template = demo_render,
     te_checkpoint = Some (3, 100), te_restores = True, te_secured = True, te_renamed = True, te_removed = True,
     te_warmup = (\<lambda>_. 0), te_inference = (\<lambda>_. \<lparr>if_result = result, if_text = Some ''ok'', if_cancelled = False, if_prompt_tokens = 2,
       if_tokens_generated = 1, if_reused_tokens = 0, if_execution_us = 5, if_cache_bytes = 0, if_cache_hit = False\<rparr>),
     te_engine_stats = [], te_elapsed = 0\<rparr>"

definition demo_store :: store_env where
  "demo_store = \<lparr>se_runtime_directory = None, se_temporary = None, se_nonce = 5, se_created = True, se_secured = True\<rparr>"

definition demo_generate :: "agent_id \<Rightarrow> context_id \<Rightarrow> invocation_request" where
  "demo_generate a c = default_invocation_request\<lparr>nq_agent_id := a, nq_target := ''m'', nq_operation := ''generate'',
     nq_payload := ''hi'', nq_context_id := c\<rparr>"

definition demo_kernel :: kernel where
  "demo_kernel = \<lparr>k_open = [], k_files = [], k_next_file = 0, k_faults = [], k_pid = 9, k_next_region = 1\<rparr>"

definition demo_start :: top_runtime where
  "demo_start = snd (top_initialize True (\<lambda>_. Some 1) demo_store (new_top_runtime None demo_config))"

definition demo_step :: "nat \<Rightarrow> int \<Rightarrow> agent_id \<Rightarrow> context_id \<Rightarrow> top_runtime \<Rightarrow> top_runtime" where
  "demo_step now r a c tp = snd (snd (top_handle (demo_env now r) [] (demo_generate a c) [] demo_kernel tp))"



definition demo_generation :: generation where
  "demo_generation = \<lparr>gn_prompt = ''hi'', gn_system = [], gn_max_tokens = 8, gn_temperature = Finite 1, gn_top_p = Finite 1\<rparr>"

text \<open>The steps after the checks of the payload.\<close>

definition demo_run :: "nat \<Rightarrow> int \<Rightarrow> agent_id \<Rightarrow> context_id \<Rightarrow> top_runtime \<Rightarrow> top_runtime" where
  "demo_run now r a c tp =
     (case acquire_context (demo_env now r) a 0 c tp of
        (Inl err, tp) \<Rightarrow> tp
      | (Inr l, tp) \<Rightarrow> snd (snd (generate_leased (demo_env now r) False demo_generation (demo_generate a c) l demo_kernel tp)))"

lemma demo_parse: "parse_generation (demo_env now r) demo_config ''hi'' = demo_generation"
  by (simp add: parse_generation_def demo_generation_def demo_config_def is_object_def skip_space_def)

lemma demo_valid: "\<not> generation_invalid (demo_generation\<lparr>gn_prompt := ''hi''\<rparr>)"
  by (simp add: generation_invalid_def demo_generation_def LLM_MAX_PROMPT_def float_less_eq_def)

lemma demo_step_run:
  assumes "tp_config tp = demo_config" and "tp_initialized tp"
  shows "demo_step now r a c tp = demo_run now r a c tp"
proof -
  have q: "nq_kind (demo_generate a c) = Kind_model" "nq_target (demo_generate a c) = tc_model_alias demo_config"
    "nq_operation (demo_generate a c) = ''generate''" "nq_payload (demo_generate a c) = ''hi''"
    "nq_agent_id (demo_generate a c) = a" "nq_parent_id (demo_generate a c) = 0" "nq_context_id (demo_generate a c) = c"
    by (simp_all add: demo_generate_def default_invocation_request_def demo_config_def kInvalidAgentId_def)
  have g: "demo_generation\<lparr>gn_prompt := ''hi''\<rparr> = demo_generation" "gn_prompt demo_generation = ''hi''"
    by (simp_all add: demo_generation_def)
  show ?thesis
    using demo_valid
    by (simp add: demo_step_def top_handle_def handle_model_def handle_generate_def demo_parse demo_run_def assms q g 
      split: prod.splits sum.splits)
qed


definition demo_one :: top_runtime where "demo_one = demo_run 1 0 7 0 demo_start"
definition demo_two :: top_runtime where "demo_two = demo_run 2 0 8 0 demo_one"

lemma demo_states:
  "tp_config demo_start = demo_config" "tp_initialized demo_start" "tp_config demo_one = demo_config" "tp_initialized demo_one"
  by code_simp+

lemma demo_top_roomy: "top_roomy demo_start" "top_roomy demo_one"
proof -
  have "cm_next_id (tp_contexts demo_start) = 1" "cm_next_id (tp_contexts demo_one) = 2" by code_simp+
  moreover have "entries (tp_contexts demo_start) = {#}" "image_mset ce_owners (entries (tp_contexts demo_one)) = {#[7]#}"
    unfolding entries_def by code_simp+
  ultimately show "top_roomy demo_start" "top_roomy demo_one"
    by (simp_all add: top_roomy_def owner_total_def multiset.map_comp [symmetric])
qed

lemma demo_top_reachable: "top_reachable demo_config demo_start" "top_reachable demo_config demo_one" "top_reachable demo_config demo_two"
proof -
  show s: "top_reachable demo_config demo_start"
    unfolding demo_start_def by (intro top_reachable.initialize top_reachable.start)
  have "top_reachable demo_config (demo_step 1 0 7 0 demo_start)"
    unfolding demo_step_def by (rule top_reachable.handle [OF s demo_top_roomy(1)])
  then show o: "top_reachable demo_config demo_one" using demo_states(1,2) by (simp add: demo_step_run demo_one_def)
  have "top_reachable demo_config (demo_step 2 0 8 0 demo_one)"
    unfolding demo_step_def by (rule top_reachable.handle [OF o demo_top_roomy(2)])
  then show "top_reachable demo_config demo_two" using demo_states(3,4) by (simp add: demo_step_run demo_two_def)
qed

section \<open>Properties\<close>





text \<open>
  C24. In every reachable state each conversation that is kept is a system prompt or none, followed by
  complete turns of a user and an assistant message; one that has lost its template is empty. A
  generation that failed, was cancelled or could not be rendered leaves no half turn behind.
\<close>

theorem chats_complete:
  assumes "top_reachable c tp" and "map_of (tp_conversations tp) d = Some cv"
  shows "conversation_ok cv"
  using top_reachable_ok [OF assms(1)] assms(2) by (simp add: conversations_ok_def)

lemma chats_complete_witness:
  "conversation_ok \<lparr>cv_messages = [(''user'', ''hi''), (''assistant'', ''ok'')], cv_template = True\<rparr>"
proof -
  have "map_of (tp_conversations demo_two) 2 = Some \<lparr>cv_messages = [(''user'', ''hi''), (''assistant'', ''ok'')], cv_template = True\<rparr>"
    by code_simp
  from chats_complete [OF demo_top_reachable(3) this] show ?thesis .
qed



text \<open>What an input adds to the prompt.\<close>

definition input_block :: "kernel \<Rightarrow> mapped_input \<Rightarrow> string" where
  "input_block k x = (if mapped_text k x = [] then [] else dependency_marker x @ mapped_text k x)"

lemma input_block_empty: "input_block k x = [] \<longleftrightarrow> mapped_text k x = []"
  by (simp add: input_block_def)

lemma append_inputs_step:
  "append_inputs k (x # xs) p =
     (if unat (br_length (mi_reference x)) > LLM_MAX_PROMPT then Inl ''model dependency input exceeds prompt limit''
      else if input_block k x \<noteq> [] \<and> length (p @ input_block k x) > LLM_MAX_PROMPT
      then Inl ''combined model prompt exceeds size limit''
      else append_inputs k xs (p @ input_block k x))"
  by (auto simp: input_block_def Let_def)

lemma append_inputs_Inr:
  "append_inputs k xs p = Inr p' \<longleftrightarrow> (\<forall>x \<in> set xs. unat (br_length (mi_reference x)) \<le> LLM_MAX_PROMPT) \<and>
     p' = p @ concat (map (input_block k) xs) \<and> (concat (map (input_block k) xs) = [] \<or> length p' \<le> LLM_MAX_PROMPT)"
proof (induction xs arbitrary: p)
  case Nil
  show ?case by auto
next
  case (Cons x xs)
  show ?case
  proof (cases "unat (br_length (mi_reference x)) > LLM_MAX_PROMPT")
    case True
    then show ?thesis by (auto simp: append_inputs_step simp del: append_inputs.simps)
  next
    case fits: False
    show ?thesis
    proof (cases "input_block k x = []")
      case True
      with fits show ?thesis using Cons.IH [of p] by (simp add: append_inputs_step del: append_inputs.simps)
    next
      case False
      with fits show ?thesis using Cons.IH [of "p @ input_block k x"]
        by (cases "length (p @ input_block k x) > LLM_MAX_PROMPT")
          (auto simp: append_inputs_step simp del: append_inputs.simps concat_eq_Nil_conv)
    qed
  qed
qed

text \<open>
  The prompt of a generation takes the dependency results exactly when none is longer than the
  limit and the whole is within it: then it is the given prompt followed by each text result after its
  marker, in order, and nothing is cut off. Otherwise the request is refused.
\<close>

theorem append_inputs_exact:
  "append_inputs k xs p =
     (if (\<forall>x \<in> set xs. unat (br_length (mi_reference x)) \<le> LLM_MAX_PROMPT) \<and>
         ((\<forall>x \<in> set xs. mapped_text k x = []) \<or> length (p @ concat (map (input_block k) xs)) \<le> LLM_MAX_PROMPT)
      then Inr (p @ concat (map (input_block k) xs)) else Inl (projl (append_inputs k xs p)))"
proof -
  have "concat (map (input_block k) xs) = [] \<longleftrightarrow> (\<forall>x \<in> set xs. mapped_text k x = [])"
    by (simp add: input_block_empty)
  then show ?thesis
    using append_inputs_Inr [of k xs p "p @ concat (map (input_block k) xs)"]
      append_inputs_Inr [of k xs p "projr (append_inputs k xs p)"]
    by (cases "append_inputs k xs p") auto
qed

definition demo_input_kernel :: kernel where
  "demo_input_kernel = demo_kernel\<lparr>k_files := [(0, \<lparr>mf_data = [104, 105, 33], mf_sealed = True, mf_writers = 0\<rparr>)]\<rparr>"

definition demo_input :: mapped_input where
  "demo_input = \<lparr>mi_producer_id = 4, mi_reference = default_ref\<lparr>br_offset := 1, br_length := 2, br_data_type := data_text_utf8\<rparr>,
     mi_region = empty_region\<lparr>rg_address := Some (0, False)\<rparr>\<rparr>"

lemma append_inputs_exact_witness:
  "append_inputs demo_input_kernel [demo_input] ''go'' = Inr (''go'' @ [newline] @ ''[dependency 4]'' @ [newline] @ ''i!'')"
proof -
  have shown: "mapped_text demo_input_kernel demo_input = ''i!''" "dependency_marker demo_input = newline # ''[dependency 4]'' @ [newline]"
    "unat (br_length (mi_reference demo_input)) = 2" by code_simp+
  show ?thesis using append_inputs_exact [of demo_input_kernel "[demo_input]" "''go''"]
    by (simp add: shown input_block_def LLM_MAX_PROMPT_def del: append_inputs.simps)
qed

text \<open>
  C23. A generation whose inference fails is undone: it is reported as failed or cancelled and hands
  out no memory. A context that was created for it is gone, with its conversation, and its sequence
  is free and empty again; one that existed keeps the messages it had and is no longer pinned.
\<close>

theorem failed_generation_undone:
  assumes "top_reachable c tp" and "top_roomy tp"
    and acq: "acquire_context e (nq_agent_id q) (nq_parent_id q) (nq_context_id q) tp = (Inr l, tp1)"
    and plan: "make_plan e g (cl_created l) (lease_conversation l tp1) = Inr plan"
    and fail: "if_result (te_inference e (make_engine_request (tp_config tp1) g q l plan)) \<noteq> 0"
    and gen: "generate_leased e cancelled g q l k tp1 = (r, k', tp')"
  shows "hr_status r \<in> {St_failed, St_cancelled} \<and> k' = k \<and>
    (if cl_created l
     then entry_of (tp_contexts tp') (cl_context_id l) = None \<and> map_of (tp_conversations tp') (cl_context_id l) = None \<and>
       cl_sequence_id l \<in> set (cm_free (tp_contexts tp')) \<and> tokens (tp_calls tp') (cl_sequence_id l) = {}
     else map_option ce_pins (entry_of (tp_contexts tp') (cl_context_id l)) = Some 0 \<and>
       map_option cv_messages (map_of (tp_conversations tp') (cl_context_id l)) = Some (cv_messages (lease_conversation l tp1)))"
proof -
  let ?c = "cl_context_id l"
  define before where "before = lease_conversation l tp1"
  define f where "f = te_inference e (make_engine_request (tp_config tp1) g q l plan)"
  define t where "t = tp1\<lparr>tp_calls := tp_calls tp1 @ [Infer (cl_sequence_id l) ?c (cl_created l)]\<rparr>"
  note inv = top_reachable_inv [OF assms(1)]
  note ac = acquire_context_inv [OF inv top_roomyD [OF assms(2)] acq]
  have pinned: "top_inv (Some ?c) tp1" using ac(1) by simp
  have room: "owner_total (tp_contexts tp1) < 2 ^ 64" if "cl_created l"
    using ac(6) [OF refl that] assms(2) by (simp add: top_roomy_def)
  obtain h where h: "entry_of (tp_contexts tp1) ?c = Some h" "ce_resident h" "ce_sequence h = cl_sequence_id l"
    using ac(5) [OF refl] by (auto simp: granted_def)
  have t: "top_inv (Some ?c) t" "entry_of (tp_contexts t) ?c = Some h" "tp_contexts t = tp_contexts tp1"
    using infer_inv [OF pinned h(1,2), of "cl_created l"] h by (simp_all add: t_def)
  note fin = finish_context_inv [OF t(1,2), of e]
  have out: "(r, tp') = generation_failed e f cancelled q l before plan (finish_context e ?c t)" "k' = k"
    using gen plan fail by (auto simp: generate_leased_def Let_def before_def t_def f_def split: prod.splits)
  have status: "hr_status r \<in> {St_failed, St_cancelled}"
    using out(1) by (auto simp: generation_failed_def Let_def problem_def)
  have inv': "top_inv None tp'" using generate_leased_inv [OF pinned room _ _ gen] ac(5,6) [OF refl] by blast
  show ?thesis
  proof (cases "cl_created l")
    case True
    let ?cm = "tp_contexts (finish_context e ?c t)"
    obtain x cm' where rel: "release_context (te_now e) (nq_agent_id q) (nq_parent_id q) ?c ?cm = (x, cm')" by fastforce
    have owners: "ce_owners h = [nq_agent_id q]" using ac(7) [OF refl True] h(1) by simp
    have room': "owner_total ?cm < 2 ^ 64" using room [OF True] fin(3) t(3) by simp
    have rx: "x = Inr (cl_sequence_id l, True) \<and> cm_free cm' = cm_free ?cm @ [cl_sequence_id l] \<and> entry_of cm' ?c = None"
      using release_context_exact [OF top_invD(2) [OF fin(1)] room' rel] fin(2) owners h(2,3)
      by (simp add: Let_def released_owner_def)
    have same: "tp_contexts (put_conversation ?c cv tq) = tp_contexts tq" for cv tq by (simp add: put_conversation_def)
    have ctx: "tp_contexts tp' = cm'" "map_of (tp_conversations tp') ?c = None"
      using out(1) rel rx True
      by (auto simp: generation_failed_def Let_def clear_sequence_def delete_conv' same put_conversation_def split: prod.splits sum.splits)
    then have free: "cl_sequence_id l \<in> set (cm_free (tp_contexts tp'))" using rx by simp
    then have "tokens (tp_calls tp') (cl_sequence_id l) = {}"
      using top_invD(4) [OF inv'] unfolding private_sequences_def by blast
    with True status out(2) ctx free rx show ?thesis by simp
  next
    case False
    have "cv_messages (if pl_applied plan then (pl_conversation plan)\<lparr>cv_messages := cv_messages before\<rparr> else pl_conversation plan) =
        cv_messages before"
      using plan False by (auto simp: before_def make_plan_def next_plan_def Let_def split: if_splits option.splits)
    then have "map_option cv_messages (map_of (tp_conversations tp') ?c) = Some (cv_messages before)"
      using out(1) False by (auto simp: generation_failed_def Let_def put_conversation_def update_conv')
    moreover have "tp_contexts tp' = tp_contexts (finish_context e ?c t)"
      using out(1) False by (auto simp: generation_failed_def Let_def put_conversation_def)
    ultimately show ?thesis using False status out(2) fin(2) by (simp add: before_def)
  qed
qed

definition demo_lease :: context_lease where
  "demo_lease = \<lparr>cl_context_id = 1, cl_sequence_id = 1, cl_created = True, cl_restored = False\<rparr>"

definition demo_leased :: top_runtime where
  "demo_leased = snd (acquire_context (demo_env 3 1) 9 0 0 demo_start)"

lemma failed_generation_undone_witness:
  "tokens (tp_calls (snd (snd (generate_leased (demo_env 3 1) False demo_generation (demo_generate 9 0) demo_lease
      demo_kernel demo_leased)))) 1 = {} \<and>
   entry_of (tp_contexts (snd (snd (generate_leased (demo_env 3 1) False demo_generation (demo_generate 9 0) demo_lease
      demo_kernel demo_leased)))) 1 = None"
proof -
  have q: "nq_agent_id (demo_generate 9 0) = 9" "nq_parent_id (demo_generate 9 0) = 0" "nq_context_id (demo_generate 9 0) = 0"
    by (simp_all add: demo_generate_def default_invocation_request_def kInvalidAgentId_def)
  have "fst (acquire_context (demo_env 3 1) 9 0 0 demo_start) = Inr demo_lease" by code_simp
  then have acq: "acquire_context (demo_env 3 1) (nq_agent_id (demo_generate 9 0)) (nq_parent_id (demo_generate 9 0))
      (nq_context_id (demo_generate 9 0)) demo_start = (Inr demo_lease, demo_leased)"
    by (simp add: q demo_leased_def prod_eq_iff)
  have lease: "cl_created demo_lease" "cl_context_id demo_lease = 1" "cl_sequence_id demo_lease = 1" by (simp_all add: demo_lease_def)
  have active: "cv_template (lease_conversation demo_lease demo_leased)" by code_simp
  have plan: "make_plan (demo_env 3 1) demo_generation (cl_created demo_lease) (lease_conversation demo_lease demo_leased) =
      Inr (first_plan (demo_env 3 1) demo_generation (lease_conversation demo_lease demo_leased))"
    using active lease by (simp add: make_plan_def)
  have fail: "if_result (te_inference (demo_env 3 1) x) \<noteq> 0" for x by (simp add: demo_env_def)
  obtain r k' tp' where gen: "generate_leased (demo_env 3 1) False demo_generation (demo_generate 9 0) demo_lease
      demo_kernel demo_leased = (r, k', tp')" by (rule prod_cases3)
  from failed_generation_undone [OF demo_top_reachable(1) demo_top_roomy(1) acq plan fail gen] show ?thesis
    by (simp add: gen lease)
qed

section \<open>Overlaps\<close>

text \<open>
  A release gives the sequence back before it clears it, and does not take the mutex of the
  conversations. A generation that runs in between gets the sequence, and loses its tokens: its
  context is resident and has a conversation, and the sequence is empty.
\<close>

definition demo_overlap :: "(string + (int \<times> bool)) \<times> top_runtime" where
  "demo_overlap = release_begin (demo_env 2 0) ((demo_generate 7 1)\<lparr>nq_operation := ''release_context''\<rparr>) demo_one"

lemma release_overlaps_generation:
  "fst demo_overlap = Inr (1, True)"
  "(let tp = release_end 1 (1, True) (demo_run 3 0 8 0 (snd demo_overlap)) in
     is_resident (tp_contexts tp) 2 \<and> map_option ce_sequence (entry_of (tp_contexts tp) 2) = Some 1 \<and>
     map_option cv_messages (map_of (tp_conversations tp) 2) = Some [(''user'', ''hi''), (''assistant'', ''ok'')] \<and>
     tp_calls tp = [Infer 1 1 True, Infer 1 2 True, Clear 1] \<and> tokens (tp_calls tp) 1 = {})"
  by code_simp+

text \<open>A shutdown removes the checkpoints and keeps the contexts; after another start they cannot be restored.\<close>

lemma shutdown_strands_contexts:
  "fst (acquire_context (demo_env 5 0) 7 0 1 (snd (top_initialize True (\<lambda>_. Some 1) demo_store (top_shutdown demo_two)))) = Inl ''context checkpoint does not exist''"
  by code_simp

end
