(* ===== verification/Engine.thy ===== *)
theory Engine
  imports Top_Runtime
begin

text \<open>
  The inference engine (\<^verbatim>\<open>agent_runtime_top/src/llm_llamacpp.c\<close>) as it is built over llama.cpp: private
  sequences with their positions, a cache of system prompts in reserved sequences, and a turn of
  inference with its rollback. What the library does is a parameter; what the code relies on is named
  in \<^verbatim>\<open>Engine_Inv\<close>. Figures are of the type \<open>int\<close>; the averages of the statistics are left out.
\<close>

section \<open>State\<close>

text \<open>
  The library: \<open>'v\<close> is a vocabulary, \<open>'m\<close> a context with its memory, \<open>'f\<close> what a sequence is saved as.
  The last two fields are what the memory holds of a sequence and what a file has saved, position by
  position; the code does not ask for them.
\<close>

record ('v, 'm, 'f) llama =
  la_load :: "model_config \<Rightarrow> ('v \<times> 'm) option"
  la_tokenize :: "'v \<Rightarrow> string \<Rightarrow> bool \<Rightarrow> int list option"
  la_decode :: "'m \<Rightarrow> int list \<Rightarrow> int \<Rightarrow> int \<Rightarrow> bool \<Rightarrow> bool \<times> 'm"
  la_seq_rm :: "'m \<Rightarrow> int \<Rightarrow> int \<Rightarrow> int \<Rightarrow> bool \<times> 'm"
  la_seq_cp :: "'m \<Rightarrow> int \<Rightarrow> int \<Rightarrow> int \<Rightarrow> int \<Rightarrow> 'm"
  la_piece :: "'v \<Rightarrow> int \<Rightarrow> string option"
  la_is_eog :: "'v \<Rightarrow> int \<Rightarrow> bool"
  la_boundary :: "'v \<Rightarrow> int option"
  la_seq_size :: "'m \<Rightarrow> int \<Rightarrow> u64"
  la_save :: "'m \<Rightarrow> int \<Rightarrow> ('f \<times> u64) option"
  la_restore :: "'m \<Rightarrow> int \<Rightarrow> 'f \<Rightarrow> u64 \<times> 'm"
  la_template :: "'v \<Rightarrow> string option"
  la_apply :: "string \<Rightarrow> chat \<Rightarrow> bool \<Rightarrow> string option"
  la_cells :: "'m \<Rightarrow> int \<Rightarrow> (int \<times> int) list"
  la_file :: "'f \<Rightarrow> (int \<times> int) list"

record shared_entry =
  sh_seq_id :: int
  sh_token_count :: int
  sh_prompt_text :: "string option"
  sh_share_count :: int
  sh_saved_tokens :: int
  sh_last_access :: u64

record seq_state =
  sq_current_pos :: int
  sq_in_use :: bool

record engine_stats =
  et_total_requests :: u64
  et_total_tokens :: u64
  et_prefix_evictions :: u64

record ('v, 'm) engine_model =
  em_id :: u64
  em_config :: model_config
  em_vocab :: 'v
  em_memory :: 'm
  em_stats :: engine_stats
  em_shared :: "shared_entry list"
  em_shared_count :: int
  em_clock :: u64

definition MAX_SHARED_SYS :: nat where "MAX_SHARED_SYS = 8"
definition MAX_SEQ_PER_MODEL :: nat where "MAX_SEQ_PER_MODEL = 64"

definition empty_shared :: shared_entry where
  "empty_shared = \<lparr>sh_seq_id = 0, sh_token_count = 0, sh_prompt_text = None, sh_share_count = 0, sh_saved_tokens = 0,
     sh_last_access = 0\<rparr>"

definition empty_seq :: seq_state where
  "empty_seq = \<lparr>sq_current_pos = 0, sq_in_use = False\<rparr>"

text \<open>What one call meets: the answers of the cancel callback, the samples, and which allocations succeed.\<close>

record engine_env =
  en_cancel :: "bool list"
  en_samples :: "nat \<Rightarrow> int"
  en_copied :: bool
  en_text :: bool
  en_sampler :: bool
  en_grown :: "nat \<Rightarrow> bool"

record engine_response =
  rs_text :: "string option"
  rs_tokens_generated :: int
  rs_prompt_tokens :: int
  rs_total_tokens :: int
  rs_seq_id :: int
  rs_stopped :: bool
  rs_cancelled :: bool
  rs_cache_hit :: bool
  rs_reused_tokens :: int
  rs_cache_bytes :: u64

definition empty_response :: engine_response where
  "empty_response = \<lparr>rs_text = None, rs_tokens_generated = 0, rs_prompt_tokens = 0, rs_total_tokens = 0, rs_seq_id = 0,
     rs_stopped = False, rs_cancelled = False, rs_cache_hit = False, rs_reused_tokens = 0, rs_cache_bytes = 0\<rparr>"

section \<open>The cache of system prompts\<close>

definition find_shared_sys :: "('v, 'm) engine_model \<Rightarrow> string \<Rightarrow> nat option" where
  "find_shared_sys md prompt = find (\<lambda>i. sh_prompt_text (em_shared md ! i) = Some prompt) [0..<MAX_SHARED_SYS]"

definition touch_shared_sys :: "nat \<Rightarrow> ('v, 'm) engine_model \<Rightarrow> ('v, 'm) engine_model" where
  "touch_shared_sys i md =
     md\<lparr>em_clock := em_clock md + 1, em_shared := (em_shared md)[i := (em_shared md ! i)\<lparr>sh_last_access := em_clock md + 1\<rparr>]\<rparr>"

fun select_scan :: "shared_entry list \<Rightarrow> nat \<Rightarrow> nat list \<Rightarrow> nat" where
  "select_scan es lru [] = lru"
| "select_scan es lru (i # is) =
     (if sh_prompt_text (es ! i) = None then i
      else select_scan es (if sh_last_access (es ! i) < sh_last_access (es ! lru) then i else lru) is)"

definition select_shared_sys_slot :: "('v, 'm) engine_model \<Rightarrow> nat" where
  "select_shared_sys_slot md = select_scan (em_shared md) 0 [0..<MAX_SHARED_SYS]"

definition private_seq_limit :: "('v, 'm) engine_model \<Rightarrow> int" where
  "private_seq_limit md = mc_n_seq_max (em_config md) - int MAX_SHARED_SYS"

definition shared_seq :: "('v, 'm) engine_model \<Rightarrow> nat \<Rightarrow> int" where
  "shared_seq md i = mc_n_seq_max (em_config md) - 1 - int i"

definition tokenize_alloc :: "('v, 'm, 'f) llama \<Rightarrow> ('v, 'm) engine_model \<Rightarrow> string \<Rightarrow> bool \<Rightarrow> int list option" where
  "tokenize_alloc la md txt special = la_tokenize la (em_vocab md) txt special"

text \<open>
  Without a request nobody is asked for a cancellation. A batch of no tokens is refused by the
  library, which ends the loop.
\<close>

function decode_tokens ::
  "('v, 'm, 'f) llama \<Rightarrow> nat \<Rightarrow> bool \<Rightarrow> int list \<Rightarrow> int \<Rightarrow> int \<Rightarrow> bool \<Rightarrow> 'm \<Rightarrow> bool list \<Rightarrow> int \<times> 'm \<times> bool list" where
  "decode_tokens la nb asked tokens sq pos logits m cancel =
     (if tokens = [] then (0, m, cancel)
      else if asked \<and> fst (ask cancel) then (- 2, m, snd (ask cancel))
      else let cancel = (if asked then snd (ask cancel) else cancel); chunk = take nb tokens
      in case la_decode la m chunk sq pos (logits \<and> length tokens \<le> nb) of
        (ok, m) \<Rightarrow>
          if \<not> ok \<or> chunk = []
          then (if asked then (if fst (ask cancel) then - 2 else - 1, m, snd (ask cancel)) else (- 1, m, cancel))
          else decode_tokens la nb asked (drop nb tokens) sq (pos + int (length chunk)) logits m cancel)"
  by pat_completeness auto
termination
  by (relation "measure (\<lambda>(la, nb, asked, tokens, sq, pos, logits, m, cancel). length tokens)") auto

declare decode_tokens.simps [simp del]

definition batch_size :: "('v, 'm) engine_model \<Rightarrow> nat" where
  "batch_size md = nat (mc_n_batch (em_config md))"

definition seq_rm :: "('v, 'm, 'f) llama \<Rightarrow> int \<Rightarrow> int \<Rightarrow> int \<Rightarrow> ('v, 'm) engine_model \<Rightarrow> bool \<times> ('v, 'm) engine_model" where
  "seq_rm la sq p0 p1 md = (case la_seq_rm la (em_memory md) sq p0 p1 of (b, m) \<Rightarrow> (b, md\<lparr>em_memory := m\<rparr>))"

definition evict_shared :: "('v, 'm, 'f) llama \<Rightarrow> nat \<Rightarrow> ('v, 'm) engine_model \<Rightarrow> ('v, 'm) engine_model" where
  "evict_shared la i md =
     (if sh_prompt_text (em_shared md ! i) = None then md
      else let md = snd (seq_rm la (sh_seq_id (em_shared md ! i)) (- 1) (- 1) md)
      in md\<lparr>em_shared := (em_shared md)[i := empty_shared], em_shared_count := em_shared_count md - 1,
            em_stats := (em_stats md)\<lparr>et_prefix_evictions := et_prefix_evictions (em_stats md) + 1\<rparr>\<rparr>)"

definition cache_system_prefix ::
  "('v, 'm, 'f) llama \<Rightarrow> bool \<Rightarrow> string \<Rightarrow> ('v, 'm) engine_model \<Rightarrow> nat option \<times> ('v, 'm) engine_model" where
  "cache_system_prefix la copied prompt md =
     (case tokenize_alloc la md prompt True of
        None \<Rightarrow> (None, md)
      | Some tokens \<Rightarrow>
          if tokens = [] \<or> int (length tokens) \<ge> mc_n_ctx (em_config md) then (None, md)
          else let i = select_shared_sys_slot md; sq = shared_seq md i;
                   md = snd (seq_rm la sq (- 1) (- 1) (evict_shared la i md))
          in case decode_tokens la (batch_size md) False tokens sq 0 False (em_memory md) [] of
            (code, m, _) \<Rightarrow>
              let md = md\<lparr>em_memory := m\<rparr>
              in if code \<noteq> 0 \<or> \<not> copied then (None, snd (seq_rm la sq (- 1) (- 1) md))
                 else let md = md\<lparr>em_shared := (em_shared md)[i := \<lparr>sh_seq_id = sq, sh_token_count = int (length tokens),
                              sh_prompt_text = Some prompt, sh_share_count = 0, sh_saved_tokens = 0,
                              sh_last_access = sh_last_access (em_shared md ! i)\<rparr>]\<rparr>;
                          md = touch_shared_sys i md
                 in (Some i, md\<lparr>em_shared_count := em_shared_count md + 1\<rparr>))"

section \<open>A turn\<close>

text \<open>The model together with the state of the sequence, the response and the answers that are left.\<close>

record ('v, 'm) turn =
  tn_model :: "('v, 'm) engine_model"
  tn_seq :: seq_state
  tn_response :: engine_response
  tn_cancel :: "bool list"

definition ask_turn :: "('v, 'm) turn \<Rightarrow> bool \<times> ('v, 'm) turn" where
  "ask_turn t = (fst (ask (tn_cancel t)), t\<lparr>tn_cancel := snd (ask (tn_cancel t))\<rparr>)"

definition set_cancelled :: "bool \<Rightarrow> ('v, 'm) turn \<Rightarrow> ('v, 'm) turn" where
  "set_cancelled b t = t\<lparr>tn_response := (tn_response t)\<lparr>rs_cancelled := b\<rparr>\<rparr>"

definition turn_decode ::
  "('v, 'm, 'f) llama \<Rightarrow> int list \<Rightarrow> int \<Rightarrow> int \<Rightarrow> bool \<Rightarrow> ('v, 'm) turn \<Rightarrow> int \<times> ('v, 'm) turn" where
  "turn_decode la tokens sq pos logits t =
     (case decode_tokens la (batch_size (tn_model t)) True tokens sq pos logits (em_memory (tn_model t)) (tn_cancel t) of
        (code, m, cancel) \<Rightarrow> (code, t\<lparr>tn_model := (tn_model t)\<lparr>em_memory := m\<rparr>, tn_cancel := cancel\<rparr>))"

text \<open>After a decoding that failed: whether the turn was cancelled. The callback is asked only if that is open.\<close>

definition note_failure :: "int \<Rightarrow> ('v, 'm) turn \<Rightarrow> ('v, 'm) turn" where
  "note_failure code t =
     (if code = - 2 then set_cancelled True t else case ask_turn t of (b, t) \<Rightarrow> set_cancelled b t)"

definition first_turn_reset :: "('v, 'm, 'f) llama \<Rightarrow> int \<Rightarrow> ('v, 'm) turn \<Rightarrow> ('v, 'm) turn" where
  "first_turn_reset la sq t = t\<lparr>tn_model := snd (seq_rm la sq (- 1) (- 1) (tn_model t)), tn_seq := empty_seq\<rparr>"

definition use_prefix :: "('v, 'm, 'f) llama \<Rightarrow> int \<Rightarrow> bool \<Rightarrow> nat \<Rightarrow> ('v, 'm) turn \<Rightarrow> ('v, 'm) turn" where
  "use_prefix la sq reused i t =
     (let md = touch_shared_sys i (tn_model t); e = em_shared md ! i;
          md = md\<lparr>em_memory := la_seq_cp la (em_memory md) (sh_seq_id e) sq 0 (sh_token_count e)\<rparr>;
          t = t\<lparr>tn_seq := \<lparr>sq_current_pos = sh_token_count e, sq_in_use = True\<rparr>\<rparr>
      in if reused
         then t\<lparr>tn_model := md\<lparr>em_shared := (em_shared md)[i := e\<lparr>sh_share_count := sh_share_count e + 1,
                    sh_saved_tokens := sh_saved_tokens e + sh_token_count e\<rparr>]\<rparr>,
                tn_response := (tn_response t)\<lparr>rs_cache_hit := True, rs_reused_tokens := sh_token_count e\<rparr>\<rparr>
         else t\<lparr>tn_model := md\<rparr>)"

text \<open>The system prompt of a first turn: cached, or decoded into the private sequence. False: give up.\<close>

definition system_turn ::
  "('v, 'm, 'f) llama \<Rightarrow> bool \<Rightarrow> string \<Rightarrow> int \<Rightarrow> ('v, 'm) turn \<Rightarrow> bool \<times> ('v, 'm) turn" where
  "system_turn la copied prompt sq t =
     (case find_shared_sys (tn_model t) prompt of
        Some i \<Rightarrow> (True, use_prefix la sq True i t)
      | None \<Rightarrow>
          (case cache_system_prefix la copied prompt (tn_model t) of
             (Some i, md) \<Rightarrow> (True, use_prefix la sq False i (t\<lparr>tn_model := md\<rparr>))
           | (None, md) \<Rightarrow>
               let t = t\<lparr>tn_model := md\<rparr>
               in case tokenize_alloc la md prompt True of
                 None \<Rightarrow> (False, case ask_turn t of (b, t) \<Rightarrow> set_cancelled b t)
               | Some tokens \<Rightarrow>
                   if tokens = [] \<or> int (length tokens) \<ge> mc_n_ctx (em_config md)
                   then (False, case ask_turn t of (b, t) \<Rightarrow> set_cancelled b t)
                   else case turn_decode la tokens sq 0 False t of
                     (code, t) \<Rightarrow>
                       if code \<noteq> 0 then (False, case ask_turn t of (b, t) \<Rightarrow> set_cancelled b t)
                       else (True, t\<lparr>tn_seq := \<lparr>sq_current_pos = int (length tokens), sq_in_use = True\<rparr>\<rparr>)))"

definition append_token_piece ::
  "('v, 'm, 'f) llama \<Rightarrow> engine_env \<Rightarrow> nat \<Rightarrow> int \<Rightarrow> ('v, 'm) turn \<Rightarrow> bool \<times> ('v, 'm) turn" where
  "append_token_piece la e n token t =
     (case la_piece la (em_vocab (tn_model t)) token of
        None \<Rightarrow> (False, t)
      | Some piece \<Rightarrow>
          if \<not> en_grown e n then (False, t)
          else (True, t\<lparr>tn_response := (tn_response t)\<lparr>rs_text := map_option (\<lambda>s. s @ piece) (rs_text (tn_response t))\<rparr>\<rparr>))"

text \<open>
  The loop; \<open>k\<close> is what may still be generated, \<open>n\<close> what has been. The result, the number of tokens and
  whether an end token was decoded.
\<close>

fun generation_loop ::
  "('v, 'm, 'f) llama \<Rightarrow> engine_env \<Rightarrow> int \<Rightarrow> int \<Rightarrow> nat \<Rightarrow> nat \<Rightarrow> ('v, 'm) turn \<Rightarrow> int \<times> nat \<times> bool \<times> ('v, 'm) turn" where
  "generation_loop la e sq pos 0 n t = (0, n, False, t)"
| "generation_loop la e sq pos (Suc k) n t =
     (case ask_turn t of (stop, t) \<Rightarrow>
        if stop then (- 2, n, False, set_cancelled True t)
        else let token = en_samples e n
        in if la_is_eog la (em_vocab (tn_model t)) token
           then (case turn_decode la [token] sq (pos + int n) True t of
                   (code, t) \<Rightarrow>
                     if code \<noteq> 0
                     then (let t = note_failure code t in (if rs_cancelled (tn_response t) then - 2 else - 1, n, False, t))
                     else (0, n, True, t\<lparr>tn_response := (tn_response t)\<lparr>rs_stopped := True\<rparr>\<rparr>))
           else (case append_token_piece la e n token t of
                   (False, t) \<Rightarrow> (- 1, n, False, t)
                 | (True, t) \<Rightarrow>
                     (case turn_decode la [token] sq (pos + int n) True t of
                        (code, t) \<Rightarrow>
                          if code \<noteq> 0
                          then (let t = note_failure code t in (if rs_cancelled (tn_response t) then - 2 else - 1, n, False, t))
                          else generation_loop la e sq pos k (Suc n) t)))"

text \<open>The end of a turn that is to be closed and was not ended by the model.\<close>

definition close_turn ::
  "('v, 'm, 'f) llama \<Rightarrow> int \<Rightarrow> int \<Rightarrow> ('v, 'm) turn \<Rightarrow> int \<times> bool \<times> ('v, 'm) turn" where
  "close_turn la sq pos t =
     (case la_boundary la (em_vocab (tn_model t)) of
        None \<Rightarrow> (0, False, t)
      | Some token \<Rightarrow>
          (case turn_decode la [token] sq pos True t of
             (code, t) \<Rightarrow>
               if code \<noteq> 0
               then (let t = note_failure code t in (if rs_cancelled (tn_response t) then - 2 else - 1, False, t))
               else (0, True, t\<lparr>tn_response := (tn_response t)\<lparr>rs_stopped := True\<rparr>\<rparr>)))"

text \<open>The generation after the prompt, which holds \<open>given\<close> tokens.\<close>

definition generate_turn ::
  "('v, 'm, 'f) llama \<Rightarrow> engine_env \<Rightarrow> bool \<Rightarrow> int \<Rightarrow> nat \<Rightarrow> nat \<Rightarrow> ('v, 'm) turn \<Rightarrow> int \<times> ('v, 'm) turn" where
  "generate_turn la e close sq budget given t =
     (let pos = sq_current_pos (tn_seq t) + int given in
      if \<not> en_text e then (- 1, t)
      else let t = t\<lparr>tn_response := (tn_response t)\<lparr>rs_text := Some []\<rparr>\<rparr>
      in if \<not> en_sampler e then (- 1, t)
      else case generation_loop la e sq pos budget 0 t of
        (code, n, ended, t) \<Rightarrow>
          (case (if code = 0 \<and> close \<and> \<not> ended then close_turn la sq (pos + int n) t else (code, ended, t)) of
             (code, ended, t) \<Rightarrow>
               if code \<noteq> 0 then (code, t)
               else let total = pos + int n + (if ended then 1 else 0);
                        t = t\<lparr>tn_response := (tn_response t)\<lparr>rs_tokens_generated := int n, rs_prompt_tokens := int given,
                                 rs_total_tokens := total, rs_cache_bytes := la_seq_size la (em_memory (tn_model t)) sq\<rparr>,
                              tn_seq := \<lparr>sq_current_pos = total, sq_in_use = True\<rparr>\<rparr>
                    in (if rs_cancelled (tn_response t) then - 2 else 0, t)))"

definition prompt_turn ::
  "('v, 'm, 'f) llama \<Rightarrow> engine_env \<Rightarrow> string \<Rightarrow> bool \<Rightarrow> int \<Rightarrow> int \<Rightarrow> ('v, 'm) turn \<Rightarrow> int \<times> ('v, 'm) turn" where
  "prompt_turn la e prompt close sq max_tokens t =
     (case tokenize_alloc la (tn_model t) prompt (\<not> sq_in_use (tn_seq t)) of
        None \<Rightarrow> (- 1, t)
      | Some tokens \<Rightarrow>
          if tokens = [] \<or> sq_current_pos (tn_seq t) + int (length tokens) + max_tokens + (if close then 1 else 0) >
               mc_n_ctx (em_config (tn_model t))
          then (- 1, t)
          else case turn_decode la tokens sq (sq_current_pos (tn_seq t)) True t of
            (code, t) \<Rightarrow>
              if code \<noteq> 0 then (- 1, note_failure code t)
              else generate_turn la e close sq (nat max_tokens) (length tokens) t)"

text \<open>The label \<^verbatim>\<open>native_cleanup\<close>.\<close>

definition rollback :: "('v, 'm, 'f) llama \<Rightarrow> int \<Rightarrow> seq_state \<Rightarrow> int \<Rightarrow> ('v, 'm) turn \<Rightarrow> ('v, 'm) turn" where
  "rollback la sq original code t =
     (if code = 0 then t
      else case seq_rm la sq (sq_current_pos original) (- 1) (tn_model t) of
        (rolled_back, md) \<Rightarrow>
          let t = (if \<not> rolled_back \<or> \<not> sq_in_use original
                   then t\<lparr>tn_model := snd (seq_rm la sq (- 1) (- 1) md), tn_seq := empty_seq\<rparr>
                   else t\<lparr>tn_model := md, tn_seq := \<lparr>sq_current_pos = sq_current_pos original, sq_in_use = True\<rparr>\<rparr>)
          in if rs_cancelled (tn_response t) then t
             else t\<lparr>tn_response := (tn_response t)\<lparr>rs_text := None\<rparr>\<rparr>)"

definition update_engine_stats :: "int \<Rightarrow> ('v, 'm) engine_model \<Rightarrow> ('v, 'm) engine_model" where
  "update_engine_stats generated md =
     md\<lparr>em_stats := (em_stats md)\<lparr>et_total_requests := et_total_requests (em_stats md) + 1,
          et_total_tokens := et_total_tokens (em_stats md) + word_of_int generated\<rparr>\<rparr>"

definition turn_limit :: "('v, 'm) engine_model \<Rightarrow> engine_request \<Rightarrow> int" where
  "turn_limit md q =
     (let limit = (if er_max_tokens q > 0 then er_max_tokens q else mc_max_tokens (em_config md))
      in if limit > mc_n_ctx (em_config md) then mc_n_ctx (em_config md) else limit)"

text \<open>A first turn begins afresh, with the system prompt if there is one. False: give up.\<close>

definition begin_turn ::
  "('v, 'm, 'f) llama \<Rightarrow> bool \<Rightarrow> engine_request \<Rightarrow> ('v, 'm) turn \<Rightarrow> bool \<times> ('v, 'm) turn" where
  "begin_turn la copied q t =
     (if \<not> er_first_turn q then (True, t)
      else let t = first_turn_reset la (er_sequence q) t
      in if er_system q \<noteq> [] then system_turn la copied (er_system q) (er_sequence q) t else (True, t))"

definition run_turn ::
  "('v, 'm, 'f) llama \<Rightarrow> engine_env \<Rightarrow> engine_request \<Rightarrow> int \<Rightarrow> ('v, 'm) turn \<Rightarrow> int \<times> ('v, 'm) turn" where
  "run_turn la e q limit t =
     (case begin_turn la (en_copied e) q t of
        (go, t) \<Rightarrow> if go then prompt_turn la e (er_prompt q) (er_close_turn q) (er_sequence q) limit t else (- 1, t))"

text \<open>From the lock of the model on: the result, the model, the state of the sequence and the response.\<close>

definition engine_turn ::
  "('v, 'm, 'f) llama \<Rightarrow> engine_env \<Rightarrow> engine_request \<Rightarrow> ('v, 'm) engine_model \<Rightarrow> seq_state \<Rightarrow> int \<times> ('v, 'm) turn" where
  "engine_turn la e q md st =
     (case ask_turn \<lparr>tn_model = md, tn_seq = st, tn_response = empty_response\<lparr>rs_seq_id := er_sequence q\<rparr>, tn_cancel = en_cancel e\<rparr> of
        (stop, t) \<Rightarrow>
          if stop then (- 2, set_cancelled True t)
          else case run_turn la e q (turn_limit md q) t of
            (code, t) \<Rightarrow>
              let t = rollback la (er_sequence q) (if er_first_turn q then empty_seq else st) code t
              in (code, if code = 0 then t\<lparr>tn_model := update_engine_stats (rs_tokens_generated (tn_response t)) (tn_model t)\<rparr>
                        else t))"

section \<open>The other operations of a model\<close>

text \<open>After the model is found: the sequence of the prompt, or the code of the failure.\<close>

definition warmup_turn ::
  "('v, 'm, 'f) llama \<Rightarrow> bool \<Rightarrow> string \<Rightarrow> bool list \<Rightarrow> ('v, 'm) engine_model \<Rightarrow> int \<times> ('v, 'm) engine_model" where
  "warmup_turn la copied prompt cancel md =
     (case (case find_shared_sys md prompt of Some i \<Rightarrow> (Some i, md) | None \<Rightarrow> cache_system_prefix la copied prompt md) of
        (None, md) \<Rightarrow> (if fst (ask cancel) then - 2 else - 1, md)
      | (Some i, md) \<Rightarrow>
          if fst (ask cancel) then (- 2, md)
          else let md = touch_shared_sys i md in (sh_seq_id (em_shared md ! i), md))"

definition clear_private ::
  "('v, 'm, 'f) llama \<Rightarrow> int \<Rightarrow> ('v, 'm) engine_model \<Rightarrow> seq_state list \<Rightarrow> ('v, 'm) engine_model \<times> seq_state list" where
  "clear_private la sq md sts = (snd (seq_rm la sq (- 1) (- 1) md), sts[nat sq := empty_seq])"

text \<open>What the file gets, the position and the number of bytes.\<close>

definition checkpoint_private ::
  "('v, 'm, 'f) llama \<Rightarrow> int \<Rightarrow> ('v, 'm) engine_model \<Rightarrow> seq_state list \<Rightarrow> ('f \<times> int \<times> u64) option" where
  "checkpoint_private la sq md sts =
     (let st = sts ! nat sq in
      if \<not> sq_in_use st \<or> sq_current_pos st \<le> 0 then None
      else case la_save la (em_memory md) sq of
        None \<Rightarrow> None
      | Some (f, bytes) \<Rightarrow> if bytes = 0 then None else Some (f, sq_current_pos st, bytes))"

definition restore_private ::
  "('v, 'm, 'f) llama \<Rightarrow> int \<Rightarrow> 'f \<Rightarrow> int \<Rightarrow> ('v, 'm) engine_model \<Rightarrow> seq_state list \<Rightarrow>
   (int \<times> u64) \<times> ('v, 'm) engine_model \<times> seq_state list" where
  "restore_private la sq f position md sts =
     (let md = snd (seq_rm la sq (- 1) (- 1) md)
      in case la_restore la (em_memory md) sq f of
        (bytes, m) \<Rightarrow>
          let md = md\<lparr>em_memory := m\<rparr>
          in if bytes = 0 then ((- 1, 0), snd (seq_rm la sq (- 1) (- 1) md), sts)
             else ((0, bytes), md, sts[nat sq := \<lparr>sq_current_pos = position, sq_in_use = True\<rparr>]))"

text \<open>The answer to one request on the model: the turn works on the entry of its sequence.\<close>

definition engine_request_turn ::
  "('v, 'm, 'f) llama \<Rightarrow> engine_env \<Rightarrow> engine_request \<Rightarrow> ('v, 'm) engine_model \<Rightarrow> seq_state list \<Rightarrow>
   (int \<times> engine_response) \<times> ('v, 'm) engine_model \<times> seq_state list" where
  "engine_request_turn la e q md sts =
     (case engine_turn la e q md (sts ! nat (er_sequence q)) of
        (code, t) \<Rightarrow> ((code, tn_response t), tn_model t, sts[nat (er_sequence q) := tn_seq t]))"

end
