(* ===== verification/Engine_Inv.thy ===== *)
theory Engine_Inv
  imports Engine
begin

text \<open>
  What the engine keeps, given what llama.cpp documents of its memory: a private sequence in use holds
  exactly the tokens the code counts, a cached prompt exactly its tokens, and a turn appends to its own
  sequence alone or takes back what it has appended.
\<close>

section \<open>The contract of the library\<close>

fun cells_from :: "int \<Rightarrow> int list \<Rightarrow> (int \<times> int) list" where
  "cells_from p [] = []"
| "cells_from p (x # xs) = (p, x) # cells_from (p + 1) xs"

text \<open>
  Removal of a whole sequence never fails; a removal from a position on may be refused. A decoding that
  fails may leave a part of the batch behind. No call touches another sequence.
\<close>

definition removal_laws :: "('v, 'm, 'f) llama \<Rightarrow> bool" where
  "removal_laws la \<longleftrightarrow>
     (\<forall>m s. la_cells la (snd (la_seq_rm la m s (- 1) (- 1))) s = []) \<and>
     (\<forall>m s p. 0 \<le> p \<longrightarrow> fst (la_seq_rm la m s p (- 1)) \<longrightarrow>
        la_cells la (snd (la_seq_rm la m s p (- 1))) s = filter (\<lambda>c. fst c < p) (la_cells la m s)) \<and>
     (\<forall>m s p s'. s' \<noteq> s \<longrightarrow> la_cells la (snd (la_seq_rm la m s p (- 1))) s' = la_cells la m s')"

definition decode_laws :: "('v, 'm, 'f) llama \<Rightarrow> bool" where
  "decode_laws la \<longleftrightarrow>
     (\<forall>m xs s p b. fst (la_decode la m xs s p b) \<longrightarrow>
        la_cells la (snd (la_decode la m xs s p b)) s = la_cells la m s @ cells_from p xs) \<and>
     (\<forall>m xs s p b. \<exists>k. la_cells la (snd (la_decode la m xs s p b)) s = la_cells la m s @ cells_from p (take k xs)) \<and>
     (\<forall>m xs s p b s'. s' \<noteq> s \<longrightarrow> la_cells la (snd (la_decode la m xs s p b)) s' = la_cells la m s')"

definition copy_laws :: "('v, 'm, 'f) llama \<Rightarrow> bool" where
  "copy_laws la \<longleftrightarrow>
     (\<forall>m a b n. a \<noteq> b \<longrightarrow> la_cells la m b = [] \<longrightarrow>
        la_cells la (la_seq_cp la m a b 0 n) b = filter (\<lambda>c. 0 \<le> fst c \<and> fst c < n) (la_cells la m a)) \<and>
     (\<forall>m a b n s. s \<noteq> b \<longrightarrow> la_cells la (la_seq_cp la m a b 0 n) s = la_cells la m s)"

definition file_laws :: "('v, 'm, 'f) llama \<Rightarrow> bool" where
  "file_laws la \<longleftrightarrow>
     (\<forall>m s f n. la_save la m s = Some (f, n) \<longrightarrow> la_file la f = la_cells la m s) \<and>
     (\<forall>m s f. la_cells la m s = [] \<longrightarrow> fst (la_restore la m s f) \<noteq> 0 \<longrightarrow>
        la_cells la (snd (la_restore la m s f)) s = la_file la f) \<and>
     (\<forall>m s f s'. s' \<noteq> s \<longrightarrow> la_cells la (snd (la_restore la m s f)) s' = la_cells la m s')"

text \<open>A context that has just been made holds nothing.\<close>

definition load_laws :: "('v, 'm, 'f) llama \<Rightarrow> bool" where
  "load_laws la \<longleftrightarrow> (\<forall>c v m s. la_load la c = Some (v, m) \<longrightarrow> la_cells la m s = [])"

definition llama_laws :: "('v, 'm, 'f) llama \<Rightarrow> bool" where
  "llama_laws la \<longleftrightarrow> removal_laws la \<and> decode_laws la \<and> copy_laws la \<and> file_laws la \<and> load_laws la"

lemma cells_from_append: "cells_from p (xs @ ys) = cells_from p xs @ cells_from (p + int (length xs)) ys"
  by (induction xs arbitrary: p) (auto simp: algebra_simps)

lemma cells_from_bounds: "c \<in> set (cells_from p xs) \<Longrightarrow> p \<le> fst c \<and> fst c < p + int (length xs)"
  by (induction xs arbitrary: p) fastforce+

lemma cells_from_below: "p + int (length xs) \<le> n \<Longrightarrow> filter (\<lambda>c. fst c < n) (cells_from p xs) = cells_from p xs"
  by (rule filter_True) (auto dest: cells_from_bounds)

lemma cells_from_above: "n \<le> p \<Longrightarrow> filter (\<lambda>c. fst c < n) (cells_from p xs) = []"
  by (rule filter_False) (auto dest: cells_from_bounds)

lemma cells_from_inj: "cells_from p xs = cells_from p ys \<longleftrightarrow> xs = ys"
  by (induction xs arbitrary: p ys; case_tac ys) auto

section \<open>Sequences\<close>

definition holds :: "('v, 'm, 'f) llama \<Rightarrow> 'm \<Rightarrow> int \<Rightarrow> int list \<Rightarrow> bool" where
  "holds la m s xs \<longleftrightarrow> la_cells la m s = cells_from 0 xs"

text \<open>Only the sequence \<open>s\<close> is worked on.\<close>

definition only :: "('v, 'm, 'f) llama \<Rightarrow> int \<Rightarrow> 'm \<Rightarrow> 'm \<Rightarrow> bool" where
  "only la s m m' \<longleftrightarrow> (\<forall>s'. s' \<noteq> s \<longrightarrow> la_cells la m' s' = la_cells la m s')"

lemma only_refl [simp]: "only la s m m" by (simp add: only_def)

lemma only_trans: "only la s m m' \<Longrightarrow> only la s m' m'' \<Longrightarrow> only la s m m''" by (simp add: only_def)

lemma only_holds: "only la s m m' \<Longrightarrow> s' \<noteq> s \<Longrightarrow> holds la m' s' xs = holds la m s' xs"
  by (simp add: only_def holds_def)

lemma remove_all:
  "llama_laws la \<Longrightarrow> holds la (snd (la_seq_rm la m s (- 1) (- 1))) s []"
  by (simp add: llama_laws_def removal_laws_def holds_def)

lemma remove_only: "llama_laws la \<Longrightarrow> only la s m (snd (la_seq_rm la m s p (- 1)))"
  by (simp add: llama_laws_def removal_laws_def only_def)

lemma remove_from:
  assumes "llama_laws la" and "holds la m s (xs @ ys)" and "fst (la_seq_rm la m s (int (length xs)) (- 1))"
  shows "holds la (snd (la_seq_rm la m s (int (length xs)) (- 1))) s xs"
proof -
  have "la_cells la (snd (la_seq_rm la m s (int (length xs)) (- 1))) s =
      filter (\<lambda>c. fst c < int (length xs)) (la_cells la m s)"
    using assms(1,3) by (simp add: llama_laws_def removal_laws_def)
  then show ?thesis using assms(2) by (simp add: holds_def cells_from_append cells_from_below cells_from_above)
qed

lemma decode_ok:
  assumes "llama_laws la" and "holds la m s xs" and "fst (la_decode la m ys s (int (length xs)) b)"
  shows "holds la (snd (la_decode la m ys s (int (length xs)) b)) s (xs @ ys)"
  using assms by (simp add: llama_laws_def decode_laws_def holds_def cells_from_append)

lemma decode_part:
  assumes "llama_laws la" and "holds la m s xs"
  shows "\<exists>k. holds la (snd (la_decode la m ys s (int (length xs)) b)) s (xs @ take k ys)"
proof -
  from assms(1) obtain k where "la_cells la (snd (la_decode la m ys s (int (length xs)) b)) s =
      la_cells la m s @ cells_from (int (length xs)) (take k ys)"
    unfolding llama_laws_def decode_laws_def by blast
  with assms(2) show ?thesis by (auto simp: holds_def cells_from_append)
qed

lemma decode_only: "llama_laws la \<Longrightarrow> only la s m (snd (la_decode la m ys s p b))"
  by (simp add: llama_laws_def decode_laws_def only_def)

lemma copy_only: "llama_laws la \<Longrightarrow> only la b m (la_seq_cp la m a b 0 n)"
  by (simp add: llama_laws_def copy_laws_def only_def)

lemma copy_holds:
  assumes "llama_laws la" and "a \<noteq> b" and "holds la m b []" and "holds la m a xs"
  shows "holds la (la_seq_cp la m a b 0 (int (length xs))) b xs"
proof -
  have "filter (\<lambda>c. 0 \<le> fst c \<and> fst c < int (length xs)) (cells_from 0 xs) = cells_from 0 xs"
    by (rule filter_True) (auto dest: cells_from_bounds)
  then show ?thesis using assms by (simp add: llama_laws_def copy_laws_def holds_def)
qed

lemma decode_tokens_step:
  assumes "ys \<noteq> []" and "\<not> (asked \<and> fst (ask cancel))"
    and "la_decode la m (take nb ys) sq pos (lg \<and> length ys \<le> nb) = (ok, m1)"
  defines "rest \<equiv> if asked then snd (ask cancel) else cancel"
  shows "decode_tokens la nb asked ys sq pos lg m cancel =
    (if \<not> ok \<or> take nb ys = []
     then (if asked then (if fst (ask rest) then - 2 else - 1, m1, snd (ask rest)) else (- 1, m1, rest))
     else decode_tokens la nb asked (drop nb ys) sq (pos + int (length (take nb ys))) lg m1 rest)"
  using assms(1-3) unfolding rest_def by (subst decode_tokens.simps) (auto simp: Let_def)

lemma decode_tokens_stop:
  "ys = [] \<or> asked \<and> fst (ask cancel) \<Longrightarrow>
   decode_tokens la nb asked ys sq pos lg m cancel = (if ys = [] then (0, m, cancel) else (- 2, m, snd (ask cancel)))"
  by (subst decode_tokens.simps) auto

text \<open>Batch by batch: all the tokens, or an initial part of them.\<close>

lemma decode_tokens_spec:
  "llama_laws la \<Longrightarrow> holds la m sq xs \<Longrightarrow> pos = int (length xs) \<Longrightarrow> decode_tokens la nb asked ys sq pos lg m cancel = (code, m', rest) \<Longrightarrow>
    only la sq m m' \<and> (code = 0 \<longrightarrow> holds la m' sq (xs @ ys)) \<and> (\<exists>zs. holds la m' sq (xs @ zs)) \<and>
    (code = 0 \<or> code = - 1 \<or> asked \<and> code = - 2)"
proof (induction la nb asked ys sq pos lg m cancel arbitrary: xs rule: decode_tokens.induct)
  case (1 la nb asked ys sq pos lg m cancel)
  note laws = 1(2)
  show ?case
  proof (cases "ys = [] \<or> asked \<and> fst (ask cancel)")
    case True
    then have "m' = m" "code = 0 \<longrightarrow> ys = []" "code = 0 \<or> asked \<and> code = - 2"
      using 1(5) by (auto simp: decode_tokens_stop split: if_splits)
    then show ?thesis using 1(3) by (auto intro: exI [of _ "[]"])
  next
    case False
    define rest' where "rest' = (if asked then snd (ask cancel) else cancel)"
    define chunk where "chunk = take nb ys"
    obtain ok m1 where dec: "la_decode la m chunk sq pos (lg \<and> length ys \<le> nb) = (ok, m1)" by (rule prod.exhaust)
    have step: "decode_tokens la nb asked ys sq pos lg m cancel =
        (if \<not> ok \<or> chunk = []
         then (if asked then (if fst (ask rest') then - 2 else - 1, m1, snd (ask rest')) else (- 1, m1, rest'))
         else decode_tokens la nb asked (drop nb ys) sq (pos + int (length chunk)) lg m1 rest')"
      using decode_tokens_step [OF _ _ dec [unfolded chunk_def]] False unfolding chunk_def rest'_def by blast
    have m1: "only la sq m m1" using decode_only [OF laws] dec by (metis snd_conv)
    show ?thesis
    proof (cases "\<not> ok \<or> chunk = []")
      case bad: True
      then have "m' = m1" "code = - 1 \<or> asked \<and> code = - 2"
        using 1(5) unfolding step by (auto split: if_splits)
      then show ?thesis using m1 decode_part [OF laws 1(3), of chunk] dec 1(4) by (metis snd_conv one_neq_zero neg_equal_0_iff_equal zero_neq_numeral)
    next
      case good: False
      then have more: "decode_tokens la nb asked (drop nb ys) sq (pos + int (length chunk)) lg m1 rest' = (code, m', rest)"
        using 1(5) unfolding step by simp
      have held: "holds la m1 sq (xs @ chunk)" using decode_ok [OF laws 1(3), of chunk] dec good 1(4) by (metis fst_conv snd_conv)
      have "pos + int (length chunk) = int (length (xs @ chunk))" using 1(4) by simp
      note IH = 1(1) [OF _ _ rest'_def chunk_def dec [symmetric] _ laws held this more]
      have "only la sq m1 m' \<and> (code = 0 \<longrightarrow> holds la m' sq ((xs @ chunk) @ drop nb ys)) \<and>
          (\<exists>zs. holds la m' sq ((xs @ chunk) @ zs)) \<and> (code = 0 \<or> code = - 1 \<or> asked \<and> code = - 2)"
        using IH False good by blast
      then show ?thesis using only_trans [OF m1] by (auto simp: chunk_def)
    qed
  qed
qed

section \<open>Turns\<close>

abbreviation mem :: "('v, 'm) turn \<Rightarrow> 'm" where
  "mem t \<equiv> em_memory (tn_model t)"

definition turn_only :: "('v, 'm, 'f) llama \<Rightarrow> int \<Rightarrow> ('v, 'm) turn \<Rightarrow> ('v, 'm) turn \<Rightarrow> bool" where
  "turn_only la sq t t' \<longleftrightarrow> (\<exists>m. tn_model t' = (tn_model t)\<lparr>em_memory := m\<rparr> \<and> only la sq (mem t) m)"

lemma turn_only_refl [simp]: "turn_only la sq t t"
  unfolding turn_only_def by (intro exI [of _ "mem t"]) simp

lemma turn_only_trans: "turn_only la sq t t' \<Longrightarrow> turn_only la sq t' t'' \<Longrightarrow> turn_only la sq t t''"
proof -
  assume h1: "turn_only la sq t t'" and h2: "turn_only la sq t' t''"
  obtain m where m: "tn_model t' = (tn_model t)\<lparr>em_memory := m\<rparr>" "only la sq (mem t) m" using h1 unfolding turn_only_def by blast
  obtain m' where m': "tn_model t'' = (tn_model t')\<lparr>em_memory := m'\<rparr>" "only la sq (mem t') m'" using h2 unfolding turn_only_def by blast
  have "tn_model t'' = (tn_model t)\<lparr>em_memory := m'\<rparr>" using m(1) m'(1) by simp
  moreover have "only la sq (mem t) m'" using only_trans [OF m(2), of m'] m'(2) m(1) by simp
  ultimately show ?thesis unfolding turn_only_def by blast
qed

text \<open>Asking and noting leave the model and the sequence.\<close>

lemma turn_same [simp]:
  "tn_model (snd (ask_turn t)) = tn_model t" "tn_seq (snd (ask_turn t)) = tn_seq t" "tn_response (snd (ask_turn t)) = tn_response t"
  "tn_model (set_cancelled b t) = tn_model t" "tn_seq (set_cancelled b t) = tn_seq t"
  "rs_cancelled (tn_response (set_cancelled b t)) = b" "rs_text (tn_response (set_cancelled b t)) = rs_text (tn_response t)"
  "tn_model (note_failure code t) = tn_model t" "tn_seq (note_failure code t) = tn_seq t"
  "rs_text (tn_response (note_failure code t)) = rs_text (tn_response t)"
  by (simp_all add: ask_turn_def set_cancelled_def note_failure_def)

lemma turn_decode_spec:
  assumes "llama_laws la" and "holds la (mem t) sq xs" and "turn_decode la ys sq (int (length xs)) lg t = (code, t')"
  shows "turn_only la sq t t'" and "tn_seq t' = tn_seq t" and "tn_response t' = tn_response t"
    and "code = 0 \<Longrightarrow> holds la (mem t') sq (xs @ ys)" and "\<exists>zs. holds la (mem t') sq (xs @ zs)"
proof -
  obtain c m' rest where d: "decode_tokens la (batch_size (tn_model t)) True ys sq (int (length xs)) lg (mem t) (tn_cancel t) = (c, m', rest)"
    by (rule prod_cases3)
  with assms(3) have t': "code = c" "t' = t\<lparr>tn_model := (tn_model t)\<lparr>em_memory := m'\<rparr>, tn_cancel := rest\<rparr>"
    by (simp_all add: turn_decode_def)
  note spec = decode_tokens_spec [OF assms(1,2) refl d]
  show "turn_only la sq t t'" "tn_seq t' = tn_seq t" "tn_response t' = tn_response t" using spec by (auto simp: t' turn_only_def)
  show "code = 0 \<Longrightarrow> holds la (mem t') sq (xs @ ys)" "\<exists>zs. holds la (mem t') sq (xs @ zs)" using spec by (simp_all add: t')
qed

text \<open>The text of tokens.\<close>

definition pieces :: "('v, 'm, 'f) llama \<Rightarrow> 'v \<Rightarrow> int list \<Rightarrow> string" where
  "pieces la v xs = concat (map (\<lambda>x. case la_piece la v x of None \<Rightarrow> [] | Some s \<Rightarrow> s) xs)"

lemma pieces_simps [simp]:
  "pieces la v [] = []" "pieces la v (x # xs) = (case la_piece la v x of None \<Rightarrow> [] | Some s \<Rightarrow> s) @ pieces la v xs"
  by (simp_all add: pieces_def)

lemma append_piece_spec:
  assumes "append_token_piece la e n x t = (True, t')"
  shows "tn_model t' = tn_model t" "tn_seq t' = tn_seq t" "tn_cancel t' = tn_cancel t" "rs_cancelled (tn_response t') = rs_cancelled (tn_response t)"
    "rs_text (tn_response t') = map_option (\<lambda>s. s @ pieces la (em_vocab (tn_model t)) [x]) (rs_text (tn_response t))"
  using assms by (auto simp: append_token_piece_def split: option.splits if_splits)

lemma append_piece_fail: "append_token_piece la e n x t = (False, t') \<Longrightarrow> t' = t"
  by (auto simp: append_token_piece_def split: option.splits if_splits)

lemma turn_only_vocab: "turn_only la sq t t' \<Longrightarrow> em_vocab (tn_model t') = em_vocab (tn_model t)"
  by (auto simp: turn_only_def)

text \<open>
  The loop of the generation: what it has appended are the samples in their order, with their text;
  when it ends well it has counted them, and an end token is there exactly when it says so.
\<close>

lemma generation_loop_spec:
  assumes laws: "llama_laws la"
  shows "holds la (mem t) sq xs \<Longrightarrow> int (length xs) = pos + int n \<Longrightarrow>
    generation_loop la e sq pos k n t = (code, n', ended, t') \<Longrightarrow>
    turn_only la sq t t' \<and> tn_seq t' = tn_seq t \<and> (\<exists>zs. holds la (mem t') sq (xs @ zs)) \<and>
    (code = 0 \<longrightarrow> n \<le> n' \<and> n' \<le> n + k \<and> (ended \<longrightarrow> n' < n + k) \<and>
       rs_text (tn_response t') = map_option (\<lambda>s. s @ pieces la (em_vocab (tn_model t)) (map (en_samples e) [n..<n'])) (rs_text (tn_response t)) \<and>
       holds la (mem t') sq (xs @ map (en_samples e) [n..<n'] @ (if ended then [en_samples e n'] else [])))"
proof (induction k arbitrary: n t xs)
  case 0
  then show ?case by (auto intro: exI [of _ "[]"] simp: option.map_ident)
next
  case (Suc k)
  define t1 where "t1 = snd (ask_turn t)"
  have t1: "tn_model t1 = tn_model t" "tn_seq t1 = tn_seq t" "tn_response t1 = tn_response t" by (simp_all add: t1_def)
  note eq = Suc.prems(3) [unfolded generation_loop.simps Let_def case_prod_beta, folded t1_def]
  have held: "holds la (mem t1) sq xs" using Suc.prems(1) by (simp add: t1)
  have only1: "turn_only la sq t t'' \<longleftrightarrow> turn_only la sq t1 t''" for t'' by (simp add: turn_only_def t1)
  define x where "x = en_samples e n"
  show ?case
  proof (cases "fst (ask_turn t)")
    case True
    then have "code = - 2" "t' = set_cancelled True t1" using eq by auto
    then show ?thesis using held only1 t1 by (auto simp: turn_only_def intro!: exI [of _ "[]"] exI [of _ "mem t1"])
  next
    case go: False
    show ?thesis
    proof (cases "la_is_eog la (em_vocab (tn_model t)) x")
      case eog: True
      obtain c t2 where d: "turn_decode la [x] sq (pos + int n) True t1 = (c, t2)" by (rule prod.exhaust)
      note D = turn_decode_spec [OF laws held d [folded Suc.prems(2)]]
      show ?thesis
      proof (cases "c = 0")
        case True
        then have t': "code = 0" "n' = n" "ended" "t' = t2\<lparr>tn_response := (tn_response t2)\<lparr>rs_stopped := True\<rparr>\<rparr>"
          using eq go eog d by (simp_all add: x_def t1)
        have "map_option (\<lambda>s. s) (rs_text (tn_response t)) = rs_text (tn_response t)" by (simp add: option.map_ident)
        then show ?thesis using D True t' only1 t1 by (auto simp: turn_only_def x_def)
      next
        case False
        then have t': "code \<noteq> 0" "t' = note_failure c t2" using eq go eog d by (auto simp: x_def t1 split: if_splits)
        then show ?thesis using D only1 t1 by (auto simp: turn_only_def)
      qed
    next
      case tok: False
      obtain b t2 where a: "append_token_piece la e n x t1 = (b, t2)" by (rule prod.exhaust)
      show ?thesis
      proof (cases b)
        case False
        then have "code \<noteq> 0" "t' = t1" using eq go tok a append_piece_fail [of la e n x t1 t2] by (auto simp: x_def t1)
        then show ?thesis using held only1 t1 by (auto intro!: exI [of _ "[]"])
      next
        case True
        with a have a': "append_token_piece la e n x t1 = (True, t2)" by simp
        note A = append_piece_spec [OF a']
        have held2: "holds la (mem t2) sq xs" using held by (simp add: A)
        obtain c t3 where d: "turn_decode la [x] sq (pos + int n) True t2 = (c, t3)" by (rule prod.exhaust)
        note D = turn_decode_spec [OF laws held2 d [folded Suc.prems(2)]]
        have only3: "turn_only la sq t t3" using D(1) by (simp add: turn_only_def A t1)
        show ?thesis
        proof (cases "c = 0")
          case False
          then have "code \<noteq> 0" "t' = note_failure c t3" using eq go tok a' d by (auto simp: x_def t1 split: if_splits)
          then show ?thesis using D only3 A t1 by (auto simp: turn_only_def)
        next
          case dec: True
          have "generation_loop la e sq pos k (Suc n) t3 = (code, n', ended, t')"
            using eq go tok a' d dec by (simp add: x_def t1)
          note IH = Suc.IH [OF D(4) [OF dec] _ this]
          have len: "int (length (xs @ [x])) = pos + int (Suc n)" using Suc.prems(2) by simp
          note IH = IH [OF len]
          have up: "[n..<n'] = n # [Suc n..<n']" if "Suc n \<le> n'" using that by (simp add: upt_conv_Cons)
          have vocab: "em_vocab (tn_model t3) = em_vocab (tn_model t)" using only3 by (rule turn_only_vocab)
          have "turn_only la sq t t'" using turn_only_trans [OF only3] IH by blast
          moreover have "tn_seq t' = tn_seq t" using IH D(2) A t1 by simp
          moreover have "\<exists>zs. holds la (mem t') sq (xs @ zs)" using IH by auto
          moreover have "rs_text (tn_response t') = map_option (\<lambda>s. s @ pieces la (em_vocab (tn_model t)) (map (en_samples e) [n..<n']))
              (rs_text (tn_response t))" if "code = 0"
          proof -
            have "Suc n \<le> n'" using IH that by simp
            then show ?thesis using IH that D(3) A(5) vocab t1 up by (cases "rs_text (tn_response t)") (simp_all add: x_def)
          qed
          moreover have "holds la (mem t') sq (xs @ map (en_samples e) [n..<n'] @ (if ended then [en_samples e n'] else []))" if "code = 0"
            using IH that up by (simp add: x_def split: if_splits)
          ultimately show ?thesis using IH by auto
        qed
      qed
    qed
  qed
qed

lemma close_turn_spec:
  assumes laws: "llama_laws la" and held: "holds la (mem t) sq xs" and cl: "close_turn la sq (int (length xs)) t = (code, ended, t')"
  shows "turn_only la sq t t'" and "tn_seq t' = tn_seq t" and "\<exists>zs. holds la (mem t') sq (xs @ zs)"
    and "code = 0 \<Longrightarrow> rs_text (tn_response t') = rs_text (tn_response t) \<and>
      (\<exists>b. length b = (if ended then 1 else 0) \<and> holds la (mem t') sq (xs @ b))"
proof -
  have "turn_only la sq t t' \<and> tn_seq t' = tn_seq t \<and> (\<exists>zs. holds la (mem t') sq (xs @ zs)) \<and>
    (code = 0 \<longrightarrow> rs_text (tn_response t') = rs_text (tn_response t) \<and>
      (\<exists>b. length b = (if ended then 1 else 0) \<and> holds la (mem t') sq (xs @ b)))"
  proof (cases "la_boundary la (em_vocab (tn_model t))")
    case None
    then show ?thesis using held cl by (auto simp: close_turn_def intro: exI [of _ "[]"])
  next
    case (Some x)
    obtain c t2 where d: "turn_decode la [x] sq (int (length xs)) True t = (c, t2)" by (rule prod.exhaust)
    note D = turn_decode_spec [OF laws held d]
    show ?thesis
    proof (cases "c = 0")
      case True
      then have "code = 0" "ended" "t' = t2\<lparr>tn_response := (tn_response t2)\<lparr>rs_stopped := True\<rparr>\<rparr>"
        using cl d Some by (simp_all add: close_turn_def)
      then show ?thesis using D True by (auto simp: turn_only_def intro!: exI [of _ "[x]"])
    next
      case False
      then have "code \<noteq> 0" "t' = note_failure c t2" using cl d Some by (auto simp: close_turn_def Let_def split: if_splits)
      then show ?thesis using D by (auto simp: turn_only_def)
    qed
  qed
  then show "turn_only la sq t t'" "tn_seq t' = tn_seq t" "\<exists>zs. holds la (mem t') sq (xs @ zs)"
    "code = 0 \<Longrightarrow> rs_text (tn_response t') = rs_text (tn_response t) \<and>
      (\<exists>b. length b = (if ended then 1 else 0) \<and> holds la (mem t') sq (xs @ b))" by auto
qed

text \<open>What an answered turn says of itself, after the tokens \<open>xs\<close> with \<open>given\<close> of the prompt.\<close>

definition answered ::
  "('v, 'm, 'f) llama \<Rightarrow> engine_env \<Rightarrow> int \<Rightarrow> bool \<Rightarrow> nat \<Rightarrow> nat \<Rightarrow> int list \<Rightarrow> ('v, 'm) turn \<Rightarrow> bool" where
  "answered la e sq close budget given xs t \<longleftrightarrow>
     (\<exists>n b. n \<le> budget \<and> int n + int (length b) \<le> int budget + (if close then 1 else 0) \<and> length b \<le> 1 \<and>
        rs_tokens_generated (tn_response t) = int n \<and> rs_prompt_tokens (tn_response t) = int given \<and>
        rs_text (tn_response t) = Some (pieces la (em_vocab (tn_model t)) (map (en_samples e) [0..<n])) \<and>
        rs_total_tokens (tn_response t) = int (length xs + n + length b) \<and>
        tn_seq t = \<lparr>sq_current_pos = int (length xs + n + length b), sq_in_use = True\<rparr> \<and>
        holds la (mem t) sq (xs @ map (en_samples e) [0..<n] @ b))"

lemma generate_turn_spec:
  assumes laws: "llama_laws la" and held: "holds la (mem t) sq xs"
    and pos: "sq_current_pos (tn_seq t) + int given = int (length xs)" and gt: "generate_turn la e close sq budget given t = (code, t')"
  shows "turn_only la sq t t'" and "\<exists>zs. holds la (mem t') sq (xs @ zs)"
    and "code = 0 \<Longrightarrow> answered la e sq close budget given xs t'"
proof -
  have "turn_only la sq t t' \<and> (\<exists>zs. holds la (mem t') sq (xs @ zs)) \<and>
    (code = 0 \<longrightarrow> answered la e sq close budget given xs t')"
  proof (cases "en_text e \<and> en_sampler e")
    case False
    then have "code \<noteq> 0" "tn_model t' = tn_model t" "tn_seq t' = tn_seq t" using gt by (auto simp: generate_turn_def Let_def split: if_splits)
    then show ?thesis using held by (auto simp: turn_only_def intro!: exI [of _ "[]"] exI [of _ "mem t"])
  next
    case True
    define t1 where "t1 = t\<lparr>tn_response := (tn_response t)\<lparr>rs_text := Some []\<rparr>\<rparr>"
    have t1: "tn_model t1 = tn_model t" "tn_seq t1 = tn_seq t" "rs_text (tn_response t1) = Some []" by (simp_all add: t1_def)
    obtain c n ended t2 where g: "generation_loop la e sq (int (length xs)) budget 0 t1 = (c, n, ended, t2)" by (rule prod_cases4)
    have "holds la (mem t1) sq xs" "int (length xs) = int (length xs) + int 0" using held by (simp_all add: t1)
    note G = generation_loop_spec [OF laws this g]
    have only2: "turn_only la sq t t2" using G by (simp add: turn_only_def t1)
    obtain c3 ended3 t3 where cl: "(if c = 0 \<and> close \<and> \<not> ended then close_turn la sq (int (length xs) + int n) t2 else (c, ended, t2)) = (c3, ended3, t3)"
      by (rule prod_cases3)
    define total where "total = int (length xs) + int n + (if ended3 then 1 else 0)"
    have t': "t' = (if c3 \<noteq> 0 then t3 else t3\<lparr>tn_response := (tn_response t3)\<lparr>rs_tokens_generated := int n, rs_prompt_tokens := int given,
          rs_total_tokens := total, rs_cache_bytes := la_seq_size la (mem t3) sq\<rparr>,
        tn_seq := \<lparr>sq_current_pos = total, sq_in_use = True\<rparr>\<rparr>)" "code = 0 \<longrightarrow> c3 = 0"
      using gt True g cl unfolding generate_turn_def pos total_def by (auto simp: Let_def t1_def [symmetric] split: if_splits)
    have tm: "tn_model t' = tn_model t3" by (simp add: t')
    show ?thesis
    proof (cases "c = 0 \<and> close \<and> \<not> ended")
      case True
      have len: "int (length xs) + int n = int (length (xs @ map (en_samples e) [0..<n]))" using G True by simp
      have held2: "holds la (mem t2) sq (xs @ map (en_samples e) [0..<n])" using G True by simp
      note C = close_turn_spec [OF laws held2 cl [unfolded if_P [OF True] len]]
      show ?thesis
      proof (intro conjI impI)
        show "turn_only la sq t t'" using turn_only_trans [OF only2 C(1)] by (simp add: turn_only_def tm)
        show "\<exists>zs. holds la (mem t') sq (xs @ zs)" using C(3) by (auto simp: tm)
        assume "code = 0"
        then have c3: "c3 = 0" using t'(2) by simp
        from C(4) [OF c3] obtain b where b: "length b = (if ended3 then 1 else 0)" "holds la (mem t3) sq (xs @ map (en_samples e) [0..<n] @ b)"
          "rs_text (tn_response t3) = rs_text (tn_response t2)" by auto
        show "answered la e sq close budget given xs t'"
          unfolding answered_def using b c3 G True t1 turn_only_vocab [OF turn_only_trans [OF only2 C(1)]]
          by (intro exI [of _ n] exI [of _ b]) (auto simp: t'(1) total_def)
      qed
    next
      case False
      then have same: "c3 = c" "ended3 = ended" "t3 = t2" using cl by (auto split: if_splits)
      show ?thesis
      proof (intro conjI impI)
        show "turn_only la sq t t'" using only2 by (simp add: turn_only_def tm same)
        show "\<exists>zs. holds la (mem t') sq (xs @ zs)" using G by (auto simp: tm same)
        assume "code = 0"
        then have c: "c = 0" using t'(2) same by simp
        show "answered la e sq close budget given xs t'"
          unfolding answered_def using c G same t1 turn_only_vocab [OF only2]
          by (intro exI [of _ n] exI [of _ "if ended then [en_samples e n] else []"]) (auto simp: t'(1) total_def)
      qed
    qed
  qed
  then show "turn_only la sq t t'" and "\<exists>zs. holds la (mem t') sq (xs @ zs)"
    and "code = 0 \<Longrightarrow> answered la e sq close budget given xs t'" by auto
qed

text \<open>The state of a private sequence that holds the tokens \<open>xs\<close>.\<close>

definition seq_of :: "int list \<Rightarrow> seq_state" where
  "seq_of xs = \<lparr>sq_current_pos = int (length xs), sq_in_use = (xs \<noteq> [])\<rparr>"

lemma seq_of_simps [simp]:
  "sq_current_pos (seq_of xs) = int (length xs)" "sq_in_use (seq_of xs) \<longleftrightarrow> xs \<noteq> []" "seq_of [] = empty_seq"
  by (simp_all add: seq_of_def empty_seq_def)

lemma prompt_turn_spec:
  assumes laws: "llama_laws la" and held: "holds la (mem t) sq xs" and seq: "tn_seq t = seq_of xs" and limit: "0 \<le> limit"
    and pt: "prompt_turn la e txt close sq limit t = (code, t')"
  shows "turn_only la sq t t'" and "\<exists>zs. holds la (mem t') sq (xs @ zs)"
    and "code = 0 \<Longrightarrow> \<exists>p. la_tokenize la (em_vocab (tn_model t)) txt (xs = []) = Some p \<and> p \<noteq> [] \<and>
      int (length (xs @ p)) + limit + (if close then 1 else 0) \<le> mc_n_ctx (em_config (tn_model t)) \<and>
      answered la e sq close (nat limit) (length p) (xs @ p) t'"
proof -
  have "turn_only la sq t t' \<and> (\<exists>zs. holds la (mem t') sq (xs @ zs)) \<and>
    (code = 0 \<longrightarrow> (\<exists>p. la_tokenize la (em_vocab (tn_model t)) txt (xs = []) = Some p \<and> p \<noteq> [] \<and>
      int (length (xs @ p)) + limit + (if close then 1 else 0) \<le> mc_n_ctx (em_config (tn_model t)) \<and>
      answered la e sq close (nat limit) (length p) (xs @ p) t'))"
  proof (cases "\<exists>p. la_tokenize la (em_vocab (tn_model t)) txt (xs = []) = Some p \<and> p \<noteq> [] \<and>
      int (length (xs @ p)) + limit + (if close then 1 else 0) \<le> mc_n_ctx (em_config (tn_model t))")
    case False
    then have "code \<noteq> 0" "t' = t" using pt by (auto simp: prompt_turn_def tokenize_alloc_def seq split: option.splits if_splits)
    then show ?thesis using held by (auto intro: exI [of _ "[]"])
  next
    case True
    then obtain p where p: "la_tokenize la (em_vocab (tn_model t)) txt (xs = []) = Some p" "p \<noteq> []"
      "int (length (xs @ p)) + limit + (if close then 1 else 0) \<le> mc_n_ctx (em_config (tn_model t))" by blast
    obtain c t2 where d: "turn_decode la p sq (int (length xs)) True t = (c, t2)" by (rule prod.exhaust)
    note D = turn_decode_spec [OF laws held d]
    have pt2: "(if c \<noteq> 0 then (- 1, note_failure c t2) else generate_turn la e close sq (nat limit) (length p) t2) = (code, t')"
      using pt p d by (auto simp: prompt_turn_def tokenize_alloc_def seq)
    show ?thesis
    proof (cases "c = 0")
      case False
      then have "code \<noteq> 0" "t' = note_failure c t2" using pt2 by auto
      then show ?thesis using D by (auto simp: turn_only_def)
    next
      case True
      then have g: "generate_turn la e close sq (nat limit) (length p) t2 = (code, t')" using pt2 by simp
      have pos: "sq_current_pos (tn_seq t2) + int (length p) = int (length (xs @ p))" using D(2) seq by simp
      note G = generate_turn_spec [OF laws D(4) [OF True] pos g]
      show ?thesis using G p turn_only_trans [OF D(1) G(1)] by auto
    qed
  qed
  then show "turn_only la sq t t'" and "\<exists>zs. holds la (mem t') sq (xs @ zs)"
    and "code = 0 \<Longrightarrow> \<exists>p. la_tokenize la (em_vocab (tn_model t)) txt (xs = []) = Some p \<and> p \<noteq> [] \<and>
      int (length (xs @ p)) + limit + (if close then 1 else 0) \<le> mc_n_ctx (em_config (tn_model t)) \<and>
      answered la e sq close (nat limit) (length p) (xs @ p) t'" by auto
qed

section \<open>Cached prompts\<close>

definition own_seq :: "('v, 'm) engine_model \<Rightarrow> int \<Rightarrow> bool" where
  "own_seq md s \<longleftrightarrow> 0 < s \<and> s < private_seq_limit md"

definition entry_ok :: "('v, 'm, 'f) llama \<Rightarrow> ('v, 'm) engine_model \<Rightarrow> nat \<Rightarrow> bool" where
  "entry_ok la md i \<longleftrightarrow>
     (case sh_prompt_text (em_shared md ! i) of
        None \<Rightarrow> True
      | Some prompt \<Rightarrow> sh_seq_id (em_shared md ! i) = shared_seq md i \<and>
          (\<exists>xs. la_tokenize la (em_vocab md) prompt True = Some xs \<and> xs \<noteq> [] \<and> int (length xs) < mc_n_ctx (em_config md) \<and>
             sh_token_count (em_shared md ! i) = int (length xs) \<and> holds la (em_memory md) (shared_seq md i) xs))"

definition used :: "shared_entry \<Rightarrow> bool" where
  "used x \<longleftrightarrow> sh_prompt_text x \<noteq> None"

definition model_ok :: "('v, 'm, 'f) llama \<Rightarrow> ('v, 'm) engine_model \<Rightarrow> bool" where
  "model_ok la md \<longleftrightarrow>
     int MAX_SHARED_SYS + 1 < mc_n_seq_max (em_config md) \<and> mc_n_seq_max (em_config md) \<le> int MAX_SEQ_PER_MODEL \<and>
     0 < mc_n_batch (em_config md) \<and> 0 < mc_n_ctx (em_config md) \<and> 0 < mc_max_tokens (em_config md) \<and>
     length (em_shared md) = MAX_SHARED_SYS \<and> (\<forall>i < MAX_SHARED_SYS. entry_ok la md i) \<and>
     inj_on (\<lambda>i. sh_prompt_text (em_shared md ! i)) {i. i < MAX_SHARED_SYS \<and> used (em_shared md ! i)} \<and>
     em_shared_count md = int (length (filter used (em_shared md)))"

text \<open>Same model, and no private sequence but perhaps \<open>sq\<close> is touched.\<close>

definition same_model :: "('v, 'm) engine_model \<Rightarrow> ('v, 'm) engine_model \<Rightarrow> bool" where
  "same_model md md' \<longleftrightarrow> em_id md' = em_id md \<and> em_config md' = em_config md \<and> em_vocab md' = em_vocab md"

lemma same_model_seqs:
  "same_model md md' \<Longrightarrow> own_seq md' s = own_seq md s" "same_model md md' \<Longrightarrow> shared_seq md' i = shared_seq md i"
  "same_model md md' \<Longrightarrow> private_seq_limit md' = private_seq_limit md"
  by (simp_all add: same_model_def own_seq_def private_seq_limit_def shared_seq_def)

lemma own_not_shared: "own_seq md s \<Longrightarrow> i < MAX_SHARED_SYS \<Longrightarrow> s \<noteq> shared_seq md i"
  by (auto simp: own_seq_def private_seq_limit_def shared_seq_def)

lemma shared_seq_inj: "shared_seq md i = shared_seq md j \<longleftrightarrow> i = j"
  by (auto simp: shared_seq_def)

lemma entry_ok_frame:
  assumes "entry_ok la md i" and "same_model md md'" and "em_shared md' ! i = em_shared md ! i"
    and "la_cells la (em_memory md') (shared_seq md i) = la_cells la (em_memory md) (shared_seq md i)"
  shows "entry_ok la md' i"
  using assms by (simp add: entry_ok_def same_model_seqs holds_def split: option.splits) (simp add: same_model_def)

lemma filter_update:
  "i < length xs \<Longrightarrow> length (filter P (xs[i := y])) + (if P (xs ! i) then 1 else 0) = length (filter P xs) + (if P y then 1 else 0)"
proof (induction xs arbitrary: i)
  case (Cons x xs)
  then show ?case by (cases i) auto
qed simp

lemma model_okD:
  assumes "model_ok la md"
  shows "int MAX_SHARED_SYS + 1 < mc_n_seq_max (em_config md)" and "mc_n_seq_max (em_config md) \<le> int MAX_SEQ_PER_MODEL"
    and "length (em_shared md) = MAX_SHARED_SYS" and "\<And>i. i < MAX_SHARED_SYS \<Longrightarrow> entry_ok la md i"
    and "0 < mc_max_tokens (em_config md)" and "0 < mc_n_ctx (em_config md)"
  using assms by (simp_all add: model_ok_def)

text \<open>The entry \<open>i\<close> is replaced; the sequences of the others are as they were.\<close>

lemma model_ok_slot:
  assumes ok: "model_ok la md" and same: "same_model md md'" and i: "i < MAX_SHARED_SYS"
    and upd: "em_shared md' = (em_shared md)[i := x]" and new: "entry_ok la md' i"
    and others: "\<And>j. j < MAX_SHARED_SYS \<Longrightarrow> j \<noteq> i \<Longrightarrow>
      la_cells la (em_memory md') (shared_seq md j) = la_cells la (em_memory md) (shared_seq md j)"
    and fresh: "\<And>j. j < MAX_SHARED_SYS \<Longrightarrow> j \<noteq> i \<Longrightarrow> used x \<Longrightarrow> sh_prompt_text (em_shared md ! j) \<noteq> sh_prompt_text x"
    and counted: "em_shared_count md' + (if used (em_shared md ! i) then 1 else 0) = em_shared_count md + (if used x then 1 else 0)"
  shows "model_ok la md'"
proof -
  note d = model_okD [OF ok]
  have nth: "em_shared md' ! j = (if j = i then x else em_shared md ! j)" if "j < MAX_SHARED_SYS" for j
    using that upd d(3) by simp
  have "entry_ok la md' j" if "j < MAX_SHARED_SYS" for j
  proof (cases "j = i")
    case False
    then show ?thesis using entry_ok_frame [OF d(4) [OF that] same] nth [OF that] others [OF that] by simp
  qed (use new in simp)
  moreover have "inj_on (\<lambda>i. sh_prompt_text (em_shared md' ! i)) {i. i < MAX_SHARED_SYS \<and> used (em_shared md' ! i)}"
  proof (rule inj_onI)
    fix a b
    assume h: "a \<in> {i. i < MAX_SHARED_SYS \<and> used (em_shared md' ! i)}" "b \<in> {i. i < MAX_SHARED_SYS \<and> used (em_shared md' ! i)}"
      "sh_prompt_text (em_shared md' ! a) = sh_prompt_text (em_shared md' ! b)"
    have "inj_on (\<lambda>i. sh_prompt_text (em_shared md ! i)) {i. i < MAX_SHARED_SYS \<and> used (em_shared md ! i)}"
      using ok by (simp add: model_ok_def)
    then show "a = b" using h nth fresh [of a] fresh [of b] by (auto simp: inj_on_def split: if_splits)
  qed
  moreover have "em_shared_count md' = int (length (filter used (em_shared md')))"
    using filter_update [of i "em_shared md" used x] i d(3) counted ok unfolding upd by (auto simp: model_ok_def split: if_splits)
  ultimately show ?thesis using ok same upd by (simp add: model_ok_def same_model_def)
qed

text \<open>Work on a private sequence, or on a shared one that no entry owns.\<close>

lemma model_ok_only:
  assumes ok: "model_ok la md" and o: "only la sq (em_memory md) m"
    and free: "\<And>i. i < MAX_SHARED_SYS \<Longrightarrow> used (em_shared md ! i) \<Longrightarrow> sq \<noteq> shared_seq md i"
  shows "model_ok la (md\<lparr>em_memory := m\<rparr>)"
proof -
  have "entry_ok la (md\<lparr>em_memory := m\<rparr>) i" if i: "i < MAX_SHARED_SYS" for i
  proof (cases "used (em_shared md ! i)")
    case True
    then show ?thesis using entry_ok_frame [OF model_okD(4) [OF ok i], of "md\<lparr>em_memory := m\<rparr>"] o free [OF i True]
      by (simp add: same_model_def only_def)
  qed (simp add: entry_ok_def used_def)
  then show ?thesis using ok by (simp add: model_ok_def)
qed

lemma seq_rm_fields:
  "snd (seq_rm la sq a b md) = md\<lparr>em_memory := snd (la_seq_rm la (em_memory md) sq a b)\<rparr>"
  "fst (seq_rm la sq a b md) = fst (la_seq_rm la (em_memory md) sq a b)"
  by (simp_all add: seq_rm_def case_prod_beta)

text \<open>No private sequence is touched.\<close>

definition own_kept :: "('v, 'm, 'f) llama \<Rightarrow> ('v, 'm) engine_model \<Rightarrow> ('v, 'm) engine_model \<Rightarrow> bool" where
  "own_kept la md md' \<longleftrightarrow> same_model md md' \<and>
     (\<forall>s. own_seq md s \<longrightarrow> la_cells la (em_memory md') s = la_cells la (em_memory md) s)"

lemma own_kept_refl [simp]: "own_kept la md md" by (simp add: own_kept_def same_model_def)

lemma own_kept_trans: "own_kept la md md' \<Longrightarrow> own_kept la md' md'' \<Longrightarrow> own_kept la md md''"
  by (auto simp: own_kept_def same_model_seqs) (simp add: same_model_def)

lemma own_kept_only:
  "only la (shared_seq md i) (em_memory md) m \<Longrightarrow> i < MAX_SHARED_SYS \<Longrightarrow> own_kept la md (md\<lparr>em_memory := m\<rparr>)"
  using own_not_shared by (fastforce simp: own_kept_def same_model_def only_def)

text \<open>Only the figures of an entry change.\<close>

lemma model_ok_relabel:
  assumes ok: "model_ok la md" and i: "i < MAX_SHARED_SYS" and same: "same_model md md'" "em_memory md' = em_memory md"
    and x: "sh_seq_id x = sh_seq_id (em_shared md ! i)" "sh_token_count x = sh_token_count (em_shared md ! i)"
      "sh_prompt_text x = sh_prompt_text (em_shared md ! i)"
    and upd: "em_shared md' = (em_shared md)[i := x]" "em_shared_count md' = em_shared_count md"
  shows "model_ok la md'"
proof -
  have nth: "em_shared md' ! i = x" using i model_okD(3) [OF ok] by (simp add: upd)
  have e: "entry_ok la md' i"
    using model_okD(4) [OF ok i] nth x same_model_seqs(2) [OF same(1)] same
    by (auto simp: entry_ok_def same_model_def split: option.splits)
  have distinct: "sh_prompt_text (em_shared md ! j) \<noteq> sh_prompt_text (em_shared md ! i)"
    if "j < MAX_SHARED_SYS" "j \<noteq> i" "used (em_shared md ! i)" for j
    using ok that i unfolding model_ok_def used_def by (metis (mono_tags, lifting) inj_on_eq_iff mem_Collect_eq)
  show ?thesis
    by (rule model_ok_slot [OF ok same(1) i upd(1) e]) (use distinct x upd same in \<open>auto simp: used_def\<close>)
qed

lemma touch_spec:
  assumes ok: "model_ok la md" and i: "i < MAX_SHARED_SYS"
  shows "model_ok la (touch_shared_sys i md)" and "own_kept la md (touch_shared_sys i md)"
    and "em_memory (touch_shared_sys i md) = em_memory md"
    and "em_shared (touch_shared_sys i md) ! i = (em_shared md ! i)\<lparr>sh_last_access := em_clock md + 1\<rparr>"
proof -
  have same: "same_model md (touch_shared_sys i md)" by (simp add: same_model_def touch_shared_sys_def)
  show "model_ok la (touch_shared_sys i md)"
    by (rule model_ok_relabel [OF ok i same, where x = "(em_shared md ! i)\<lparr>sh_last_access := em_clock md + 1\<rparr>"])
      (simp_all add: touch_shared_sys_def)
  show "own_kept la md (touch_shared_sys i md)" using same by (simp add: own_kept_def touch_shared_sys_def)
  show "em_memory (touch_shared_sys i md) = em_memory md" by (simp add: touch_shared_sys_def)
  show "em_shared (touch_shared_sys i md) ! i = (em_shared md ! i)\<lparr>sh_last_access := em_clock md + 1\<rparr>"
    using model_okD(3) [OF ok] i by (simp add: touch_shared_sys_def)
qed

lemma select_less: "select_shared_sys_slot md < MAX_SHARED_SYS"
proof -
  have "select_scan es lru is < MAX_SHARED_SYS" if "lru < MAX_SHARED_SYS" "set is \<subseteq> {..<MAX_SHARED_SYS}" for es lru "is"
    using that by (induction es lru "is" rule: select_scan.induct) auto
  moreover have "set [0..<MAX_SHARED_SYS] \<subseteq> {..<MAX_SHARED_SYS}" "0 < MAX_SHARED_SYS" by (auto simp: MAX_SHARED_SYS_def)
  ultimately show ?thesis unfolding select_shared_sys_slot_def by blast
qed

lemma find_shared_some:
  "find_shared_sys md prompt = Some i \<Longrightarrow> i < MAX_SHARED_SYS \<and> sh_prompt_text (em_shared md ! i) = Some prompt"
  by (auto simp: find_shared_sys_def find_Some_iff)

lemma find_shared_none:
  "find_shared_sys md prompt = None \<Longrightarrow> i < MAX_SHARED_SYS \<Longrightarrow> sh_prompt_text (em_shared md ! i) \<noteq> Some prompt"
  by (auto simp: find_shared_sys_def find_None_iff)

text \<open>The slot is emptied, and so is its sequence.\<close>

lemma freed_slot:
  assumes laws: "llama_laws la" and ok: "model_ok la md" and i: "i < MAX_SHARED_SYS"
  defines "md' \<equiv> snd (seq_rm la (shared_seq md i) (- 1) (- 1) (evict_shared la i md))"
  shows "model_ok la md'" and "own_kept la md md'" and "\<not> used (em_shared md' ! i)" and "holds la (em_memory md') (shared_seq md i) []"
    and "\<And>j. j \<noteq> i \<Longrightarrow> em_shared md' ! j = em_shared md ! j"
proof -
  note d = model_okD [OF ok]
  define sq where "sq = shared_seq md i"
  show empty: "holds la (em_memory md') (shared_seq md i) []"
    unfolding md'_def seq_rm_fields using remove_all [OF laws] by simp
  have free: "shared_seq md j \<noteq> sq" if "j \<noteq> i" for j using that by (simp add: sq_def shared_seq_inj)
  show "model_ok la md'" and "own_kept la md md'" and "\<not> used (em_shared md' ! i)" and "\<And>j. j \<noteq> i \<Longrightarrow> em_shared md' ! j = em_shared md ! j"
  proof -
    define e where "e = evict_shared la i md"
    have e: "model_ok la e \<and> own_kept la md e \<and> \<not> used (em_shared e ! i) \<and> (\<forall>j. j \<noteq> i \<longrightarrow> em_shared e ! j = em_shared md ! j)"
    proof (cases "used (em_shared md ! i)")
      case False
      then have "e = md" by (simp add: e_def evict_shared_def used_def)
      then show ?thesis using ok False by (simp add: own_kept_def same_model_def)
    next
      case True
      then have sq: "sh_seq_id (em_shared md ! i) = sq" using d(4) [OF i] by (auto simp: entry_ok_def used_def sq_def split: option.splits)
      define m where "m = snd (la_seq_rm la (em_memory md) sq (- 1) (- 1))"
      have o: "only la sq (em_memory md) m" unfolding m_def by (rule remove_only [OF laws])
      have fields: "em_memory e = m" "em_shared e = (em_shared md)[i := empty_shared]" "same_model md e"
        "em_shared_count e = em_shared_count md - 1" using True sq
        by (auto simp add: e_def evict_shared_def used_def seq_rm_fields m_def same_model_def Let_def)
      have none: "\<not> used empty_shared" by (simp add: used_def empty_shared_def)
      have "entry_ok la e i" using fields(2) i d(3) by (simp add: entry_ok_def empty_shared_def)
      then have "model_ok la e"
        by (rule model_ok_slot [OF ok fields(3) i fields(2)]) (use o free none True fields in \<open>auto simp: only_def\<close>)
      moreover have "own_kept la md e"
        using own_kept_only [OF o [unfolded sq_def] i] fields by (simp add: own_kept_def)
      ultimately show ?thesis using fields(2) none i d(3) by simp
    qed
    define m where "m = snd (la_seq_rm la (em_memory e) sq (- 1) (- 1))"
    have md': "md' = e\<lparr>em_memory := m\<rparr>" by (simp add: md'_def seq_rm_fields e_def m_def sq_def)
    have same: "shared_seq e j = shared_seq md j" for j using e by (simp add: own_kept_def same_model_seqs)
    have o: "only la sq (em_memory e) m" unfolding m_def by (rule remove_only [OF laws])
    show "model_ok la md'" unfolding md' by (rule model_ok_only [OF conjunct1 [OF e] o]) (use e free same in metis)
    show "own_kept la md md'" unfolding md' using own_kept_trans own_kept_only [of la e i m] o i e same sq_def by metis
    show "\<not> used (em_shared md' ! i)" "\<And>j. j \<noteq> i \<Longrightarrow> em_shared md' ! j = em_shared md ! j" using e by (simp_all add: md')
  qed
qed

text \<open>A prompt that is not cached is, or nothing is; the private sequences are as they were.\<close>

lemma cache_prefix_spec:
  assumes laws: "llama_laws la" and ok: "model_ok la md" and new: "find_shared_sys md prompt = None"
    and c: "cache_system_prefix la copied prompt md = (r, md')"
  shows "model_ok la md'" and "own_kept la md md'"
    and "r = Some i \<Longrightarrow> i < MAX_SHARED_SYS \<and> sh_prompt_text (em_shared md' ! i) = Some prompt"
proof -
  have "model_ok la md' \<and> own_kept la md md' \<and>
    (\<forall>i. r = Some i \<longrightarrow> i < MAX_SHARED_SYS \<and> sh_prompt_text (em_shared md' ! i) = Some prompt)"
  proof (cases "\<exists>xs. la_tokenize la (em_vocab md) prompt True = Some xs \<and> xs \<noteq> [] \<and> int (length xs) < mc_n_ctx (em_config md)")
    case False
    then have "r = None" "md' = md" using c by (auto simp: cache_system_prefix_def tokenize_alloc_def split: option.splits if_splits)
    then show ?thesis using ok by (simp add: own_kept_def same_model_def)
  next
    case True
    then obtain xs where xs: "la_tokenize la (em_vocab md) prompt True = Some xs" "xs \<noteq> []" "int (length xs) < mc_n_ctx (em_config md)"
      by blast
    define i where "i = select_shared_sys_slot md"
    define sq where "sq = shared_seq md i"
    define e where "e = snd (seq_rm la sq (- 1) (- 1) (evict_shared la i md))"
    have i: "i < MAX_SHARED_SYS" unfolding i_def by (rule select_less)
    note freed = freed_slot [OF laws ok i, folded sq_def, folded e_def]
    have same: "same_model md e" using freed(2) by (simp add: own_kept_def)
    have sqe: "shared_seq e j = shared_seq md j" for j using same by (simp add: same_model_seqs)
    obtain code m rest where d: "decode_tokens la (batch_size e) False xs sq 0 False (em_memory e) [] = (code, m, rest)"
      by (rule prod_cases3)
    have "0 = int (length ([]::int list))" by simp
    note D = decode_tokens_spec [OF laws freed(4) this d]
    define f where "f = e\<lparr>em_memory := m\<rparr>"
    have res: "(if code \<noteq> 0 \<or> \<not> copied then (None, snd (seq_rm la sq (- 1) (- 1) f))
       else let md = f\<lparr>em_shared := (em_shared f)[i := \<lparr>sh_seq_id = sq, sh_token_count = int (length xs),
                    sh_prompt_text = Some prompt, sh_share_count = 0, sh_saved_tokens = 0,
                    sh_last_access = sh_last_access (em_shared f ! i)\<rparr>]\<rparr>;
                md = touch_shared_sys i md
            in (Some i, md\<lparr>em_shared_count := em_shared_count md + 1\<rparr>)) = (r, md')"
      using c xs d unfolding cache_system_prefix_def tokenize_alloc_def Let_def i_def sq_def e_def f_def by simp
    have free: "sq \<noteq> shared_seq e j" if "used (em_shared e ! j)" for j
      using that freed(3) sqe shared_seq_inj [of md i j] by (auto simp: sq_def)
    have f: "model_ok la f" "own_kept la e f"
      using model_ok_only [OF freed(1), of sq m] own_kept_only [of la e i m] D free i sqe unfolding f_def sq_def by auto
    show ?thesis
    proof (cases "code \<noteq> 0 \<or> \<not> copied")
      case True
      define m' where "m' = snd (la_seq_rm la (em_memory f) sq (- 1) (- 1))"
      have r: "r = None" "md' = f\<lparr>em_memory := m'\<rparr>" using res True by (auto simp: seq_rm_fields m'_def)
      have o: "only la sq (em_memory f) m'" unfolding m'_def by (rule remove_only [OF laws])
      have fe: "em_shared f = em_shared e" "shared_seq f j = shared_seq e j" for j by (simp_all add: f_def shared_seq_def)
      have "model_ok la md'" unfolding r by (rule model_ok_only [OF f(1) o]) (use free fe in auto)
      moreover have "own_kept la f md'" unfolding r using own_kept_only [of la f i m'] o i fe sqe by (simp add: sq_def)
      ultimately show ?thesis using r own_kept_trans freed(2) f(2) by blast
    next
      case False
      define x where "x = \<lparr>sh_seq_id = sq, sh_token_count = int (length xs), sh_prompt_text = Some prompt, sh_share_count = 0,
          sh_saved_tokens = 0, sh_last_access = em_clock f + 1\<rparr>"
      have md': "md' = f\<lparr>em_clock := em_clock f + 1, em_shared := (em_shared f)[i := x], em_shared_count := em_shared_count f + 1\<rparr>"
        and r: "r = Some i"
        using res False model_okD(3) [OF f(1)] i by (auto simp: touch_shared_sys_def x_def Let_def)
      have same': "same_model f md'" by (simp add: md' same_model_def)
      have nth: "em_shared md' ! i = x" using model_okD(3) [OF f(1)] i by (simp add: md')
      have sqf: "shared_seq md' i = sq" "shared_seq f j = shared_seq md j" for j
        using sqe by (simp_all add: md' f_def sq_def shared_seq_def same_model_def)
      have new_ok: "entry_ok la md' i" unfolding entry_ok_def nth sqf
        using D False xs same by (simp add: x_def md' f_def same_model_def)
      have fresh: "sh_prompt_text (em_shared f ! j) \<noteq> sh_prompt_text x" if "j < MAX_SHARED_SYS" "j \<noteq> i" for j
        using find_shared_none [OF new that(1)] freed(5) [OF that(2)] by (simp add: f_def x_def)
      have "model_ok la md'"
        by (rule model_ok_slot [OF f(1) same' i _ new_ok, where x = x])
          (use fresh freed(3) in \<open>auto simp: md' f_def x_def used_def\<close>)
      moreover have "own_kept la f md'" using same' by (simp add: own_kept_def md')
      note own_kept_trans [OF own_kept_trans [OF freed(2) f(2)] this]
      ultimately show ?thesis using r nth i by (auto simp: x_def)
    qed
  qed
  then show "model_ok la md'" and "own_kept la md md'"
    and "r = Some i \<Longrightarrow> i < MAX_SHARED_SYS \<and> sh_prompt_text (em_shared md' ! i) = Some prompt" by auto
qed

section \<open>First turns\<close>

definition kept_but :: "('v, 'm, 'f) llama \<Rightarrow> int \<Rightarrow> ('v, 'm) engine_model \<Rightarrow> ('v, 'm) engine_model \<Rightarrow> bool" where
  "kept_but la sq md md' \<longleftrightarrow> same_model md md' \<and>
     (\<forall>s. own_seq md s \<longrightarrow> s \<noteq> sq \<longrightarrow> la_cells la (em_memory md') s = la_cells la (em_memory md) s)"

lemma kept_but_refl [simp]: "kept_but la sq md md" by (simp add: kept_but_def same_model_def)

lemma kept_but_trans: "kept_but la sq md md' \<Longrightarrow> kept_but la sq md' md'' \<Longrightarrow> kept_but la sq md md''"
  by (auto simp: kept_but_def same_model_seqs) (simp add: same_model_def)

lemma own_kept_but: "own_kept la md md' \<Longrightarrow> kept_but la sq md md'"
  by (simp add: own_kept_def kept_but_def)

lemma own_kept_holds: "own_kept la md md' \<Longrightarrow> own_seq md s \<Longrightarrow> holds la (em_memory md') s xs = holds la (em_memory md) s xs"
  by (simp add: own_kept_def holds_def)

lemma only_kept_but: "only la sq (em_memory md) m \<Longrightarrow> kept_but la sq md (md\<lparr>em_memory := m\<rparr>)"
  by (simp add: kept_but_def same_model_def only_def)

lemma model_ok_own:
  "model_ok la md \<Longrightarrow> own_seq md sq \<Longrightarrow> only la sq (em_memory md) m \<Longrightarrow> model_ok la (md\<lparr>em_memory := m\<rparr>)"
  by (erule model_ok_only) (use own_not_shared in \<open>auto\<close>)

text \<open>A turn that works on its own sequence alone keeps the model.\<close>

lemma turn_only_model:
  assumes "turn_only la sq t t'" and "model_ok la (tn_model t)" and "own_seq (tn_model t) sq"
  shows "model_ok la (tn_model t')" and "kept_but la sq (tn_model t) (tn_model t')"
  using assms model_ok_own only_kept_but by (auto simp: turn_only_def)

lemma use_prefix_spec:
  assumes laws: "llama_laws la" and ok: "model_ok la (tn_model t)" and own: "own_seq (tn_model t) sq"
    and i: "i < MAX_SHARED_SYS" and e: "sh_prompt_text (em_shared (tn_model t) ! i) = Some prompt" and empty: "holds la (mem t) sq []"
    and t'_def: "t' = use_prefix la sq reused i t"
  shows "model_ok la (tn_model t')" and "kept_but la sq (tn_model t) (tn_model t')"
    and "\<exists>xs. la_tokenize la (em_vocab (tn_model t)) prompt True = Some xs \<and> xs \<noteq> [] \<and> holds la (mem t') sq xs \<and> tn_seq t' = seq_of xs"
proof -
  define md where "md = touch_shared_sys i (tn_model t)"
  define x where "x = em_shared md ! i"
  note T = touch_spec [OF ok i, folded md_def, folded x_def]
  have same: "same_model (tn_model t) md" using T(2) by (simp add: own_kept_def)
  from model_okD(4) [OF T(1) i] e T(4) obtain xs where xs: "la_tokenize la (em_vocab md) prompt True = Some xs" "xs \<noteq> []"
    "sh_token_count x = int (length xs)" "sh_seq_id x = shared_seq md i" "holds la (em_memory md) (shared_seq md i) xs"
    by (auto simp: entry_ok_def x_def)
  define m where "m = la_seq_cp la (em_memory md) (sh_seq_id x) sq 0 (sh_token_count x)"
  have own': "own_seq md sq" using own same_model_seqs(1) [OF same] by simp
  have o: "only la sq (em_memory md) m" unfolding m_def by (rule copy_only [OF laws])
  have held: "holds la m sq xs"
    unfolding m_def xs(3,4) by (rule copy_holds [OF laws _ _ xs(5)]) (use own_not_shared [OF own' i] empty T(3) in auto)
  define md2 where "md2 = md\<lparr>em_memory := m\<rparr>"
  have md2: "model_ok la md2" "kept_but la sq (tn_model t) md2"
    using model_ok_own [OF T(1) own' o] kept_but_trans [OF own_kept_but [OF T(2)] only_kept_but [OF o]] by (simp_all add: md2_def)
  define md3 where "md3 = md2\<lparr>em_shared := (em_shared md2)[i := x\<lparr>sh_share_count := sh_share_count x + 1,
      sh_saved_tokens := sh_saved_tokens x + sh_token_count x\<rparr>]\<rparr>"
  have md3: "model_ok la md3"
    by (rule model_ok_relabel [OF md2(1) i]) (auto simp: md3_def md2_def same_model_def x_def)
  have kept3: "kept_but la sq (tn_model t) md3" using md2(2) by (simp add: md3_def kept_but_def same_model_def)
  have t': "tn_model t' = (if reused then md3 else md2)" "tn_seq t' = \<lparr>sq_current_pos = sh_token_count x, sq_in_use = True\<rparr>"
    by (simp_all add: t'_def use_prefix_def Let_def md3_def md2_def m_def md_def x_def)
  show "model_ok la (tn_model t')" "kept_but la sq (tn_model t) (tn_model t')" using md2 md3 kept3 t' by simp_all
  have "mem t' = m" using t' by (simp add: md3_def md2_def)
  then show "\<exists>xs. la_tokenize la (em_vocab (tn_model t)) prompt True = Some xs \<and> xs \<noteq> [] \<and> holds la (mem t') sq xs \<and> tn_seq t' = seq_of xs"
    using xs held same t' by (auto simp: same_model_def seq_of_def)
qed

lemma system_turn_spec:
  assumes laws: "llama_laws la" and ok: "model_ok la (tn_model t)" and own: "own_seq (tn_model t) sq"
    and empty: "holds la (mem t) sq []" and st: "system_turn la copied prompt sq t = (go, t')"
  shows "model_ok la (tn_model t')" and "kept_but la sq (tn_model t) (tn_model t')" and "\<exists>zs. holds la (mem t') sq zs"
    and "go \<Longrightarrow> \<exists>xs. la_tokenize la (em_vocab (tn_model t)) prompt True = Some xs \<and> xs \<noteq> [] \<and> holds la (mem t') sq xs \<and>
      tn_seq t' = seq_of xs"
proof -
  have "model_ok la (tn_model t') \<and> kept_but la sq (tn_model t) (tn_model t') \<and> (\<exists>zs. holds la (mem t') sq zs) \<and>
    (go \<longrightarrow> (\<exists>xs. la_tokenize la (em_vocab (tn_model t)) prompt True = Some xs \<and> xs \<noteq> [] \<and> holds la (mem t') sq xs \<and>
      tn_seq t' = seq_of xs))"
  proof (cases "find_shared_sys (tn_model t) prompt")
    case (Some i)
    then have "go" "t' = use_prefix la sq True i t" using st by (simp_all add: system_turn_def)
    then show ?thesis using use_prefix_spec [OF laws ok own _ _ empty, of i prompt t' True] find_shared_some [OF Some] by auto
  next
    case None
    obtain r md where c: "cache_system_prefix la copied prompt (tn_model t) = (r, md)" by (rule prod.exhaust)
    note C = cache_prefix_spec [OF laws ok None c]
    define t1 where "t1 = t\<lparr>tn_model := md\<rparr>"
    have same: "same_model (tn_model t) md" using C(2) by (simp add: own_kept_def)
    have empty1: "holds la (mem t1) sq []" using own_kept_holds [OF C(2) own] empty by (simp add: t1_def)
    have own1: "own_seq (tn_model t1) sq" using own same_model_seqs(1) [OF same] by (simp add: t1_def)
    have ok1: "model_ok la (tn_model t1)" using C(1) by (simp add: t1_def)
    have kept1: "kept_but la sq (tn_model t) (tn_model t1)" using own_kept_but [OF C(2)] by (simp add: t1_def)
    show ?thesis
    proof (cases r)
      case (Some i)
      then have t': "go" "t' = use_prefix la sq False i t1" using st None c by (simp_all add: system_turn_def t1_def)
      note U = use_prefix_spec [OF laws ok1 own1 _ _ empty1 t'(2), of prompt]
      have "i < MAX_SHARED_SYS" "sh_prompt_text (em_shared (tn_model t1) ! i) = Some prompt" using C(3) [OF Some] by (simp_all add: t1_def)
      note U = U [OF this]
      have "em_vocab (tn_model t1) = em_vocab (tn_model t)" using same by (simp add: t1_def same_model_def)
      then show ?thesis using U kept_but_trans [OF kept1 U(2)] t'(1) by auto
    next
      case none: None
      have fallback: "(case la_tokenize la (em_vocab md) prompt True of
          None \<Rightarrow> (False, case ask_turn t1 of (b, t) \<Rightarrow> set_cancelled b t)
        | Some tokens \<Rightarrow>
            if tokens = [] \<or> int (length tokens) \<ge> mc_n_ctx (em_config md)
            then (False, case ask_turn t1 of (b, t) \<Rightarrow> set_cancelled b t)
            else case turn_decode la tokens sq 0 False t1 of
              (code, t) \<Rightarrow> if code \<noteq> 0 then (False, case ask_turn t of (b, t) \<Rightarrow> set_cancelled b t)
                else (True, t\<lparr>tn_seq := \<lparr>sq_current_pos = int (length tokens), sq_in_use = True\<rparr>\<rparr>)) = (go, t')"
        using st None c none unfolding system_turn_def tokenize_alloc_def Let_def t1_def by simp
      show ?thesis
      proof (cases "\<exists>xs. la_tokenize la (em_vocab md) prompt True = Some xs \<and> xs \<noteq> [] \<and> int (length xs) < mc_n_ctx (em_config md)")
        case False
        then have "\<not> go" "tn_model t' = tn_model t1" using fallback by (auto split: option.splits if_splits prod.splits simp: ask_turn_def)
        then show ?thesis using ok1 kept1 empty1 by auto
      next
        case True
        then obtain xs where xs: "la_tokenize la (em_vocab md) prompt True = Some xs" "xs \<noteq> []" "int (length xs) < mc_n_ctx (em_config md)"
          by blast
        obtain code t2 where d: "turn_decode la xs sq (int (length ([]::int list))) False t1 = (code, t2)" by (rule prod.exhaust)
        note D = turn_decode_spec [OF laws empty1 d]
        have t': "go \<longleftrightarrow> code = 0" "tn_model t' = tn_model t2" "code = 0 \<longrightarrow> tn_seq t' = seq_of xs"
          using fallback xs d by (auto split: if_splits prod.splits simp: seq_of_def ask_turn_def)
        note M = turn_only_model [OF D(1) ok1 own1]
        show ?thesis using M kept_but_trans [OF kept1 M(2)] D t' xs same by (auto simp: same_model_def)
      qed
    qed
  qed
  then show "model_ok la (tn_model t')" and "kept_but la sq (tn_model t) (tn_model t')" and "\<exists>zs. holds la (mem t') sq zs"
    and "go \<Longrightarrow> \<exists>xs. la_tokenize la (em_vocab (tn_model t)) prompt True = Some xs \<and> xs \<noteq> [] \<and> holds la (mem t') sq xs \<and>
      tn_seq t' = seq_of xs" by auto
qed

text \<open>Whether the library can remove a part of a sequence; recurrent models cannot.\<close>

definition removes_parts :: "('v, 'm, 'f) llama \<Rightarrow> bool" where
  "removes_parts la \<longleftrightarrow> (\<forall>m s p. fst (la_seq_rm la m s p (- 1)))"

lemma rollback_spec:
  assumes laws: "llama_laws la" and ok: "model_ok la (tn_model t)" and own: "own_seq (tn_model t) sq"
    and held: "holds la (mem t) sq (old @ zs)" and fail: "code \<noteq> 0" and t'_def: "t' = rollback la sq (seq_of old) code t"
  shows "model_ok la (tn_model t')" and "kept_but la sq (tn_model t) (tn_model t')"
    and "rs_text (tn_response t') = None \<or> rs_cancelled (tn_response t')"
    and "\<exists>xs. (xs = old \<or> xs = [] \<and> \<not> removes_parts la) \<and> holds la (mem t') sq xs \<and> tn_seq t' = seq_of xs"
proof -
  define m1 where "m1 = snd (la_seq_rm la (mem t) sq (int (length old)) (- 1))"
  define m2 where "m2 = snd (la_seq_rm la m1 sq (- 1) (- 1))"
  define undone where "undone = fst (la_seq_rm la (mem t) sq (int (length old)) (- 1))"
  have o1: "only la sq (mem t) m1" unfolding m1_def by (rule remove_only [OF laws])
  have o2: "only la sq (mem t) m2" unfolding m2_def by (rule only_trans [OF o1 remove_only [OF laws]])
  have tm: "tn_model t' = (tn_model t)\<lparr>em_memory := if undone \<and> old \<noteq> [] then m1 else m2\<rparr>"
    "tn_seq t' = (if undone \<and> old \<noteq> [] then seq_of old else empty_seq)"
    using fail by (auto simp: t'_def rollback_def Let_def seq_rm_def case_prod_beta m1_def m2_def undone_def seq_of_def)
  have "only la sq (mem t) (if undone \<and> old \<noteq> [] then m1 else m2)" using o1 o2 by simp
  from model_ok_own [OF ok own this] only_kept_but [OF this]
  show "model_ok la (tn_model t')" "kept_but la sq (tn_model t) (tn_model t')" by (simp_all add: tm)
  show "rs_text (tn_response t') = None \<or> rs_cancelled (tn_response t')"
    using fail by (auto simp: t'_def rollback_def Let_def case_prod_beta)
  show "\<exists>xs. (xs = old \<or> xs = [] \<and> \<not> removes_parts la) \<and> holds la (mem t') sq xs \<and> tn_seq t' = seq_of xs"
  proof (cases "undone \<and> old \<noteq> []")
    case True
    then have "holds la m1 sq old" unfolding m1_def undone_def using remove_from [OF laws held] by blast
    then show ?thesis using True by (intro exI [of _ old]) (simp add: tm)
  next
    case False
    have "holds la m2 sq []" unfolding m2_def by (rule remove_all [OF laws])
    moreover have "undone" if "removes_parts la" using that by (simp add: removes_parts_def undone_def)
    moreover have "mem t' = m2" "tn_seq t' = seq_of []" using False by (auto simp: tm)
    ultimately show ?thesis using False by metis
  qed
qed

section \<open>The whole turn\<close>

lemma model_ok_stats [simp]: "model_ok la (md\<lparr>em_stats := st\<rparr>) = model_ok la md"
proof -
  have "entry_ok la (md\<lparr>em_stats := st\<rparr>) i = entry_ok la md i" for i
    by (simp add: entry_ok_def shared_seq_def split: option.split)
  then show ?thesis by (simp add: model_ok_def)
qed

lemma answered_stats [simp]:
  "answered la e sq close budget given xs (t\<lparr>tn_model := update_engine_stats n (tn_model t)\<rparr>) = answered la e sq close budget given xs t"
  by (simp add: answered_def update_engine_stats_def)

lemma kept_but_stats [simp]: "kept_but la sq md (md'\<lparr>em_stats := st\<rparr>) = kept_but la sq md md'"
  by (simp add: kept_but_def same_model_def)

lemma first_reset_spec:
  assumes laws: "llama_laws la" and ok: "model_ok la (tn_model t)" and own: "own_seq (tn_model t) sq"
    and t'_def: "t' = first_turn_reset la sq t"
  shows "model_ok la (tn_model t')" and "kept_but la sq (tn_model t) (tn_model t')" and "holds la (mem t') sq []"
    and "tn_seq t' = empty_seq"
proof -
  define m where "m = snd (la_seq_rm la (mem t) sq (- 1) (- 1))"
  have tm: "tn_model t' = (tn_model t)\<lparr>em_memory := m\<rparr>" "tn_seq t' = empty_seq"
    by (simp_all add: t'_def first_turn_reset_def seq_rm_fields m_def)
  have o: "only la sq (mem t) m" unfolding m_def by (rule remove_only [OF laws])
  show "model_ok la (tn_model t')" "kept_but la sq (tn_model t) (tn_model t')"
    using model_ok_own [OF ok own o] only_kept_but [OF o] by (simp_all add: tm)
  show "holds la (mem t') sq []" "tn_seq t' = empty_seq" using remove_all [OF laws] by (simp_all add: tm m_def)
qed

lemma kept_but_own: "kept_but la sq md md' \<Longrightarrow> own_seq md' s = own_seq md s"
  by (simp add: kept_but_def same_model_seqs)

lemma turn_limit_pos: "model_ok la md \<Longrightarrow> 0 < turn_limit md q"
  by (simp add: turn_limit_def Let_def model_ok_def)

text \<open>What precedes the prompt of the request: the old tokens, or those of the system prompt.\<close>

definition base_tokens :: "('v, 'm, 'f) llama \<Rightarrow> 'v \<Rightarrow> engine_request \<Rightarrow> int list \<Rightarrow> int list \<Rightarrow> bool" where
  "base_tokens la v q old xs \<longleftrightarrow>
     (if \<not> er_first_turn q then xs = old
      else if er_system q = [] then xs = []
      else la_tokenize la v (er_system q) True = Some xs \<and> xs \<noteq> [])"

lemma begin_turn_spec:
  assumes laws: "llama_laws la" and ok: "model_ok la (tn_model t)" and own: "own_seq (tn_model t) (er_sequence q)"
    and held: "holds la (mem t) (er_sequence q) old" and seq: "tn_seq t = seq_of old" and bt: "begin_turn la copied q t = (go, t')"
  defines "orig \<equiv> if er_first_turn q then [] else old"
  shows "model_ok la (tn_model t')" and "kept_but la (er_sequence q) (tn_model t) (tn_model t')"
    and "\<exists>zs. holds la (mem t') (er_sequence q) (orig @ zs)"
    and "go \<Longrightarrow> \<exists>ys. base_tokens la (em_vocab (tn_model t)) q old (orig @ ys) \<and> holds la (mem t') (er_sequence q) (orig @ ys) \<and>
      tn_seq t' = seq_of (orig @ ys)"
proof -
  define t1 where "t1 = first_turn_reset la (er_sequence q) t"
  note F = first_reset_spec [OF laws ok own t1_def]
  have vocab: "em_vocab (tn_model t1) = em_vocab (tn_model t)" using F(2) by (simp add: kept_but_def same_model_def)
  have own1: "own_seq (tn_model t1) (er_sequence q)" using kept_but_own [OF F(2)] own by simp
  have "model_ok la (tn_model t') \<and> kept_but la (er_sequence q) (tn_model t) (tn_model t') \<and>
    (\<exists>zs. holds la (mem t') (er_sequence q) (orig @ zs)) \<and>
    (go \<longrightarrow> (\<exists>ys. base_tokens la (em_vocab (tn_model t)) q old (orig @ ys) \<and> holds la (mem t') (er_sequence q) (orig @ ys) \<and>
      tn_seq t' = seq_of (orig @ ys)))"
  proof -
    consider "\<not> er_first_turn q" | "er_first_turn q" "er_system q = []" | "er_first_turn q" "er_system q \<noteq> []" by blast
    then show ?thesis
    proof cases
      case 1
      then have "t' = t" "orig = old" using bt by (simp_all add: begin_turn_def orig_def)
      then show ?thesis using ok held seq 1 by (auto simp: base_tokens_def intro!: exI [of _ "[]"])
    next
      case 2
      then have "t' = t1" "orig = []" using bt by (simp_all add: begin_turn_def t1_def orig_def)
      then show ?thesis using F 2 by (auto simp: base_tokens_def intro!: exI [of _ "[]"])
    next
      case 3
      then have st: "system_turn la copied (er_system q) (er_sequence q) t1 = (go, t')" and "orig = []"
        using bt by (simp_all add: begin_turn_def t1_def orig_def)
      note S = system_turn_spec [OF laws F(1) own1 F(3) st]
      show ?thesis using S kept_but_trans [OF F(2) S(2)] 3 vocab \<open>orig = []\<close> by (auto simp: base_tokens_def)
    qed
  qed
  then show "model_ok la (tn_model t')" and "kept_but la (er_sequence q) (tn_model t) (tn_model t')"
    and "\<exists>zs. holds la (mem t') (er_sequence q) (orig @ zs)"
    and "go \<Longrightarrow> \<exists>ys. base_tokens la (em_vocab (tn_model t)) q old (orig @ ys) \<and> holds la (mem t') (er_sequence q) (orig @ ys) \<and>
      tn_seq t' = seq_of (orig @ ys)" by auto
qed

text \<open>What a turn that succeeds has done.\<close>

definition turn_success ::
  "('v, 'm, 'f) llama \<Rightarrow> engine_env \<Rightarrow> engine_request \<Rightarrow> ('v, 'm) engine_model \<Rightarrow> int list \<Rightarrow> ('v, 'm) turn \<Rightarrow> bool" where
  "turn_success la e q md old t \<longleftrightarrow>
     (\<exists>base p. base_tokens la (em_vocab md) q old base \<and>
        la_tokenize la (em_vocab md) (er_prompt q) (base = []) = Some p \<and> p \<noteq> [] \<and>
        int (length (base @ p)) + turn_limit md q + (if er_close_turn q then 1 else 0) \<le> mc_n_ctx (em_config md) \<and>
        answered la e (er_sequence q) (er_close_turn q) (nat (turn_limit md q)) (length p) (base @ p) t)"

lemma run_turn_spec:
  assumes laws: "llama_laws la" and ok: "model_ok la (tn_model t)" and own: "own_seq (tn_model t) (er_sequence q)"
    and held: "holds la (mem t) (er_sequence q) old" and seq: "tn_seq t = seq_of old"
    and rt: "run_turn la e q (turn_limit (tn_model t) q) t = (code, t')"
  shows "model_ok la (tn_model t')" and "kept_but la (er_sequence q) (tn_model t) (tn_model t')"
    and "\<exists>zs. holds la (mem t') (er_sequence q) ((if er_first_turn q then [] else old) @ zs)"
    and "code = 0 \<Longrightarrow> turn_success la e q (tn_model t) old t'"
proof -
  obtain go t1 where b: "begin_turn la (en_copied e) q t = (go, t1)" by (rule prod.exhaust)
  define orig where "orig = (if er_first_turn q then [] else old)"
  note B = begin_turn_spec [OF laws ok own held seq b, folded orig_def]
  have own1: "own_seq (tn_model t1) (er_sequence q)" using kept_but_own [OF B(2)] own by simp
  have "model_ok la (tn_model t') \<and> kept_but la (er_sequence q) (tn_model t) (tn_model t') \<and>
    (\<exists>zs. holds la (mem t') (er_sequence q) (orig @ zs)) \<and> (code = 0 \<longrightarrow> turn_success la e q (tn_model t) old t')"
  proof (cases go)
    case False
    then have "code \<noteq> 0" "t' = t1" using rt b by (auto simp: run_turn_def)
    then show ?thesis using B by simp
  next
    case True
    then have pt: "prompt_turn la e (er_prompt q) (er_close_turn q) (er_sequence q) (turn_limit (tn_model t) q) t1 = (code, t')"
      using rt b by (simp add: run_turn_def)
    from B(4) [OF True] obtain ys where y: "base_tokens la (em_vocab (tn_model t)) q old (orig @ ys)"
      "holds la (mem t1) (er_sequence q) (orig @ ys)" "tn_seq t1 = seq_of (orig @ ys)" by blast
    have "0 \<le> turn_limit (tn_model t) q" using turn_limit_pos [OF ok, of q] by simp
    note P = prompt_turn_spec [OF laws y(2,3) this pt]
    note M = turn_only_model [OF P(1) B(1) own1]
    have "em_vocab (tn_model t1) = em_vocab (tn_model t)" "em_config (tn_model t1) = em_config (tn_model t)"
      using B(2) by (simp_all add: kept_but_def same_model_def)
    then have "code = 0 \<longrightarrow> turn_success la e q (tn_model t) old t'" unfolding turn_success_def using P(3) y(1) by metis
    moreover have "\<exists>zs. holds la (mem t') (er_sequence q) (orig @ zs)" using P(2) by auto
    ultimately show ?thesis using M kept_but_trans [OF B(2) M(2)] by simp
  qed
  then show "model_ok la (tn_model t')" and "kept_but la (er_sequence q) (tn_model t) (tn_model t')"
    and "\<exists>zs. holds la (mem t') (er_sequence q) ((if er_first_turn q then [] else old) @ zs)"
    and "code = 0 \<Longrightarrow> turn_success la e q (tn_model t) old t'" unfolding orig_def by auto
qed

lemma engine_turn_spec:
  assumes laws: "llama_laws la" and ok: "model_ok la md" and own: "own_seq md (er_sequence q)"
    and held: "holds la (em_memory md) (er_sequence q) old" and turn: "engine_turn la e q md (seq_of old) = (code, t')"
  shows "model_ok la (tn_model t')" and "kept_but la (er_sequence q) md (tn_model t')"
    and "code = 0 \<Longrightarrow> turn_success la e q md old t'"
    and "code \<noteq> 0 \<Longrightarrow> (rs_text (tn_response t') = None \<or> rs_cancelled (tn_response t')) \<and>
      (\<exists>xs. holds la (mem t') (er_sequence q) xs \<and> tn_seq t' = seq_of xs \<and>
        (xs = old \<or> xs = [] \<and> (er_first_turn q \<or> \<not> removes_parts la)))"
proof -
  define t0 where "t0 = \<lparr>tn_model = md, tn_seq = seq_of old, tn_response = empty_response\<lparr>rs_seq_id := er_sequence q\<rparr>, tn_cancel = en_cancel e\<rparr>"
  obtain stop t1 where a: "ask_turn t0 = (stop, t1)" by (rule prod.exhaust)
  have t1: "tn_model t1 = md" "tn_seq t1 = seq_of old" using a by (auto simp: ask_turn_def t0_def)
  have "model_ok la (tn_model t') \<and> kept_but la (er_sequence q) md (tn_model t') \<and>
    (code = 0 \<longrightarrow> turn_success la e q md old t') \<and>
    (code \<noteq> 0 \<longrightarrow> (rs_text (tn_response t') = None \<or> rs_cancelled (tn_response t')) \<and>
      (\<exists>xs. holds la (mem t') (er_sequence q) xs \<and> tn_seq t' = seq_of xs \<and>
        (xs = old \<or> xs = [] \<and> (er_first_turn q \<or> \<not> removes_parts la))))"
  proof (cases stop)
    case True
    then have "code = - 2" "t' = set_cancelled True t1" using turn a by (simp_all add: engine_turn_def t0_def)
    then show ?thesis using ok held t1 by auto
  next
    case False
    define orig where "orig = (if er_first_turn q then [] else old)"
    obtain c t2 where r: "run_turn la e q (turn_limit md q) t1 = (c, t2)" by (rule prod.exhaust)
    define t3 where "t3 = rollback la (er_sequence q) (seq_of orig) c t2"
    have res: "code = c" "t' = (if c = 0 then t3\<lparr>tn_model := update_engine_stats (rs_tokens_generated (tn_response t3)) (tn_model t3)\<rparr> else t3)"
      using turn a False r by (auto simp: engine_turn_def t0_def [symmetric] t3_def orig_def Let_def)
    have pre: "model_ok la (tn_model t1)" "own_seq (tn_model t1) (er_sequence q)" "holds la (mem t1) (er_sequence q) old"
      using ok own held t1 by simp_all
    note R = run_turn_spec [OF laws pre t1(2) r [folded t1(1)], folded orig_def, unfolded t1(1)]
    show ?thesis
    proof (cases "c = 0")
      case True
      then have t': "t' = t2\<lparr>tn_model := update_engine_stats (rs_tokens_generated (tn_response t2)) (tn_model t2)\<rparr>"
        using res by (simp add: t3_def rollback_def)
      have "model_ok la (tn_model t')" "kept_but la (er_sequence q) md (tn_model t')" using R by (simp_all add: t' update_engine_stats_def)
      moreover have "turn_success la e q md old t'" using R(4) [OF True] by (simp add: t' turn_success_def)
      ultimately show ?thesis using True res(1) by simp
    next
      case False
      from R(3) obtain zs where zs: "holds la (mem t2) (er_sequence q) (orig @ zs)" by blast
      have own2: "own_seq (tn_model t2) (er_sequence q)" using kept_but_own [OF R(2)] own by simp
      note K = rollback_spec [OF laws R(1) own2 zs False t3_def]
      have "t' = t3" using res False by simp
      then show ?thesis using K kept_but_trans [OF R(2) K(2)] False res(1) by (auto simp: orig_def split: if_splits)
    qed
  qed
  then show "model_ok la (tn_model t')" and "kept_but la (er_sequence q) md (tn_model t')"
    and "code = 0 \<Longrightarrow> turn_success la e q md old t'"
    and "code \<noteq> 0 \<Longrightarrow> (rs_text (tn_response t') = None \<or> rs_cancelled (tn_response t')) \<and>
      (\<exists>xs. holds la (mem t') (er_sequence q) xs \<and> tn_seq t' = seq_of xs \<and>
        (xs = old \<or> xs = [] \<and> (er_first_turn q \<or> \<not> removes_parts la)))" by blast+
qed

end
