(* ===== verification/Engine_Manager.thy ===== *)
theory Engine_Manager
  imports Engine
begin

text \<open>
  The table of models behind \<^verbatim>\<open>llm.h\<close>, as \<^verbatim>\<open>agent_runtime_top/src/llm_llamacpp.c\<close> keeps it: loading and unloading,
  sessions, and the entry points that find the model, check the sequence and work on it. A slot whose
  model is not in use is \<open>None\<close>. The two locks make every operation on one model atomic.
\<close>

section \<open>State\<close>

definition MAX_MODELS :: nat where "MAX_MODELS = 4"
definition MAX_SESSIONS :: nat where "MAX_SESSIONS = 64"

datatype llm_backend = Backend_llama_cpp | Backend_vllm | Backend_ollama | Backend_max

record llm_session =
  ls_id :: u64
  ls_model :: u64
  ls_used :: bool

record ('v, 'm) llm_manager =
  lm_models :: "('v, 'm) engine_model option list"
  lm_sessions :: "llm_session list"
  lm_seqs :: "seq_state list list"
  lm_model_count :: u32
  lm_session_count :: u32
  lm_next_model :: u64
  lm_next_session :: u64
  lm_initialized :: bool

definition zero_llm_manager :: "('v, 'm) llm_manager" where
  "zero_llm_manager = \<lparr>lm_models = replicate MAX_MODELS None,
     lm_sessions = replicate MAX_SESSIONS \<lparr>ls_id = 0, ls_model = 0, ls_used = False\<rparr>,
     lm_seqs = replicate MAX_MODELS (replicate MAX_SEQ_PER_MODEL empty_seq), lm_model_count = 0, lm_session_count = 0,
     lm_next_model = 0, lm_next_session = 0, lm_initialized = False\<rparr>"

text \<open>The index of the model; \<^verbatim>\<open>model_index\<close> recovers it from the address.\<close>

definition find_model :: "u64 \<Rightarrow> ('v, 'm) llm_manager \<Rightarrow> nat option" where
  "find_model i m = find (\<lambda>k. case lm_models m ! k of None \<Rightarrow> False | Some md \<Rightarrow> em_id md = i) [0..<MAX_MODELS]"

definition model_at :: "('v, 'm) llm_manager \<Rightarrow> nat \<Rightarrow> ('v, 'm) engine_model" where
  "model_at m k = the (lm_models m ! k)"

definition set_model :: "nat \<Rightarrow> ('v, 'm) engine_model \<Rightarrow> ('v, 'm) llm_manager \<Rightarrow> ('v, 'm) llm_manager" where
  "set_model k md m = m\<lparr>lm_models := (lm_models m)[k := Some md]\<rparr>"

section \<open>The manager\<close>

definition llm_manager_init :: "bool \<Rightarrow> ('v, 'm) llm_manager \<Rightarrow> int \<times> ('v, 'm) llm_manager" where
  "llm_manager_init mutex m =
     (if lm_initialized m then (- 1, m)
      else if \<not> mutex then (- 1, zero_llm_manager)
      else (0, zero_llm_manager\<lparr>lm_next_model := 1, lm_next_session := 1, lm_initialized := True\<rparr>))"

text \<open>\<open>0.7f\<close> and \<open>0.9f\<close> are the nearest values of the format.\<close>

definition default_temperature :: cfloat where "default_temperature = Finite (11744051 / 16777216)"
definition default_top_p :: cfloat where "default_top_p = Finite (15099494 / 16777216)"

definition completed_config :: "model_config \<Rightarrow> model_config" where
  "completed_config c =
     c\<lparr>mc_n_ctx := if mc_n_ctx c \<le> 0 then 4096 else mc_n_ctx c,
       mc_n_batch := if mc_n_batch c \<le> 0 then 512 else mc_n_batch c,
       mc_n_seq_max := if mc_n_seq_max c \<le> int MAX_SHARED_SYS + 1 then 32 else mc_n_seq_max c,
       mc_n_threads := if mc_n_threads c \<le> 0 then 4 else mc_n_threads c,
       mc_max_tokens := if mc_max_tokens c \<le> 0 then 256 else mc_max_tokens c,
       mc_temperature := if float_less_eq (mc_temperature c) (Finite 0) then default_temperature else mc_temperature c,
       mc_top_p := if float_less_eq (mc_top_p c) (Finite 0) \<or> float_less (Finite 1) (mc_top_p c) then default_top_p else mc_top_p c\<rparr>"

definition new_engine_model :: "u64 \<Rightarrow> model_config \<Rightarrow> 'v \<Rightarrow> 'm \<Rightarrow> ('v, 'm) engine_model" where
  "new_engine_model i c v mem =
     \<lparr>em_id = i, em_config = c, em_vocab = v, em_memory = mem,
      em_stats = \<lparr>et_total_requests = 0, et_total_tokens = 0, et_prefix_evictions = 0\<rparr>,
      em_shared = replicate MAX_SHARED_SYS empty_shared, em_shared_count = 0, em_clock = 0\<rparr>"

definition llm_load_model ::
  "('v, 'm, 'f) llama \<Rightarrow> bool \<Rightarrow> llm_backend \<Rightarrow> model_config \<Rightarrow> ('v, 'm) llm_manager \<Rightarrow> u64 option \<times> ('v, 'm) llm_manager" where
  "llm_load_model la mutex backend config m =
     (if \<not> lm_initialized m \<or> backend \<noteq> Backend_llama_cpp then (None, m)
      else case find (\<lambda>k. Option.is_none (lm_models m ! k)) [0..<MAX_MODELS] of
        None \<Rightarrow> (None, m)
      | Some k \<Rightarrow>
          let i = lm_next_model m; m = m\<lparr>lm_next_model := i + 1\<rparr>; c = completed_config config
          in if mc_n_seq_max c > int MAX_SEQ_PER_MODEL \<or> \<not> mutex then (None, m)
             else case la_load la c of
               None \<Rightarrow> (None, m)
             | Some (v, mem) \<Rightarrow>
                 (Some i, (set_model k (new_engine_model i c v mem) m)
                    \<lparr>lm_seqs := (lm_seqs m)[k := replicate MAX_SEQ_PER_MODEL empty_seq], lm_model_count := lm_model_count m + 1\<rparr>))"

definition llm_unload_model :: "u64 \<Rightarrow> ('v, 'm) llm_manager \<Rightarrow> ('v, 'm) llm_manager" where
  "llm_unload_model i m =
     (if \<not> lm_initialized m then m
      else case find_model i m of
        None \<Rightarrow> m
      | Some k \<Rightarrow> m\<lparr>lm_models := (lm_models m)[k := None], lm_model_count := lm_model_count m - 1\<rparr>)"

definition llm_manager_destroy :: "('v, 'm) llm_manager \<Rightarrow> ('v, 'm) llm_manager" where
  "llm_manager_destroy m = (if \<not> lm_initialized m then m else zero_llm_manager)"

definition llm_create_session :: "u64 \<Rightarrow> ('v, 'm) llm_manager \<Rightarrow> u64 option \<times> ('v, 'm) llm_manager" where
  "llm_create_session i m =
     (if \<not> lm_initialized m \<or> Option.is_none (find_model i m) then (None, m)
      else case find (\<lambda>k. \<not> ls_used (lm_sessions m ! k)) [0..<MAX_SESSIONS] of
        None \<Rightarrow> (None, m)
      | Some k \<Rightarrow>
          (Some (lm_next_session m),
           m\<lparr>lm_sessions := (lm_sessions m)[k := \<lparr>ls_id = lm_next_session m, ls_model = i, ls_used = True\<rparr>],
             lm_next_session := lm_next_session m + 1, lm_session_count := lm_session_count m + 1\<rparr>))"

definition llm_destroy_session :: "u64 \<Rightarrow> ('v, 'm) llm_manager \<Rightarrow> ('v, 'm) llm_manager" where
  "llm_destroy_session s m =
     (if \<not> lm_initialized m then m
      else case find (\<lambda>k. ls_used (lm_sessions m ! k) \<and> ls_id (lm_sessions m ! k) = s) [0..<MAX_SESSIONS] of
        None \<Rightarrow> m
      | Some k \<Rightarrow> m\<lparr>lm_sessions := (lm_sessions m)[k := (lm_sessions m ! k)\<lparr>ls_used := False\<rparr>],
                     lm_session_count := lm_session_count m - 1\<rparr>)"

section \<open>Work on a model\<close>

definition own_sequence :: "('v, 'm) engine_model \<Rightarrow> int \<Rightarrow> bool" where
  "own_sequence md sq \<longleftrightarrow> \<not> (sq \<le> 0 \<or> sq \<ge> private_seq_limit md)"

text \<open>The model and its sequences after an operation.\<close>

definition put_model ::
  "nat \<Rightarrow> ('v, 'm) engine_model \<times> seq_state list \<Rightarrow> ('v, 'm) llm_manager \<Rightarrow> ('v, 'm) llm_manager" where
  "put_model k x m = (set_model k (fst x) m)\<lparr>lm_seqs := (lm_seqs m)[k := snd x]\<rparr>"

text \<open>The response is left as it was when the manager is not initialized.\<close>

definition llm_inference ::
  "('v, 'm, 'f) llama \<Rightarrow> engine_env \<Rightarrow> u64 \<Rightarrow> engine_request \<Rightarrow> ('v, 'm) llm_manager \<Rightarrow>
   (int \<times> engine_response option) \<times> ('v, 'm) llm_manager" where
  "llm_inference la e i q m =
     (if \<not> lm_initialized m then ((- 1, None), m)
      else case find_model i m of
        None \<Rightarrow> ((- 1, Some empty_response), m)
      | Some k \<Rightarrow>
          if \<not> own_sequence (model_at m k) (er_sequence q) then ((- 1, Some empty_response), m)
          else case engine_request_turn la e q (model_at m k) (lm_seqs m ! k) of
            ((code, r), x) \<Rightarrow> ((code, Some r), put_model k x m))"

definition llm_apply_chat_template ::
  "('v, 'm, 'f) llama \<Rightarrow> bool \<Rightarrow> u64 \<Rightarrow> chat \<Rightarrow> bool \<Rightarrow> ('v, 'm) llm_manager \<Rightarrow> int \<times> string option" where
  "llm_apply_chat_template la allocated i messages add_assistant m =
     (if messages = [] \<or> \<not> lm_initialized m then (- 1, None)
      else case find_model i m of
        None \<Rightarrow> (- 1, None)
      | Some k \<Rightarrow>
          (case la_template la (em_vocab (model_at m k)) of
             None \<Rightarrow> (- 2, None)
           | Some template \<Rightarrow>
               if \<not> allocated then (- 1, None)
               else case la_apply la template messages add_assistant of None \<Rightarrow> (- 1, None) | Some s \<Rightarrow> (0, Some s)))"

definition llm_warmup_shared_kv_with_cancel ::
  "('v, 'm, 'f) llama \<Rightarrow> bool \<Rightarrow> u64 \<Rightarrow> string \<Rightarrow> bool list \<Rightarrow> ('v, 'm) llm_manager \<Rightarrow> int \<times> ('v, 'm) llm_manager" where
  "llm_warmup_shared_kv_with_cancel la copied i prompt cancel m =
     (if prompt = [] \<or> \<not> lm_initialized m then (- 1, m)
      else if fst (ask cancel) then (- 2, m)
      else case find_model i m of
        None \<Rightarrow> (- 1, m)
      | Some k \<Rightarrow>
          (case warmup_turn la copied prompt (snd (ask cancel)) (model_at m k) of (r, md) \<Rightarrow> (r, set_model k md m)))"

definition llm_warmup_shared_kv ::
  "('v, 'm, 'f) llama \<Rightarrow> bool \<Rightarrow> u64 \<Rightarrow> string \<Rightarrow> ('v, 'm) llm_manager \<Rightarrow> int \<times> ('v, 'm) llm_manager" where
  "llm_warmup_shared_kv la copied i prompt m = llm_warmup_shared_kv_with_cancel la copied i prompt [] m"

definition llm_get_shared_kv_stats :: "('v, 'm) llm_manager \<Rightarrow> int \<times> int" where
  "llm_get_shared_kv_stats m =
     (if \<not> lm_initialized m then (0, 0)
      else fold (\<lambda>x (shares, saved). case x of
               None \<Rightarrow> (shares, saved)
             | Some md \<Rightarrow> fold (\<lambda>h (shares, saved). if sh_prompt_text h = None then (shares, saved)
                   else (shares + sh_share_count h, saved + sh_saved_tokens h)) (em_shared md) (shares, saved))
             (lm_models m) (0, 0))"

definition llm_clear_seq ::
  "('v, 'm, 'f) llama \<Rightarrow> u64 \<Rightarrow> int \<Rightarrow> ('v, 'm) llm_manager \<Rightarrow> ('v, 'm) llm_manager" where
  "llm_clear_seq la i sq m =
     (if \<not> lm_initialized m then m
      else case find_model i m of
        None \<Rightarrow> m
      | Some k \<Rightarrow>
          if \<not> own_sequence (model_at m k) sq then m
          else put_model k (clear_private la sq (model_at m k) (lm_seqs m ! k)) m)"

text \<open>What is written to the file, the position and the number of bytes.\<close>

definition llm_checkpoint_seq ::
  "('v, 'm, 'f) llama \<Rightarrow> u64 \<Rightarrow> int \<Rightarrow> ('v, 'm) llm_manager \<Rightarrow> ('f \<times> int \<times> u64) option" where
  "llm_checkpoint_seq la i sq m =
     (if \<not> lm_initialized m then None
      else case find_model i m of
        None \<Rightarrow> None
      | Some k \<Rightarrow>
          if \<not> own_sequence (model_at m k) sq then None else checkpoint_private la sq (model_at m k) (lm_seqs m ! k))"

text \<open>The result with the number of bytes read.\<close>

definition llm_restore_seq ::
  "('v, 'm, 'f) llama \<Rightarrow> u64 \<Rightarrow> int \<Rightarrow> 'f \<Rightarrow> int \<Rightarrow> ('v, 'm) llm_manager \<Rightarrow> (int \<times> u64) \<times> ('v, 'm) llm_manager" where
  "llm_restore_seq la i sq f position m =
     (if position \<le> 0 \<or> \<not> lm_initialized m then ((- 1, 0), m)
      else case find_model i m of
        None \<Rightarrow> ((- 1, 0), m)
      | Some k \<Rightarrow>
          if \<not> own_sequence (model_at m k) sq then ((- 1, 0), m)
          else case restore_private la sq f position (model_at m k) (lm_seqs m ! k) of (r, x) \<Rightarrow> (r, put_model k x m))"

definition llm_get_stats :: "u64 \<Rightarrow> ('v, 'm) llm_manager \<Rightarrow> engine_stats option" where
  "llm_get_stats i m =
     (if \<not> lm_initialized m then None
      else case find_model i m of None \<Rightarrow> None | Some k \<Rightarrow> Some (em_stats (model_at m k)))"

text \<open>\<^verbatim>\<open>snprintf\<close> into a buffer of \<open>room\<close> bytes, one of them for the end.\<close>

definition llm_get_model_info :: "nat \<Rightarrow> u64 \<Rightarrow> ('v, 'm) llm_manager \<Rightarrow> string option" where
  "llm_get_model_info room i m =
     (if room = 0 \<or> \<not> lm_initialized m then None
      else case find_model i m of
        None \<Rightarrow> None
      | Some k \<Rightarrow>
          let md = model_at m k; c = em_config md
          in Some (take (room - 1)
               (''model_id='' @ nat_to_string (unat (em_id md)) @ [newline] @ ''path='' @ mc_model_path c @ [newline] @
                ''context='' @ int_to_string (mc_n_ctx c) @ [newline] @ ''batch='' @ int_to_string (mc_n_batch c) @ [newline] @
                ''threads='' @ int_to_string (mc_n_threads c) @ [newline] @
                ''sequences='' @ int_to_string (private_seq_limit md - 1) @ [newline] @
                ''shared_prefixes='' @ int_to_string (em_shared_count md) @ [newline] @
                ''requests='' @ nat_to_string (unat (et_total_requests (em_stats md))) @ [newline] @
                ''tokens='' @ nat_to_string (unat (et_total_tokens (em_stats md))))))"

end
