(* ===== verification/Engine_Steps.thy ===== *)
theory Engine_Steps
  imports Engine_Inv Engine_Manager
begin

text \<open>
  Runs of the engine: any sequence of calls to \<^verbatim>\<open>llm.h\<close>, whichever of them fail. The invariant of
  \<^verbatim>\<open>Engine_Inv\<close> holds for every model that is loaded; what a turn does is stated for every state that
  can be reached.
\<close>

section \<open>The state of all models\<close>

lemma own_sequence_iff [simp]: "own_sequence md s = own_seq md s"
  by (auto simp: own_sequence_def own_seq_def)

definition seqs_ok :: "('v, 'm, 'f) llama \<Rightarrow> ('v, 'm) engine_model \<Rightarrow> seq_state list \<Rightarrow> bool" where
  "seqs_ok la md sts \<longleftrightarrow> (\<forall>s. own_seq md s \<longrightarrow> (\<exists>xs. holds la (em_memory md) s xs \<and> sts ! nat s = seq_of xs))"

definition manager_ok :: "('v, 'm, 'f) llama \<Rightarrow> ('v, 'm) llm_manager \<Rightarrow> bool" where
  "manager_ok la m \<longleftrightarrow>
     length (lm_models m) = MAX_MODELS \<and> length (lm_seqs m) = MAX_MODELS \<and>
     (\<forall>k < MAX_MODELS. length (lm_seqs m ! k) = MAX_SEQ_PER_MODEL) \<and>
     (\<forall>k < MAX_MODELS. \<forall>md. lm_models m ! k = Some md \<longrightarrow> model_ok la md \<and> seqs_ok la md (lm_seqs m ! k))"

lemma manager_okD:
  assumes "manager_ok la m"
  shows "length (lm_models m) = MAX_MODELS" and "length (lm_seqs m) = MAX_MODELS"
    and "\<And>k. k < MAX_MODELS \<Longrightarrow> length (lm_seqs m ! k) = MAX_SEQ_PER_MODEL"
    and "\<And>k md. k < MAX_MODELS \<Longrightarrow> lm_models m ! k = Some md \<Longrightarrow> model_ok la md"
    and "\<And>k md. k < MAX_MODELS \<Longrightarrow> lm_models m ! k = Some md \<Longrightarrow> seqs_ok la md (lm_seqs m ! k)"
  using assms by (simp_all add: manager_ok_def)

lemma find_model_some:
  "find_model i m = Some k \<Longrightarrow> k < MAX_MODELS \<and> lm_models m ! k = Some (model_at m k) \<and> em_id (model_at m k) = i"
  by (auto simp: find_model_def find_Some_iff model_at_def split: option.splits)

lemma own_seq_less:
  assumes "model_ok la md" and "own_seq md s"
  shows "nat s < MAX_SEQ_PER_MODEL"
  using assms by (simp add: model_ok_def own_seq_def private_seq_limit_def MAX_SHARED_SYS_def MAX_SEQ_PER_MODEL_def nat_less_iff)

lemma nat_seq: "own_seq md s \<Longrightarrow> own_seq md s' \<Longrightarrow> nat s = nat s' \<longleftrightarrow> s = s'"
  by (auto simp: own_seq_def)

text \<open>One sequence has got a new content, and the rest is as it was.\<close>

lemma seqs_ok_update:
  assumes ok: "model_ok la md" and sts: "seqs_ok la md sts" and len: "length sts = MAX_SEQ_PER_MODEL" and own: "own_seq md sq"
    and kept: "kept_but la sq md md'" and held: "holds la (em_memory md') sq xs"
  shows "seqs_ok la md' (sts[nat sq := seq_of xs])"
  unfolding seqs_ok_def
proof (intro allI impI)
  fix s
  assume "own_seq md' s"
  then have s: "own_seq md s" using kept_but_own [OF kept] by simp
  show "\<exists>ys. holds la (em_memory md') s ys \<and> sts[nat sq := seq_of xs] ! nat s = seq_of ys"
  proof (cases "s = sq")
    case True
    then show ?thesis using held own_seq_less [OF ok own] len by auto
  next
    case False
    then have "la_cells la (em_memory md') s = la_cells la (em_memory md) s" "nat s \<noteq> nat sq"
      using kept s nat_seq [OF s own] by (simp_all add: kept_but_def)
    then show ?thesis using sts s by (simp add: seqs_ok_def holds_def)
  qed
qed

lemma put_model_fields:
  "lm_models (put_model k x m) = (lm_models m)[k := Some (fst x)]" "lm_seqs (put_model k x m) = (lm_seqs m)[k := snd x]"
  "lm_initialized (put_model k x m) = lm_initialized m"
  by (simp_all add: put_model_def set_model_def)

lemma manager_ok_put:
  assumes "manager_ok la m" and "k < MAX_MODELS" and "model_ok la (fst x)" and "seqs_ok la (fst x) (snd x)"
    and "length (snd x) = MAX_SEQ_PER_MODEL"
  shows "manager_ok la (put_model k x m)"
  using assms by (auto simp: manager_ok_def put_model_fields nth_list_update split: if_splits)

text \<open>The shape of every call that works on one private sequence.\<close>

lemma manager_ok_seq:
  assumes ok: "manager_ok la m" and f: "find_model i m = Some k" and own: "own_seq (model_at m k) sq"
    and md': "model_ok la md'" "kept_but la sq (model_at m k) md'" "holds la (em_memory md') sq xs"
  shows "manager_ok la (put_model k (md', (lm_seqs m ! k)[nat sq := seq_of xs]) m)"
proof -
  from find_model_some [OF f] have k: "k < MAX_MODELS" "lm_models m ! k = Some (model_at m k)" by auto
  show ?thesis
    by (rule manager_ok_put [OF ok k(1)])
      (use md' seqs_ok_update [OF manager_okD(4) [OF ok k] manager_okD(5) [OF ok k] manager_okD(3) [OF ok k(1)] own]
          manager_okD(3) [OF ok k(1)] in simp_all)
qed

section \<open>Every call keeps it\<close>

lemma zero_manager_ok [simp]: "manager_ok la zero_llm_manager"
  by (simp add: manager_ok_def zero_llm_manager_def)

lemma new_model_ok:
  assumes laws: "llama_laws la" and c: "c = completed_config config" "mc_n_seq_max c \<le> int MAX_SEQ_PER_MODEL"
    and l: "la_load la c = Some (v, fresh)"
  shows "model_ok la (new_engine_model i c v fresh)"
    and "seqs_ok la (new_engine_model i c v fresh) (replicate MAX_SEQ_PER_MODEL empty_seq)"
proof -
  have config: "int MAX_SHARED_SYS + 1 < mc_n_seq_max c" "0 < mc_n_batch c" "0 < mc_n_ctx c" "0 < mc_max_tokens c"
    by (simp_all add: c completed_config_def MAX_SHARED_SYS_def)
  show ok: "model_ok la (new_engine_model i c v fresh)"
    using config c(2) by (auto simp: model_ok_def new_engine_model_def entry_ok_def used_def empty_shared_def inj_on_def)
  have "la_cells la fresh s = []" for s using laws l by (auto simp: llama_laws_def load_laws_def)
  then have "holds la (em_memory (new_engine_model i c v fresh)) s []" for s by (simp add: holds_def new_engine_model_def)
  then show "seqs_ok la (new_engine_model i c v fresh) (replicate MAX_SEQ_PER_MODEL empty_seq)"
    unfolding seqs_ok_def using own_seq_less [OF ok] by (auto intro!: exI [of _ "[]"])
qed

lemma load_ok:
  assumes laws: "llama_laws la" and ok: "manager_ok la m" and l: "llm_load_model la mutex backend config m = (r, m')"
  shows "manager_ok la m'"
proof (cases "\<exists>k c v fresh. r = Some (lm_next_model m) \<and> k < MAX_MODELS \<and> c = completed_config config \<and>
    mc_n_seq_max c \<le> int MAX_SEQ_PER_MODEL \<and> la_load la c = Some (v, fresh) \<and>
    m' = put_model k (new_engine_model (lm_next_model m) c v fresh, replicate MAX_SEQ_PER_MODEL empty_seq)
      (m\<lparr>lm_next_model := lm_next_model m + 1, lm_model_count := lm_model_count m + 1\<rparr>)")
  case True
  then obtain k c v fresh where h: "k < MAX_MODELS" "c = completed_config config" "mc_n_seq_max c \<le> int MAX_SEQ_PER_MODEL"
    "la_load la c = Some (v, fresh)" and m': "m' = put_model k (new_engine_model (lm_next_model m) c v fresh,
      replicate MAX_SEQ_PER_MODEL empty_seq) (m\<lparr>lm_next_model := lm_next_model m + 1, lm_model_count := lm_model_count m + 1\<rparr>)"
    by blast
  have "manager_ok la (m\<lparr>lm_next_model := lm_next_model m + 1, lm_model_count := lm_model_count m + 1\<rparr>)"
    using ok by (simp add: manager_ok_def)
  then show ?thesis unfolding m' by (rule manager_ok_put [OF _ h(1)]) (use new_model_ok [OF laws h(2,3,4)] in simp_all)
next
  case False
  then have "m' = m \<or> m' = m\<lparr>lm_next_model := lm_next_model m + 1\<rparr>"
    using l by (auto simp: llm_load_model_def Let_def put_model_def set_model_def find_Some_iff split: option.splits prod.splits if_splits)
  then show ?thesis using ok by (auto simp: manager_ok_def)
qed

lemma unload_ok: "manager_ok la m \<Longrightarrow> manager_ok la (llm_unload_model i m)"
  by (auto simp: llm_unload_model_def manager_ok_def nth_list_update dest: find_model_some split: option.splits if_splits)

lemma session_ok:
  "manager_ok la m \<Longrightarrow> manager_ok la (snd (llm_create_session i m))" "manager_ok la m \<Longrightarrow> manager_ok la (llm_destroy_session j m)"
  by (auto simp: llm_create_session_def llm_destroy_session_def manager_ok_def split: option.splits)

text \<open>Where an answered request finds its model and its sequence.\<close>

definition reaches_model :: "u64 \<Rightarrow> int \<Rightarrow> ('v, 'm) llm_manager \<Rightarrow> nat \<Rightarrow> bool" where
  "reaches_model i sq m k \<longleftrightarrow> lm_initialized m \<and> find_model i m = Some k \<and> own_seq (model_at m k) sq"

lemma inference_cases:
  assumes ok: "manager_ok la m" and inf: "llm_inference la e i q m = ((code, r), m')"
  obtains (refused) "code = - 1" "m' = m" "r = None \<or> r = Some empty_response"
    | (turn) k old t where "reaches_model i (er_sequence q) m k" "k < MAX_MODELS" "model_ok la (model_at m k)"
      "holds la (em_memory (model_at m k)) (er_sequence q) old" "lm_seqs m ! k ! nat (er_sequence q) = seq_of old"
      "engine_turn la e q (model_at m k) (seq_of old) = (code, t)" "r = Some (tn_response t)"
      "m' = put_model k (tn_model t, (lm_seqs m ! k)[nat (er_sequence q) := tn_seq t]) m"
proof (cases "\<exists>k. reaches_model i (er_sequence q) m k")
  case True
  then obtain k where k: "reaches_model i (er_sequence q) m k" by blast
  then have f: "k < MAX_MODELS" "lm_models m ! k = Some (model_at m k)" using find_model_some by (auto simp: reaches_model_def)
  note d = manager_okD(4,5) [OF ok f]
  from d(2) k obtain old where old: "holds la (em_memory (model_at m k)) (er_sequence q) old"
    "lm_seqs m ! k ! nat (er_sequence q) = seq_of old" by (auto simp: seqs_ok_def reaches_model_def)
  obtain c t where t: "engine_turn la e q (model_at m k) (seq_of old) = (c, t)" by (rule prod.exhaust)
  have "code = c" "r = Some (tn_response t)" "m' = put_model k (tn_model t, (lm_seqs m ! k)[nat (er_sequence q) := tn_seq t]) m"
    using inf k old t by (auto simp: llm_inference_def reaches_model_def engine_request_turn_def)
  then show thesis using turn k f(1) d(1) old t by blast
next
  case False
  then show thesis using inf refused by (auto simp: llm_inference_def reaches_model_def split: option.splits if_splits)
qed

text \<open>The content of the sequence after a turn, and that the turn keeps everything else.\<close>

lemma turn_content:
  assumes laws: "llama_laws la" and ok: "model_ok la md" and own: "own_seq md (er_sequence q)"
    and held: "holds la (em_memory md) (er_sequence q) old" and turn: "engine_turn la e q md (seq_of old) = (code, t)"
  obtains xs where "model_ok la (tn_model t)" "kept_but la (er_sequence q) md (tn_model t)" "holds la (mem t) (er_sequence q) xs"
    "tn_seq t = seq_of xs"
proof -
  note T = engine_turn_spec [OF laws ok own held turn]
  have "\<exists>xs. holds la (mem t) (er_sequence q) xs \<and> tn_seq t = seq_of xs"
  proof (cases "code = 0")
    case True
    from T(3) [OF True] obtain base p n b where a: "p \<noteq> []"
      "holds la (mem t) (er_sequence q) ((base @ p) @ map (en_samples e) [0..<n] @ b)"
      "tn_seq t = \<lparr>sq_current_pos = int (length (base @ p) + n + length b), sq_in_use = True\<rparr>"
      unfolding turn_success_def answered_def by blast
    then have "tn_seq t = seq_of ((base @ p) @ map (en_samples e) [0..<n] @ b)" by (simp add: seq_of_def)
    with a(2) show ?thesis by blast
  next
    case False
    then show ?thesis using T(4) by blast
  qed
  with T(1,2) that show thesis by blast
qed

lemma inference_ok:
  assumes laws: "llama_laws la" and ok: "manager_ok la m" and inf: "llm_inference la e i q m = ((code, r), m')"
  shows "manager_ok la m'"
  using ok inf
proof (cases rule: inference_cases)
  case (turn k old t)
  have own: "own_seq (model_at m k) (er_sequence q)" "find_model i m = Some k" using turn(1) by (simp_all add: reaches_model_def)
  from turn_content [OF laws turn(3) own(1) turn(4,6)] obtain xs where xs: "model_ok la (tn_model t)"
    "kept_but la (er_sequence q) (model_at m k) (tn_model t)" "holds la (mem t) (er_sequence q) xs" "tn_seq t = seq_of xs" by blast
  show ?thesis using manager_ok_seq [OF ok own(2,1) xs(1,2,3)] by (simp add: turn(8) xs(4))
qed (use ok in simp)

lemma seqs_ok_kept: "seqs_ok la md sts \<Longrightarrow> own_kept la md md' \<Longrightarrow> seqs_ok la md' sts"
  unfolding seqs_ok_def own_kept_def holds_def using same_model_seqs(1) [of md md'] by auto

lemma set_model_put: "k < length (lm_seqs m) \<Longrightarrow> set_model k md m = put_model k (md, lm_seqs m ! k) m"
  by (simp add: put_model_def set_model_def)

lemma warmup_turn_spec:
  assumes laws: "llama_laws la" and ok: "model_ok la md" and w: "warmup_turn la copied prompt cancel md = (r, md')"
  shows "model_ok la md'" and "own_kept la md md'"
proof -
  obtain f md1 where f: "(case find_shared_sys md prompt of Some i \<Rightarrow> (Some i, md) | None \<Rightarrow> cache_system_prefix la copied prompt md) = (f, md1)"
    by (rule prod.exhaust)
  have md1: "model_ok la md1 \<and> own_kept la md md1 \<and> (\<forall>i. f = Some i \<longrightarrow> i < MAX_SHARED_SYS)"
  proof (cases "find_shared_sys md prompt")
    case None
    then show ?thesis using cache_prefix_spec [OF laws ok None, of copied f md1] f by auto
  next
    case (Some i)
    then show ?thesis using f ok find_shared_some [OF Some] by (auto simp: own_kept_def same_model_def)
  qed
  have "md' = md1 \<or> (\<exists>i. f = Some i \<and> md' = touch_shared_sys i md1)"
    using w f by (auto simp: warmup_turn_def Let_def split: option.splits if_splits)
  then have "model_ok la md' \<and> own_kept la md1 md'"
    using md1 touch_spec(1,2) by auto
  then show "model_ok la md'" "own_kept la md md'" using md1 own_kept_trans by auto
qed

lemma warmup_ok:
  assumes laws: "llama_laws la" and ok: "manager_ok la m"
    and w: "llm_warmup_shared_kv_with_cancel la copied i prompt cancel m = (r, m')"
  shows "manager_ok la m'"
proof (cases "m' = m")
  case False
  then obtain k md where k: "find_model i m = Some k" "warmup_turn la copied prompt (snd (ask cancel)) (model_at m k) = (r, md)"
    "m' = set_model k md m"
    using w by (auto simp: llm_warmup_shared_kv_with_cancel_def split: if_splits option.splits prod.splits)
  from find_model_some [OF k(1)] have f: "k < MAX_MODELS" "lm_models m ! k = Some (model_at m k)" by auto
  note d = manager_okD [OF ok]
  note W = warmup_turn_spec [OF laws d(4) [OF f] k(2)]
  have "m' = put_model k (md, lm_seqs m ! k) m" using k(3) f(1) d(2) by (simp add: set_model_put)
  then show ?thesis using manager_ok_put [OF ok f(1), of "(md, lm_seqs m ! k)"] W seqs_ok_kept [OF d(5) [OF f] W(2)] d(3) [OF f(1)]
    by simp
qed (use ok in simp)

lemma removed_spec:
  assumes laws: "llama_laws la" and ok: "model_ok la md" and own: "own_seq md sq" and md': "md' = snd (seq_rm la sq (- 1) (- 1) md)"
  shows "model_ok la md'" and "kept_but la sq md md'" and "holds la (em_memory md') sq []"
proof -
  note o = remove_only [OF laws, of sq "em_memory md" "- 1"]
  show "model_ok la md'" "kept_but la sq md md'" unfolding md' seq_rm_fields using model_ok_own [OF ok own o] only_kept_but [OF o] by simp_all
  show "holds la (em_memory md') sq []" unfolding md' seq_rm_fields using remove_all [OF laws] by simp
qed

lemma clear_seq_ok:
  assumes laws: "llama_laws la" and ok: "manager_ok la m"
  shows "manager_ok la (llm_clear_seq la i sq m)"
proof (cases "\<exists>k. reaches_model i sq m k")
  case True
  then obtain k where k: "lm_initialized m" "find_model i m = Some k" "own_seq (model_at m k) sq" by (auto simp: reaches_model_def)
  then have f: "k < MAX_MODELS" "lm_models m ! k = Some (model_at m k)" using find_model_some by auto
  note R = removed_spec [OF laws manager_okD(4) [OF ok f] k(3) refl]
  show ?thesis using manager_ok_seq [OF ok k(2,3) R] k by (simp add: llm_clear_seq_def clear_private_def)
next
  case False
  then show ?thesis using ok by (auto simp: llm_clear_seq_def reaches_model_def split: option.splits)
qed

text \<open>A file that has been written at a position.\<close>

definition file_ok :: "('v, 'm, 'f) llama \<Rightarrow> 'f \<times> int \<Rightarrow> bool" where
  "file_ok la x \<longleftrightarrow> (\<exists>xs. xs \<noteq> [] \<and> la_file la (fst x) = cells_from 0 xs \<and> snd x = int (length xs))"

lemma checkpoint_ok:
  assumes laws: "llama_laws la" and ok: "manager_ok la m" and c: "llm_checkpoint_seq la i sq m = Some (f, position, bytes)"
  obtains k xs where "reaches_model i sq m k" "holds la (em_memory (model_at m k)) sq xs" "xs \<noteq> []"
    "la_file la f = cells_from 0 xs" "position = int (length xs)"
proof -
  from c obtain k where k: "reaches_model i sq m k" and p: "checkpoint_private la sq (model_at m k) (lm_seqs m ! k) = Some (f, position, bytes)"
    by (auto simp: llm_checkpoint_seq_def reaches_model_def split: if_splits option.splits)
  then have g: "k < MAX_MODELS" "lm_models m ! k = Some (model_at m k)" using find_model_some by (auto simp: reaches_model_def)
  from manager_okD(5) [OF ok g] k obtain xs where xs: "holds la (em_memory (model_at m k)) sq xs" "lm_seqs m ! k ! nat sq = seq_of xs"
    by (auto simp: seqs_ok_def reaches_model_def)
  from p xs(2) have "xs \<noteq> []" "position = int (length xs)" "la_save la (em_memory (model_at m k)) sq = Some (f, bytes)"
    by (auto simp: checkpoint_private_def Let_def split: if_splits option.splits)
  moreover from this(3) have "la_file la f = la_cells la (em_memory (model_at m k)) sq"
    using laws by (simp add: llama_laws_def file_laws_def)
  ultimately show thesis using that k xs(1) by (simp add: holds_def)
qed

lemma restore_private_spec:
  assumes laws: "llama_laws la" and ok: "model_ok la md" and own: "own_seq md sq" and f: "la_file la f = cells_from 0 xs"
    and r: "restore_private la sq f position md sts = ((code, bytes), md', sts')"
  shows "model_ok la md'" and "kept_but la sq md md'"
    and "if code = 0 then holds la (em_memory md') sq xs \<and> sts' = sts[nat sq := \<lparr>sq_current_pos = position, sq_in_use = True\<rparr>]
      else holds la (em_memory md') sq [] \<and> sts' = sts"
proof -
  define md1 where "md1 = snd (seq_rm la sq (- 1) (- 1) md)"
  note R = removed_spec [OF laws ok own md1_def]
  obtain n m where res: "la_restore la (em_memory md1) sq f = (n, m)" by (rule prod.exhaust)
  have o: "only la sq (em_memory md1) m" and saved: "n \<noteq> 0 \<longrightarrow> la_cells la m sq = la_file la f"
  proof -
    have "fst (la_restore la (em_memory md1) sq f) \<noteq> 0 \<longrightarrow> la_cells la (snd (la_restore la (em_memory md1) sq f)) sq = la_file la f"
      using laws R(3) unfolding llama_laws_def file_laws_def holds_def by simp
    then show "n \<noteq> 0 \<longrightarrow> la_cells la m sq = la_file la f" unfolding res by simp
    have "\<forall>s'. s' \<noteq> sq \<longrightarrow> la_cells la (snd (la_restore la (em_memory md1) sq f)) s' = la_cells la (em_memory md1) s'"
      using laws unfolding llama_laws_def file_laws_def by blast
    then show "only la sq (em_memory md1) m" unfolding only_def res by simp
  qed
  have own1: "own_seq md1 sq" using kept_but_own [OF R(2)] own by simp
  define md2 where "md2 = md1\<lparr>em_memory := m\<rparr>"
  have md2: "model_ok la md2" "kept_but la sq md md2"
    using model_ok_own [OF R(1) own1 o] kept_but_trans [OF R(2) only_kept_but [OF o]] by (simp_all add: md2_def)
  have own2: "own_seq md2 sq" using kept_but_own [OF md2(2)] own by simp
  have eq: "(if n = 0 then ((- 1, 0), snd (seq_rm la sq (- 1) (- 1) md2), sts)
      else ((0, n), md2, sts[nat sq := \<lparr>sq_current_pos = position, sq_in_use = True\<rparr>])) = ((code, bytes), md', sts')"
    using r res unfolding restore_private_def Let_def md1_def [symmetric] md2_def by simp
  have "model_ok la md' \<and> kept_but la sq md md' \<and>
    (if code = 0 then holds la (em_memory md') sq xs \<and> sts' = sts[nat sq := \<lparr>sq_current_pos = position, sq_in_use = True\<rparr>]
      else holds la (em_memory md') sq [] \<and> sts' = sts)"
  proof (cases "n = 0")
    case True
    then have e: "code = - 1" "md' = snd (seq_rm la sq (- 1) (- 1) md2)" "sts' = sts" using eq by auto
    note R2 = removed_spec [OF laws md2(1) own2 e(2)]
    show ?thesis using R2 kept_but_trans [OF md2(2) R2(2)] e by simp
  next
    case False
    then have "code = 0" "md' = md2" "sts' = sts[nat sq := \<lparr>sq_current_pos = position, sq_in_use = True\<rparr>]" using eq by auto
    then show ?thesis using md2 saved False f by (simp add: holds_def md2_def)
  qed
  then show "model_ok la md'" and "kept_but la sq md md'"
    and "if code = 0 then holds la (em_memory md') sq xs \<and> sts' = sts[nat sq := \<lparr>sq_current_pos = position, sq_in_use = True\<rparr>]
      else holds la (em_memory md') sq [] \<and> sts' = sts" by blast+
qed

text \<open>
  A file may be restored into a sequence that is not in use, with the position it was written at: this
  is how the inference service restores. A restoration that fails otherwise leaves the old position
  with no tokens.
\<close>

lemma restore_ok:
  assumes laws: "llama_laws la" and ok: "manager_ok la m" and saved: "file_ok la (f, position)"
    and free: "\<And>k. find_model i m = Some k \<Longrightarrow> \<not> sq_in_use (lm_seqs m ! k ! nat sq)"
    and r: "llm_restore_seq la i sq f position m = (res, m')"
  shows "manager_ok la m'"
proof (cases "\<exists>k. reaches_model i sq m k \<and> \<not> position \<le> 0")
  case True
  then obtain k where k: "reaches_model i sq m k" "\<not> position \<le> 0" by blast
  then have g: "find_model i m = Some k" "own_seq (model_at m k) sq" "k < MAX_MODELS" "lm_models m ! k = Some (model_at m k)"
    using find_model_some by (auto simp: reaches_model_def)
  from saved obtain xs where xs: "xs \<noteq> []" "la_file la f = cells_from 0 xs" "position = int (length xs)" by (auto simp: file_ok_def)
  obtain code bytes md' sts' where p: "restore_private la sq f position (model_at m k) (lm_seqs m ! k) = ((code, bytes), md', sts')"
    by (metis surj_pair)
  have m': "m' = put_model k (md', sts') m" using r k p by (auto simp: llm_restore_seq_def reaches_model_def)
  note P = restore_private_spec [OF laws manager_okD(4) [OF ok g(3,4)] g(2) xs(2) p]
  from manager_okD(5) [OF ok g(3,4)] g(2) obtain old where "lm_seqs m ! k ! nat sq = seq_of old" by (auto simp: seqs_ok_def)
  then have st: "lm_seqs m ! k ! nat sq = seq_of []" using free [OF g(1)] by simp
  have "sts' = (lm_seqs m ! k)[nat sq := seq_of (if code = 0 then xs else [])]"
    using P(3) st xs by (auto simp: seq_of_def list_update_same_conv [symmetric] split: if_splits) (metis list_update_id)
  moreover have "holds la (em_memory md') sq (if code = 0 then xs else [])" using P(3) by (simp split: if_splits)
  ultimately show ?thesis using manager_ok_seq [OF ok g(1,2) P(1,2)] by (simp add: m')
next
  case False
  then show ?thesis using r ok by (auto simp: llm_restore_seq_def reaches_model_def split: option.splits if_splits)
qed

section \<open>Runs\<close>

text \<open>The states of the engine with the files that have been written and their positions.\<close>

inductive engine_reach :: "('v, 'm, 'f) llama \<Rightarrow> ('v, 'm) llm_manager \<Rightarrow> ('f \<times> int) list \<Rightarrow> bool" for la where
  start: "engine_reach la zero_llm_manager []"
| initialize: "engine_reach la m fs \<Longrightarrow> engine_reach la (snd (llm_manager_init mutex m)) fs"
| destroy: "engine_reach la m fs \<Longrightarrow> engine_reach la (llm_manager_destroy m) fs"
| load: "engine_reach la m fs \<Longrightarrow> engine_reach la (snd (llm_load_model la mutex backend config m)) fs"
| unload: "engine_reach la m fs \<Longrightarrow> engine_reach la (llm_unload_model i m) fs"
| new_session: "engine_reach la m fs \<Longrightarrow> engine_reach la (snd (llm_create_session i m)) fs"
| end_session: "engine_reach la m fs \<Longrightarrow> engine_reach la (llm_destroy_session j m) fs"
| infer: "engine_reach la m fs \<Longrightarrow> engine_reach la (snd (llm_inference la e i q m)) fs"
| warm: "engine_reach la m fs \<Longrightarrow> engine_reach la (snd (llm_warmup_shared_kv_with_cancel la copied i prompt cancel m)) fs"
| clear: "engine_reach la m fs \<Longrightarrow> engine_reach la (llm_clear_seq la i sq m) fs"
| save: "engine_reach la m fs \<Longrightarrow> llm_checkpoint_seq la i sq m = Some (f, position, bytes) \<Longrightarrow>
    engine_reach la m ((f, position) # fs)"
| restore: "engine_reach la m fs \<Longrightarrow> (f, position) \<in> set fs \<Longrightarrow>
    (\<And>k. find_model i m = Some k \<Longrightarrow> \<not> sq_in_use (lm_seqs m ! k ! nat sq)) \<Longrightarrow>
    engine_reach la (snd (llm_restore_seq la i sq f position m)) fs"

lemma engine_reach_ok:
  assumes "engine_reach la m fs" and laws: "llama_laws la"
  shows "manager_ok la m \<and> (\<forall>x \<in> set fs. file_ok la x)"
  using assms(1)
proof (induction rule: engine_reach.induct)
  case (initialize m fs mutex)
  have "manager_ok la (zero_llm_manager\<lparr>lm_next_model := 1, lm_next_session := 1, lm_initialized := True\<rparr>)"
    using zero_manager_ok [of la] by (simp add: manager_ok_def)
  with initialize show ?case by (simp add: llm_manager_init_def)
next
  case (load m fs mutex backend config)
  obtain r m' where "llm_load_model la mutex backend config m = (r, m')" by (rule prod.exhaust)
  with load show ?case using load_ok [OF laws, of m mutex backend config r m'] by simp
next
  case (infer m fs e i q)
  obtain code r m' where "llm_inference la e i q m = ((code, r), m')" by (metis surj_pair)
  with infer show ?case using inference_ok [OF laws, of m e i q code r m'] by simp
next
  case (warm m fs copied i prompt cancel)
  obtain r m' where "llm_warmup_shared_kv_with_cancel la copied i prompt cancel m = (r, m')" by (rule prod.exhaust)
  with warm show ?case using warmup_ok [OF laws, of m copied i prompt cancel r m'] by simp
next
  case (save m fs i sq f position bytes)
  then show ?case using checkpoint_ok [OF laws, of m i sq f position bytes] by (auto simp: file_ok_def)
next
  case (restore m fs f position i sq)
  obtain res m' where r: "llm_restore_seq la i sq f position m = (res, m')" by (rule prod.exhaust)
  have "file_ok la (f, position)" using restore.IH restore.hyps(2) by blast
  from restore_ok [OF laws _ this restore.hyps(3) r] restore.IH show ?case by (simp add: r)
qed (use zero_manager_ok unload_ok session_ok clear_seq_ok [OF laws] in \<open>auto simp: llm_manager_destroy_def\<close>)

section \<open>Theorems\<close>


text \<open>
  C18. A turn that is answered has appended exactly its tokens to its sequence: after the tokens that
  were there, or those of the system prompt in a first turn, the tokens of the prompt, the samples up to
  the first end token or the limit, and at most one token that ends the turn. The text is that of the
  samples, the figures of the response are the lengths, and the sequence fits in the context.
\<close>

theorem turn_appends:
  assumes "llama_laws la" and "engine_reach la m fs" and "llm_inference la e i q m = ((0, Some r), m')"
  shows "\<exists>k md md' old base p b n. find_model i m = Some k \<and> lm_models m ! k = Some md \<and> lm_models m' ! k = Some md' \<and>
    la_cells la (em_memory md) (er_sequence q) = cells_from 0 old \<and> base_tokens la (em_vocab md) q old base \<and>
    la_tokenize la (em_vocab md) (er_prompt q) (base = []) = Some p \<and>
    la_cells la (em_memory md') (er_sequence q) = cells_from 0 (base @ p @ map (en_samples e) [0..<n] @ b) \<and>
    rs_text r = Some (pieces la (em_vocab md) (map (en_samples e) [0..<n])) \<and>
    rs_tokens_generated r = int n \<and> int n \<le> turn_limit md q \<and> rs_prompt_tokens r = int (length p) \<and> length b \<le> 1 \<and>
    rs_total_tokens r = int (length (base @ p) + n + length b) \<and> rs_total_tokens r \<le> mc_n_ctx (em_config md) \<and>
    lm_seqs m' ! k ! nat (er_sequence q) = \<lparr>sq_current_pos = rs_total_tokens r, sq_in_use = True\<rparr>"
proof -
  have ok: "manager_ok la m" using engine_reach_ok [OF assms(2,1)] by simp
  from ok assms(3) show ?thesis
  proof (cases rule: inference_cases)
    case (turn k old t)
    have own: "own_seq (model_at m k) (er_sequence q)" "find_model i m = Some k" using turn(1) by (simp_all add: reaches_model_def)
    have at: "lm_models m ! k = Some (model_at m k)" using find_model_some [OF own(2)] by simp
    note T = engine_turn_spec [OF assms(1) turn(3) own(1) turn(4,6)]
    from T(3) obtain base p n b where b: "base_tokens la (em_vocab (model_at m k)) q old base"
      "la_tokenize la (em_vocab (model_at m k)) (er_prompt q) (base = []) = Some p"
      "int (length (base @ p)) + turn_limit (model_at m k) q + (if er_close_turn q then 1 else 0) \<le> mc_n_ctx (em_config (model_at m k))"
      and a: "n \<le> nat (turn_limit (model_at m k) q)"
        "int n + int (length b) \<le> int (nat (turn_limit (model_at m k) q)) + (if er_close_turn q then 1 else 0)" "length b \<le> 1"
        "rs_tokens_generated (tn_response t) = int n" "rs_prompt_tokens (tn_response t) = int (length p)"
        "rs_text (tn_response t) = Some (pieces la (em_vocab (tn_model t)) (map (en_samples e) [0..<n]))"
        "rs_total_tokens (tn_response t) = int (length (base @ p) + n + length b)"
        "tn_seq t = \<lparr>sq_current_pos = int (length (base @ p) + n + length b), sq_in_use = True\<rparr>"
        "holds la (mem t) (er_sequence q) ((base @ p) @ map (en_samples e) [0..<n] @ b)"
      unfolding turn_success_def answered_def by blast
    have pos: "0 < turn_limit (model_at m k) q" using turn_limit_pos [OF turn(3)] .
    have vocab: "em_vocab (tn_model t) = em_vocab (model_at m k)" using T(2) by (simp add: kept_but_def same_model_def)
    have m': "lm_models m' ! k = Some (tn_model t)" "lm_seqs m' ! k ! nat (er_sequence q) = tn_seq t"
      using turn(2,8) manager_okD(1,2) [OF ok] manager_okD(3) [OF ok turn(2)] own_seq_less [OF turn(3) own(1)]
      by (simp_all add: put_model_fields)
    have r: "r = tn_response t" using turn(7) by simp
    have "rs_total_tokens r \<le> mc_n_ctx (em_config (model_at m k))" "int n \<le> turn_limit (model_at m k) q"
      using a(1,2,3,7) b(3) pos by (simp_all add: r)
    moreover have "la_cells la (em_memory (tn_model t)) (er_sequence q) = cells_from 0 (base @ p @ map (en_samples e) [0..<n] @ b)"
      using a(9) by (simp add: holds_def)
    moreover have "lm_seqs m' ! k ! nat (er_sequence q) = \<lparr>sq_current_pos = rs_total_tokens r, sq_in_use = True\<rparr>"
      using m'(2) a(7,8) by (simp add: r)
    moreover note own(2) at m'(1) turn(4) [unfolded holds_def] b(1,2) a(3,4,5,7) [folded r] a(6) [folded r, unfolded vocab]
    ultimately show ?thesis by blast
  qed simp
qed

text \<open>
  C19. A request touches its own sequence only, and a turn that fails leaves no part of itself: if it
  is not answered, the sequence holds the tokens it held before, or none at all where the turn was to
  begin afresh or where the library cannot remove a part of a sequence; its entry says which. Text is
  handed out only by a turn that is answered or cancelled.
\<close>

theorem turn_isolated:
  assumes "llama_laws la" and "engine_reach la m fs" and "llm_inference la e i q m = ((code, r), m')"
  shows "(\<forall>k md s. k < MAX_MODELS \<and> lm_models m ! k = Some md \<and> 0 < s \<and> s < private_seq_limit md \<and>
      (s = er_sequence q \<longrightarrow> find_model i m \<noteq> Some k) \<longrightarrow>
      (\<exists>md'. lm_models m' ! k = Some md' \<and> em_id md' = em_id md \<and> em_config md' = em_config md \<and>
        la_cells la (em_memory md') s = la_cells la (em_memory md) s \<and> lm_seqs m' ! k ! nat s = lm_seqs m ! k ! nat s)) \<and>
    (code \<noteq> 0 \<longrightarrow> m' = m \<or>
      (\<exists>k md md' old xs. find_model i m = Some k \<and> lm_models m ! k = Some md \<and> lm_models m' ! k = Some md' \<and>
        la_cells la (em_memory md) (er_sequence q) = cells_from 0 old \<and>
        la_cells la (em_memory md') (er_sequence q) = cells_from 0 xs \<and>
        lm_seqs m' ! k ! nat (er_sequence q) = \<lparr>sq_current_pos = int (length xs), sq_in_use = (xs \<noteq> [])\<rparr> \<and>
        (xs = old \<or> xs = [] \<and> (er_first_turn q \<or> \<not> removes_parts la)))) \<and>
    (\<forall>a. r = Some a \<and> rs_text a \<noteq> None \<longrightarrow> code = 0 \<or> rs_cancelled a)"
proof -
  have ok: "manager_ok la m" using engine_reach_ok [OF assms(2,1)] by simp
  from ok assms(3) show ?thesis
  proof (cases rule: inference_cases)
    case refused
    then show ?thesis by (auto simp: empty_response_def)
  next
    case (turn k old t)
    define md where "md = model_at m k"
    have own: "own_seq md (er_sequence q)" "find_model i m = Some k" using turn(1) by (simp_all add: reaches_model_def md_def)
    have at: "lm_models m ! k = Some md" using find_model_some [OF own(2)] by (simp add: md_def)
    note T = engine_turn_spec [OF assms(1) turn(3) [folded md_def] own(1) turn(4,6) [folded md_def]]
    have len: "length (lm_models m) = MAX_MODELS" "length (lm_seqs m) = MAX_MODELS" "length (lm_seqs m ! k) = MAX_SEQ_PER_MODEL"
      using manager_okD(1,2) [OF ok] manager_okD(3) [OF ok turn(2)] .
    have m': "lm_models m' ! k' = (if k' = k then Some (tn_model t) else lm_models m ! k')"
      "lm_seqs m' ! k' = (if k' = k then (lm_seqs m ! k)[nat (er_sequence q) := tn_seq t] else lm_seqs m ! k')" if "k' < MAX_MODELS" for k'
      using that len turn(2) by (simp_all add: turn(8) put_model_fields)
    have frame: "\<exists>md'. lm_models m' ! k' = Some md' \<and> em_id md' = em_id md0 \<and> em_config md' = em_config md0 \<and>
        la_cells la (em_memory md') s = la_cells la (em_memory md0) s \<and> lm_seqs m' ! k' ! nat s = lm_seqs m ! k' ! nat s"
      if h: "k' < MAX_MODELS" "lm_models m ! k' = Some md0" "0 < s" "s < private_seq_limit md0" "s = er_sequence q \<longrightarrow> find_model i m \<noteq> Some k'"
      for k' md0 s
    proof (cases "k' = k")
      case True
      then have md0: "md0 = md" using at h(2) by simp
      then have s: "own_seq md s" "s \<noteq> er_sequence q" using h own(2) True by (auto simp: own_seq_def)
      then have "nat s \<noteq> nat (er_sequence q)" using nat_seq [OF s(1) own(1)] by simp
      with T(2) s show ?thesis using m' [OF h(1)] True by (simp add: md0 kept_but_def same_model_def)
    next
      case False
      then show ?thesis using h m' [OF h(1)] by simp
    qed
    have failed: "\<exists>xs. la_cells la (em_memory (tn_model t)) (er_sequence q) = cells_from 0 xs \<and>
        lm_seqs m' ! k ! nat (er_sequence q) = \<lparr>sq_current_pos = int (length xs), sq_in_use = (xs \<noteq> [])\<rparr> \<and>
        (xs = old \<or> xs = [] \<and> (er_first_turn q \<or> \<not> removes_parts la))" if "code \<noteq> 0"
      using T(4) [OF that] m'(2) [OF turn(2)] len(3) own_seq_less [OF turn(3) [folded md_def] own(1)]
      by (auto simp: holds_def seq_of_def)
    have "code = 0 \<or> rs_text a = None \<or> rs_cancelled a" if "r = Some a" for a using T(4) turn(7) that by auto
    moreover have "la_cells la (em_memory md) (er_sequence q) = cells_from 0 old" using turn(4) by (simp add: holds_def md_def)
    ultimately show ?thesis using frame failed own(2) at m'(1) [OF turn(2)] by auto
  qed
qed

section \<open>A library that keeps the contract\<close>

text \<open>
  A memory of lists: tokens are the codes of the characters, 1 begins a text, and a turn ends with 2,
  which is also drawn when the reply is over.
\<close>

type_synonym demo_memory = "(int \<times> (int \<times> int) list) list"

definition demo_cells :: "demo_memory \<Rightarrow> int \<Rightarrow> (int \<times> int) list" where
  "demo_cells m s = (case map_of m s of None \<Rightarrow> [] | Some c \<Rightarrow> c)"

definition demo_llama :: "(unit, demo_memory, (int \<times> int) list) llama" where
  "demo_llama =
     \<lparr>la_load = \<lambda>c. Some ((), []),
      la_tokenize = \<lambda>v txt special. Some ((if special then [1] else []) @ map of_char txt),
      la_decode = \<lambda>m xs s p b. (True, AList.update s (demo_cells m s @ cells_from p xs) m),
      la_seq_rm = \<lambda>m s p0 p1. (True, AList.update s (filter (\<lambda>c. 0 \<le> p0 \<and> fst c < p0) (demo_cells m s)) m),
      la_seq_cp = \<lambda>m a b p0 p1. AList.update b (demo_cells m b @ filter (\<lambda>c. p0 \<le> fst c \<and> fst c < p1) (demo_cells m a)) m,
      la_piece = \<lambda>v x. Some [char_of x], la_is_eog = \<lambda>v x. x = 2, la_boundary = \<lambda>v. Some 2,
      la_seq_size = \<lambda>m s. 0, la_save = \<lambda>m s. Some (demo_cells m s, 1), la_restore = \<lambda>m s f. (1, AList.update s f m),
      la_template = \<lambda>v. None, la_apply = \<lambda>s c b. None, la_cells = demo_cells, la_file = \<lambda>f. f\<rparr>"

lemma demo_cells_simps [simp]:
  "demo_cells [] s = []" "demo_cells (AList.update s c m) s' = (if s' = s then c else demo_cells m s')"
  by (simp_all add: demo_cells_def update_conv')

lemma demo_laws: "llama_laws demo_llama"
proof -
  have "\<exists>k. demo_cells m s @ cells_from p xs = demo_cells m s @ cells_from p (take k xs)" for m xs s p
    by (rule exI [of _ "length xs"]) simp
  then show ?thesis
    by (auto simp: llama_laws_def removal_laws_def decode_laws_def copy_laws_def file_laws_def load_laws_def demo_llama_def)
qed

definition demo_engine_config :: model_config where
  "demo_engine_config = \<lparr>mc_model_path = ''m'', mc_n_ctx = 64, mc_n_batch = 4, mc_n_seq_max = 12, mc_n_threads = 1, mc_n_gpu_layers = 0,
     mc_temperature = Finite 1, mc_top_p = Finite 1, mc_max_tokens = 8, mc_use_mmap = True, mc_use_mlock = False,
     mc_kv_type_k = Kv_f16, mc_kv_type_v = Kv_f16\<rparr>"

definition demo_loaded :: "(unit, demo_memory) llm_manager" where
  "demo_loaded = snd (llm_load_model demo_llama True Backend_llama_cpp demo_engine_config (snd (llm_manager_init True zero_llm_manager)))"

definition demo_env :: "bool list \<Rightarrow> engine_env" where
  "demo_env cancel = \<lparr>en_cancel = cancel, en_samples = \<lambda>n. if n = 0 then 111 else 2, en_copied = True, en_text = True,
     en_sampler = True, en_grown = \<lambda>n. True\<rparr>"

definition demo_turn :: "bool \<Rightarrow> engine_request" where
  "demo_turn first = \<lparr>er_prompt = ''hi'', er_system = ''S'', er_sequence = 1, er_first_turn = first, er_close_turn = True,
     er_cpu_threads = 0, er_temperature = Finite 0, er_top_p = Finite 0, er_max_tokens = 5\<rparr>"

definition demo_answered :: "(int \<times> engine_response option) \<times> (unit, demo_memory) llm_manager" where
  "demo_answered = llm_inference demo_llama (demo_env []) 1 (demo_turn True) demo_loaded"

text \<open>The second turn is cancelled after its prompt and one token of the reply.\<close>

definition demo_cancelled :: "(int \<times> engine_response option) \<times> (unit, demo_memory) llm_manager" where
  "demo_cancelled = llm_inference demo_llama (demo_env [False, False, False, False, True]) 1 (demo_turn False) (snd demo_answered)"

lemma demo_reach: "engine_reach demo_llama demo_loaded []" "engine_reach demo_llama (snd demo_answered) []"
  unfolding demo_answered_def demo_loaded_def by (intro engine_reach.intros)+

lemma demo_run:
  "fst (fst demo_answered) = 0" "map_option rs_text (snd (fst demo_answered)) = Some (Some ''o'')"
  "la_cells demo_llama (em_memory (model_at (snd demo_answered) 0)) 1 = [(0, 1), (1, 83), (2, 104), (3, 105), (4, 111), (5, 2)]"
  "fst (fst demo_cancelled) = - 2" "map_option rs_text (snd (fst demo_cancelled)) = Some (Some ''o'')"
  by code_simp+

text \<open>A turn that is cancelled while its prompt is decoded is reported as cancelled, but with the code of an error.\<close>

lemma cancelled_prompt_code:
  "fst (fst (llm_inference demo_llama (demo_env [False, True]) 1 (demo_turn False) (snd demo_answered))) = - 1"
  "map_option rs_cancelled (snd (fst (llm_inference demo_llama (demo_env [False, True]) 1 (demo_turn False) (snd demo_answered)))) =
    Some True"
  by code_simp+


lemma turn_appends_witness: "\<exists>r. fst demo_answered = (0, Some r) \<and> rs_tokens_generated r \<le> 5"
proof -
  obtain r where r: "fst demo_answered = (0, Some r)" using demo_run(1,2) by (cases "fst demo_answered") auto
  then have "llm_inference demo_llama (demo_env []) 1 (demo_turn True) demo_loaded = ((0, Some r), snd demo_answered)"
    unfolding demo_answered_def by (metis prod.collapse)
  from turn_appends [OF demo_laws demo_reach(1) this] obtain k md n where
    "find_model 1 demo_loaded = Some k" "lm_models demo_loaded ! k = Some md" "rs_tokens_generated r = int n" "int n \<le> turn_limit md (demo_turn True)"
    by blast
  moreover have "turn_limit md (demo_turn True) \<le> 5" by (simp add: turn_limit_def demo_turn_def)
  ultimately show ?thesis using r by (intro exI [of _ r]) simp
qed

lemma turn_isolated_witness:
  "lm_seqs (snd demo_cancelled) ! 0 ! 2 = lm_seqs (snd demo_answered) ! 0 ! 2"
proof -
  obtain code r m' where c: "demo_cancelled = ((code, r), m')" by (metis surj_pair)
  then have "llm_inference demo_llama (demo_env [False, False, False, False, True]) 1 (demo_turn False) (snd demo_answered) = ((code, r), m')"
    by (simp add: demo_cancelled_def)
  note T = turn_isolated [OF demo_laws demo_reach(2) this, THEN conjunct1, rule_format, of 0 "model_at (snd demo_answered) 0" 2]
  have at: "lm_models (snd demo_answered) ! 0 = Some (model_at (snd demo_answered) 0)" by code_simp
  have "0 < MAX_MODELS" "2 < private_seq_limit (model_at (snd demo_answered) 0)" "(2::int) \<noteq> er_sequence (demo_turn False)" by code_simp+
  moreover have "snd demo_cancelled = m'" unfolding c by (rule snd_conv)
  ultimately show ?thesis using T at by auto
qed

end
