(* ===== verification/Engine_Sim.thy ===== *)
theory Engine_Sim
  imports Engine_Manager
begin

text \<open>
  The engine as it is built without llama.cpp (the other branches of
  \<^verbatim>\<open>agent_runtime_top/src/llm_llamacpp.c\<close>): the same tables, with token counts estimated from lengths. Its
  renderer of chats is shown to be one with which the inference service never loses a history.
\<close>

section \<open>Turns\<close>

definition LLM_MAX_RESPONSE :: nat where "LLM_MAX_RESPONSE = 4096"

definition sim_token_count :: "string \<Rightarrow> int" where
  "sim_token_count s = int (length s) div 4 + 1"

definition sim_evict :: "nat \<Rightarrow> ('v, 'm) engine_model \<Rightarrow> ('v, 'm) engine_model" where
  "sim_evict i md =
     (if sh_prompt_text (em_shared md ! i) = None then md
      else md\<lparr>em_shared := (em_shared md)[i := empty_shared], em_shared_count := em_shared_count md - 1,
              em_stats := (em_stats md)\<lparr>et_prefix_evictions := et_prefix_evictions (em_stats md) + 1\<rparr>\<rparr>)"

definition sim_fill :: "nat \<Rightarrow> string option \<Rightarrow> string \<Rightarrow> ('v, 'm) engine_model \<Rightarrow> ('v, 'm) engine_model" where
  "sim_fill i copied prompt md =
     md\<lparr>em_shared := (em_shared md)[i := (em_shared md ! i)\<lparr>sh_seq_id := shared_seq md i,
          sh_token_count := sim_token_count prompt, sh_prompt_text := copied\<rparr>]\<rparr>"

definition sim_cache :: "string \<Rightarrow> ('v, 'm) engine_model \<Rightarrow> nat \<times> ('v, 'm) engine_model" where
  "sim_cache prompt md =
     (let i = select_shared_sys_slot md; md = touch_shared_sys i (sim_fill i (Some prompt) prompt (sim_evict i md))
      in (i, md\<lparr>em_shared_count := em_shared_count md + 1\<rparr>))"

text \<open>The system prompt of a first turn. \<open>None\<close>: its text cannot be copied.\<close>

definition sim_system :: "bool \<Rightarrow> string \<Rightarrow> ('v, 'm) turn \<Rightarrow> ('v, 'm) turn option" where
  "sim_system copied prompt t =
     (let use = (\<lambda>reused i md.
        let md = touch_shared_sys i md; h = em_shared md ! i; t = t\<lparr>tn_seq := (tn_seq t)\<lparr>sq_current_pos := sh_token_count h\<rparr>\<rparr>
        in if reused
           then t\<lparr>tn_model := md\<lparr>em_shared := (em_shared md)[i := h\<lparr>sh_share_count := sh_share_count h + 1,
                      sh_saved_tokens := sh_saved_tokens h + sh_token_count h\<rparr>]\<rparr>,
                  tn_response := (tn_response t)\<lparr>rs_cache_hit := True, rs_reused_tokens := sh_token_count h\<rparr>\<rparr>
           else t\<lparr>tn_model := md\<rparr>)
      in case find_shared_sys (tn_model t) prompt of
        Some i \<Rightarrow> Some (use True i (tn_model t))
      | None \<Rightarrow> if \<not> copied then None else case sim_cache prompt (tn_model t) of (i, md) \<Rightarrow> Some (use False i md))"

definition sim_text :: "u64 \<Rightarrow> int \<Rightarrow> string \<Rightarrow> string" where
  "sim_text i sq prompt = take (LLM_MAX_RESPONSE - 1)
     (''[simulation model='' @ nat_to_string (unat i) @ '' seq='' @ int_to_string sq @ ''] '' @ take 4000 prompt)"

definition sim_reply :: "u64 \<Rightarrow> engine_env \<Rightarrow> engine_request \<Rightarrow> ('v, 'm) turn \<Rightarrow> int \<times> ('v, 'm) turn" where
  "sim_reply i e q t =
     (if \<not> en_text e then (- 1, t)
      else let total = sq_current_pos (tn_seq t) + sim_token_count (er_prompt q) + 10 + (if er_close_turn q then 1 else 0)
      in (0, t\<lparr>tn_response := (tn_response t)\<lparr>rs_text := Some (sim_text i (er_sequence q) (er_prompt q)),
              rs_prompt_tokens := sim_token_count (er_prompt q), rs_tokens_generated := 10, rs_total_tokens := total,
              rs_stopped := True, rs_cache_bytes := word_of_int total * 1024\<rparr>,
            tn_seq := \<lparr>sq_current_pos = total, sq_in_use = True\<rparr>,
            tn_model := update_engine_stats 10 (tn_model t)\<rparr>))"

definition sim_turn ::
  "u64 \<Rightarrow> engine_env \<Rightarrow> engine_request \<Rightarrow> ('v, 'm) engine_model \<Rightarrow> seq_state \<Rightarrow> int \<times> ('v, 'm) turn" where
  "sim_turn i e q md st =
     (case ask_turn \<lparr>tn_model = md, tn_seq = st, tn_response = empty_response\<lparr>rs_seq_id := er_sequence q\<rparr>, tn_cancel = en_cancel e\<rparr> of
        (stop, t) \<Rightarrow>
          if stop then (- 2, set_cancelled True t)
          else let fresh = (if er_first_turn q then t\<lparr>tn_seq := empty_seq\<rparr> else t)
          in if er_first_turn q \<and> er_system q \<noteq> []
             then (case sim_system (en_copied e) (er_system q) fresh of
                     None \<Rightarrow> (- 1, fresh\<lparr>tn_seq := st\<rparr>)
                   | Some t \<Rightarrow> sim_reply i e q t)
             else sim_reply i e q fresh)"

section \<open>The other operations\<close>

definition sim_warmup :: "bool \<Rightarrow> string \<Rightarrow> bool list \<Rightarrow> ('v, 'm) engine_model \<Rightarrow> int \<times> ('v, 'm) engine_model" where
  "sim_warmup copied prompt cancel md =
     (let finish = (\<lambda>i md.
        if fst (ask cancel) then (- 2, md) else let md = touch_shared_sys i md in (sh_seq_id (em_shared md ! i), md))
      in case find_shared_sys md prompt of
        Some i \<Rightarrow> finish i md
      | None \<Rightarrow>
          if \<not> copied
          then (- 1, let i = select_shared_sys_slot md in sim_fill i None prompt (sim_evict i md))
          else case sim_cache prompt md of (i, md) \<Rightarrow> finish i md)"

text \<open>A checkpoint is the position; writing may fail. The file, the position and the bytes.\<close>

definition sim_checkpoint :: "bool \<Rightarrow> seq_state \<Rightarrow> (int \<times> int \<times> u64) option" where
  "sim_checkpoint stored st =
     (if \<not> sq_in_use st \<or> sq_current_pos st \<le> 0 \<or> \<not> stored then None else Some (sq_current_pos st, sq_current_pos st, 4))"

text \<open>\<open>None\<close> is a file that cannot be read.\<close>

definition sim_restore :: "int option \<Rightarrow> int \<Rightarrow> seq_state \<Rightarrow> (int \<times> u64) \<times> seq_state" where
  "sim_restore f position st =
     (if f \<noteq> Some position then ((- 1, 0), st) else ((0, 4), \<lparr>sq_current_pos = position, sq_in_use = True\<rparr>))"

section \<open>Chats\<close>

definition sim_line :: "string \<times> string \<Rightarrow> string" where
  "sim_line x = ''<|'' @ fst x @ ''|>'' @ [newline] @ snd x @ [newline]"

definition sim_required :: "chat \<Rightarrow> bool \<Rightarrow> nat" where
  "sim_required messages add_assistant =
     (if add_assistant then 16 else 0) + sum_list (map (\<lambda>x. length (fst x) + length (snd x) + 8) messages)"

definition sim_template :: "bool \<Rightarrow> chat \<Rightarrow> bool \<Rightarrow> string option" where
  "sim_template allocated messages add_assistant =
     (if sim_required messages add_assistant > 2 ^ 32 - 1 \<or> \<not> allocated then None
      else Some (concat (map sim_line messages) @ (if add_assistant then ''<|assistant|>'' @ [newline] else [])))"

section \<open>Lemmas\<close>

text \<open>The buffer is large enough: nothing is cut off, and the assistant's line fits.\<close>

lemma sim_template_fits:
  assumes "sim_template a ms add = Some s"
  shows "length s \<le> sim_required ms add"
proof -
  have "length (concat (map sim_line ms)) \<le> sum_list (map (\<lambda>x. length (fst x) + length (snd x) + 8) ms)"
    by (induction ms) (auto simp: sim_line_def)
  with assms show ?thesis by (auto simp: sim_template_def sim_required_def split: if_splits)
qed

text \<open>A longer chat begins with the text of the shorter one.\<close>

lemma sim_template_extends:
  assumes "sim_template a ms False = Some s" and "sim_template b (ms @ rest) add = Some s'"
  shows "starts_with s' s"
  using assms by (auto simp: sim_template_def starts_with_def split: if_splits)

text \<open>
  A history that is rendered by the simulated engine can always be extended: no turn after the first
  is refused because of its template while the chat is shorter than four gigabytes.
\<close>

theorem sim_history_consistent:
  assumes "te_template e = sim_template True" and "cv_template cv" and "cv_messages cv \<noteq> []"
    and "sim_required (cv_messages cv @ [(''user'', gn_prompt g)]) True \<le> 2 ^ 32 - 1"
  shows "\<exists>pl. make_plan e g False cv = Inr pl \<and> pl_applied pl"
proof -
  have "sim_required (cv_messages cv) False \<le> 2 ^ 32 - 1" using assms(4) by (simp add: sim_required_def)
  then obtain s where s: "sim_template True (cv_messages cv) False = Some s" by (simp add: sim_template_def)
  from assms(4) obtain s' where s': "sim_template True (cv_messages cv @ [(''user'', gn_prompt g)]) True = Some s'"
    by (simp add: sim_template_def)
  from sim_template_extends [OF s s'] show ?thesis
    using assms(1-3) s s' by (simp add: make_plan_def next_plan_def format_chat_def Let_def)
qed

text \<open>What a checkpoint has saved is what a restoration brings back.\<close>

lemma sim_checkpoint_restore:
  assumes "sim_checkpoint stored st = Some (f, position, n)"
  shows "sim_restore (Some f) position st' = ((0, n), \<lparr>sq_current_pos = sq_current_pos st, sq_in_use = True\<rparr>)"
  using assms by (auto simp: sim_checkpoint_def sim_restore_def split: if_splits)

end
