(* ===== verification/Ready_Ring.thy ===== *)
theory Ready_Ring
  imports Agent_Types
begin

text \<open>
  The ready queue of the first scheduler (\<^verbatim>\<open>agent_runtime_top/src/scheduler.c\<close>): a ring of agent
  numbers with indices of 32 bits. It is shown to be a list: what is added at the end is picked at
  the front, and nothing is lost, doubled or overtaken except by the operations that say so. Each
  operation is atomic, as the code holds its mutex; a pick that would wait is a result of its own.
\<close>

section \<open>State\<close>

datatype queue_policy = Policy_fifo | Policy_rr | Policy_priority

record queue_config =
  qc_max_agents :: u32
  qc_time_slice_ms :: u32
  qc_preemptive :: bool
  qc_policy :: queue_policy

record queue_stats =
  qs_total_schedules :: u64
  qs_context_switches :: u64
  qs_idle_time :: u64
  qs_busy_time :: u64

record ring =
  rq_queue :: "agent_id list"
  rq_size :: u32
  rq_head :: u32
  rq_tail :: u32
  rq_count :: u32
  rq_config :: queue_config
  rq_stats :: queue_stats
  rq_running :: bool
  rq_initialized :: bool

definition zero_ring :: ring where
  "zero_ring = \<lparr>rq_queue = [], rq_size = 0, rq_head = 0, rq_tail = 0, rq_count = 0,
     rq_config = \<lparr>qc_max_agents = 0, qc_time_slice_ms = 0, qc_preemptive = False, qc_policy = Policy_fifo\<rparr>,
     rq_stats = \<lparr>qs_total_schedules = 0, qs_context_switches = 0, qs_idle_time = 0, qs_busy_time = 0\<rparr>,
     rq_running = False, rq_initialized = False\<rparr>"

section \<open>Operations\<close>

text \<open>Whether the memory can be allocated is an argument; no configuration is a null pointer.\<close>

definition ring_init :: "bool \<Rightarrow> queue_config option \<Rightarrow> ring \<Rightarrow> int \<times> ring" where
  "ring_init allocated config r =
     (if rq_initialized r then (- 1, r)
      else case config of
        None \<Rightarrow> (- 1, r)
      | Some c \<Rightarrow>
          if qc_max_agents c = 0 then (- 1, r)
          else let r = zero_ring\<lparr>rq_size := qc_max_agents c\<rparr>
          in if \<not> allocated then (- 1, r)
             else (0, r\<lparr>rq_queue := replicate (unat (qc_max_agents c)) 0, rq_config := c, rq_initialized := True\<rparr>))"

definition ring_stop :: "ring \<Rightarrow> int \<times> ring" where
  "ring_stop r = (if \<not> rq_initialized r then (- 1, r) else (0, r\<lparr>rq_running := False\<rparr>))"

definition ring_start :: "ring \<Rightarrow> int \<times> ring" where
  "ring_start r = (if \<not> rq_initialized r then (- 1, r) else (0, r\<lparr>rq_running := True\<rparr>))"

definition ring_destroy :: "ring \<Rightarrow> ring" where
  "ring_destroy r = (if \<not> rq_initialized r then r else zero_ring)"

text \<open>The index of the entry \<open>i\<close> places behind the head, as the code computes it.\<close>

definition slot :: "ring \<Rightarrow> nat \<Rightarrow> u32" where
  "slot r i = (rq_head r + of_nat i) mod rq_size r"

definition ring_add :: "agent_id \<Rightarrow> ring \<Rightarrow> int \<times> ring" where
  "ring_add a r =
     (if \<not> rq_initialized r \<or> a = 0 then (- 1, r)
      else if rq_count r \<ge> rq_size r then (- 1, r)
      else (0, r\<lparr>rq_queue := (rq_queue r)[unat (rq_tail r) := a],
                 rq_tail := (rq_tail r + 1) mod rq_size r, rq_count := rq_count r + 1\<rparr>))"

definition find_slot :: "agent_id \<Rightarrow> ring \<Rightarrow> nat option" where
  "find_slot a r = find (\<lambda>i. rq_queue r ! unat (slot r i) = a) [0..<unat (rq_count r)]"

text \<open>The two loops on the array: entries move up by one place, or the entry moves to the front.\<close>

definition close_gap :: "ring \<Rightarrow> nat \<Rightarrow> agent_id list" where
  "close_gap r i = fold (\<lambda>j q. q[unat (slot r j) := q ! unat (slot r (j + 1))])
     [i..<unat (rq_count r - 1)] (rq_queue r)"

definition swap_entries :: "nat \<Rightarrow> nat \<Rightarrow> agent_id list \<Rightarrow> agent_id list" where
  "swap_entries c p q = q[c := q ! p, p := q ! c]"

definition bring_forward :: "ring \<Rightarrow> nat \<Rightarrow> agent_id list" where
  "bring_forward r i = fold (\<lambda>j. swap_entries (unat (slot r j)) (unat (slot r (j - 1)))) (rev [1..<Suc i]) (rq_queue r)"

definition ring_remove :: "agent_id \<Rightarrow> ring \<Rightarrow> int \<times> ring" where
  "ring_remove a r =
     (if \<not> rq_initialized r \<or> a = 0 then (- 1, r)
      else case find_slot a r of
        None \<Rightarrow> (- 1, r)
      | Some i \<Rightarrow> (0, r\<lparr>rq_queue := close_gap r i, rq_tail := (rq_tail r - 1 + rq_size r) mod rq_size r,
                       rq_count := rq_count r - 1\<rparr>))"

definition ring_update :: "agent_id \<Rightarrow> ring \<Rightarrow> int \<times> ring" where
  "ring_update a r =
     (if \<not> rq_initialized r \<or> a = 0 then (- 1, r)
      else case find_slot a r of
        None \<Rightarrow> (- 1, r)
      | Some i \<Rightarrow> (0, r\<lparr>rq_queue := bring_forward r i\<rparr>))"

text \<open>\<open>None\<close>: the caller waits.\<close>

definition pick_next :: "ring \<Rightarrow> agent_id option \<times> ring" where
  "pick_next r =
     (if \<not> rq_initialized r then (Some 0, r)
      else if rq_count r = 0 then (if rq_running r then None else Some 0, r)
      else (Some (rq_queue r ! unat (rq_head r)),
            r\<lparr>rq_head := (rq_head r + 1) mod rq_size r, rq_count := rq_count r - 1,
              rq_stats := (rq_stats r)\<lparr>qs_total_schedules := qs_total_schedules (rq_stats r) + 1,
                qs_context_switches := qs_context_switches (rq_stats r) + 1\<rparr>\<rparr>))"

definition ring_yield :: "agent_id \<Rightarrow> ring \<Rightarrow> int \<times> ring" where
  "ring_yield a r = (if \<not> rq_initialized r \<or> a = 0 then (- 1, r) else ring_add a r)"

definition ring_block :: "agent_id \<Rightarrow> ring \<Rightarrow> int \<times> ring" where
  "ring_block a r = (if \<not> rq_initialized r \<or> a = 0 then (- 1, r) else ring_remove a r)"

definition ring_unblock :: "agent_id \<Rightarrow> ring \<Rightarrow> int \<times> ring" where
  "ring_unblock a r = (if \<not> rq_initialized r \<or> a = 0 then (- 1, r) else ring_add a r)"

definition ring_stats :: "ring \<Rightarrow> queue_stats option" where
  "ring_stats r = (if \<not> rq_initialized r then None else Some (rq_stats r))"

section \<open>Moving entries of an array\<close>

lemma length_fold: "(\<And>x q. length (g x q) = length q) \<Longrightarrow> length (fold g xs q) = length q"
  by (induction xs arbitrary: q) auto

lemma length_swap [simp]: "length (swap_entries c p q) = length q"
  by (simp add: swap_entries_def)

lemma swap_nth:
  "c \<noteq> p \<Longrightarrow> c < length q \<Longrightarrow> p < length q \<Longrightarrow>
   swap_entries c p q ! m = (if m = c then q ! p else if m = p then q ! c else q ! m)"
  by (auto simp: swap_entries_def nth_list_update)

text \<open>\<open>f\<close> is the place of the entry number \<open>j\<close>.\<close>

lemma gap_loop:
  assumes inj: "inj_on f {..<n}" and len: "\<And>j. j < n \<Longrightarrow> f j < length q" and k: "i + k < n" and j: "j < n"
  shows "fold (\<lambda>j q. q[f j := q ! f (j + 1)]) [i..<i + k] q ! f j = (if i \<le> j \<and> j < i + k then q ! f (j + 1) else q ! f j)"
  using k j
proof (induction k arbitrary: j)
  case (Suc k)
  let ?q = "fold (\<lambda>j q. q[f j := q ! f (j + 1)]) [i..<i + k] q"
  have l: "length ?q = length q" by (rule length_fold) simp
  have eq: "fold (\<lambda>j q. q[f j := q ! f (j + 1)]) [i..<i + Suc k] q = ?q[f (i + k) := ?q ! f (i + k + 1)]" by simp
  have after: "?q ! f (i + k + 1) = q ! f (i + k + 1)" using Suc.IH [of "i + k + 1"] Suc.prems by simp
  show ?case
  proof (cases "j = i + k")
    case True
    with Suc.prems after l len show ?thesis unfolding eq by simp
  next
    case False
    then have "f j \<noteq> f (i + k)" using inj Suc.prems by (auto dest: inj_onD)
    with Suc.IH [of j] Suc.prems False show ?thesis unfolding eq by auto
  qed
qed auto

lemma front_loop:
  assumes inj: "inj_on f {..<n}" and len: "\<And>j. j < n \<Longrightarrow> f j < length q" and i: "i < n" and k: "k \<le> i" and j: "j < n"
  shows "fold (\<lambda>j. swap_entries (f j) (f (j - 1))) (rev [Suc (i - k)..<Suc i]) q ! f j =
    (if j = i - k then q ! f i else if i - k < j \<and> j \<le> i then q ! f (j - 1) else q ! f j)"
  using k j
proof (induction k arbitrary: j)
  case (Suc k)
  define qq where "qq = fold (\<lambda>j. swap_entries (f j) (f (j - 1))) (rev [Suc (i - k)..<Suc i]) q"
  have l: "length qq = length q" unfolding qq_def by (rule length_fold) simp
  have split: "[Suc (i - Suc k)..<Suc i] = (i - k) # [Suc (i - k)..<Suc i]"
    using Suc.prems by (simp add: upt_conv_Cons [of "i - k"] Suc_diff_Suc del: upt_Suc)
  have eq: "fold (\<lambda>j. swap_entries (f j) (f (j - 1))) (rev [Suc (i - Suc k)..<Suc i]) q =
      swap_entries (f (i - k)) (f (i - k - 1)) qq"
    unfolding split qq_def by simp
  have IH: "qq ! f j = (if j = i - k then q ! f i else if i - k < j \<and> j \<le> i then q ! f (j - 1) else q ! f j)" if "j < n" for j
    using Suc.IH [of j] Suc.prems that unfolding qq_def by simp
  have bounds: "i - k - 1 < n" "i - k < n" "i - k - 1 \<noteq> i - k" "i - Suc k = i - k - 1" using Suc.prems i by linarith+
  have ne: "f (i - k) \<noteq> f (i - k - 1)"
    using inj_on_eq_iff [OF inj, of "i - k" "i - k - 1"] bounds(1,2,3) by (metis lessThan_iff)
  note sw = swap_nth [OF ne, of qq, unfolded l, OF len [OF bounds(2)] len [OF bounds(1)]]
  have "f j = f (i - k) \<longleftrightarrow> j = i - k" "f j = f (i - k - 1) \<longleftrightarrow> j = i - k - 1"
    using inj_on_eq_iff [OF inj] Suc.prems(2) bounds(1,2) by (metis lessThan_iff)+
  note same = this
  have val: "fold (\<lambda>j. swap_entries (f j) (f (j - 1))) (rev [Suc (i - Suc k)..<Suc i]) q ! f j =
      (if j = i - k then qq ! f (i - k - 1) else if j = i - k - 1 then qq ! f (i - k) else qq ! f j)"
    unfolding eq sw same ..
  consider "j = i - k" | "j = i - k - 1" | "j \<noteq> i - k" "j \<noteq> i - k - 1" by blast
  then show ?case
  proof cases
    case 1
    have "qq ! f (i - k - 1) = q ! f (i - k - 1)" using IH [OF bounds(1)] bounds(3) by simp
    moreover have "j \<noteq> i - Suc k" "i - Suc k < j" "j \<le> i" "j - 1 = i - k - 1" using 1 Suc.prems by linarith+
    ultimately show ?thesis unfolding val using 1 by presburger
  next
    case 2
    have "qq ! f (i - k) = q ! f i" using IH [OF bounds(2)] by simp
    moreover have "j \<noteq> i - k" "j = i - Suc k" using 2 bounds by linarith+
    ultimately show ?thesis unfolding val using 2 by presburger
  next
    case 3
    have "i - Suc k < j \<longleftrightarrow> i - k < j" "j \<noteq> i - Suc k" using 3 bounds by linarith+
    with 3 IH [OF Suc.prems(2)] show ?thesis unfolding val by presburger
  qed
qed simp

section \<open>The ring as a list\<close>

definition items :: "ring \<Rightarrow> agent_id list" where
  "items r = map (\<lambda>i. rq_queue r ! unat (slot r i)) [0..<unat (rq_count r)]"

text \<open>Indices are computed in 32 bits, so a ring has at most half of that many places.\<close>

definition ring_ok :: "ring \<Rightarrow> bool" where
  "ring_ok r \<longleftrightarrow> rq_initialized r \<and> 0 < rq_size r \<and> unat (rq_size r) \<le> 2 ^ 31 \<and> length (rq_queue r) = unat (rq_size r) \<and>
     rq_head r < rq_size r \<and> rq_count r \<le> rq_size r \<and> rq_tail r = slot r (unat (rq_count r)) \<and> 0 \<notin> set (items r)"

lemma ring_okD:
  assumes "ring_ok r"
  shows "rq_initialized r" and "0 < rq_size r" and "unat (rq_size r) \<le> 2 ^ 31" and "length (rq_queue r) = unat (rq_size r)"
    and "rq_head r < rq_size r" and "rq_count r \<le> rq_size r" and "rq_tail r = slot r (unat (rq_count r))" and "0 \<notin> set (items r)"
  using assms by (simp_all add: ring_ok_def)

lemma unat_slot:
  assumes "ring_ok r" and "i \<le> unat (rq_size r)"
  shows "unat (slot r i) = (unat (rq_head r) + i) mod unat (rq_size r)"
proof -
  note d = ring_okD [OF assms(1)]
  have "unat (rq_head r) + i < 2 ^ 32" using d(3,5) assms(2) by (simp add: word_less_nat_alt)
  moreover have "i < 2 ^ 32" using d(3) assms(2) by simp
  ultimately have "unat (rq_head r + of_nat i) = unat (rq_head r) + i"
    by (simp add: unat_word_ariths unat_of_nat)
  then show ?thesis by (simp add: slot_def unat_mod)
qed

lemma slot_less: "ring_ok r \<Longrightarrow> i \<le> unat (rq_size r) \<Longrightarrow> unat (slot r i) < length (rq_queue r)"
  using ring_okD [of r] by (simp add: unat_slot unat_gt_0 word_greater_zero_iff)

lemma mod_add_inj:
  assumes "i < n" and "j < n" and "(h + i) mod n = (h + j) mod (n::nat)"
  shows "i = j"
  using assms
proof (induction i j rule: linorder_wlog)
  case (le i j)
  then have "n dvd j - i" using mod_eq_dvd_iff_nat [of "h + i" "h + j" n] by simp
  with le show ?case using dvd_imp_le [of n "j - i"] by (cases "j = i") auto
qed simp

lemma slot_inj: "ring_ok r \<Longrightarrow> inj_on (\<lambda>i. unat (slot r i)) {..<unat (rq_size r)}"
  by (rule inj_onI) (auto simp: unat_slot intro: mod_add_inj)

lemma length_items [simp]: "length (items r) = unat (rq_count r)"
  by (simp add: items_def)

lemma nth_items: "i < unat (rq_count r) \<Longrightarrow> items r ! i = rq_queue r ! unat (slot r i)"
  by (simp add: items_def)

text \<open>An update of the array that leaves the shape of the ring.\<close>

lemma slot_fields [simp]:
  "slot (r\<lparr>rq_queue := q\<rparr>) i = slot r i" "slot (r\<lparr>rq_tail := t\<rparr>) i = slot r i" "slot (r\<lparr>rq_count := c\<rparr>) i = slot r i"
  "slot (r\<lparr>rq_running := b\<rparr>) i = slot r i" "slot (r\<lparr>rq_stats := st\<rparr>) i = slot r i"
  by (simp_all add: slot_def)

lemma ring_okI:
  assumes "ring_ok r" and "length (rq_queue r') = length (rq_queue r)" and "rq_initialized r'" and "rq_size r' = rq_size r"
    and "rq_head r' < rq_size r" and "rq_count r' \<le> rq_size r" and "rq_tail r' = slot r' (unat (rq_count r'))"
    and "0 \<notin> set (items r')"
  shows "ring_ok r'"
  using assms ring_okD [OF assms(1)] by (simp add: ring_ok_def)

lemma count_step:
  assumes "ring_ok r"
  shows "rq_count r < rq_size r \<Longrightarrow> unat (rq_count r + 1) = Suc (unat (rq_count r))"
    and "rq_count r \<noteq> 0 \<Longrightarrow> Suc (unat (rq_count r - 1)) = unat (rq_count r)"
    and "unat (rq_count r) \<le> unat (rq_size r)"
proof -
  note d = ring_okD [OF assms]
  show "unat (rq_count r) \<le> unat (rq_size r)" using d(6) by (simp add: word_le_nat_alt)
  show "Suc (unat (rq_count r - 1)) = unat (rq_count r)" if "rq_count r \<noteq> 0"
    using that by (simp add: unat_minus_one unat_gt_0)
  show "unat (rq_count r + 1) = Suc (unat (rq_count r))" if "rq_count r < rq_size r"
    using that d(3) by (simp add: unat_word_ariths word_less_nat_alt)
qed

lemma ring_add_spec:
  assumes ok: "ring_ok r" and add: "ring_add a r = (x, r')"
  shows "ring_ok r' \<and> (if a \<noteq> 0 \<and> rq_count r < rq_size r then x = 0 \<and> items r' = items r @ [a] else x = - 1 \<and> r' = r)"
proof (cases "a \<noteq> 0 \<and> rq_count r < rq_size r")
  case False
  with ok add ring_okD(1) [OF ok] show ?thesis by (auto simp: ring_add_def split: if_splits)
next
  case True
  note d = ring_okD [OF ok]
  let ?n = "unat (rq_count r)"
  have r': "x = 0" "r' = r\<lparr>rq_queue := (rq_queue r)[unat (rq_tail r) := a], rq_tail := (rq_tail r + 1) mod rq_size r,
      rq_count := rq_count r + 1\<rparr>"
    using add True d(1) by (auto simp: ring_add_def split: if_splits)
  have n: "unat (rq_count r') = Suc ?n" using count_step(1) [OF ok] True by (simp add: r')
  have less: "?n < unat (rq_size r)" using True by (simp add: word_less_nat_alt)
  have at: "rq_queue r' ! unat (slot r i) = (if i = ?n then a else rq_queue r ! unat (slot r i))" if "i \<le> ?n" for i
    using that slot_less [OF ok] less inj_onD [OF slot_inj [OF ok], of i ?n] by (auto simp: r' d(7) nth_list_update)
  have "items r' ! i = (items r @ [a]) ! i" if "i < Suc ?n" for i
    using that at [of i] by (simp add: items_def n nth_append del: upt_Suc) (simp add: r')
  then have items: "items r' = items r @ [a]" by (intro nth_equalityI) (simp_all add: n)
  have "unat (rq_tail r') = unat (slot r' (unat (rq_count r')))"
  proof -
    have "unat (rq_tail r + 1) = Suc (unat (rq_tail r))"
      using slot_less [OF ok, of ?n] d(3,4,7) less by (simp add: unat_word_ariths)
    then have "unat (rq_tail r') = Suc (unat (slot r ?n)) mod unat (rq_size r)" by (simp add: r' unat_mod d(7))
    also have "\<dots> = (unat (rq_head r) + Suc ?n) mod unat (rq_size r)"
      using less by (simp add: unat_slot [OF ok] mod_Suc_eq)
    also have "\<dots> = unat (slot r (Suc ?n))" using less by (simp add: unat_slot [OF ok])
    finally show ?thesis by (simp add: n) (simp add: r')
  qed
  then have tail: "rq_tail r' = slot r' (unat (rq_count r'))" by (simp add: word_unat_eq_iff)
  have "ring_ok r'"
    by (rule ring_okI [OF ok _ _ _ _ _ tail])
      (use d True n less items in \<open>simp_all add: r' word_le_nat_alt\<close>)
  with True r'(1) items show ?thesis by simp
qed

lemma ring_pick_spec:
  assumes ok: "ring_ok r" and pick: "pick_next r = (x, r')"
  shows "ring_ok r' \<and> (case items r of [] \<Rightarrow> x = (if rq_running r then None else Some 0) \<and> r' = r
    | a # as \<Rightarrow> x = Some a \<and> items r' = as)"
proof (cases "rq_count r = 0")
  case True
  then have "items r = []" by (simp add: items_def)
  with True ok pick ring_okD(1) [OF ok] show ?thesis by (auto simp: pick_next_def)
next
  case False
  note d = ring_okD [OF ok] and n = count_step(2,3) [OF ok]
  let ?n = "unat (rq_count r)"
  have pos: "0 < ?n" using n(1) [OF False] by linarith
  have r': "x = Some (rq_queue r ! unat (rq_head r))" "rq_queue r' = rq_queue r" "rq_size r' = rq_size r"
    "rq_head r' = (rq_head r + 1) mod rq_size r" "rq_count r' = rq_count r - 1" "rq_tail r' = rq_tail r" "rq_initialized r'"
    using pick False d(1) by (auto simp: pick_next_def)
  have size: "0 < unat (rq_size r)" using d(2) by (simp add: word_less_nat_alt)
  have h: "unat (rq_head r') = (unat (rq_head r) + 1) mod unat (rq_size r)"
    using unat_slot [OF ok, of 1] size by (simp add: slot_def r'(4))
  have head: "rq_head r' < rq_size r" using h size by (simp add: word_less_nat_alt)
  have shift: "unat (slot r' i) = unat (slot r (Suc i))" if "i < unat (rq_size r)" for i
  proof -
    have "unat (rq_head r') + i < 2 ^ 32" using head d(3) that by (simp add: word_less_nat_alt)
    moreover have "i < 2 ^ 32" using d(3) that by simp
    ultimately have "unat (slot r' i) = (unat (rq_head r') + i) mod unat (rq_size r)"
      by (simp add: slot_def r'(3) unat_mod unat_word_ariths unat_of_nat)
    also have "\<dots> = (unat (rq_head r) + Suc i) mod unat (rq_size r)" unfolding h by (simp add: mod_simps)
    also have "\<dots> = unat (slot r (Suc i))" using unat_slot [OF ok, of "Suc i"] that by simp
    finally show ?thesis .
  qed
  have cnt: "unat (rq_count r') = ?n - 1" using n(1) [OF False] by (simp add: r'(5))
  have items: "items r' = tl (items r)"
  proof (rule nth_equalityI)
    fix i assume "i < length (items r')"
    then have i: "Suc i < ?n" "i < unat (rq_size r)" using cnt n(2) by simp_all
    then show "items r' ! i = tl (items r) ! i"
      using shift [OF i(2)] cnt by (simp add: nth_items nth_tl r'(2))
  qed (simp add: cnt)
  have first: "items r = rq_queue r ! unat (rq_head r) # items r'"
  proof -
    have "items r ! 0 = rq_queue r ! unat (rq_head r)"
      using pos unat_slot [OF ok, of 0] d(5) by (simp add: nth_items word_less_nat_alt)
    moreover have "items r \<noteq> []" using pos length_items [of r] by (metis list.size(3) less_irrefl)
    ultimately show ?thesis using items by (cases "items r") auto
  qed
  have "unat (rq_tail r') = unat (slot r' (unat (rq_count r')))"
    using shift [of "?n - 1"] pos n(2) by (simp add: r'(6) d(7) cnt)
  then have tail: "rq_tail r' = slot r' (unat (rq_count r'))" by (simp add: word_unat_eq_iff)
  have "ring_ok r'"
    by (rule ring_okI [OF ok _ _ _ _ _ tail])
      (use d head cnt n(2) first in \<open>auto simp: r' word_le_nat_alt\<close>)
  with first r'(1) show ?thesis by simp
qed

lemma find_slot_Some:
  assumes "find_slot a r = Some i"
  shows "i < unat (rq_count r)" and "items r ! i = a" and "\<And>j. j < i \<Longrightarrow> items r ! j \<noteq> a"
  using assms by (auto simp: find_slot_def find_Some_iff nth_items)

lemma find_slot_None: "find_slot a r = None \<longleftrightarrow> a \<notin> set (items r)"
  by (auto simp: find_slot_def find_None_iff items_def)

lemma remove1_at:
  "i < length xs \<Longrightarrow> xs ! i = a \<Longrightarrow> (\<And>j. j < i \<Longrightarrow> xs ! j \<noteq> a) \<Longrightarrow> remove1 a xs = take i xs @ drop (Suc i) xs"
proof (induction xs arbitrary: i)
  case (Cons x xs)
  show ?case
  proof (cases i)
    case 0
    with Cons.prems show ?thesis by simp
  next
    case (Suc k)
    have "x \<noteq> a" using Cons.prems(3) [of 0] Suc by simp
    moreover have "remove1 a xs = take k xs @ drop (Suc k) xs"
      by (rule Cons.IH) (use Cons.prems Suc in force)+
    ultimately show ?thesis using Suc by simp
  qed
qed simp

lemma ring_remove_spec:
  assumes ok: "ring_ok r" and rem: "ring_remove a r = (x, r')"
  shows "ring_ok r' \<and> (if a \<in> set (items r) then x = 0 \<and> items r' = remove1 a (items r) else x = - 1 \<and> r' = r)"
proof (cases "find_slot a r")
  case None
  with ok rem ring_okD(1) [OF ok] find_slot_None [of a r] show ?thesis by (auto simp: ring_remove_def split: if_splits)
next
  case (Some i)
  note d = ring_okD [OF ok] and f = find_slot_Some [OF Some]
  let ?n = "unat (rq_count r)"
  have mem: "a \<in> set (items r)" using Some find_slot_None [of a r] by auto
  then have a: "a \<noteq> 0" using d(8) by auto
  have nz: "rq_count r \<noteq> 0" using f(1) by auto
  note n = count_step(2,3) [OF ok]
  have cnt: "unat (rq_count r - 1) = ?n - 1" using n(1) [OF nz] by linarith
  have r': "x = 0" "r' = r\<lparr>rq_queue := close_gap r i, rq_tail := (rq_tail r - 1 + rq_size r) mod rq_size r, rq_count := rq_count r - 1\<rparr>"
    using rem Some a d(1) by (simp_all add: ring_remove_def)
  have len: "unat (slot r j) < length (rq_queue r)" if "j < unat (rq_size r)" for j using slot_less [OF ok] that by simp
  have gap: "close_gap r i ! unat (slot r j) = (if i \<le> j \<and> j < ?n - 1 then rq_queue r ! unat (slot r (j + 1)) else rq_queue r ! unat (slot r j))"
    if "j < ?n" for j
    using gap_loop [OF slot_inj [OF ok] len, of i "?n - 1 - i" j] that f(1) n(2) by (simp add: close_gap_def cnt)
  have "items r' = take i (items r) @ drop (Suc i) (items r)"
  proof (rule nth_equalityI)
    show "length (items r') = length (take i (items r) @ drop (Suc i) (items r))" using f(1) by (simp add: r'(2) cnt)
    fix j assume "j < length (items r')"
    then have j: "j < ?n - 1" by (simp add: r'(2) cnt)
    have "items r' ! j = close_gap r i ! unat (slot r j)" using j by (simp add: nth_items r'(2) cnt)
    also have "\<dots> = (take i (items r) @ drop (Suc i) (items r)) ! j"
      using gap [of j] j f(1) by (auto simp: nth_append nth_items)
    finally show "items r' ! j = (take i (items r) @ drop (Suc i) (items r)) ! j" .
  qed
  then have items: "items r' = remove1 a (items r)" using remove1_at [of i "items r" a] f by simp
  have size: "0 < unat (rq_size r)" using d(2) by (simp add: word_less_nat_alt)
  have "unat (rq_tail r') = unat (slot r (?n - 1))"
  proof -
    let ?t = "unat (rq_tail r)" and ?s = "unat (rq_size r)"
    have t: "?t = (unat (rq_head r) + ?n) mod ?s" using n(2) by (simp add: d(7) unat_slot [OF ok])
    have "unat (rq_tail r - 1 + rq_size r) mod ?s = (?t + (?s - 1)) mod ?s"
    proof (cases "rq_tail r = 0")
      case True
      then show ?thesis using size by (simp add: unat_minus_one [of "rq_size r"] unat_gt_0 add.commute)
    next
      case False
      have "?t < ?s" using t size by simp
      then have "unat (rq_tail r - 1 + rq_size r) = ?t - 1 + ?s"
        using d(3) unat_minus_one [OF False] by (simp add: unat_word_ariths)
      moreover have "0 < ?t" using False by (simp add: unat_gt_0)
      ultimately show ?thesis using size by simp
    qed
    also have "\<dots> = (unat (rq_head r) + ?n + (?s - 1)) mod ?s" unfolding t by (simp add: mod_simps)
    also have "\<dots> = (unat (rq_head r) + (?n - 1) + ?s) mod ?s"
    proof -
      have "unat (rq_head r) + ?n + (?s - 1) = unat (rq_head r) + (?n - 1) + ?s" using size f(1) by linarith
      then show ?thesis by (rule arg_cong)
    qed
    also have "\<dots> = unat (slot r (?n - 1))" using n(2) by (simp add: unat_slot [OF ok])
    finally show ?thesis by (simp add: r'(2) unat_mod)
  qed
  then have tail: "rq_tail r' = slot r' (unat (rq_count r'))" by (simp add: r'(2) cnt word_unat_eq_iff)
  have "length (close_gap r i) = length (rq_queue r)" unfolding close_gap_def by (rule length_fold) simp
  moreover have "0 \<notin> set (items r')" using d(8) items set_remove1_subset [of a "items r"] by auto
  moreover have "rq_count r' \<le> rq_size r" using cnt n(2) by (simp add: r'(2) word_le_nat_alt)
  ultimately have "ring_ok r'"
    by (intro ring_okI [OF ok _ _ _ _ _ tail]) (use d in \<open>simp_all add: r'(2)\<close>)
  with mem r'(1) items show ?thesis by simp
qed

lemma ring_update_spec:
  assumes ok: "ring_ok r" and upd: "ring_update a r = (x, r')"
  shows "ring_ok r' \<and> (if a \<in> set (items r) then x = 0 \<and> items r' = a # remove1 a (items r) else x = - 1 \<and> r' = r)"
proof (cases "find_slot a r")
  case None
  with ok upd ring_okD(1) [OF ok] find_slot_None [of a r] show ?thesis by (auto simp: ring_update_def split: if_splits)
next
  case (Some i)
  note d = ring_okD [OF ok] and f = find_slot_Some [OF Some] and n = count_step(3) [OF ok]
  let ?n = "unat (rq_count r)"
  have mem: "a \<in> set (items r)" using Some find_slot_None [of a r] by auto
  then have a: "a \<noteq> 0" using d(8) by auto
  have r': "x = 0" "r' = r\<lparr>rq_queue := bring_forward r i\<rparr>"
    using upd Some a d(1) by (simp_all add: ring_update_def)
  have len: "unat (slot r j) < length (rq_queue r)" if "j < unat (rq_size r)" for j using slot_less [OF ok] that by simp
  have front: "bring_forward r i ! unat (slot r j) = (if j = 0 then rq_queue r ! unat (slot r i)
      else if j \<le> i then rq_queue r ! unat (slot r (j - 1)) else rq_queue r ! unat (slot r j))" if "j < ?n" for j
    using front_loop [OF slot_inj [OF ok] len, of i i j] that f(1) n unfolding bring_forward_def by auto
  have "items r' = a # (take i (items r) @ drop (Suc i) (items r))"
  proof (rule nth_equalityI)
    show "length (items r') = length (a # (take i (items r) @ drop (Suc i) (items r)))" using f(1) by (simp add: r'(2))
    fix j assume "j < length (items r')"
    then have j: "j < ?n" by (simp add: r'(2))
    have "items r' ! j = bring_forward r i ! unat (slot r j)" using j by (simp add: nth_items r'(2))
    also have "\<dots> = (a # (take i (items r) @ drop (Suc i) (items r))) ! j"
      using front [OF j] j f(1,2) by (auto simp: nth_append nth_items nth_Cons split: nat.splits)
    finally show "items r' ! j = (a # (take i (items r) @ drop (Suc i) (items r))) ! j" .
  qed
  then have items: "items r' = a # remove1 a (items r)" using remove1_at [of i "items r" a] f by simp
  have "length (bring_forward r i) = length (rq_queue r)" unfolding bring_forward_def by (rule length_fold) simp
  moreover have "0 \<notin> set (items r')" using d(8) items a set_remove1_subset [of a "items r"] by auto
  ultimately have "ring_ok r'"
    by (intro ring_okI [OF ok]) (use d in \<open>simp_all add: r'(2)\<close>)
  with mem r'(1) items show ?thesis by simp
qed

section \<open>What a queue promises\<close>

text \<open>Calls on a queue, and what a run of them accepts and hands out.\<close>

datatype 'a queue_call = Put 'a | Take

fun run_calls :: "('a \<Rightarrow> 'q \<Rightarrow> int \<times> 'q) \<Rightarrow> ('q \<Rightarrow> 'a option \<times> 'q) \<Rightarrow> 'a queue_call list \<Rightarrow> 'q \<Rightarrow> 'a list \<times> 'a list \<times> 'q" where
  "run_calls enq deq [] q = ([], [], q)"
| "run_calls enq deq (Put a # cs) q =
     (case enq a q of (x, q) \<Rightarrow> case run_calls enq deq cs q of (ins, outs, q) \<Rightarrow> (if x = 0 then a # ins else ins, outs, q))"
| "run_calls enq deq (Take # cs) q =
     (case deq q of (x, q) \<Rightarrow> case run_calls enq deq cs q of (ins, outs, q) \<Rightarrow>
        (ins, (case x of None \<Rightarrow> outs | Some a \<Rightarrow> a # outs), q))"

locale fifo =
  fixes good :: "'q \<Rightarrow> bool"
    and content :: "'q \<Rightarrow> 'a list"
    and enq :: "'a \<Rightarrow> 'q \<Rightarrow> int \<times> 'q"
    and deq :: "'q \<Rightarrow> 'a option \<times> 'q"
  assumes enq: "good q \<Longrightarrow> enq a q = (x, q') \<Longrightarrow> good q' \<and> content q' = (if x = 0 then content q @ [a] else content q)"
    and deq: "good q \<Longrightarrow> deq q = (y, q') \<Longrightarrow>
      good q' \<and> content q = (case y of None \<Rightarrow> [] | Some a \<Rightarrow> [a]) @ content q'"
begin

text \<open>Whatever goes in comes out in that order, once, or is still there.\<close>

lemma conserved:
  "good q \<Longrightarrow> run_calls enq deq cs q = (ins, outs, q') \<Longrightarrow> good q' \<and> content q @ ins = outs @ content q'"
proof (induction cs arbitrary: q ins outs)
  case (Cons c cs)
  show ?case
  proof (cases c)
    case (Put a)
    obtain x q1 where p: "enq a q = (x, q1)" by fastforce
    obtain ins1 where r: "run_calls enq deq cs q1 = (ins1, outs, q')" "ins = (if x = 0 then a # ins1 else ins1)"
      using Cons.prems(2) p Put by (auto split: prod.splits)
    from enq [OF Cons.prems(1) p] have g: "good q1" "content q1 = (if x = 0 then content q @ [a] else content q)" by auto
    from Cons.IH [OF g(1) r(1)] g(2) r(2) show ?thesis by auto
  next
    case Take
    obtain y q1 where t: "deq q = (y, q1)" by fastforce
    obtain outs1 where r: "run_calls enq deq cs q1 = (ins, outs1, q')"
      "outs = (case y of None \<Rightarrow> [] | Some a \<Rightarrow> [a]) @ outs1"
      using Cons.prems(2) t Take by (auto split: prod.splits option.splits)
    from deq [OF Cons.prems(1) t] have g: "good q1" "content q = (case y of None \<Rightarrow> [] | Some a \<Rightarrow> [a]) @ content q1" by auto
    from Cons.IH [OF g(1) r(1)] g(2) r(2) show ?thesis by auto
  qed
qed simp

end

text \<open>A pick that waits, or that finds a stopped scheduler, hands out no agent.\<close>

definition taken :: "ring \<Rightarrow> agent_id option \<times> ring" where
  "taken r = (case pick_next r of (x, r) \<Rightarrow> (if x = Some 0 then None else x, r))"

interpretation ready: fifo ring_ok items ring_add taken
proof unfold_locales
  fix r a x r' assume "ring_ok r" "ring_add a r = (x, r')"
  from ring_add_spec [OF this] show "ring_ok r' \<and> items r' = (if x = 0 then items r @ [a] else items r)"
    by (auto split: if_splits)
next
  fix r y r' assume r: "ring_ok r" "taken r = (y, r')"
  then obtain x where x: "pick_next r = (x, r')" "y = (if x = Some 0 then None else x)"
    by (auto simp: taken_def split: prod.splits)
  from ring_pick_spec [OF r(1) x(1)] x(2) ring_okD(8) [OF r(1)]
  show "ring_ok r' \<and> items r = (case y of None \<Rightarrow> [] | Some a \<Rightarrow> [a]) @ items r'"
    by (cases "items r") (auto split: if_splits)
qed

section \<open>Reachable states\<close>

datatype ring_op = Op_add agent_id | Op_remove agent_id | Op_update agent_id | Op_yield agent_id
  | Op_block agent_id | Op_unblock agent_id | Op_pick | Op_start | Op_stop

fun ring_step :: "ring_op \<Rightarrow> ring \<Rightarrow> ring" where
  "ring_step (Op_add a) r = snd (ring_add a r)"
| "ring_step (Op_remove a) r = snd (ring_remove a r)"
| "ring_step (Op_update a) r = snd (ring_update a r)"
| "ring_step (Op_yield a) r = snd (ring_yield a r)"
| "ring_step (Op_block a) r = snd (ring_block a r)"
| "ring_step (Op_unblock a) r = snd (ring_unblock a r)"
| "ring_step Op_pick r = snd (pick_next r)"
| "ring_step Op_start r = snd (ring_start r)"
| "ring_step Op_stop r = snd (ring_stop r)"

text \<open>The same on a list of at most \<open>n\<close> agents.\<close>

fun list_step :: "nat \<Rightarrow> ring_op \<Rightarrow> agent_id list \<Rightarrow> agent_id list" where
  "list_step n (Op_add a) as = (if a \<noteq> 0 \<and> length as < n then as @ [a] else as)"
| "list_step n (Op_yield a) as = (if a \<noteq> 0 \<and> length as < n then as @ [a] else as)"
| "list_step n (Op_unblock a) as = (if a \<noteq> 0 \<and> length as < n then as @ [a] else as)"
| "list_step n (Op_remove a) as = remove1 a as"
| "list_step n (Op_block a) as = remove1 a as"
| "list_step n (Op_update a) as = (if a \<in> set as then a # remove1 a as else as)"
| "list_step n Op_pick as = tl as"
| "list_step n Op_start as = as"
| "list_step n Op_stop as = as"

lemma ring_switch_ok:
  assumes "ring_ok r"
  shows "ring_ok (r\<lparr>rq_running := b\<rparr>)" and "items (r\<lparr>rq_running := b\<rparr>) = items r"
proof -
  show i: "items (r\<lparr>rq_running := b\<rparr>) = items r" by (simp add: items_def)
  show "ring_ok (r\<lparr>rq_running := b\<rparr>)" by (rule ring_okI [OF assms]) (use ring_okD [OF assms] i in simp_all)
qed

lemma ring_size_same: "rq_size (ring_step op r) = rq_size r"
  by (cases op) (auto simp: ring_add_def ring_remove_def ring_update_def ring_yield_def ring_block_def ring_unblock_def
    pick_next_def ring_start_def ring_stop_def split: option.splits)

lemma ring_step_spec:
  assumes ok: "ring_ok r"
  shows "ring_ok (ring_step op r) \<and> items (ring_step op r) = list_step (unat (rq_size r)) op (items r)"
proof -
  have add: "ring_ok (snd (ring_add a r)) \<and>
      items (snd (ring_add a r)) = (if a \<noteq> 0 \<and> length (items r) < unat (rq_size r) then items r @ [a] else items r)" for a
    using ring_add_spec [OF ok prod.collapse [symmetric], of a] by (auto simp: word_less_nat_alt split: if_splits)
  have rem: "ring_ok (snd (ring_remove a r)) \<and> items (snd (ring_remove a r)) = remove1 a (items r)" for a
    using ring_remove_spec [OF ok prod.collapse [symmetric], of a] by (auto simp: remove1_idem split: if_splits)
  have zero: "0 \<notin> set (items r)" "rq_initialized r" using ring_okD [OF ok] by simp_all
  show ?thesis
  proof (cases op)
    case (Op_update a)
    then show ?thesis using ring_update_spec [OF ok prod.collapse [symmetric], of a] by (auto split: if_splits)
  next
    case Op_pick
    then show ?thesis using ring_pick_spec [OF ok prod.collapse [symmetric]] by (cases "items r") auto
  qed (use add rem ok zero ring_switch_ok [OF ok] in
    \<open>auto simp: ring_yield_def ring_block_def ring_unblock_def ring_start_def ring_stop_def remove1_idem\<close>)
qed

lemma ring_init_ok:
  assumes "ring_init alloc (Some c) r = (0, r')" and "unat (qc_max_agents c) \<le> 2 ^ 31"
  shows "ring_ok r'" and "items r' = []" and "rq_size r' = qc_max_agents c"
proof -
  have r': "r' = zero_ring\<lparr>rq_size := qc_max_agents c, rq_queue := replicate (unat (qc_max_agents c)) 0, rq_config := c,
      rq_initialized := True\<rparr>" "qc_max_agents c \<noteq> 0"
    using assms(1) by (auto simp: ring_init_def Let_def split: if_splits)
  then show "items r' = []" "rq_size r' = qc_max_agents c" by (simp_all add: items_def zero_ring_def)
  with r' assms(2) show "ring_ok r'"
    by (simp add: ring_ok_def zero_ring_def slot_def word_greater_zero_iff)
qed

section \<open>Properties\<close>

text \<open>
  C201. The ring is a list. From a start with room for at most \<open>2 ^ 31\<close> agents, any sequence of
  operations leaves in the ring, from its head on, exactly what the same operations leave in a list
  of bounded length: add, yield and unblock append, remove and block delete the first occurrence,
  update moves it to the front, pick takes from the front.
\<close>

theorem ring_refines_list:
  assumes "ring_init True (Some c) r = (0, r0)" and "unat (qc_max_agents c) \<le> 2 ^ 31"
  shows "items (fold ring_step ops r0) = fold (list_step (unat (qc_max_agents c))) ops []"
proof -
  have "ring_ok (fold ring_step ops r) \<and> items (fold ring_step ops r) = fold (list_step (unat (rq_size r))) ops (items r)"
    if "ring_ok r" for r
    using that
  proof (induction ops arbitrary: r)
    case (Cons op ops)
    from ring_step_spec [OF Cons.prems, of op] Cons.IH [of "ring_step op r"] show ?case by (simp add: ring_size_same)
  qed simp
  with ring_init_ok [OF assms] show ?thesis by simp
qed

definition demo_ring_config :: queue_config where
  "demo_ring_config = \<lparr>qc_max_agents = 2, qc_time_slice_ms = 0, qc_preemptive = False, qc_policy = Policy_fifo\<rparr>"

lemma ring_refines_list_witness:
  "items (fold ring_step [Op_add 5, Op_add 6, Op_add 7, Op_pick, Op_add 8, Op_update 8]
     (snd (ring_init True (Some demo_ring_config) zero_ring))) = [8, 6]"
proof -
  have "fst (ring_init True (Some demo_ring_config) zero_ring) = 0" by code_simp
  then have "ring_init True (Some demo_ring_config) zero_ring = (0, snd (ring_init True (Some demo_ring_config) zero_ring))"
    by (simp add: prod_eq_iff)
  note run = ring_refines_list [OF this, of "[Op_add 5, Op_add 6, Op_add 7, Op_pick, Op_add 8, Op_update 8]"]
  have "unat (qc_max_agents demo_ring_config) = 2" by (simp add: demo_ring_config_def)
  note run = run [unfolded this]
  have "fold (list_step 2) [Op_add 5, Op_add 6, Op_add 7, Op_pick, Op_add 8, Op_update 8] [] = [8, 6]" by simp
  with run show ?thesis by (simp del: fold.simps)
qed

text \<open>
  The scheduler is fair to what it accepts: in any run of additions and picks, also when it is
  full, empty or stopped at times, the agents that are picked are the accepted ones in the order of
  their acceptance, none twice, and those not yet picked are in the queue in that order.
\<close>

theorem picks_in_order:
  assumes "ring_init True (Some c) r = (0, r0)" and "unat (qc_max_agents c) \<le> 2 ^ 31"
    and "run_calls ring_add taken cs r0 = (ins, outs, r')"
  shows "ins = outs @ items r'"
  using ready.conserved [OF ring_init_ok(1) [OF assms(1,2)] assms(3)] ring_init_ok(2) [OF assms(1,2)] by simp

lemma picks_in_order_witness:
  "fst (snd (run_calls ring_add taken [Put 5, Put 6, Put 7, Take, Put 8, Take]
     (snd (ring_init True (Some demo_ring_config) zero_ring)))) = [5, 6]"
proof -
  let ?r = "snd (ring_init True (Some demo_ring_config) zero_ring)"
  let ?run = "run_calls ring_add taken [Put 5, Put 6, Put 7, Take, Put 8, Take] ?r"
  have "fst (ring_init True (Some demo_ring_config) zero_ring) = 0" by code_simp
  then have init: "ring_init True (Some demo_ring_config) zero_ring = (0, ?r)" by (simp add: prod_eq_iff)
  have "fst ?run = [5, 6, 8]" "items (snd (snd ?run)) = [8]" by code_simp+
  moreover obtain ins outs r' where run: "?run = (ins, outs, r')" by (rule prod_cases3)
  ultimately show ?thesis using picks_in_order [OF init _ run] by (simp add: demo_ring_config_def)
qed

end
