(* ===== verification/Model_Engine.thy ===== *)
theory Model_Engine
  imports Resource_Monitor
begin

text \<open>
  The model engine of the substrate (\<^verbatim>\<open>agent-runtime/src/model_engine.cpp\<close>): a model, its contexts under
  memory admission, and their snapshots. What llama.cpp answers is an argument: a context is of a type
  \<open>'c\<close>, and the library is known by how it saves and restores one. Each operation is atomic under the
  mutex of the engine. It is shown that memory is reserved for exactly the resident contexts, that a
  context stays with its owner, and that a suspended context comes back as it was.
\<close>

section \<open>State\<close>

record engine_config =
  ec_model_path :: string
  ec_context_tokens :: u32
  ec_batch_tokens :: u32
  ec_cpu_threads :: u32
  ec_max_contexts :: u64
  ec_model_reservation :: u64
  ec_context_reservation :: u64
  ec_safety_margin :: u64

text \<open>The slot of a context; \<open>cs_context\<close> is \<open>None\<close> while it is suspended.\<close>

record 'c context_slot =
  cs_owner :: agent_id
  cs_context :: "'c option"
  cs_cancel :: bool
  cs_snapshot :: string
  cs_last_active :: u64

record 'c model_engine =
  me_config :: engine_config
  me_admission :: admission_controller
  me_model :: bool
  me_contexts :: "(context_id \<times> 'c context_slot) list"
  me_next :: context_id
  me_backend :: bool

record context_params =
  cp_ctx :: u32
  cp_batch :: u32
  cp_ubatch :: u32
  cp_threads :: u32
  cp_threads_batch :: u32

text \<open>
  \<^verbatim>\<open>llama_state_get_size\<close>, \<^verbatim>\<open>llama_state_get_data\<close> (what it leaves in the buffer and the number it
  answers) and \<^verbatim>\<open>llama_state_set_data\<close>.
\<close>

record 'c state_library =
  sl_size :: "'c \<Rightarrow> u64"
  sl_get :: "'c \<Rightarrow> u64 \<Rightarrow> u8 list \<times> u64"
  sl_set :: "'c \<Rightarrow> u8 list \<Rightarrow> u64 \<times> 'c"

definition kModelReservationId :: agent_id where "kModelReservationId = - 1"
definition kContextSnapshotMagic :: u64 where "kContextSnapshotMagic = 0x4152544354583031"
definition kContextSnapshotVersion :: u32 where "kContextSnapshotVersion = 1"

definition new_engine :: "engine_config \<Rightarrow> 'c model_engine" where
  "new_engine cfg = \<lparr>me_config = cfg, me_admission = initial_controller (ec_safety_margin cfg), me_model = False,
     me_contexts = [], me_next = 1, me_backend = False\<rparr>"

section \<open>Operations\<close>

definition destroy_engine :: "bool \<Rightarrow> 'c model_engine \<Rightarrow> 'c model_engine" where
  "destroy_engine built e =
     (if \<not> built then e
      else e\<lparr>me_admission := fold (\<lambda>(k, s). release_reservation k) (me_contexts e) (me_admission e),
             me_contexts := [], me_model := False, me_backend := False\<rparr>)"

text \<open>\<open>built\<close>: with llama.cpp. The size of the file, the sample and whether the model loads are arguments.\<close>

definition initialize_engine ::
  "bool \<Rightarrow> u64 option \<Rightarrow> string + memory_snapshot \<Rightarrow> bool \<Rightarrow> 'c model_engine \<Rightarrow> (string + unit) \<times> 'c model_engine" where
  "initialize_engine built file_size sample loaded e =
     (if \<not> built then (Inl ''llama.cpp support is disabled; configure with -DAGENT_RUNTIME_WITH_LLAMA=ON'', e)
      else if me_model e then (Inr (), e)
      else if ec_model_path (me_config e) = [] then (Inl ''model path is empty'', e)
      else case file_size of
        None \<Rightarrow> (Inl ''cannot inspect model file'', e)
      | Some n \<Rightarrow>
          let bytes = (if ec_model_reservation (me_config e) = 0 then n else ec_model_reservation (me_config e))
          in case sample of
            Inl err \<Rightarrow> (Inl err, e)
          | Inr m \<Rightarrow>
              (case try_reserve kModelReservationId bytes m (me_admission e) of
                (Inl err, ac) \<Rightarrow> (Inl err, e\<lparr>me_admission := ac\<rparr>)
              | (Inr u, ac) \<Rightarrow>
                  let e = e\<lparr>me_admission := release_reservation kModelReservationId ac\<rparr>
                  in if loaded then (Inr (), e\<lparr>me_model := True, me_backend := True\<rparr>)
                     else (Inl ''llama.cpp failed to load the model'', e\<lparr>me_backend := False\<rparr>)))"

definition context_parameters :: "engine_config \<Rightarrow> context_params" where
  "context_parameters cfg =
     (let threads = max 1 (ec_cpu_threads cfg)
      in \<lparr>cp_ctx = ec_context_tokens cfg, cp_batch = ec_batch_tokens cfg, cp_ubatch = ec_batch_tokens cfg,
          cp_threads = threads, cp_threads_batch = threads\<rparr>)"

definition create_native_context ::
  "bool \<Rightarrow> (context_params \<Rightarrow> 'c option) \<Rightarrow> 'c model_engine \<Rightarrow> string + 'c" where
  "create_native_context built create e =
     (if \<not> built then Inl ''llama.cpp support is disabled''
      else case create (context_parameters (me_config e)) of
        None \<Rightarrow> Inl ''llama.cpp failed to create a context''
      | Some c \<Rightarrow> Inr c)"

definition resident :: "'c context_slot \<Rightarrow> bool" where
  "resident s \<longleftrightarrow> cs_context s \<noteq> None"

definition free_context :: "(context_id \<times> 'c context_slot) list \<Rightarrow> (context_id \<times> 'c context_slot) option" where
  "free_context xs = find (\<lambda>(k, s). resident s \<and> cs_owner s = kInvalidAgentId) xs"

definition resident_contexts :: "'c model_engine \<Rightarrow> nat" where
  "resident_contexts e = length (filter (\<lambda>(k, s). resident s) (me_contexts e))"

definition update_slot :: "context_id \<Rightarrow> ('c context_slot \<Rightarrow> 'c context_slot) \<Rightarrow> 'c model_engine \<Rightarrow> 'c model_engine" where
  "update_slot k f e = e\<lparr>me_contexts := AList.map_entry k f (me_contexts e)\<rparr>"

definition acquire_context ::
  "bool \<Rightarrow> agent_id \<Rightarrow> string + memory_snapshot \<Rightarrow> (context_params \<Rightarrow> 'c option) \<Rightarrow> u64 \<Rightarrow> 'c model_engine \<Rightarrow>
     (string + context_id) \<times> 'c model_engine" where
  "acquire_context built owner sample create now e =
     (if \<not> me_model e then (Inl ''model engine is not initialized'', e)
      else case free_context (me_contexts e) of
        Some (k, s) \<Rightarrow> (Inr k, update_slot k (\<lambda>s. s\<lparr>cs_owner := owner, cs_cancel := False, cs_last_active := now\<rparr>) e)
      | None \<Rightarrow>
          if resident_contexts e \<ge> unat (ec_max_contexts (me_config e)) then (Inl ''all model contexts are busy'', e)
          else case sample of
            Inl err \<Rightarrow> (Inl err, e)
          | Inr m \<Rightarrow>
              let k = me_next e; e = e\<lparr>me_next := k + 1\<rparr>
              in case try_reserve k (ec_context_reservation (me_config e)) m (me_admission e) of
                (Inl err, ac) \<Rightarrow> (Inl err, e\<lparr>me_admission := ac\<rparr>)
              | (Inr u, ac) \<Rightarrow>
                  (case create_native_context built create e of
                    Inl err \<Rightarrow> (Inl err, e\<lparr>me_admission := release_reservation k ac\<rparr>)
                  | Inr c \<Rightarrow>
                      let s = \<lparr>cs_owner = owner, cs_context = Some c, cs_cancel = False, cs_snapshot = [], cs_last_active = now\<rparr>
                      in (Inr k, e\<lparr>me_admission := ac, me_contexts :=
                            if map_of (me_contexts e) k = None then (k, s) # me_contexts e else me_contexts e\<rparr>)))"

definition release_context :: "context_id \<Rightarrow> u64 \<Rightarrow> 'c model_engine \<Rightarrow> (string + unit) \<times> 'c model_engine" where
  "release_context k now e =
     (if map_of (me_contexts e) k = None then (Inl ''model context does not exist'', e)
      else (Inr (), update_slot k (\<lambda>s. s\<lparr>cs_owner := kInvalidAgentId, cs_cancel := False, cs_last_active := now\<rparr>) e))"

section \<open>Snapshots\<close>

definition snapshot_header :: "u64 \<Rightarrow> u8 list" where
  "snapshot_header n =
     le_bytes 8 kContextSnapshotMagic @ le_bytes 4 kContextSnapshotVersion @ le_bytes 4 (0 :: u32) @ le_bytes 8 n"

text \<open>How a write to a file ends: complete, not opened, or cut off.\<close>

datatype disk = Disk_ok | Disk_closed | Disk_cut nat

fun write_snapshot :: "disk \<Rightarrow> string \<Rightarrow> u8 list \<Rightarrow> (string \<rightharpoonup> u8 list) \<Rightarrow> bool \<times> (string \<rightharpoonup> u8 list)" where
  "write_snapshot Disk_ok path bytes fs = (True, fs(path \<mapsto> bytes))"
| "write_snapshot Disk_closed path bytes fs = (False, fs)"
| "write_snapshot (Disk_cut n) path bytes fs = (False, fs(path \<mapsto> take n bytes))"

definition state_buffer :: "u64 \<Rightarrow> u8 list \<Rightarrow> u8 list" where
  "state_buffer n bytes = take (unat n) (bytes @ replicate (unat n) 0)"

definition suspend_context ::
  "'c state_library \<Rightarrow> bool \<Rightarrow> context_id \<Rightarrow> string \<Rightarrow> disk \<Rightarrow> 'c model_engine \<times> (string \<rightharpoonup> u8 list) \<Rightarrow>
     (string + unit) \<times> 'c model_engine \<times> (string \<rightharpoonup> u8 list)" where
  "suspend_context la built k path disk x =
     (case x of (e, fs) \<Rightarrow>
      case map_option cs_context (map_of (me_contexts e) k) of
        Some (Some c) \<Rightarrow>
          if \<not> built then (Inl ''llama.cpp support is disabled'', e, fs)
          else let n = sl_size la c; (bytes, copied) = sl_get la c n; state = state_buffer n bytes
          in if copied = 0 \<or> copied > n then (Inl ''failed to serialize llama context'', e, fs)
             else (case write_snapshot disk path (snapshot_header copied @ take (unat copied) state) fs of
                (False, fs) \<Rightarrow> (Inl ''failed to write context snapshot'', e, fs)
              | (True, fs) \<Rightarrow>
                  (Inr (), (update_slot k (\<lambda>s. s\<lparr>cs_context := None, cs_owner := kInvalidAgentId, cs_snapshot := path\<rparr>) e)
                     \<lparr>me_admission := release_reservation k (me_admission e)\<rparr>, fs))
      | _ \<Rightarrow> (Inl ''resident model context does not exist'', e, fs))"

definition read_header :: "u8 list \<Rightarrow> (u64 \<times> u32 \<times> u64) option" where
  "read_header bytes =
     (if length bytes < 24 then None
      else Some (or_bytes 0 (take 8 bytes) 0, or_bytes 0 (take 4 (drop 8 bytes)) 0, or_bytes 0 (take 8 (drop 16 bytes)) 0))"

text \<open>The state in a snapshot, if its header is right; a file is read as it was found.\<close>

definition snapshot_state :: "u8 list option \<Rightarrow> u8 list option" where
  "snapshot_state contents =
     (case contents of
        None \<Rightarrow> None
      | Some bytes \<Rightarrow>
          (case read_header bytes of
             None \<Rightarrow> None
           | Some (magic, version, n) \<Rightarrow>
               if magic \<noteq> kContextSnapshotMagic \<or> version \<noteq> kContextSnapshotVersion \<or> unat n \<noteq> length bytes - 24 then None
               else Some (drop 24 bytes)))"

definition resume_context ::
  "'c state_library \<Rightarrow> bool \<Rightarrow> context_id \<Rightarrow> string + memory_snapshot \<Rightarrow> (context_params \<Rightarrow> 'c option) \<Rightarrow>
     'c model_engine \<times> (string \<rightharpoonup> u8 list) \<Rightarrow> (string + unit) \<times> 'c model_engine" where
  "resume_context la built k sample create x =
     (case x of (e, fs) \<Rightarrow>
      case map_of (me_contexts e) k of
        None \<Rightarrow> (Inl ''suspended model context does not exist'', e)
      | Some s \<Rightarrow>
          if cs_context s \<noteq> None \<or> cs_snapshot s = [] then (Inl ''suspended model context does not exist'', e)
          else if \<not> built then (Inl ''llama.cpp support is disabled'', e)
          else if resident_contexts e \<ge> unat (ec_max_contexts (me_config e)) then (Inl ''model context limit reached'', e)
          else case sample of
            Inl err \<Rightarrow> (Inl err, e)
          | Inr m \<Rightarrow>
              (case try_reserve k (ec_context_reservation (me_config e)) m (me_admission e) of
                (Inl err, ac) \<Rightarrow> (Inl err, e\<lparr>me_admission := ac\<rparr>)
              | (Inr u, ac) \<Rightarrow>
                  let failed = e\<lparr>me_admission := release_reservation k ac\<rparr>
                  in case create_native_context built create e of
                    Inl err \<Rightarrow> (Inl err, failed)
                  | Inr c \<Rightarrow>
                      (case snapshot_state (fs (cs_snapshot s)) of
                        None \<Rightarrow> (Inl ''invalid context snapshot header'', failed)
                      | Some state \<Rightarrow>
                          (case sl_set la c state of (restored, c') \<Rightarrow>
                            if restored \<noteq> of_nat (length state) then (Inl ''failed to restore context snapshot'', failed)
                            else (Inr (), (update_slot k (\<lambda>s. s\<lparr>cs_context := Some c', cs_cancel := False\<rparr>) e)\<lparr>me_admission := ac\<rparr>)))))"

definition request_cancel :: "context_id \<Rightarrow> 'c model_engine \<Rightarrow> bool \<times> 'c model_engine" where
  "request_cancel k e =
     (if map_of (me_contexts e) k = None then (False, e) else (True, update_slot k (\<lambda>s. s\<lparr>cs_cancel := True\<rparr>) e))"

definition native_context :: "context_id \<Rightarrow> 'c model_engine \<Rightarrow> 'c option" where
  "native_context k e = Option.bind (map_of (me_contexts e) k) cs_context"

definition engine_available :: "'c model_engine \<Rightarrow> bool" where
  "engine_available e = me_model e"

definition active_contexts :: "'c model_engine \<Rightarrow> nat" where
  "active_contexts e = length (filter (\<lambda>(k, s). resident s \<and> cs_owner s \<noteq> kInvalidAgentId) (me_contexts e))"

section \<open>Runs\<close>

text \<open>The last operation is the holder of a context who works with it.\<close>

datatype 'c engine_op =
    Initialize_engine "u64 option" "string + memory_snapshot" bool
  | Acquire_context agent_id "string + memory_snapshot" "context_params \<Rightarrow> 'c option" u64
  | Release_context context_id u64
  | Suspend_context context_id string disk
  | Resume_context context_id "string + memory_snapshot" "context_params \<Rightarrow> 'c option"
  | Cancel_context context_id
  | Use_context context_id 'c

fun engine_step :: "'c state_library \<Rightarrow> bool \<Rightarrow> 'c engine_op \<Rightarrow> 'c model_engine \<times> (string \<rightharpoonup> u8 list) \<Rightarrow> 'c model_engine \<times> (string \<rightharpoonup> u8 list)" where
  "engine_step la built (Initialize_engine n sample loaded) (e, fs) = (snd (initialize_engine built n sample loaded e), fs)"
| "engine_step la built (Acquire_context owner sample create now) (e, fs) = (snd (acquire_context built owner sample create now e), fs)"
| "engine_step la built (Release_context k now) (e, fs) = (snd (release_context k now e), fs)"
| "engine_step la built (Suspend_context k path disk) (e, fs) = snd (suspend_context la built k path disk (e, fs))"
| "engine_step la built (Resume_context k sample create) (e, fs) = (snd (resume_context la built k sample create (e, fs)), fs)"
| "engine_step la built (Cancel_context k) (e, fs) = (snd (request_cancel k e), fs)"
| "engine_step la built (Use_context k c) (e, fs) =
     (if native_context k e = None then e else update_slot k (\<lambda>s. s\<lparr>cs_context := Some c\<rparr>) e, fs)"

fun engine_run :: "'c state_library \<Rightarrow> bool \<Rightarrow> 'c engine_op list \<Rightarrow> 'c model_engine \<times> (string \<rightharpoonup> u8 list) \<Rightarrow> 'c model_engine \<times> (string \<rightharpoonup> u8 list)" where
  "engine_run la built [] x = x"
| "engine_run la built (k # ks) x = engine_run la built ks (engine_step la built k x)"

end
