(* ===== verification/Model_Steps.thy ===== *)
theory Model_Steps
  imports Model_Engine
begin

text \<open>
  The runs of the model engine: the reservations are those of the resident contexts, an owner keeps a
  context until it is given back, and a snapshot brings a context back as it was.
\<close>

section \<open>Reservations\<close>

lemma try_reserve_Inr:
  assumes "try_reserve k b m ac = (Inr u, ac')"
  shows "ac' = ac\<lparr>ac_reservations := AList.update k b (ac_reservations ac)\<rparr>"
  using assms by (auto simp: try_reserve_def Let_def split: if_splits)

lemma try_reserve_Inl: "try_reserve k b m ac = (Inl err, ac') \<Longrightarrow> ac' = ac"
  by (auto simp: try_reserve_def Let_def split: if_splits)

definition reservation_of :: "engine_config \<Rightarrow> (context_id \<times> 'c context_slot) list \<Rightarrow> context_id \<Rightarrow> u64 option" where
  "reservation_of cfg xs k = (case map_of xs k of None \<Rightarrow> None | Some s \<Rightarrow> if resident s then Some (ec_context_reservation cfg) else None)"

text \<open>Numbers are those given out before; memory is reserved for the resident contexts.\<close>

definition engine_ok :: "engine_config \<Rightarrow> 'c model_engine \<Rightarrow> bool" where
  "engine_ok cfg e \<longleftrightarrow>
     me_config e = cfg \<and> ac_safety_margin (me_admission e) = ec_safety_margin cfg \<and> controller_ok (me_admission e) \<and>
     distinct (map fst (me_contexts e)) \<and> (\<forall>k \<in> fst ` set (me_contexts e). k < me_next e) \<and>
     map_of (ac_reservations (me_admission e)) = reservation_of cfg (me_contexts e) \<and>
     resident_contexts e \<le> unat (ec_max_contexts cfg)"

lemma engine_okI:
  assumes "me_config e = cfg" and "ac_safety_margin (me_admission e) = ec_safety_margin cfg" and "controller_ok (me_admission e)"
    and "distinct (map fst (me_contexts e))" and "\<And>k. k \<in> fst ` set (me_contexts e) \<Longrightarrow> k < me_next e"
    and "\<And>k. map_of (ac_reservations (me_admission e)) k = reservation_of cfg (me_contexts e) k"
    and "resident_contexts e \<le> unat (ec_max_contexts cfg)"
  shows "engine_ok cfg e"
  using assms unfolding engine_ok_def by blast

lemma engine_okD:
  assumes "engine_ok cfg e"
  shows "me_config e = cfg" and "ac_safety_margin (me_admission e) = ec_safety_margin cfg" and "controller_ok (me_admission e)"
    and "distinct (map fst (me_contexts e))" and "\<And>k. k \<in> fst ` set (me_contexts e) \<Longrightarrow> k < me_next e"
    and "\<And>k. map_of (ac_reservations (me_admission e)) k = reservation_of cfg (me_contexts e) k"
    and "resident_contexts e \<le> unat (ec_max_contexts cfg)"
  using assms unfolding engine_ok_def by auto

lemma new_engine_ok: "engine_ok cfg (new_engine cfg)"
  by (simp add: engine_ok_def new_engine_def initial_controller_def controller_ok_def resident_contexts_def reservation_of_def fun_eq_iff)

lemma map_entry_absent: "k \<notin> fst ` set xs \<Longrightarrow> AList.map_entry k f xs = xs"
  by (induction xs) auto

lemma resident_contexts_update:
  assumes "distinct (map fst xs)" and "map_of xs k = Some s"
  shows "length (filter (\<lambda>(k, s). resident s) (AList.map_entry k f xs)) + (if resident s then 1 else 0) =
    length (filter (\<lambda>(k, s). resident s) xs) + (if resident (f s) then 1 else 0)"
  using assms
proof (induction xs)
  case (Cons x xs)
  obtain j r where x: "x = (j, r)" by (rule prod.exhaust)
  show ?case
  proof (cases "j = k")
    case True
    then have "k \<notin> fst ` set xs" using Cons.prems(1) x by force
    then have "AList.map_entry k f xs = xs" by (rule map_entry_absent)
    with True x Cons.prems(2) show ?thesis by simp
  next
    case False
    with Cons x show ?thesis by simp
  qed
qed simp

lemma update_slot_fields [simp]:
  "me_config (update_slot k f e) = me_config e" "me_admission (update_slot k f e) = me_admission e"
  "me_model (update_slot k f e) = me_model e" "me_next (update_slot k f e) = me_next e"
  "me_contexts (update_slot k f e) = AList.map_entry k f (me_contexts e)"
  by (simp_all add: update_slot_def)

lemma map_of_entry: "map_of (AList.map_entry k f xs) j = (if j = k then map_option f (map_of xs k) else map_of xs j)"
  by (induction xs) auto

text \<open>A slot changes, and its reservation with it.\<close>

lemma update_slot_ok:
  assumes ok: "engine_ok cfg e" and s: "map_of (me_contexts e) k = Some s" and ac: "controller_ok ac" "ac_safety_margin ac = ec_safety_margin cfg"
    and res: "\<And>j. map_of (ac_reservations ac) j =
      (if j = k then (if resident (f s) then Some (ec_context_reservation cfg) else None) else map_of (ac_reservations (me_admission e)) j)"
    and room: "\<not> resident s \<Longrightarrow> resident (f s) \<Longrightarrow> resident_contexts e < unat (ec_max_contexts cfg)"
  shows "engine_ok cfg ((update_slot k f e)\<lparr>me_admission := ac\<rparr>)"
proof -
  note D = engine_okD [OF ok]
  note R = resident_contexts_update [OF D(4) s, of f]
  show ?thesis
  proof (rule engine_okI)
    show "map_of (ac_reservations (me_admission ((update_slot k f e)\<lparr>me_admission := ac\<rparr>))) j =
        reservation_of cfg (me_contexts ((update_slot k f e)\<lparr>me_admission := ac\<rparr>)) j" for j
      using res [of j] D(6) [of j] s by (simp add: reservation_of_def map_of_entry)
    show "resident_contexts ((update_slot k f e)\<lparr>me_admission := ac\<rparr>) \<le> unat (ec_max_contexts cfg)"
      using R D(7) room by (auto simp: resident_contexts_def split: if_splits)
  qed (use D ac in auto)
qed

lemma update_slot_keeps:
  assumes ok: "engine_ok cfg e" and same: "\<And>s. resident (f s) = resident s"
  shows "engine_ok cfg (update_slot k f e)"
proof (cases "map_of (me_contexts e) k")
  case None
  then have "k \<notin> fst ` set (me_contexts e)" by (simp add: map_of_eq_None_iff)
  then have "AList.map_entry k f (me_contexts e) = me_contexts e" by (rule map_entry_absent)
  then show ?thesis using ok by (simp add: update_slot_def)
next
  case (Some s)
  note D = engine_okD [OF ok]
  have "engine_ok cfg ((update_slot k f e)\<lparr>me_admission := me_admission e\<rparr>)"
    by (rule update_slot_ok [OF ok Some D(3,2)]) (use D(6) Some same in \<open>simp_all add: reservation_of_def\<close>)
  then show ?thesis by (simp add: update_slot_def)
qed

lemma absent_reservation: "engine_ok cfg e \<Longrightarrow> me_next e \<le> k \<Longrightarrow> map_of (ac_reservations (me_admission e)) k = None"
proof -
  assume ok: "engine_ok cfg e" and k: "me_next e \<le> k"
  then have "k \<notin> fst ` set (me_contexts e)" using engine_okD(5) [OF ok] by (meson not_less)
  then have "map_of (me_contexts e) k = None" by (simp add: map_of_eq_None_iff)
  then show ?thesis using engine_okD(6) [OF ok, of k] by (simp add: reservation_of_def)
qed

lemma admission_only:
  assumes ok: "engine_ok cfg e" and ac: "controller_ok ac" "ac_safety_margin ac = ec_safety_margin cfg"
    and res: "map_of (ac_reservations ac) = map_of (ac_reservations (me_admission e))"
  shows "engine_ok cfg (e\<lparr>me_admission := ac\<rparr>)"
  using assms by (simp add: engine_ok_def resident_contexts_def)

lemma reserve_fields:
  assumes "try_reserve k b m ac = (r, ac')" and "controller_ok ac"
  shows "controller_ok ac'" and "ac_safety_margin ac' = ac_safety_margin ac"
    and "controller_ok (release_reservation j ac')" and "ac_safety_margin (release_reservation j ac') = ac_safety_margin ac"
  using try_reserve_ok [OF assms(2), of k b m] assms(1) release_reservation_ok
  by (auto simp: try_reserve_def release_reservation_def Let_def split: if_splits)

lemma reserve_and_release:
  assumes "try_reserve k b m ac = (Inr u, ac')" and "map_of (ac_reservations ac) k = None"
  shows "map_of (ac_reservations (release_reservation k ac')) = map_of (ac_reservations ac)"
  using try_reserve_Inr [OF assms(1)] assms(2)
  by (auto simp: release_reservation_def AList.delete_conv AList.update_conv fun_eq_iff)

lemma initialize_engine_ok:
  assumes ok: "engine_ok cfg e" and room: "unat (me_next e) < 2 ^ 64 - 1"
  shows "engine_ok cfg (snd (initialize_engine built n sample loaded e))"
proof -
  note D = engine_okD [OF ok]
  have "me_next e \<le> kModelReservationId" by (simp add: kModelReservationId_def)
  note abs = absent_reservation [OF ok this]
  have flags: "engine_ok cfg (e\<lparr>me_admission := ac, me_model := a, me_backend := b\<rparr>)"
    "engine_ok cfg (e\<lparr>me_admission := ac, me_backend := b\<rparr>)"
    if "engine_ok cfg (e\<lparr>me_admission := ac\<rparr>)" for ac a b
    using that by (simp_all add: engine_ok_def resident_contexts_def)
  have "engine_ok cfg (e\<lparr>me_admission := ac'\<rparr>)" if "try_reserve kModelReservationId bytes m (me_admission e) = (Inl err, ac')" for bytes m err ac'
    using try_reserve_Inl [OF that] ok by simp
  moreover have "engine_ok cfg (e\<lparr>me_admission := release_reservation kModelReservationId ac'\<rparr>)"
    if "try_reserve kModelReservationId bytes m (me_admission e) = (Inr u, ac')" for bytes m u ac'
    using admission_only [OF ok] reserve_fields [OF that D(3)] D(2) reserve_and_release [OF that abs] by simp
  ultimately show ?thesis unfolding initialize_engine_def Let_def
    using ok flags by (auto split: option.split sum.split prod.split)
qed

lemma free_context_Some:
  "free_context xs = Some (k, s) \<Longrightarrow> (k, s) \<in> set xs \<and> resident s \<and> cs_owner s = 0"
  by (auto simp: free_context_def find_Some_iff) (metis nth_mem)

lemma number_step:
  fixes x :: context_id
  assumes "unat x < 2 ^ 64 - 1"
  shows "unat (x + 1) = Suc (unat x)" and "x < x + 1"
proof -
  have "x + 1 \<noteq> 0"
  proof
    assume "x + 1 = 0"
    then have "x = - 1" by (simp add: eq_neg_iff_add_eq_0)
    with assms show False by (simp add: unsigned_minus_1_eq_mask mask_eq_exp_minus_1)
  qed
  then show "unat (x + 1) = Suc (unat x)" by (metis unatSuc add.commute)
  then show "x < x + 1" by (simp add: word_less_nat_alt)
qed

lemma acquire_context_ok:
  assumes ok: "engine_ok cfg e" and room: "unat (me_next e) < 2 ^ 64 - 1"
  shows "engine_ok cfg (snd (acquire_context built owner sample create now e))"
proof (cases "\<not> me_model e \<or> free_context (me_contexts e) \<noteq> None \<or> resident_contexts e \<ge> unat (ec_max_contexts (me_config e)) \<or>
    (\<exists>err. sample = Inl err)")
  case True
  have "engine_ok cfg (update_slot k (\<lambda>s. s\<lparr>cs_owner := owner, cs_cancel := False, cs_last_active := now\<rparr>) e)" for k
    by (rule update_slot_keeps [OF ok]) (simp add: resident_def)
  with True ok show ?thesis by (auto simp: acquire_context_def split: option.split)
next
  case False
  then obtain m where m: "sample = Inr m" by (cases sample) auto
  note D = engine_okD [OF ok]
  have free: "me_model e" "free_context (me_contexts e) = None" "\<not> unat (ec_max_contexts cfg) \<le> resident_contexts e"
    using False unfolding D(1) by blast+
  define k where "k = me_next e"
  define e' where "e' = e\<lparr>me_next := k + 1\<rparr>"
  note N = number_step [OF room]
  have ok': "engine_ok cfg e'" using ok N(2) by (auto simp: engine_ok_def e'_def k_def resident_contexts_def intro: order_less_trans)
  have abs: "map_of (ac_reservations (me_admission e)) k = None" "k \<notin> fst ` set (me_contexts e)"
    using absent_reservation [OF ok] D(5) by (auto simp: k_def)
  obtain r ac where tr: "try_reserve k (ec_context_reservation cfg) m (me_admission e) = (r, ac)" by (rule prod.exhaust)
  note F = reserve_fields [OF tr D(3)]
  show ?thesis
  proof (cases r)
    case (Inl err)
    then have "snd (acquire_context built owner sample create now e) = e'\<lparr>me_admission := ac\<rparr>"
      using free m tr D(1) by (simp add: acquire_context_def Let_def k_def e'_def)
    moreover have "ac = me_admission e" using try_reserve_Inl [OF tr [unfolded Inl]] .
    ultimately show ?thesis using admission_only [OF ok' F(1)] F(2) D(2) by (simp add: e'_def)
  next
    case (Inr u)
    show ?thesis
    proof (cases "create_native_context built create e'")
      case (Inl err)
      then have "snd (acquire_context built owner sample create now e) = e'\<lparr>me_admission := release_reservation k ac\<rparr>"
        using free m tr D(1) Inr by (simp add: acquire_context_def Let_def k_def e'_def)
      then show ?thesis
        using admission_only [OF ok' F(3)] F(4) D(2) reserve_and_release [of k _ m "me_admission e" u ac] tr Inr abs by (simp add: e'_def)
    next
      case (Inr c)
      define s where "s = \<lparr>cs_owner = owner, cs_context = Some c, cs_cancel = False, cs_snapshot = [], cs_last_active = now\<rparr>"
      have eq: "snd (acquire_context built owner sample create now e) = e'\<lparr>me_admission := ac, me_contexts := (k, s) # me_contexts e\<rparr>"
        using free m tr D(1) Inr \<open>r = Inr u\<close> abs(2)
        by (simp add: acquire_context_def Let_def k_def e'_def s_def map_of_eq_None_iff)
      have upd: "ac_reservations ac = AList.update k (ec_context_reservation cfg) (ac_reservations (me_admission e))"
        using try_reserve_Inr [OF tr [unfolded \<open>r = Inr u\<close>]] by simp
      show ?thesis unfolding eq
      proof (rule engine_okI)
        show "j < me_next (e'\<lparr>me_admission := ac, me_contexts := (k, s) # me_contexts e\<rparr>)"
          if "j \<in> fst ` set (me_contexts (e'\<lparr>me_admission := ac, me_contexts := (k, s) # me_contexts e\<rparr>))" for j
          using that D(5) N(2) by (auto simp: e'_def k_def intro: order_less_trans)
        show "map_of (ac_reservations (me_admission (e'\<lparr>me_admission := ac, me_contexts := (k, s) # me_contexts e\<rparr>))) j =
            reservation_of cfg (me_contexts (e'\<lparr>me_admission := ac, me_contexts := (k, s) # me_contexts e\<rparr>)) j" for j
          using D(6) [of j] by (simp add: upd AList.update_conv reservation_of_def s_def resident_def)
        show "resident_contexts (e'\<lparr>me_admission := ac, me_contexts := (k, s) # me_contexts e\<rparr>) \<le> unat (ec_max_contexts cfg)"
          using free(3) by (simp add: resident_contexts_def s_def resident_def)
      qed (use D abs F in \<open>simp_all add: e'_def\<close>)
    qed
  qed
qed

lemma suspend_context_ok:
  assumes ok: "engine_ok cfg e"
  shows "engine_ok cfg (fst (snd (suspend_context la built k path disk (e, fs))))"
proof (cases "fst (suspend_context la built k path disk (e, fs)) = Inr ()")
  case False
  then have "fst (snd (suspend_context la built k path disk (e, fs))) = e"
    by (auto simp: suspend_context_def Let_def split: option.splits prod.splits if_splits bool.splits)
  with ok show ?thesis by simp
next
  case True
  note D = engine_okD [OF ok]
  let ?f = "\<lambda>s. s\<lparr>cs_context := None, cs_owner := kInvalidAgentId, cs_snapshot := path\<rparr>"
  obtain s where s: "map_of (me_contexts e) k = Some s" and
    eq: "fst (snd (suspend_context la built k path disk (e, fs))) =
      (update_slot k ?f e)\<lparr>me_admission := release_reservation k (me_admission e)\<rparr>"
    using True by (auto simp: suspend_context_def Let_def split: option.splits prod.splits if_splits bool.splits)
  show ?thesis unfolding eq
    by (rule update_slot_ok [OF ok s])
      (use D release_reservation_ok in \<open>simp_all add: release_reservation_def AList.delete_conv resident_def\<close>)
qed

text \<open>What a resumption that succeeds has met.\<close>

lemma resume_context_Inr:
  assumes "resume_context la built k sample create (e, fs) = (Inr u, e')"
  obtains s m ac c state c' where "map_of (me_contexts e) k = Some s" "cs_context s = None" "sample = Inr m"
    "resident_contexts e < unat (ec_max_contexts (me_config e))"
    "try_reserve k (ec_context_reservation (me_config e)) m (me_admission e) = (Inr (), ac)"
    "create_native_context built create e = Inr c" "snapshot_state (fs (cs_snapshot s)) = Some state" "sl_set la c state = (of_nat (length state), c')"
    "e' = (update_slot k (\<lambda>s. s\<lparr>cs_context := Some c', cs_cancel := False\<rparr>) e)\<lparr>me_admission := ac\<rparr>"
  using assms by (fastforce simp: resume_context_def Let_def not_le split: option.splits prod.splits if_splits sum.splits)

lemma resume_context_Inl:
  assumes "resume_context la built k sample create (e, fs) = (Inl err, e')"
  shows "e' = e \<or> (\<exists>ac b m. map_of (me_contexts e) k \<noteq> None \<and> native_context k e = None \<and>
    try_reserve k b m (me_admission e) = (Inr (), ac) \<and> e' = e\<lparr>me_admission := release_reservation k ac\<rparr>)"
  using assms
  by (fastforce simp: resume_context_def Let_def native_context_def dest: try_reserve_Inl
      split: option.splits prod.splits if_splits sum.splits)

lemma suspended_reservation:
  assumes "engine_ok cfg e" and "map_of (me_contexts e) k = Some s" and "cs_context s = None"
  shows "map_of (ac_reservations (me_admission e)) k = None"
  using engine_okD(6) [OF assms(1), of k] assms(2,3) by (simp add: reservation_of_def resident_def)

lemma resume_context_ok:
  assumes ok: "engine_ok cfg e"
  shows "engine_ok cfg (snd (resume_context la built k sample create (e, fs)))"
proof -
  note D = engine_okD [OF ok]
  obtain r e' where res: "resume_context la built k sample create (e, fs) = (r, e')" by (rule prod.exhaust)
  show ?thesis
  proof (cases r)
    case (Inr u)
    with res obtain s m ac c state c' where h: "map_of (me_contexts e) k = Some s" "cs_context s = None"
      "resident_contexts e < unat (ec_max_contexts (me_config e))"
      "try_reserve k (ec_context_reservation (me_config e)) m (me_admission e) = (Inr (), ac)"
      "e' = (update_slot k (\<lambda>s. s\<lparr>cs_context := Some c', cs_cancel := False\<rparr>) e)\<lparr>me_admission := ac\<rparr>"
      using resume_context_Inr [of la built k sample create e fs u e'] by metis
    note F = reserve_fields [OF h(4) D(3)]
    have "engine_ok cfg e'" unfolding h(5)
      by (rule update_slot_ok [OF ok h(1) F(1)])
        (use F D h(3) try_reserve_Inr [OF h(4)] in \<open>simp_all add: AList.update_conv resident_def\<close>)
    then show ?thesis by (simp add: res)
  next
    case (Inl err)
    from resume_context_Inl [OF res [unfolded Inl]] show ?thesis
    proof
      assume "\<exists>ac b m. map_of (me_contexts e) k \<noteq> None \<and> native_context k e = None \<and>
        try_reserve k b m (me_admission e) = (Inr (), ac) \<and> e' = e\<lparr>me_admission := release_reservation k ac\<rparr>"
      then obtain ac b m s where h: "map_of (me_contexts e) k = Some s" "native_context k e = None"
        "try_reserve k b m (me_admission e) = (Inr (), ac)" "e' = e\<lparr>me_admission := release_reservation k ac\<rparr>" by auto
      have abs: "map_of (ac_reservations (me_admission e)) k = None"
        using suspended_reservation [OF ok h(1)] h(1,2) by (simp add: native_context_def)
      show ?thesis
        using admission_only [OF ok] reserve_fields [OF h(3) D(3)] D(2) reserve_and_release [OF h(3) abs] by (simp add: res h(4))
    qed (use ok res in simp)
  qed
qed

lemma use_context_ok:
  assumes ok: "engine_ok cfg e"
  shows "engine_ok cfg (if native_context k e = None then e else update_slot k (\<lambda>s. s\<lparr>cs_context := Some c\<rparr>) e)"
proof (cases "native_context k e")
  case (Some d)
  note D = engine_okD [OF ok]
  obtain s where s: "map_of (me_contexts e) k = Some s" "cs_context s = Some d" using Some by (auto simp: native_context_def bind_eq_Some_conv)
  have "engine_ok cfg ((update_slot k (\<lambda>s. s\<lparr>cs_context := Some c\<rparr>) e)\<lparr>me_admission := me_admission e\<rparr>)"
    by (rule update_slot_ok [OF ok s(1) D(3,2)]) (use D(6) s in \<open>simp_all add: reservation_of_def resident_def\<close>)
  then show ?thesis using Some by (simp add: update_slot_def)
qed (use ok in simp)

lemma engine_step_ok:
  assumes ok: "engine_ok cfg (fst x)" and room: "unat (me_next (fst x)) < 2 ^ 64 - 1"
  shows "engine_ok cfg (fst (engine_step la built k x))"
proof -
  obtain e fs where x: "x = (e, fs)" by (rule prod.exhaust)
  have ok': "engine_ok cfg e" and room': "unat (me_next e) < 2 ^ 64 - 1" using assms by (simp_all add: x)
  have keep: "engine_ok cfg (update_slot j (\<lambda>s. s\<lparr>cs_owner := kInvalidAgentId, cs_cancel := False, cs_last_active := now\<rparr>) e)"
    "engine_ok cfg (update_slot j (\<lambda>s. s\<lparr>cs_cancel := True\<rparr>) e)" for j now
    by (rule update_slot_keeps [OF ok']; simp add: resident_def)+
  show ?thesis
  proof (cases k)
    case (Release_context j now)
    then show ?thesis using keep ok' by (simp add: x release_context_def)
  next
    case (Cancel_context j)
    then show ?thesis using keep ok' by (simp add: x request_cancel_def)
  next
    case (Use_context j c)
    then show ?thesis using use_context_ok [OF ok', of j c] by (simp add: x)
  qed (use initialize_engine_ok [OF ok' room'] acquire_context_ok [OF ok' room'] suspend_context_ok [OF ok'] resume_context_ok [OF ok'] in
    \<open>simp_all add: x\<close>)
qed

lemma acquire_next: "me_next (snd (acquire_context built owner sample create now e)) = me_next e \<or>
    me_next (snd (acquire_context built owner sample create now e)) = me_next e + 1"
  by (auto simp: acquire_context_def Let_def split: option.split sum.split prod.split)

lemma others_next: "me_next (snd (initialize_engine built n sample loaded e)) = me_next e"
  "me_next (fst (snd (suspend_context la built k path disk (e, fs)))) = me_next e"
  "me_next (snd (resume_context la built k sample create (e, fs))) = me_next e"
proof -
  show "me_next (snd (initialize_engine built n sample loaded e)) = me_next e"
    unfolding initialize_engine_def Let_def by (auto split: option.split sum.split prod.split)
  show "me_next (fst (snd (suspend_context la built k path disk (e, fs)))) = me_next e"
    unfolding suspend_context_def Let_def by (auto split: option.split prod.split bool.split)
  show "me_next (snd (resume_context la built k sample create (e, fs))) = me_next e"
    unfolding resume_context_def Let_def by (auto split: option.split prod.split sum.split)
qed

lemma engine_step_next:
  assumes "unat (me_next (fst x)) < 2 ^ 64 - 1"
  shows "unat (me_next (fst (engine_step la built k x))) \<le> Suc (unat (me_next (fst x)))"
proof -
  obtain e fs where x: "x = (e, fs)" by (rule prod.exhaust)
  have "me_next (fst (engine_step la built k x)) = me_next e \<or> me_next (fst (engine_step la built k x)) = me_next e + 1"
  proof (cases k)
    case (Acquire_context owner sample create now)
    show ?thesis unfolding x Acquire_context engine_step.simps fst_conv by (rule acquire_next)
  qed (simp_all add: x others_next release_context_def request_cancel_def)
  then show ?thesis using number_step(1) assms by (auto simp: x)
qed

lemma engine_run_ok:
  assumes "engine_ok cfg (fst x)" and "unat (me_next (fst x)) + length ks < 2 ^ 64"
  shows "engine_ok cfg (fst (engine_run la built ks x)) \<and>
    unat (me_next (fst (engine_run la built ks x))) \<le> unat (me_next (fst x)) + length ks"
  using assms
proof (induction ks arbitrary: x)
  case (Cons k ks)
  then have room: "unat (me_next (fst x)) < 2 ^ 64 - 1" by simp
  have "unat (me_next (fst (engine_step la built k x))) + length ks < 2 ^ 64"
    using engine_step_next [OF room, of la built k] Cons.prems(2) by simp
  from Cons.IH [OF engine_step_ok [OF Cons.prems(1) room] this] engine_step_next [OF room, of la built k]
  show ?case by simp
qed simp

lemma run_from_start:
  assumes "engine_run la built ks (new_engine cfg, fs0) = (e, fs)" and "length ks < 2 ^ 64 - 2"
  shows "engine_ok cfg e" and "unat (me_next e) \<le> Suc (length ks)" and "unat (me_next e) < 2 ^ 64 - 1"
proof -
  have n: "me_next (new_engine cfg) = 1" by (simp add: new_engine_def)
  show "engine_ok cfg e" "unat (me_next e) \<le> Suc (length ks)"
    using engine_run_ok [of cfg "(new_engine cfg, fs0)" ks la built] assms by (simp_all add: n new_engine_ok)
  with assms(2) show "unat (me_next e) < 2 ^ 64 - 1" by simp
qed

lemma exact_total_const: "(\<And>x. x \<in> set rs \<Longrightarrow> snd x = b) \<Longrightarrow> exact_total rs = length rs * unat b"
  by (induction rs) auto

lemma resident_total:
  assumes ok: "engine_ok cfg e"
  shows "unat (reserved_bytes (me_admission e)) = resident_contexts e * unat (ec_context_reservation cfg)"
proof -
  note D = engine_okD [OF ok]
  let ?rs = "ac_reservations (me_admission e)" and ?xs = "filter (\<lambda>(k, s). resident s) (me_contexts e)"
  have dist: "distinct (map fst ?rs)" using D(3) by (simp add: controller_ok_def)
  have dx: "distinct (map fst ?xs)" using D(4) distinct_map_filter by blast
  have at: "(k, b) \<in> set ?rs \<longleftrightarrow> b = ec_context_reservation cfg \<and> (\<exists>s. (k, s) \<in> set ?xs)" for k b
  proof -
    have "(k, b) \<in> set ?rs \<longleftrightarrow> reservation_of cfg (me_contexts e) k = Some b" using D(6) [of k] map_of_eq_Some_iff [OF dist, of k b] by simp
    moreover have "(k, s) \<in> set ?xs \<longleftrightarrow> map_of (me_contexts e) k = Some s \<and> resident s" for s
      using map_of_eq_Some_iff [OF D(4), of k s] by simp
    ultimately show ?thesis by (auto simp: reservation_of_def split: option.splits)
  qed
  have "fst ` set ?rs = fst ` set ?xs" using at by force
  then have "length ?rs = length ?xs" using distinct_card [OF dist] distinct_card [OF dx] by simp
  moreover have "exact_total ?rs = length ?rs * unat (ec_context_reservation cfg)" using at by (intro exact_total_const) auto
  moreover have "unat (reserved_bytes (me_admission e)) = exact_total ?rs"
    using D(3) foldl_sum [of 0 ?rs] by (simp add: reserved_bytes_def controller_ok_def)
  ultimately show ?thesis by (simp add: resident_contexts_def)
qed

text \<open>A reservation that is granted fits beside the others.\<close>

lemma try_reserve_fits:
  assumes "try_reserve k b m ac = (Inr u, ac')" and ok: "controller_ok ac" and "map_of (ac_reservations ac) k = None" and "0 < b"
  shows "unat (ac_safety_margin ac) + exact_total (ac_reservations ac) + unat b \<le> unat (ms_available m)"
proof -
  have "AList.delete k (ac_reservations ac) = ac_reservations ac"
    using assms(3) by (auto simp: map_of_eq_None_iff intro!: delete_idem)
  then have "unat (reserved_by_others k (ac_reservations ac)) = exact_total (ac_reservations ac)"
    using unat_reserved_by_others [OF ok, of k] by simp
  moreover have "b \<le> allocatable_bytes (ac_safety_margin ac) (ms_available m) (reserved_by_others k (ac_reservations ac))"
    using assms(1) by (auto simp: try_reserve_def Let_def split: if_splits)
  ultimately have "unat b \<le> unat (ms_available m) - (unat (ac_safety_margin ac) + exact_total (ac_reservations ac))"
    by (simp add: word_le_nat_alt allocatable_bytes_bound)
  then show ?thesis using assms(4) by (simp add: word_less_nat_alt)
qed

lemma acquire_context_Inr:
  assumes "acquire_context built owner sample create now e = (Inr k, e')"
  shows "(\<exists>s. free_context (me_contexts e) = Some (k, s) \<and>
        e' = update_slot k (\<lambda>s. s\<lparr>cs_owner := owner, cs_cancel := False, cs_last_active := now\<rparr>) e) \<or>
    (\<exists>m ac c xs. sample = Inr m \<and> k = me_next e \<and> try_reserve k (ec_context_reservation (me_config e)) m (me_admission e) = (Inr (), ac) \<and>
       create_native_context built create (e\<lparr>me_next := k + 1\<rparr>) = Inr c \<and>
       xs = (if map_of (me_contexts e) k = None
         then (k, \<lparr>cs_owner = owner, cs_context = Some c, cs_cancel = False, cs_snapshot = [], cs_last_active = now\<rparr>) # me_contexts e
         else me_contexts e) \<and>
       e' = e\<lparr>me_next := k + 1, me_admission := ac, me_contexts := xs\<rparr>)"
proof -
  have "me_model e" using assms by (auto simp: acquire_context_def split: if_splits)
  show ?thesis
  proof (cases "free_context (me_contexts e)")
    case (Some x)
    then show ?thesis using assms \<open>me_model e\<close> by (cases x) (auto simp: acquire_context_def)
  next
    case None
    define e1 where "e1 = e\<lparr>me_next := me_next e + 1\<rparr>"
    have conf: "\<not> unat (ec_max_contexts (me_config e)) \<le> resident_contexts e"
      using assms \<open>me_model e\<close> None by (auto simp: acquire_context_def)
    obtain m where m: "sample = Inr m" using assms \<open>me_model e\<close> None conf by (cases sample) (auto simp: acquire_context_def)
    obtain r ac where tr: "try_reserve (me_next e) (ec_context_reservation (me_config e)) m (me_admission e) = (r, ac)" by (rule prod.exhaust)
    note eqs = assms [unfolded acquire_context_def Let_def] \<open>me_model e\<close> None conf m tr
    obtain u where u: "r = Inr u" using eqs by (cases r) simp_all
    obtain c where c: "create_native_context built create e1 = Inr c"
      using eqs u by (cases "create_native_context built create e1") (simp_all add: e1_def)
    have k: "k = me_next e" using eqs u c by (simp add: e1_def)
    have tr': "try_reserve k (ec_context_reservation (me_config e)) m (me_admission e) = (Inr (), ac)" using tr u k by simp
    have c': "create_native_context built create (e\<lparr>me_next := k + 1\<rparr>) = Inr c" using c k by (simp add: e1_def)
    have e': "e' = e\<lparr>me_next := k + 1, me_admission := ac, me_contexts := (if map_of (me_contexts e) k = None
         then (k, \<lparr>cs_owner = owner, cs_context = Some c, cs_cancel = False, cs_snapshot = [], cs_last_active = now\<rparr>) # me_contexts e
         else me_contexts e)\<rparr>"
      using eqs u c by (auto simp: e1_def split del: if_split cong: if_cong)
    show ?thesis by (rule disjI2, intro exI conjI, rule m, rule k, rule tr', rule c', rule refl, rule e')
  qed
qed

lemma map_of_resident_entry:
  assumes "\<And>s. resident (f s) = resident s"
  shows "length (filter (\<lambda>(k, s). resident s) (AList.map_entry k f xs)) = length (filter (\<lambda>(k, s). resident s) xs)"
proof (induction xs)
  case (Cons x xs)
  then show ?case by (cases x) (simp add: assms)
qed simp

text \<open>A reservation for one more context, beside those of the resident ones.\<close>

lemma reservation_fits:
  assumes ok: "engine_ok cfg e" and r: "try_reserve k (ec_context_reservation cfg) m (me_admission e) = (Inr (), ac)"
    and abs: "map_of (ac_reservations (me_admission e)) k = None" and pos: "0 < ec_context_reservation cfg"
    and n: "n = Suc (resident_contexts e)"
  shows "unat (ec_safety_margin cfg) + n * unat (ec_context_reservation cfg) \<le> unat (ms_available m)"
proof -
  note D = engine_okD [OF ok]
  have "exact_total (ac_reservations (me_admission e)) = resident_contexts e * unat (ec_context_reservation cfg)"
    using resident_total [OF ok] D(3) foldl_sum [of 0 "ac_reservations (me_admission e)"] by (simp add: reserved_bytes_def controller_ok_def)
  then show ?thesis using try_reserve_fits [OF r D(3) abs pos] D(2) n by simp
qed

lemma acquire_fits:
  assumes ok: "engine_ok cfg e" and acq: "acquire_context built owner (Inr m) create now e = (Inr k, e')"
    and more_contexts: "resident_contexts e < resident_contexts e'" and pos: "0 < ec_context_reservation cfg"
  shows "unat (ec_safety_margin cfg) + resident_contexts e' * unat (ec_context_reservation cfg) \<le> unat (ms_available m)"
  using acquire_context_Inr [OF acq]
proof (elim disjE exE conjE)
  fix s assume "e' = update_slot k (\<lambda>s. s\<lparr>cs_owner := owner, cs_cancel := False, cs_last_active := now\<rparr>) e"
  then have "resident_contexts e' = resident_contexts e"
    using map_of_resident_entry [of "\<lambda>s. s\<lparr>cs_owner := owner, cs_cancel := False, cs_last_active := now\<rparr>" k "me_contexts e"]
    by (simp add: resident_contexts_def resident_def)
  with more_contexts show ?thesis by simp
next
  fix m' ac c xs
  assume h: "Inr m = Inr m'" "k = me_next e" "try_reserve k (ec_context_reservation (me_config e)) m' (me_admission e) = (Inr (), ac)"
    "xs = (if map_of (me_contexts e) k = None
       then (k, \<lparr>cs_owner = owner, cs_context = Some c, cs_cancel = False, cs_snapshot = [], cs_last_active = now\<rparr>) # me_contexts e
       else me_contexts e)" "e' = e\<lparr>me_next := k + 1, me_admission := ac, me_contexts := xs\<rparr>"
  have "resident_contexts e' = Suc (resident_contexts e)"
    using more_contexts h(4,5) by (simp add: resident_contexts_def resident_def split: if_splits)
  then show ?thesis
    using reservation_fits [OF ok _ absent_reservation [OF ok] pos, of k m ac] h(1,2,3) engine_okD(1) [OF ok] by simp
qed

lemma resume_fits:
  assumes ok: "engine_ok cfg e" and r: "resume_context la built k (Inr m) create (e, fs) = (Inr u, e')" and pos: "0 < ec_context_reservation cfg"
  shows "unat (ec_safety_margin cfg) + resident_contexts e' * unat (ec_context_reservation cfg) \<le> unat (ms_available m)"
proof -
  note D = engine_okD [OF ok]
  obtain s ac c' where h: "map_of (me_contexts e) k = Some s" "cs_context s = None"
    "try_reserve k (ec_context_reservation (me_config e)) m (me_admission e) = (Inr (), ac)"
    "e' = (update_slot k (\<lambda>s. s\<lparr>cs_context := Some c', cs_cancel := False\<rparr>) e)\<lparr>me_admission := ac\<rparr>"
    using resume_context_Inr [OF r] by (metis sum.inject(2))
  have "resident_contexts e' = Suc (resident_contexts e)"
    using resident_contexts_update [OF D(4) h(1), of "\<lambda>s. s\<lparr>cs_context := Some c', cs_cancel := False\<rparr>"] h(2,4)
    by (simp add: resident_contexts_def resident_def)
  then show ?thesis using reservation_fits [OF ok _ suspended_reservation [OF ok h(1,2)] pos] h(3) D(1) by simp
qed

text \<open>
  C20. Memory is reserved for the resident contexts and for nothing else: after any sequence of
  operations, whatever the library, the files and the samples answer, there are at most as many resident
  contexts as configured, the reserved total is their number times the reservation of one, and a context
  that is created or brought back next fits, with all the others and the safety margin, into the memory
  that was sampled as available.
\<close>

theorem memory_for_residents:
  assumes "engine_run la built ks (new_engine cfg, fs0) = (e, fs)" and "length ks < 2 ^ 64 - 2"
  shows "resident_contexts e \<le> unat (ec_max_contexts cfg) \<and>
    unat (reserved_bytes (me_admission e)) = resident_contexts e * unat (ec_context_reservation cfg) \<and>
    (\<forall>m owner create now k r e'. 0 < ec_context_reservation cfg \<and> resident_contexts e < resident_contexts e' \<and>
       (acquire_context built owner (Inr m) create now e = (Inr k, e') \<or> resume_context la built k (Inr m) create (e, fs) = (Inr r, e')) \<longrightarrow>
       unat (ec_safety_margin cfg) + resident_contexts e' * unat (ec_context_reservation cfg) \<le> unat (ms_available m))"
proof -
  note run = run_from_start(1,3) [OF assms]
  show ?thesis
    using engine_okD(7) [OF run(1)] resident_total [OF run(1)] acquire_fits [OF run(1)] resume_fits [OF run(1)] by blast
qed

section \<open>Owners\<close>

definition holds_context :: "context_id \<Rightarrow> agent_id \<Rightarrow> 'c model_engine \<Rightarrow> bool" where
  "holds_context k a e \<longleftrightarrow> (case map_of (me_contexts e) k of None \<Rightarrow> False | Some s \<Rightarrow> cs_owner s = a \<and> resident s)"


fun keeps_owner :: "context_id \<Rightarrow> 'c engine_op \<Rightarrow> bool" where
  "keeps_owner k (Release_context j now) = (j \<noteq> k)"
| "keeps_owner k (Suspend_context j path disk) = (j \<noteq> k)"
| "keeps_owner k op = True"


text \<open>What an acquisition does to a context that is not free.\<close>

lemma acquire_other:
  assumes ok: "engine_ok cfg e" and s: "map_of (me_contexts e) k = Some s" and busy: "cs_owner s \<noteq> 0 \<or> \<not> resident s"
  shows "map_of (me_contexts (snd (acquire_context built owner sample create now e))) k = Some s"
    and "acquire_context built owner sample create now e = (Inr j, e') \<Longrightarrow> j \<noteq> k"
proof -
  note D = engine_okD [OF ok]
  have other: "i \<noteq> k" if "free_context (me_contexts e) = Some (i, r)" for i r
  proof
    assume "i = k"
    then have "map_of (me_contexts e) k = Some r" using free_context_Some [OF that] D(4) by simp
    with s busy free_context_Some [OF that] show False by simp
  qed
  have "k \<in> fst ` set (me_contexts e)" using s by (metis map_of_SomeD fst_conv image_eqI)
  then have next_id: "me_next e \<noteq> k" using D(5) by auto
  show "j \<noteq> k" if "acquire_context built owner sample create now e = (Inr j, e')"
    using acquire_context_Inr [OF that] other next_id by auto
  show "map_of (me_contexts (snd (acquire_context built owner sample create now e))) k = Some s"
  proof (cases "acquire_context built owner sample create now e")
    case (Pair r e')
    show ?thesis
    proof (cases r)
      case (Inr i)
      from acquire_context_Inr [OF Pair [unfolded Inr]] show ?thesis
        using other next_id s by (auto simp: Pair map_of_entry)
    next
      case (Inl err)
      have "me_contexts (snd (acquire_context built owner sample create now e)) = me_contexts e"
        using Pair Inl unfolding acquire_context_def Let_def by (auto split: option.splits sum.splits prod.splits if_splits)
      with s show ?thesis by simp
    qed
  qed
qed

lemma initialize_contexts: "me_contexts (snd (initialize_engine built n sample loaded e)) = me_contexts e"
  unfolding initialize_engine_def Let_def by (auto split: option.split sum.split prod.split)

lemma suspend_contexts:
  "me_contexts (fst (snd (suspend_context la built k path disk (e, fs)))) = me_contexts e \<or>
   native_context k e \<noteq> None \<and> me_contexts (fst (snd (suspend_context la built k path disk (e, fs)))) =
     AList.map_entry k (\<lambda>s. s\<lparr>cs_context := None, cs_owner := kInvalidAgentId, cs_snapshot := path\<rparr>) (me_contexts e)"
  by (auto simp: suspend_context_def Let_def native_context_def split: option.split prod.split bool.split)


lemma resume_contexts:
  "me_contexts (snd (resume_context la built k sample create (e, fs))) = me_contexts e \<or>
   native_context k e = None \<and> (\<exists>c. me_contexts (snd (resume_context la built k sample create (e, fs))) =
     AList.map_entry k (\<lambda>s. s\<lparr>cs_context := Some c, cs_cancel := False\<rparr>) (me_contexts e))"
proof (cases "resume_context la built k sample create (e, fs)")
  case (Pair r e')
  show ?thesis
  proof (cases r)
    case (Inl err)
    then show ?thesis using resume_context_Inl [OF Pair [unfolded Inl]] by (auto simp: Pair)
  next
    case (Inr u)
    show ?thesis unfolding Pair snd_conv by (rule resume_context_Inr [OF Pair [unfolded Inr]]) (auto simp: native_context_def)
  qed
qed

lemma step_holds:
  assumes ok: "engine_ok cfg (fst x)" and h: "holds_context k a (fst x)" and a: "a \<noteq> 0" and op: "keeps_owner k op"
  shows "holds_context k a (fst (engine_step la built op x))"
proof -
  obtain e fs where x: "x = (e, fs)" by (rule prod.exhaust)
  obtain s where s: "map_of (me_contexts e) k = Some s" "cs_owner s = a" "resident s" using h by (auto simp: holds_context_def x split: option.splits)
  have nat: "native_context k e \<noteq> None" using s by (simp add: native_context_def resident_def)
  show ?thesis
  proof (cases op)
    case (Acquire_context owner sample create now)
    then show ?thesis using acquire_other(1) [of cfg e k s] ok s a by (simp add: x holds_context_def)
  next
    case (Suspend_context j path disk)
    then have "j \<noteq> k" using op by simp
    then show ?thesis using suspend_contexts [of la built j path disk e fs] s by (auto simp: x Suspend_context holds_context_def map_of_entry)
  next
    case (Resume_context j sample create)
    then show ?thesis using resume_contexts [of la built j sample create e fs] s nat by (auto simp: x holds_context_def map_of_entry resident_def)
  qed (use s op in \<open>auto simp: x holds_context_def initialize_contexts release_context_def request_cancel_def map_of_entry resident_def\<close>)
qed


text \<open>A property of a context that every step keeps holds after a run.\<close>

lemma run_keeps:
  assumes ok: "engine_ok cfg (fst x)" and room: "unat (me_next (fst x)) + length ks < 2 ^ 64" and P: "P x" and ks: "list_all Q ks"
    and step: "\<And>op y. engine_ok cfg (fst y) \<Longrightarrow> P y \<Longrightarrow> Q op \<Longrightarrow> P (engine_step la built op y)"
  shows "P (engine_run la built ks x)"
  using ok room P ks
proof (induction ks arbitrary: x)
  case (Cons op ks)
  then have r: "unat (me_next (fst x)) < 2 ^ 64 - 1" by simp
  have "unat (me_next (fst (engine_step la built op x))) + length ks < 2 ^ 64"
    using engine_step_next [OF r, of la built op] Cons.prems(2) by simp
  then show ?case using Cons.IH [OF engine_step_ok [OF Cons.prems(1) r]] step [OF Cons.prems(1,3)] Cons.prems(4) by simp
qed simp

text \<open>
  C22. A context stays with its owner: from the moment an agent acquires a context until somebody releases
  or suspends it, it stays resident and with this agent, whatever else happens, and no acquisition hands
  it out again.
\<close>

theorem owner_keeps_context:
  assumes "engine_run la built ks (new_engine cfg, fs0) = (e, fs)" and "acquire_context built owner sample create now e = (Inr k, e1)"
    and "owner \<noteq> 0" and "engine_run la built ls (e1, fs) = (e2, fs2)" and "list_all (keeps_owner k) ls" and "length ks + length ls < 2 ^ 64 - 4"
  shows "(\<exists>s. map_of (me_contexts e2) k = Some s \<and> cs_owner s = owner \<and> cs_context s \<noteq> None) \<and>
    (\<forall>other sample' create' now' j e3. acquire_context built other sample' create' now' e2 = (Inr j, e3) \<longrightarrow> j \<noteq> k)"
proof -
  note run = run_from_start [OF assms(1)]
  have len: "length ks < 2 ^ 64 - 2" using assms(6) by simp
  note D = engine_okD [OF run(1) [OF len]]
  have ok1: "engine_ok cfg e1" using acquire_context_ok [OF run(1,3) [OF len], of built owner sample create now] assms(2) by simp
  have next1: "unat (me_next e1) \<le> Suc (unat (me_next e))"
    using acquire_next [of built owner sample create now e] number_step(1) [OF run(3) [OF len]] assms(2) by auto
  have fresh: "map_of (me_contexts e) (me_next e) = None" using D(5) by (force simp: map_of_eq_None_iff)
  have "holds_context k owner e1"
    using acquire_context_Inr [OF assms(2)]
  proof (elim disjE exE conjE)
    fix s assume f: "free_context (me_contexts e) = Some (k, s)"
      and e1: "e1 = update_slot k (\<lambda>s. s\<lparr>cs_owner := owner, cs_cancel := False, cs_last_active := now\<rparr>) e"
    have "map_of (me_contexts e) k = Some s" using free_context_Some [OF f] D(4) by simp
    then show ?thesis using free_context_Some [OF f] by (simp add: e1 holds_context_def map_of_entry resident_def)
  qed (use fresh in \<open>simp add: holds_context_def resident_def\<close>)
  then have h: "holds_context k owner e2"
    using run_keeps [of cfg "(e1, fs)" ls "\<lambda>y. holds_context k owner (fst y)" "keeps_owner k" la built] step_holds assms(3,4,5,6) ok1 next1 run(2) [OF len] by force
  have ok2: "engine_ok cfg e2"
    using engine_run_ok [of cfg "(e1, fs)" ls la built] ok1 next1 run(2) [OF len] assms(4,6) by simp
  obtain s where s: "map_of (me_contexts e2) k = Some s" "cs_owner s = owner" "resident s" using h by (auto simp: holds_context_def split: option.splits)
  then show ?thesis using acquire_other(2) [OF ok2 s(1)] assms(3) by (auto simp: resident_def)
qed

section \<open>Snapshots\<close>




text \<open>A suspension that succeeds.\<close>

lemma suspend_context_Inr:
  assumes "suspend_context la built k path disk (e, fs) = (Inr u, e1, fs1)"
  obtains s c bytes copied where "map_of (me_contexts e) k = Some s" "cs_context s = Some c" "sl_get la c (sl_size la c) = (bytes, copied)"
    "0 < copied" "copied \<le> sl_size la c"
    "fs1 = fs(path \<mapsto> snapshot_header copied @ take (unat copied) (state_buffer (sl_size la c) bytes))"
    "e1 = (update_slot k (\<lambda>s. s\<lparr>cs_context := None, cs_owner := kInvalidAgentId, cs_snapshot := path\<rparr>) e)
      \<lparr>me_admission := release_reservation k (me_admission e)\<rparr>"
  using assms by (cases disk) (auto simp: suspend_context_def Let_def not_less word_neq_0_conv split: option.splits prod.splits if_splits)

lemma resumed_context_unowned:
  assumes "suspend_context la built k path disk (e, fs) = (Inr u, e1, fs1)" and "resume_context la built k sample create (e1, fs1) = (Inr v, e2)"
  shows "holds_context k 0 e2"
proof (rule suspend_context_Inr [OF assms(1)])
  fix s c bytes copied
  assume s: "map_of (me_contexts e) k = Some s" "e1 = (update_slot k (\<lambda>s. s\<lparr>cs_context := None, cs_owner := kInvalidAgentId, cs_snapshot := path\<rparr>) e)
      \<lparr>me_admission := release_reservation k (me_admission e)\<rparr>"
  show ?thesis
    by (rule resume_context_Inr [OF assms(2)]) (use s in \<open>auto simp: holds_context_def map_of_entry resident_def\<close>)
qed




section \<open>An example\<close>

text \<open>A library whose contexts are one byte.\<close>

definition byte_library :: "u8 state_library" where
  "byte_library = \<lparr>sl_size = (\<lambda>c. 1), sl_get = (\<lambda>c n. ([c], 1)), sl_set = (\<lambda>c bytes. (of_nat (length bytes), hd bytes))\<rparr>"

definition byte_config :: engine_config where
  "byte_config = \<lparr>ec_model_path = ''model.gguf'', ec_context_tokens = 4096, ec_batch_tokens = 512, ec_cpu_threads = 4, ec_max_contexts = 2,
     ec_model_reservation = 0, ec_context_reservation = 100, ec_safety_margin = 50\<rparr>"

definition byte_memory :: memory_snapshot where
  "byte_memory = default_memory_snapshot\<lparr>ms_available := 1000\<rparr>"

definition byte_create :: "context_params \<Rightarrow> u8 option" where
  "byte_create p = Some 0"

definition byte_start :: "u8 engine_op list" where
  "byte_start = [Initialize_engine (Some 300) (Inr byte_memory) True, Acquire_context 5 (Inr byte_memory) byte_create 10,
     Use_context 1 7, Acquire_context 6 (Inr byte_memory) byte_create 11]"

definition byte_between :: "u8 engine_op list" where
  "byte_between = [Use_context 2 9, Release_context 2 12, Acquire_context 8 (Inr byte_memory) byte_create 13]"

definition byte_files :: "string \<rightharpoonup> u8 list" where
  "byte_files path = None"


definition byte_before :: "u8 model_engine \<times> (string \<rightharpoonup> u8 list)" where
  "byte_before = engine_run byte_library True byte_start (new_engine byte_config, byte_files)"

definition byte_parked :: "(string + unit) \<times> u8 model_engine \<times> (string \<rightharpoonup> u8 list)" where
  "byte_parked = suspend_context byte_library True 1 ''ctx1'' Disk_ok byte_before"

definition byte_after :: "u8 model_engine \<times> (string \<rightharpoonup> u8 list)" where
  "byte_after = engine_run byte_library True byte_between (snd byte_parked)"

lemma byte_values:
  "native_context 1 (fst byte_before) = Some 7" "fst byte_parked = Inr ()" "resident_contexts (fst byte_after) = 1"
  "resident_contexts (fst byte_before) = 2" "native_context 1 (fst byte_after) = None" "native_context 2 (fst byte_after) = Some 9"
  by code_simp+


theorem memory_for_residents_witness:
  "resident_contexts (fst byte_before) = 2 \<and> unat (reserved_bytes (me_admission (fst byte_before))) = 200"
proof -
  obtain e fs where before: "byte_before = (e, fs)" by (rule prod.exhaust)
  then have "engine_run byte_library True byte_start (new_engine byte_config, byte_files) = (e, fs)" by (simp add: byte_before_def)
  from memory_for_residents [OF this] show ?thesis using byte_values(4) by (simp add: before byte_start_def byte_config_def)
qed

definition byte_acquired :: "(string + context_id) \<times> u8 model_engine" where
  "byte_acquired = acquire_context True 5 (Inr byte_memory) byte_create 10
     (fst (engine_run byte_library True [Initialize_engine (Some 300) (Inr byte_memory) True] (new_engine byte_config, byte_files)))"

definition byte_others :: "u8 engine_op list" where
  "byte_others = [Acquire_context 8 (Inr byte_memory) byte_create 11, Release_context 2 12]"

lemma byte_acquired_values: "fst byte_acquired = Inr 1"
  "fst (acquire_context True 9 (Inr byte_memory) byte_create 20
     (fst (engine_run byte_library True byte_others (snd byte_acquired, byte_files)))) = Inr 2"
  by code_simp+

theorem owner_keeps_context_witness:
  "(case engine_run byte_library True byte_others (snd byte_acquired, byte_files) of (e2, fs2) \<Rightarrow>
     (\<exists>s. map_of (me_contexts e2) 1 = Some s \<and> cs_owner s = 5 \<and> cs_context s \<noteq> None) \<and>
     fst (acquire_context True 9 (Inr byte_memory) byte_create 20 e2) = Inr 2)"
proof -
  obtain e fs where start: "engine_run byte_library True [Initialize_engine (Some 300) (Inr byte_memory) True]
      (new_engine byte_config, byte_files) = (e, fs)" by (rule prod.exhaust)
  obtain e1 where acquired: "byte_acquired = (Inr 1, e1)" using byte_acquired_values(1) by (metis prod.collapse)
  have fs: "fs = byte_files" using start by auto
  obtain e2 fs2 where others: "engine_run byte_library True byte_others (e1, byte_files) = (e2, fs2)" by (rule prod.exhaust)
  have "acquire_context True 5 (Inr byte_memory) byte_create 10 e = (Inr 1, e1)" using acquired start by (simp only: byte_acquired_def fst_conv)
  from owner_keeps_context [OF start this _ others [folded fs]] show ?thesis
    using byte_acquired_values(2) others by (simp add: acquired byte_others_def)
qed

end
