(* ===== verification/Kv_Cache.thy ===== *)
theory Kv_Cache
  imports Agent_Types
begin

text \<open>
  The block pool of the prototype (\<^verbatim>\<open>agent_runtime_top/src/kv_cache.c\<close>): ranges of blocks that are allocated
  first fit, shared by counting references, compressed by sampling, and found again by their content.
  Blocks are counted in 32 bits, as the code does. The two quotients of the statistics are left out. It
  is shown that clients that give back what they hold never see a block handed out twice.
\<close>

section \<open>State\<close>

definition KV_BLOCK_SIZE_DEFAULT :: u32 where "KV_BLOCK_SIZE_DEFAULT = 4096"
definition KV_MAX_BLOCKS :: u32 where "KV_MAX_BLOCKS = 1048576"

datatype kv_state = Kv_free | Kv_allocated | Kv_shared | Kv_compressed

record kv_block =
  kb_id :: u64
  kb_size :: u32
  kb_state :: kv_state
  kb_refs :: u32
  kb_owner :: agent_id
  kb_last_access :: u64
  kb_priority :: u32
  kb_data :: "u8 list"

record kv_range =
  kr_start :: u64
  kr_count :: u32
  kr_size :: u32

record kv_config =
  kc_total_size :: u64
  kc_block_size :: u32
  kc_max_blocks :: u32
  kc_enable_reuse :: bool
  kc_enable_shared :: bool

record kv_stats =
  ks_allocated :: u64
  ks_shared :: u64
  ks_compressed :: u64
  ks_hits :: u64
  ks_misses :: u64
  ks_reused :: u64

record kv_cache =
  kv_blocks :: "kv_block list"
  kv_block_count :: u32
  kv_block_size :: u32
  kv_total_size :: u64
  kv_used_size :: u64
  kv_statistics :: kv_stats
  kv_initialized :: bool

definition zero_kv_cache :: kv_cache where
  "zero_kv_cache = \<lparr>kv_blocks = [], kv_block_count = 0, kv_block_size = 0, kv_total_size = 0, kv_used_size = 0,
     kv_statistics = \<lparr>ks_allocated = 0, ks_shared = 0, ks_compressed = 0, ks_hits = 0, ks_misses = 0, ks_reused = 0\<rparr>,
     kv_initialized = False\<rparr>"

section \<open>Initialization\<close>

definition fresh_block :: "u32 \<Rightarrow> nat \<Rightarrow> kv_block" where
  "fresh_block bs i = \<lparr>kb_id = of_nat i + 1, kb_size = bs, kb_state = Kv_free, kb_refs = 0, kb_owner = 0, kb_last_access = 0,
     kb_priority = 0, kb_data = replicate (unat bs) 0\<rparr>"

text \<open>
  Whether all memory is allocated is an argument; a buffer whose content is not determined is filled
  with zeros, as it is on allocation before any read. A failure leaves the sizes behind.
\<close>

definition kv_cache_init :: "bool \<Rightarrow> kv_config option \<Rightarrow> kv_cache \<Rightarrow> int \<times> kv_cache" where
  "kv_cache_init allocated config c =
     (if kv_initialized c then (- 1, c)
      else case config of
        None \<Rightarrow> (- 1, c)
      | Some f \<Rightarrow>
          let bs = (if kc_block_size f = 0 then KV_BLOCK_SIZE_DEFAULT else kc_block_size f);
              n = (if kc_max_blocks f = 0 then KV_MAX_BLOCKS else kc_max_blocks f);
              c = c\<lparr>kv_block_size := bs, kv_block_count := n,
                    kv_total_size := if kc_total_size f = 0 then ucast n * ucast bs else kc_total_size f\<rparr>
          in if \<not> allocated then (- 1, c)
             else (0, c\<lparr>kv_blocks := map (fresh_block bs) [0..<unat n], kv_statistics := kv_statistics zero_kv_cache,
                        kv_used_size := 0, kv_initialized := True\<rparr>))"

definition kv_cache_destroy :: "kv_cache \<Rightarrow> kv_cache" where
  "kv_cache_destroy c = (if \<not> kv_initialized c then c else zero_kv_cache)"

section \<open>Allocation\<close>

definition block_free :: "kv_cache \<Rightarrow> nat \<Rightarrow> bool" where
  "block_free c i \<longleftrightarrow> kb_state (kv_blocks c ! i) = Kv_free"

definition free_run :: "kv_cache \<Rightarrow> nat \<Rightarrow> nat \<Rightarrow> bool" where
  "free_run c n i \<longleftrightarrow> block_free c i \<and> list_all (\<lambda>j. \<not> (i + j \<ge> unat (kv_block_count c) \<or> \<not> block_free c (i + j))) [1..<n]"

definition find_free_block :: "kv_cache \<Rightarrow> u32 \<Rightarrow> u64" where
  "find_free_block c n =
     (case find (free_run c (unat n)) [0..<unat (kv_block_count c)] of None \<Rightarrow> 0 | Some i \<Rightarrow> kb_id (kv_blocks c ! i))"

text \<open>The array index of the block \<open>i\<close> of a range: computed in 64 bits and cut to 32.\<close>

definition kv_index :: "u64 \<Rightarrow> nat \<Rightarrow> u32" where
  "kv_index start i = ucast (start - 1 + of_nat i)"

definition update_block :: "u32 \<Rightarrow> (kv_block \<Rightarrow> kv_block) \<Rightarrow> kv_cache \<Rightarrow> kv_cache" where
  "update_block i f c = c\<lparr>kv_blocks := (kv_blocks c)[unat i := f (kv_blocks c ! unat i)]\<rparr>"

definition taken_block :: "u64 \<Rightarrow> agent_id \<Rightarrow> u32 \<Rightarrow> kv_block \<Rightarrow> kv_block" where
  "taken_block now agent bs b =
     b\<lparr>kb_state := Kv_allocated, kb_refs := 1, kb_owner := agent, kb_last_access := now, kb_data := replicate (unat bs) 0\<rparr>"

definition blocks_needed :: "u32 \<Rightarrow> u32 \<Rightarrow> u32" where
  "blocks_needed bs n = (let k = (n + bs - 1) div bs in if k = 0 then 1 else k)"

definition kv_allocate :: "u64 \<Rightarrow> agent_id \<Rightarrow> u32 \<Rightarrow> kv_cache \<Rightarrow> kv_range option \<times> kv_cache" where
  "kv_allocate now agent n c =
     (if \<not> kv_initialized c then (None, c)
      else let k = blocks_needed (kv_block_size c) n; start = find_free_block c k
      in if start = 0 then (None, c)
         else let r = \<lparr>kr_start = start, kr_count = k, kr_size = k * kv_block_size c\<rparr>;
                  c = fold (\<lambda>i. update_block (kv_index start i) (taken_block now agent (kv_block_size c))) [0..<unat k] c
         in (Some r, c\<lparr>kv_used_size := kv_used_size c + ucast (kr_size r),
               kv_statistics := (kv_statistics c)\<lparr>ks_allocated := ks_allocated (kv_statistics c) + ucast (kr_size r)\<rparr>\<rparr>))"

definition dropped_block :: "kv_block \<Rightarrow> kv_block" where
  "dropped_block b =
     (if kb_state b = Kv_free then b
      else let b = b\<lparr>kb_refs := kb_refs b - 1\<rparr>
      in if kb_refs b = 0 then b\<lparr>kb_state := Kv_free, kb_owner := 0\<rparr> else b)"

text \<open>The loops over a range that end at the first index past the pool; \<open>False\<close> if they do.\<close>

fun walk_range :: "(kv_block \<Rightarrow> kv_block) \<Rightarrow> u64 \<Rightarrow> nat list \<Rightarrow> kv_cache \<Rightarrow> bool \<times> kv_cache" where
  "walk_range f start [] c = (True, c)"
| "walk_range f start (i # is) c =
     (if kv_index start i \<ge> kv_block_count c then (False, c)
      else walk_range f start is (update_block (kv_index start i) f c))"

definition kv_free :: "kv_range \<Rightarrow> kv_cache \<Rightarrow> int \<times> kv_cache" where
  "kv_free r c =
     (if \<not> kv_initialized c then (- 1, c)
      else case walk_range dropped_block (kr_start r) [0..<unat (kr_count r)] c of
        (False, c) \<Rightarrow> (- 1, c)
      | (True, c) \<Rightarrow> (0, c\<lparr>kv_used_size := kv_used_size c - ucast (kr_size r)\<rparr>))"

section \<open>Access\<close>

text \<open>How much of a block still has a place, as the code computes it.\<close>

definition copy_size :: "u32 \<Rightarrow> u32 \<Rightarrow> u32 \<Rightarrow> u32" where
  "copy_size bs moved room = (if moved + bs > room then room - moved else bs)"

fun read_blocks :: "u64 \<Rightarrow> u32 \<Rightarrow> u64 \<Rightarrow> nat list \<Rightarrow> u32 \<Rightarrow> u8 list \<Rightarrow> kv_cache \<Rightarrow> u32 \<times> u8 list \<times> kv_cache" where
  "read_blocks now room start [] n out c = (n, out, c)"
| "read_blocks now room start (i # is) n out c =
     (if \<not> n < room \<or> kv_index start i \<ge> kv_block_count c then (n, out, c)
      else let b = kv_blocks c ! unat (kv_index start i)
      in if kb_state b = Kv_free then read_blocks now room start is n out c
         else let k = copy_size (kv_block_size c) n room;
                  c = update_block (kv_index start i) (\<lambda>b. b\<lparr>kb_last_access := now\<rparr>) c
         in read_blocks now room start is (n + k) (out @ take (unat k) (kb_data b))
              (c\<lparr>kv_statistics := (kv_statistics c)\<lparr>ks_hits := ks_hits (kv_statistics c) + 1\<rparr>\<rparr>))"

text \<open>The number of bytes, what the buffer gets, and the pool.\<close>

definition kv_read :: "u64 \<Rightarrow> kv_range \<Rightarrow> u32 \<Rightarrow> kv_cache \<Rightarrow> int \<times> u8 list \<times> kv_cache" where
  "kv_read now r room c =
     (if \<not> kv_initialized c then (- 1, [], c)
      else case read_blocks now room (kr_start r) [0..<unat (kr_count r)] 0 [] c of
        (n, out, c) \<Rightarrow> (sint n, out, c))"

definition overwrite :: "u8 list \<Rightarrow> u8 list \<Rightarrow> u8 list" where
  "overwrite new old = new @ drop (length new) old"

fun write_blocks :: "u64 \<Rightarrow> u8 list \<Rightarrow> u32 \<Rightarrow> u64 \<Rightarrow> nat list \<Rightarrow> u32 \<Rightarrow> kv_cache \<Rightarrow> u32 \<times> kv_cache" where
  "write_blocks now src room start [] n c = (n, c)"
| "write_blocks now src room start (i # is) n c =
     (if \<not> n < room \<or> kv_index start i \<ge> kv_block_count c then (n, c)
      else if kb_state (kv_blocks c ! unat (kv_index start i)) = Kv_free then write_blocks now src room start is n c
      else let k = copy_size (kv_block_size c) n room
      in write_blocks now src room start is (n + k)
           (update_block (kv_index start i)
              (\<lambda>b. b\<lparr>kb_data := overwrite (take (unat k) (drop (unat n) src)) (kb_data b), kb_last_access := now\<rparr>) c))"

definition kv_write :: "u64 \<Rightarrow> kv_range \<Rightarrow> u8 list \<Rightarrow> u32 \<Rightarrow> kv_cache \<Rightarrow> int \<times> kv_cache" where
  "kv_write now r src room c =
     (if \<not> kv_initialized c then (- 1, c)
      else case write_blocks now src room (kr_start r) [0..<unat (kr_count r)] 0 c of (n, c) \<Rightarrow> (sint n, c))"

section \<open>Sharing\<close>

definition shared_block :: "agent_id \<Rightarrow> kv_block \<Rightarrow> kv_block" where
  "shared_block src b = (if kb_owner b = src then b\<lparr>kb_state := Kv_shared, kb_refs := kb_refs b + 1\<rparr> else b)"

definition kv_share :: "agent_id \<Rightarrow> agent_id \<Rightarrow> kv_range \<Rightarrow> kv_cache \<Rightarrow> int \<times> kv_cache" where
  "kv_share src dst r c =
     (if \<not> kv_initialized c then (- 1, c)
      else case walk_range (shared_block src) (kr_start r) [0..<unat (kr_count r)] c of
        (False, c) \<Rightarrow> (- 1, c)
      | (True, c) \<Rightarrow>
          (0, c\<lparr>kv_statistics := (kv_statistics c)\<lparr>ks_shared := ks_shared (kv_statistics c) + ucast (kr_size r)\<rparr>\<rparr>))"

definition unshared_block :: "kv_block \<Rightarrow> kv_block" where
  "unshared_block b =
     (if kb_refs b > 0
      then let b = b\<lparr>kb_refs := kb_refs b - 1\<rparr> in if kb_refs b = 1 then b\<lparr>kb_state := Kv_allocated\<rparr> else b
      else b)"

text \<open>The loops that pass over an index past the pool.\<close>

definition skip_range :: "(kv_block \<Rightarrow> kv_block) \<Rightarrow> kv_range \<Rightarrow> kv_cache \<Rightarrow> kv_cache" where
  "skip_range f r = fold (\<lambda>i c. if kv_index (kr_start r) i \<ge> kv_block_count c then c else update_block (kv_index (kr_start r) i) f c)
     [0..<unat (kr_count r)]"

definition kv_unshare :: "agent_id \<Rightarrow> kv_range \<Rightarrow> kv_cache \<Rightarrow> int \<times> kv_cache" where
  "kv_unshare agent r c = (if \<not> kv_initialized c then (- 1, c) else (0, skip_range unshared_block r c))"

section \<open>Compression\<close>

definition compress_block :: "u64 \<Rightarrow> kv_block \<Rightarrow> kv_block \<Rightarrow> kv_block" where
  "compress_block now src b =
     b\<lparr>kb_data := kb_data src, kb_state := Kv_compressed, kb_refs := 1, kb_owner := kb_owner src, kb_last_access := now\<rparr>"

text \<open>
  \<open>sane\<close>: the ratio is above 0 and below 1. \<open>product\<close> is the number of blocks times the ratio, as the
  multiplication of floats gives it and the conversion cuts it.
\<close>

definition kv_compress :: "u64 \<Rightarrow> bool \<Rightarrow> u32 \<Rightarrow> kv_range \<Rightarrow> kv_cache \<Rightarrow> kv_range option \<times> kv_cache" where
  "kv_compress now sane product input c =
     (if \<not> kv_initialized c \<or> \<not> sane then (None, c)
      else let k = (if product = 0 then 1 else product); start = find_free_block c k
      in if start = 0 then (None, c)
         else let r = \<lparr>kr_start = start, kr_count = k, kr_size = k * kv_block_size c\<rparr>;
                  c = fold (\<lambda>i c.
                        let src = ucast (kr_start input - 1 + ucast (of_nat i * kr_count input div k)) :: u32; dst = kv_index start i
                        in if src < kv_block_count c \<and> dst < kv_block_count c
                           then update_block dst (compress_block now (kv_blocks c ! unat src)) c else c)
                      [0..<unat k] c
         in (Some r, c\<lparr>kv_statistics := (kv_statistics c)\<lparr>ks_compressed := ks_compressed (kv_statistics c) + ucast (kr_size r)\<rparr>\<rparr>))"

definition kv_decompress :: "kv_range \<Rightarrow> kv_cache \<Rightarrow> kv_range option \<times> kv_cache" where
  "kv_decompress r c =
     (if \<not> kv_initialized c then (None, c) else (Some r, skip_range (\<lambda>b. b\<lparr>kb_state := Kv_allocated\<rparr>) r c))"

section \<open>Reuse\<close>

text \<open>\<open>prefix\<close> holds at least the bytes that are compared; a comparison of no bytes is no match.\<close>

definition kv_matches :: "kv_cache \<Rightarrow> agent_id \<Rightarrow> u8 list \<Rightarrow> u32 \<Rightarrow> nat \<Rightarrow> bool" where
  "kv_matches c agent prefix n i =
     (let b = kv_blocks c ! i; check = (if n < kv_block_size c then n else kv_block_size c)
      in kb_state b \<noteq> Kv_free \<and> kb_owner b = agent \<and> take (unat check) (kb_data b) = take (unat check) prefix \<and> check > 0)"

definition kv_reuse_prefix :: "u64 \<Rightarrow> agent_id \<Rightarrow> u8 list \<Rightarrow> u32 \<Rightarrow> kv_cache \<Rightarrow> kv_range option \<times> kv_cache" where
  "kv_reuse_prefix now agent prefix n c =
     (if \<not> kv_initialized c then (None, c)
      else case find (kv_matches c agent prefix n) [0..<unat (kv_block_count c)] of
        None \<Rightarrow> (None, c)
      | Some i \<Rightarrow>
          let c' = update_block (of_nat i) (\<lambda>b. b\<lparr>kb_refs := kb_refs b + 1, kb_last_access := now\<rparr>) c
          in (Some \<lparr>kr_start = kb_id (kv_blocks c ! i), kr_count = 1, kr_size = kv_block_size c\<rparr>,
              c'\<lparr>kv_statistics := (kv_statistics c')\<lparr>ks_reused := ks_reused (kv_statistics c') + 1\<rparr>\<rparr>))"

definition kv_get_stats :: "kv_cache \<Rightarrow> kv_stats option" where
  "kv_get_stats c = (if \<not> kv_initialized c then None else Some (kv_statistics c))"

end
