(* ===== verification/Agent_Table.thy ===== *)
theory Agent_Table
  imports Agent_Types
begin

text \<open>
  The agent table of the prototype (\<^verbatim>\<open>agent_runtime_top/src/agent.c\<close>): 256 slots with the life cycle of an
  agent. Each operation is atomic under the mutex of the table. It is shown that clients which use the
  numbers they were given never see a number twice, and that a life cycle only goes forward.
\<close>

section \<open>State\<close>

definition MAX_AGENTS :: nat where "MAX_AGENTS = 256"
definition AGENT_NAME_MAX :: nat where "AGENT_NAME_MAX = 64"

datatype phase = Ph_created | Ph_ready | Ph_running | Ph_waiting | Ph_completed | Ph_error

text \<open>
  The callbacks are known by whether they are there and by what they return; a context is known by its
  presence, since the table only frees it.
\<close>

record agent_ops =
  op_init :: "int option"
  op_cleanup :: bool

record agent_slot =
  sl_id :: agent_id
  sl_name :: string
  sl_phase :: phase
  sl_priority :: u32
  sl_context :: bool
  sl_ops :: "agent_ops option"
  sl_create_time :: u64
  sl_last_active :: u64

record table_config =
  tb_name :: string
  tb_priority :: u32
  tb_memory_limit :: u64
  tb_cpu_affinity :: u32

record agent_table =
  ta_agents :: "agent_slot list"
  ta_count :: u32
  ta_next_id :: agent_id
  ta_initialized :: bool

definition zero_slot :: agent_slot where
  "zero_slot = \<lparr>sl_id = 0, sl_name = [], sl_phase = Ph_created, sl_priority = 0, sl_context = False, sl_ops = None,
     sl_create_time = 0, sl_last_active = 0\<rparr>"

definition zero_table :: agent_table where
  "zero_table = \<lparr>ta_agents = replicate MAX_AGENTS zero_slot, ta_count = 0, ta_next_id = 0, ta_initialized = False\<rparr>"

section \<open>Operations\<close>

definition agent_runtime_init :: "agent_table \<Rightarrow> int \<times> agent_table" where
  "agent_runtime_init t = (if ta_initialized t then (- 1, t) else (0, zero_table\<lparr>ta_next_id := 1, ta_initialized := True\<rparr>))"

definition agent_runtime_destroy :: "agent_table \<Rightarrow> agent_table" where
  "agent_runtime_destroy t = (if \<not> ta_initialized t then t else zero_table)"

text \<open>The first slot with the number; free slots have the number 0.\<close>

definition slot_of :: "agent_id \<Rightarrow> agent_table \<Rightarrow> nat option" where
  "slot_of a t = find (\<lambda>i. sl_id (ta_agents t ! i) = a) [0..<MAX_AGENTS]"

definition put_slot :: "nat \<Rightarrow> agent_slot \<Rightarrow> agent_table \<Rightarrow> agent_table" where
  "put_slot i s t = t\<lparr>ta_agents := (ta_agents t)[i := s]\<rparr>"

definition agent_create :: "u64 \<Rightarrow> table_config option \<Rightarrow> agent_table \<Rightarrow> agent_id \<times> agent_table" where
  "agent_create now config t =
     (case config of
        None \<Rightarrow> (0, t)
      | Some c \<Rightarrow>
          if \<not> ta_initialized t then (0, t)
          else case slot_of 0 t of
            None \<Rightarrow> (0, t)
          | Some i \<Rightarrow>
              let a = ta_next_id t;
                  s = \<lparr>sl_id = a, sl_name = take (AGENT_NAME_MAX - 1) (tb_name c), sl_phase = Ph_created, sl_priority = tb_priority c,
                       sl_context = False, sl_ops = None, sl_create_time = now, sl_last_active = now\<rparr>
              in (a, (put_slot i s t)\<lparr>ta_next_id := a + 1, ta_count := ta_count t + 1\<rparr>))"

text \<open>The operations on one agent: the result and the slot afterwards, if the agent is found.\<close>

definition on_agent :: "agent_id \<Rightarrow> (agent_slot \<Rightarrow> int \<times> agent_slot) \<Rightarrow> agent_table \<Rightarrow> int \<times> agent_table" where
  "on_agent a f t =
     (if \<not> ta_initialized t then (- 1, t)
      else case slot_of a t of
        None \<Rightarrow> (- 1, t)
      | Some i \<Rightarrow> (case f (ta_agents t ! i) of (r, s) \<Rightarrow> (r, put_slot i s t)))"

definition agent_destroy :: "agent_id \<Rightarrow> agent_table \<Rightarrow> int \<times> agent_table" where
  "agent_destroy a t =
     (case on_agent a (\<lambda>s. (0, s\<lparr>sl_context := False, sl_id := 0, sl_phase := Ph_created\<rparr>)) t of
        (r, t) \<Rightarrow> (r, if r = 0 then t\<lparr>ta_count := ta_count t - 1\<rparr> else t))"

definition init_slot :: "u64 \<Rightarrow> agent_slot \<Rightarrow> int \<times> agent_slot" where
  "init_slot now s =
     (if sl_phase s \<noteq> Ph_created then (- 1, s)
      else let answer = (case sl_ops s of None \<Rightarrow> 0 | Some f \<Rightarrow> (case op_init f of None \<Rightarrow> 0 | Some r \<Rightarrow> r))
      in if answer \<noteq> 0 then (answer, s\<lparr>sl_phase := Ph_error\<rparr>)
         else (0, s\<lparr>sl_phase := Ph_ready, sl_last_active := now\<rparr>))"

definition agent_init :: "u64 \<Rightarrow> agent_id \<Rightarrow> agent_table \<Rightarrow> int \<times> agent_table" where
  "agent_init now a t = on_agent a (init_slot now) t"

definition agent_start :: "u64 \<Rightarrow> agent_id \<Rightarrow> agent_table \<Rightarrow> int \<times> agent_table" where
  "agent_start now a t = on_agent a
     (\<lambda>s. if sl_phase s \<noteq> Ph_ready then (- 1, s) else (0, s\<lparr>sl_phase := Ph_running, sl_last_active := now\<rparr>)) t"

definition agent_stop :: "u64 \<Rightarrow> agent_id \<Rightarrow> agent_table \<Rightarrow> int \<times> agent_table" where
  "agent_stop now a t = on_agent a
     (\<lambda>s. if sl_phase s \<noteq> Ph_running \<and> sl_phase s \<noteq> Ph_waiting then (- 1, s)
          else (0, s\<lparr>sl_phase := Ph_completed, sl_last_active := now\<rparr>)) t"

text \<open>
  Waiting polls; a poll is the table and the time at which it looks. \<open>None\<close>: it still waits after
  these polls.
\<close>

fun wait_polls :: "int \<Rightarrow> u64 \<Rightarrow> agent_id \<Rightarrow> (agent_table \<times> u64) list \<Rightarrow> int option" where
  "wait_polls timeout begun a [] = None"
| "wait_polls timeout begun a ((t, now) # polls) =
     (case slot_of a t of
        None \<Rightarrow> Some (- 1)
      | Some i \<Rightarrow>
          if sl_phase (ta_agents t ! i) = Ph_completed \<or> sl_phase (ta_agents t ! i) = Ph_error then Some 0
          else if timeout > 0 \<and> now - begun \<ge> word_of_int timeout then Some (- 1)
          else wait_polls timeout begun a polls)"

definition agent_wait :: "int \<Rightarrow> u64 \<Rightarrow> agent_id \<Rightarrow> agent_table \<Rightarrow> (agent_table \<times> u64) list \<Rightarrow> int option" where
  "agent_wait timeout begun a t polls = (if \<not> ta_initialized t then Some (- 1) else wait_polls timeout begun a polls)"

definition agent_get_state :: "agent_id \<Rightarrow> agent_table \<Rightarrow> phase" where
  "agent_get_state a t =
     (if \<not> ta_initialized t then Ph_created
      else case slot_of a t of None \<Rightarrow> Ph_created | Some i \<Rightarrow> sl_phase (ta_agents t ! i))"

fun phase_code :: "phase \<Rightarrow> nat" where
  "phase_code Ph_created = 0"
| "phase_code Ph_ready = 1"
| "phase_code Ph_running = 2"
| "phase_code Ph_waiting = 3"
| "phase_code Ph_completed = 4"
| "phase_code Ph_error = 5"

definition state_names :: "string list" where
  "state_names = [''CREATED'', ''READY'', ''RUNNING'', ''WAITING'', ''COMPLETED'', ''ERROR'']"

definition agent_state_str :: "nat \<Rightarrow> string" where
  "agent_state_str code = (if code < 6 then state_names ! code else ''UNKNOWN'')"

definition agent_set_priority :: "agent_id \<Rightarrow> u32 \<Rightarrow> agent_table \<Rightarrow> int \<times> agent_table" where
  "agent_set_priority a p t = on_agent a (\<lambda>s. (0, s\<lparr>sl_priority := p\<rparr>)) t"

section \<open>The table\<close>

definition live :: "agent_slot \<Rightarrow> bool" where
  "live s \<longleftrightarrow> sl_id s \<noteq> 0"

text \<open>Numbers are those given out before, each at most once; the count is that of the agents.\<close>

definition table_ok :: "agent_table \<Rightarrow> bool" where
  "table_ok t \<longleftrightarrow>
     length (ta_agents t) = MAX_AGENTS \<and> unat (ta_count t) = length (filter live (ta_agents t)) \<and>
     (ta_initialized t \<longrightarrow> ta_next_id t \<noteq> 0) \<and>
     (\<forall>i < MAX_AGENTS. live (ta_agents t ! i) \<longrightarrow> ta_initialized t \<and> sl_id (ta_agents t ! i) < ta_next_id t) \<and>
     (\<forall>i < MAX_AGENTS. \<forall>j < MAX_AGENTS. live (ta_agents t ! i) \<longrightarrow>
        sl_id (ta_agents t ! i) = sl_id (ta_agents t ! j) \<longrightarrow> i = j)"

lemma slot_of_Some:
  "slot_of a t = Some i \<Longrightarrow> i < MAX_AGENTS \<and> sl_id (ta_agents t ! i) = a"
  by (auto simp: slot_of_def find_Some_iff)

lemma slot_of_iff:
  assumes "table_ok t" and "a \<noteq> 0"
  shows "slot_of a t = Some i \<longleftrightarrow> i < MAX_AGENTS \<and> sl_id (ta_agents t ! i) = a"
proof
  assume h: "i < MAX_AGENTS \<and> sl_id (ta_agents t ! i) = a"
  then have "slot_of a t \<noteq> None" by (auto simp: slot_of_def find_None_iff)
  then obtain j where j: "slot_of a t = Some j" by blast
  with slot_of_Some [OF this] h assms have "i = j" unfolding table_ok_def live_def by metis
  with j show "slot_of a t = Some i" by simp
qed (rule slot_of_Some)

lemma live_count_le: "table_ok t \<Longrightarrow> unat (ta_count t) \<le> MAX_AGENTS"
  using length_filter_le [of live "ta_agents t"] by (simp add: table_ok_def)

text \<open>How a slot is changed: by the numbers of the slots alone.\<close>

lemma table_okI:
  assumes "length (ta_agents t) = MAX_AGENTS" and "unat (ta_count t) = length (filter live (ta_agents t))"
    and "ta_initialized t \<Longrightarrow> ta_next_id t \<noteq> 0"
    and "\<And>i. i < MAX_AGENTS \<Longrightarrow> sl_id (ta_agents t ! i) \<noteq> 0 \<Longrightarrow> ta_initialized t \<and> sl_id (ta_agents t ! i) < ta_next_id t"
    and "\<And>i j. i < MAX_AGENTS \<Longrightarrow> j < MAX_AGENTS \<Longrightarrow> sl_id (ta_agents t ! i) \<noteq> 0 \<Longrightarrow>
      sl_id (ta_agents t ! i) = sl_id (ta_agents t ! j) \<Longrightarrow> i = j"
  shows "table_ok t"
  using assms unfolding table_ok_def live_def by blast

lemma table_okD:
  assumes "table_ok t"
  shows "length (ta_agents t) = MAX_AGENTS" and "unat (ta_count t) = length (filter live (ta_agents t))"
    and "ta_initialized t \<Longrightarrow> ta_next_id t \<noteq> 0"
    and "\<And>i. i < MAX_AGENTS \<Longrightarrow> sl_id (ta_agents t ! i) \<noteq> 0 \<Longrightarrow> ta_initialized t \<and> sl_id (ta_agents t ! i) < ta_next_id t"
    and "\<And>i j. i < MAX_AGENTS \<Longrightarrow> j < MAX_AGENTS \<Longrightarrow> sl_id (ta_agents t ! i) \<noteq> 0 \<Longrightarrow>
      sl_id (ta_agents t ! i) = sl_id (ta_agents t ! j) \<Longrightarrow> i = j"
  using assms unfolding table_ok_def live_def by blast+

text \<open>A slot that keeps its number.\<close>

lemma put_slot_ok:
  assumes ok: "table_ok t" and i: "i < MAX_AGENTS" and same: "sl_id s = sl_id (ta_agents t ! i)"
  shows "table_ok (put_slot i s t)"
proof -
  have len: "length (ta_agents t) = MAX_AGENTS" using ok by (simp add: table_ok_def)
  have id: "sl_id ((ta_agents t)[i := s] ! j) = sl_id (ta_agents t ! j)" for j
    using same i len by (cases "i = j") simp_all
  have "length (filter live ((ta_agents t)[i := s])) = length (filter live (ta_agents t))"
    using length_filter_update [of i "ta_agents t" live s] i len same by (simp add: live_def split: if_splits)
  then show ?thesis using ok by (simp add: table_ok_def put_slot_def id live_def)
qed

lemma on_agent_ok:
  assumes ok: "table_ok t" and f: "\<And>s. sl_id (snd (f s)) = sl_id s"
  shows "table_ok (snd (on_agent a f t))"
proof (cases "ta_initialized t")
  case True
  show ?thesis
  proof (cases "slot_of a t")
    case (Some i)
    obtain r s where fs: "f (ta_agents t ! i) = (r, s)" by (rule prod.exhaust)
    then have "sl_id s = sl_id (ta_agents t ! i)" using f [of "ta_agents t ! i"] by simp
    with put_slot_ok [OF ok _ this] slot_of_Some [OF Some] show ?thesis using Some fs True by (simp add: on_agent_def)
  qed (use True ok in \<open>simp add: on_agent_def\<close>)
qed (use ok in \<open>simp add: on_agent_def\<close>)

section \<open>Runs\<close>

datatype table_op =
    Create u64 table_config
  | Destroy agent_id
  | Initialize u64 agent_id
  | Start u64 agent_id
  | Stop u64 agent_id
  | Set_priority agent_id u32

fun table_step :: "table_op \<Rightarrow> agent_table \<Rightarrow> agent_id \<times> agent_table" where
  "table_step (Create now c) t = agent_create now (Some c) t"
| "table_step (Destroy a) t = (0, snd (agent_destroy a t))"
| "table_step (Initialize now a) t = (0, snd (agent_init now a t))"
| "table_step (Start now a) t = (0, snd (agent_start now a t))"
| "table_step (Stop now a) t = (0, snd (agent_stop now a t))"
| "table_step (Set_priority a p) t = (0, snd (agent_set_priority a p t))"

text \<open>The table after a run, and the numbers that were given out in it, the last one first.\<close>

fun table_run :: "table_op list \<Rightarrow> agent_id list \<times> agent_table \<Rightarrow> agent_id list \<times> agent_table" where
  "table_run [] x = x"
| "table_run (k # ks) (given, t) =
     (case table_step k t of (a, t') \<Rightarrow> table_run ks (if a = 0 then given else a # given, t'))"

text \<open>No operation is asked for the number 0, which is that of the free slots.\<close>

fun real_id :: "table_op \<Rightarrow> bool" where
  "real_id (Create now c) = True"
| "real_id (Destroy a) = (a \<noteq> 0)"
| "real_id (Initialize now a) = (a \<noteq> 0)"
| "real_id (Start now a) = (a \<noteq> 0)"
| "real_id (Stop now a) = (a \<noteq> 0)"
| "real_id (Set_priority a p) = (a \<noteq> 0)"

text \<open>What a step does to the slots: nothing, one slot keeps its number, one is freed, or one is taken.\<close>

definition forward :: "phase \<Rightarrow> phase \<Rightarrow> bool" where
  "forward p p' \<longleftrightarrow> phase_code p \<le> phase_code p'"

lemma on_agent_cases:
  assumes "table_ok t" and "a \<noteq> 0"
  obtains "snd (on_agent a f t) = t"
    | i where "i < MAX_AGENTS" "sl_id (ta_agents t ! i) = a" "on_agent a f t = (fst (f (ta_agents t ! i)), put_slot i (snd (f (ta_agents t ! i))) t)"
proof (cases "ta_initialized t \<and> slot_of a t \<noteq> None")
  case True
  then obtain i where i: "slot_of a t = Some i" by blast
  with slot_of_Some [OF i] True that(2) [of i] show thesis by (simp add: on_agent_def case_prod_beta)
next
  case False
  then show thesis using that(1) by (auto simp: on_agent_def split: option.splits)
qed

definition step_kinds :: "agent_table \<Rightarrow> agent_id \<Rightarrow> agent_table \<Rightarrow> bool" where
  "step_kinds t a t' \<longleftrightarrow>
     a = 0 \<and> t' = t \<or>
     (\<exists>i s. a = 0 \<and> i < MAX_AGENTS \<and> live (ta_agents t ! i) \<and> t' = put_slot i s t \<and> sl_id s = sl_id (ta_agents t ! i) \<and>
        forward (sl_phase (ta_agents t ! i)) (sl_phase s)) \<or>
     (\<exists>i s. a = 0 \<and> i < MAX_AGENTS \<and> live (ta_agents t ! i) \<and> \<not> live s \<and> t' = (put_slot i s t)\<lparr>ta_count := ta_count t - 1\<rparr>) \<or>
     (\<exists>i s. ta_initialized t \<and> a = ta_next_id t \<and> i < MAX_AGENTS \<and> \<not> live (ta_agents t ! i) \<and> sl_id s = a \<and>
        t' = (put_slot i s t)\<lparr>ta_next_id := a + 1, ta_count := ta_count t + 1\<rparr>)"

lemma on_agent_step:
  assumes ok: "table_ok t" and a: "a \<noteq> 0" and f: "\<And>s. sl_id (snd (f s)) = sl_id s \<and> forward (sl_phase s) (sl_phase (snd (f s)))"
  shows "step_kinds t 0 (snd (on_agent a f t))"
  using ok a
proof (cases rule: on_agent_cases [where f = f])
  case (2 i)
  have "0 = (0 :: agent_id) \<and> i < MAX_AGENTS \<and> live (ta_agents t ! i) \<and> snd (on_agent a f t) = put_slot i (snd (f (ta_agents t ! i))) t \<and>
      sl_id (snd (f (ta_agents t ! i))) = sl_id (ta_agents t ! i) \<and> forward (sl_phase (ta_agents t ! i)) (sl_phase (snd (f (ta_agents t ! i))))"
    using 2 a f [of "ta_agents t ! i"] by (simp add: live_def)
  then show ?thesis unfolding step_kinds_def by blast
qed (simp add: step_kinds_def)

lemma table_step_kinds:
  assumes ok: "table_ok t" and k: "real_id k" and st: "table_step k t = (a, t')"
  shows "step_kinds t a t'"
proof (cases k)
  case (Create now c)
  show ?thesis
  proof (cases "ta_initialized t \<and> slot_of 0 t \<noteq> None")
    case True
    then obtain i where i: "slot_of 0 t = Some i" by blast
    define s where "s = \<lparr>sl_id = ta_next_id t, sl_name = take (AGENT_NAME_MAX - 1) (tb_name c), sl_phase = Ph_created,
      sl_priority = tb_priority c, sl_context = False, sl_ops = None, sl_create_time = now, sl_last_active = now\<rparr>"
    have "a = ta_next_id t" "t' = (put_slot i s t)\<lparr>ta_next_id := a + 1, ta_count := ta_count t + 1\<rparr>"
      using st Create i True by (auto simp: agent_create_def Let_def s_def)
    moreover have "i < MAX_AGENTS" "\<not> live (ta_agents t ! i)" "sl_id s = ta_next_id t" using slot_of_Some [OF i] by (simp_all add: live_def s_def)
    ultimately show ?thesis unfolding step_kinds_def using True by blast
  next
    case False
    then have "a = 0" "t' = t" using st Create by (auto simp: agent_create_def split: option.splits if_splits)
    then show ?thesis by (simp add: step_kinds_def)
  qed
next
  case (Destroy b)
  define f where "f = (\<lambda>s :: agent_slot. (0 :: int, s\<lparr>sl_context := False, sl_id := 0, sl_phase := Ph_created\<rparr>))"
  have b: "b \<noteq> 0" using k Destroy by simp
  have eq: "a = 0" "t' = (case on_agent b f t of (r, t) \<Rightarrow> if r = 0 then t\<lparr>ta_count := ta_count t - 1\<rparr> else t)"
    using st Destroy by (auto simp: agent_destroy_def f_def case_prod_beta)
  from ok b show ?thesis
  proof (cases rule: on_agent_cases [where f = f])
    case 1
    have "on_agent b f t = (- 1, t) \<or> fst (on_agent b f t) = 0" by (auto simp: on_agent_def f_def split: option.splits)
    show ?thesis
    proof (cases "fst (on_agent b f t) = 0")
      case True
      then obtain i where i: "slot_of b t = Some i" "ta_initialized t" by (auto simp: on_agent_def split: if_splits option.splits)
      then have "on_agent b f t = (0, put_slot i (snd (f (ta_agents t ! i))) t)" by (simp add: on_agent_def f_def)
      moreover have "i < MAX_AGENTS" "live (ta_agents t ! i)" "\<not> live (snd (f (ta_agents t ! i)))"
        using slot_of_Some [OF i(1)] b by (simp_all add: live_def f_def)
      ultimately show ?thesis unfolding step_kinds_def eq by (auto simp: put_slot_def)
    next
      case False
      then show ?thesis using 1 by (simp add: step_kinds_def eq case_prod_beta)
    qed
  next
    case (2 i)
    then have "t' = (put_slot i (snd (f (ta_agents t ! i))) t)\<lparr>ta_count := ta_count t - 1\<rparr>" by (simp add: eq f_def put_slot_def)
    moreover have "live (ta_agents t ! i)" "\<not> live (snd (f (ta_agents t ! i)))" using 2 b by (simp_all add: live_def f_def)
    ultimately show ?thesis unfolding step_kinds_def using 2(1) eq(1) by blast
  qed
qed (use st k on_agent_step [OF ok] in \<open>auto simp: agent_init_def agent_start_def agent_stop_def agent_set_priority_def
    init_slot_def forward_def Let_def\<close>)

lemma put_slot_fields [simp]:
  "ta_count (put_slot i s t) = ta_count t" "ta_next_id (put_slot i s t) = ta_next_id t"
  "ta_initialized (put_slot i s t) = ta_initialized t" "ta_agents (put_slot i s t) = (ta_agents t)[i := s]"
  by (simp_all add: put_slot_def)

lemma next_number:
  fixes x :: agent_id
  assumes "x \<noteq> - 1"
  shows "unat (x + 1) = Suc (unat x)" and "x < x + 1" and "x + 1 \<noteq> 0"
proof -
  show nz: "x + 1 \<noteq> 0" using assms by (simp add: eq_neg_iff_add_eq_0)
  then show u: "unat (x + 1) = Suc (unat x)" by (metis unatSuc add.commute)
  then show "x < x + 1" by (simp add: word_less_nat_alt)
qed

lemma step_numbers:
  assumes "step_kinds t a t'" and "ta_next_id t \<noteq> - 1"
  shows "ta_initialized t' = ta_initialized t" and "ta_next_id t \<le> ta_next_id t'" and "unat (ta_next_id t') \<le> Suc (unat (ta_next_id t))"
    and "a \<noteq> 0 \<Longrightarrow> a = ta_next_id t \<and> a < ta_next_id t'"
proof -
  note next_number [OF assms(2)]
  with assms(1) show "ta_initialized t' = ta_initialized t" "ta_next_id t \<le> ta_next_id t'" "unat (ta_next_id t') \<le> Suc (unat (ta_next_id t))"
    "a \<noteq> 0 \<Longrightarrow> a = ta_next_id t \<and> a < ta_next_id t'" by (auto simp: step_kinds_def)
qed

lemma step_table_ok:
  assumes ok: "table_ok t" and k: "step_kinds t a t'" and room: "ta_next_id t \<noteq> - 1"
  shows "table_ok t'"
proof -
  have len: "length (ta_agents t) = MAX_AGENTS" and cnt: "unat (ta_count t) = length (filter live (ta_agents t))" using ok by (simp_all add: table_ok_def)
  have small: "unat (ta_count t) \<le> 256" using live_count_le [OF ok] by (simp add: MAX_AGENTS_def)
  from k consider "t' = t" | i s where "i < MAX_AGENTS" "t' = put_slot i s t" "sl_id s = sl_id (ta_agents t ! i)"
    | i s where "i < MAX_AGENTS" "live (ta_agents t ! i)" "\<not> live s" "t' = (put_slot i s t)\<lparr>ta_count := ta_count t - 1\<rparr>"
    | i s where "ta_initialized t" "a = ta_next_id t" "i < MAX_AGENTS" "\<not> live (ta_agents t ! i)" "sl_id s = a"
      "t' = (put_slot i s t)\<lparr>ta_next_id := a + 1, ta_count := ta_count t + 1\<rparr>"
    unfolding step_kinds_def by blast
  then show ?thesis
  proof cases
    case (2 i s)
    then show ?thesis using put_slot_ok [OF ok] by simp
  next
    case (3 i s)
    have f: "Suc (length (filter live ((ta_agents t)[i := s]))) = length (filter live (ta_agents t))"
      using length_filter_update [of i "ta_agents t" live s] 3(1,2,3) len by simp
    then have "unat (ta_count t - 1) = length (filter live ((ta_agents t)[i := s]))"
      using cnt by (metis Suc_inject Zero_not_Suc diff_Suc_1 unat_0 unat_minus_one)
    moreover have "sl_id ((ta_agents t)[i := s] ! j) = (if j = i then 0 else sl_id (ta_agents t ! j))" if "j < MAX_AGENTS" for j
      using 3(1,3) len that by (simp add: live_def)
    ultimately show ?thesis using ok by (auto simp: table_ok_def 3(4) live_def)
  next
    case (4 i s)
    have nx: "ta_next_id t \<noteq> 0" "ta_next_id t + 1 \<noteq> 0" "ta_next_id t < ta_next_id t + 1"
      using table_okD(3) [OF ok 4(1)] next_number [OF room] by simp_all
    have "length (filter live ((ta_agents t)[i := s])) = Suc (length (filter live (ta_agents t)))"
      using length_filter_update [of i "ta_agents t" live s] 4 len nx by (simp add: live_def)
    moreover have "unat (ta_count t + 1) = Suc (unat (ta_count t))" using small by (simp add: unat_word_ariths)
    moreover have "sl_id ((ta_agents t)[i := s] ! j) = (if j = i then ta_next_id t else sl_id (ta_agents t ! j))" if "j < MAX_AGENTS" for j
      using 4 len that by simp
    moreover have other: "sl_id (ta_agents t ! j) \<noteq> ta_next_id t \<and> sl_id (ta_agents t ! j) < ta_next_id t + 1" if "j < MAX_AGENTS" for j
    proof (cases "live (ta_agents t ! j)")
      case True
      then have "sl_id (ta_agents t ! j) < ta_next_id t" using ok that by (simp add: table_ok_def)
      with nx(3) show ?thesis by auto
    next
      case False
      then show ?thesis using nx by (simp add: live_def word_greater_zero_iff)
    qed
    ultimately show ?thesis
    proof (intro table_okI)
      fix j l
      assume h: "j < MAX_AGENTS" "l < MAX_AGENTS" "sl_id (ta_agents t' ! j) \<noteq> 0" "sl_id (ta_agents t' ! j) = sl_id (ta_agents t' ! l)"
      have ids: "sl_id (ta_agents t' ! x) = (if x = i then ta_next_id t else sl_id (ta_agents t ! x))" if "x < MAX_AGENTS" for x
        using 4 len that by simp
      show "j = l"
        using h ids [OF h(1)] ids [OF h(2)] other [OF h(1)] other [OF h(2)] table_okD(5) [OF ok h(1,2)] by (metis (full_types))
    qed (use 4 len cnt nx in auto)
  qed (use ok in simp)
qed

text \<open>An agent stays in its slot until it is destroyed, goes forward there, and does not come back.\<close>

lemma step_agent:
  assumes ok: "table_ok t" and k: "step_kinds t a t'" and room: "ta_next_id t \<noteq> - 1" and b: "b \<noteq> 0" "b < ta_next_id t"
  shows "slot_of b t = None \<Longrightarrow> slot_of b t' = None"
    and "slot_of b t = Some i \<Longrightarrow> slot_of b t' = None \<or>
      slot_of b t' = Some i \<and> forward (sl_phase (ta_agents t ! i)) (sl_phase (ta_agents t' ! i))"
proof -
  note ok' = step_table_ok [OF ok k room]
  have len: "length (ta_agents t) = MAX_AGENTS" using ok by (simp add: table_ok_def)
  have at: "\<exists>x s. ta_agents t' = ta_agents t \<or> x < MAX_AGENTS \<and> ta_agents t' = (ta_agents t)[x := s] \<and>
      (sl_id s = sl_id (ta_agents t ! x) \<and> forward (sl_phase (ta_agents t ! x)) (sl_phase s) \<or> sl_id s = 0 \<or>
       sl_id s = ta_next_id t \<and> sl_id (ta_agents t ! x) = 0)"
    using k unfolding step_kinds_def live_def by fastforce
  then obtain x s where h: "ta_agents t' = ta_agents t \<or> x < MAX_AGENTS \<and> ta_agents t' = (ta_agents t)[x := s] \<and>
      (sl_id s = sl_id (ta_agents t ! x) \<and> forward (sl_phase (ta_agents t ! x)) (sl_phase s) \<or> sl_id s = 0 \<or>
       sl_id s = ta_next_id t \<and> sl_id (ta_agents t ! x) = 0)" by blast
  have id: "sl_id (ta_agents t' ! j) = b \<Longrightarrow> sl_id (ta_agents t ! j) = b \<and> forward (sl_phase (ta_agents t ! j)) (sl_phase (ta_agents t' ! j))"
    if "j < MAX_AGENTS" for j
    using h that len b by (cases "j = x") (auto simp: forward_def)
  show "slot_of b t' = None" if "slot_of b t = None"
  proof (rule ccontr)
    assume "slot_of b t' \<noteq> None"
    then obtain j where "slot_of b t' = Some j" by blast
    from slot_of_Some [OF this] id have "j < MAX_AGENTS" "sl_id (ta_agents t ! j) = b" by auto
    with slot_of_iff [OF ok b(1)] that show False by simp
  qed
  show "slot_of b t' = None \<or> slot_of b t' = Some i \<and> forward (sl_phase (ta_agents t ! i)) (sl_phase (ta_agents t' ! i))"
    if "slot_of b t = Some i"
  proof (cases "slot_of b t'")
    case (Some j)
    from slot_of_Some [OF this] id [of j] have j: "j < MAX_AGENTS" "sl_id (ta_agents t ! j) = b"
      "forward (sl_phase (ta_agents t ! j)) (sl_phase (ta_agents t' ! j))" by auto
    then have "slot_of b t = Some j" using slot_of_iff [OF ok b(1)] by simp
    with that Some j show ?thesis by simp
  qed simp
qed

lemma last_number: "unat (- 1 :: agent_id) = 2 ^ 64 - 1"
  by (simp add: unsigned_minus_1_eq_mask mask_eq_exp_minus_1)

lemma table_run_append: "table_run (ks @ ls) x = table_run ls (table_run ks x)"
proof (induction ks arbitrary: x)
  case (Cons k ks)
  then show ?case by (cases x) (simp split: prod.split)
qed simp

text \<open>What holds of a run: the numbers given out are below the next one.\<close>

definition run_ok :: "nat \<Rightarrow> agent_id list \<times> agent_table \<Rightarrow> bool" where
  "run_ok n x \<longleftrightarrow> table_ok (snd x) \<and> ta_initialized (snd x) \<and> unat (ta_next_id (snd x)) + n < 2 ^ 64 \<and> distinct (fst x) \<and>
     (\<forall>a \<in> set (fst x). a \<noteq> 0 \<and> a < ta_next_id (snd x))"

text \<open>The life of an agent between two tables.\<close>

definition later :: "agent_id \<Rightarrow> agent_table \<Rightarrow> agent_table \<Rightarrow> bool" where
  "later b t t' \<longleftrightarrow>
     (slot_of b t = None \<longrightarrow> slot_of b t' = None) \<and>
     (slot_of b t \<noteq> None \<and> slot_of b t' \<noteq> None \<longrightarrow> forward (agent_get_state b t) (agent_get_state b t'))"

lemma table_later_trans: "later b t t' \<Longrightarrow> later b t' t'' \<Longrightarrow> later b t t''"
  unfolding later_def forward_def by (metis order_trans)

lemma table_run_ok:
  assumes "run_ok (m + length ks) x" and "list_all real_id ks"
  shows "run_ok m (table_run ks x) \<and> (\<forall>b. b \<noteq> 0 \<and> b < ta_next_id (snd x) \<longrightarrow> later b (snd x) (snd (table_run ks x)))"
  using assms
proof (induction ks arbitrary: x)
  case Nil
  then show ?case by (simp add: later_def forward_def)
next
  case (Cons k ks)
  obtain given t where x: "x = (given, t)" by (rule prod.exhaust)
  obtain a t' where st: "table_step k t = (a, t')" by (rule prod.exhaust)
  have pre: "table_ok t" "ta_initialized t" "unat (ta_next_id t) + Suc (m + length ks) < 2 ^ 64" "distinct given"
    "\<forall>a \<in> set given. a \<noteq> 0 \<and> a < ta_next_id t" using Cons.prems(1) by (simp_all add: run_ok_def x)
  have room: "ta_next_id t \<noteq> - 1" using pre(3) last_number by auto
  have sk: "step_kinds t a t'" using table_step_kinds [OF pre(1) _ st] Cons.prems(2) by simp
  note N = step_numbers [OF sk room]
  have ok': "table_ok t'" using step_table_ok [OF pre(1) sk room] .
  define y where "y = (if a = 0 then given else a # given, t')"
  have mono: "c < ta_next_id t'" if "c < ta_next_id t" for c using that N(2) by (rule order_less_le_trans)
  have y: "run_ok (m + length ks) y" using pre ok' N mono by (auto simp: run_ok_def y_def)
  have one: "later b t t'" if "b \<noteq> 0" "b < ta_next_id t" for b
  proof -
    note A = step_agent [OF pre(1) sk room that]
    have "slot_of b t = Some i \<Longrightarrow> slot_of b t' = None \<or> forward (agent_get_state b t) (agent_get_state b t')" for i
      using A(2) [of i] pre(2) N(1) by (auto simp: agent_get_state_def)
    with A(1) show ?thesis by (auto simp: later_def)
  qed
  have run: "table_run (k # ks) x = table_run ks y" using st by (simp add: x y_def)
  note IH = Cons.IH [OF y]
  have "later b t (snd (table_run ks y))" if "b \<noteq> 0" "b < ta_next_id t" for b
    using table_later_trans [OF one [OF that]] IH Cons.prems(2) that mono by (simp add: y_def)
  then show ?case unfolding run using IH Cons.prems(2) by (simp add: x)
qed

text \<open>
  Numbers identify agents: however clients that use the numbers they were given create, move and
  destroy agents, no number is given out twice, an agent that is gone never comes back, and one that is
  still there has only gone forward from CREATED over READY, RUNNING and WAITING to COMPLETED or ERROR;
  the count of the table is the number of its agents.
\<close>

theorem lifecycle_forward:
  assumes "agent_runtime_init t0 = (0, t)" and "table_run ks ([], t) = (given, t1)" and "table_run ls (given, t1) = (given', t2)"
    and "list_all real_id (ks @ ls)" and "length (ks @ ls) < 2 ^ 64 - 1"
  shows "distinct given' \<and> unat (ta_count t2) = length (filter (\<lambda>s. sl_id s \<noteq> 0) (ta_agents t2)) \<and>
    (\<forall>a \<in> set given. (slot_of a t1 = None \<longrightarrow> slot_of a t2 = None) \<and>
      (slot_of a t1 \<noteq> None \<and> slot_of a t2 \<noteq> None \<longrightarrow>
        phase_code (agent_get_state a t1) \<le> phase_code (agent_get_state a t2)))"
proof -
  have t: "t = zero_table\<lparr>ta_next_id := 1, ta_initialized := True\<rparr>" using assms(1) by (auto simp: agent_runtime_init_def split: if_splits)
  have zero: "zero_slot \<in> set (ta_agents t) \<Longrightarrow> \<not> live zero_slot" by (simp add: live_def zero_slot_def)
  have "table_ok t" by (simp add: t table_ok_def zero_table_def live_def zero_slot_def)
  then have start: "run_ok (length (ks @ ls)) ([], t)" using assms(5) by (simp add: run_ok_def t)
  have ks: "list_all real_id ks" and ls: "list_all real_id ls" using assms(4) by simp_all
  have mid: "run_ok (length ls) (given, t1)"
    using table_run_ok [of "length ls" ks "([], t)"] start ks assms(2) by (simp add: add.commute)
  then have fin: "run_ok 0 (given', t2)" "\<And>b. b \<noteq> 0 \<Longrightarrow> b < ta_next_id t1 \<Longrightarrow> later b t1 t2"
    using table_run_ok [of 0 ls "(given, t1)"] ls assms(3) by simp_all
  have "later a t1 t2" if "a \<in> set given" for a using fin(2) mid that by (simp add: run_ok_def)
  then show ?thesis using fin(1) by (simp add: run_ok_def table_okD(2) later_def forward_def live_def [abs_def])
qed

definition demo_config :: table_config where
  "demo_config = \<lparr>tb_name = ''planner'', tb_priority = 5, tb_memory_limit = 0, tb_cpu_affinity = 1\<rparr>"

definition demo_table :: agent_table where
  "demo_table = snd (agent_runtime_init zero_table)"

definition demo_morning :: "table_op list" where
  "demo_morning = [Create 5 demo_config, Initialize 6 1, Start 7 1]"

definition demo_evening :: "table_op list" where
  "demo_evening = [Create 8 demo_config, Stop 9 1, Destroy 2]"

lemma table_demo_states:
  "agent_get_state 1 (snd (table_run demo_morning ([], demo_table))) = Ph_running"
  "agent_get_state 1 (snd (table_run demo_evening (table_run demo_morning ([], demo_table)))) = Ph_completed"
  "fst (table_run demo_evening (table_run demo_morning ([], demo_table))) = [2, 1]"
  by code_simp+

theorem lifecycle_forward_witness:
  "let t = demo_table; (given, t1) = table_run demo_morning ([], t); (given', t2) = table_run demo_evening (given, t1)
   in agent_runtime_init zero_table = (0, t) \<and> given' = [2, 1] \<and> distinct given' \<and>
     agent_get_state 1 t1 = Ph_running \<and> agent_get_state 1 t2 = Ph_completed \<and>
     unat (ta_count t2) = length (filter (\<lambda>s. sl_id s \<noteq> 0) (ta_agents t2))"
proof -
  obtain given t1 where one: "table_run demo_morning ([], demo_table) = (given, t1)" by (rule prod.exhaust)
  obtain given' t2 where two: "table_run demo_evening (given, t1) = (given', t2)" by (rule prod.exhaust)
  have init: "agent_runtime_init zero_table = (0, demo_table)" by (simp add: demo_table_def agent_runtime_init_def zero_table_def)
  have "list_all real_id (demo_morning @ demo_evening)" "length (demo_morning @ demo_evening) < 2 ^ 64 - 1"
    by (simp_all add: demo_morning_def demo_evening_def)
  from lifecycle_forward [OF init one two this] show ?thesis using init table_demo_states by (simp add: one two Let_def)
qed

end
