(* ===== verification/Spec2Isabelle.thy ===== *)
theory Spec2Isabelle
  imports Invocation_Protocol Scheduler_Careful Context_Steps Shared_Memory_Steps Shared_Memory_Channel
    Invocation_Calls Invocation_Server Control_Delivery Top_Steps
    Engine_Steps Engine_Sim Ready_Ring Model_Steps Kv_Steps Agent_Table Resource_Table
begin

text \<open>
  AgentNucleus is a local runtime for agents. \<^verbatim>\<open>agent-runtime/\<close> holds the substrate: a daemon
  schedules a graph of tasks, executes commands as child processes and invocations through a service,
  and keeps the results in shared memory. \<^verbatim>\<open>agent_runtime_top/\<close> holds the service that answers the
  invocations: models behind \<^verbatim>\<open>llm.h\<close>, with contexts, checkpoints and conversations, and tools.

  \<^bold>\<open>Parts, in the order in which they build on each other.\<close>

  \<^item> \<^verbatim>\<open>Prelude\<close>, \<^verbatim>\<open>Text_IO\<close>, \<^verbatim>\<open>Alist_Multiset\<close>: machine integers as words, decimal text, association
    lists for the unordered containers (a list in the order of iteration), reading of text files.
  \<^item> \<^verbatim>\<open>Agent_Types\<close>: \<^verbatim>\<open>types.h\<close>. The enums are datatypes, the structs records, and the transitions of
    an agent the function of \<^verbatim>\<open>scheduler.cpp\<close>.
  \<^item> \<^verbatim>\<open>Wire\<close>, \<^verbatim>\<open>Control_Protocol\<close>, \<^verbatim>\<open>Invocation_Protocol\<close>: the packets of \<^verbatim>\<open>control_protocol.cpp\<close> and
    \<^verbatim>\<open>invocation_protocol.cpp\<close>, byte for byte. The locale \<^verbatim>\<open>codec\<close> states what a writer and its
    reader promise; it is interpreted for every field and every record of both protocols, and the
    round trips of the packets follow from it.
  \<^item> \<^verbatim>\<open>Scheduler\<close>, \<^verbatim>\<open>Scheduler_Graph\<close>, \<^verbatim>\<open>Scheduler_Submit\<close>, \<^verbatim>\<open>Scheduler_Inv\<close>, \<^verbatim>\<open>Scheduler_Careful\<close>:
    \<^verbatim>\<open>scheduler.cpp\<close>. First the operations, then the graph traversals against paths in the graph, the
    effect of a submission, the invariant under all operations in any order, and what holds for callers
    that report an end only for agents they were given (careful callers).
  \<^item> \<^verbatim>\<open>Resource_Monitor\<close>: \<^verbatim>\<open>resource_monitor.cpp\<close>, the sampling of memory and the admission.
  \<^item> \<^verbatim>\<open>Context_Manager\<close>, \<^verbatim>\<open>Context_Inv\<close>, \<^verbatim>\<open>Context_Steps\<close>, \<^verbatim>\<open>Context_Moves\<close>: \<^verbatim>\<open>context_manager.cpp\<close>,
    its invariant, its reachable states, and what an acquisition does to every other context.
  \<^item> \<^verbatim>\<open>Posix\<close>: the descriptor table, memory files, seals and mappings; a list of faults decides which
    calls fail. \<^verbatim>\<open>Shared_Memory\<close>, \<^verbatim>\<open>Shared_Memory_Inv\<close>, \<^verbatim>\<open>Shared_Memory_Steps\<close>,
    \<^verbatim>\<open>Shared_Memory_Channel\<close>: \<^verbatim>\<open>shared_memory.cpp\<close>, the ownership of descriptors, the immutability of
    results, and the passing of a descriptor.
  \<^item> \<^verbatim>\<open>Local_Socket\<close>, \<^verbatim>\<open>Invocation_Channel\<close>, \<^verbatim>\<open>Invocation_Delivery\<close>, \<^verbatim>\<open>Invocation_Calls\<close>,
    \<^verbatim>\<open>Invocation_Server\<close>: \<^verbatim>\<open>invocation_channel.cpp\<close>, the client's call, the handling of one client, and
    the servers of a host as a step relation.
  \<^item> \<^verbatim>\<open>Process_Executor\<close>, \<^verbatim>\<open>Cgroup_Manager\<close>, \<^verbatim>\<open>Tool_Manager\<close>: the child processes, the control groups
    and the tools.
  \<^item> \<^verbatim>\<open>Agent_Runtime\<close>, \<^verbatim>\<open>Runtime_Steps\<close>: \<^verbatim>\<open>runtime.cpp\<close>. The workers have program counters, so that
    every interleaving with the clients is a run of the step relation.
  \<^item> \<^verbatim>\<open>Control_Channel\<close>, \<^verbatim>\<open>Control_Delivery\<close>: \<^verbatim>\<open>control_channel.cpp\<close>, the daemon over the runtime.
  \<^item> \<^verbatim>\<open>Json_Text\<close>, \<^verbatim>\<open>Top_Runtime\<close>, \<^verbatim>\<open>Top_Inv\<close>, \<^verbatim>\<open>Top_Steps\<close>: \<^verbatim>\<open>top_runtime.cpp\<close>. The calls of the engine
    are logged, and the invariant says which tokens a sequence of the engine holds.
  \<^item> \<^verbatim>\<open>Engine\<close>, \<^verbatim>\<open>Engine_Inv\<close>, \<^verbatim>\<open>Engine_Manager\<close>, \<^verbatim>\<open>Engine_Steps\<close>, \<^verbatim>\<open>Engine_Sim\<close>:
    \<^verbatim>\<open>llm_llamacpp.c\<close>, the engine behind \<^verbatim>\<open>llm.h\<close>. llama.cpp is the parameter \<^verbatim>\<open>llama\<close>; what the
    code relies on (decoding appends the given positions, removal and copying act on one sequence,
    restoring gives back what was saved) are the laws \<^verbatim>\<open>llama_laws\<close>, hypotheses of the theorems. They say
    which positions a sequence holds, what a turn appends, and that a failed turn and every other
    sequence are left as they were. \<^verbatim>\<open>Engine_Sim\<close> is the build without the library.
  \<^item> \<^verbatim>\<open>Model_Engine\<close>, \<^verbatim>\<open>Model_Steps\<close>: \<^verbatim>\<open>model_engine.cpp\<close>, the contexts of the substrate over the
    memory admission of \<^verbatim>\<open>Resource_Monitor\<close>: what is reserved, whose a context is, and the round trip
    through a snapshot. The law \<^verbatim>\<open>restores_state\<close> is all that is asked of the library.
  \<^item> \<^verbatim>\<open>Ready_Ring\<close>, \<^verbatim>\<open>Kv_Cache\<close>, \<^verbatim>\<open>Kv_Steps\<close>, \<^verbatim>\<open>Agent_Table\<close>, \<^verbatim>\<open>Resource_Table\<close>: the prototype in C
    (\<^verbatim>\<open>scheduler.c\<close>, \<^verbatim>\<open>kv_cache.c\<close>, \<^verbatim>\<open>agent.c\<close>, \<^verbatim>\<open>resource.c\<close>). The ring refines a list, blocks are
    handed out once, agents only move forward, and a resource has one holder, each for clients that use
    the numbers, ranges and handles they were given.

  \<^bold>\<open>Conventions.\<close> An operation that returns \<^verbatim>\<open>false\<close> with a message is a function into
  \<open>(string + unit) \<times> state\<close>, \<open>Inl []\<close> when there is no message. An operation under a mutex is one step.
  The clock is an argument. What the operating system, a peer, the inference engine or a callback
  answers is an argument, so the theorems hold for all answers; floating-point numbers are finite
  rationals, infinities and not-a-number, read by a parameter for \<^verbatim>\<open>strtof\<close>.

  \<^bold>\<open>Bounds and fuel.\<close> The loops of the sources are structural recursions or functions with a measure; the
  loops that wait are given the list of events they meet, and yield \<open>None\<close> when the events are used up
  (\<^verbatim>\<open>run_returns\<close> says which events are enough). Cycle detection and cancellation recurse over the
  agents not visited yet. Where a counter of the code could wrap, the theorem names the bound
  (\<^verbatim>\<open>roomy\<close>: fewer than \<open>2 ^ 64\<close> contexts and owners were created; runs of the model engine and of the
  agent table shorter than that; a ring of at most \<open>2 ^ 31\<close> places, so that its sums of two indices stay
  within 32 bits). The figures of \<^verbatim>\<open>llm_llamacpp.c\<close> that are of type \<^verbatim>\<open>int\<close> are unbounded integers:
  their overflow is undefined in C and is not followed.

  \<^bold>\<open>Not modelled.\<close> llama.cpp itself, which is not part of the repository; the averages and quotients
  of the statistics of the prototype (floating point); the command-line programs, the examples,
  benchmarks and tests, which parse arguments, print and call the modelled parts; and the interleaving
  inside an operation that holds a mutex.
\<close>

end
